(* ===== verification/Prelude.thy ===== *)
theory Prelude
  imports Main "HOL-Library.Word"
begin

text \<open>
  Shared foundations of the development: 64-bit integer arithmetic of Go, Go's error values,
  the state-and-error monad in which every effectful operation is written, the calculus of
  two-state relations that carries the invariant proofs, and the formatting of integers in
  keys.
\<close>

named_theorems io_defs \<open>definitions of the monad's combinators\<close>

section \<open>Go integers\<close>

text \<open>
  Go's \<open>int\<close> and \<open>int64\<close> are 64 bits wide and wrap around; they are read as
  \<open>int\<close> here, with the wrap-around written out where an operation can leave the range.
  Go's division truncates towards zero.
\<close>

definition wrap64 :: "int \<Rightarrow> int" where
  "wrap64 x = (x + 2 ^ 63) mod 2 ^ 64 - 2 ^ 63"

definition go_div :: "int \<Rightarrow> int \<Rightarrow> int" where
  "go_div a b = sgn a * sgn b * (\<bar>a\<bar> div \<bar>b\<bar>)"

definition go_rem :: "int \<Rightarrow> int \<Rightarrow> int" where
  "go_rem a b = a - b * go_div a b"

definition in_int64 :: "int \<Rightarrow> bool" where
  "in_int64 x \<longleftrightarrow> - (2 ^ 63) \<le> x \<and> x < 2 ^ 63"

lemma wrap64_id [simp]: "in_int64 x \<Longrightarrow> wrap64 x = x"
  by (simp add: in_int64_def wrap64_def)

lemma wrap64_range: "in_int64 (wrap64 x)"
proof -
  have "0 \<le> (x + 2 ^ 63) mod 2 ^ 64" and "(x + 2 ^ 63) mod 2 ^ 64 < (2 ^ 64 :: int)"
    by (rule pos_mod_sign pos_mod_bound; simp)+
  then show ?thesis by (simp add: in_int64_def wrap64_def)
qed

lemma go_div_nonneg: "0 \<le> a \<Longrightarrow> 0 < b \<Longrightarrow> go_div a b = a div b"
  by (cases "a = 0") (auto simp: go_div_def)

lemma go_rem_nonneg: "0 \<le> a \<Longrightarrow> 0 < b \<Longrightarrow> go_rem a b = a mod b"
  by (simp add: go_rem_def go_div_nonneg minus_mult_div_eq_mod)

section \<open>Durations and instants\<close>

text \<open>
  \<open>time.Time\<close> and \<open>time.Duration\<close> are nanosecond counts.
  \<open>seconds_of d\<close> is \<open>int(d.Seconds())\<close>: truncation towards zero.
\<close>

type_synonym instant = int
type_synonym duration = int

definition second :: duration where "second = 1000000000"
definition millisecond :: duration where "millisecond = 1000000"
definition minute :: duration where "minute = 60 * second"
definition hour :: duration where "hour = 3600 * second"

definition seconds_of :: "duration \<Rightarrow> int" where
  "seconds_of d = go_div d second"

definition unix_seconds :: "instant \<Rightarrow> int" where
  "unix_seconds t = t div second"

section \<open>Errors\<close>

text \<open>
  Go's error values: a failed call of an external service (\<open>Fault\<close>, named by the
  operation), an error made by \<open>fmt.Errorf\<close> or \<open>errors.New\<close> (\<open>Sentinel\<close>,
  named by its text or variable), and \<open>fmt.Errorf("...: %w", err)\<close> (\<open>Wrap\<close>).
  \<open>errors_is\<close> is \<open>errors.Is\<close> against a sentinel variable.
\<close>

datatype gerr = Fault string | Sentinel string | Wrap string gerr

primrec root_error :: "gerr \<Rightarrow> gerr" where
  "root_error (Fault s) = Fault s"
| "root_error (Sentinel s) = Sentinel s"
| "root_error (Wrap s e) = root_error e"

definition errors_is :: "gerr \<Rightarrow> string \<Rightarrow> bool" where
  "errors_is e s \<longleftrightarrow> root_error e = Sentinel s"

lemma errors_is_simps [simp]:
  "errors_is (Wrap s e) t = errors_is e t"
  "errors_is (Sentinel s) t = (s = t)"
  "\<not> errors_is (Fault s) t"
  by (auto simp: errors_is_def)

section \<open>The state-and-error monad\<close>

text \<open>
  An operation takes the state and gives back its result or error together with the state
  it leaves behind: an error does not undo what was written before it.
\<close>

type_synonym ('w, 'a) io = "'w \<Rightarrow> (gerr + 'a) \<times> 'w"

definition ret :: "'a \<Rightarrow> ('w, 'a) io" where
  [io_defs]: "ret x w = (Inr x, w)"

definition throw :: "gerr \<Rightarrow> ('w, 'a) io" where
  [io_defs]: "throw e w = (Inl e, w)"

definition bind_io :: "('w, 'a) io \<Rightarrow> ('a \<Rightarrow> ('w, 'b) io) \<Rightarrow> ('w, 'b) io" where
  [io_defs]: "bind_io m k w = (case m w of (Inl e, w') \<Rightarrow> (Inl e, w') | (Inr x, w') \<Rightarrow> k x w')"

definition then_io :: "('w, 'a) io \<Rightarrow> ('w, 'b) io \<Rightarrow> ('w, 'b) io" where
  [io_defs]: "then_io m k = bind_io m (\<lambda>_. k)"

text \<open>\<open>attempt m\<close> is \<open>x, err := m()\<close> with the error inspected by the caller.\<close>

definition attempt :: "('w, 'a) io \<Rightarrow> ('w, gerr + 'a) io" where
  [io_defs]: "attempt m w = (case m w of (r, w') \<Rightarrow> (Inr r, w'))"

text \<open>\<open>best_effort m\<close> is \<open>_ = m()\<close>: the error is dropped.\<close>

definition best_effort :: "('w, 'a) io \<Rightarrow> ('w, unit) io" where
  [io_defs]: "best_effort m w = (Inr (), snd (m w))"

text \<open>\<open>wrap_err s m\<close> returns \<open>fmt.Errorf("s: %w", err)\<close> when \<open>m\<close> fails.\<close>

definition wrap_err :: "string \<Rightarrow> ('w, 'a) io \<Rightarrow> ('w, 'a) io" where
  [io_defs]: "wrap_err s m w = (case m w of (Inl e, w') \<Rightarrow> (Inl (Wrap s e), w') | (Inr x, w') \<Rightarrow> (Inr x, w'))"

definition gets_io :: "('w \<Rightarrow> 'a) \<Rightarrow> ('w, 'a) io" where
  [io_defs]: "gets_io f w = (Inr (f w), w)"

definition modify_io :: "('w \<Rightarrow> 'w) \<Rightarrow> ('w, unit) io" where
  [io_defs]: "modify_io f w = (Inr (), f w)"

definition when_io :: "bool \<Rightarrow> ('w, unit) io \<Rightarrow> ('w, unit) io" where
  [io_defs]: "when_io b m = (if b then m else ret ())"

text \<open>\<open>defer n()\<close> before \<open>m\<close>: \<open>n\<close> runs after \<open>m\<close>, its result is dropped.\<close>

definition finally_io :: "('w, 'a) io \<Rightarrow> ('w, unit) io \<Rightarrow> ('w, 'a) io" where
  [io_defs]: "finally_io m n w = (case m w of (r, w') \<Rightarrow> (r, snd (n w')))"

text \<open>A \<open>for\<close> loop over a slice whose body returns nothing; an error ends it.\<close>

primrec for_io :: "'a list \<Rightarrow> ('a \<Rightarrow> ('w, unit) io) \<Rightarrow> ('w, unit) io" where
  "for_io [] f = ret ()"
| "for_io (x # xs) f = then_io (f x) (for_io xs f)"

text \<open>A \<open>for\<close> loop with an accumulator.\<close>

primrec fold_io :: "('a \<Rightarrow> 'b \<Rightarrow> ('w, 'b) io) \<Rightarrow> 'a list \<Rightarrow> 'b \<Rightarrow> ('w, 'b) io" where
  "fold_io f [] acc = ret acc"
| "fold_io f (x # xs) acc = bind_io (f x acc) (fold_io f xs)"

lemma bind_io_ret [simp]: "bind_io (ret x) k = k x"
  by (simp add: fun_eq_iff io_defs)

lemma bind_io_throw [simp]: "bind_io (throw e) k = throw e"
  by (simp add: fun_eq_iff io_defs)

lemma bind_io_assoc: "bind_io (bind_io m k) l = bind_io m (\<lambda>x. bind_io (k x) l)"
  by (auto simp: fun_eq_iff io_defs split: prod.splits sum.splits)

lemma bind_io_Inr:
  "bind_io m k w = (Inr y, w'') \<longleftrightarrow> (\<exists>x w'. m w = (Inr x, w') \<and> k x w' = (Inr y, w''))"
  by (auto simp: bind_io_def split: prod.splits sum.splits)

lemma then_io_Inr:
  "then_io m k w = (Inr y, w'') \<longleftrightarrow> (\<exists>x w'. m w = (Inr x, w') \<and> k w' = (Inr y, w''))"
  by (simp add: then_io_def bind_io_Inr)

lemma wrap_err_Inr: "wrap_err s m w = (Inr x, w') \<longleftrightarrow> m w = (Inr x, w')"
  by (auto simp: wrap_err_def split: prod.splits sum.splits)

lemma ret_Inr: "ret x w = (Inr y, w') \<longleftrightarrow> y = x \<and> w' = w"
  by (auto simp: ret_def)

lemma gets_io_Inr: "gets_io f w = (Inr y, w') \<longleftrightarrow> y = f w \<and> w' = w"
  by (auto simp: gets_io_def)

lemma throw_Inr [simp]: "throw e w \<noteq> (Inr y, w')"
  by (simp add: throw_def)

lemmas Inr_rules = bind_io_Inr then_io_Inr wrap_err_Inr ret_Inr gets_io_Inr

lemma bind_io_step: "m w = (Inr x, w') \<Longrightarrow> bind_io m k w = k x w'"
  by (simp add: bind_io_def)

lemma bind_io_fail: "m w = (Inl e, w') \<Longrightarrow> bind_io m k w = (Inl e, w')"
  by (simp add: bind_io_def)

section \<open>Two-state relations\<close>

text \<open>
  \<open>evolves R m\<close>: whatever \<open>m\<close> returns, error or not, the state it leaves is related by
  \<open>R\<close> to the state it started from. For a reflexive and transitive \<open>R\<close> the relation is
  inherited by every combinator, so a program has it as soon as its primitive operations do.
\<close>

definition evolves :: "('w \<Rightarrow> 'w \<Rightarrow> bool) \<Rightarrow> ('w, 'a) io \<Rightarrow> bool" where
  "evolves R m \<longleftrightarrow> (\<forall>w. R w (snd (m w)))"

lemma evolvesI: "(\<And>w. R w (snd (m w))) \<Longrightarrow> evolves R m"
  by (simp add: evolves_def)

lemma evolvesD: "evolves R m \<Longrightarrow> m w = (r, w') \<Longrightarrow> R w w'"
  by (metis evolves_def snd_conv)

text \<open>
  \<open>undoes R m\<close>: when \<open>m\<close> returns an error, the state it leaves is related by \<open>R\<close> to the state it
  started from; for an equality of part of the state this is all-or-nothing.
\<close>

definition undoes :: "('w \<Rightarrow> 'w \<Rightarrow> bool) \<Rightarrow> ('w, 'a) io \<Rightarrow> bool" where
  "undoes R m \<longleftrightarrow> (\<forall>w e w'. m w = (Inl e, w') \<longrightarrow> R w w')"

lemma undoesD: "undoes R m \<Longrightarrow> m w = (Inl e, w') \<Longrightarrow> R w w'"
  unfolding undoes_def by blast

text \<open>\<open>fails_with E m\<close>: every error that \<open>m\<close> returns satisfies \<open>E\<close>.\<close>

definition fails_with :: "(gerr \<Rightarrow> bool) \<Rightarrow> ('w, 'a) io \<Rightarrow> bool" where
  "fails_with E m \<longleftrightarrow> (\<forall>w e w'. m w = (Inl e, w') \<longrightarrow> E e)"

lemma fails_withD: "fails_with E m \<Longrightarrow> m w = (Inl e, w') \<Longrightarrow> E e"
  unfolding fails_with_def by blast

named_theorems evolves_prims \<open>relations of the primitive operations\<close>

locale two_state =
  fixes R :: "'w \<Rightarrow> 'w \<Rightarrow> bool"
  assumes step_refl: "R w w"
    and step_trans: "R u v \<Longrightarrow> R v w \<Longrightarrow> R u w"
begin

lemma ev_ret: "evolves R (ret x)"
  by (simp add: evolves_def ret_def step_refl)

lemma ev_throw: "evolves R (throw e)"
  by (simp add: evolves_def throw_def step_refl)

lemma ev_gets: "evolves R (gets_io f)"
  by (simp add: evolves_def gets_io_def step_refl)

lemma ev_bind:
  assumes "evolves R m" and "\<And>x. evolves R (k x)"
  shows "evolves R (bind_io m k)"
proof (rule evolvesI)
  fix w
  obtain r v where m: "m w = (r, v)" by (cases "m w")
  then have wv: "R w v" by (rule evolvesD [OF assms(1)])
  show "R w (snd (bind_io m k w))"
  proof (cases r)
    case (Inl e)
    then show ?thesis using m wv by (simp add: bind_io_def)
  next
    case (Inr x)
    have "R v (snd (k x v))" using assms(2) by (simp add: evolves_def)
    then show ?thesis using m wv Inr by (auto simp: bind_io_def intro: step_trans)
  qed
qed

lemma ev_then: "evolves R m \<Longrightarrow> evolves R k \<Longrightarrow> evolves R (then_io m k)"
  by (simp add: then_io_def ev_bind)

lemma ev_attempt: "evolves R m \<Longrightarrow> evolves R (attempt m)"
  by (simp add: evolves_def attempt_def case_prod_beta)

lemma ev_best_effort: "evolves R m \<Longrightarrow> evolves R (best_effort m)"
  by (simp add: evolves_def best_effort_def)

lemma ev_finally:
  assumes "evolves R m" and "evolves R n"
  shows "evolves R (finally_io m n)"
proof (rule evolvesI)
  fix w
  obtain r v where m: "m w = (r, v)" by (cases "m w")
  have "R w v" using assms(1) m by (rule evolvesD)
  moreover have "R v (snd (n v))" using assms(2) by (simp add: evolves_def)
  ultimately show "R w (snd (finally_io m n w))"
    using m by (auto simp: finally_io_def intro: step_trans)
qed

lemma ev_wrap_err: "evolves R m \<Longrightarrow> evolves R (wrap_err s m)"
  by (auto simp: evolves_def wrap_err_def split: prod.splits sum.splits) (metis snd_conv)+

lemma ev_when: "evolves R m \<Longrightarrow> evolves R (when_io b m)"
  by (simp add: when_io_def ev_ret)

lemma ev_if: "(b \<Longrightarrow> evolves R m) \<Longrightarrow> (\<not> b \<Longrightarrow> evolves R k) \<Longrightarrow> evolves R (if b then m else k)"
  by simp

lemma ev_option:
  "evolves R m \<Longrightarrow> (\<And>x. evolves R (k x)) \<Longrightarrow> evolves R (case v of None \<Rightarrow> m | Some x \<Rightarrow> k x)"
  by (cases v) auto

lemma ev_sum:
  "(\<And>e. evolves R (m e)) \<Longrightarrow> (\<And>x. evolves R (k x)) \<Longrightarrow>
   evolves R (case v of Inl e \<Rightarrow> m e | Inr x \<Rightarrow> k x)"
  by (cases v) auto

lemma ev_bool:
  "evolves R m \<Longrightarrow> evolves R k \<Longrightarrow> evolves R (case b of True \<Rightarrow> m | False \<Rightarrow> k)"
  by (cases b) auto

lemma ev_prod: "(\<And>x y. evolves R (k x y)) \<Longrightarrow> evolves R (case v of (x, y) \<Rightarrow> k x y)"
  by (cases v) auto

lemma ev_list:
  "evolves R m \<Longrightarrow> (\<And>x xs. evolves R (k x xs)) \<Longrightarrow>
   evolves R (case v of [] \<Rightarrow> m | x # xs \<Rightarrow> k x xs)"
  by (cases v) auto

lemma ev_for: "(\<And>x. evolves R (f x)) \<Longrightarrow> evolves R (for_io xs f)"
  by (induction xs) (auto intro: ev_ret ev_then)

lemma ev_for_in: "(\<And>x. x \<in> set xs \<Longrightarrow> evolves R (f x)) \<Longrightarrow> evolves R (for_io xs f)"
  by (induction xs) (auto intro: ev_ret ev_then)

lemma ev_fold: "(\<And>x acc. evolves R (f x acc)) \<Longrightarrow> evolves R (fold_io f xs acc)"
  by (induction xs arbitrary: acc) (auto intro: ev_ret ev_bind)

lemmas ev_rules = ev_ret ev_throw ev_gets ev_bind ev_then ev_attempt ev_best_effort ev_finally
  ev_wrap_err ev_when ev_if ev_option ev_sum ev_bool ev_prod ev_list ev_for ev_fold

lemma un_evolves: "evolves R m \<Longrightarrow> undoes R m"
  by (auto simp: undoes_def dest: evolvesD)

lemma un_throw: "undoes R (throw e)"
  by (simp add: undoes_def throw_def step_refl)

lemma un_bind_before:
  assumes "evolves R m" and "\<And>x. undoes R (k x)"
  shows "undoes R (bind_io m k)"
  unfolding undoes_def
proof (intro allI impI)
  fix w e w'
  assume b: "bind_io m k w = (Inl e, w')"
  obtain r v where m: "m w = (r, v)" by fastforce
  have wv: "R w v" using assms(1) m by (rule evolvesD)
  show "R w w'"
  proof (cases r)
    case (Inl x)
    then show ?thesis using b m wv by (simp add: bind_io_def)
  next
    case (Inr x)
    then have "k x v = (Inl e, w')" using b m by (simp add: bind_io_def)
    then show ?thesis using undoesD [OF assms(2)] wv by (blast intro: step_trans)
  qed
qed

lemma un_bind_after:
  assumes "undoes R m" and "\<And>x. fails_with (\<lambda>_. False) (k x)"
  shows "undoes R (bind_io m k)"
  unfolding undoes_def
proof (intro allI impI)
  fix w e w'
  assume b: "bind_io m k w = (Inl e, w')"
  obtain r v where m: "m w = (r, v)" by fastforce
  show "R w w'"
  proof (cases r)
    case (Inl x)
    then show ?thesis using b m undoesD [OF assms(1)] by (auto simp: bind_io_def)
  next
    case (Inr x)
    then have "k x v = (Inl e, w')" using b m by (simp add: bind_io_def)
    then show ?thesis using fails_withD [OF assms(2)] by blast
  qed
qed

lemma un_then_before: "evolves R m \<Longrightarrow> undoes R k \<Longrightarrow> undoes R (then_io m k)"
  by (simp add: then_io_def un_bind_before)

lemma un_then_after: "undoes R m \<Longrightarrow> fails_with (\<lambda>_. False) k \<Longrightarrow> undoes R (then_io m k)"
  by (simp add: then_io_def un_bind_after)

lemma un_after:
  assumes "undoes R m" and "evolves R n"
  shows "undoes R (finally_io m n)"
  unfolding undoes_def
proof (intro allI impI)
  fix w e w'
  assume f: "finally_io m n w = (Inl e, w')"
  obtain r v where m: "m w = (r, v)" by fastforce
  obtain r' v' where n: "n v = (r', v')" by fastforce
  have "R v v'" using assms(2) n by (rule evolvesD)
  then show "R w w'" using f m n undoesD [OF assms(1)] by (auto simp: finally_io_def intro: step_trans)
qed

lemma un_wrap_err: "undoes R m \<Longrightarrow> undoes R (wrap_err s m)"
  by (auto simp: undoes_def wrap_err_def split: prod.splits sum.splits)

lemma un_if: "undoes R m \<Longrightarrow> undoes R k \<Longrightarrow> undoes R (if b then m else k)"
  by simp

lemma un_option: "undoes R m \<Longrightarrow> (\<And>x. undoes R (k x)) \<Longrightarrow> undoes R (case v of None \<Rightarrow> m | Some x \<Rightarrow> k x)"
  by (cases v) auto

lemma un_sum: "(\<And>e. undoes R (m e)) \<Longrightarrow> (\<And>x. undoes R (k x)) \<Longrightarrow>
  undoes R (case v of Inl e \<Rightarrow> m e | Inr x \<Rightarrow> k x)"
  by (cases v) auto

end

section \<open>Which errors a program can return\<close>

lemma fw_never:
  "fails_with E (ret x)" "fails_with E (gets_io f)" "fails_with E (modify_io g)"
  "fails_with E (attempt m)" "fails_with E (best_effort m)"
  by (auto simp: fails_with_def io_defs split: prod.splits)

lemma fw_throw: "E e \<Longrightarrow> fails_with E (throw e)"
  by (simp add: fails_with_def throw_def)

lemma fw_bind: "fails_with E m \<Longrightarrow> (\<And>x. fails_with E (k x)) \<Longrightarrow> fails_with E (bind_io m k)"
  by (auto simp: fails_with_def bind_io_def split: prod.splits sum.splits)

lemma fw_then: "fails_with E m \<Longrightarrow> fails_with E k \<Longrightarrow> fails_with E (then_io m k)"
  by (simp add: then_io_def fw_bind)

lemma fw_finally: "fails_with E m \<Longrightarrow> fails_with E (finally_io m n)"
  by (auto simp: fails_with_def finally_io_def split: prod.splits)

lemma fw_wrap_err: "fails_with (\<lambda>e. E (Wrap s e)) m \<Longrightarrow> fails_with E (wrap_err s m)"
  by (auto simp: fails_with_def wrap_err_def split: prod.splits sum.splits)

lemma fw_when: "fails_with E m \<Longrightarrow> fails_with E (when_io b m)"
  by (simp add: when_io_def fw_never)

lemma fw_if: "(b \<Longrightarrow> fails_with E m) \<Longrightarrow> (\<not> b \<Longrightarrow> fails_with E k) \<Longrightarrow> fails_with E (if b then m else k)"
  by simp

lemma fw_option:
  "fails_with E m \<Longrightarrow> (\<And>x. fails_with E (k x)) \<Longrightarrow> fails_with E (case v of None \<Rightarrow> m | Some x \<Rightarrow> k x)"
  by (cases v) auto

lemma fw_sum:
  "(\<And>e. fails_with E (m e)) \<Longrightarrow> (\<And>x. fails_with E (k x)) \<Longrightarrow>
   fails_with E (case v of Inl e \<Rightarrow> m e | Inr x \<Rightarrow> k x)"
  by (cases v) auto

lemma fw_bool: "fails_with E m \<Longrightarrow> fails_with E k \<Longrightarrow> fails_with E (case b of True \<Rightarrow> m | False \<Rightarrow> k)"
  by (cases b) auto

lemma fw_prod: "(\<And>x y. fails_with E (k x y)) \<Longrightarrow> fails_with E (case v of (x, y) \<Rightarrow> k x y)"
  by (cases v) auto

lemma fw_for: "(\<And>x. fails_with E (f x)) \<Longrightarrow> fails_with E (for_io xs f)"
  by (induction xs) (auto intro: fw_never fw_then)

lemmas fw_rules = fw_never fw_bind fw_then fw_finally fw_wrap_err fw_when fw_if fw_option fw_sum fw_bool
  fw_prod fw_for

end
