(* ===== verification/ScanSharding.thy ===== *)
theory ScanSharding
  imports Prelude
begin

text \<open>
  \<open>internal/service/idle/scan_sharding.go\<close> and the two coordinators of
  \<open>idle_service.go\<close> that use it: which shards of the active-session sets a pod scans, how a
  pod finds its index and the number of pods, how the leader takes over the shards of dead
  pods and how headless discovery changes the number of pods. Environment variables, DNS and
  the liveness keys in Redis are arguments.
\<close>

unbundle bit_operations_syntax

section \<open>Strings of the standard library\<close>

text \<open>\<open>strconv.Atoi\<close>: an optional sign, at least one digit, the value in 64 bits.\<close>

fun digits_value :: "int \<Rightarrow> string \<Rightarrow> int option" where
  "digits_value acc [] = Some acc"
| "digits_value acc (c # cs) =
     (if 48 \<le> (of_char c :: int) \<and> (of_char c :: int) \<le> 57
      then digits_value (10 * acc + (of_char c - 48)) cs else None)"

definition atoi :: "string \<Rightarrow> int option" where
  "atoi s =
     (let neg = (s \<noteq> [] \<and> hd s = CHR ''-'');
          body = (if s \<noteq> [] \<and> (hd s = CHR ''-'' \<or> hd s = CHR ''+'') then tl s else s)
      in if body = [] then None
         else case digits_value 0 body of
                None \<Rightarrow> None
              | Some v \<Rightarrow> (let n = (if neg then - v else v) in if in_int64 n then Some n else None))"

text \<open>What follows the last dash, when there is a dash and something after it.\<close>

definition after_last_dash :: "string \<Rightarrow> string option" where
  "after_last_dash v =
     (let suffix = rev (takeWhile (\<lambda>c. c \<noteq> CHR ''-'') (rev v))
      in if CHR ''-'' \<in> set v \<and> suffix \<noteq> [] then Some suffix else None)"

section \<open>Shard of a session, shards of a pod\<close>

text \<open>FNV-1a, 32 bits, as \<open>hash/fnv\<close> computes it.\<close>

definition fnv32a :: "string \<Rightarrow> 32 word" where
  "fnv32a s = foldl (\<lambda>h c. (h XOR of_char c) * 16777619) 2166136261 s"

text \<open>Shard counts are below \<open>2 ^ 32\<close>, so the conversion to \<open>uint32\<close> loses nothing.\<close>

definition sessionSetShard :: "string \<Rightarrow> int \<Rightarrow> int" where
  "sessionSetShard userID setShards =
     (if setShards \<le> 0 then 0
      else uint (fnv32a userID mod word_of_int setShards))"

definition ownsSetShard :: "int \<Rightarrow> int \<Rightarrow> int \<Rightarrow> bool" where
  "ownsSetShard setShard podIndex podTotal =
     (if podTotal \<le> 1 then True else go_rem setShard podTotal = podIndex)"

definition calcPodSetShards :: "int \<Rightarrow> int \<Rightarrow> int \<Rightarrow> int list" where
  "calcPodSetShards index podTotal setShards =
     (if setShards \<le> 0 then []
      else if podTotal \<le> 1 then [0..setShards - 1]
      else filter (\<lambda>i. go_rem i podTotal = index) [0..setShards - 1])"

definition ComputeOwnedShards :: "int \<Rightarrow> int \<Rightarrow> int \<Rightarrow> (int \<Rightarrow> bool) \<Rightarrow> bool \<Rightarrow> int list" where
  "ComputeOwnedShards myIdx podTotal setShards alive isLeader =
     calcPodSetShards myIdx podTotal setShards @
     (if isLeader
      then concat (map (\<lambda>d. if \<not> alive d then calcPodSetShards d podTotal setShards else [])
                       [0..podTotal - 1])
      else [])"

section \<open>Index and number of pods\<close>

record scan_sharding_config =
  ssc_enabled :: bool
  ssc_pod_index :: int
  ssc_pod_total :: int
  ssc_pod_discovery :: string
  ssc_headless_service :: string
  ssc_failover :: bool

text \<open>\<open>env\<close> is \<open>os.Getenv\<close> (empty when unset); \<open>resolver\<close> is the DNS lookup.\<close>

fun first_ordinal :: "(string \<Rightarrow> string) \<Rightarrow> string list \<Rightarrow> int" where
  "first_ordinal env [] = -1"
| "first_ordinal env (e # es) =
     (let v = env e in
      if v = [] then first_ordinal env es
      else case after_last_dash v of
             None \<Rightarrow> first_ordinal env es
           | Some suffix \<Rightarrow> (case atoi suffix of
                 Some n \<Rightarrow> n
               | None \<Rightarrow> first_ordinal env es))"

definition podOrdinal :: "(string \<Rightarrow> string) \<Rightarrow> int" where
  "podOrdinal env = first_ordinal env [''POD_NAME'', ''HOSTNAME'']"

definition headlessFQDN :: "(string \<Rightarrow> string) \<Rightarrow> string \<Rightarrow> string" where
  "headlessFQDN env name =
     (let ns = env ''POD_NAMESPACE'';
          ns' = (if ns = [] then ''default'' else ns)
      in name @ ''.'' @ ns' @ ''.svc.cluster.local'')"

definition resolvePodIndex :: "(string \<Rightarrow> string) \<Rightarrow> scan_sharding_config \<Rightarrow> int" where
  "resolvePodIndex env cfg =
     (if ssc_pod_index cfg > 0 then ssc_pod_index cfg
      else case (if env ''HC_POD_INDEX'' \<noteq> [] then atoi (env ''HC_POD_INDEX'') else None) of
             Some n \<Rightarrow> n
           | None \<Rightarrow> (let n = podOrdinal env in if n \<ge> 0 then n else 0))"

definition resolvePodTotal ::
  "(string \<Rightarrow> string) \<Rightarrow> (string \<Rightarrow> gerr + int) \<Rightarrow> scan_sharding_config \<Rightarrow> int" where
  "resolvePodTotal env resolver cfg =
     (let from_env = (case (if env ''HC_POD_TOTAL'' \<noteq> [] then atoi (env ''HC_POD_TOTAL'') else None) of
                        Some n \<Rightarrow> (if n > 0 then n else 1)
                      | None \<Rightarrow> 1)
      in if ssc_pod_total cfg > 1 then ssc_pod_total cfg
         else if ssc_pod_discovery cfg = ''headless'' \<and> ssc_headless_service cfg \<noteq> []
         then (case resolver (headlessFQDN env (ssc_headless_service cfg)) of
                 Inr n \<Rightarrow> (if n > 0 then n else from_env)
               | Inl e \<Rightarrow> from_env)
         else from_env)"

definition resolvePodShard ::
  "(string \<Rightarrow> string) \<Rightarrow> (string \<Rightarrow> gerr + int) \<Rightarrow> scan_sharding_config \<Rightarrow> int \<times> int" where
  "resolvePodShard env resolver cfg =
     (let index = resolvePodIndex env cfg;
          podTotal = resolvePodTotal env resolver cfg;
          podTotal' = (if podTotal \<le> 0 then 1 else podTotal);
          index' = (if index < 0 then 0 else index);
          index'' = (if index' \<ge> podTotal' then podTotal' - 1 else index')
      in (index'', podTotal'))"

section \<open>The coordinators\<close>

text \<open>
  The shard fields of \<open>IdleService\<close> and the map \<open>seenAlive\<close> of the failover goroutine
  (as the list of its keys). \<open>setPodTotal\<close> and \<open>SetScanShards\<close> are the locked setters.
\<close>

record scan_state =
  scanShardingEnabled :: bool
  failoverEnabled :: bool
  scanPodIndex :: int
  scanPodTotal :: int
  scanSetShards :: int
  podSetShards :: "int list"
  seenAlive :: "int list"

definition ownsSessionByShard :: "scan_state \<Rightarrow> string \<Rightarrow> bool" where
  "ownsSessionByShard s userID =
     (if \<not> scanShardingEnabled s \<or> scanPodTotal s \<le> 1 then True
      else ownsSetShard (sessionSetShard userID (scanSetShards s)) (scanPodIndex s) (scanPodTotal s))"

text \<open>
  One round of the failover goroutine. \<open>exists_key i\<close> says whether the liveness key of pod
  \<open>i\<close> is in Redis when the round probes it (a failed probe counts as absent).
\<close>

definition reconcile :: "(int \<Rightarrow> bool) \<Rightarrow> bool \<Rightarrow> scan_state \<Rightarrow> scan_state" where
  "reconcile exists_key leader s =
     (let podTotal = scanPodTotal s;
          me = scanPodIndex s;
          nowAlive = filter exists_key [0..podTotal - 1] @ [me]
      in if seenAlive s = []
         then s\<lparr>seenAlive := nowAlive,
                podSetShards := calcPodSetShards me podTotal (scanSetShards s)\<rparr>
         else let alive = (\<lambda>i. i = me \<or> 0 \<le> i \<and> i < podTotal \<and> i \<in> set (seenAlive s) \<and> i \<in> set nowAlive)
              in s\<lparr>podSetShards := ComputeOwnedShards me podTotal (scanSetShards s) alive leader,
                   seenAlive := seenAlive s @ nowAlive\<rparr>)"

text \<open>One refresh of headless discovery, with the answer of the resolver.\<close>

definition discovery_refresh :: "gerr + int \<Rightarrow> scan_state \<Rightarrow> scan_state" where
  "discovery_refresh answer s =
     (case answer of
        Inl e \<Rightarrow> s
      | Inr n \<Rightarrow>
          if n < 1 then s
          else if n = scanPodTotal s then s
          else let s' = s\<lparr>scanPodTotal := n\<rparr>
               in if \<not> failoverEnabled s
                  then s'\<lparr>podSetShards := calcPodSetShards (scanPodIndex s) n (scanSetShards s)\<rparr>
                  else s')"

section \<open>A pod's shards\<close>

lemma set_calcPodSetShards:
  "set (calcPodSetShards p podTotal n) =
     {i. 0 \<le> i \<and> i < n \<and> (podTotal \<le> 1 \<or> i mod podTotal = p)}"
  by (auto simp: calcPodSetShards_def go_rem_nonneg)

lemma distinct_calcPodSetShards: "distinct (calcPodSetShards p podTotal n)"
  by (simp add: calcPodSetShards_def)

lemma sessionSetShard_range:
  assumes "0 < n" "n < 2 ^ 32"
  shows "0 \<le> sessionSetShard u n \<and> sessionSetShard u n < n"
proof -
  have n: "uint (word_of_int n :: 32 word) = n"
    using assms by (simp add: uint_word_of_int)
  have "uint (fnv32a u mod word_of_int n) = uint (fnv32a u) mod n"
    by (simp add: uint_mod n del: uint_word_of_int)
  then show ?thesis using assms by (simp add: sessionSetShard_def)
qed

lemma ownsSetShard_iff:
  assumes "0 \<le> s" "s < n"
  shows "ownsSetShard s p podTotal \<longleftrightarrow> s \<in> set (calcPodSetShards p podTotal n)"
  using assms by (auto simp: ownsSetShard_def set_calcPodSetShards go_rem_nonneg)

lemma concat_dead_shards:
  "set (concat (map (\<lambda>d. if \<not> alive d then calcPodSetShards d podTotal n else []) [0..podTotal - 1])) =
     {i. 0 \<le> i \<and> i < n \<and> (\<exists>d. 0 \<le> d \<and> d < podTotal \<and> \<not> alive d \<and> (podTotal \<le> 1 \<or> i mod podTotal = d))}"
  by (auto simp: set_calcPodSetShards split: if_splits)

lemma set_ComputeOwnedShards:
  "set (ComputeOwnedShards p podTotal n alive leader) =
     {i. 0 \<le> i \<and> i < n \<and>
         (podTotal \<le> 1 \<or> i mod podTotal = p \<or> leader \<and> \<not> alive (i mod podTotal))}"
  by (cases leader; cases "podTotal \<le> 1")
    (auto simp: ComputeOwnedShards_def concat_dead_shards set_calcPodSetShards simp del: set_concat)

lemma distinct_dead_shards:
  assumes "1 < podTotal" and "distinct ds"
  shows "distinct (concat (map (\<lambda>d. if \<not> alive d then calcPodSetShards d podTotal n else []) ds))"
  using assms(2)
  by (induction ds) (use assms(1) in \<open>auto simp: distinct_calcPodSetShards set_calcPodSetShards split: if_splits\<close>)

lemma distinct_ComputeOwnedShards:
  assumes "1 < podTotal" and "alive p"
  shows "distinct (ComputeOwnedShards p podTotal n alive leader)"
proof -
  have "set (calcPodSetShards p podTotal n) \<inter>
      set (concat (map (\<lambda>d. if \<not> alive d then calcPodSetShards d podTotal n else []) [0..podTotal - 1])) = {}"
    using assms by (auto simp: concat_dead_shards set_calcPodSetShards simp del: set_concat)
  then show ?thesis
    using distinct_dead_shards [OF assms(1), of "[0..podTotal - 1]" alive n]
    by (auto simp: ComputeOwnedShards_def distinct_calcPodSetShards simp del: set_concat)
qed

text \<open>Without failover every shard of the active sets is scanned by exactly one pod.\<close>

theorem pods_partition_shards:
  assumes "0 < podTotal" and "0 \<le> s" and "s < setShards"
  shows "\<exists>!p. 0 \<le> p \<and> p < podTotal \<and> s \<in> set (calcPodSetShards p podTotal setShards)"
proof (cases "podTotal = 1")
  case True
  then show ?thesis using assms
    by (intro ex1I [of _ 0]) (auto simp: set_calcPodSetShards)
next
  case False
  with assms show ?thesis
    by (intro ex1I [of _ "s mod podTotal"]) (auto simp: set_calcPodSetShards)
qed

theorem pods_partition_shards_witness:
  "\<exists>!p. 0 \<le> p \<and> p < 3 \<and> (5::int) \<in> set (calcPodSetShards p 3 8)"
  by (rule pods_partition_shards) simp_all

text \<open>With a leader and an agreed set of live pods, failover leaves no shard unscanned and
  none scanned twice: the owned lists of the live pods are duplicate-free and every shard
  lies in exactly one of them.\<close>

theorem failover_covers_once:
  assumes "1 < podTotal" and "0 \<le> leader" "leader < podTotal" "alive leader"
    and "0 \<le> s" "s < setShards"
  shows "(\<exists>!p. 0 \<le> p \<and> p < podTotal \<and> alive p \<and>
            s \<in> set (ComputeOwnedShards p podTotal setShards alive (p = leader)))
       \<and> (\<forall>p. alive p \<longrightarrow> distinct (ComputeOwnedShards p podTotal setShards alive (p = leader)))"
proof
  have r: "0 \<le> s mod podTotal" "s mod podTotal < podTotal" using assms by auto
  let ?owner = "if alive (s mod podTotal) then s mod podTotal else leader"
  show "\<exists>!p. 0 \<le> p \<and> p < podTotal \<and> alive p \<and>
            s \<in> set (ComputeOwnedShards p podTotal setShards alive (p = leader))"
    using assms r by (intro ex1I [of _ ?owner]) (auto simp: set_ComputeOwnedShards split: if_splits)
  show "\<forall>p. alive p \<longrightarrow> distinct (ComputeOwnedShards p podTotal setShards alive (p = leader))"
    using assms(1) by (blast intro: distinct_ComputeOwnedShards)
qed

theorem failover_covers_once_witness:
  "(\<exists>!p. 0 \<le> p \<and> p < 3 \<and> p \<noteq> 2 \<and>
       5 \<in> set (ComputeOwnedShards p 3 8 (\<lambda>i. i \<noteq> 2) (p = 0)))
   \<and> distinct (ComputeOwnedShards 0 3 8 (\<lambda>i. i \<noteq> 2) True)"
proof -
  have all: "(\<exists>!p. 0 \<le> p \<and> p < 3 \<and> p \<noteq> 2 \<and>
       5 \<in> set (ComputeOwnedShards p 3 8 (\<lambda>i. i \<noteq> 2) (p = 0)))
     \<and> (\<forall>p. p \<noteq> 2 \<longrightarrow> distinct (ComputeOwnedShards p 3 8 (\<lambda>i. i \<noteq> 2) (p = 0)))"
    by (rule failover_covers_once) simp_all
  have "distinct (ComputeOwnedShards 0 3 8 (\<lambda>i. i \<noteq> 2) (0 = (0 :: int)))"
    by (rule all [THEN conjunct2, THEN spec, THEN mp]) simp
  then show ?thesis using all by (simp only: simp_thms)
qed

section \<open>Agreement of the scanner and the event consumer\<close>

text \<open>The consumer of expired heartbeat keys keeps an event exactly when the pod's own
  scanner would visit the session's shard.\<close>

theorem consumer_agrees_with_scanner:
  assumes "scanShardingEnabled s" and "0 < scanSetShards s" and "scanSetShards s < 2 ^ 32"
    and "podSetShards s = calcPodSetShards (scanPodIndex s) (scanPodTotal s) (scanSetShards s)"
  shows "ownsSessionByShard s userID \<longleftrightarrow> sessionSetShard userID (scanSetShards s) \<in> set (podSetShards s)"
proof -
  have "0 \<le> sessionSetShard userID (scanSetShards s)"
    and "sessionSetShard userID (scanSetShards s) < scanSetShards s"
    using sessionSetShard_range [OF assms(2,3)] by auto
  then show ?thesis
    using assms(1,4) ownsSetShard_iff [of "sessionSetShard userID (scanSetShards s)" "scanSetShards s"]
    by (auto simp: ownsSessionByShard_def set_calcPodSetShards)
qed

definition sample_scan_state :: scan_state where
  "sample_scan_state = \<lparr>scanShardingEnabled = True, failoverEnabled = True, scanPodIndex = 0,
     scanPodTotal = 3, scanSetShards = 8, podSetShards = calcPodSetShards 0 3 8, seenAlive = []\<rparr>"

theorem consumer_agrees_with_scanner_witness:
  "ownsSessionByShard sample_scan_state ''u1'' \<longleftrightarrow>
     sessionSetShard ''u1'' 8 \<in> set (calcPodSetShards 0 3 8)"
  using consumer_agrees_with_scanner [of sample_scan_state "''u1''"]
  by (simp add: sample_scan_state_def)

section \<open>Resolution of index and podTotal\<close>

text \<open>Whatever the configuration, the environment and DNS say, a pod's index lies below a
  total of at least one.\<close>

theorem resolvePodShard_in_range:
  "1 \<le> snd (resolvePodShard env resolver cfg) \<and>
   0 \<le> fst (resolvePodShard env resolver cfg) \<and>
   fst (resolvePodShard env resolver cfg) < snd (resolvePodShard env resolver cfg)"
  by (auto simp: resolvePodShard_def Let_def)

section \<open>The failover rounds\<close>

text \<open>After a round that is not the first, the leader scans its own shards and those of
  every pod that has no liveness key, another pod only its own: every shard of a pod that is
  down is scanned by the leader.\<close>

theorem reconcile_leader_covers_dead:
  assumes "seenAlive s \<noteq> []" and "1 < scanPodTotal s"
    and "0 \<le> i" "i < scanSetShards s"
    and "\<not> exists_key (i mod scanPodTotal s)"
  shows "i \<in> set (podSetShards (reconcile exists_key True s)) \<and>
         (i \<in> set (podSetShards (reconcile exists_key False s)) \<longleftrightarrow>
           i mod scanPodTotal s = scanPodIndex s)"
  using assms by (auto simp: reconcile_def Let_def set_ComputeOwnedShards)

definition sample_failover :: scan_state where
  "sample_failover = sample_scan_state\<lparr>seenAlive := [0, 1]\<rparr>"

theorem reconcile_leader_covers_dead_witness:
  "2 \<in> set (podSetShards (reconcile (\<lambda>i. i = 0) True sample_failover)) \<and>
   (2 \<in> set (podSetShards (reconcile (\<lambda>i. i = 0) False sample_failover)) \<longleftrightarrow>
     2 mod scanPodTotal sample_failover = scanPodIndex sample_failover)"
  by (rule reconcile_leader_covers_dead) (simp_all add: sample_failover_def sample_scan_state_def)

text \<open>A pod is taken over on its first missing or first new liveness key as well: in every
  round after the first, the leader scans the shards of a pod that it never saw alive before,
  whether or not that pod's key is there now.\<close>

theorem takeover_of_unseen_pod:
  assumes "seenAlive s \<noteq> []" and "1 < scanPodTotal s"
    and "0 \<le> i" "i < scanSetShards s"
    and "i mod scanPodTotal s \<notin> set (seenAlive s)" and "i mod scanPodTotal s \<noteq> scanPodIndex s"
  shows "i \<in> set (podSetShards (reconcile exists_key True s))"
  using assms by (simp add: reconcile_def Let_def set_ComputeOwnedShards)

theorem takeover_of_unseen_pod_witness:
  "2 \<in> set (podSetShards (reconcile (\<lambda>i. True) True (sample_failover\<lparr>seenAlive := [0]\<rparr>)))"
  by (rule takeover_of_unseen_pod) (simp_all add: sample_failover_def sample_scan_state_def)

end
