(* ===== verification/World.thy ===== *)
theory World
  imports Prelude
begin

text \<open>
  The data model (\<open>internal/model\<close>) and the state the services act on: the tables of the
  business database, the users, Redis, the in-process cache and the pending background
  goroutines, with the calls that reach them. Calls of external services can fail: the state
  carries a schedule of faults, one bit per call, so every error branch of the code is
  reachable and a theorem about all states is a theorem about all failures.
\<close>

section \<open>Formatting of integers in keys\<close>

fun show_nat :: "nat \<Rightarrow> string" where
  "show_nat n = (if n < 10 then [char_of (48 + n)] else show_nat (n div 10) @ [char_of (48 + n mod 10)])"

declare show_nat.simps [simp del]

definition show_int :: "int \<Rightarrow> string" where
  "show_int i = (if i < 0 then CHR ''-'' # show_nat (nat (- i)) else show_nat (nat i))"

fun read_nat :: "string \<Rightarrow> nat" where
  "read_nat s = foldl (\<lambda>a c. 10 * a + (of_char c - 48)) 0 s"

lemma read_show_nat: "read_nat (show_nat n) = n"
proof (induction n rule: show_nat.induct)
  case (1 n)
  show ?case
  proof (cases "n < 10")
    case True
    then show ?thesis by (simp add: show_nat.simps [of n])
  next
    case False
    with "1.IH" show ?thesis by (simp add: show_nat.simps [of n])
  qed
qed

lemma show_nat_inject [simp]: "show_nat m = show_nat n \<longleftrightarrow> m = n"
  by (metis read_show_nat)

lemma show_nat_digits: "c \<in> set (show_nat n) \<Longrightarrow> (of_char c :: nat) \<in> {48..57}"
proof (induction n rule: show_nat.induct)
  case (1 n)
  show ?case
  proof (cases "n < 10")
    case True
    then show ?thesis using "1.prems" by (simp add: show_nat.simps [of n])
  next
    case False
    have "c \<in> set (show_nat (n div 10)) \<or> c = char_of (48 + n mod 10)"
      using "1.prems" False by (auto simp: show_nat.simps [of n])
    then show ?thesis using "1.IH" False by auto
  qed
qed

lemma show_nat_no_dash: "CHR ''-'' \<notin> set (show_nat n)"
  using show_nat_digits [of "CHR ''-''" n] by auto

lemma show_nat_no_colon: "CHR '':'' \<notin> set (show_nat n)"
  using show_nat_digits [of "CHR '':''" n] by auto

lemma show_int_inject [simp]: "show_int i = show_int j \<longleftrightarrow> i = j"
proof
  assume h: "show_int i = show_int j"
  have "CHR ''-'' \<in> set (show_int k) \<longleftrightarrow> k < 0" for k
    by (simp add: show_int_def show_nat_no_dash)
  with h have "i < 0 \<longleftrightarrow> j < 0" by metis
  with h show "i = j" by (cases "i < 0") (auto simp: show_int_def)
qed simp

section \<open>Tables\<close>

text \<open>
  The GORM models. The timestamps that GORM fills in are kept where the code reads them.
  The fields \<open>SalesStatus\<close> (\<open>it_sales\<close>, \<open>fa_sales\<close>) are not columns: they are empty in
  the tables and filled in by the code that returns the rows.
\<close>

datatype idle_status = Active | Completed | Timeout

record idle_record =
  ir_id :: int
  ir_user :: string
  ir_device :: string
  ir_start :: instant
  ir_end :: "instant option"
  ir_heartbeat :: "instant option"
  ir_duration :: int
  ir_points :: int
  ir_status :: idle_status
  ir_created :: instant
  ir_updated :: instant

text \<open>A day is the number of the local calendar day; the code writes it as \<open>2006-01-02\<close>.\<close>

record idle_daily_points =
  dp_id :: int
  dp_user :: string
  dp_day :: int
  dp_total :: int

record points_transaction =
  pt_id :: int
  pt_user :: string
  pt_amount :: int
  pt_balance_after :: int
  pt_type :: string
  pt_reference :: string
  pt_created :: instant

datatype outbox_status = Pending | Processing | Done

record points_outbox =
  ob_id :: int
  ob_user :: string
  ob_delta :: int
  ob_ref_type :: string
  ob_ref_id :: string
  ob_event :: string
  ob_status :: outbox_status
  ob_created :: instant
  ob_updated :: instant

record shop_item =
  it_id :: int
  it_name :: string
  it_description :: string
  it_price :: int
  it_stock :: int
  it_version :: int
  it_image :: string
  it_category :: string
  it_active :: bool
  it_sales :: string

record stock_bucket =
  bk_item :: int
  bk_bucket :: int
  bk_stock :: int

record redeem_order =
  or_id :: int
  or_user :: string
  or_item :: int
  or_item_name :: string
  or_points :: int
  or_status :: string
  or_activity :: int
  or_created :: instant

datatype flash_status = FlashActive | FlashEnded | FlashPending | FlashOther string

record flash_activity =
  fa_id :: int
  fa_item :: int
  fa_name :: string
  fa_start :: instant
  fa_end :: "instant option"
  fa_limit :: int
  fa_sold :: int
  fa_per_user :: int
  fa_price :: int
  fa_status :: flash_status
  fa_sales :: string

text \<open>
  The period of a progress row: the day it names, numbered from 1970-01-01 in UTC (the code
  writes it as \<open>2006-01-02\<close>), or \<open>lifetime\<close>.
\<close>

datatype period = Day int | Lifetime

record task =
  tk_id :: int
  tk_type :: string
  tk_key :: string
  tk_name :: string
  tk_target :: int
  tk_reward :: int
  tk_active :: bool

record task_progress =
  tp_id :: int
  tp_user :: string
  tp_task :: int
  tp_period :: period
  tp_current :: int
  tp_completed :: bool
  tp_claimed :: bool
  tp_completed_at :: "instant option"

record event_dedup =
  ed_event :: string
  ed_source :: string
  ed_created :: instant

record business_db =
  idle_records :: "idle_record list"
  idle_daily :: "idle_daily_points list"
  points_transactions :: "points_transaction list"
  outbox_rows :: "points_outbox list"
  shop_items :: "shop_item list"
  stock_buckets :: "stock_bucket list"
  redeem_orders :: "redeem_order list"
  flash_activities :: "flash_activity list"
  tasks :: "task list"
  task_progresses :: "task_progress list"
  event_dedups :: "event_dedup list"

record user =
  us_id :: string
  us_username :: string
  us_email :: string
  us_password_hash :: string
  us_google :: "string option"
  us_avatar :: string
  us_points :: int
  us_status :: string
  us_password_changed :: "instant option"

text \<open>The next value of an auto-increment column.\<close>

definition next_id :: "('r \<Rightarrow> int) \<Rightarrow> 'r list \<Rightarrow> int" where
  "next_id f rows = foldr max (map f rows) 0 + 1"

lemma next_id_greater: "r \<in> set rows \<Longrightarrow> f r < next_id f rows"
  by (induction rows) (auto simp: next_id_def)

lemma next_id_fresh: "next_id f rows \<notin> f ` set rows"
proof
  assume "next_id f rows \<in> f ` set rows"
  then obtain r where "r \<in> set rows" "f r = next_id f rows" by auto
  then show False using next_id_greater [of r rows f] by simp
qed

lemma next_id_pos: "0 < next_id f rows"
  by (induction rows) (auto simp: next_id_def)

text \<open>
  \<open>UPDATE t SET ... WHERE p\<close>: the rows that satisfy \<open>p\<close> are changed by \<open>f\<close>, and the number
  of such rows is \<open>RowsAffected\<close>.
\<close>

definition update_where :: "('r \<Rightarrow> bool) \<Rightarrow> ('r \<Rightarrow> 'r) \<Rightarrow> 'r list \<Rightarrow> 'r list" where
  "update_where p f rows = map (\<lambda>r. if p r then f r else r) rows"

definition rows_affected :: "('r \<Rightarrow> bool) \<Rightarrow> 'r list \<Rightarrow> nat" where
  "rows_affected p rows = length (filter p rows)"

lemma length_update_where [simp]: "length (update_where p f rows) = length rows"
  by (simp add: update_where_def)

lemma map_update_where:
  "(\<And>r. p r \<Longrightarrow> g (f r) = g r) \<Longrightarrow> map g (update_where p f rows) = map g rows"
  by (simp add: update_where_def)

lemma nth_update_where:
  "i < length rows \<Longrightarrow> update_where p f rows ! i = (if p (rows ! i) then f (rows ! i) else rows ! i)"
  by (simp add: update_where_def)

lemma set_update_where: "set (update_where p f rows) = f ` {r \<in> set rows. p r} \<union> {r \<in> set rows. \<not> p r}"
  by (auto simp: update_where_def)

lemma filter_update_where:
  "filter q (update_where p f rows) = map (\<lambda>r. if p r then f r else r) (filter (\<lambda>r. q (if p r then f r else r)) rows)"
  by (induction rows) (auto simp: update_where_def)

lemma update_where_none: "(\<And>r. r \<in> set rows \<Longrightarrow> \<not> p r) \<Longrightarrow> update_where p f rows = rows"
  by (simp add: update_where_def map_idI)

lemma rows_affected_0: "rows_affected p rows = 0 \<longleftrightarrow> (\<forall>r \<in> set rows. \<not> p r)"
  by (auto simp: rows_affected_def filter_empty_conv)

lemma rows_affected_pos: "0 < rows_affected p rows \<longleftrightarrow> (\<exists>r \<in> set rows. p r)"
  using rows_affected_0 [of p rows] by auto

section \<open>Cached values, Redis, events, background work\<close>

text \<open>
  What the cache stores; the code keeps its JSON and decodes it to the type it expects.
  \<open>CNil\<close> is an interface that holds a nil pointer: it is not \<open>nil\<close> until it went through
  JSON.
\<close>

datatype cval =
    CIdle idle_record
  | CItem shop_item
  | CActivity flash_activity
  | CActivities "flash_activity list"
  | CUser user
  | CTask task
  | CTasks "task list"
  | CInt int
  | CStr string
  | CNil

text \<open>
  What survives the JSON of a value: the password hash of a user carries the tag
  \<open>json:"-"\<close> and is left out, and a nil pointer becomes null.
\<close>

definition json_of :: "cval option \<Rightarrow> cval option" where
  "json_of v = (case v of
      Some (CUser u) \<Rightarrow> Some (CUser (u\<lparr>us_password_hash := []\<rparr>))
    | Some CNil \<Rightarrow> None
    | _ \<Rightarrow> v)"

lemma json_of_idem [simp]: "json_of (json_of v) = json_of v"
  by (simp add: json_of_def split: cval.splits option.splits)

lemma json_of_simps [simp]:
  "json_of None = None" "json_of (Some CNil) = None"
  "json_of (Some (CIdle r)) = Some (CIdle r)" "json_of (Some (CItem i)) = Some (CItem i)"
  "json_of (Some (CActivity a)) = Some (CActivity a)" "json_of (Some (CActivities xs)) = Some (CActivities xs)"
  "json_of (Some (CTask t)) = Some (CTask t)" "json_of (Some (CTasks ts)) = Some (CTasks ts)"
  "json_of (Some (CInt n)) = Some (CInt n)" "json_of (Some (CStr s)) = Some (CStr s)"
  "json_of (Some (CUser u)) = Some (CUser (u\<lparr>us_password_hash := []\<rparr>))"
  by (simp_all add: json_of_def)

text \<open>A Redis value: a counter, a string, a set, a hash of counters, a cached value (\<open>None\<close>: null).\<close>

datatype rval =
    RInt int
  | RStr string
  | RSet "string list"
  | RHash "string \<rightharpoonup> int"
  | RCached "cval option"

record rentry =
  re_val :: rval
  re_expire :: "instant option"

datatype message =
    PointsAdjust points_outbox
  | IdleSettled string int int int
  | ShopRedeemed string int int string int
  | TaskCompleted string int string
  | CacheInvalidate string
  | UserRegistered string string string
  | UserLoggedIn string string

text \<open>
  Goroutines. \<open>BgEmitEither\<close> builds its message from a record that the request still writes:
  it sends the first or the second message, depending on which comes first.
\<close>

datatype bg_task =
    BgSetL1 string "cval option" duration
  | BgSetNullL2 string duration
  | BgSetL2 string "cval option" duration
  | BgInvalidate string
  | BgDeleteL1 string
  | BgApplyOutbox points_outbox
  | BgEmit message
  | BgEmitEither message message
  | BgMail string string

text \<open>A heartbeat that waits to be written.\<close>

record heartbeat_item =
  hb_user :: string
  hb_device :: string
  hb_ts :: instant

text \<open>The failed logins of one account, in the process that keeps them.\<close>

record login_fail_entry =
  lf_count :: int
  lf_until :: "instant option"
  lf_seen :: instant

text \<open>
  One process and the services it shares with the others. \<open>cache_on\<close> and \<open>redis_on\<close>
  are \<open>cacheMgr != nil\<close> and \<open>L2 != nil\<close>; \<open>lock_tokens\<close> is the process's map of lock
  tokens and \<open>token_seq\<close> makes the random tokens distinct; \<open>ttl_of\<close> and \<open>l1_ttl_of\<close>
  are the random and hot-key adjustments of a time to live, any functions;
  \<open>outbox_slots\<close> is the capacity of the points worker pool;
  \<open>hb_pending\<close> is the map of the heartbeat flusher, which exists when \<open>hb_flusher_on\<close>;
  \<open>mysql\<close> says that the business database is MySQL and \<open>fault_text\<close> is the message of a failed
  call; \<open>mem_locks\<close> is the map of the in-process account locks (a zero time is \<open>None\<close>), \<open>uuid_seq\<close>
  counts the identifiers drawn and \<open>bcrypt_free\<close> the free slots of the bcrypt semaphore;
  \<open>background\<close> holds the goroutines that were started and have not run yet.
\<close>

record world =
  now :: instant
  tz_offset :: duration
  faults :: "bool list"
  db :: business_db
  replica :: "business_db option"
  mysql :: bool
  fault_text :: "string \<Rightarrow> string"
  users :: "user list"
  cache_on :: bool
  redis_on :: bool
  key_prefix :: string
  redis :: "string \<rightharpoonup> rentry"
  lock_tokens :: "string \<rightharpoonup> nat"
  token_seq :: nat
  l1_on :: bool
  l1 :: "string \<rightharpoonup> cval option \<times> instant"
  ttl_of :: "string \<Rightarrow> duration \<Rightarrow> duration"
  l1_ttl_of :: "string \<Rightarrow> duration \<Rightarrow> duration"
  null_cache_ttl :: duration
  read_degraded :: bool
  write_degraded :: bool
  publisher_on :: bool
  outbox_slots :: nat
  hb_flusher_on :: bool
  hb_pending :: "(string \<times> heartbeat_item) list"
  mem_locks :: "string \<rightharpoonup> login_fail_entry"
  uuid_seq :: nat
  bcrypt_free :: nat
  published :: "message list"
  background :: "bg_task list"

definition empty_db :: business_db where
  "empty_db = \<lparr>idle_records = [], idle_daily = [], points_transactions = [], outbox_rows = [],
     shop_items = [], stock_buckets = [], redeem_orders = [], flash_activities = [],
     tasks = [], task_progresses = [], event_dedups = []\<rparr>"

definition empty_world :: world where
  "empty_world = \<lparr>now = 0, tz_offset = 0, faults = [], db = empty_db, replica = None, mysql = False, fault_text = (\<lambda>name. name), users = [],
     cache_on = True, redis_on = True, key_prefix = '''', redis = Map.empty,
     lock_tokens = Map.empty, token_seq = 0, l1_on = True, l1 = Map.empty,
     ttl_of = (\<lambda>_ t. t), l1_ttl_of = (\<lambda>_ t. t), null_cache_ttl = 0,
     read_degraded = False, write_degraded = False,
     publisher_on = False, outbox_slots = 64, hb_flusher_on = False, hb_pending = [],
     mem_locks = Map.empty, uuid_seq = 0, bcrypt_free = 1, published = [], background = []\<rparr>"

section \<open>External calls\<close>

text \<open>One call: the head of the schedule says whether it fails; a failed call has no effect.\<close>

definition ext :: "string \<Rightarrow> (world, 'a) io \<Rightarrow> (world, 'a) io" where
  "ext name m w =
     (case faults w of
        [] \<Rightarrow> m w
      | b # bs \<Rightarrow> (if b then (Inl (Fault name), w\<lparr>faults := bs\<rparr>) else m (w\<lparr>faults := bs\<rparr>)))"

lemma ext_no_fault [simp]: "faults w = [] \<Longrightarrow> ext name m w = m w"
  by (simp add: ext_def)

text \<open>\<open>err.Error()\<close>: a failed call has the text \<open>fault_text\<close> gives it.\<close>

primrec error_text :: "(string \<Rightarrow> string) \<Rightarrow> gerr \<Rightarrow> string" where
  "error_text txt (Fault s) = txt s"
| "error_text txt (Sentinel s) = s"
| "error_text txt (Wrap s e) = s @ '': '' @ error_text txt e"

text \<open>\<open>rw.Read(ctx)\<close>: a replica when there is one, whatever it holds; else the master.\<close>

definition read_db :: "world \<Rightarrow> business_db" where
  "read_db w = (case replica w of None \<Rightarrow> db w | Some d \<Rightarrow> d)"

definition db_read :: "string \<Rightarrow> (business_db \<Rightarrow> 'a) \<Rightarrow> (world, 'a) io" where
  "db_read name f = ext name (gets_io (\<lambda>w. f (read_db w)))"

definition db_write :: "string \<Rightarrow> (world \<Rightarrow> business_db \<Rightarrow> 'a \<times> business_db) \<Rightarrow> (world, 'a) io" where
  "db_write name f = ext name (\<lambda>w. case f w (db w) of (x, d) \<Rightarrow> (Inr x, w\<lparr>db := d\<rparr>))"

text \<open>A statement that the database may refuse (a unique index); refused, it has no effect.\<close>

definition db_try :: "string \<Rightarrow> (world \<Rightarrow> business_db \<Rightarrow> gerr + 'a \<times> business_db) \<Rightarrow> (world, 'a) io" where
  "db_try name f = ext name (\<lambda>w. case f w (db w) of
     Inl e \<Rightarrow> (Inl e, w) | Inr (x, d) \<Rightarrow> (Inr x, w\<lparr>db := d\<rparr>))"

text \<open>
  \<open>businessDB.Transaction(fn)\<close>: an error of the body, or of the commit, rolls the business
  tables back; nothing else is undone. An error that the database answers with a rollback of its own (a
  deadlock on MySQL), after which the statements that follow would commit one by one, is not shown here: the
  one body that goes on after such an error, the counting of progress, spells it out itself.
\<close>

definition transaction :: "(world, 'a) io \<Rightarrow> (world, 'a) io" where
  "transaction body w =
     (case body w of
        (Inl e, w') \<Rightarrow> (Inl e, w'\<lparr>db := db w\<rparr>)
      | (Inr x, w') \<Rightarrow>
          (case ext ''commit'' (ret ()) w' of
             (Inl e, w'') \<Rightarrow> (Inl e, w''\<lparr>db := db w\<rparr>)
           | (Inr _, w'') \<Rightarrow> (Inr x, w'')))"

text \<open>The user database is a single server of its own.\<close>

definition user_read :: "string \<Rightarrow> (user list \<Rightarrow> 'a) \<Rightarrow> (world, 'a) io" where
  "user_read name f = ext name (gets_io (\<lambda>w. f (users w)))"

definition user_write :: "string \<Rightarrow> (user list \<Rightarrow> (gerr + 'a) \<times> user list) \<Rightarrow> (world, 'a) io" where
  "user_write name f = ext name (\<lambda>w. case f (users w) of (x, us) \<Rightarrow> (x, w\<lparr>users := us\<rparr>))"

definition spawn :: "bg_task \<Rightarrow> (world, unit) io" where
  "spawn t = modify_io (\<lambda>w. w\<lparr>background := background w @ [t]\<rparr>)"

definition publish :: "message \<Rightarrow> (world, unit) io" where
  "publish m = ext ''publish'' (modify_io (\<lambda>w. w\<lparr>published := published w @ [m]\<rparr>))"

definition time_now :: "(world, instant) io" where
  "time_now = gets_io now"

lemma fw_spawn: "fails_with E (spawn t)"
  by (simp add: spawn_def fw_rules)

text \<open>The local calendar day of an instant, and the whole days of \<open>Truncate(24h)\<close>, which are UTC.\<close>

definition local_day :: "world \<Rightarrow> int" where
  "local_day w = (now w + tz_offset w) div (24 * hour)"

definition utc_day_start :: "world \<Rightarrow> instant" where
  "utc_day_start w = now w - now w mod (24 * hour)"

definition endOfLocalDay :: "world \<Rightarrow> duration" where
  "endOfLocalDay w = 24 * hour - (now w + tz_offset w) mod (24 * hour) + hour"

section \<open>Redis\<close>

definition cacheKey :: "string \<Rightarrow> string \<Rightarrow> string" where
  "cacheKey prefix key = (if prefix = [] then key else prefix @ '':'' @ key)"

definition l2Key :: "world \<Rightarrow> string \<Rightarrow> string" where
  "l2Key w key = cacheKey (key_prefix w) key"

lemma cacheKey_inject [simp]: "cacheKey p k = cacheKey p k' \<longleftrightarrow> k = k'"
  by (simp add: cacheKey_def)

text \<open>What a full key holds now: an entry past its expiry is gone.\<close>

definition live :: "world \<Rightarrow> string \<Rightarrow> rentry option" where
  "live w k = (case redis w k of
      None \<Rightarrow> None
    | Some e \<Rightarrow> (case re_expire e of
          None \<Rightarrow> Some e
        | Some t \<Rightarrow> if now w < t then Some e else None))"

definition rget :: "world \<Rightarrow> string \<Rightarrow> rval option" where
  "rget w k = map_option re_val (live w k)"

text \<open>\<open>SET key v EX ttl\<close>; a non-positive ttl of go-redis means no expiry.\<close>

definition rset :: "string \<Rightarrow> rval \<Rightarrow> duration \<Rightarrow> world \<Rightarrow> world" where
  "rset k v ttl w = w\<lparr>redis := (redis w)(k \<mapsto> \<lparr>re_val = v,
       re_expire = (if ttl \<le> 0 then None else Some (now w + ttl))\<rparr>)\<rparr>"

text \<open>A write that keeps the expiry of the live entry (\<open>INCRBY\<close>, \<open>HINCRBY\<close>, \<open>SADD\<close>).\<close>

definition rput :: "string \<Rightarrow> rval \<Rightarrow> world \<Rightarrow> world" where
  "rput k v w = w\<lparr>redis := (redis w)(k \<mapsto> \<lparr>re_val = v,
       re_expire = (case live w k of None \<Rightarrow> None | Some e \<Rightarrow> re_expire e)\<rparr>)\<rparr>"

definition rexpire :: "string \<Rightarrow> duration \<Rightarrow> world \<Rightarrow> world" where
  "rexpire k ttl w = (case live w k of
      None \<Rightarrow> w
    | Some e \<Rightarrow> w\<lparr>redis := (redis w)(k \<mapsto> e\<lparr>re_expire := Some (now w + ttl)\<rparr>)\<rparr>)"

definition rdel :: "string \<Rightarrow> world \<Rightarrow> world" where
  "rdel k w = w\<lparr>redis := (redis w)(k := None)\<rparr>"

definition has_ttl :: "world \<Rightarrow> string \<Rightarrow> bool" where
  "has_ttl w k = (case live w k of None \<Rightarrow> False | Some e \<Rightarrow> re_expire e \<noteq> None)"

text \<open>\<open>tonumber(redis.call('GET', key) or '0')\<close> on a counter.\<close>

definition counter :: "world \<Rightarrow> string \<Rightarrow> int" where
  "counter w k = (case rget w k of Some (RInt n) \<Rightarrow> n | _ \<Rightarrow> 0)"

definition hash_count :: "world \<Rightarrow> string \<Rightarrow> string \<Rightarrow> int" where
  "hash_count w k f = (case rget w k of
      Some (RHash h) \<Rightarrow> (case h f of Some n \<Rightarrow> n | None \<Rightarrow> 0) | _ \<Rightarrow> 0)"

definition hash_of :: "world \<Rightarrow> string \<Rightarrow> (string \<rightharpoonup> int)" where
  "hash_of w k = (case rget w k of Some (RHash h) \<Rightarrow> h | _ \<Rightarrow> Map.empty)"

definition set_of :: "world \<Rightarrow> string \<Rightarrow> string list" where
  "set_of w k = (case rget w k of Some (RSet xs) \<Rightarrow> xs | _ \<Rightarrow> [])"

lemma live_rset [simp]:
  "live (rset k v ttl w) j =
     (if j = k then (Some \<lparr>re_val = v, re_expire = (if ttl \<le> 0 then None else Some (now w + ttl))\<rparr>)
      else live w j)"
  by (auto simp: live_def rset_def split: option.splits)

lemma live_rput [simp]:
  "live (rput k v w) j =
     (if j = k then Some \<lparr>re_val = v, re_expire = (case live w k of None \<Rightarrow> None | Some e \<Rightarrow> re_expire e)\<rparr>
      else live w j)"
  by (auto simp: live_def rput_def split: option.splits if_splits)

lemma live_rexpire [simp]:
  "0 < ttl \<Longrightarrow> live (rexpire k ttl w) j =
     (if j = k then map_option (\<lambda>e. e\<lparr>re_expire := Some (now w + ttl)\<rparr>) (live w k) else live w j)"
  by (auto simp: live_def rexpire_def split: option.splits if_splits)

lemma live_rdel [simp]: "live (rdel k w) j = (if j = k then None else live w j)"
  by (auto simp: live_def rdel_def split: option.splits)

lemma live_frame [simp]:
  "live (w\<lparr>faults := x_faults\<rparr>) k = live w k"
  "live (w\<lparr>lock_tokens := x_lock_tokens\<rparr>) k = live w k"
  "live (w\<lparr>token_seq := x_token_seq\<rparr>) k = live w k"
  "live (w\<lparr>background := x_background\<rparr>) k = live w k"
  "live (w\<lparr>published := x_published\<rparr>) k = live w k"
  "live (w\<lparr>db := x_db\<rparr>) k = live w k"
  "live (w\<lparr>users := x_users\<rparr>) k = live w k"
  "live (w\<lparr>l1 := x_l1\<rparr>) k = live w k"
  "live (w\<lparr>replica := x_replica\<rparr>) k = live w k"
  by (auto simp: live_def split: option.splits)

lemma l2Key_frame [simp]:
  "l2Key (w\<lparr>faults := x_faults\<rparr>) k = l2Key w k"
  "l2Key (w\<lparr>lock_tokens := x_lock_tokens\<rparr>) k = l2Key w k"
  "l2Key (w\<lparr>token_seq := x_token_seq\<rparr>) k = l2Key w k"
  "l2Key (w\<lparr>background := x_background\<rparr>) k = l2Key w k"
  "l2Key (w\<lparr>published := x_published\<rparr>) k = l2Key w k"
  "l2Key (w\<lparr>db := x_db\<rparr>) k = l2Key w k"
  "l2Key (w\<lparr>users := x_users\<rparr>) k = l2Key w k"
  "l2Key (w\<lparr>l1 := x_l1\<rparr>) k = l2Key w k"
  "l2Key (w\<lparr>replica := x_replica\<rparr>) k = l2Key w k"
  "l2Key (w\<lparr>redis := x_redis\<rparr>) k = l2Key w k"
  "l2Key (w\<lparr>now := x_now\<rparr>) k = l2Key w k"
  by (simp_all add: l2Key_def)

lemma l2Key_inject [simp]: "l2Key w k = l2Key w k' \<longleftrightarrow> k = k'"
  by (simp add: l2Key_def)

lemma rget_frame [simp]:
  "rget (w\<lparr>faults := x_faults\<rparr>) k = rget w k"
  "rget (w\<lparr>lock_tokens := x_lock_tokens\<rparr>) k = rget w k"
  "rget (w\<lparr>token_seq := x_token_seq\<rparr>) k = rget w k"
  "rget (w\<lparr>background := x_background\<rparr>) k = rget w k"
  "rget (w\<lparr>published := x_published\<rparr>) k = rget w k"
  "rget (w\<lparr>db := x_db\<rparr>) k = rget w k"
  "rget (w\<lparr>users := x_users\<rparr>) k = rget w k"
  "rget (w\<lparr>l1 := x_l1\<rparr>) k = rget w k"
  "rget (w\<lparr>replica := x_replica\<rparr>) k = rget w k"
  "rget (rdel j w) k = (if k = j then None else rget w k)"
  "rget (rset j v ttl w) k = (if k = j then Some v else rget w k)"
  "rget (rput j v w) k = (if k = j then Some v else rget w k)"
  by (auto simp: rget_def)

lemma redis_frame [simp]:
  "db (rset k v ttl w) = db w" "db (rput k v w) = db w" "db (rexpire k ttl w) = db w" "db (rdel k w) = db w"
  "now (rset k v ttl w) = now w" "now (rput k v w) = now w" "now (rexpire k ttl w) = now w" "now (rdel k w) = now w"
  "users (rset k v ttl w) = users w" "users (rput k v w) = users w" "users (rexpire k ttl w) = users w" "users (rdel k w) = users w"
  "key_prefix (rset k v ttl w) = key_prefix w" "key_prefix (rput k v w) = key_prefix w" "key_prefix (rexpire k ttl w) = key_prefix w" "key_prefix (rdel k w) = key_prefix w"
  "faults (rset k v ttl w) = faults w" "faults (rput k v w) = faults w" "faults (rexpire k ttl w) = faults w" "faults (rdel k w) = faults w"
  "redis_on (rset k v ttl w) = redis_on w" "redis_on (rput k v w) = redis_on w" "redis_on (rexpire k ttl w) = redis_on w" "redis_on (rdel k w) = redis_on w"
  "cache_on (rset k v ttl w) = cache_on w" "cache_on (rput k v w) = cache_on w" "cache_on (rexpire k ttl w) = cache_on w" "cache_on (rdel k w) = cache_on w"
  "lock_tokens (rset k v ttl w) = lock_tokens w" "lock_tokens (rput k v w) = lock_tokens w" "lock_tokens (rexpire k ttl w) = lock_tokens w" "lock_tokens (rdel k w) = lock_tokens w"
  "token_seq (rset k v ttl w) = token_seq w" "token_seq (rput k v w) = token_seq w" "token_seq (rexpire k ttl w) = token_seq w" "token_seq (rdel k w) = token_seq w"
  "background (rset k v ttl w) = background w" "background (rput k v w) = background w" "background (rexpire k ttl w) = background w" "background (rdel k w) = background w"
  "published (rset k v ttl w) = published w" "published (rput k v w) = published w" "published (rexpire k ttl w) = published w" "published (rdel k w) = published w"
  "publisher_on (rset k v ttl w) = publisher_on w" "publisher_on (rput k v w) = publisher_on w" "publisher_on (rexpire k ttl w) = publisher_on w" "publisher_on (rdel k w) = publisher_on w"
  "l1 (rset k v ttl w) = l1 w" "l1 (rput k v w) = l1 w" "l1 (rexpire k ttl w) = l1 w" "l1 (rdel k w) = l1 w"
  "l1_on (rset k v ttl w) = l1_on w" "l1_on (rput k v w) = l1_on w" "l1_on (rexpire k ttl w) = l1_on w" "l1_on (rdel k w) = l1_on w"
  "replica (rset k v ttl w) = replica w" "replica (rput k v w) = replica w" "replica (rexpire k ttl w) = replica w" "replica (rdel k w) = replica w"
  "tz_offset (rset k v ttl w) = tz_offset w" "tz_offset (rput k v w) = tz_offset w" "tz_offset (rexpire k ttl w) = tz_offset w" "tz_offset (rdel k w) = tz_offset w"
  "ttl_of (rset k v ttl w) = ttl_of w" "ttl_of (rput k v w) = ttl_of w" "ttl_of (rexpire k ttl w) = ttl_of w" "ttl_of (rdel k w) = ttl_of w"
  "l1_ttl_of (rset k v ttl w) = l1_ttl_of w" "l1_ttl_of (rput k v w) = l1_ttl_of w" "l1_ttl_of (rexpire k ttl w) = l1_ttl_of w" "l1_ttl_of (rdel k w) = l1_ttl_of w"
  "read_degraded (rset k v ttl w) = read_degraded w" "read_degraded (rput k v w) = read_degraded w" "read_degraded (rexpire k ttl w) = read_degraded w" "read_degraded (rdel k w) = read_degraded w"
  "write_degraded (rset k v ttl w) = write_degraded w" "write_degraded (rput k v w) = write_degraded w" "write_degraded (rexpire k ttl w) = write_degraded w" "write_degraded (rdel k w) = write_degraded w"
  "null_cache_ttl (rset k v ttl w) = null_cache_ttl w" "null_cache_ttl (rput k v w) = null_cache_ttl w" "null_cache_ttl (rexpire k ttl w) = null_cache_ttl w" "null_cache_ttl (rdel k w) = null_cache_ttl w"
  "mem_locks (rset k v ttl w) = mem_locks w" "mem_locks (rput k v w) = mem_locks w" "mem_locks (rexpire k ttl w) = mem_locks w" "mem_locks (rdel k w) = mem_locks w"
  "uuid_seq (rset k v ttl w) = uuid_seq w" "uuid_seq (rput k v w) = uuid_seq w" "uuid_seq (rexpire k ttl w) = uuid_seq w" "uuid_seq (rdel k w) = uuid_seq w"
  "bcrypt_free (rset k v ttl w) = bcrypt_free w" "bcrypt_free (rput k v w) = bcrypt_free w" "bcrypt_free (rexpire k ttl w) = bcrypt_free w" "bcrypt_free (rdel k w) = bcrypt_free w"
  "fault_text (rset k v ttl w) = fault_text w" "fault_text (rput k v w) = fault_text w" "fault_text (rexpire k ttl w) = fault_text w" "fault_text (rdel k w) = fault_text w"
  "mysql (rset k v ttl w) = mysql w" "mysql (rput k v w) = mysql w" "mysql (rexpire k ttl w) = mysql w" "mysql (rdel k w) = mysql w"
  by (simp_all add: rset_def rput_def rexpire_def rdel_def split: option.split)

lemma l2Key_redis [simp]:
  "l2Key (rset a v ttl w) k = l2Key w k"
  "l2Key (rput a v w) k = l2Key w k"
  "l2Key (rexpire a ttl w) k = l2Key w k"
  "l2Key (rdel a w) k = l2Key w k"
  by (simp_all add: l2Key_def)

section \<open>Relations that see only durable state\<close>

text \<open>
  What a call of a cache, of Redis or of the message queue leaves alone. A relation that holds
  whenever this part is unchanged holds for every such call, and for every program built from
  them, as soon as it holds for the writes.
\<close>

definition durable :: "world \<Rightarrow>
    business_db \<times> user list \<times> (string \<rightharpoonup> login_fail_entry) \<times> nat \<times> bool \<times> (string \<Rightarrow> string)" where
  "durable w = (db w, users w, mem_locks w, bcrypt_free w, mysql w, fault_text w)"

lemma durable_frame [simp]:
  "durable (rset k v ttl w) = durable w" "durable (rput k v w) = durable w"
  "durable (rexpire k ttl w) = durable w" "durable (rdel k w) = durable w"
  "durable (w\<lparr>faults := x_faults\<rparr>) = durable w" "durable (w\<lparr>now := x_now\<rparr>) = durable w"
  "durable (w\<lparr>background := x_background\<rparr>) = durable w" "durable (w\<lparr>published := x_published\<rparr>) = durable w"
  "durable (w\<lparr>l1 := x_l1\<rparr>) = durable w" "durable (w\<lparr>lock_tokens := x_lock_tokens\<rparr>) = durable w"
  "durable (w\<lparr>token_seq := x_token_seq\<rparr>) = durable w" "durable (w\<lparr>uuid_seq := x_uuid_seq\<rparr>) = durable w"
  by (simp_all add: durable_def)

lemma durable_fold_rdel [simp]: "durable (fold rdel ks w) = durable w"
  by (induction ks arbitrary: w) simp_all

locale quiet_relation = two_state R for R :: "world \<Rightarrow> world \<Rightarrow> bool" +
  assumes quiet: "durable w' = durable w \<Longrightarrow> R w w'"
begin

lemma ev_quiet: "(\<And>w. durable (snd (m w)) = durable w) \<Longrightarrow> evolves R m"
  by (simp add: evolves_def quiet)

lemma ev_ext:
  assumes "evolves R m"
  shows "evolves R (ext name m)"
proof (rule evolvesI)
  fix w :: world
  let ?v = "w\<lparr>faults := tl (faults w)\<rparr>"
  have m: "R v (snd (m v))" for v using assms by (simp add: evolves_def)
  have "R w ?v" by (rule quiet) simp
  then have "R w (snd (m ?v))" using m step_trans by blast
  then show "R w (snd (ext name m w))"
    using m [of w] quiet by (auto simp: ext_def split: list.splits)
qed

lemma ev_quiet_modify: "(\<And>w. durable (f w) = durable w) \<Longrightarrow> evolves R (modify_io f)"
  by (rule ev_quiet) (simp add: modify_io_def)

lemma ev_db_read: "evolves R (db_read name f)"
  by (simp add: db_read_def ev_ext ev_gets)

lemma ev_user_read: "evolves R (user_read name f)"
  by (simp add: user_read_def ev_ext ev_gets)

lemma ev_spawn: "evolves R (spawn t)"
  by (simp add: spawn_def ev_quiet_modify)

lemma ev_publish: "evolves R (publish t)"
  by (simp add: publish_def ev_ext ev_quiet_modify)

lemma ev_time_now: "evolves R time_now"
  by (simp add: time_now_def ev_gets)

lemmas ev_quiet_world = ev_rules ev_ext ev_db_read ev_user_read ev_spawn ev_publish ev_time_now

end

section \<open>Relations of the business tables\<close>

text \<open>\<open>on_db Q\<close> relates two states when \<open>Q\<close> relates their business tables.\<close>

definition on_db :: "(business_db \<Rightarrow> business_db \<Rightarrow> bool) \<Rightarrow> world \<Rightarrow> world \<Rightarrow> bool" where
  "on_db Q w w' \<longleftrightarrow> Q (db w) (db w')"

locale db_relation =
  fixes Q :: "business_db \<Rightarrow> business_db \<Rightarrow> bool"
  assumes db_refl: "Q d d"
    and db_trans: "Q a b \<Longrightarrow> Q b c \<Longrightarrow> Q a c"
begin

sublocale quiet_relation "on_db Q"
  by unfold_locales (auto simp: on_db_def durable_def intro: db_refl db_trans)

lemma ev_same_db: "(\<And>w. db (snd (m w)) = db w) \<Longrightarrow> evolves (on_db Q) m"
  by (simp add: evolves_def on_db_def db_refl)

lemma ev_modify: "(\<And>w. db (f w) = db w) \<Longrightarrow> evolves (on_db Q) (modify_io f)"
  by (rule ev_same_db) (simp add: modify_io_def)

lemma ev_db_write:
  assumes "\<And>w d. Q d (snd (f w d))"
  shows "evolves (on_db Q) (db_write name f)"
  unfolding db_write_def
  by (intro ev_ext evolvesI)
    (use assms in \<open>auto simp: on_db_def split: prod.splits\<close>, metis snd_conv)

lemma ev_db_try:
  assumes "\<And>w d x d'. f w d = Inr (x, d') \<Longrightarrow> Q d d'"
  shows "evolves (on_db Q) (db_try name f)"
  unfolding db_try_def
  by (intro ev_ext evolvesI)
    (use assms in \<open>auto simp: on_db_def db_refl split: sum.splits\<close>)

lemma ev_transaction:
  assumes "evolves (on_db Q) body"
  shows "evolves (on_db Q) (transaction body)"
proof (rule evolvesI)
  fix w
  obtain r v where b: "body w = (r, v)" by (cases "body w")
  then have wv: "Q (db w) (db v)" using evolvesD [OF assms b] by (simp add: on_db_def)
  show "on_db Q w (snd (transaction body w))"
  proof (cases r)
    case (Inl e)
    then show ?thesis using b by (simp add: transaction_def on_db_def db_refl)
  next
    case (Inr x)
    then show ?thesis using b wv
      by (auto simp: transaction_def on_db_def db_refl ext_def ret_def split: list.splits)
  qed
qed

lemma ev_user_write: "evolves (on_db Q) (user_write name f)"
  unfolding user_write_def
  by (intro ev_ext ev_same_db) (simp add: case_prod_beta)

lemmas ev_world = ev_quiet_world ev_user_write ev_transaction

end

interpretation unchanged: db_relation "(=) :: business_db \<Rightarrow> business_db \<Rightarrow> bool"
  by unfold_locales auto

text \<open>An invariant of a step relation holds along every sequence of its steps.\<close>

locale step_invariant =
  fixes S :: "business_db \<Rightarrow> business_db \<Rightarrow> bool" and P :: "business_db \<Rightarrow> bool"
  assumes one_step: "S d d' \<Longrightarrow> P d \<Longrightarrow> P d'"
begin

lemma many_steps: "S\<^sup>*\<^sup>* d d' \<Longrightarrow> P d \<Longrightarrow> P d'"
  by (induction rule: rtranclp_induct) (auto intro: one_step)

end

section \<open>Transactions\<close>

lemma transaction_ok: "transaction m w = (Inr x, w') \<Longrightarrow> \<exists>v. m w = (Inr x, v) \<and> db w' = db v"
  by (auto simp: transaction_def ext_def ret_def split: prod.splits sum.splits list.splits if_splits)

lemma transaction_fails: "transaction m w = (Inl e, w') \<Longrightarrow> db w' = db w"
  by (auto simp: transaction_def split: prod.splits sum.splits)

text \<open>The tables between two calls of a transaction are visible to nobody else.\<close>

lemma ev_whole_transaction:
  assumes "\<And>w x w'. m w = (Inr x, w') \<Longrightarrow> Q (db w) (db w')" and "\<And>d. Q d d"
  shows "evolves (on_db Q) (transaction m)"
proof (rule evolvesI)
  fix w
  obtain r v where t: "transaction m w = (r, v)" by fastforce
  then show "on_db Q w (snd (transaction m w))"
    using assms transaction_ok [of m w _ v] transaction_fails [of m w _ v]
    by (cases r) (auto simp: on_db_def)
qed

end
