(* ===== verification/L2Cache.thy ===== *)
theory L2Cache
  imports World
begin

text \<open>
  \<open>internal/cache/l2.go\<close>: the Redis operations of \<open>RedisCache\<close>, with the distributed lock
  and its tokens. Keys are prefixed by \<open>l2Key\<close>. A value is stored as its JSON: an integer is
  readable as a counter, and the other values stay opaque to the scripts.
\<close>

section \<open>Values\<close>

definition encode :: "cval option \<Rightarrow> rval" where
  "encode v = (case v of Some (CInt n) \<Rightarrow> RInt n | _ \<Rightarrow> RCached (json_of v))"

definition decode :: "rval \<Rightarrow> cval option" where
  "decode r = (case r of RInt n \<Rightarrow> Some (CInt n) | RStr s \<Rightarrow> Some (CStr s) | RCached v \<Rightarrow> v
                       | RSet _ \<Rightarrow> None | RHash _ \<Rightarrow> None)"

definition is_string_value :: "rval \<Rightarrow> bool" where
  "is_string_value r = (case r of RSet _ \<Rightarrow> False | RHash _ \<Rightarrow> False | _ \<Rightarrow> True)"

lemma decode_encode [simp]: "decode (encode v) = json_of v"
  by (auto simp: encode_def decode_def split: option.splits cval.splits)

lemma is_string_encode [simp]: "is_string_value (encode v)"
  by (auto simp: encode_def is_string_value_def split: option.splits cval.splits)

definition wrongtype :: gerr where
  "wrongtype = Fault ''WRONGTYPE''"

section \<open>Strings\<close>

text \<open>The result \<open>None\<close> is \<open>(nil, false, nil)\<close>; \<open>Some None\<close> is a hit on a null.\<close>

definition l2_get :: "string \<Rightarrow> (world, cval option option) io" where
  "l2_get key = ext ''redis get'' (\<lambda>w.
     case rget w (l2Key w key) of
       None \<Rightarrow> (Inr None, w)
     | Some r \<Rightarrow> (if is_string_value r then (Inr (Some (decode r)), w) else (Inl wrongtype, w)))"

definition l2_set :: "string \<Rightarrow> cval option \<Rightarrow> duration \<Rightarrow> (world, unit) io" where
  "l2_set key v ttl = ext ''redis set'' (\<lambda>w. (Inr (), rset (l2Key w key) (encode v) ttl w))"

definition l2_set_null :: "string \<Rightarrow> duration \<Rightarrow> (world, unit) io" where
  "l2_set_null key ttl = ext ''redis set'' (\<lambda>w. (Inr (), rset (l2Key w key) (RCached None) ttl w))"

definition l2_delete :: "string list \<Rightarrow> (world, unit) io" where
  "l2_delete keys =
     (if keys = [] then ret ()
      else ext ''redis del'' (\<lambda>w. (Inr (), fold rdel (map (l2Key w) keys) w)))"

definition l2_exists :: "string \<Rightarrow> (world, bool) io" where
  "l2_exists key = ext ''redis exists'' (gets_io (\<lambda>w. live w (l2Key w key) \<noteq> None))"

definition l2_batch_exists :: "string list \<Rightarrow> (world, bool list) io" where
  "l2_batch_exists keys =
     (if keys = [] then ret []
      else ext ''redis pipeline batchexists''
             (gets_io (\<lambda>w. map (\<lambda>k. live w (l2Key w k) \<noteq> None) keys)))"

text \<open>The pipeline of \<open>redisPipeline\<close> does not prefix its keys; \<open>Exec\<close> fails on a missing one.\<close>

definition pipeline_get :: "string list \<Rightarrow> (world, rval list) io" where
  "pipeline_get keys = ext ''pipeline exec'' (\<lambda>w.
     if \<exists>k \<in> set keys. rget w k = None then (Inl (Sentinel ''redis: nil''), w)
     else (Inr (map (\<lambda>k. the (rget w k)) keys), w))"

definition l2_incr_by :: "string \<Rightarrow> int \<Rightarrow> (world, int) io" where
  "l2_incr_by key v = ext ''redis incrby'' (\<lambda>w.
     let k = l2Key w key; n = counter w k + v in (Inr n, rput k (RInt n) w))"

section \<open>Sets\<close>

definition l2_sadd :: "string \<Rightarrow> string \<Rightarrow> (world, unit) io" where
  "l2_sadd key member = ext ''redis sadd'' (\<lambda>w.
     let k = l2Key w key; s = set_of w k
     in (Inr (), if member \<in> set s then w else rput k (RSet (s @ [member])) w))"

definition l2_srem :: "string \<Rightarrow> string \<Rightarrow> (world, unit) io" where
  "l2_srem key member = ext ''redis srem'' (\<lambda>w.
     let k = l2Key w key; s = set_of w k; s' = filter (\<lambda>x. x \<noteq> member) s
     in (Inr (), if member \<notin> set s then w else if s' = [] then rdel k w else rput k (RSet s') w))"

definition l2_sscan :: "string \<Rightarrow> (world, string list) io" where
  "l2_sscan key = ext ''redis sscan'' (gets_io (\<lambda>w. set_of w (l2Key w key)))"

section \<open>The distributed lock\<close>

text \<open>
  \<open>SET NX\<close> with a fresh token that the process remembers under the key; unlocking pops the
  remembered token and deletes the key only when it still holds that token. The code draws 128 random
  bits for a token; a counter stands for them here, an idealisation in which no two tokens are ever equal.
\<close>

definition token_string :: "nat \<Rightarrow> string" where
  "token_string n = show_nat n"

definition l2_lock :: "string \<Rightarrow> duration \<Rightarrow> (world, bool) io" where
  "l2_lock key ttl = ext ''redis setnx'' (\<lambda>w.
     let k = l2Key w key; tok = token_seq w; w1 = w\<lparr>token_seq := Suc tok\<rparr>
     in case live w k of
          Some _ \<Rightarrow> (Inr False, w1)
        | None \<Rightarrow> (Inr True, (rset k (RStr (token_string tok)) ttl w1)
                                \<lparr>lock_tokens := (lock_tokens w)(k \<mapsto> tok)\<rparr>))"

definition holds_string :: "world \<Rightarrow> string \<Rightarrow> string \<Rightarrow> bool" where
  "holds_string w k s = (case rget w k of Some (RStr s') \<Rightarrow> s' = s | _ \<Rightarrow> False)"

lemma holds_string_iff [simp]: "holds_string w k s \<longleftrightarrow> rget w k = Some (RStr s)"
  by (auto simp: holds_string_def split: option.splits rval.splits)

definition l2_unlock :: "string \<Rightarrow> (world, unit) io" where
  "l2_unlock key w =
     (let k = l2Key w key
      in case lock_tokens w k of
           None \<Rightarrow> (Inr (), w)
         | Some tok \<Rightarrow>
             ext ''redis eval'' (\<lambda>v.
               (Inr (), if holds_string v k (token_string tok) then rdel k v else v))
             (w\<lparr>lock_tokens := (lock_tokens w)(k := None)\<rparr>))"

definition l2_refresh_lock :: "string \<Rightarrow> duration \<Rightarrow> (world, bool) io" where
  "l2_refresh_lock key ttl w =
     (let k = l2Key w key
      in case lock_tokens w k of
           None \<Rightarrow> (Inr False, w)
         | Some tok \<Rightarrow>
             ext ''redis eval'' (\<lambda>v.
               if holds_string v k (token_string tok)
               then (Inr True, rexpire k (seconds_of ttl * second) v)
               else (Inr False, v\<lparr>lock_tokens := (lock_tokens v)(k := None)\<rparr>)) w)"

section \<open>Redis operations leave the tables alone\<close>

lemma fold_rdel_db [simp]: "db (fold rdel ks w) = db w"
  by (induction ks arbitrary: w) auto

named_theorems quiet_ops \<open>operations that leave the durable state alone\<close>

lemma l2_quiet [quiet_ops]:
  "durable (snd (l2_get k w)) = durable w"
  "durable (snd (l2_set k v ttl w)) = durable w"
  "durable (snd (l2_set_null k ttl w)) = durable w"
  "durable (snd (l2_delete ks w)) = durable w"
  "durable (snd (l2_exists k w)) = durable w"
  "durable (snd (l2_batch_exists ks w)) = durable w"
  "durable (snd (pipeline_get ks w)) = durable w"
  "durable (snd (l2_incr_by k n w)) = durable w"
  "durable (snd (l2_sadd k s w)) = durable w"
  "durable (snd (l2_srem k s w)) = durable w"
  "durable (snd (l2_sscan k w)) = durable w"
  "durable (snd (l2_lock k ttl w)) = durable w"
  "durable (snd (l2_unlock k w)) = durable w"
  "durable (snd (l2_refresh_lock k ttl w)) = durable w"
  by (simp_all add: l2_get_def l2_set_def l2_set_null_def l2_delete_def l2_exists_def
      l2_batch_exists_def pipeline_get_def l2_incr_by_def l2_sadd_def l2_srem_def l2_sscan_def
      l2_lock_def l2_unlock_def l2_refresh_lock_def ext_def gets_io_def ret_def Let_def
      split: list.splits option.splits)

context quiet_relation
begin

lemma ev_l2:
  "evolves R (l2_get k)"
  "evolves R (l2_set k v ttl)"
  "evolves R (l2_set_null k ttl)"
  "evolves R (l2_delete ks)"
  "evolves R (l2_exists k)"
  "evolves R (l2_batch_exists ks)"
  "evolves R (pipeline_get ks)"
  "evolves R (l2_incr_by k n)"
  "evolves R (l2_sadd k s)"
  "evolves R (l2_srem k s)"
  "evolves R (l2_sscan k)"
  "evolves R (l2_lock k ttl)"
  "evolves R (l2_unlock k)"
  "evolves R (l2_refresh_lock k ttl)"
  by (rule ev_quiet, simp add: l2_quiet)+

end

section \<open>Laws of the string operations\<close>

lemma l2_get_after_set:
  assumes "faults w = []" and "0 < ttl"
  shows "l2_get k (snd (l2_set k v ttl w)) = (Inr (Some (json_of v)), snd (l2_set k v ttl w))"
proof -
  let ?w = "rset (l2Key w k) (encode v) ttl w"
  have w': "snd (l2_set k v ttl w) = ?w" using assms by (simp add: l2_set_def)
  have "faults ?w = []" using assms(1) by (simp add: rset_def)
  moreover have "rget ?w (l2Key ?w k) = Some (encode v)" by (simp add: rget_def l2Key_def)
  ultimately show ?thesis by (simp add: w' l2_get_def)
qed

text \<open>The lock: a second holder is refused while the first one's key is live.\<close>

lemma l2_lock_refused:
  assumes "faults w = []" and "live w (l2Key w k) \<noteq> None"
  shows "fst (l2_lock k ttl w) = Inr False"
  using assms by (auto simp: l2_lock_def Let_def)

end
