(* ===== verification/DistLock.thy ===== *)
theory DistLock
  imports L2Cache
begin

text \<open>
  The distributed lock of \<open>internal/cache/l2.go\<close> used by several processes, the lock methods
  of \<open>cache.Manager\<close> and the lease-based leader election of \<open>internal/cluster/leader.go\<close>.
  A cluster is the shared state together with each process's token map and leader flag; its
  steps interleave the operations of all processes with the passing of time and with faults.
\<close>

section \<open>Manager.Lock, RefreshLock, Unlock\<close>

definition manager_lock :: "string \<Rightarrow> duration \<Rightarrow> (world, bool) io" where
  "manager_lock key ttl w = (if redis_on w then l2_lock key ttl w else (Inr True, w))"

definition manager_refresh_lock :: "string \<Rightarrow> duration \<Rightarrow> (world, bool) io" where
  "manager_refresh_lock key ttl w = (if redis_on w then l2_refresh_lock key ttl w else (Inr True, w))"

definition manager_unlock :: "string \<Rightarrow> (world, unit) io" where
  "manager_unlock key w = (if redis_on w then l2_unlock key w else (Inr (), w))"

lemma manager_lock_quiet [quiet_ops]:
  "durable (snd (manager_lock k ttl w)) = durable w"
  "durable (snd (manager_refresh_lock k ttl w)) = durable w"
  "durable (snd (manager_unlock k w)) = durable w"
  by (simp_all add: manager_lock_def manager_refresh_lock_def manager_unlock_def quiet_ops)

context quiet_relation
begin

lemma ev_manager_lock:
  "evolves R (manager_lock k ttl)"
  "evolves R (manager_refresh_lock k ttl)"
  "evolves R (manager_unlock k)"
  by (rule ev_quiet, simp add: quiet_ops)+

end

section \<open>The elector\<close>

record elector =
  el_key :: string
  el_ttl :: duration
  el_renewal :: duration
  el_leader :: bool

definition NewLeaderElector :: "string \<Rightarrow> duration \<Rightarrow> duration \<Rightarrow> elector" where
  "NewLeaderElector key ttl renewal =
     (let r1 = (if renewal \<le> 0 then go_div ttl 2 else renewal);
          r2 = (if r1 \<le> 0 then second else r1)
      in \<lparr>el_key = key, el_ttl = ttl, el_renewal = r2, el_leader = False\<rparr>)"

text \<open>An error keeps the flag as it is.\<close>

definition tryAcquireOrRenew :: "elector \<Rightarrow> world \<Rightarrow> elector \<times> world" where
  "tryAcquireOrRenew e w =
     (case (if el_leader e then manager_refresh_lock (el_key e) (el_ttl e) w
            else manager_lock (el_key e) (el_ttl e) w) of
        (Inl err, w') \<Rightarrow> (e, w')
      | (Inr ok, w') \<Rightarrow> (e\<lparr>el_leader := ok\<rparr>, w'))"

definition release :: "elector \<Rightarrow> world \<Rightarrow> elector \<times> world" where
  "release e w = (e\<lparr>el_leader := False\<rparr>, snd (manager_unlock (el_key e) w))"

text \<open>\<open>IsLeader\<close> of a nil elector is true.\<close>

definition IsLeader :: "elector option \<Rightarrow> bool" where
  "IsLeader e = (case e of None \<Rightarrow> True | Some e' \<Rightarrow> el_leader e')"

section \<open>A cluster of processes\<close>

record cluster =
  cl_world :: world
  cl_tokens :: "nat \<Rightarrow> (string \<rightharpoonup> nat)"
  cl_elector :: "nat \<Rightarrow> elector"

definition view :: "cluster \<Rightarrow> nat \<Rightarrow> world" where
  "view c p = (cl_world c)\<lparr>lock_tokens := cl_tokens c p\<rparr>"

definition put_back :: "cluster \<Rightarrow> nat \<Rightarrow> world \<Rightarrow> cluster" where
  "put_back c p w = c\<lparr>cl_world := w, cl_tokens := (cl_tokens c)(p := lock_tokens w)\<rparr>"

definition as_proc :: "nat \<Rightarrow> (world, 'a) io \<Rightarrow> cluster \<Rightarrow> cluster" where
  "as_proc p m c = put_back c p (snd (m (view c p)))"

definition elect :: "nat \<Rightarrow> (elector \<Rightarrow> world \<Rightarrow> elector \<times> world) \<Rightarrow> cluster \<Rightarrow> cluster" where
  "elect p f c =
     (case f (cl_elector c p) (view c p) of
        (e, w) \<Rightarrow> (put_back c p w)\<lparr>cl_elector := (cl_elector c)(p := e)\<rparr>)"

text \<open>\<open>ekey\<close> is the lease's key; the other keys are locked by anyone, as they please.\<close>

inductive cluster_step :: "string \<Rightarrow> cluster \<Rightarrow> cluster \<Rightarrow> bool" for ekey :: string where
  lock: "k \<noteq> ekey \<Longrightarrow> cluster_step ekey c (as_proc p (manager_lock k ttl) c)"
| unlock: "k \<noteq> ekey \<Longrightarrow> cluster_step ekey c (as_proc p (manager_unlock k) c)"
| refresh: "k \<noteq> ekey \<Longrightarrow> cluster_step ekey c (as_proc p (manager_refresh_lock k ttl) c)"
| tick: "cluster_step ekey c (elect p tryAcquireOrRenew c)"
| stop: "cluster_step ekey c (elect p release c)"
| time: "0 \<le> d \<Longrightarrow> cluster_step ekey c (c\<lparr>cl_world := (cl_world c)\<lparr>now := now (cl_world c) + d\<rparr>\<rparr>)"
| fault: "cluster_step ekey c (c\<lparr>cl_world := (cl_world c)\<lparr>faults := fs\<rparr>\<rparr>)"

definition start_cluster :: "string \<Rightarrow> (nat \<Rightarrow> elector) \<Rightarrow> cluster \<Rightarrow> bool" where
  "start_cluster ekey es c \<longleftrightarrow>
     redis (cl_world c) = Map.empty \<and> redis_on (cl_world c)
     \<and> (\<forall>p. cl_tokens c p = Map.empty) \<and> cl_elector c = es
     \<and> (\<forall>p. el_key (es p) = ekey \<and> \<not> el_leader (es p))"

inductive cluster_reachable :: "string \<Rightarrow> (nat \<Rightarrow> elector) \<Rightarrow> cluster \<Rightarrow> bool"
  for ekey :: string and es :: "nat \<Rightarrow> elector" where
  start: "start_cluster ekey es c \<Longrightarrow> cluster_reachable ekey es c"
| step: "cluster_reachable ekey es c \<Longrightarrow> cluster_step ekey c c' \<Longrightarrow> cluster_reachable ekey es c'"

text \<open>Process \<open>p\<close> owns the lock under a full key: Redis holds the token that \<open>p\<close> remembers.\<close>

definition owns :: "cluster \<Rightarrow> nat \<Rightarrow> string \<Rightarrow> bool" where
  "owns c p k \<longleftrightarrow> (\<exists>t. cl_tokens c p k = Some t \<and> rget (cl_world c) k = Some (RStr (token_string t)))"

section \<open>The invariant of tokens\<close>

definition tokens_below :: "nat \<Rightarrow> (nat \<Rightarrow> (string \<rightharpoonup> nat)) \<Rightarrow> bool" where
  "tokens_below n T \<longleftrightarrow> (\<forall>p k t. T p k = Some t \<longrightarrow> t < n)"

definition tokens_distinct :: "(nat \<Rightarrow> (string \<rightharpoonup> nat)) \<Rightarrow> bool" where
  "tokens_distinct T \<longleftrightarrow> (\<forall>p q k l t. T p k = Some t \<longrightarrow> T q l = Some t \<longrightarrow> p = q \<and> k = l)"

definition entries_below :: "nat \<Rightarrow> (string \<rightharpoonup> rentry) \<Rightarrow> bool" where
  "entries_below n m \<longleftrightarrow> (\<forall>k e. m k = Some e \<longrightarrow> (\<exists>t < n. re_val e = RStr (token_string t)))"

definition cluster_inv :: "string \<Rightarrow> cluster \<Rightarrow> bool" where
  "cluster_inv ekey c \<longleftrightarrow>
     tokens_below (token_seq (cl_world c)) (cl_tokens c)
     \<and> tokens_distinct (cl_tokens c)
     \<and> entries_below (token_seq (cl_world c)) (redis (cl_world c))
     \<and> redis_on (cl_world c)
     \<and> (\<forall>p. el_key (cl_elector c p) = ekey)
     \<and> (\<forall>p. cl_tokens c p (l2Key (cl_world c) ekey) \<noteq> None \<longrightarrow> el_leader (cl_elector c p))"

lemma token_string_inject [simp]: "token_string a = token_string b \<longleftrightarrow> a = b"
  by (simp add: token_string_def)

text \<open>
  What one operation on key \<open>k\<close> may do to the state it sees: the counter grows; the token
  map changes at most at \<open>k\<close>, to nothing or to a token not issued before; an entry that
  appears or changes its value at \<open>k\<close> holds the remembered token.
\<close>

definition lock_effect :: "string \<Rightarrow> world \<Rightarrow> world \<Rightarrow> bool" where
  "lock_effect k w v \<longleftrightarrow>
     token_seq w \<le> token_seq v \<and> redis_on v = redis_on w \<and> key_prefix v = key_prefix w
     \<and> (\<forall>j. j \<noteq> k \<longrightarrow> lock_tokens v j = lock_tokens w j)
     \<and> (lock_tokens v k = lock_tokens w k \<or> lock_tokens v k = None
        \<or> (\<exists>t. lock_tokens v k = Some t \<and> token_seq w \<le> t \<and> t < token_seq v))
     \<and> (\<forall>j e. redis v j = Some e \<longrightarrow>
          (\<exists>e'. redis w j = Some e' \<and> re_val e' = re_val e)
          \<or> (\<exists>t < token_seq v. re_val e = RStr (token_string t)))"

lemma lock_effect_lock: "lock_effect (l2Key w key) w (snd (manager_lock key ttl w))"
  by (auto simp: lock_effect_def manager_lock_def l2_lock_def ext_def rset_def Let_def l2Key_def
      split: list.splits option.splits)

lemma lock_effect_unlock: "lock_effect (l2Key w key) w (snd (manager_unlock key w))"
  by (auto simp: lock_effect_def manager_unlock_def l2_unlock_def ext_def rdel_def Let_def l2Key_def
      split: list.splits option.splits if_splits)

lemma rexpire_entries:
  "redis (rexpire k ttl w) j = Some e \<Longrightarrow> \<exists>e'. redis w j = Some e' \<and> re_val e' = re_val e"
  by (auto simp: rexpire_def live_def split: option.splits if_splits)

lemma lock_effect_refresh: "lock_effect (l2Key w key) w (snd (manager_refresh_lock key ttl w))"
proof -
  have x: "lock_effect k w (rexpire k ttl v)" if "redis v = redis w" "lock_tokens v = lock_tokens w"
    "token_seq v = token_seq w" "redis_on v = redis_on w" "key_prefix v = key_prefix w" for k ttl v
    using that by (auto simp: lock_effect_def dest: rexpire_entries)
  show ?thesis
    by (auto simp: manager_refresh_lock_def l2_refresh_lock_def ext_def Let_def
        intro!: x split: list.splits option.splits if_splits)
      (auto simp: lock_effect_def)
qed

lemma lock_effect_inv:
  assumes "cluster_inv ekey c" and eff: "lock_effect k (view c p) w"
    and lead: "k = l2Key (cl_world c) ekey \<Longrightarrow> lock_tokens w k \<noteq> None \<Longrightarrow> el_leader e"
    and other: "k \<noteq> l2Key (cl_world c) ekey \<Longrightarrow> el_leader e = el_leader (cl_elector c p)"
    and key: "el_key e = ekey"
  shows "cluster_inv ekey ((put_back c p w)\<lparr>cl_elector := (cl_elector c)(p := e)\<rparr>)"
proof -
  let ?T = "cl_tokens c" and ?n = "token_seq (cl_world c)"
  have inv: "tokens_below ?n ?T" "tokens_distinct ?T" "entries_below ?n (redis (cl_world c))"
    "redis_on (cl_world c)" "\<forall>p. el_key (cl_elector c p) = ekey"
    "\<forall>p. ?T p (l2Key (cl_world c) ekey) \<noteq> None \<longrightarrow> el_leader (cl_elector c p)"
    using assms(1) by (simp_all add: cluster_inv_def)
  have eff': "?n \<le> token_seq w" "redis_on w" "key_prefix w = key_prefix (cl_world c)"
    "\<And>j. j \<noteq> k \<Longrightarrow> lock_tokens w j = ?T p j"
    "lock_tokens w k = ?T p k \<or> lock_tokens w k = None
       \<or> (\<exists>t. lock_tokens w k = Some t \<and> ?n \<le> t \<and> t < token_seq w)"
    "\<And>j e. redis w j = Some e \<Longrightarrow> (\<exists>e'. redis (cl_world c) j = Some e' \<and> re_val e' = re_val e)
       \<or> (\<exists>t < token_seq w. re_val e = RStr (token_string t))"
    using eff inv(4) by (auto simp: lock_effect_def view_def)
  let ?T' = "?T(p := lock_tokens w)"
  have new: "?T' q j = Some t \<Longrightarrow> ?T q j = Some t \<or> q = p \<and> j = k \<and> ?n \<le> t \<and> t < token_seq w" for q j t
    using eff'(4,5) by (cases "q = p"; cases "j = k") auto
  have below: "tokens_below (token_seq w) ?T'"
    unfolding tokens_below_def using new inv(1) eff'(1)
    by (meson order_less_le_trans tokens_below_def)
  have dist: "tokens_distinct ?T'"
    unfolding tokens_distinct_def
  proof (intro allI impI)
    fix q r j l t assume a: "?T' q j = Some t" "?T' r l = Some t"
    show "q = r \<and> j = l"
    proof (cases "?n \<le> t")
      case True
      then have "\<not> ?T q j = Some t" "\<not> ?T r l = Some t"
        using inv(1) unfolding tokens_below_def by (metis leD)+
      then show ?thesis using new a by blast
    next
      case False
      then have "?T q j = Some t" "?T r l = Some t" using new a by blast+
      then show ?thesis using inv(2) by (auto simp: tokens_distinct_def)
    qed
  qed
  have ent: "entries_below (token_seq w) (redis w)"
    unfolding entries_below_def using eff'(1,6) inv(3)
    by (metis entries_below_def order_less_le_trans)
  have lk: "l2Key w ekey = l2Key (cl_world c) ekey" using eff'(3) by (simp add: l2Key_def)
  have "\<forall>q. ?T' q (l2Key w ekey) \<noteq> None \<longrightarrow> el_leader (((cl_elector c)(p := e)) q)"
    using inv(6) lead other eff'(4) lk by (cases "k = l2Key (cl_world c) ekey") auto
  then show ?thesis
    using below dist ent eff'(2) key inv(5) by (simp add: cluster_inv_def put_back_def)
qed

lemma put_back_same_elector:
  "put_back c p w = (put_back c p w)\<lparr>cl_elector := (cl_elector c)(p := cl_elector c p)\<rparr>"
  by (simp add: put_back_def)

lemma as_proc_inv:
  assumes "cluster_inv ekey c" and "lock_effect k (view c p) (snd (m (view c p)))"
    and "k \<noteq> l2Key (cl_world c) ekey"
  shows "cluster_inv ekey (as_proc p m c)"
proof -
  have "el_key (cl_elector c p) = ekey" using assms(1) by (simp add: cluster_inv_def)
  then show ?thesis
    unfolding as_proc_def
    by (subst put_back_same_elector) (rule lock_effect_inv [OF assms(1,2)]; use assms(3) in simp)
qed

lemma view_simps [simp]:
  "redis_on (view c p) = redis_on (cl_world c)" "l2Key (view c p) k = l2Key (cl_world c) k"
  "lock_tokens (view c p) = cl_tokens c p" "redis (view c p) = redis (cl_world c)"
  "now (view c p) = now (cl_world c)" "token_seq (view c p) = token_seq (cl_world c)"
  "faults (view c p) = faults (cl_world c)"
  by (simp_all add: view_def l2Key_def)

lemma live_view [simp]: "live (view c p) = live (cl_world c)" "rget (view c p) = rget (cl_world c)"
  by (auto simp: live_def rget_def fun_eq_iff split: option.splits)

text \<open>After a refresh that did not end with leadership, the process has forgotten its token.\<close>

lemma refresh_result:
  assumes "manager_refresh_lock key ttl w = (Inr b, w')" and "redis_on w"
  shows "b \<or> lock_tokens w' (l2Key w key) = None"
  using assms
  by (auto simp: manager_refresh_lock_def l2_refresh_lock_def ext_def Let_def
      split: list.splits option.splits if_splits)

lemma refresh_error:
  assumes "manager_refresh_lock key ttl w = (Inl e, w')"
  shows "lock_tokens w' = lock_tokens w"
  using assms
  by (auto simp: manager_refresh_lock_def l2_refresh_lock_def ext_def Let_def
      split: list.splits option.splits if_splits)

lemma lock_result:
  assumes "manager_lock key ttl w = (Inr b, w')" and "redis_on w"
  shows "b \<or> lock_tokens w' = lock_tokens w"
  using assms
  by (auto simp: manager_lock_def l2_lock_def ext_def Let_def split: list.splits option.splits if_splits)

lemma lock_error:
  assumes "manager_lock key ttl w = (Inl e, w')"
  shows "lock_tokens w' = lock_tokens w"
  using assms
  by (auto simp: manager_lock_def l2_lock_def ext_def Let_def split: list.splits option.splits if_splits)

lemma unlock_forgets:
  "redis_on w \<Longrightarrow> lock_tokens (snd (manager_unlock key w)) (l2Key w key) = None"
  by (auto simp: manager_unlock_def l2_unlock_def ext_def rdel_def Let_def
      split: list.splits option.splits if_splits)

lemma tick_inv:
  assumes inv: "cluster_inv ekey c"
  shows "cluster_inv ekey (elect p tryAcquireOrRenew c)"
proof -
  let ?e = "cl_elector c p" and ?v = "view c p" and ?k = "l2Key (cl_world c) ekey"
  have e: "el_key ?e = ekey" and on: "redis_on ?v" using inv by (simp_all add: cluster_inv_def)
  have flag: "cl_tokens c p ?k \<noteq> None \<Longrightarrow> el_leader ?e" using inv by (simp add: cluster_inv_def)
  obtain e' w where r: "tryAcquireOrRenew ?e ?v = (e', w)" by (cases "tryAcquireOrRenew ?e ?v")
  have eff: "lock_effect ?k ?v w"
    using r lock_effect_lock [of ?v ekey "el_ttl ?e"] lock_effect_refresh [of ?v ekey "el_ttl ?e"]
    by (auto simp: tryAcquireOrRenew_def e split: prod.splits sum.splits if_splits)
  have lead: "el_leader e'" if "lock_tokens w ?k \<noteq> None"
  proof (cases "el_leader ?e")
    case True
    then show ?thesis
      using r that refresh_result [of ekey "el_ttl ?e" ?v] on
      by (auto simp: tryAcquireOrRenew_def e split: prod.splits sum.splits if_splits)
  next
    case False
    then have "cl_tokens c p ?k = None" using flag by blast
    then show ?thesis
      using r that False lock_result [of ekey "el_ttl ?e" ?v] lock_error [of ekey "el_ttl ?e" ?v] on
      by (auto simp: tryAcquireOrRenew_def e split: prod.splits sum.splits if_splits)
  qed
  have k': "el_key e' = ekey"
    using r e by (auto simp: tryAcquireOrRenew_def split: prod.splits sum.splits)
  show ?thesis
    unfolding elect_def r prod.case
    by (rule lock_effect_inv [OF inv eff]) (use lead k' in auto)
qed

lemma stop_inv:
  assumes inv: "cluster_inv ekey c"
  shows "cluster_inv ekey (elect p release c)"
proof -
  have e: "el_key (cl_elector c p) = ekey" and on: "redis_on (view c p)"
    using inv by (simp_all add: cluster_inv_def)
  show ?thesis
    unfolding elect_def release_def prod.case
    using lock_effect_unlock [of "view c p" ekey] unlock_forgets [OF on, of ekey]
    by (intro lock_effect_inv [OF inv, where k = "l2Key (cl_world c) ekey"]) (auto simp: e)
qed

lemma cluster_step_inv: "cluster_step ekey c c' \<Longrightarrow> cluster_inv ekey c \<Longrightarrow> cluster_inv ekey c'"
proof (induction rule: cluster_step.induct)
  case (lock k c p ttl)
  then show ?case using lock_effect_lock [of "view c p" k ttl] by (auto intro: as_proc_inv)
next
  case (unlock k c p)
  then show ?case using lock_effect_unlock [of "view c p" k] by (auto intro: as_proc_inv)
next
  case (refresh k c p ttl)
  then show ?case using lock_effect_refresh [of "view c p" k ttl] by (auto intro: as_proc_inv)
next
  case (tick c p)
  then show ?case by (blast intro: tick_inv)
next
  case (stop c p)
  then show ?case by (blast intro: stop_inv)
qed (auto simp: cluster_inv_def l2Key_def)

lemma cluster_reachable_inv: "cluster_reachable ekey es c \<Longrightarrow> cluster_inv ekey c"
proof (induction rule: cluster_reachable.induct)
  case (start c)
  then show ?case
    by (simp add: start_cluster_def cluster_inv_def tokens_below_def tokens_distinct_def entries_below_def)
next
  case (step c c')
  then show ?case by (blast intro: cluster_step_inv)
qed

lemma owns_unique: "cluster_inv ekey c \<Longrightarrow> owns c p k \<Longrightarrow> owns c q k \<Longrightarrow> p = q"
  by (auto simp: owns_def cluster_inv_def tokens_distinct_def)

section \<open>Properties\<close>

text \<open>However locks, renewals, crashes of calls and time interleave, at most one process
  of the cluster owns a lock.\<close>

theorem lock_exclusion:
  assumes "cluster_reachable ekey es c" and "owns c p k" and "owns c q k"
  shows "p = q"
  using cluster_reachable_inv [OF assms(1)] assms(2,3) by (rule owns_unique)

section \<open>A granted lock\<close>

text \<open>The steps of a cluster in which process \<open>p\<close> neither gives the lock \<open>key\<close> back nor renews it; every other
process does what it likes, also with \<open>key\<close>.\<close>

inductive lease_step :: "string \<Rightarrow> nat \<Rightarrow> string \<Rightarrow> cluster \<Rightarrow> cluster \<Rightarrow> bool" for ekey :: string and p :: nat and key :: string where
  lock: "k \<noteq> ekey \<Longrightarrow> lease_step ekey p key c (as_proc q (manager_lock k ttl) c)"
| unlock: "k \<noteq> ekey \<Longrightarrow> q \<noteq> p \<or> k \<noteq> key \<Longrightarrow> lease_step ekey p key c (as_proc q (manager_unlock k) c)"
| refresh: "k \<noteq> ekey \<Longrightarrow> q \<noteq> p \<or> k \<noteq> key \<Longrightarrow> lease_step ekey p key c (as_proc q (manager_refresh_lock k ttl) c)"
| tick: "lease_step ekey p key c (elect q tryAcquireOrRenew c)"
| stop: "lease_step ekey p key c (elect q release c)"
| time: "0 \<le> d \<Longrightarrow> lease_step ekey p key c (c\<lparr>cl_world := (cl_world c)\<lparr>now := now (cl_world c) + d\<rparr>\<rparr>)"
| fault: "lease_step ekey p key c (c\<lparr>cl_world := (cl_world c)\<lparr>faults := fs\<rparr>\<rparr>)"

inductive lease_run :: "string \<Rightarrow> nat \<Rightarrow> string \<Rightarrow> cluster \<Rightarrow> cluster \<Rightarrow> bool" for ekey :: string and p :: nat and key :: string where
  start: "lease_run ekey p key c c"
| step: "lease_run ekey p key c c' \<Longrightarrow> lease_step ekey p key c' c'' \<Longrightarrow> lease_run ekey p key c c''"

lemma lease_step_is_cluster_step: "lease_step ekey p key c c' \<Longrightarrow> cluster_step ekey c c'"
  by (cases rule: lease_step.cases) (auto intro: cluster_step.intros)

text \<open>The entry of the lock \<open>k\<close> with the token \<open>t\<close> and the end \<open>T\<close>, and what an operation leaves of it.\<close>

definition leased_to :: "string \<Rightarrow> nat \<Rightarrow> instant \<Rightarrow> world \<Rightarrow> bool" where
  "leased_to k t T w \<longleftrightarrow> redis w k = Some \<lparr>re_val = RStr (token_string t), re_expire = Some T\<rparr>"

definition leaves_lock :: "string \<Rightarrow> world \<Rightarrow> world \<Rightarrow> bool" where
  "leaves_lock k w v \<longleftrightarrow> redis v k = redis w k \<and> now v = now w \<and> key_prefix v = key_prefix w"

lemma lock_leaves:
  assumes "leased_to k t T w" and "now w < T"
  shows "leaves_lock k w (snd (manager_lock j ttl w)) \<and> lock_tokens (snd (manager_lock j ttl w)) k = lock_tokens w k"
  using assms
  by (cases "l2Key w j = k")
    (auto simp: leaves_lock_def leased_to_def manager_lock_def l2_lock_def l2Key_def ext_def rset_def live_def Let_def
      split: list.splits option.splits)

lemma unlock_leaves:
  assumes "leased_to k t T w" and "l2Key w j = k \<longrightarrow> lock_tokens w k \<noteq> Some t"
  shows "leaves_lock k w (snd (manager_unlock j w)) \<and> (l2Key w j \<noteq> k \<longrightarrow> lock_tokens (snd (manager_unlock j w)) k = lock_tokens w k)"
  using assms
  by (auto simp: leaves_lock_def leased_to_def manager_unlock_def l2_unlock_def l2Key_def ext_def rdel_def rget_def live_def Let_def
      split: list.splits option.splits if_splits)

lemma refresh_leaves:
  assumes "leased_to k t T w" and "l2Key w j = k \<longrightarrow> lock_tokens w k \<noteq> Some t"
  shows "leaves_lock k w (snd (manager_refresh_lock j ttl w)) \<and>
    (l2Key w j \<noteq> k \<longrightarrow> lock_tokens (snd (manager_refresh_lock j ttl w)) k = lock_tokens w k)"
  using assms
  by (auto simp: leaves_lock_def leased_to_def manager_refresh_lock_def l2_refresh_lock_def l2Key_def ext_def rexpire_def rget_def live_def Let_def
      split: list.splits option.splits if_splits)

text \<open>Process \<open>p\<close> holds the lock \<open>key\<close> until \<open>T\<close>.\<close>

definition holds_until :: "nat \<Rightarrow> string \<Rightarrow> instant \<Rightarrow> cluster \<Rightarrow> bool" where
  "holds_until p key T c \<longleftrightarrow> (\<exists>t. cl_tokens c p (l2Key (cl_world c) key) = Some t \<and> leased_to (l2Key (cl_world c) key) t T (cl_world c))"

lemma view_prefix [simp]: "key_prefix (view c q) = key_prefix (cl_world c)"
  by (simp add: view_def)

lemma held_put_back:
  assumes "holds_until p key T c" and "leaves_lock (l2Key (cl_world c) key) (view c q) w"
    and "q = p \<Longrightarrow> lock_tokens w (l2Key (cl_world c) key) = cl_tokens c p (l2Key (cl_world c) key)"
  shows "holds_until p key T (put_back c q w)"
  using assms by (auto simp: holds_until_def put_back_def leaves_lock_def leased_to_def view_def l2Key_def)

lemma held_other_token:
  assumes "cluster_inv ekey c" and "holds_until p key T c" and "q \<noteq> p"
  shows "\<forall>t. leased_to (l2Key (cl_world c) key) t T (cl_world c) \<longrightarrow> cl_tokens c q (l2Key (cl_world c) key) \<noteq> Some t"
  using assms by (auto simp: cluster_inv_def tokens_distinct_def holds_until_def leased_to_def)

lemma held_elect:
  assumes "cluster_inv ekey c" and "key \<noteq> ekey" and "holds_until p key T c" and "now (cl_world c) < T"
  shows "holds_until p key T (elect q tryAcquireOrRenew c)" and "holds_until p key T (elect q release c)"
proof -
  let ?k = "l2Key (cl_world c) key" and ?e = "cl_elector c q" and ?v = "view c q"
  have e: "el_key (cl_elector c q') = ekey" for q' using assms(1) by (simp add: cluster_inv_def)
  obtain t where g: "leased_to ?k t T ?v" using assms(3) by (auto simp: holds_until_def leased_to_def)
  have ne: "l2Key ?v ekey \<noteq> ?k" using assms(2) by (simp add: l2Key_def view_def)
  have frame: "holds_until p key T c' \<Longrightarrow> holds_until p key T (c'\<lparr>cl_elector := f\<rparr>)" for c' f
    by (simp add: holds_until_def)
  have "leaves_lock ?k ?v (snd (tryAcquireOrRenew ?e ?v)) \<and> lock_tokens (snd (tryAcquireOrRenew ?e ?v)) ?k = lock_tokens ?v ?k"
    using lock_leaves [OF g, of ekey "el_ttl ?e"] refresh_leaves [OF g, of ekey "el_ttl ?e"] ne assms(4)
    by (auto simp: tryAcquireOrRenew_def e split: prod.splits sum.splits)
  then have "holds_until p key T (put_back c q (snd (tryAcquireOrRenew ?e ?v)))"
    by (intro held_put_back [OF assms(3)]) auto
  then show "holds_until p key T (elect q tryAcquireOrRenew c)"
    unfolding elect_def by (auto intro: frame split: prod.split)
  have "holds_until p key T (put_back c q (snd (release ?e ?v)))"
    using unlock_leaves [OF g, of ekey] ne by (intro held_put_back [OF assms(3)]) (auto simp: release_def e)
  then show "holds_until p key T (elect q release c)"
    unfolding elect_def by (auto intro: frame split: prod.split)
qed

lemma held_step:
  assumes "lease_step ekey p key c c'" and "cluster_inv ekey c" and "key \<noteq> ekey" and "holds_until p key T c" and "now (cl_world c) < T"
  shows "holds_until p key T c'"
proof -
  let ?k = "l2Key (cl_world c) key"
  obtain t where t: "cl_tokens c p ?k = Some t" and g: "leased_to ?k t T (view c q)" for q
    using assms(4) by (auto simp: holds_until_def leased_to_def)
  have safe: "l2Key (view c q) j = ?k \<longrightarrow> lock_tokens (view c q) ?k \<noteq> Some t" if "q \<noteq> p \<or> j \<noteq> key" for q j
    using that held_other_token [OF assms(2,4), of q] g [of q] by (auto simp: l2Key_def leased_to_def view_def)
  show ?thesis
    using assms(1)
  proof (cases rule: lease_step.cases)
    case (lock k q ttl)
    have now: "now (view c q) < T" using assms(5) by simp
    show ?thesis
      unfolding lock(1) as_proc_def using lock_leaves [OF g now, of k ttl] by (intro held_put_back [OF assms(4)]) auto
  next
    case (unlock k q)
    show ?thesis
      unfolding unlock(1) as_proc_def
      using unlock_leaves [OF g safe [OF unlock(3)]] unlock(3) by (intro held_put_back [OF assms(4)]) (auto simp: l2Key_def)
  next
    case (refresh k q ttl)
    show ?thesis
      unfolding refresh(1) as_proc_def
      using refresh_leaves [OF g safe [OF refresh(3)], of ttl] refresh(3) by (intro held_put_back [OF assms(4)]) (auto simp: l2Key_def)
  next
    case (tick q)
    then show ?thesis using held_elect(1) [OF assms(2-5)] by simp
  next
    case (stop q)
    then show ?thesis using held_elect(2) [OF assms(2-5)] by simp
  qed (use assms(4) in \<open>auto simp: holds_until_def leased_to_def l2Key_def\<close>)
qed

lemma lease_step_now:
  assumes "lease_step ekey p key c c'"
  shows "now (cl_world c) \<le> now (cl_world c')"
proof -
  have "now (snd (manager_lock k ttl w)) = now w" "now (snd (manager_unlock k w)) = now w" "now (snd (manager_refresh_lock k ttl w)) = now w"
    for k ttl w
    by (auto simp: manager_lock_def l2_lock_def manager_unlock_def l2_unlock_def manager_refresh_lock_def l2_refresh_lock_def
        ext_def rset_def rdel_def rexpire_def Let_def split: list.splits option.splits)
  note n = this
  have "now (snd (tryAcquireOrRenew e w)) = now w" "now (snd (release e w)) = now w" for e w
    using n(1,3) [of "el_key e" "el_ttl e" w] n(2) [of "el_key e" w]
    by (auto simp: tryAcquireOrRenew_def release_def split: prod.splits sum.splits)
  then have "now (cl_world (elect q tryAcquireOrRenew c)) = now (cl_world c)" "now (cl_world (elect q release c)) = now (cl_world c)" for q
    by (simp_all add: elect_def put_back_def split: prod.split) (metis snd_conv view_simps(5))+
  with assms n show ?thesis by (cases rule: lease_step.cases) (auto simp: as_proc_def put_back_def)
qed

lemma held_run:
  assumes "lease_run ekey p key c c'" and "cluster_inv ekey c" and "key \<noteq> ekey" and "holds_until p key T c"
  shows "cluster_inv ekey c' \<and> (now (cl_world c') < T \<longrightarrow> holds_until p key T c')"
  using assms
proof (induction rule: lease_run.induct)
  case (step c c' c'')
  then have "cluster_inv ekey c''" using cluster_step_inv lease_step_is_cluster_step by blast
  moreover have "holds_until p key T c''" if "now (cl_world c'') < T"
    using that step held_step [of ekey p key c' c'' T] lease_step_now [OF step(2)] by fastforce
  ultimately show ?case by simp
qed simp

lemma lock_grants:
  assumes "manager_lock key ttl (view c p) = (Inr True, w)" and "cluster_inv ekey c" and "0 < ttl"
  shows "holds_until p key (now (cl_world c) + ttl) (put_back c p w)"
  using assms
  by (auto simp: cluster_inv_def manager_lock_def l2_lock_def ext_def Let_def holds_until_def leased_to_def put_back_def rset_def l2Key_def
      split: list.splits option.splits if_splits)

text \<open>C37. Mutual exclusion: from the moment Lock granted a lock to a process until the end of its lease, as long as that
  process neither gives the lock back nor renews it, it owns the lock and no process is granted it again, whatever
  the others lock, renew or give back, in any order, with any failed calls. The time to live is positive, the
  lock is not that of the leader election, and tokens of different calls differ.\<close>

theorem granted_lock_excludes_others:
  assumes "cluster_reachable ekey es c" and "key \<noteq> ekey" and "0 < ttl"
    and "manager_lock key ttl (view c p) = (Inr True, w)"
    and "lease_run ekey p key (put_back c p w) c'" and "now (cl_world c') < now (cl_world c) + ttl"
  shows "owns c' p (l2Key (cl_world c') key) \<and> fst (manager_lock key ttl' (view c' q)) \<noteq> Inr True"
proof -
  note inv = cluster_reachable_inv [OF assms(1)]
  have "cluster_step ekey c (as_proc p (manager_lock key ttl) c)" using assms(2) by (rule cluster_step.lock)
  then have "cluster_inv ekey (put_back c p w)" using cluster_step_inv [OF _ inv] assms(4) by (simp add: as_proc_def)
  from held_run [OF assms(5) this assms(2) lock_grants [OF assms(4) inv assms(3)]] assms(6)
  obtain t where "redis_on (cl_world c')" "cl_tokens c' p (l2Key (cl_world c') key) = Some t"
    "leased_to (l2Key (cl_world c') key) t (now (cl_world c) + ttl) (cl_world c')"
    by (auto simp: holds_until_def cluster_inv_def)
  with assms(6) show ?thesis
    by (auto simp: owns_def leased_to_def rget_def live_def manager_lock_def l2_lock_def ext_def Let_def
        split: list.splits option.splits if_splits)
qed

lemma unlock_rget:
  "rget (snd (manager_unlock key v)) j = rget v j
   \<or> (\<exists>t. lock_tokens v j = Some t \<and> rget v j = Some (RStr (token_string t)))"
  by (auto simp: manager_unlock_def l2_unlock_def ext_def Let_def split: option.splits list.splits)

text \<open>Unlocking never takes a lock away from another process, also when the caller's own
  lease ran out long ago.\<close>

theorem unlock_keeps_other_owner:
  assumes "cluster_reachable ekey es c" and "owns c q k" and "q \<noteq> p"
  shows "owns (as_proc p (manager_unlock key) c) q k"
proof -
  have "tokens_distinct (cl_tokens c)"
    using cluster_reachable_inv [OF assms(1)] by (simp add: cluster_inv_def)
  then show ?thesis
    using assms(2,3) unlock_rget [of key "view c p" k]
    by (auto simp: owns_def as_proc_def put_back_def tokens_distinct_def)
qed

text \<open>A tick of the election that reaches Redis leaves the flag true exactly when the
  process owns the lease.\<close>

theorem tick_makes_flag_exact:
  assumes "cluster_reachable ekey es c" and "faults (cl_world c) = []"
    and "second \<le> el_ttl (cl_elector c p)"
  shows "el_leader (cl_elector (elect p tryAcquireOrRenew c) p) \<longleftrightarrow>
         owns (elect p tryAcquireOrRenew c) p (l2Key (cl_world c) ekey)"
proof -
  note inv = cluster_reachable_inv [OF assms(1)]
  have e: "el_key (cl_elector c p) = ekey" and on: "redis_on (cl_world c)"
    and fl: "cl_tokens c p (l2Key (cl_world c) ekey) \<noteq> None \<Longrightarrow> el_leader (cl_elector c p)"
    using inv by (simp_all add: cluster_inv_def)
  have t: "0 < second" by (simp add: second_def)
  then have ttl: "0 < el_ttl (cl_elector c p)" "0 < seconds_of (el_ttl (cl_elector c p)) * second"
    using assms(3) by (auto simp: seconds_of_def go_div_nonneg second_def)
  show ?thesis
  proof (cases "el_leader (cl_elector c p)")
    case True
    then show ?thesis using e on assms(2) ttl
      by (auto simp: elect_def tryAcquireOrRenew_def manager_refresh_lock_def l2_refresh_lock_def
          owns_def put_back_def rget_def Let_def split: option.splits if_splits)
  next
    case False
    then have "cl_tokens c p (l2Key (cl_world c) ekey) = None" using fl by blast
    then show ?thesis using False e on assms(2) ttl
      by (auto simp: elect_def tryAcquireOrRenew_def manager_lock_def l2_lock_def
          owns_def put_back_def Let_def split: option.splits if_splits)
  qed
qed

text \<open>
  The tokens are remembered per key, not per acquisition: when a lock expires and another
  goroutine of the same process takes it, the first goroutine's deferred unlock finds the new
  token and releases the new holder's lock.
\<close>

text \<open>Within one process an unlock after expiry releases the lock of the next holder.\<close>

theorem same_process_unlock_releases_successor:
  assumes "faults w = []" and "redis_on w" and "live w (l2Key w key) = None"
    and "0 < ttl" and "ttl \<le> d"
    and "w1 = snd (manager_lock key ttl w)"
    and "w2 = snd (manager_lock key ttl (w1\<lparr>now := now w1 + d\<rparr>))"
  shows "fst (manager_lock key ttl (w1\<lparr>now := now w1 + d\<rparr>)) = Inr True
    \<and> live w2 (l2Key w key) \<noteq> None
    \<and> live (snd (manager_unlock key w2)) (l2Key w key) = None"
proof -
  let ?k = "l2Key w key"
  have w1: "w1 = (rset ?k (RStr (token_string (token_seq w))) ttl (w\<lparr>token_seq := Suc (token_seq w)\<rparr>))
      \<lparr>lock_tokens := (lock_tokens w)(?k \<mapsto> token_seq w)\<rparr>"
    using assms(1-3,6) by (simp add: manager_lock_def l2_lock_def Let_def)
  let ?v = "w1\<lparr>now := now w1 + d\<rparr>"
  have v: "faults ?v = []" "redis_on ?v" "live ?v ?k = None" "l2Key ?v key = ?k"
    using assms(1,2,4,5) by (simp_all add: w1 rset_def live_def)
  have l: "manager_lock key ttl ?v = (Inr True,
      (rset ?k (RStr (token_string (token_seq ?v))) ttl (?v\<lparr>token_seq := Suc (token_seq ?v)\<rparr>))
      \<lparr>lock_tokens := (lock_tokens ?v)(?k \<mapsto> token_seq ?v)\<rparr>)"
    using v by (simp add: manager_lock_def l2_lock_def Let_def)
  have w2: "faults w2 = []" "redis_on w2" "l2Key w2 key = ?k"
    "lock_tokens w2 ?k = Some (token_seq ?v)" "rget w2 ?k = Some (RStr (token_string (token_seq ?v)))"
    using v unfolding assms(7) l by simp_all
  show ?thesis
    using w2 by (auto simp: l manager_unlock_def l2_unlock_def Let_def rget_def)
qed

theorem same_process_unlock_witness:
  "\<exists>w1 w2. w1 = snd (manager_lock ''redeem:lock:u'' (10 * second) empty_world)
     \<and> w2 = snd (manager_lock ''redeem:lock:u'' (10 * second) (w1\<lparr>now := now w1 + 11 * second\<rparr>))
     \<and> live w2 ''redeem:lock:u'' \<noteq> None
     \<and> live (snd (manager_unlock ''redeem:lock:u'' w2)) ''redeem:lock:u'' = None"
  using same_process_unlock_releases_successor [of empty_world "''redeem:lock:u''" "10 * second" "11 * second"]
  by (simp add: empty_world_def live_def second_def l2Key_def cacheKey_def)

section \<open>Witnesses\<close>

definition sample_cluster :: cluster where
  "sample_cluster = \<lparr>cl_world = empty_world, cl_tokens = (\<lambda>_. Map.empty),
     cl_elector = (\<lambda>_. NewLeaderElector ''leader'' (10 * second) 0)\<rparr>"

lemma sample_cluster_reachable:
  "cluster_reachable ''leader'' (\<lambda>_. NewLeaderElector ''leader'' (10 * second) 0) sample_cluster"
  by (rule cluster_reachable.start)
    (simp add: start_cluster_def sample_cluster_def empty_world_def NewLeaderElector_def Let_def)

definition led_cluster :: cluster where
  "led_cluster = elect 0 tryAcquireOrRenew sample_cluster"

lemma led_cluster_reachable:
  "cluster_reachable ''leader'' (\<lambda>_. NewLeaderElector ''leader'' (10 * second) 0) led_cluster"
  unfolding led_cluster_def
  by (rule cluster_reachable.step [OF sample_cluster_reachable cluster_step.tick])

lemma led_cluster_owner: "owns led_cluster 0 ''leader''"
  by (simp add: led_cluster_def elect_def tryAcquireOrRenew_def sample_cluster_def NewLeaderElector_def
      manager_lock_def l2_lock_def view_def put_back_def owns_def empty_world_def Let_def
      second_def go_div_def l2Key_def cacheKey_def live_def rset_def rget_def)

theorem lock_exclusion_witness: "{q. owns led_cluster q ''leader''} = {0}"
  using lock_exclusion [OF led_cluster_reachable] led_cluster_owner by blast

definition locked_cluster :: cluster where
  "locked_cluster = as_proc 1 (manager_lock ''job'' (10 * second)) led_cluster"

theorem granted_lock_excludes_others_witness:
  "fst (manager_lock ''job'' second (view (as_proc 2 (manager_unlock ''job'') locked_cluster) 2)) \<noteq> Inr True"
proof -
  obtain w where w: "manager_lock ''job'' (10 * second) (view led_cluster 1) = (Inr True, w)"
    by (simp add: led_cluster_def elect_def tryAcquireOrRenew_def sample_cluster_def NewLeaderElector_def
        manager_lock_def l2_lock_def view_def put_back_def empty_world_def Let_def
        second_def go_div_def l2Key_def cacheKey_def live_def rset_def)
  then have l: "locked_cluster = put_back led_cluster 1 w" by (simp add: locked_cluster_def as_proc_def)
  have run: "lease_run ''leader'' 1 ''job'' locked_cluster (as_proc 2 (manager_unlock ''job'') locked_cluster)"
    by (rule lease_run.step [OF lease_run.start lease_step.unlock]) simp_all
  have "now (cl_world (as_proc 2 (manager_unlock ''job'') locked_cluster)) < now (cl_world led_cluster) + 10 * second"
    by (simp add: locked_cluster_def led_cluster_def as_proc_def elect_def tryAcquireOrRenew_def sample_cluster_def NewLeaderElector_def
        manager_lock_def manager_unlock_def l2_lock_def l2_unlock_def view_def put_back_def empty_world_def Let_def
        second_def go_div_def l2Key_def cacheKey_def live_def rset_def)
  from granted_lock_excludes_others [OF led_cluster_reachable _ _ w run [unfolded l] this [unfolded l], of second 2]
  show ?thesis by (simp add: l second_def)
qed

theorem unlock_keeps_other_owner_witness:
  "owns (as_proc 1 (manager_unlock ''leader'') led_cluster) 0 ''leader''"
  by (rule unlock_keeps_other_owner [OF led_cluster_reachable led_cluster_owner]) simp

theorem tick_makes_flag_exact_witness:
  "el_leader (cl_elector led_cluster 0) \<longleftrightarrow> owns led_cluster 0 ''leader''"
  using tick_makes_flag_exact [OF sample_cluster_reachable, of 0]
  by (simp add: led_cluster_def sample_cluster_def empty_world_def NewLeaderElector_def second_def
      l2Key_def cacheKey_def Let_def)

end
