(* ===== verification/CacheStrategy.thy ===== *)
theory CacheStrategy
  imports DistLock
begin

text \<open>
  \<open>internal/cache/strategy.go\<close> with the L1 operations of \<open>l1.go\<close>: reading through L1, L2 and
  the loader with the protections against stampedes, writing with the double delete, deleting,
  and the work the strategy leaves to goroutines. The bloom filter and the hot-key detector do
  not change what is returned; they choose times to live, which \<open>ttl_of\<close> stands for.
\<close>

section \<open>L1\<close>

text \<open>Ristretto may drop any entry at any time (\<open>evict\<close>); an expired entry is not returned.\<close>

definition l1_get :: "world \<Rightarrow> string \<Rightarrow> cval option option" where
  "l1_get w key =
     (if \<not> l1_on w then None
      else case l1 w key of
             None \<Rightarrow> None
           | Some (v, t) \<Rightarrow> (if now w < t then Some v else None))"

definition l1_set :: "string \<Rightarrow> cval option \<Rightarrow> duration \<Rightarrow> world \<Rightarrow> world" where
  "l1_set key v ttl w =
     (if l1_on w then w\<lparr>l1 := (l1 w)(key \<mapsto> (json_of v, now w + l1_ttl_of w key ttl))\<rparr> else w)"

definition l1_delete :: "string \<Rightarrow> world \<Rightarrow> world" where
  "l1_delete key w = (if l1_on w then w\<lparr>l1 := (l1 w)(key := None)\<rparr> else w)"

definition evict :: "string \<Rightarrow> world \<Rightarrow> world" where
  "evict key w = w\<lparr>l1 := (l1 w)(key := None)\<rparr>"

section \<open>Filling\<close>

type_synonym loader = "(world, cval option) io"

definition fillCache :: "string \<Rightarrow> cval \<Rightarrow> duration \<Rightarrow> bool \<Rightarrow> (world, unit) io" where
  "fillCache key v ttl writeL2 =
     bind_io (gets_io (\<lambda>w. ttl_of w key ttl)) (\<lambda>t.
     then_io (bind_io (gets_io redis_on) (\<lambda>on.
                when_io (writeL2 \<and> on) (best_effort (l2_set key (Some v) t))))
             (modify_io (l1_set key (Some v) t)))"

definition safeSetNull :: "string \<Rightarrow> bool \<Rightarrow> (world, unit) io" where
  "safeSetNull key writeL2 =
     bind_io (gets_io (\<lambda>w. if null_cache_ttl w \<le> 0 then 60 * second else null_cache_ttl w)) (\<lambda>t.
     bind_io (gets_io (\<lambda>w. (l1_on w, redis_on w))) (\<lambda>(on1, on2).
     then_io (when_io on1 (spawn (BgSetL1 key None t)))
             (when_io (writeL2 \<and> on2) (spawn (BgSetNullL2 key t)))))"

definition loadAndFill :: "string \<Rightarrow> duration \<Rightarrow> loader \<Rightarrow> bool \<Rightarrow> (world, cval option) io" where
  "loadAndFill key ttl load fillL2 =
     bind_io load (\<lambda>result.
       case result of
         Some v \<Rightarrow> then_io (fillCache key v ttl fillL2) (ret result)
       | None \<Rightarrow> then_io (safeSetNull key fillL2) (ret result))"

section \<open>Reading\<close>

definition lockSpinInterval :: duration where "lockSpinInterval = 50 * millisecond"
definition lockSpinTimes :: nat where "lockSpinTimes = 10"

text \<open>
  Waiting for another process to fill the cache: each round sleeps, looks at L1 and L2 and
  ends on a hit; after the last round the process loads for itself.
\<close>

primrec spinWaitSource :: "nat \<Rightarrow> string \<Rightarrow> loader \<Rightarrow> duration \<Rightarrow> (world, cval option) io" where
  "spinWaitSource 0 key load ttl = loadAndFill key ttl load True"
| "spinWaitSource (Suc n) key load ttl =
     then_io (modify_io (\<lambda>w. w\<lparr>now := now w + lockSpinInterval\<rparr>))
     (bind_io (gets_io (\<lambda>w. l1_get w key)) (\<lambda>hit.
        case hit of
          Some v \<Rightarrow> ret v
        | None \<Rightarrow>
            bind_io (attempt (l2_get key)) (\<lambda>r.
              case r of
                Inr (Some v) \<Rightarrow> ret v
              | _ \<Rightarrow> spinWaitSource n key load ttl)))"

definition sourceOnce :: "string \<Rightarrow> duration \<Rightarrow> loader \<Rightarrow> (world, cval option) io" where
  "sourceOnce key ttl load =
     bind_io (gets_io (\<lambda>w. l1_get w key)) (\<lambda>hit.
       case hit of
         Some v \<Rightarrow> ret v
       | None \<Rightarrow>
     bind_io (gets_io redis_on) (\<lambda>on.
       if \<not> on then loadAndFill key ttl load False
       else
     bind_io (attempt (l2_get key)) (\<lambda>r.
       case r of
         Inr (Some v) \<Rightarrow> ret v
       | _ \<Rightarrow>
     bind_io (attempt (l2_lock (''lock:source:'' @ key) (10 * second))) (\<lambda>locked.
       case locked of
         Inl e \<Rightarrow> loadAndFill key ttl load False
       | Inr False \<Rightarrow> spinWaitSource lockSpinTimes key load ttl
       | Inr True \<Rightarrow>
           finally_io (loadAndFill key ttl load True) (l2_unlock (''lock:source:'' @ key))))))"

text \<open>\<open>CacheStrategy.Get\<close>; \<open>singleflight\<close> runs one caller's load at a time.\<close>

definition cache_get :: "string \<Rightarrow> duration \<Rightarrow> loader \<Rightarrow> (world, cval option) io" where
  "cache_get key ttl load =
     bind_io (gets_io (\<lambda>w. l1_get w key)) (\<lambda>hit.
       case hit of
         Some v \<Rightarrow> ret v
       | None \<Rightarrow>
     bind_io (gets_io (\<lambda>w. (read_degraded w, redis_on w))) (\<lambda>(degraded, on).
       if degraded then loadAndFill key ttl load False
       else if on then
         bind_io (attempt (l2_get key)) (\<lambda>r.
           case r of
             Inr (Some v) \<Rightarrow>
               bind_io (gets_io (\<lambda>w. (l1_on w, ttl_of w key ttl))) (\<lambda>(on1, t).
               then_io (when_io on1 (spawn (BgSetL1 key v t))) (ret v))
           | _ \<Rightarrow> sourceOnce key ttl load)
       else sourceOnce key ttl load))"

section \<open>Writing and deleting\<close>

definition asyncWriteDegraded :: "string \<Rightarrow> cval option \<Rightarrow> duration \<Rightarrow> (world, unit) io" where
  "asyncWriteDegraded key v ttl =
     bind_io (gets_io (\<lambda>w. (publisher_on w, redis_on w))) (\<lambda>(pub, on).
       if pub then best_effort (publish (CacheInvalidate key))
       else when_io on
         (bind_io (gets_io (\<lambda>w. ttl_of w key ttl)) (\<lambda>t. spawn (BgSetL2 key v t))))"

definition cache_set :: "string \<Rightarrow> cval option \<Rightarrow> duration \<Rightarrow> (world, unit) io" where
  "cache_set key v ttl =
     then_io (modify_io (l1_delete key))
     (bind_io (gets_io (\<lambda>w. (write_degraded w, redis_on w, ttl_of w key ttl))) (\<lambda>(degraded, on, t).
        if degraded then asyncWriteDegraded key v ttl
        else
          then_io (when_io on (l2_set key v t))
          (then_io (when_io on (spawn (BgInvalidate key)))
             (spawn (BgDeleteL1 key)))))"

definition cache_delete :: "string list \<Rightarrow> (world, unit) io" where
  "cache_delete keys =
     for_io keys (\<lambda>key.
       then_io (modify_io (l1_delete key))
         (bind_io (gets_io redis_on) (\<lambda>on. when_io on (best_effort (l2_delete [key])))))"

definition Invalidate :: "string \<Rightarrow> world \<Rightarrow> world" where
  "Invalidate key w = l1_delete key w"

text \<open>A goroutine of the strategy, run to its end; the others belong to other components.\<close>

fun run_cache_task :: "bg_task \<Rightarrow> (world, unit) io" where
  "run_cache_task (BgSetL1 key v ttl) = modify_io (l1_set key v ttl)"
| "run_cache_task (BgSetNullL2 key ttl) = best_effort (l2_set_null key ttl)"
| "run_cache_task (BgSetL2 key v ttl) = best_effort (l2_set key v ttl)"
| "run_cache_task (BgDeleteL1 key) = modify_io (l1_delete key)"
| "run_cache_task t = ret ()"

section \<open>The cache leaves the tables alone\<close>

lemma l1_frame [simp]:
  "db (l1_set k v t w) = db w" "db (l1_delete k w) = db w" "users (l1_set k v t w) = users w"
  "users (l1_delete k w) = users w" "faults (l1_set k v t w) = faults w"
  "faults (l1_delete k w) = faults w" "now (l1_set k v t w) = now w" "now (l1_delete k w) = now w"
  "redis (l1_set k v t w) = redis w" "redis (l1_delete k w) = redis w"
  by (simp_all add: l1_set_def l1_delete_def)

lemma l1_durable [simp]: "durable (l1_set key v ttl w) = durable w" "durable (l1_delete key w) = durable w"
  by (simp_all add: l1_set_def l1_delete_def)

context quiet_relation
begin

lemma ev_loadAndFill: "evolves R load \<Longrightarrow> evolves R (loadAndFill key ttl load b)"
  unfolding loadAndFill_def fillCache_def safeSetNull_def
  by (intro ev_quiet_world ev_l2 ev_quiet_modify) simp_all

lemma ev_spinWaitSource:
  "evolves R load \<Longrightarrow> evolves R (spinWaitSource n key load ttl)"
proof (induction n)
  case 0
  then show ?case by (simp add: ev_loadAndFill)
next
  case (Suc n)
  then show ?case
    by (simp, intro ev_quiet_world ev_l2 ev_quiet_modify) simp_all
qed

lemma ev_sourceOnce: "evolves R load \<Longrightarrow> evolves R (sourceOnce key ttl load)"
  unfolding sourceOnce_def
  by (intro ev_quiet_world ev_l2 ev_loadAndFill ev_spinWaitSource) simp_all

lemma ev_cache_get: "evolves R load \<Longrightarrow> evolves R (cache_get key ttl load)"
  unfolding cache_get_def
  by (intro ev_quiet_world ev_l2 ev_loadAndFill ev_sourceOnce) simp_all

lemma ev_cache_set: "evolves R (cache_set key v ttl)"
  unfolding cache_set_def asyncWriteDegraded_def
  by (intro ev_quiet_world ev_l2 ev_quiet_modify) simp_all

lemma ev_cache_delete: "evolves R (cache_delete keys)"
  unfolding cache_delete_def
  by (intro ev_quiet_world ev_l2 ev_quiet_modify) simp_all

end

section \<open>Errors of a read\<close>

lemma fw_loadAndFill: "fails_with E load \<Longrightarrow> fails_with E (loadAndFill key ttl load b)"
  unfolding loadAndFill_def fillCache_def safeSetNull_def
  by (intro fw_rules fw_spawn)

lemma fw_spinWaitSource: "fails_with E load \<Longrightarrow> fails_with E (spinWaitSource n key load ttl)"
proof (induction n)
  case 0
  then show ?case by (simp add: fw_loadAndFill)
next
  case (Suc n)
  then show ?case by (simp, intro fw_rules) simp_all
qed

text \<open>No failure of L1, of Redis or of the lock makes a cached read fail: its error is an
  error of the loader.\<close>

theorem cache_get_fails_only_with_loader:
  assumes "cache_get key ttl load w = (Inl e, w')"
  shows "\<exists>v v'. load v = (Inl e, v')"
proof -
  let ?E = "\<lambda>e. \<exists>v v'. load v = (Inl e, v')"
  have load: "fails_with ?E load" by (auto simp: fails_with_def)
  have "fails_with ?E (sourceOnce key ttl load)"
    unfolding sourceOnce_def
    by (intro fw_rules fw_loadAndFill fw_spinWaitSource load)
  then have "fails_with ?E (cache_get key ttl load)"
    unfolding cache_get_def
    by (intro fw_rules fw_spawn fw_loadAndFill load)
  then show ?thesis using assms by (rule fails_withD)
qed

theorem cache_get_fails_witness:
  "\<exists>v v'. (throw (Sentinel ''boom'') :: loader) v = (Inl (Sentinel ''boom''), v')"
  by (rule cache_get_fails_only_with_loader
      [where key = "''k''" and ttl = second and w = "empty_world\<lparr>redis_on := False\<rparr>"
         and w' = "empty_world\<lparr>redis_on := False\<rparr>"])
    (simp add: cache_get_def sourceOnce_def loadAndFill_def io_defs l1_get_def empty_world_def)

section \<open>A read after a delete\<close>

text \<open>A loader that reads the tables: without a fault it returns what they hold.\<close>

definition table_loader :: "(business_db \<Rightarrow> cval option) \<Rightarrow> loader" where
  "table_loader f = ext ''db'' (gets_io (\<lambda>w. f (db w)))"

definition cache_cold :: "string \<Rightarrow> world \<Rightarrow> bool" where
  "cache_cold key w \<longleftrightarrow> faults w = [] \<and> l1_get w key = None
     \<and> (redis_on w \<longrightarrow> rget w (l2Key w key) = None \<and> live w (l2Key w (''lock:source:'' @ key)) = None)"

lemma l1_get_frame [simp]:
  "l1_get (w\<lparr>token_seq := a\<rparr>) k = l1_get w k" "l1_get (w\<lparr>lock_tokens := b\<rparr>) k = l1_get w k"
  "l1_get (rset j v t w) k = l1_get w k" "l1_get (rdel j w) k = l1_get w k"
  by (simp_all add: l1_get_def rset_def rdel_def split: option.splits)

lemma lock_key_distinct [simp]: "''lock:source:'' @ key \<noteq> key"
  by (metis append_self_conv2 list.distinct(1))

lemma fillCache_run:
  assumes "faults w = []"
  shows "fillCache key v ttl b w = (Inr (),
     l1_set key (Some v) (ttl_of w key ttl)
       (if b \<and> redis_on w then rset (l2Key w key) (encode (Some v)) (ttl_of w key ttl) w else w))"
  using assms by (auto simp: fillCache_def io_defs l2_set_def)

lemma safeSetNull_run: "fst (safeSetNull key b w) = Inr ()"
  by (simp add: safeSetNull_def io_defs spawn_def)

lemma loadAndFill_run:
  assumes "faults w = []"
  shows "fst (loadAndFill key ttl (table_loader f) b w) = Inr (f (db w))"
  using assms safeSetNull_run [of key b w]
  by (auto simp: loadAndFill_def table_loader_def io_defs fillCache_run split: option.splits prod.splits)

lemma fst_finally: "fst (finally_io m n w) = fst (m w)"
  by (simp add: finally_io_def split: prod.splits)

lemma cold_l2_get: "cache_cold key w \<Longrightarrow> redis_on w \<Longrightarrow> l2_get key w = (Inr None, w)"
  by (simp add: cache_cold_def l2_get_def)

lemma cold_lock:
  assumes "cache_cold key w" and "redis_on w"
  obtains v where "l2_lock (''lock:source:'' @ key) ttl w = (Inr True, v)" and "faults v = []" and "db v = db w"
  using assms by (simp add: cache_cold_def l2_lock_def Let_def)

lemma cold_read:
  assumes "cache_cold key w"
  shows "fst (cache_get key ttl (table_loader f) w) = Inr (f (db w))"
proof -
  have l1: "l1_get w key = None" and nf: "faults w = []" using assms by (auto simp: cache_cold_def)
  have src: "fst (sourceOnce key ttl (table_loader f) w) = Inr (f (db w))"
  proof (cases "redis_on w")
    case True
    obtain v where v: "l2_lock (''lock:source:'' @ key) (10 * second) w = (Inr True, v)"
      "faults v = []" "db v = db w"
      using cold_lock [OF assms True] by blast
    show ?thesis
      using True l1 cold_l2_get [OF assms True] v
      by (simp add: sourceOnce_def bind_io_def gets_io_def attempt_def fst_finally loadAndFill_run)
  next
    case False
    then show ?thesis using l1 nf
      by (simp add: sourceOnce_def bind_io_def gets_io_def loadAndFill_run)
  qed
  show ?thesis
    using l1 nf src cold_l2_get [OF assms]
    by (auto simp: cache_get_def bind_io_def gets_io_def attempt_def loadAndFill_run)
qed

lemma cache_delete_one:
  assumes "faults w = []"
  shows "cache_delete [key] w =
     (Inr (), if redis_on w then rdel (l2Key w key) (l1_delete key w) else l1_delete key w)"
  using assms
  by (auto simp: cache_delete_def io_defs l2_delete_def l1_delete_def l2Key_def)

lemma live_l1_delete [simp]: "live (l1_delete key w) k = live w k"
  by (simp add: l1_delete_def)

lemma l1_get_deleted [simp]: "l1_get (l1_delete key w) key = None"
  by (simp add: l1_get_def l1_delete_def)

lemma l1_delete_frame [simp]:
  "redis_on (l1_delete key w) = redis_on w" "l2Key (l1_delete key w) k = l2Key w k"
  "rget (l1_delete key w) k = rget w k"
  by (simp_all add: l1_delete_def)

text \<open>After a delete that reached both levels the next read returns what the tables hold.\<close>

theorem get_after_delete_is_fresh:
  assumes "faults w = []" and "live w (l2Key w (''lock:source:'' @ key)) = None"
  shows "fst (cache_get key ttl (table_loader f) (snd (cache_delete [key] w))) = Inr (f (db w))"
proof -
  let ?w = "snd (cache_delete [key] w)"
  have "cache_cold key ?w"
    using assms by (simp add: cache_delete_one cache_cold_def)
  then have "fst (cache_get key ttl (table_loader f) ?w) = Inr (f (db ?w))" by (rule cold_read)
  then show ?thesis using assms(1) by (simp add: cache_delete_one)
qed

definition sample_cached :: world where
  "sample_cached = empty_world\<lparr>l1 := [''k'' \<mapsto> (Some (CInt 7), second)],
     redis := [''k'' \<mapsto> \<lparr>re_val = RInt 7, re_expire = None\<rparr>]\<rparr>"

theorem get_after_delete_witness:
  "fst (cache_get ''k'' second (table_loader (\<lambda>_. Some (CInt 8))) (snd (cache_delete [''k''] sample_cached)))
     = Inr (Some (CInt 8))"
  by (rule get_after_delete_is_fresh)
    (simp_all add: sample_cached_def empty_world_def live_def l2Key_def cacheKey_def)

text \<open>A refill of L1 that an L2 hit started and that runs only after the key was deleted
  brings the deleted value back: until it expires, reads return it whatever the tables hold.\<close>

theorem late_refill_revives_deleted_value:
  assumes "faults w = []" and "l1_on w" and "redis_on w" and "\<not> read_degraded w"
    and "l1_get w key = None" and "rget w (l2Key w key) = Some (encode (Some v))"
    and "cache_get key ttl load w = (r, w1)"
    and "w2 = snd (run_cache_task (last (background w1)) (snd (cache_delete [key] w1)))"
    and "0 < l1_ttl_of w key (ttl_of w key ttl)"
  shows "r = Inr (json_of (Some v)) \<and> fst (cache_get key ttl load' w2) = Inr (json_of (Some v))"
proof -
  have hit: "l2_get key w = (Inr (Some (json_of (Some v))), w)"
    using assms(1,6) by (simp add: l2_get_def)
  have w1: "w1 = w\<lparr>background := background w @ [BgSetL1 key (json_of (Some v)) (ttl_of w key ttl)]\<rparr>"
    and r: "r = Inr (json_of (Some v))"
    using assms(2-5,7) hit
    by (auto simp: cache_get_def bind_io_def gets_io_def attempt_def then_io_def when_io_def
        spawn_def modify_io_def ret_def)
  have "l1_get w2 key = Some (json_of (Some v))"
    using assms(1,2,3,9) unfolding assms(8) w1
    by (simp add: cache_delete_one modify_io_def l1_set_def l1_get_def l1_delete_def rdel_def)
  then show ?thesis
    by (simp add: r cache_get_def bind_io_def gets_io_def ret_def)
qed

definition sample_l2 :: world where
  "sample_l2 = empty_world\<lparr>redis := [''k'' \<mapsto> \<lparr>re_val = RInt 7, re_expire = None\<rparr>]\<rparr>"

theorem late_refill_witness:
  "\<exists>w1 w2. w1 = snd (cache_get ''k'' second (ret None) sample_l2)
     \<and> w2 = snd (run_cache_task (last (background w1)) (snd (cache_delete [''k''] w1)))
     \<and> fst (cache_get ''k'' second (ret None) w2) = Inr (Some (CInt 7))"
proof -
  have "fst (cache_get ''k'' second (ret None)
      (snd (run_cache_task (last (background (snd (cache_get ''k'' second (ret None) sample_l2))))
        (snd (cache_delete [''k''] (snd (cache_get ''k'' second (ret None) sample_l2))))))) = Inr (Some (CInt 7))"
    by (rule late_refill_revives_deleted_value 
        [where w = sample_l2 and load = "ret None" and r = "fst (cache_get ''k'' second (ret None) sample_l2)" and v = "CInt 7",
         THEN conjunct2, unfolded json_of_simps])
      (simp_all add: sample_l2_def empty_world_def l1_get_def rget_def live_def l2Key_def cacheKey_def
        encode_def second_def)
  then show ?thesis by blast
qed

end
