(* ===== verification/Reservations.thy ===== *)
theory Reservations
  imports CacheStrategy
begin

text \<open>
  The Redis scripts of \<open>internal/cache/manager.go\<close> that reserve something before the
  database decides: points under the daily limit, places of a flash sale, stock of an item. A
  script runs atomically; it is a function of the state here. Two interfaces state what the
  services rely on: a gate hands out places, a quota hands out amounts.
\<close>

section \<open>Daily points\<close>

definition IdleDailyPointsKey :: "world \<Rightarrow> string \<Rightarrow> string" where
  "IdleDailyPointsKey w userID = ''idle:dailypts:'' @ userID @ '':'' @ show_int (local_day w)"

definition daily_points_script :: "string \<Rightarrow> int \<Rightarrow> int \<Rightarrow> int \<Rightarrow> world \<Rightarrow> int \<times> world" where
  "daily_points_script k want limit ttl w =
     (let cur = counter w k;
          granted = (if cur + want \<le> limit then want else limit - cur)
      in if granted \<le> 0 then (0, w)
         else let w1 = rput k (RInt (cur + granted)) w
              in (granted, if has_ttl w1 k then w1 else rexpire k (ttl * second) w1))"

definition TryAcquireDailyPoints :: "string \<Rightarrow> int \<Rightarrow> int \<Rightarrow> (world, int) io" where
  "TryAcquireDailyPoints userID want limit w =
     (if \<not> redis_on w \<or> limit \<le> 0 then (Inr want, w)
      else ext ''daily points script'' (\<lambda>v.
        case daily_points_script (l2Key v (IdleDailyPointsKey v userID)) want limit
               (seconds_of (endOfLocalDay v)) v of
          (granted, v') \<Rightarrow> (Inr granted, v')) w)"

definition decr_by :: "string \<Rightarrow> int \<Rightarrow> world \<Rightarrow> world" where
  "decr_by k n w = rput k (RInt (counter w k - n)) w"

definition ReleaseDailyPoints :: "string \<Rightarrow> int \<Rightarrow> (world, unit) io" where
  "ReleaseDailyPoints userID granted w =
     (if \<not> redis_on w \<or> granted \<le> 0 then (Inr (), w)
      else ext ''redis decrby'' (\<lambda>v.
        (Inr (), decr_by (l2Key v (IdleDailyPointsKey v userID)) granted v)) w)"

section \<open>Flash sales\<close>

definition FlashSaleStockKey :: "int \<Rightarrow> string" where
  "FlashSaleStockKey activityID = ''flashsale:stock:'' @ show_int activityID"

definition FlashSaleUserKey :: "int \<Rightarrow> string" where
  "FlashSaleUserKey activityID = ''flashsale:users:'' @ show_int activityID"

definition flash_acquire_script ::
  "string \<Rightarrow> string \<Rightarrow> int \<Rightarrow> string \<Rightarrow> int \<Rightarrow> int \<Rightarrow> world \<Rightarrow> int \<times> world" where
  "flash_acquire_script k1 k2 limitQty userID perLimit ttl w =
     (let w0 = (if live w k1 = None then rexpire k1 (ttl * second) (rset k1 (RInt limitQty) 0 w) else w)
      in if perLimit > 0 \<and> hash_count w0 k2 userID \<ge> perLimit then (-2, w0)
         else let stock = counter w0 k1
              in if stock \<le> 0 then (-1, w0)
                 else let w1 = rput k1 (RInt (stock - 1)) w0;
                          w2 = rput k2 (RHash ((hash_of w1 k2)(userID \<mapsto> hash_count w1 k2 userID + 1))) w1;
                          w3 = (if has_ttl w2 k2 then w2 else rexpire k2 (ttl * second) w2)
                      in (stock - 1, w3))"

datatype flash_acquire_result = FlashSaleOK | FlashSaleSoldOut | FlashSaleUserLimit | FlashSaleSkipped

definition TryAcquireFlashSale ::
  "int \<Rightarrow> string \<Rightarrow> int \<Rightarrow> int \<Rightarrow> duration \<Rightarrow> (world, flash_acquire_result \<times> int) io" where
  "TryAcquireFlashSale activityID userID limitQty perUserLimit ttl w =
     (if \<not> redis_on w then (Inr (FlashSaleSkipped, 0), w)
      else let per = (if perUserLimit \<le> 0 then 1 else perUserLimit)
           in ext ''flash sale script'' (\<lambda>v.
                case flash_acquire_script (l2Key v (FlashSaleStockKey activityID))
                       (l2Key v (FlashSaleUserKey activityID)) limitQty userID per (seconds_of ttl) v of
                  (n, v') \<Rightarrow> (Inr (if n = -1 then (FlashSaleSoldOut, 0)
                                  else if n = -2 then (FlashSaleUserLimit, 0)
                                  else (FlashSaleOK, n)), v')) w)"

definition flash_release_script :: "string \<Rightarrow> string \<Rightarrow> string \<Rightarrow> world \<Rightarrow> world" where
  "flash_release_script k1 k2 userID w =
     (let w1 = rput k1 (RInt (counter w k1 + 1)) w;
          u = hash_count w1 k2 userID
      in if u > 0 then rput k2 (RHash ((hash_of w1 k2)(userID \<mapsto> u - 1))) w1 else w1)"

definition ReleaseFlashSale :: "int \<Rightarrow> string \<Rightarrow> (world, unit) io" where
  "ReleaseFlashSale activityID userID w =
     (if \<not> redis_on w then (Inr (), w)
      else ext ''flash release script'' (\<lambda>v.
        (Inr (), flash_release_script (l2Key v (FlashSaleStockKey activityID))
                   (l2Key v (FlashSaleUserKey activityID)) userID v)) w)"

definition ManagerWarmupFlashSale :: "int \<Rightarrow> int \<Rightarrow> duration \<Rightarrow> (world, unit) io" where
  "ManagerWarmupFlashSale activityID limitQty ttl w =
     (if \<not> redis_on w then (Inr (), w)
      else ext ''redis setnx'' (\<lambda>v.
        let k = l2Key v (FlashSaleStockKey activityID)
        in (Inr (), if live v k = None then rset k (RInt limitQty) ttl v else v)) w)"

definition ReconcileFlashSale :: "int \<Rightarrow> int \<Rightarrow> duration \<Rightarrow> (world, unit) io" where
  "ReconcileFlashSale activityID remaining ttl w =
     (if \<not> redis_on w then (Inr (), w)
      else let n = (if remaining < 0 then 0 else remaining)
           in ext ''redis set'' (\<lambda>v. (Inr (), rset (l2Key v (FlashSaleStockKey activityID)) (RInt n) ttl v)) w)"

section \<open>Redeeming items\<close>

definition RedeemStockKey :: "int \<Rightarrow> string" where
  "RedeemStockKey itemID = ''redeem:stock:'' @ show_int itemID"

definition redeem_acquire_script :: "string \<Rightarrow> int \<Rightarrow> int \<Rightarrow> world \<Rightarrow> int \<times> world" where
  "redeem_acquire_script k seedStock ttl w =
     (let w0 = (if live w k = None then rexpire k (ttl * second) (rset k (RInt seedStock) 0 w) else w);
          stock = counter w0 k
      in if stock \<le> 0 then (-1, w0) else (stock - 1, rput k (RInt (stock - 1)) w0))"

datatype redeem_acquire_result = RedeemOK | RedeemSoldOut | RedeemSkipped

definition TryAcquireRedeem ::
  "int \<Rightarrow> int \<Rightarrow> duration \<Rightarrow> (world, redeem_acquire_result \<times> int) io" where
  "TryAcquireRedeem itemID seedStock ttl w =
     (if \<not> redis_on w then (Inr (RedeemSkipped, 0), w)
      else ext ''redeem script'' (\<lambda>v.
        case redeem_acquire_script (l2Key v (RedeemStockKey itemID)) seedStock (seconds_of ttl) v of
          (n, v') \<Rightarrow> (Inr (if n = -1 then (RedeemSoldOut, 0) else (RedeemOK, n)), v')) w)"

definition redeem_release_script :: "string \<Rightarrow> world \<Rightarrow> world" where
  "redeem_release_script k w = rput k (RInt (counter w k + 1)) w"

definition ReleaseRedeem :: "int \<Rightarrow> (world, unit) io" where
  "ReleaseRedeem itemID w =
     (if \<not> redis_on w then (Inr (), w)
      else ext ''redeem release script'' (\<lambda>v.
        (Inr (), redeem_release_script (l2Key v (RedeemStockKey itemID)) v)) w)"

definition ReconcileRedeem :: "int \<Rightarrow> int \<Rightarrow> duration \<Rightarrow> (world, unit) io" where
  "ReconcileRedeem itemID remaining ttl w =
     (if \<not> redis_on w then (Inr (), w)
      else let n = (if remaining < 0 then 0 else remaining)
           in ext ''redis set'' (\<lambda>v. (Inr (), rset (l2Key v (RedeemStockKey itemID)) (RInt n) ttl v)) w)"

text \<open>An error of the read counts as not sold out.\<close>

definition IsRedeemSoldOut :: "int \<Rightarrow> (world, bool) io" where
  "IsRedeemSoldOut itemID =
     bind_io (gets_io redis_on) (\<lambda>on.
       if \<not> on then ret False
       else bind_io (attempt (ext ''redis get'' (gets_io (\<lambda>v. rget v (l2Key v (RedeemStockKey itemID)))))) (\<lambda>r.
              ret (case r of Inr (Some (RInt n)) \<Rightarrow> n \<le> 0 | _ \<Rightarrow> False)))"

section \<open>The tables stay as they are\<close>

lemma ext_durable: "(\<And>v. durable (snd (m v)) = durable v) \<Longrightarrow> durable (snd (ext name m w)) = durable w"
  by (simp add: ext_def split: list.split)

lemma script_db [simp]:
  "db (snd (daily_points_script k a b c w)) = db w"
  "db (snd (flash_acquire_script k k' a u b c w)) = db w"
  "db (flash_release_script k k' u w) = db w"
  "db (snd (redeem_acquire_script k a b w)) = db w"
  "db (redeem_release_script k w) = db w"
  "db (decr_by k n w) = db w"
  by (simp_all add: daily_points_script_def flash_acquire_script_def flash_release_script_def
      redeem_acquire_script_def redeem_release_script_def decr_by_def Let_def)

lemma script_durable [simp]:
  "durable (snd (daily_points_script k a b c w)) = durable w"
  "durable (snd (flash_acquire_script k k' a u b c w)) = durable w"
  "durable (flash_release_script k k' u w) = durable w"
  "durable (snd (redeem_acquire_script k a b w)) = durable w"
  "durable (redeem_release_script k w) = durable w"
  "durable (decr_by k n w) = durable w"
  by (simp_all add: daily_points_script_def flash_acquire_script_def flash_release_script_def
      redeem_acquire_script_def redeem_release_script_def decr_by_def Let_def)

lemma snd_case_prod: "snd (case p of (x, y) \<Rightarrow> (f x, y)) = snd p"
  by (simp add: case_prod_beta)

lemma reservation_quiet [quiet_ops]:
  "durable (snd (TryAcquireDailyPoints u a b w)) = durable w"
  "durable (snd (ReleaseDailyPoints u a w)) = durable w"
  "durable (snd (TryAcquireFlashSale i u a b t w)) = durable w"
  "durable (snd (ReleaseFlashSale i u w)) = durable w"
  "durable (snd (ManagerWarmupFlashSale i a t w)) = durable w"
  "durable (snd (ReconcileFlashSale i a t w)) = durable w"
  "durable (snd (TryAcquireRedeem i a t w)) = durable w"
  "durable (snd (ReleaseRedeem i w)) = durable w"
  "durable (snd (ReconcileRedeem i a t w)) = durable w"
  "durable (snd (IsRedeemSoldOut i w)) = durable w"
  by (auto simp: TryAcquireDailyPoints_def ReleaseDailyPoints_def TryAcquireFlashSale_def
      ReleaseFlashSale_def ManagerWarmupFlashSale_def ReconcileFlashSale_def TryAcquireRedeem_def
      ReleaseRedeem_def ReconcileRedeem_def Let_def snd_case_prod intro!: ext_durable)
    (cases "faults w"; simp add: IsRedeemSoldOut_def io_defs ext_def)

context quiet_relation
begin

lemma ev_reservation:
  "evolves R (TryAcquireDailyPoints u a b)"
  "evolves R (ReleaseDailyPoints u a)"
  "evolves R (TryAcquireFlashSale i u a b t)"
  "evolves R (ReleaseFlashSale i u)"
  "evolves R (ManagerWarmupFlashSale i a t)"
  "evolves R (ReconcileFlashSale i a t)"
  "evolves R (TryAcquireRedeem i a t)"
  "evolves R (ReleaseRedeem i)"
  "evolves R (ReconcileRedeem i a t)"
  "evolves R (IsRedeemSoldOut i)"
  by (rule ev_quiet, simp add: quiet_ops)+

end

section \<open>The interfaces\<close>

text \<open>
  A gate hands out places one at a time: a place that is handed out was available and is
  available no more, a refusal changes nothing, and a place given back is available again.
  The clients of a gate take places and give back only places they hold.
\<close>

datatype 'u gate_op = Take 'u | Give 'u

fun gate_run ::
  "('u \<Rightarrow> 's \<Rightarrow> bool \<times> 's) \<Rightarrow> ('u \<Rightarrow> 's \<Rightarrow> 's) \<Rightarrow> 'u gate_op list \<Rightarrow> 's \<times> 'u list \<Rightarrow> 's \<times> 'u list" where
  "gate_run tak giv [] sh = sh"
| "gate_run tak giv (Take u # ops) (s, held) =
     (case tak u s of (ok, s') \<Rightarrow> gate_run tak giv ops (s', if ok then u # held else held))"
| "gate_run tak giv (Give u # ops) (s, held) =
     (if u \<in> set held then gate_run tak giv ops (giv u s, remove1 u held)
      else gate_run tak giv ops (s, held))"

locale gate =
  fixes invar :: "'s \<Rightarrow> bool"
    and avail :: "'s \<Rightarrow> int"
    and tak :: "'u \<Rightarrow> 's \<Rightarrow> bool \<times> 's"
    and giv :: "'u \<Rightarrow> 's \<Rightarrow> 's"
  assumes take_granted: "invar s \<Longrightarrow> tak u s = (True, s') \<Longrightarrow> invar s' \<and> 0 < avail s \<and> avail s' = avail s - 1"
    and take_refused: "invar s \<Longrightarrow> tak u s = (False, s') \<Longrightarrow> invar s' \<and> avail s' = avail s"
    and give_back: "invar s \<Longrightarrow> invar (giv u s) \<and> avail (giv u s) = avail s + 1"
begin

lemma run_balance:
  assumes "invar s" and "gate_run tak giv ops (s, held) = (s', held')"
  shows "invar s' \<and> avail s' + int (length held') = avail s + int (length held)
       \<and> (0 \<le> avail s \<longrightarrow> 0 \<le> avail s')"
  using assms
proof (induction ops arbitrary: s held)
  case Nil
  then show ?case by simp
next
  case (Cons x ops)
  show ?case
  proof (cases x)
    case (Take u)
    obtain ok t where t: "tak u s = (ok, t)" by (cases "tak u s")
    show ?thesis
      using Cons.prems Take t Cons.IH [of t "if ok then u # held else held"]
        take_granted [of s u t] take_refused [of s u t]
      by (cases ok) auto
  next
    case (Give u)
    show ?thesis
    proof (cases "u \<in> set held")
      case True
      then have "int (length (remove1 u held)) = int (length held) - 1"
        by (cases "length held") (simp_all add: length_remove1)
      then show ?thesis
        using Cons.prems Give True Cons.IH [of "giv u s" "remove1 u held"] give_back [of s u] by auto
    next
      case False
      then show ?thesis using Cons.prems Give Cons.IH [of s held] by auto
    qed
  qed
qed

lemma held_at_most_available:
  assumes "invar s" and "0 \<le> avail s" and "gate_run tak giv ops (s, []) = (s', held)"
  shows "int (length held) \<le> avail s"
  using run_balance [OF assms(1,3)] assms(2) by simp

end

text \<open>A gate that also limits what one client holds.\<close>

locale limited_gate = gate +
  fixes cnt :: "'a \<Rightarrow> 'b \<Rightarrow> int" and per :: int
  assumes take_counts: "invar s \<Longrightarrow> tak u s = (True, s') \<Longrightarrow>
      cnt s u < per \<and> cnt s' = (cnt s)(u := cnt s u + 1)"
    and refuse_counts: "invar s \<Longrightarrow> tak u s = (False, s') \<Longrightarrow> cnt s' = cnt s"
    and give_counts: "invar s \<Longrightarrow> 0 < cnt s u \<Longrightarrow> cnt (giv u s) = (cnt s)(u := cnt s u - 1)"
begin

lemma run_counts:
  assumes "invar s" and "gate_run tak giv ops (s, held) = (s', held')"
    and "\<forall>u. int (count_list held u) \<le> cnt s u \<and> cnt s u \<le> per"
  shows "\<forall>u. int (count_list held' u) \<le> cnt s' u \<and> cnt s' u \<le> per"
  using assms
proof (induction ops arbitrary: s held)
  case Nil
  then show ?case by simp
next
  case (Cons x ops)
  show ?case
  proof (cases x)
    case (Take u)
    obtain ok t where t: "tak u s = (ok, t)" by (cases "tak u s")
    show ?thesis
    proof (cases ok)
      case True
      then have c: "cnt s u < per" "cnt t = (cnt s)(u := cnt s u + 1)" and i: "invar t"
        using t take_counts [OF Cons.prems(1)] take_granted [OF Cons.prems(1)] by auto
      have "\<forall>v. int (count_list (u # held) v) \<le> cnt t v \<and> cnt t v \<le> per"
        using Cons.prems(3) c by auto
      then show ?thesis using Cons.IH [OF i, of "u # held"] Cons.prems(2) Take t True by simp
    next
      case False
      then have c: "cnt t = cnt s" and i: "invar t"
        using t refuse_counts [OF Cons.prems(1)] take_refused [OF Cons.prems(1)] by auto
      then show ?thesis using Cons.IH [OF i, of held] Cons.prems(2,3) Take t False by simp
    qed
  next
    case (Give u)
    show ?thesis
    proof (cases "u \<in> set held")
      case True
      then have n: "int (count_list (remove1 u held) v) = int (count_list held v) - (if v = u then 1 else 0)" for v
        by (induction held) auto
      have "0 < int (count_list held u)" using True by (induction held) auto
      then have "0 < cnt s u" using Cons.prems(3) by (meson order_less_le_trans)
      then have c: "cnt (giv u s) = (cnt s)(u := cnt s u - 1)" by (rule give_counts [OF Cons.prems(1)])
      have "\<forall>v. int (count_list (remove1 u held) v) \<le> cnt (giv u s) v \<and> cnt (giv u s) v \<le> per"
      proof
        fix v
        have "int (count_list held v) \<le> cnt s v" "cnt s v \<le> per" using Cons.prems(3) by auto
        then show "int (count_list (remove1 u held) v) \<le> cnt (giv u s) v \<and> cnt (giv u s) v \<le> per"
          unfolding c n by auto
      qed
      then show ?thesis
        using Cons.IH [of "giv u s" "remove1 u held"] give_back [OF Cons.prems(1)] Cons.prems(2) Give True by simp
    next
      case False
      then show ?thesis using Cons.IH [of s held] Cons.prems Give by simp
    qed
  qed
qed

lemma held_per_client:
  assumes "invar s" and "gate_run tak giv ops (s, []) = (s', held)"
    and "\<forall>u. 0 \<le> cnt s u \<and> cnt s u \<le> per"
  shows "int (count_list held u) \<le> per"
proof -
  have "\<forall>u. int (count_list [] u) \<le> cnt s u \<and> cnt s u \<le> per" using assms(3) by simp
  from run_counts [OF assms(1,2) this] show ?thesis by (meson order_trans)
qed

end

text \<open>
  A quota hands out amounts up to a limit; what was not used is given back.
\<close>

datatype quota_op = Acquire int | Release int

fun quota_run ::
  "(int \<Rightarrow> 's \<Rightarrow> int \<times> 's) \<Rightarrow> (int \<Rightarrow> 's \<Rightarrow> 's) \<Rightarrow> quota_op list \<Rightarrow> 's \<times> int \<Rightarrow> 's \<times> int" where
  "quota_run acq rel [] sh = sh"
| "quota_run acq rel (Acquire n # ops) (s, held) =
     (case acq n s of (g, s') \<Rightarrow> quota_run acq rel ops (s', held + g))"
| "quota_run acq rel (Release n # ops) (s, held) =
     (if 0 < n \<and> n \<le> held then quota_run acq rel ops (rel n s, held - n)
      else quota_run acq rel ops (s, held))"

locale quota =
  fixes invar :: "'s \<Rightarrow> bool"
    and used :: "'s \<Rightarrow> int"
    and acq :: "int \<Rightarrow> 's \<Rightarrow> int \<times> 's"
    and rel :: "int \<Rightarrow> 's \<Rightarrow> 's"
    and limit :: int
  assumes acquire: "invar s \<Longrightarrow> acq n s = (g, s') \<Longrightarrow>
      invar s' \<and> used s' = used s + g \<and> 0 \<le> g \<and> (0 < g \<longrightarrow> used s + g \<le> limit \<and> g \<le> n)"
    and release: "invar s \<Longrightarrow> invar (rel n s) \<and> used (rel n s) = used s - n"
begin

lemma run_used:
  assumes "invar s" and "quota_run acq rel ops (s, held) = (s', held')"
  shows "invar s' \<and> used s' - held' = used s - held \<and> (0 \<le> held \<longrightarrow> 0 \<le> held')
       \<and> (used s \<le> limit \<longrightarrow> used s' \<le> limit)"
  using assms
proof (induction ops arbitrary: s held)
  case Nil
  then show ?case by simp
next
  case (Cons x ops)
  show ?case
  proof (cases x)
    case (Acquire n)
    obtain g t where t: "acq n s = (g, t)" by (cases "acq n s")
    show ?thesis
      using Cons.prems(2) Acquire t Cons.IH [of t "held + g"] acquire [OF Cons.prems(1) t] by auto
  next
    case (Release n)
    show ?thesis
      using Cons.prems Release Cons.IH [of "rel n s" "held - n"] Cons.IH [of s held] release [of s n]
      by (auto split: if_splits)
  qed
qed

lemma held_within_limit:
  assumes "invar s" and "0 \<le> used s" "used s \<le> limit"
    and "quota_run acq rel ops (s, 0) = (s', held)"
  shows "0 \<le> held \<and> used s + held \<le> limit"
  using run_used [OF assms(1,4)] assms(2,3) by auto

end

section \<open>The scripts provide them\<close>

definition counter_live :: "string \<Rightarrow> world \<Rightarrow> bool" where
  "counter_live k w = (case rget w k of Some (RInt n) \<Rightarrow> True | _ \<Rightarrow> False)"

definition counter_ok :: "string \<Rightarrow> world \<Rightarrow> bool" where
  "counter_ok k w = (case rget w k of None \<Rightarrow> True | Some (RInt n) \<Rightarrow> True | _ \<Rightarrow> False)"

definition hash_ok :: "string \<Rightarrow> world \<Rightarrow> bool" where
  "hash_ok k w = (case rget w k of None \<Rightarrow> True | Some (RHash h) \<Rightarrow> True | _ \<Rightarrow> False)"

lemma rget_rexpire [simp]: "0 < ttl \<Longrightarrow> rget (rexpire k ttl w) j = rget w j"
  by (simp add: rget_def option.map_comp comp_def)

lemma second_pos [simp]: "0 < second"
  by (simp add: second_def)

lemma counter_frame [simp]:
  "counter (rput k v w) j = (if j = k then (case v of RInt n \<Rightarrow> n | _ \<Rightarrow> 0) else counter w j)"
  "0 < ttl \<Longrightarrow> counter (rexpire k ttl w) j = counter w j"
  "hash_count (rput k v w) j u = (if j = k then (case v of RHash h \<Rightarrow> (case h u of Some n \<Rightarrow> n | None \<Rightarrow> 0) | _ \<Rightarrow> 0) else hash_count w j u)"
  "0 < ttl \<Longrightarrow> hash_count (rexpire k ttl w) j u = hash_count w j u"
  by (simp_all add: counter_def hash_count_def split: rval.splits option.splits)

lemma hash_of_frame [simp]:
  "hash_of (rput k v w) j = (if j = k then (case v of RHash h \<Rightarrow> h | _ \<Rightarrow> Map.empty) else hash_of w j)"
  "0 < ttl \<Longrightarrow> hash_of (rexpire k ttl w) j = hash_of w j"
  by (simp_all add: hash_of_def split: rval.splits option.splits)

lemma counter_live_iff: "counter_live k w \<longleftrightarrow> rget w k = Some (RInt (counter w k))"
  by (auto simp: counter_live_def counter_def split: option.splits rval.splits)

definition redeem_take :: "string \<Rightarrow> int \<Rightarrow> int \<Rightarrow> unit \<Rightarrow> world \<Rightarrow> bool \<times> world" where
  "redeem_take k seedStock ttl u w =
     (case redeem_acquire_script k seedStock ttl w of (n, w') \<Rightarrow> (0 \<le> n, w'))"

definition redeem_give :: "string \<Rightarrow> unit \<Rightarrow> world \<Rightarrow> world" where
  "redeem_give k u w = redeem_release_script k w"

interpretation redeem: gate "counter_live k" "\<lambda>w. counter w k" "redeem_take k seedStock ttl" "redeem_give k"
  for k seedStock ttl
  by unfold_locales
    (auto simp: redeem_take_def redeem_give_def redeem_acquire_script_def redeem_release_script_def
      Let_def counter_live_iff rget_def split: if_splits)

definition flash_take ::
  "string \<Rightarrow> string \<Rightarrow> int \<Rightarrow> int \<Rightarrow> nat \<Rightarrow> string \<Rightarrow> world \<Rightarrow> bool \<times> world" where
  "flash_take k1 k2 limitQty perUserLimit ttl u w =
     (case flash_acquire_script k1 k2 limitQty u (if perUserLimit \<le> 0 then 1 else perUserLimit)
             (int (Suc ttl)) w of (n, w') \<Rightarrow> (0 \<le> n, w'))"

definition flash_inv :: "string \<Rightarrow> string \<Rightarrow> world \<Rightarrow> bool" where
  "flash_inv k1 k2 w \<longleftrightarrow> k1 \<noteq> k2 \<and> counter_live k1 w \<and> hash_ok k2 w"

lemma hash_of_count: "hash_count w k u = (case hash_of w k u of Some n \<Rightarrow> n | None \<Rightarrow> 0)"
  by (auto simp: hash_count_def hash_of_def split: option.splits rval.splits)

lemma flash_take_cases:
  assumes "flash_inv k1 k2 w" and "flash_take k1 k2 limitQty per ttl u w = (ok, w')"
  shows "flash_inv k1 k2 w'
    \<and> (ok \<longrightarrow> 0 < counter w k1 \<and> counter w' k1 = counter w k1 - 1
         \<and> hash_count w k2 u < (if per \<le> 0 then 1 else per)
         \<and> hash_count w' k2 = (hash_count w k2)(u := hash_count w k2 u + 1))
    \<and> (\<not> ok \<longrightarrow> w' = w)"
proof -
  have live: "live w k1 \<noteq> None" and k: "k1 \<noteq> k2"
    using assms(1) by (auto simp: flash_inv_def counter_live_iff rget_def)
  have t: "0 < int (Suc ttl) * second" by simp
  show ?thesis
    using assms live k t
    by (auto simp: flash_take_def flash_acquire_script_def Let_def flash_inv_def counter_live_iff
        hash_ok_def hash_of_count fun_eq_iff simp del: of_nat_Suc split: if_splits)
qed

lemma flash_release_counts:
  assumes "flash_inv k1 k2 w"
  shows "flash_inv k1 k2 (flash_release_script k1 k2 u w)
    \<and> counter (flash_release_script k1 k2 u w) k1 = counter w k1 + 1
    \<and> (0 < hash_count w k2 u \<longrightarrow>
         hash_count (flash_release_script k1 k2 u w) k2 = (hash_count w k2)(u := hash_count w k2 u - 1))"
  using assms
  by (auto simp: flash_release_script_def Let_def flash_inv_def counter_live_iff hash_ok_def
      hash_of_count fun_eq_iff split: if_splits)

interpretation flash: limited_gate "flash_inv k1 k2" "\<lambda>w. counter w k1"
  "flash_take k1 k2 limitQty perUserLimit ttl" "flash_release_script k1 k2"
  "\<lambda>w. hash_count w k2" "if perUserLimit \<le> 0 then 1 else perUserLimit"
  for k1 k2 limitQty perUserLimit ttl
proof unfold_locales
qed (use flash_take_cases flash_release_counts in blast)+

interpretation daily: quota "counter_ok k" "\<lambda>w. counter w k"
  "\<lambda>n w. daily_points_script k n limit (int (Suc ttl)) w" "\<lambda>n w. decr_by k n w" limit
  for k limit ttl
  by unfold_locales
    (auto simp: daily_points_script_def decr_by_def Let_def counter_ok_def simp del: of_nat_Suc split: if_splits)

section \<open>Properties\<close>

text \<open>Through the scripts of the redeem gate, at most as many places are out at a time as
  the counter showed, whatever the order of requests and releases.\<close>

theorem redeem_gate_bounds_places:
  assumes "counter_live k w" and "0 \<le> counter w k"
    and "gate_run (redeem_take k seedStock ttl) (redeem_give k) ops (w, []) = (w', held)"
  shows "int (length held) \<le> counter w k"
  using assms by (rule redeem.held_at_most_available)

definition sample_gate :: world where
  "sample_gate = empty_world\<lparr>redis := [''redeem:stock:1'' \<mapsto> \<lparr>re_val = RInt 1, re_expire = None\<rparr>,
     ''flashsale:stock:1'' \<mapsto> \<lparr>re_val = RInt 2, re_expire = None\<rparr>]\<rparr>"

lemma sample_gate_live:
  "counter_live ''redeem:stock:1'' sample_gate" "counter sample_gate ''redeem:stock:1'' = 1"
  "flash_inv ''flashsale:stock:1'' ''flashsale:users:1'' sample_gate"
  "counter sample_gate ''flashsale:stock:1'' = 2"
  "hash_count sample_gate ''flashsale:users:1'' u = 0"
  "counter_ok ''idle:dailypts:u:0'' sample_gate" "counter sample_gate ''idle:dailypts:u:0'' = 0"
  by (simp_all add: sample_gate_def counter_live_def counter_def rget_def live_def empty_world_def
      flash_inv_def hash_ok_def hash_count_def counter_ok_def)

theorem redeem_gate_witness:
  "int (length (snd (gate_run (redeem_take ''redeem:stock:1'' 1 1800) (redeem_give ''redeem:stock:1'')
      [Take (), Take (), Give (), Take ()] (sample_gate, [])))) \<le> 1"
proof -
  have "0 \<le> counter sample_gate ''redeem:stock:1''" by (simp add: sample_gate_live)
  from redeem_gate_bounds_places [OF sample_gate_live(1) this prod.collapse [symmetric]]
  show ?thesis unfolding sample_gate_live(2) .
qed

text \<open>Through the scripts of the flash-sale gate, the places that are out never exceed the
  counter, and no user holds more than the limit per user (1 when it is not positive).\<close>

theorem flash_gate_bounds_places:
  assumes "flash_inv k1 k2 w" and "0 \<le> counter w k1"
    and "\<forall>u. 0 \<le> hash_count w k2 u \<and> hash_count w k2 u \<le> (if perUserLimit \<le> 0 then 1 else perUserLimit)"
    and "gate_run (flash_take k1 k2 limitQty perUserLimit ttl) (flash_release_script k1 k2) ops (w, []) = (w', held)"
  shows "int (length held) \<le> counter w k1
    \<and> int (count_list held u) \<le> (if perUserLimit \<le> 0 then 1 else perUserLimit)"
  using flash.held_at_most_available [OF assms(1,2,4)] flash.held_per_client [OF assms(1,4,3)] by blast

theorem flash_gate_witness:
  "int (count_list (snd (gate_run (flash_take ''flashsale:stock:1'' ''flashsale:users:1'' 2 0 3599)
      (flash_release_script ''flashsale:stock:1'' ''flashsale:users:1'')
      [Take ''a'', Take ''a'', Take ''b''] (sample_gate, []))) ''a'') \<le> 1"
proof -
  have c: "0 \<le> counter sample_gate ''flashsale:stock:1''" by (simp add: sample_gate_live)
  have "\<forall>u. 0 \<le> hash_count sample_gate ''flashsale:users:1'' u
      \<and> hash_count sample_gate ''flashsale:users:1'' u \<le> (if (0::int) \<le> 0 then 1 else 0)"
    by (simp add: sample_gate_live)
  from flash_gate_bounds_places [OF sample_gate_live(3) c this prod.collapse [symmetric], THEN conjunct2]
  have "int (count_list (snd (gate_run (flash_take ''flashsale:stock:1'' ''flashsale:users:1'' 2 0 3599)
      (flash_release_script ''flashsale:stock:1'' ''flashsale:users:1'')
      [Take ''a'', Take ''a'', Take ''b''] (sample_gate, []))) ''a'') \<le> (if (0::int) \<le> 0 then 1 else 0)" .
  then show ?thesis by (simp only: order_refl if_True)
qed

text \<open>Points acquired under the daily limit and not released never add up to more than the
  limit allows, however the acquisitions and releases of concurrent settlements interleave.\<close>

theorem daily_points_within_limit:
  assumes "counter_ok k w" and "0 \<le> counter w k" and "counter w k \<le> limit"
    and "quota_run (\<lambda>n w. daily_points_script k n limit (int (Suc ttl)) w) (\<lambda>n w. decr_by k n w)
           ops (w, 0) = (w', held)"
  shows "0 \<le> held \<and> counter w k + held \<le> limit"
  using assms by (rule daily.held_within_limit)

theorem daily_points_witness:
  "snd (quota_run (\<lambda>n w. daily_points_script ''idle:dailypts:u:0'' n 100 (int (Suc 3599)) w)
      (\<lambda>n w. decr_by ''idle:dailypts:u:0'' n w) [Acquire 80, Acquire 80, Release 30, Acquire 90] (sample_gate, 0)) \<le> 100"
proof -
  have "0 \<le> counter sample_gate ''idle:dailypts:u:0''" "counter sample_gate ''idle:dailypts:u:0'' \<le> 100"
    by (simp_all add: sample_gate_live)
  from daily_points_within_limit [OF sample_gate_live(6) this prod.collapse [symmetric], THEN conjunct2]
  show ?thesis unfolding sample_gate_live(7) add_0 .
qed

end
