(* ===== verification/UserRepo.thy ===== *)
theory UserRepo
  imports CacheStrategy
begin

text \<open>
  \<open>internal/repository/user_repo.go\<close>, the GORM implementation of \<open>UserRepository\<close>: the rows
  of the user database, read through the three-level cache and changed with the cached copies
  dropped after the write. Balances and amounts stay far inside 64 bits and are integers here.
\<close>

section \<open>Keys and invalidation\<close>

definition userCacheTTL :: duration where
  "userCacheTTL = 10 * second"

definition userCacheKeyByID :: "string \<Rightarrow> string" where
  "userCacheKeyByID uid = ''user:uid:'' @ uid"

definition userCacheKeyByEmail :: "string \<Rightarrow> string" where
  "userCacheKeyByEmail email = ''user:email:'' @ email"

definition invalidateUser :: "string \<Rightarrow> string \<Rightarrow> (world, unit) io" where
  "invalidateUser uid email =
     bind_io (gets_io cache_on) (\<lambda>on.
       let keys = (if uid \<noteq> [] then [userCacheKeyByID uid] else [])
                @ (if email \<noteq> [] then [userCacheKeyByEmail email] else [])
       in when_io (on \<and> keys \<noteq> []) (best_effort (cache_delete keys)))"

section \<open>Reading\<close>

text \<open>\<open>cache.DecodeCached[*model.User]\<close>; a value of another shape does not unmarshal.\<close>

definition decode_user :: "cval option \<Rightarrow> (world, user option) io" where
  "decode_user v = (case v of
      None \<Rightarrow> ret None
    | Some (CUser u) \<Rightarrow> ret (Some u)
    | Some _ \<Rightarrow> throw (Sentinel ''cache: unmarshal cached value''))"

definition first_user :: "(user \<Rightarrow> bool) \<Rightarrow> (world, user option) io" where
  "first_user p = user_read ''user first'' (find p)"

definition cached_first_user :: "string \<Rightarrow> (user \<Rightarrow> bool) \<Rightarrow> (world, user option) io" where
  "cached_first_user key p =
     bind_io (gets_io cache_on) (\<lambda>on.
       if on then
         bind_io (attempt (cache_get key userCacheTTL
                     (bind_io (first_user p) (\<lambda>u. ret (map_option CUser u))))) (\<lambda>r.
           case r of
             Inr v \<Rightarrow> decode_user v
           | Inl e \<Rightarrow> first_user p)
       else first_user p)"

definition FindByID :: "string \<Rightarrow> (world, user option) io" where
  "FindByID userID = cached_first_user (userCacheKeyByID userID) (\<lambda>u. us_id u = userID)"

definition FindByEmail :: "string \<Rightarrow> (world, user option) io" where
  "FindByEmail email = cached_first_user (userCacheKeyByEmail email) (\<lambda>u. us_email u = email)"

definition FindByGoogleID :: "string \<Rightarrow> (world, user option) io" where
  "FindByGoogleID googleID = first_user (\<lambda>u. us_google u = Some googleID)"

section \<open>Writing\<close>

text \<open>
  The unique indexes (user id, email, Google id) and the check that a balance is not negative.
\<close>

definition user_conflict :: "user \<Rightarrow> user \<Rightarrow> bool" where
  "user_conflict u v \<longleftrightarrow> us_id u = us_id v \<or> us_email u = us_email v
     \<or> (us_google u \<noteq> None \<and> us_google u = us_google v)"

definition user_Create :: "user \<Rightarrow> (world, unit) io" where
  "user_Create u = user_write ''user create'' (\<lambda>us.
     if us_points u < 0 then (Inl (Fault ''check constraint''), us)
     else if \<exists>v \<in> set us. user_conflict u v then (Inl (Fault ''unique index''), us)
     else (Inr (), us @ [u]))"

text \<open>\<open>Save\<close>: all columns of the row with this primary key; no such row means an insert.\<close>

definition user_save :: "user \<Rightarrow> (world, unit) io" where
  "user_save u = user_write ''user save'' (\<lambda>us.
     if us_points u < 0 then (Inl (Fault ''check constraint''), us)
     else if \<exists>v \<in> set us. us_id v \<noteq> us_id u \<and> user_conflict u v then (Inl (Fault ''unique index''), us)
     else if \<exists>v \<in> set us. us_id v = us_id u
     then (Inr (), update_where (\<lambda>v. us_id v = us_id u) (\<lambda>_. u) us)
     else (Inr (), us @ [u]))"

definition user_Update :: "user \<Rightarrow> (world, unit) io" where
  "user_Update u = then_io (user_save u) (invalidateUser (us_id u) (us_email u))"

definition add_points :: "int \<Rightarrow> user \<Rightarrow> user" where
  "add_points amount u = u\<lparr>us_points := us_points u + amount\<rparr>"

definition payable :: "string \<Rightarrow> int \<Rightarrow> user \<Rightarrow> bool" where
  "payable userID amount u \<longleftrightarrow> us_id u = userID \<and> - amount \<le> us_points u"

definition UpdatePoints :: "string \<Rightarrow> int \<Rightarrow> (world, unit) io" where
  "UpdatePoints userID amount =
     bind_io (user_write ''user update points'' (\<lambda>us.
        (Inr (rows_affected (payable userID amount) us),
         update_where (payable userID amount) (add_points amount) us))) (\<lambda>n.
     if n = 0 then throw (Sentinel ''insufficient points or user not found'')
     else invalidateUser userID [])"

definition UpdatePassword :: "string \<Rightarrow> string \<Rightarrow> instant option \<Rightarrow> (world, unit) io" where
  "UpdatePassword userID hash changedAt =
     then_io (user_write ''user update password'' (\<lambda>us. (Inr (),
        update_where (\<lambda>u. us_id u = userID)
          (\<lambda>u. u\<lparr>us_password_hash := hash, us_password_changed := changedAt\<rparr>) us)))
     (bind_io (gets_io cache_on) (\<lambda>on.
      bind_io (if on then attempt (first_user (\<lambda>u. us_id u = userID)) else ret (Inr None)) (\<lambda>r.
      invalidateUser userID (case r of Inr (Some u) \<Rightarrow> us_email u | _ \<Rightarrow> []))))"

section \<open>The business tables stay as they are\<close>

context quiet_relation
begin

lemma ev_invalidateUser: "evolves R (invalidateUser uid email)"
  unfolding invalidateUser_def Let_def by (intro ev_quiet_world ev_cache_delete)

lemma ev_first_user: "evolves R (first_user p)"
  unfolding first_user_def by (rule ev_user_read)

lemma ev_decode_user: "evolves R (decode_user v)"
  unfolding decode_user_def by (auto intro: ev_quiet_world split: option.splits cval.splits)

lemma ev_cached_first_user: "evolves R (cached_first_user k p)"
  unfolding cached_first_user_def by (intro ev_quiet_world ev_cache_get ev_first_user ev_decode_user)

lemma ev_user_finds: "evolves R (FindByID u)" "evolves R (FindByEmail e)" "evolves R (FindByGoogleID g)"
  by (simp_all add: FindByID_def FindByEmail_def FindByGoogleID_def ev_cached_first_user ev_first_user)

end

context db_relation
begin

lemma ev_user:
  "evolves (on_db Q) (FindByID u)" "evolves (on_db Q) (FindByEmail e)" "evolves (on_db Q) (FindByGoogleID g)"
  "evolves (on_db Q) (user_Create r)" "evolves (on_db Q) (user_Update r)"
  "evolves (on_db Q) (UpdatePoints u n)" "evolves (on_db Q) (UpdatePassword u h t)"
  by (auto simp: FindByID_def FindByEmail_def FindByGoogleID_def user_Create_def user_Update_def
      user_save_def UpdatePoints_def UpdatePassword_def
      intro!: ev_world ev_cached_first_user ev_first_user ev_invalidateUser)

end

section \<open>Points\<close>

lemma invalidateUser_ok: "fst (invalidateUser uid email w) = Inr ()"
  by (simp add: invalidateUser_def io_defs Let_def)

lemma fold_rdel_users [simp]: "users (fold rdel ks w) = users w" "now (fold rdel ks w) = now w"
  "faults (fold rdel ks w) = faults w"
  by (induction ks arbitrary: w) auto

lemma cache_delete_frame:
  "users (snd (cache_delete keys w)) = users w \<and> db (snd (cache_delete keys w)) = db w
   \<and> now (snd (cache_delete keys w)) = now w"
proof (induction keys arbitrary: w)
  case Nil
  then show ?case by (simp add: cache_delete_def ret_def)
next
  case (Cons key keys)
  let ?v = "snd (cache_delete [key] w)"
  have one: "users ?v = users w \<and> db ?v = db w \<and> now ?v = now w \<and> fst (cache_delete [key] w) = Inr ()"
    by (simp add: cache_delete_def io_defs l2_delete_def ext_def l1_delete_def split: list.splits)
  have "cache_delete (key # keys) w = cache_delete keys ?v"
    by (simp add: cache_delete_def io_defs split: prod.splits sum.splits)
  then show ?case using Cons [of ?v] one by simp
qed

lemma invalidateUser_frame [simp]:
  "users (snd (invalidateUser uid email w)) = users w"
  "db (snd (invalidateUser uid email w)) = db w"
  "now (snd (invalidateUser uid email w)) = now w"
  by (simp_all add: invalidateUser_def io_defs Let_def cache_delete_frame)

text \<open>What \<open>UpdatePoints\<close> did, by its result.\<close>

lemma UpdatePoints_ok:
  assumes "UpdatePoints u n w = (Inr x, w')"
  shows "users w' = update_where (payable u n) (add_points n) (users w)"
    and "\<exists>r \<in> set (users w). payable u n r" and "db w' = db w" and "now w' = now w"
proof -
  obtain k v where 1: "user_write ''user update points'' (\<lambda>us.
        (Inr (rows_affected (payable u n) us), update_where (payable u n) (add_points n) us)) w = (Inr k, v)"
    and 2: "(if k = 0 then throw (Sentinel ''insufficient points or user not found'')
             else invalidateUser u []) v = (Inr x, w')"
    using assms unfolding UpdatePoints_def bind_io_Inr by blast
  have k: "k = rows_affected (payable u n) (users w)" and v: "users v = update_where (payable u n) (add_points n) (users w)"
    "db v = db w" "now v = now w"
    using 1 by (auto simp: user_write_def ext_def split: list.splits if_splits)
  have "k \<noteq> 0" and w': "w' = snd (invalidateUser u [] v)"
    using 2 by (auto simp: throw_def split: if_splits)
  then show "\<exists>r \<in> set (users w). payable u n r" using k rows_affected_0 [of "payable u n" "users w"] by auto
  show "users w' = update_where (payable u n) (add_points n) (users w)" "db w' = db w" "now w' = now w"
    using v w' by simp_all
qed

lemma UpdatePoints_fail:
  assumes "UpdatePoints u n w = (Inl e, w')"
  shows "users w' = users w" and "db w' = db w" and "now w' = now w"
proof -
  have *: "users w' = users w \<and> db w' = db w \<and> now w' = now w"
  proof (cases "rows_affected (payable u n) (users w) = 0")
    case True
    then have same: "update_where (payable u n) (add_points n) (users w) = users w"
      by (simp add: rows_affected_0 update_where_none)
    show ?thesis using assms True same
      by (auto simp: UpdatePoints_def user_write_def bind_io_def ext_def throw_def split: list.splits if_splits)
  next
    case False
    obtain r v where i: "invalidateUser u [] y = (Inr (), v) \<Longrightarrow> True" for y by blast
    show ?thesis using assms False invalidateUser_ok [of u "[]"]
      by (auto simp: UpdatePoints_def user_write_def bind_io_def ext_def throw_def split: list.splits if_splits)
         (metis fst_conv sum.distinct(1))+
  qed
  then show "users w' = users w" "db w' = db w" "now w' = now w" by simp_all
qed

text \<open>The balance never becomes negative: whatever is added or spent, in any state and with
  any failure, a user whose balance was not negative keeps one that is not.\<close>

theorem UpdatePoints_keeps_nonnegative:
  assumes "\<forall>u \<in> set (users w). 0 \<le> us_points u" and "UpdatePoints userID amount w = (r, w')"
  shows "\<forall>u \<in> set (users w'). 0 \<le> us_points u"
proof (cases r)
  case (Inl e)
  then show ?thesis using assms UpdatePoints_fail(1) by auto
next
  case (Inr x)
  then have "users w' = update_where (payable userID amount) (add_points amount) (users w)"
    using assms(2) UpdatePoints_ok(1) by blast
  then show ?thesis using assms(1) by (auto simp: set_update_where payable_def add_points_def)
qed

definition sample_user :: user where
  "sample_user = \<lparr>us_id = ''u1'', us_username = ''ann'', us_email = ''a@x'', us_password_hash = ''h'',
     us_google = None, us_avatar = [], us_points = 5, us_status = ''active'', us_password_changed = None\<rparr>"

definition sample_users :: world where
  "sample_users = empty_world\<lparr>users := [sample_user]\<rparr>"

theorem UpdatePoints_keeps_nonnegative_witness:
  "list_all (\<lambda>u. 0 \<le> us_points u) (users (snd (UpdatePoints ''u1'' (-5) sample_users)))"
  unfolding list_all_iff
  by (rule UpdatePoints_keeps_nonnegative [OF _ prod.collapse [symmetric]])
    (simp add: sample_users_def sample_user_def)

section \<open>The password hash and the cache\<close>

lemma unlock_keeps_l1 [simp]:
  "l1_get (snd (l2_unlock key w)) k = l1_get w k" "now (snd (l2_unlock key w)) = now w"
  "cache_on (snd (l2_unlock key w)) = cache_on w"
  by (auto simp: l2_unlock_def Let_def ext_def l1_get_def rdel_def split: option.splits list.splits)

lemma l1_set_cache_on [simp]: "cache_on (l1_set key v ttl w) = cache_on w"
  by (simp add: l1_set_def)

lemma l1_get_filled:
  assumes "l1_on w" and "0 < l1_ttl_of w key ttl"
  shows "l1_get (l1_set key v ttl w) key = Some (json_of v)"
  using assms by (simp add: l1_set_def l1_get_def)

lemma first_user_frame:
  "l1_get (snd (first_user p w)) k = l1_get w k \<and> cache_on (snd (first_user p w)) = cache_on w"
  by (auto simp: first_user_def user_read_def ext_def gets_io_def l1_get_def split: list.splits option.splits)

lemma loadAndFill_fills:
  assumes "faults w = []" and "l1_on w" and "0 < l1_ttl_of w key (ttl_of w key ttl)"
    and "load w = (Inr (Some v), w)"
  shows "l1_get (snd (loadAndFill key ttl load b w)) key = Some (json_of (Some v))
    \<and> cache_on (snd (loadAndFill key ttl load b w)) = cache_on w"
proof -
  let ?w = "if b \<and> redis_on w then rset (l2Key w key) (encode (Some v)) (ttl_of w key ttl) w else w"
  have "l1_get (l1_set key (Some v) (ttl_of w key ttl) ?w) key = Some (json_of (Some v))"
    by (rule l1_get_filled) (use assms in \<open>simp_all add: rset_def\<close>)
  then show ?thesis using assms(1,4)
    by (simp add: loadAndFill_def bind_io_def then_io_def fillCache_run ret_def)
qed

lemma cold_read_fills:
  assumes "cache_cold key w" and "l1_on w" and "\<And>t. 0 < l1_ttl_of w key t"
    and "\<And>u. faults u = [] \<Longrightarrow> users u = users w \<Longrightarrow> load u = (Inr (Some v), u)"
  shows "l1_get (snd (cache_get key ttl load w)) key = Some (json_of (Some v))
    \<and> cache_on (snd (cache_get key ttl load w)) = cache_on w"
proof -
  have l1: "l1_get w key = None" and nf: "faults w = []" using assms(1) by (auto simp: cache_cold_def)
  have fill: "l1_get (snd (loadAndFill key ttl load b w)) key = Some (json_of (Some v))
      \<and> cache_on (snd (loadAndFill key ttl load b w)) = cache_on w" for b
    by (rule loadAndFill_fills) (use assms nf in auto)
  have src: "l1_get (snd (sourceOnce key ttl load w)) key = Some (json_of (Some v))
      \<and> cache_on (snd (sourceOnce key ttl load w)) = cache_on w"
  proof (cases "redis_on w")
    case True
    obtain u where u: "l2_lock (''lock:source:'' @ key) (10 * second) w = (Inr True, u)"
      "faults u = []" "users u = users w" "l1_on u" "l1_ttl_of u = l1_ttl_of w" "cache_on u = cache_on w"
      using assms(1,2) True by (simp add: cache_cold_def l2_lock_def Let_def)
    have "l1_get (snd (loadAndFill key ttl load True u)) key = Some (json_of (Some v))
        \<and> cache_on (snd (loadAndFill key ttl load True u)) = cache_on u"
      by (rule loadAndFill_fills) (use u assms in auto)
    then show ?thesis
      using True l1 cold_l2_get [OF assms(1) True] u
      by (simp add: sourceOnce_def bind_io_def gets_io_def attempt_def finally_io_def case_prod_beta)
  next
    case False
    then show ?thesis using l1 fill by (simp add: sourceOnce_def bind_io_def gets_io_def)
  qed
  then show ?thesis
    using l1 fill cold_l2_get [OF assms(1)]
    by (auto simp: cache_get_def bind_io_def gets_io_def attempt_def)
qed

text \<open>The first read of a user by email fills the in-process cache, and the next one within
  the entry's time to live returns the user with an empty password hash: the cached copy is
  JSON, which leaves the hash out.\<close>

theorem second_read_has_no_hash:
  assumes "cache_on w" and "l1_on w" and "\<And>k t. 0 < l1_ttl_of w k t"
    and "cache_cold (userCacheKeyByEmail email) w"
    and "find (\<lambda>v. us_email v = email) (users w) = Some u"
  shows "fst (FindByEmail email (snd (FindByEmail email w))) = Inr (Some (u\<lparr>us_password_hash := []\<rparr>))"
proof -
  let ?k = "userCacheKeyByEmail email" and ?p = "\<lambda>v. us_email v = email"
  let ?get = "cache_get ?k userCacheTTL (bind_io (first_user ?p) (\<lambda>u. ret (map_option CUser u))) w"
  let ?w1 = "snd (FindByEmail email w)"
  have filled: "l1_get (snd ?get) ?k = Some (json_of (Some (CUser u))) \<and> cache_on (snd ?get) = cache_on w"
    by (rule cold_read_fills)
      (use assms(2-5) in \<open>auto simp: first_user_def user_read_def bind_io_def gets_io_def ret_def\<close>)
  have "?w1 = snd ?get \<or> ?w1 = snd (first_user ?p (snd ?get))"
    using assms(1)
    by (auto simp: FindByEmail_def cached_first_user_def bind_io_def gets_io_def attempt_def decode_user_def
        ret_def throw_def split: sum.splits prod.splits option.splits cval.splits)
  then have "l1_get ?w1 ?k = Some (json_of (Some (CUser u))) \<and> cache_on ?w1"
    using filled assms(1) by (elim disjE) (simp_all add: first_user_frame)
  then show ?thesis
    by (simp add: FindByEmail_def [of email] cached_first_user_def cache_get_def decode_user_def io_defs)
qed

theorem second_read_has_no_hash_witness:
  "fst (FindByEmail ''a@x'' (snd (FindByEmail ''a@x'' (sample_users\<lparr>l1_ttl_of := \<lambda>_ _. second\<rparr>))))
     = Inr (Some (sample_user\<lparr>us_password_hash := []\<rparr>))"
  by (rule second_read_has_no_hash)
    (simp_all add: sample_users_def empty_world_def sample_user_def second_def cache_cold_def l1_get_def
      rget_def live_def)

end
