(* ===== verification/PointsOutbox.thy ===== *)
theory PointsOutbox
  imports UserRepo "HOL-Library.Multiset"
begin

text \<open>
  The transactional outbox of points adjustments: the table operations of
  \<open>internal/repository/points_outbox_repo.go\<close> and the applier of
  \<open>internal/service/common/points_outbox.go\<close>. A business transaction appends a pending row;
  the worker pool, the message consumer and the relay compete to claim it and pay it into the
  user database. The competition is a step relation between workers whose steps are the
  table operations themselves, with crashes and failed calls anywhere.
\<close>

section \<open>The table\<close>

definition in_status :: "string \<Rightarrow> outbox_status \<Rightarrow> points_outbox \<Rightarrow> bool" where
  "in_status ev st r \<longleftrightarrow> ob_event r = ev \<and> ob_status r = st"

definition move_status :: "string \<Rightarrow> outbox_status \<Rightarrow> outbox_status \<Rightarrow> instant \<Rightarrow> points_outbox list \<Rightarrow> points_outbox list" where
  "move_status ev st st' t = update_where (in_status ev st) (\<lambda>r. r\<lparr>ob_status := st', ob_updated := t\<rparr>)"

text \<open>Inserting: the id is the next one, the creation time is now, the event id is unique.\<close>

definition AppendOutboxInTx :: "points_outbox \<Rightarrow> (world, unit) io" where
  "AppendOutboxInTx rec = db_try ''outbox append'' (\<lambda>w d.
     if ob_event rec \<in> ob_event ` set (outbox_rows d) then Inl (Fault ''unique index event_id'')
     else Inr ((), d\<lparr>outbox_rows := outbox_rows d
            @ [rec\<lparr>ob_id := next_id ob_id (outbox_rows d), ob_created := now w, ob_updated := now w\<rparr>]\<rparr>))"

definition Claim :: "string \<Rightarrow> (world, bool) io" where
  "Claim eventID =
     bind_io (db_write ''outbox claim'' (\<lambda>w d.
        (rows_affected (in_status eventID Pending) (outbox_rows d),
         d\<lparr>outbox_rows := move_status eventID Pending Processing (now w) (outbox_rows d)\<rparr>)))
     (\<lambda>n. ret (n = 1))"

definition MarkDone :: "string \<Rightarrow> (world, unit) io" where
  "MarkDone eventID = db_write ''outbox done'' (\<lambda>w d.
     ((), d\<lparr>outbox_rows := move_status eventID Processing Done (now w) (outbox_rows d)\<rparr>))"

definition Requeue :: "string \<Rightarrow> (world, unit) io" where
  "Requeue eventID = db_write ''outbox requeue'' (\<lambda>w d.
     ((), d\<lparr>outbox_rows := move_status eventID Processing Pending (now w) (outbox_rows d)\<rparr>))"

definition PendingOlderThan :: "instant \<Rightarrow> int \<Rightarrow> (world, points_outbox list) io" where
  "PendingOlderThan before limit = ext ''outbox pending'' (gets_io (\<lambda>w.
     take (nat (if limit \<le> 0 then 200 else limit))
       (sort_key ob_id (filter (\<lambda>r. ob_status r = Pending \<and> ob_created r < before) (outbox_rows (db w))))))"

text \<open>\<open>ShopRepository.CreateTransaction\<close>: one row of the ledger of points.\<close>

definition CreateTransaction :: "points_transaction \<Rightarrow> (world, unit) io" where
  "CreateTransaction rec = db_write ''points transaction create'' (\<lambda>w d.
     ((), d\<lparr>points_transactions := points_transactions d
            @ [rec\<lparr>pt_id := next_id pt_id (points_transactions d), pt_created := now w\<rparr>]\<rparr>))"

section \<open>The applier\<close>

definition NewPointsOutboxApplier :: "int \<Rightarrow> nat" where
  "NewPointsOutboxApplier maxConcurrency = nat (if maxConcurrency \<le> 0 then 64 else maxConcurrency)"

definition tryApply :: "string \<Rightarrow> string \<Rightarrow> int \<Rightarrow> (world, bool) io" where
  "tryApply eventID userID delta =
     bind_io (attempt (Claim eventID)) (\<lambda>c.
       if c \<noteq> Inr True then ret False
       else bind_io (attempt (UpdatePoints userID delta)) (\<lambda>r.
         case r of
           Inl e \<Rightarrow> then_io (best_effort (Requeue eventID)) (ret False)
         | Inr _ \<Rightarrow> then_io (best_effort (MarkDone eventID)) (ret True)))"

definition publish_adjust :: "points_outbox \<Rightarrow> (world, unit) io" where
  "publish_adjust rec =
     bind_io (gets_io publisher_on) (\<lambda>on. when_io on (best_effort (publish (PointsAdjust rec))))"

definition is_apply_task :: "bg_task \<Rightarrow> bool" where
  "is_apply_task t = (case t of BgApplyOutbox _ \<Rightarrow> True | _ \<Rightarrow> False)"

text \<open>A worker starts when fewer than \<open>outbox_slots\<close> are running; otherwise the event is published.\<close>

definition ApplyAsync :: "points_outbox option \<Rightarrow> (world, unit) io" where
  "ApplyAsync rec = (case rec of
      None \<Rightarrow> ret ()
    | Some r \<Rightarrow>
        bind_io (gets_io (\<lambda>w. length (filter is_apply_task (background w)) < outbox_slots w)) (\<lambda>free.
          if free then spawn (BgApplyOutbox r) else publish_adjust r))"

definition run_apply_task :: "points_outbox \<Rightarrow> (world, unit) io" where
  "run_apply_task r =
     bind_io (tryApply (ob_event r) (ob_user r) (ob_delta r)) (\<lambda>ok.
       if ok then ret () else publish_adjust r)"

definition apply_row :: "points_outbox \<Rightarrow> (world, unit) io" where
  "apply_row r = then_io (tryApply (ob_event r) (ob_user r) (ob_delta r)) (ret ())"

text \<open>The consumer: a message whose payload does not decode is an error.\<close>

definition ApplyPointsAdjust :: "message \<Rightarrow> (world, unit) io" where
  "ApplyPointsAdjust msg = (case msg of
      PointsAdjust r \<Rightarrow> apply_row r
    | _ \<Rightarrow> throw (Sentinel ''decode payload''))"

definition relayOnce :: "duration \<Rightarrow> (world, unit) io" where
  "relayOnce grace =
     bind_io time_now (\<lambda>t.
     bind_io (attempt (PendingOlderThan (t - grace) 200)) (\<lambda>r.
       case r of
         Inl e \<Rightarrow> ret ()
       | Inr rows \<Rightarrow> for_io rows apply_row))"

section \<open>What the table operations do\<close>

lemma Claim_cases:
  assumes "Claim ev w = (r, w')"
  shows "users w' = users w \<and> now w' = now w \<and>
    ((\<exists>e. r = Inl e) \<and> db w' = db w \<or>
     r = Inr (rows_affected (in_status ev Pending) (outbox_rows (db w)) = 1) \<and>
     db w' = (db w)\<lparr>outbox_rows := move_status ev Pending Processing (now w) (outbox_rows (db w))\<rparr>)"
  using assms by (auto simp: Claim_def db_write_def ext_def bind_io_def ret_def split: list.splits if_splits)

lemma MarkDone_cases:
  assumes "MarkDone ev w = (r, w')"
  shows "users w' = users w \<and> (db w' = db w \<or>
     db w' = (db w)\<lparr>outbox_rows := move_status ev Processing Done (now w) (outbox_rows (db w))\<rparr>)"
  using assms by (auto simp: MarkDone_def db_write_def ext_def split: list.splits if_splits)

lemma Requeue_cases:
  assumes "Requeue ev w = (r, w')"
  shows "users w' = users w \<and> (db w' = db w \<or>
     db w' = (db w)\<lparr>outbox_rows := move_status ev Processing Pending (now w) (outbox_rows (db w))\<rparr>)"
  using assms by (auto simp: Requeue_def db_write_def ext_def split: list.splits if_splits)

lemma Append_cases:
  assumes "AppendOutboxInTx rec w = (r, w')"
  shows "users w' = users w \<and> (db w' = db w \<or>
     ob_event rec \<notin> ob_event ` set (outbox_rows (db w)) \<and>
     db w' = (db w)\<lparr>outbox_rows := outbox_rows (db w)
        @ [rec\<lparr>ob_id := next_id ob_id (outbox_rows (db w)), ob_created := now w, ob_updated := now w\<rparr>]\<rparr>)"
  using assms by (auto simp: AppendOutboxInTx_def db_try_def ext_def split: list.splits if_splits)

lemma CreateTransaction_ok:
  assumes "CreateTransaction pt w = (Inr x, w')"
  shows "now w' = now w \<and> db w' = (db w)\<lparr>points_transactions := points_transactions (db w)
         @ [pt\<lparr>pt_id := next_id pt_id (points_transactions (db w)), pt_created := now w\<rparr>]\<rparr>"
  using assms by (auto simp: CreateTransaction_def db_write_def ext_def split: list.splits if_splits)

lemma AppendOutbox_ok:
  assumes "AppendOutboxInTx ob w = (Inr x, w')"
  shows "ob_event ob \<notin> ob_event ` set (outbox_rows (db w)) \<and>
    db w' = (db w)\<lparr>outbox_rows := outbox_rows (db w)
         @ [ob\<lparr>ob_id := next_id ob_id (outbox_rows (db w)), ob_created := now w, ob_updated := now w\<rparr>]\<rparr>"
  using assms by (auto simp: AppendOutboxInTx_def db_try_def ext_def split: list.splits if_splits)

lemma move_status_events [simp]: "map ob_event (move_status ev a b t rows) = map ob_event rows"
  by (simp add: move_status_def map_update_where)

lemma move_status_mem:
  "r \<in> set (move_status ev a b t rows) \<longleftrightarrow>
     (\<exists>r0 \<in> set rows. if in_status ev a r0 then r = r0\<lparr>ob_status := b, ob_updated := t\<rparr> else r = r0)"
  by (auto simp: move_status_def set_update_where)

section \<open>Competing workers\<close>

text \<open>Where a worker is inside \<open>tryApply\<close>; the ledger records every payment that was made.\<close>

datatype worker = Resting | Claimed string string int | Paid string | Unpaid string

record outbox_state =
  ox_world :: world
  ox_worker :: "nat \<Rightarrow> worker"
  ox_ledger :: "(string \<times> string \<times> int) list"

definition advance :: "nat \<Rightarrow> worker \<Rightarrow> world \<Rightarrow> outbox_state \<Rightarrow> outbox_state" where
  "advance p pc w s = s\<lparr>ox_world := w, ox_worker := (ox_worker s)(p := pc)\<rparr>"

definition known_event :: "string \<Rightarrow> string \<Rightarrow> int \<Rightarrow> world \<Rightarrow> bool" where
  "known_event ev u d w \<longleftrightarrow> (\<exists>r \<in> set (outbox_rows (db w)). ob_event r = ev \<and> ob_user r = u \<and> ob_delta r = d)"

definition account :: "user \<Rightarrow> string \<times> int" where
  "account u = (us_id u, us_points u)"

inductive outbox_step :: "outbox_state \<Rightarrow> outbox_state \<Rightarrow> bool" where
  claim: "ox_worker s p = Resting \<Longrightarrow> known_event ev u d (ox_world s) \<Longrightarrow> Claim ev (ox_world s) = (r, w) \<Longrightarrow>
     outbox_step s (advance p (if r = Inr True then Claimed ev u d else Resting) w s)"
| pay: "ox_worker s p = Claimed ev u d \<Longrightarrow> UpdatePoints u d (ox_world s) = (Inr x, w) \<Longrightarrow>
     outbox_step s ((advance p (Paid ev) w s)\<lparr>ox_ledger := ox_ledger s @ [(ev, u, d)]\<rparr>)"
| refuse: "ox_worker s p = Claimed ev u d \<Longrightarrow> UpdatePoints u d (ox_world s) = (Inl e, w) \<Longrightarrow>
     outbox_step s (advance p (Unpaid ev) w s)"
| finish: "ox_worker s p = Paid ev \<Longrightarrow> MarkDone ev (ox_world s) = (r, w) \<Longrightarrow>
     outbox_step s (advance p Resting w s)"
| requeue: "ox_worker s p = Unpaid ev \<Longrightarrow> Requeue ev (ox_world s) = (r, w) \<Longrightarrow>
     outbox_step s (advance p Resting w s)"
| crash: "outbox_step s (advance p Resting (ox_world s) s)"
| append: "AppendOutboxInTx rec (ox_world s) = (r, w) \<Longrightarrow> ob_status rec = Pending \<Longrightarrow>
     outbox_step s (s\<lparr>ox_world := w\<rparr>)"
| other: "outbox_rows (db w) = outbox_rows (db (ox_world s)) \<Longrightarrow>
     map account (users w) = map account (users (ox_world s)) \<Longrightarrow> outbox_step s (s\<lparr>ox_world := w\<rparr>)"

definition outbox_start :: "user list \<Rightarrow> outbox_state \<Rightarrow> bool" where
  "outbox_start us s \<longleftrightarrow> users (ox_world s) = us \<and> outbox_rows (db (ox_world s)) = []
     \<and> (\<forall>p. ox_worker s p = Resting) \<and> ox_ledger s = []"

inductive outbox_reachable :: "user list \<Rightarrow> outbox_state \<Rightarrow> bool" for us :: "user list" where
  start: "outbox_start us s \<Longrightarrow> outbox_reachable us s"
| step: "outbox_reachable us s \<Longrightarrow> outbox_step s s' \<Longrightarrow> outbox_reachable us s'"

definition paid_to :: "(string \<times> string \<times> int) list \<Rightarrow> string \<Rightarrow> int" where
  "paid_to L u = (\<Sum>(ev, v, d) \<leftarrow> L. if v = u then d else 0)"

section \<open>The invariant\<close>

definition holds_event :: "worker \<Rightarrow> string \<Rightarrow> bool" where
  "holds_event pc ev = (case pc of Resting \<Rightarrow> False | Claimed e _ _ \<Rightarrow> e = ev | Paid e \<Rightarrow> e = ev | Unpaid e \<Rightarrow> e = ev)"

text \<open>The table read as a map from event ids to status, user and amount.\<close>

definition row_of :: "points_outbox list \<Rightarrow> string \<rightharpoonup> outbox_status \<times> string \<times> int" where
  "row_of rows = map_of (map (\<lambda>r. (ob_event r, (ob_status r, ob_user r, ob_delta r))) rows)"

lemma row_of_move:
  "row_of (move_status ev a b t rows) =
     (row_of rows)(ev := map_option (\<lambda>(st, x). (if st = a then b else st, x)) (row_of rows ev))"
  by (induction rows) (auto simp: row_of_def move_status_def update_where_def in_status_def fun_eq_iff)

lemma row_of_append:
  "ob_event x \<notin> ob_event ` set rows \<Longrightarrow>
     row_of (rows @ [x]) = (row_of rows)(ob_event x \<mapsto> (ob_status x, ob_user x, ob_delta x))"
  by (induction rows) (auto simp: row_of_def fun_eq_iff)

lemma row_of_mem:
  assumes "distinct (map ob_event rows)" and "r \<in> set rows"
  shows "row_of rows (ob_event r) = Some (ob_status r, ob_user r, ob_delta r)"
  unfolding row_of_def using assms by (intro map_of_is_SomeI) (auto simp: comp_def)

lemma row_of_None: "row_of rows ev = None \<longleftrightarrow> ev \<notin> ob_event ` set rows"
  by (auto simp: row_of_def map_of_eq_None_iff image_image)

lemma claimed_one:
  assumes "distinct (map ob_event rows)" and "rows_affected (in_status ev Pending) rows = 1"
  shows "\<exists>u d. row_of rows ev = Some (Pending, u, d)"
proof -
  obtain r where "r \<in> set rows" and "in_status ev Pending r"
    using assms(2) rows_affected_pos [of "in_status ev Pending" rows] by auto
  then show ?thesis using row_of_mem [OF assms(1), of r] by (simp add: in_status_def)
qed

lemma move_nothing:
  assumes "distinct (map ob_event rows)" and "rows_affected (in_status ev Pending) rows \<noteq> 1"
  shows "move_status ev Pending st t rows = rows"
proof -
  have "rows_affected (in_status ev Pending) rows \<le> 1"
  proof -
    have "distinct (map ob_event (filter (in_status ev Pending) rows))"
      using assms(1) by (simp add: distinct_map_filter)
    then have "card (set (map ob_event (filter (in_status ev Pending) rows))) = rows_affected (in_status ev Pending) rows"
      by (metis distinct_card length_map rows_affected_def)
    moreover have "set (map ob_event (filter (in_status ev Pending) rows)) \<subseteq> {ev}" by (auto simp: in_status_def)
    ultimately show ?thesis by (metis card_mono finite.emptyI finite.insertI card.empty card.insert empty_iff One_nat_def)
  qed
  with assms(2) have "rows_affected (in_status ev Pending) rows = 0" by simp
  then show ?thesis unfolding move_status_def by (intro update_where_none) (simp add: rows_affected_0)
qed

lemma same_event_same_row:
  assumes "distinct (map ob_event rows)" and "r \<in> set rows" "r' \<in> set rows" and "ob_event r = ob_event r'"
  shows "r = r'"
  using assms by (auto simp: distinct_map dest: inj_onD)

lemma known_row:
  "distinct (map ob_event (outbox_rows (db w))) \<Longrightarrow> known_event ev u d w \<Longrightarrow>
     \<exists>st. row_of (outbox_rows (db w)) ev = Some (st, u, d)"
  by (auto simp: known_event_def row_of_mem)

text \<open>
  A worker that holds an event is the only one and the event's row is being processed; a paid
  event is never pending again and only the worker that paid it may still hold it.
\<close>

definition held_ok :: "(string \<rightharpoonup> outbox_status \<times> string \<times> int) \<Rightarrow> (nat \<Rightarrow> worker) \<Rightarrow> bool" where
  "held_ok M W \<longleftrightarrow>
     (\<forall>p ev. holds_event (W p) ev \<longrightarrow> (\<exists>u d. M ev = Some (Processing, u, d))) \<and>
     (\<forall>p ev u d. W p = Claimed ev u d \<longrightarrow> M ev = Some (Processing, u, d)) \<and>
     (\<forall>p q ev. holds_event (W p) ev \<longrightarrow> holds_event (W q) ev \<longrightarrow> p = q)"

definition ledger_ok ::
  "(string \<rightharpoonup> outbox_status \<times> string \<times> int) \<Rightarrow> (nat \<Rightarrow> worker) \<Rightarrow> (string \<times> string \<times> int) list \<Rightarrow> bool" where
  "ledger_ok M W L \<longleftrightarrow>
     distinct (map fst L) \<and>
     (\<forall>ev u d. (ev, u, d) \<in> set L \<longrightarrow> (\<exists>st. M ev = Some (st, u, d) \<and> st \<noteq> Pending)) \<and>
     (\<forall>ev u d p. (ev, u, d) \<in> set L \<longrightarrow> holds_event (W p) ev \<longrightarrow> W p = Paid ev)"

definition outbox_inv :: "user list \<Rightarrow> outbox_state \<Rightarrow> bool" where
  "outbox_inv us s \<longleftrightarrow>
     distinct (map ob_event (outbox_rows (db (ox_world s)))) \<and>
     held_ok (row_of (outbox_rows (db (ox_world s)))) (ox_worker s) \<and>
     ledger_ok (row_of (outbox_rows (db (ox_world s)))) (ox_worker s) (ox_ledger s) \<and>
     map account (users (ox_world s)) =
       map (\<lambda>u. (us_id u, us_points u + paid_to (ox_ledger s) (us_id u))) us"

lemma holds_simps [simp]:
  "\<not> holds_event Resting ev" "holds_event (Claimed e u d) ev \<longleftrightarrow> e = ev"
  "holds_event (Paid e) ev \<longleftrightarrow> e = ev" "holds_event (Unpaid e) ev \<longleftrightarrow> e = ev"
  by (simp_all add: holds_event_def)

lemma held_claim:
  assumes "held_ok M W" and "M ev = Some (Pending, u, d)"
  shows "held_ok (M(ev \<mapsto> (Processing, u, d))) (W(p := Claimed ev u d))"
  using assms unfolding held_ok_def by (auto split: if_splits) (metis option.inject prod.inject outbox_status.distinct)+

lemma ledger_claim:
  assumes "ledger_ok M W L" and "M ev = Some (Pending, u, d)"
  shows "ledger_ok (M(ev \<mapsto> (Processing, u, d))) (W(p := Claimed ev u d)) L"
  using assms unfolding ledger_ok_def by fastforce

lemma held_keep:
  assumes "held_ok M W" and "W p = pc" and "\<And>ev. holds_event pc' ev \<Longrightarrow> holds_event pc ev"
    and "\<And>ev u d. pc' \<noteq> Claimed ev u d"
  shows "held_ok M (W(p := pc'))"
  using assms unfolding held_ok_def by (auto split: if_splits) metis+

lemma claimed_not_in_ledger:
  assumes "ledger_ok M W L" and "W p = Claimed ev u d"
  shows "ev \<notin> fst ` set L"
proof
  assume "ev \<in> fst ` set L"
  then obtain u' d' where "(ev, u', d') \<in> set L" by auto
  then have "W p = Paid ev" using assms unfolding ledger_ok_def by (metis holds_simps(2))
  then show False using assms(2) by simp
qed

lemma ledger_pay:
  assumes "held_ok M W" and "ledger_ok M W L" and "W p = Claimed ev u d"
  shows "ledger_ok M (W(p := Paid ev)) (L @ [(ev, u, d)])"
proof -
  have M: "M ev = Some (Processing, u, d)" using assms(1,3) by (auto simp: held_ok_def)
  have new: "ev \<notin> fst ` set L" using assms(2,3) by (rule claimed_not_in_ledger)
  show ?thesis
    using assms M new unfolding ledger_ok_def held_ok_def
    by (auto split: if_splits) (metis holds_simps(2))+
qed

lemma ledger_rest: "ledger_ok M W L \<Longrightarrow> ledger_ok M (W(p := Resting)) L"
  by (auto simp: ledger_ok_def)

lemma ledger_refuse:
  assumes "ledger_ok M W L" and "W p = Claimed ev u d"
  shows "ledger_ok M (W(p := Unpaid ev)) L"
proof -
  have "ev \<notin> fst ` set L" using assms by (rule claimed_not_in_ledger)
  then show ?thesis using assms(1) unfolding ledger_ok_def by (auto split: if_splits) (metis fst_conv image_eqI)
qed

lemma held_move:
  assumes "held_ok M W" and "holds_event (W p) ev" and "M ev = Some (Processing, x)"
  shows "held_ok (M(ev \<mapsto> (st, x))) (W(p := Resting))"
proof -
  have alone: "\<not> holds_event (W q) ev" if "q \<noteq> p" for q
    using assms(1,2) that by (auto simp: held_ok_def)
  have "\<exists>u d. (M(ev \<mapsto> (st, x))) e = Some (Processing, u, d)" if "holds_event ((W(p := Resting)) q) e" for q e
    using that alone assms(1) by (auto simp: held_ok_def split: if_splits)
  moreover have "(M(ev \<mapsto> (st, x))) e = Some (Processing, u, d)" if "(W(p := Resting)) q = Claimed e u d" for q e u d
    using that alone [of q] assms(1) by (auto simp: held_ok_def split: if_splits)
  moreover have "q = q'" if "holds_event ((W(p := Resting)) q) e" "holds_event ((W(p := Resting)) q') e" for q q' e
    using that assms(1) by (auto simp: held_ok_def split: if_splits)
  ultimately show ?thesis unfolding held_ok_def by blast
qed

lemma ledger_move:
  assumes "ledger_ok M W L" and "M ev = Some (Processing, x)" and "st = Pending \<Longrightarrow> ev \<notin> fst ` set L"
  shows "ledger_ok (M(ev \<mapsto> (st, x))) (W(p := Resting)) L"
proof -
  have "\<exists>st'. (M(ev \<mapsto> (st, x))) e = Some (st', u, d) \<and> st' \<noteq> Pending" if "(e, u, d) \<in> set L" for e u d
  proof -
    have "\<exists>st'. M e = Some (st', u, d) \<and> st' \<noteq> Pending" using that assms(1) by (auto simp: ledger_ok_def)
    then show ?thesis using assms(2,3) that by (cases "e = ev") force+
  qed
  then show ?thesis using assms(1) by (auto simp: ledger_ok_def split: if_splits)
qed

lemma unpaid_not_in_ledger:
  assumes "ledger_ok M W L" and "W p = Unpaid ev"
  shows "ev \<notin> fst ` set L"
proof
  assume "ev \<in> fst ` set L"
  then obtain u d where "(ev, u, d) \<in> set L" by auto
  then have "W p = Paid ev" using assms unfolding ledger_ok_def by (metis holds_simps(4))
  then show False using assms(2) by simp
qed

lemma held_new: "held_ok M W \<Longrightarrow> M ev = None \<Longrightarrow> held_ok (M(ev \<mapsto> x)) W"
  by (auto simp: held_ok_def) (metis option.distinct(1))+

lemma ledger_new: "ledger_ok M W L \<Longrightarrow> M ev = None \<Longrightarrow> ledger_ok (M(ev \<mapsto> x)) W L"
  by (auto simp: ledger_ok_def) (metis option.distinct(1))+

lemma paid_to_append [simp]: "paid_to (L @ [(ev, v, d)]) u = paid_to L u + (if v = u then d else 0)"
  by (simp add: paid_to_def)

lemma account_pay:
  assumes "distinct (map us_id xs)" and "\<exists>r \<in> set xs. payable u d r"
  shows "map account (update_where (payable u d) (add_points d) xs) =
    map (\<lambda>(i, b). (i, if i = u then b + d else b)) (map account xs)"
proof -
  have "payable u d r \<longleftrightarrow> us_id r = u" if "r \<in> set xs" for r
    using assms that by (auto simp: payable_def distinct_map dest: inj_onD)
  then show ?thesis by (auto simp: update_where_def account_def add_points_def)
qed

lemma outbox_inv_step:
  assumes us: "distinct (map us_id us)" and "outbox_inv us s" and "outbox_step s s'"
  shows "outbox_inv us s'"
proof -
  let ?R = "outbox_rows (db (ox_world s))"
  have inv: "distinct (map ob_event ?R)" "held_ok (row_of ?R) (ox_worker s)"
    "ledger_ok (row_of ?R) (ox_worker s) (ox_ledger s)"
    "map account (users (ox_world s)) = map (\<lambda>u. (us_id u, us_points u + paid_to (ox_ledger s) (us_id u))) us"
    using assms(2) by (auto simp: outbox_inv_def)
  have held: "\<exists>x. row_of ?R ev = Some (Processing, x)" if "holds_event (ox_worker s p) ev" for p ev
    using inv(2) that by (auto simp: held_ok_def)
  show ?thesis
    using assms(3)
  proof cases
    case (claim p ev u d r w)
    note c = Claim_cases [OF claim(4)]
    have self: "(ox_worker s)(p := Resting) = ox_worker s" using claim(2) by auto
    show ?thesis
    proof (cases "r = Inr True")
      case True
      then have one: "rows_affected (in_status ev Pending) ?R = 1"
        and rows: "outbox_rows (db w) = move_status ev Pending Processing (now (ox_world s)) ?R"
        using c by auto
      obtain u' d' where m: "row_of ?R ev = Some (Pending, u', d')" using claimed_one [OF inv(1) one] by blast
      then have ud: "u' = u" "d' = d" using known_row [OF inv(1) claim(3)] by auto
      show ?thesis
        using inv m held_claim [OF inv(2)] ledger_claim [OF inv(3)] c rows True
        by (simp add: outbox_inv_def claim(1) advance_def row_of_move ud)
    next
      case False
      with c have "outbox_rows (db w) = ?R \<or>
         outbox_rows (db w) = move_status ev Pending Processing (now (ox_world s)) ?R
           \<and> rows_affected (in_status ev Pending) ?R \<noteq> 1" by auto
      then have "outbox_rows (db w) = ?R"
        using move_nothing [OF inv(1)] by metis
      then show ?thesis using inv c False by (simp add: outbox_inv_def claim(1) advance_def self)
    qed
  next
    case (pay p ev u d x w)
    have rows: "outbox_rows (db w) = ?R" using UpdatePoints_ok(3) [OF pay(3)] by simp
    have "held_ok (row_of ?R) ((ox_worker s)(p := Paid ev))"
      by (rule held_keep [OF inv(2) pay(2)]) auto
    moreover have "ledger_ok (row_of ?R) ((ox_worker s)(p := Paid ev)) (ox_ledger s @ [(ev, u, d)])"
      using inv(2,3) pay(2) by (rule ledger_pay)
    moreover have "map account (users w) =
        map (\<lambda>v. (us_id v, us_points v + paid_to (ox_ledger s @ [(ev, u, d)]) (us_id v))) us"
    proof -
      have ids: "map us_id (users (ox_world s)) = map us_id us"
        using arg_cong [OF inv(4), of "map fst"] by (simp add: account_def comp_def)
      show ?thesis
        using us inv(4) account_pay [of "users (ox_world s)" u d] UpdatePoints_ok(1,2) [OF pay(3)]
        by (auto simp: ids)
    qed
    ultimately show ?thesis using inv(1) by (simp add: outbox_inv_def pay(1) advance_def rows)
  next
    case (refuse p ev u d e w)
    have "held_ok (row_of ?R) ((ox_worker s)(p := Unpaid ev))"
      by (rule held_keep [OF inv(2) refuse(2)]) auto
    then show ?thesis
      using inv ledger_refuse [OF inv(3) refuse(2)] UpdatePoints_fail [OF refuse(3)]
      by (simp add: outbox_inv_def refuse(1) advance_def)
  next
    case (finish p ev r w)
    obtain x where x: "row_of ?R ev = Some (Processing, x)" using held [of p ev] finish(2) by auto
    have "held_ok (row_of ?R) ((ox_worker s)(p := Resting))"
      by (rule held_keep [OF inv(2) finish(2)]) auto
    then show ?thesis
      using inv MarkDone_cases [OF finish(3)] held_move [OF inv(2) _ x, of p Done] ledger_move [OF inv(3) x, of Done p]
        finish(2) ledger_rest [OF inv(3)] x
      by (auto simp: outbox_inv_def finish(1) advance_def row_of_move)
  next
    case (requeue p ev r w)
    obtain x where x: "row_of ?R ev = Some (Processing, x)" using held [of p ev] requeue(2) by auto
    have "held_ok (row_of ?R) ((ox_worker s)(p := Resting))"
      by (rule held_keep [OF inv(2) requeue(2)]) auto
    then show ?thesis
      using inv Requeue_cases [OF requeue(3)] held_move [OF inv(2) _ x, of p Pending]
        ledger_move [OF inv(3) x, of Pending p] unpaid_not_in_ledger [OF inv(3) requeue(2)]
        requeue(2) ledger_rest [OF inv(3)] x
      by (auto simp: outbox_inv_def requeue(1) advance_def row_of_move)
  next
    case (crash p)
    have "held_ok (row_of ?R) ((ox_worker s)(p := Resting))"
      by (rule held_keep [OF inv(2) refl]) auto
    then show ?thesis
      using inv ledger_rest [OF inv(3)] by (simp add: outbox_inv_def crash(1) advance_def)
  next
    case (append rec r w)
    show ?thesis
    proof (cases "db w = db (ox_world s)")
      case True
      then show ?thesis using inv Append_cases [OF append(2)] by (simp add: outbox_inv_def append(1))
    next
      case False
      then obtain x where x: "outbox_rows (db w) = ?R @ [x]" "ob_event x \<notin> ob_event ` set ?R"
        using Append_cases [OF append(2)] by auto
      then have "row_of ?R (ob_event x) = None" by (simp add: row_of_None)
      then show ?thesis
        using inv x Append_cases [OF append(2)] held_new [OF inv(2)] ledger_new [OF inv(3)]
        by (auto simp: outbox_inv_def append(1) row_of_append)
    qed
  next
    case (other w)
    then show ?thesis using inv by (simp add: outbox_inv_def)
  qed
qed

text \<open>C2. Every points adjustment reaches the user's balance at most once, whatever the workers,
  consumers and relays of all processes do and wherever calls fail or processes die: an event
  is paid at most once, with the amount of its row, and each balance is the initial one plus
  what was paid.\<close>

theorem outbox_pays_at_most_once:
  assumes "outbox_reachable us s" and "distinct (map us_id us)"
  shows "distinct (map fst (ox_ledger s)) \<and>
    map account (users (ox_world s)) =
      map (\<lambda>u. (us_id u, us_points u + paid_to (ox_ledger s) (us_id u))) us \<and>
    (\<forall>(ev, u, d) \<in> set (ox_ledger s). known_event ev u d (ox_world s))"
proof -
  have "outbox_inv us s"
    using assms
  proof (induction rule: outbox_reachable.induct)
    case (start s)
    then show ?case
      by (auto simp: outbox_inv_def outbox_start_def held_ok_def ledger_ok_def paid_to_def account_def)
  next
    case (step s s')
    then show ?case using outbox_inv_step by blast
  qed
  moreover have "known_event ev u d (ox_world s)"
    if "row_of (outbox_rows (db (ox_world s))) ev = Some (st, u, d)" for ev st u d
    using map_of_SomeD [OF that [unfolded row_of_def]] by (auto simp: known_event_def)
  ultimately show ?thesis unfolding outbox_inv_def ledger_ok_def by fast
qed

section \<open>The applier takes these steps\<close>

text \<open>A run of \<open>tryApply\<close> for a row of the table, with whatever calls fail, is a sequence of
  steps of a worker that rests before and after; it reports success exactly when it paid.\<close>

theorem tryApply_refines_steps:
  assumes "ox_worker s p = Resting" and "known_event ev u d (ox_world s)"
    and "tryApply ev u d (ox_world s) = (r, w)"
  shows "\<exists>s'. outbox_step\<^sup>*\<^sup>* s s' \<and> ox_world s' = w \<and> ox_worker s' = ox_worker s
    \<and> ox_ledger s' = ox_ledger s @ (if r = Inr True then [(ev, u, d)] else [])"
proof -
  obtain c w1 where c: "Claim ev (ox_world s) = (c, w1)" by fastforce
  let ?s1 = "advance p (if c = Inr True then Claimed ev u d else Resting) w1 s"
  have s1: "outbox_step s ?s1" using assms(1,2) c by (rule outbox_step.claim)
  have rest: "(ox_worker s)(p := Resting) = ox_worker s" using assms(1) by auto
  show ?thesis
  proof (cases "c = Inr True")
    case False
    then have "w = w1" "r = Inr False"
      using assms(3) c by (auto simp: tryApply_def bind_io_def attempt_def ret_def)
    then show ?thesis using s1 False by (intro exI [of _ ?s1]) (auto simp: advance_def rest)
  next
    case True
    obtain x w2 where x: "UpdatePoints u d w1 = (x, w2)" by fastforce
    have at: "ox_worker ?s1 p = Claimed ev u d" "ox_world ?s1 = w1" using True by (simp_all add: advance_def)
    show ?thesis
    proof (cases x)
      case (Inl e)
      obtain y w3 where y: "Requeue ev w2 = (y, w3)" by fastforce
      let ?s2 = "advance p (Unpaid ev) w2 ?s1"
      have s2: "outbox_step ?s1 ?s2" by (rule outbox_step.refuse) (use at x Inl in auto)
      have s3: "outbox_step ?s2 (advance p Resting w3 ?s2)"
        by (rule outbox_step.requeue) (use y in \<open>auto simp: advance_def\<close>)
      have "w = w3" "r = Inr False"
        using assms(3) c x y True Inl
        by (auto simp: tryApply_def bind_io_def attempt_def ret_def then_io_def best_effort_def)
      then show ?thesis using s1 s2 s3
        by (intro exI [of _ "advance p Resting w3 ?s2"]) (auto simp: advance_def rest intro: rtranclp.intros)
    next
      case (Inr z)
      obtain y w3 where y: "MarkDone ev w2 = (y, w3)" by fastforce
      let ?s2 = "(advance p (Paid ev) w2 ?s1)\<lparr>ox_ledger := ox_ledger ?s1 @ [(ev, u, d)]\<rparr>"
      have s2: "outbox_step ?s1 ?s2" by (rule outbox_step.pay) (use at x Inr in auto)
      have s3: "outbox_step ?s2 (advance p Resting w3 ?s2)"
        by (rule outbox_step.finish) (use y in \<open>auto simp: advance_def\<close>)
      have "w = w3" "r = Inr True"
        using assms(3) c x y True Inr
        by (auto simp: tryApply_def bind_io_def attempt_def ret_def then_io_def best_effort_def)
      then show ?thesis using s1 s2 s3
        by (intro exI [of _ "advance p Resting w3 ?s2"]) (auto simp: advance_def rest intro: rtranclp.intros)
    qed
  qed
qed

definition sample_event :: points_outbox where
  "sample_event = \<lparr>ob_id = 0, ob_user = ''u1'', ob_delta = 7, ob_ref_type = ''idle'', ob_ref_id = ''1'',
     ob_event = ''pts:idle:1'', ob_status = Pending, ob_created = 0, ob_updated = 0\<rparr>"

definition sample_start :: outbox_state where
  "sample_start = \<lparr>ox_world = sample_users, ox_worker = (\<lambda>_. Resting), ox_ledger = []\<rparr>"

definition sample_appended :: outbox_state where
  "sample_appended = sample_start\<lparr>ox_world := snd (AppendOutboxInTx sample_event sample_users)\<rparr>"

lemma sample_appended_reachable: "outbox_reachable [sample_user] sample_appended"
proof (rule outbox_reachable.step)
  show "outbox_reachable [sample_user] sample_start"
    by (rule outbox_reachable.start)
      (simp add: outbox_start_def sample_start_def sample_users_def empty_world_def empty_db_def)
  show "outbox_step sample_start sample_appended"
    unfolding sample_appended_def
    by (rule outbox_step.append [where rec = sample_event])
      (simp_all add: sample_start_def sample_event_def prod_eq_iff)
qed

lemma sample_event_known: "known_event ''pts:idle:1'' ''u1'' 7 (ox_world sample_appended)"
  by (simp add: known_event_def sample_appended_def AppendOutboxInTx_def db_try_def ext_def sample_users_def
      empty_world_def empty_db_def sample_event_def)

lemma reachable_steps: "outbox_step\<^sup>*\<^sup>* s s' \<Longrightarrow> outbox_reachable us s \<Longrightarrow> outbox_reachable us s'"
  by (induction rule: rtranclp_induct) (auto intro: outbox_reachable.step)

lemma sample_apply_result:
  "fst (tryApply ''pts:idle:1'' ''u1'' 7 (ox_world sample_appended)) = Inr True"
  by (simp add: tryApply_def sample_appended_def AppendOutboxInTx_def db_try_def io_defs sample_users_def
      empty_world_def empty_db_def sample_event_def Claim_def db_write_def rows_affected_def in_status_def
      UpdatePoints_def user_write_def payable_def sample_user_def invalidateUser_def Let_def)

theorem tryApply_refines_steps_witness:
  "\<exists>s'. outbox_step\<^sup>*\<^sup>* sample_appended s' \<and>
     ox_world s' = snd (tryApply ''pts:idle:1'' ''u1'' 7 (ox_world sample_appended)) \<and>
     ox_worker s' = ox_worker sample_appended \<and>
     ox_ledger s' = ox_ledger sample_appended @
       (if fst (tryApply ''pts:idle:1'' ''u1'' 7 (ox_world sample_appended)) = Inr True
        then [(''pts:idle:1'', ''u1'', 7)] else [])"
  by (rule tryApply_refines_steps [where p = 0, OF _ sample_event_known prod.collapse [symmetric]])
    (simp add: sample_appended_def sample_start_def)

text \<open>The state after the worker's claim and payment.\<close>

definition sample_paid :: outbox_state where
  "sample_paid =
     (let w1 = snd (Claim ''pts:idle:1'' (ox_world sample_appended));
          s1 = advance 0 (Claimed ''pts:idle:1'' ''u1'' 7) w1 sample_appended
      in (advance 0 (Paid ''pts:idle:1'') (snd (UpdatePoints ''u1'' 7 w1)) s1)
           \<lparr>ox_ledger := [(''pts:idle:1'', ''u1'', 7)]\<rparr>)"

lemma sample_paid_results:
  "fst (Claim ''pts:idle:1'' (ox_world sample_appended)) = Inr True"
  "fst (UpdatePoints ''u1'' 7 (snd (Claim ''pts:idle:1'' (ox_world sample_appended)))) = Inr ()"
  by (simp_all add: sample_appended_def AppendOutboxInTx_def db_try_def io_defs sample_users_def
      empty_world_def empty_db_def sample_event_def Claim_def db_write_def rows_affected_def in_status_def
      UpdatePoints_def user_write_def payable_def sample_user_def invalidateUser_def Let_def)

lemma sample_paid_reachable: "outbox_reachable [sample_user] sample_paid"
proof -
  let ?w1 = "snd (Claim ''pts:idle:1'' (ox_world sample_appended))"
  let ?s1 = "advance 0 (Claimed ''pts:idle:1'' ''u1'' 7) ?w1 sample_appended"
  have c: "Claim ''pts:idle:1'' (ox_world sample_appended) = (Inr True, ?w1)"
    and p: "UpdatePoints ''u1'' 7 ?w1 = (Inr (), snd (UpdatePoints ''u1'' 7 ?w1))"
    using sample_paid_results by (simp_all add: prod_eq_iff)
  have 1: "outbox_step sample_appended ?s1"
    using outbox_step.claim [OF _ sample_event_known c, of 0]
    by (simp add: sample_appended_def sample_start_def)
  have "outbox_step ?s1 ((advance 0 (Paid ''pts:idle:1'') (snd (UpdatePoints ''u1'' 7 ?w1)) ?s1)
      \<lparr>ox_ledger := ox_ledger ?s1 @ [(''pts:idle:1'', ''u1'', 7)]\<rparr>)"
    by (rule outbox_step.pay) (use p in \<open>simp_all add: advance_def\<close>)
  moreover have "ox_ledger ?s1 = []" by (simp add: advance_def sample_appended_def sample_start_def)
  ultimately have 2: "outbox_step ?s1 sample_paid"
    unfolding sample_paid_def Let_def by simp
  show ?thesis
    by (rule outbox_reachable.step [OF outbox_reachable.step [OF sample_appended_reachable 1] 2])
qed

theorem outbox_pays_at_most_once_witness:
  "map account (users (ox_world sample_paid)) = [(''u1'', 12)] \<and>
   known_event ''pts:idle:1'' ''u1'' 7 (ox_world sample_paid)"
proof -
  have "ox_ledger sample_paid = [(''pts:idle:1'', ''u1'', 7)]" by (simp add: sample_paid_def Let_def)
  then show ?thesis
    using outbox_pays_at_most_once [OF sample_paid_reachable] by (simp add: sample_user_def paid_to_def)
qed

section \<open>A row left in processing\<close>

text \<open>
  The rows of an event that has no pending row are read by nobody: the applier, the consumer
  and the relay leave them exactly as they are.
\<close>

definition keeps_rows :: "string \<Rightarrow> business_db \<Rightarrow> business_db \<Rightarrow> bool" where
  "keeps_rows ev d d' \<longleftrightarrow>
     (\<forall>r \<in> set (outbox_rows d). ob_event r = ev \<longrightarrow> ob_status r \<noteq> Pending) \<longrightarrow>
     filter (\<lambda>r. ob_event r = ev) (outbox_rows d') = filter (\<lambda>r. ob_event r = ev) (outbox_rows d)"

lemma keeps_rows_trans:
  assumes "keeps_rows ev a b" and "keeps_rows ev b c"
  shows "keeps_rows ev a c"
proof -
  have "(\<forall>r \<in> set (outbox_rows x). ob_event r = ev \<longrightarrow> ob_status r \<noteq> Pending) \<longleftrightarrow>
      (\<forall>r \<in> set (filter (\<lambda>r. ob_event r = ev) (outbox_rows x)). ob_status r \<noteq> Pending)" for x by auto
  then show ?thesis using assms unfolding keeps_rows_def by metis
qed

interpretation rows_of: db_relation "keeps_rows ev" for ev
proof unfold_locales
  show "keeps_rows ev d d" for d by (simp add: keeps_rows_def)
  show "keeps_rows ev a b \<Longrightarrow> keeps_rows ev b c \<Longrightarrow> keeps_rows ev a c" for a b c
    by (rule keeps_rows_trans)
qed

lemma filter_move_other:
  "e \<noteq> ev \<Longrightarrow> filter (\<lambda>r. ob_event r = ev) (move_status e a b t rows) = filter (\<lambda>r. ob_event r = ev) rows"
  by (induction rows) (auto simp: move_status_def update_where_def in_status_def)

lemma ev_tryApply: "evolves (on_db (keeps_rows ev)) (tryApply e u d)"
proof (cases "e = ev")
  case False
  have move: "keeps_rows ev x (x\<lparr>outbox_rows := move_status e a b t (outbox_rows x)\<rparr>)" for x a b t
    using False by (simp add: keeps_rows_def filter_move_other)
  show ?thesis
    unfolding tryApply_def Claim_def MarkDone_def Requeue_def
    by (intro rows_of.ev_world rows_of.ev_user rows_of.ev_db_write) (simp_all add: move)
next
  case True
  show ?thesis
  proof (rule evolvesI)
    fix w :: world
    let ?R = "outbox_rows (db w)"
    have "db (snd (tryApply e u d w)) = db w" if none: "\<forall>r \<in> set ?R. ob_event r = e \<longrightarrow> ob_status r \<noteq> Pending"
    proof -
      obtain c w1 where c: "Claim e w = (c, w1)" by fastforce
      have "rows_affected (in_status e Pending) ?R = 0" using none by (auto simp: rows_affected_0 in_status_def)
      moreover from this have "move_status e Pending Processing t ?R = ?R" for t
        unfolding move_status_def by (intro update_where_none) (simp add: rows_affected_0)
      ultimately have "db w1 = db w \<and> c \<noteq> Inr True" using Claim_cases [OF c] by auto
      then show ?thesis using c by (simp add: tryApply_def bind_io_def attempt_def ret_def)
    qed
    then show "on_db (keeps_rows ev) w (snd (tryApply e u d w))"
      by (auto simp: on_db_def keeps_rows_def True)
  qed
qed

lemma ev_relayOnce: "evolves (on_db (keeps_rows ev)) (relayOnce grace)"
  unfolding relayOnce_def PendingOlderThan_def apply_row_def
  by (intro rows_of.ev_world ev_tryApply)

primrec relays :: "duration list \<Rightarrow> (world, unit) io" where
  "relays [] = ret ()"
| "relays (t # ts) = then_io (modify_io (\<lambda>w. w\<lparr>now := now w + t\<rparr>)) (then_io (relayOnce second) (relays ts))"

lemma ev_relays: "evolves (on_db (keeps_rows ev)) (relays ts)"
  by (induction ts) (auto intro!: rows_of.ev_world rows_of.ev_modify ev_relayOnce)

text \<open>A row that a worker left in processing, because it died between its claim and its
  requeue or because the requeue itself failed, is never taken up again: however often and
  however late the relay runs, the row stays in processing.\<close>

theorem processing_row_is_never_retried:
  assumes "r \<in> set (outbox_rows (db w))" and "ob_status r = Processing"
    and "distinct (map ob_event (outbox_rows (db w)))" and "relays ts w = (x, w')"
  shows "r \<in> set (outbox_rows (db w'))"
proof -
  have "keeps_rows (ob_event r) (db w) (db w')"
    using evolvesD [OF ev_relays assms(4)] by (simp add: on_db_def)
  moreover have "\<forall>q \<in> set (outbox_rows (db w)). ob_event q = ob_event r \<longrightarrow> ob_status q \<noteq> Pending"
    using same_event_same_row [OF assms(3)] assms(1,2) by fastforce
  ultimately have same: "filter (\<lambda>q. ob_event q = ob_event r) (outbox_rows (db w')) =
      filter (\<lambda>q. ob_event q = ob_event r) (outbox_rows (db w))"
    by (simp add: keeps_rows_def)
  have "r \<in> set (filter (\<lambda>q. ob_event q = ob_event r) (outbox_rows (db w')))"
    using assms(1) unfolding same by simp
  then show ?thesis by simp
qed

definition sample_stuck :: world where
  "sample_stuck = empty_world\<lparr>db := empty_db\<lparr>outbox_rows := [sample_event\<lparr>ob_status := Processing\<rparr>]\<rparr>,
     users := [sample_user]\<rparr>"

theorem processing_row_is_never_retried_witness:
  "sample_event\<lparr>ob_status := Processing\<rparr> \<in> set (outbox_rows (db (snd (relays [minute, hour] sample_stuck))))"
  by (rule processing_row_is_never_retried [OF _ _ _ prod.collapse [symmetric]])
    (simp_all add: sample_stuck_def)

section \<open>The relay delivers\<close>

lemma faults_fold [simp]: "faults w = [] \<Longrightarrow> faults (snd (invalidateUser u e w)) = []"
proof -
  have del: "faults (snd (cache_delete [key] v)) = [] \<and> fst (cache_delete [key] v) = Inr ()"
    if "faults v = []" for key v
    using that by (simp add: cache_delete_one)
  have "faults (snd (cache_delete keys v)) = []" if "faults v = []" for keys v
    using that
  proof (induction keys arbitrary: v)
    case Nil
    then show ?case by (simp add: cache_delete_def ret_def)
  next
    case (Cons k ks)
    have "cache_delete (k # ks) v = cache_delete ks (snd (cache_delete [k] v))"
      using del [of v k] Cons.prems
      by (simp add: cache_delete_def io_defs split: prod.splits sum.splits)
    then show ?case using Cons del by simp
  qed
  then show "faults w = [] \<Longrightarrow> ?thesis" by (simp add: invalidateUser_def io_defs Let_def)
qed

text \<open>The amounts that a list of rows adds to a user.\<close>

definition owed :: "points_outbox list \<Rightarrow> string \<Rightarrow> int" where
  "owed rs u = sum_list (map ob_delta (filter (\<lambda>r. ob_user r = u) rs))"

definition deliverable :: "world \<Rightarrow> points_outbox \<Rightarrow> bool" where
  "deliverable w r \<longleftrightarrow> 0 \<le> ob_delta r \<and> ob_user r \<in> us_id ` set (users w)"

lemma tryApply_pays:
  assumes "faults w = []" and "distinct (map ob_event (outbox_rows (db w)))" and "distinct (map us_id (users w))"
    and "row_of (outbox_rows (db w)) ev = Some (Pending, u, d)"
    and "\<exists>r \<in> set (users w). payable u d r"
  shows "\<exists>w'. tryApply ev u d w = (Inr True, w') \<and> faults w' = []
    \<and> map ob_event (outbox_rows (db w')) = map ob_event (outbox_rows (db w))
    \<and> row_of (outbox_rows (db w')) = (row_of (outbox_rows (db w)))(ev \<mapsto> (Done, u, d))
    \<and> map account (users w') = map (\<lambda>(i, b). (i, if i = u then b + d else b)) (map account (users w))"
proof -
  let ?R = "outbox_rows (db w)"
  let ?w1 = "w\<lparr>db := (db w)\<lparr>outbox_rows := move_status ev Pending Processing (now w) ?R\<rparr>\<rparr>"
  have one: "rows_affected (in_status ev Pending) ?R = 1"
  proof (rule ccontr)
    assume no: "rows_affected (in_status ev Pending) ?R \<noteq> 1"
    then have "row_of (move_status ev Pending Processing 0 ?R) ev = row_of ?R ev"
      by (simp only: move_nothing [OF assms(2) no])
    then show False using assms(4) by (simp add: row_of_move)
  qed
  have c: "Claim ev w = (Inr True, ?w1)"
    using assms(1) one by (simp add: Claim_def db_write_def bind_io_def ret_def)
  let ?w2 = "snd (invalidateUser u [] (?w1\<lparr>users := update_where (payable u d) (add_points d) (users w)\<rparr>))"
  have n: "rows_affected (payable u d) (users w) \<noteq> 0" using assms(5) by (auto simp: rows_affected_0)
  have p: "UpdatePoints u d ?w1 = (Inr (), ?w2)"
    using assms(1) n invalidateUser_ok [of u "[]" "?w1\<lparr>users := update_where (payable u d) (add_points d) (users w)\<rparr>"]
    by (simp add: UpdatePoints_def user_write_def bind_io_def prod_eq_iff)
  have f2: "faults ?w2 = []" using assms(1) by simp
  let ?w3 = "?w2\<lparr>db := (db ?w2)\<lparr>outbox_rows := move_status ev Processing Done (now ?w2) (outbox_rows (db ?w2))\<rparr>\<rparr>"
  have m: "MarkDone ev ?w2 = (Inr (), ?w3)" using f2 by (simp add: MarkDone_def db_write_def)
  have "tryApply ev u d w = (Inr True, ?w3)"
    using c p m by (simp add: tryApply_def bind_io_def attempt_def then_io_def best_effort_def ret_def)
  moreover have "row_of (outbox_rows (db ?w3)) = (row_of ?R)(ev \<mapsto> (Done, u, d))"
    using assms(4) by (simp add: row_of_move)
  moreover have "map account (users ?w3) = map (\<lambda>(i, b). (i, if i = u then b + d else b)) (map account (users w))"
    using account_pay [OF assms(3,5)] by simp
  ultimately show ?thesis using f2 by (intro exI [of _ ?w3]) simp
qed

lemma apply_row_paid:
  "tryApply (ob_event r) (ob_user r) (ob_delta r) w = (Inr True, w1) \<Longrightarrow> apply_row r w = (Inr (), w1)"
  by (simp add: apply_row_def then_io_def bind_io_def ret_def)

lemma deliver_all:
  assumes "faults w = []" and "distinct (map ob_event (outbox_rows (db w)))" and "distinct (map us_id (users w))"
    and "\<forall>u \<in> set (users w). 0 \<le> us_points u"
    and "distinct (map ob_event rs)"
    and "\<forall>r \<in> set rs. deliverable w r \<and> row_of (outbox_rows (db w)) (ob_event r) = Some (Pending, ob_user r, ob_delta r)"
    and "for_io rs apply_row w = (x, w')"
  shows "x = Inr () \<and>
    (\<forall>ev. row_of (outbox_rows (db w')) ev =
       (if ev \<in> ob_event ` set rs then map_option (\<lambda>(_, y). (Done, y)) (row_of (outbox_rows (db w)) ev)
        else row_of (outbox_rows (db w)) ev)) \<and>
    map account (users w') = map (\<lambda>u. (us_id u, us_points u + owed rs (us_id u))) (users w)"
  using assms
proof (induction rs arbitrary: w)
  case Nil
  then show ?case by (auto simp: ret_def owed_def account_def)
next
  case (Cons r rs)
  let ?u = "ob_user r" and ?d = "ob_delta r" and ?e = "ob_event r"
  have "\<exists>v \<in> set (users w). payable ?u ?d v"
    using Cons.prems(4,6) by (fastforce simp: deliverable_def payable_def)
  then obtain w1 where w1: "tryApply ?e ?u ?d w = (Inr True, w1)" "faults w1 = []"
    "map ob_event (outbox_rows (db w1)) = map ob_event (outbox_rows (db w))"
    "row_of (outbox_rows (db w1)) = (row_of (outbox_rows (db w)))(?e \<mapsto> (Done, ?u, ?d))"
    "map account (users w1) = map (\<lambda>(i, b). (i, if i = ?u then b + ?d else b)) (map account (users w))"
    using tryApply_pays [OF Cons.prems(1-3), of ?e ?u ?d] Cons.prems(6) by auto
  have acc: "map account (users w1) = map (\<lambda>v. (us_id v, if us_id v = ?u then us_points v + ?d else us_points v)) (users w)"
    using w1(5) by (simp add: account_def comp_def)
  have ids: "map us_id (users w1) = map us_id (users w)"
    using arg_cong [OF acc, of "map fst"] by (simp add: account_def comp_def)
  then have idset: "us_id ` set (users w1) = us_id ` set (users w)" by (metis list.set_map)
  have nonneg: "0 \<le> us_points v" if "v \<in> set (users w1)" for v
  proof -
    have "account v \<in> set (map account (users w1))" using that by simp
    then show ?thesis unfolding acc using Cons.prems(4,6) by (auto simp: account_def deliverable_def split: if_splits)
  qed
  have rest: "for_io rs apply_row w1 = (x, w')"
    using Cons.prems(7) apply_row_paid [OF w1(1)] by (simp add: then_io_def bind_io_def)
  have pend: "deliverable w1 q \<and> row_of (outbox_rows (db w1)) (ob_event q) = Some (Pending, ob_user q, ob_delta q)"
    if "q \<in> set rs" for q
  proof -
    have "ob_event q \<noteq> ?e" using Cons.prems(5) that by (metis distinct.simps(2) image_eqI list.set_map list.simps(9))
    then show ?thesis using Cons.prems(6) that by (simp add: deliverable_def idset w1(4))
  qed
  have IH: "x = Inr () \<and>
    (\<forall>ev. row_of (outbox_rows (db w')) ev =
       (if ev \<in> ob_event ` set rs then map_option (\<lambda>(_, y). (Done, y)) (row_of (outbox_rows (db w1)) ev)
        else row_of (outbox_rows (db w1)) ev)) \<and>
    map account (users w') = map (\<lambda>u. (us_id u, us_points u + owed rs (us_id u))) (users w1)"
    by (rule Cons.IH) (use Cons.prems(2,3,5) w1(2,3) ids nonneg pend rest in simp_all)
  have "map (\<lambda>u. (us_id u, us_points u + owed rs (us_id u))) (users w1) =
      map (\<lambda>(i, b). (i, b + owed rs i)) (map account (users w1))"
    by (simp add: account_def comp_def)
  also have "\<dots> = map (\<lambda>u. (us_id u, us_points u + owed (r # rs) (us_id u))) (users w)"
    unfolding acc by (auto simp: owed_def)
  finally have acc': "map account (users w') = map (\<lambda>u. (us_id u, us_points u + owed (r # rs) (us_id u))) (users w)"
    using IH by simp
  have "row_of (outbox_rows (db w')) ev =
       (if ev \<in> ob_event ` set (r # rs) then map_option (\<lambda>(_, y). (Done, y)) (row_of (outbox_rows (db w)) ev)
        else row_of (outbox_rows (db w)) ev)" for ev
  proof (cases "ev = ?e")
    case True
    have "ev \<notin> ob_event ` set rs" using Cons.prems(5) True by simp
    then show ?thesis using IH Cons.prems(6) True by (simp add: w1(4))
  next
    case False
    then show ?thesis using IH by (simp add: w1(4))
  qed
  with IH acc' show ?case by blast
qed

definition due :: "duration \<Rightarrow> world \<Rightarrow> points_outbox list" where
  "due grace w = filter (\<lambda>r. ob_status r = Pending \<and> ob_created r < now w - grace) (outbox_rows (db w))"

lemma owed_mset: "mset xs = mset ys \<Longrightarrow> owed xs u = owed ys u"
proof -
  assume "mset xs = mset ys"
  then have "mset (map ob_delta (filter (\<lambda>r. ob_user r = u) xs)) = mset (map ob_delta (filter (\<lambda>r. ob_user r = u) ys))"
    by simp
  then show ?thesis unfolding owed_def using sum_mset_sum_list by metis
qed

text \<open>C19. When no call fails, no balance is negative, ids of events and of users are distinct, at most 200
  rows are due (the limit of a pass) and each of them is an income (not negative) of an existing user,
  one pass of the relay marks every due row done, and each balance grows by exactly what it was owed.\<close>

theorem relay_delivers_due_rows:
  assumes "faults w = []" and "distinct (map ob_event (outbox_rows (db w)))" and "distinct (map us_id (users w))"
    and "\<forall>u \<in> set (users w). 0 \<le> us_points u"
    and "length (due grace w) \<le> 200" and "\<forall>r \<in> set (due grace w). deliverable w r"
    and "relayOnce grace w = (x, w')"
  shows "(\<forall>r \<in> set (due grace w). row_of (outbox_rows (db w')) (ob_event r) = Some (Done, ob_user r, ob_delta r)) \<and>
    map account (users w') = map (\<lambda>u. (us_id u, us_points u + owed (due grace w) (us_id u))) (users w)"
proof -
  let ?rs = "sort_key ob_id (due grace w)"
  have m: "mset ?rs = mset (due grace w)" by simp
  then have set: "set ?rs = set (due grace w)" by (metis set_mset_mset)
  have dist: "distinct (map ob_event ?rs)"
  proof -
    have "distinct (map ob_event (due grace w))" unfolding due_def using assms(2) by (rule distinct_map_filter)
    moreover have "mset (map ob_event ?rs) = mset (map ob_event (due grace w))" using m by simp
    ultimately show ?thesis by (metis mset_eq_imp_distinct_iff)
  qed
  have rows: "row_of (outbox_rows (db w)) (ob_event r) = Some (Pending, ob_user r, ob_delta r)" if "r \<in> set (due grace w)" for r
    using row_of_mem [OF assms(2), of r] that by (auto simp: due_def)
  have run: "for_io ?rs apply_row w = (x, w')"
    using assms(1,5,7)
    by (simp add: relayOnce_def PendingOlderThan_def time_now_def bind_io_def attempt_def gets_io_def due_def [symmetric])
  have "\<forall>r \<in> set ?rs. deliverable w r \<and> row_of (outbox_rows (db w)) (ob_event r) = Some (Pending, ob_user r, ob_delta r)"
    using rows assms(6) unfolding set by blast
  note all = deliver_all [OF assms(1-4) dist this run]
  show ?thesis
    using all rows owed_mset [OF m] by (simp add: set)
qed

definition sample_due :: world where
  "sample_due = empty_world\<lparr>now := hour, db := empty_db\<lparr>outbox_rows := [sample_event]\<rparr>, users := [sample_user]\<rparr>"

lemma due_sample: "due second sample_due = [sample_event]"
  by (simp add: due_def sample_due_def sample_event_def hour_def second_def empty_world_def)

theorem relay_delivers_due_rows_witness:
  "row_of (outbox_rows (db (snd (relayOnce second sample_due)))) ''pts:idle:1'' = Some (Done, ''u1'', 7) \<and>
   map account (users (snd (relayOnce second sample_due))) = [(''u1'', 12)]"
proof -
  have "(\<forall>r \<in> set (due second sample_due). row_of (outbox_rows (db (snd (relayOnce second sample_due)))) (ob_event r)
      = Some (Done, ob_user r, ob_delta r)) \<and>
    map account (users (snd (relayOnce second sample_due))) =
      map (\<lambda>u. (us_id u, us_points u + owed (due second sample_due) (us_id u))) (users sample_due)"
    by (rule relay_delivers_due_rows [OF _ _ _ _ _ _ prod.collapse [symmetric]])
      (simp_all only: due_sample, simp_all add: sample_due_def empty_world_def deliverable_def sample_event_def sample_user_def)
  then show ?thesis
    unfolding due_sample by (simp add: sample_event_def sample_due_def sample_user_def owed_def)
qed

end
