(* ===== verification/IdleRepo.thy ===== *)
theory IdleRepo
  imports Reservations ScanSharding PointsOutbox "HOL-Library.AList"
begin

text \<open>
  \<open>internal/repository/idle_repo.go\<close> and \<open>internal/service/idle/heartbeat_flusher.go\<close>: the
  table of idle sessions with its partial unique index, the liveness keys and the sets of
  active sessions in Redis, the daily totals, and the batched heartbeats. Tables are lists in
  the order of their primary key.
\<close>

section \<open>Finding sessions\<close>

definition is_active :: "idle_record \<Rightarrow> bool" where
  "is_active r \<longleftrightarrow> ir_status r = Active"

definition active_of :: "string \<Rightarrow> string \<Rightarrow> idle_record \<Rightarrow> bool" where
  "active_of u d r \<longleftrightarrow> ir_user r = u \<and> ir_device r = d \<and> ir_status r = Active"

definition activeKey :: "string \<Rightarrow> string" where
  "activeKey u = ''idle:active:'' @ u"

definition deviceKey :: "string \<Rightarrow> string \<Rightarrow> string" where
  "deviceKey u d = ''idle:active:'' @ u @ '':'' @ d"

definition findOneBy :: "(idle_record \<Rightarrow> bool) \<Rightarrow> (world, idle_record option) io" where
  "findOneBy p = db_read ''idle first'' (\<lambda>d. find p (idle_records d))"

definition decode_idle :: "cval option \<Rightarrow> (world, idle_record option) io" where
  "decode_idle v = (case v of
      None \<Rightarrow> ret None
    | Some CNil \<Rightarrow> ret None
    | Some (CIdle r) \<Rightarrow> ret (Some r)
    | Some _ \<Rightarrow> throw (Sentinel ''cache: unmarshal cached value''))"

text \<open>The loader's nil pointer is not a nil interface, so a miss is cached like a hit.\<close>

definition idle_loader :: "(idle_record \<Rightarrow> bool) \<Rightarrow> loader" where
  "idle_loader p = bind_io (findOneBy p) (\<lambda>r. ret (Some (case r of None \<Rightarrow> CNil | Some x \<Rightarrow> CIdle x)))"

definition cachedFindOne :: "string \<Rightarrow> (idle_record \<Rightarrow> bool) \<Rightarrow> (world, idle_record option) io" where
  "cachedFindOne key p =
     bind_io (gets_io cache_on) (\<lambda>on.
       if on then bind_io (cache_get key (30 * second) (idle_loader p)) decode_idle
       else findOneBy p)"

definition FindActive :: "string \<Rightarrow> (world, idle_record option) io" where
  "FindActive u = cachedFindOne (activeKey u) (\<lambda>r. ir_user r = u \<and> is_active r)"

definition FindActiveByDevice :: "string \<Rightarrow> string \<Rightarrow> (world, idle_record option) io" where
  "FindActiveByDevice u d = cachedFindOne (deviceKey u d) (active_of u d)"

definition idle_FindByID :: "int \<Rightarrow> (world, idle_record option) io" where
  "idle_FindByID i = cachedFindOne (''idle:id:'' @ show_int i) (\<lambda>r. ir_id r = i)"

definition FindActiveAll :: "string \<Rightarrow> (world, idle_record list) io" where
  "FindActiveAll u = db_read ''idle find active''
     (\<lambda>d. sort_key ir_start (filter (\<lambda>r. ir_user r = u \<and> is_active r) (idle_records d)))"

definition CountActive :: "string \<Rightarrow> (world, nat) io" where
  "CountActive u = db_read ''idle count active''
     (\<lambda>d. rows_affected (\<lambda>r. ir_user r = u \<and> is_active r) (idle_records d))"

definition FindAllActive :: "(world, idle_record list) io" where
  "FindAllActive = db_read ''idle find all active''
     (\<lambda>d. sort_key ir_start (filter is_active (idle_records d)))"

definition stale :: "instant \<Rightarrow> idle_record \<Rightarrow> bool" where
  "stale before r \<longleftrightarrow> is_active r \<and>
     (case ir_heartbeat r of Some t \<Rightarrow> t < before | None \<Rightarrow> ir_start r < before)"

definition FindStaleActive :: "instant \<Rightarrow> (world, idle_record list) io" where
  "FindStaleActive before = db_read ''idle find stale''
     (\<lambda>d. sort_key ir_start (filter (stale before) (idle_records d)))"

definition FindRecords :: "string \<Rightarrow> int \<Rightarrow> int \<Rightarrow> (world, idle_record list) io" where
  "FindRecords u cursor limit = db_read ''idle find records'' (\<lambda>d.
     take (nat (if limit \<le> 0 then 20 else limit) + 1)
       (rev (sort_key ir_id (filter (\<lambda>r. ir_user r = u \<and> (cursor > 0 \<longrightarrow> ir_id r < cursor)) (idle_records d)))))"

section \<open>Creating and settling\<close>

definition invalidate_keys :: "string list \<Rightarrow> (world, unit) io" where
  "invalidate_keys keys = bind_io (gets_io cache_on) (\<lambda>on. when_io on (best_effort (cache_delete keys)))"

definition invalidateActiveCache :: "string \<Rightarrow> (world, unit) io" where
  "invalidateActiveCache u = invalidate_keys [activeKey u]"

definition invalidateDeviceCache :: "string \<Rightarrow> string \<Rightarrow> (world, unit) io" where
  "invalidateDeviceCache u d = invalidate_keys [deviceKey u d]"

definition InvalidateActiveByUser :: "string \<Rightarrow> string \<Rightarrow> (world, unit) io" where
  "InvalidateActiveByUser u d =
     invalidate_keys (activeKey u # (if d \<noteq> [] then [deviceKey u d] else []))"

text \<open>
  The insert skips a second active session of the same user and device, which the partial
  unique index finds; the result is the new id, 0 when the insert was skipped.
\<close>

definition insert_session :: "idle_record \<Rightarrow> instant \<Rightarrow> idle_record list \<Rightarrow> int \<times> idle_record list" where
  "insert_session rec t rows =
     (if ir_status rec = Active \<and> (\<exists>r \<in> set rows. active_of (ir_user rec) (ir_device rec) r) then (0, rows)
      else (next_id ir_id rows,
            rows @ [rec\<lparr>ir_id := next_id ir_id rows, ir_created := t, ir_updated := t\<rparr>]))"

definition idle_Create :: "idle_record \<Rightarrow> (world, int) io" where
  "idle_Create rec =
     bind_io (db_write ''idle create'' (\<lambda>w d.
        case insert_session rec (now w) (idle_records d) of (i, rows) \<Rightarrow> (i, d\<lparr>idle_records := rows\<rparr>))) (\<lambda>i.
     then_io (invalidateActiveCache (ir_user rec))
    (then_io (invalidateDeviceCache (ir_user rec) (ir_device rec)) (ret i)))"

definition settled :: "idle_status \<Rightarrow> instant \<Rightarrow> int \<Rightarrow> int \<Rightarrow> instant \<Rightarrow> idle_record \<Rightarrow> idle_record" where
  "settled st endTime dur pts t r =
     r\<lparr>ir_end := Some endTime, ir_duration := dur, ir_points := pts, ir_status := st, ir_updated := t\<rparr>"

definition markSettled :: "int \<Rightarrow> idle_status \<Rightarrow> instant \<Rightarrow> int \<Rightarrow> int \<Rightarrow> (world, bool) io" where
  "markSettled i st endTime dur pts = db_write ''idle settle'' (\<lambda>w d.
     (0 < rows_affected (\<lambda>r. ir_id r = i \<and> is_active r) (idle_records d),
      d\<lparr>idle_records := update_where (\<lambda>r. ir_id r = i \<and> is_active r)
           (settled st endTime dur pts (now w)) (idle_records d)\<rparr>))"

definition CompleteIfActive :: "int \<Rightarrow> instant \<Rightarrow> int \<Rightarrow> int \<Rightarrow> (world, bool) io" where
  "CompleteIfActive i t dur pts = markSettled i Completed t dur pts"

definition TimeoutIfActive :: "int \<Rightarrow> instant \<Rightarrow> int \<Rightarrow> int \<Rightarrow> (world, bool) io" where
  "TimeoutIfActive i t dur pts = markSettled i Timeout t dur pts"

section \<open>Heartbeats in Redis\<close>

definition heartbeatRedisEnabled :: "world \<Rightarrow> bool" where
  "heartbeatRedisEnabled w \<longleftrightarrow> cache_on w \<and> redis_on w"

definition heartbeatKey :: "string \<Rightarrow> string \<Rightarrow> string" where
  "heartbeatKey u d = ''idle:hb:'' @ u @ '':'' @ d"

definition activeMemberSep :: char where
  "activeMemberSep = CHR 0x1F"

definition activeMember :: "string \<Rightarrow> string \<Rightarrow> string" where
  "activeMember u d = u @ activeMemberSep # d"

definition activeSetShard :: "int \<Rightarrow> string \<Rightarrow> int" where
  "activeSetShard shards u = (if shards \<le> 0 then 0 else uint (fnv32a u mod word_of_int shards))"

definition activeSetShardCount :: "int \<Rightarrow> int" where
  "activeSetShardCount shards = (if shards \<le> 0 then 1 else shards)"

definition activeSetKey :: "int \<Rightarrow> string" where
  "activeSetKey i = ''idle:active:set:'' @ show_int i"

text \<open>\<open>strings.SplitN(m, sep, 2)\<close> for a one-character separator.\<close>

definition split2 :: "char \<Rightarrow> string \<Rightarrow> (string \<times> string) option" where
  "split2 sep m =
     (if sep \<in> set m then Some (takeWhile (\<lambda>c. c \<noteq> sep) m, tl (dropWhile (\<lambda>c. c \<noteq> sep) m)) else None)"

definition ParseActiveMember :: "string \<Rightarrow> string \<times> string" where
  "ParseActiveMember m = (case split2 activeMemberSep m of Some p \<Rightarrow> p | None \<Rightarrow> ([], []))"

text \<open>What follows the first occurrence of the marker.\<close>

fun after_marker :: "string \<Rightarrow> string \<Rightarrow> string option" where
  "after_marker m [] = (if m = [] then Some [] else None)"
| "after_marker m (c # cs) =
     (if take (length m) (c # cs) = m then Some (drop (length m) (c # cs)) else after_marker m cs)"

definition ParseHeartbeatKey :: "string \<Rightarrow> (string \<times> string) option" where
  "ParseHeartbeatKey fullKey =
     (case after_marker ''idle:hb:'' fullKey of None \<Rightarrow> None | Some rest \<Rightarrow> split2 (CHR '':'') rest)"

definition updateHeartbeatDB :: "string \<Rightarrow> string \<Rightarrow> (world, unit) io" where
  "updateHeartbeatDB u d = db_write ''idle update heartbeat'' (\<lambda>w b.
     ((), b\<lparr>idle_records := update_where (active_of u d)
             (\<lambda>r. r\<lparr>ir_heartbeat := Some (now w), ir_updated := now w\<rparr>) (idle_records b)\<rparr>))"

definition TouchHeartbeat :: "bool \<Rightarrow> string \<Rightarrow> string \<Rightarrow> duration \<Rightarrow> (world, unit) io" where
  "TouchHeartbeat persist u d ttl =
     bind_io (gets_io heartbeatRedisEnabled) (\<lambda>on.
       if on then bind_io time_now (\<lambda>t. l2_set (heartbeatKey u d) (Some (CInt (unix_seconds t))) ttl)
       else if persist then ret ()
       else updateHeartbeatDB u d)"

definition DeleteHeartbeat :: "string \<Rightarrow> string \<Rightarrow> (world, unit) io" where
  "DeleteHeartbeat u d =
     bind_io (gets_io heartbeatRedisEnabled) (\<lambda>on. when_io on (l2_delete [heartbeatKey u d]))"

definition IsHeartbeatAlive :: "string \<Rightarrow> string \<Rightarrow> (world, bool) io" where
  "IsHeartbeatAlive u d = l2_exists (heartbeatKey u d)"

definition member_key :: "string \<Rightarrow> string" where
  "member_key m = (case ParseActiveMember m of (u, d) \<Rightarrow> if u = [] then [] else heartbeatKey u d)"

definition dead_members :: "string list \<Rightarrow> bool list \<Rightarrow> string list" where
  "dead_members members alive =
     map fst (filter (\<lambda>(m, ok). \<not> ok \<and> member_key m \<noteq> []) (zip members alive))"

definition BatchHeartbeatAlive :: "string list \<Rightarrow> (world, string list) io" where
  "BatchHeartbeatAlive members =
     bind_io (gets_io heartbeatRedisEnabled) (\<lambda>on.
       if \<not> on then throw (Sentinel ''redis unavailable'')
       else if members = [] then ret []
       else bind_io (l2_batch_exists (map member_key members)) (\<lambda>alive. ret (dead_members members alive)))"

definition GetHeartbeatTS :: "string \<Rightarrow> string \<Rightarrow> (world, int) io" where
  "GetHeartbeatTS u d =
     bind_io (gets_io heartbeatRedisEnabled) (\<lambda>on.
       if \<not> on then ret 0
       else bind_io (l2_get (heartbeatKey u d)) (\<lambda>v.
              ret (case v of Some (Some (CInt n)) \<Rightarrow> n | _ \<Rightarrow> 0)))"

definition BatchGetHeartbeatTS :: "string \<Rightarrow> string list \<Rightarrow> (world, (string \<times> int) list) io" where
  "BatchGetHeartbeatTS u devices =
     bind_io (gets_io heartbeatRedisEnabled) (\<lambda>on.
       if \<not> on \<or> devices = [] then ret []
       else bind_io (pipeline_get (map (heartbeatKey u) devices)) (\<lambda>vals.
              ret (concat (map (\<lambda>(d, v). case v of RInt n \<Rightarrow> (if n > 0 then [(d, n)] else []) | _ \<Rightarrow> [])
                     (zip devices vals)))))"

definition AddActiveSession :: "int \<Rightarrow> string \<Rightarrow> string \<Rightarrow> (world, unit) io" where
  "AddActiveSession shards u d =
     bind_io (gets_io heartbeatRedisEnabled) (\<lambda>on.
       when_io on (l2_sadd (activeSetKey (activeSetShard shards u)) (activeMember u d)))"

definition RemoveActiveSession :: "int \<Rightarrow> string \<Rightarrow> string \<Rightarrow> (world, unit) io" where
  "RemoveActiveSession shards u d =
     bind_io (gets_io heartbeatRedisEnabled) (\<lambda>on.
       when_io on (l2_srem (activeSetKey (activeSetShard shards u)) (activeMember u d)))"

definition ScanActiveSessionsInShards :: "int list \<Rightarrow> (world, string list) io" where
  "ScanActiveSessionsInShards idxs =
     bind_io (gets_io heartbeatRedisEnabled) (\<lambda>on.
       if \<not> on then throw (Sentinel ''redis unavailable'')
       else fold_io (\<lambda>i out. bind_io (l2_sscan (activeSetKey i)) (\<lambda>ms. ret (out @ ms))) idxs [])"

definition ScanActiveSessions :: "int \<Rightarrow> (world, string list) io" where
  "ScanActiveSessions shards = ScanActiveSessionsInShards [0..activeSetShardCount shards - 1]"

section \<open>Heartbeats written in batches\<close>

definition item_of :: "heartbeat_item list \<Rightarrow> idle_record \<Rightarrow> heartbeat_item option" where
  "item_of items r = find (\<lambda>it. hb_user it = ir_user r \<and> hb_device it = ir_device r) items"

definition apply_heartbeats :: "heartbeat_item list \<Rightarrow> instant \<Rightarrow> idle_record list \<Rightarrow> idle_record list" where
  "apply_heartbeats items t rows =
     update_where (\<lambda>r. is_active r \<and> item_of items r \<noteq> None)
       (\<lambda>r. r\<lparr>ir_heartbeat := map_option hb_ts (item_of items r), ir_updated := t\<rparr>) rows"

definition BatchUpdateHeartbeat :: "heartbeat_item list \<Rightarrow> (world, nat) io" where
  "BatchUpdateHeartbeat items =
     (if items = [] then ret 0
      else db_write ''idle batch heartbeat'' (\<lambda>w d.
        (rows_affected (\<lambda>r. is_active r \<and> item_of items r \<noteq> None) (idle_records d),
         d\<lparr>idle_records := apply_heartbeats items (now w) (idle_records d)\<rparr>)))"

text \<open>The pending map of the flusher is keyed by user and device; a flush empties it first.\<close>

definition hb_Record :: "string \<Rightarrow> string \<Rightarrow> instant \<Rightarrow> world \<Rightarrow> world" where
  "hb_Record u d t w =
     (if u = [] then w
      else w\<lparr>hb_pending := AList.update (u @ activeMemberSep # d)
               \<lparr>hb_user = u, hb_device = d, hb_ts = t\<rparr> (hb_pending w)\<rparr>)"

definition hb_drain :: "(world, heartbeat_item list) io" where
  "hb_drain w = (Inr (map snd (hb_pending w)), w\<lparr>hb_pending := []\<rparr>)"

definition hb_Flush :: "(world, nat) io" where
  "hb_Flush = bind_io hb_drain (\<lambda>items. if items = [] then ret 0 else BatchUpdateHeartbeat items)"

section \<open>Daily points\<close>

definition readDailyPointsSummary :: "string \<Rightarrow> int \<Rightarrow> (world, int option) io" where
  "readDailyPointsSummary u day = db_read ''daily points first'' (\<lambda>d.
     map_option dp_total (find (\<lambda>r. dp_user r = u \<and> dp_day r = day) (idle_daily d)))"

text \<open>A failed read counts as nothing earned.\<close>

definition getDailyPointsDB :: "string \<Rightarrow> (world, int) io" where
  "getDailyPointsDB u =
     bind_io (gets_io local_day) (\<lambda>day.
     bind_io (attempt (readDailyPointsSummary u day)) (\<lambda>r.
       ret (case r of Inr (Some v) \<Rightarrow> v | _ \<Rightarrow> 0)))"

definition toInt64 :: "cval option \<Rightarrow> int option" where
  "toInt64 v = (case v of Some (CInt n) \<Rightarrow> Some n | Some (CStr s) \<Rightarrow> atoi s | _ \<Rightarrow> None)"

definition GetDailyPoints :: "string \<Rightarrow> (world, int) io" where
  "GetDailyPoints u =
     bind_io (gets_io (\<lambda>w. (heartbeatRedisEnabled w, IdleDailyPointsKey w u))) (\<lambda>(on, key).
       if \<not> on then getDailyPointsDB u
       else bind_io (attempt (l2_get key)) (\<lambda>r.
         case (case r of Inr (Some v) \<Rightarrow> toInt64 v | _ \<Rightarrow> None) of
           Some n \<Rightarrow> ret n
         | None \<Rightarrow>
             bind_io (getDailyPointsDB u) (\<lambda>v.
             bind_io (gets_io endOfLocalDay) (\<lambda>ttl.
             then_io (best_effort (l2_set key (Some (CInt v)) ttl)) (ret v)))))"

definition add_daily :: "string \<Rightarrow> int \<Rightarrow> int \<Rightarrow> idle_daily_points list \<Rightarrow> idle_daily_points list" where
  "add_daily u day delta rows =
     (if \<exists>r \<in> set rows. dp_user r = u \<and> dp_day r = day
      then update_where (\<lambda>r. dp_user r = u \<and> dp_day r = day) (\<lambda>r. r\<lparr>dp_total := dp_total r + delta\<rparr>) rows
      else rows @ [\<lparr>dp_id = next_id dp_id rows, dp_user = u, dp_day = day, dp_total = delta\<rparr>])"

definition UpsertDailyPoints :: "string \<Rightarrow> int \<Rightarrow> int \<Rightarrow> (world, unit) io" where
  "UpsertDailyPoints u day delta =
     (if delta \<le> 0 then ret ()
      else db_write ''daily points upsert'' (\<lambda>w d. ((), d\<lparr>idle_daily := add_daily u day delta (idle_daily d)\<rparr>)))"

definition earned_since :: "instant \<Rightarrow> string \<Rightarrow> idle_record list \<Rightarrow> int" where
  "earned_since t u rows = sum_list (map ir_points (filter (\<lambda>r. ir_user r = u \<and> t \<le> ir_created r) rows))"

definition missing_users :: "instant \<Rightarrow> int \<Rightarrow> business_db \<Rightarrow> string list" where
  "missing_users t day d =
     filter (\<lambda>u. \<forall>r \<in> set (idle_daily d). \<not> (dp_user r = u \<and> dp_day r = day))
       (remdups (map ir_user (filter (\<lambda>r. t \<le> ir_created r) (idle_records d))))"

definition BackfillDailyPoints :: "int \<Rightarrow> (world, nat) io" where
  "BackfillDailyPoints day = db_write ''daily points backfill'' (\<lambda>w d.
     let t = utc_day_start w; us = missing_users t day d
     in (length us, d\<lparr>idle_daily := fold (\<lambda>u. add_daily u day (earned_since t u (idle_records d))) us (idle_daily d)\<rparr>))"

definition AcquireDailyPoints :: "string \<Rightarrow> int \<Rightarrow> int \<Rightarrow> (world, int) io" where
  "AcquireDailyPoints u want limit =
     bind_io (gets_io heartbeatRedisEnabled) (\<lambda>on.
       if \<not> on \<or> limit \<le> 0 then ret want
       else then_io (best_effort (GetDailyPoints u)) (TryAcquireDailyPoints u want limit))"

definition idle_ReleaseDailyPoints :: "string \<Rightarrow> int \<Rightarrow> (world, unit) io" where
  "idle_ReleaseDailyPoints u granted =
     bind_io (gets_io heartbeatRedisEnabled) (\<lambda>on.
       when_io (on \<and> granted > 0) (ReleaseDailyPoints u granted))"

section \<open>Which operations leave the tables alone\<close>

context db_relation
begin

lemma ev_findOneBy: "evolves (on_db Q) (findOneBy p)"
  unfolding findOneBy_def by (rule ev_db_read)

lemma ev_decode_idle: "evolves (on_db Q) (decode_idle v)"
  unfolding decode_idle_def by (auto intro: ev_world split: option.splits cval.splits)

lemma ev_cachedFindOne: "evolves (on_db Q) (cachedFindOne k p)"
  unfolding cachedFindOne_def idle_loader_def
  by (intro ev_world ev_cache_get ev_findOneBy ev_decode_idle)

lemma ev_idle_find:
  "evolves (on_db Q) (FindActive u)" "evolves (on_db Q) (FindActiveByDevice u v)"
  "evolves (on_db Q) (idle_FindByID i)" "evolves (on_db Q) (FindActiveAll u)" "evolves (on_db Q) FindAllActive"
  "evolves (on_db Q) (FindStaleActive t)" "evolves (on_db Q) (CountActive u)" "evolves (on_db Q) (FindRecords u c l)"
  by (auto simp: FindActive_def FindActiveByDevice_def idle_FindByID_def FindActiveAll_def FindAllActive_def
      FindStaleActive_def CountActive_def FindRecords_def intro: ev_cachedFindOne ev_db_read)

lemma ev_idle_cache:
  "evolves (on_db Q) (invalidateActiveCache u)" "evolves (on_db Q) (invalidateDeviceCache u v)"
  "evolves (on_db Q) (InvalidateActiveByUser u v)"
  by (auto simp: invalidateActiveCache_def invalidateDeviceCache_def InvalidateActiveByUser_def invalidate_keys_def
      intro!: ev_world ev_cache_delete)

lemma ev_idle_redis:
  "evolves (on_db Q) (DeleteHeartbeat u v)" "evolves (on_db Q) (IsHeartbeatAlive u v)"
  "evolves (on_db Q) (BatchHeartbeatAlive ms)" "evolves (on_db Q) (GetHeartbeatTS u v)"
  "evolves (on_db Q) (BatchGetHeartbeatTS u vs)" "evolves (on_db Q) (AddActiveSession n u v)"
  "evolves (on_db Q) (RemoveActiveSession n u v)" "evolves (on_db Q) (ScanActiveSessionsInShards is)"
  "evolves (on_db Q) (ScanActiveSessions n)"
  by (auto simp: DeleteHeartbeat_def IsHeartbeatAlive_def BatchHeartbeatAlive_def GetHeartbeatTS_def
      BatchGetHeartbeatTS_def AddActiveSession_def RemoveActiveSession_def ScanActiveSessionsInShards_def
      ScanActiveSessions_def intro!: ev_world ev_l2)

lemma ev_daily:
  "evolves (on_db Q) (GetDailyPoints u)" "evolves (on_db Q) (AcquireDailyPoints u a b)"
  "evolves (on_db Q) (idle_ReleaseDailyPoints u a)"
  by (auto simp: GetDailyPoints_def getDailyPointsDB_def readDailyPointsSummary_def AcquireDailyPoints_def
      idle_ReleaseDailyPoints_def intro!: ev_world ev_l2 ev_reservation)

lemmas ev_idle = ev_idle_find ev_idle_cache ev_idle_redis ev_daily

end

section \<open>Members and keys\<close>

lemma split2_first: "sep \<notin> set u \<Longrightarrow> split2 sep (u @ sep # d) = Some (u, d)"
proof -
  assume "sep \<notin> set u"
  then have "takeWhile (\<lambda>c. c \<noteq> sep) (u @ sep # d) = u \<and> dropWhile (\<lambda>c. c \<noteq> sep) (u @ sep # d) = sep # d"
    by (induction u) auto
  then show ?thesis by (simp add: split2_def)
qed

lemma parse_member: "activeMemberSep \<notin> set u \<Longrightarrow> ParseActiveMember (activeMember u d) = (u, d)"
  by (simp add: ParseActiveMember_def activeMember_def split2_first)

text \<open>The member of the active set that names a session reads back to the session's user and
  device, for every user id without the separator character.\<close>

theorem active_member_roundtrip:
  assumes "activeMemberSep \<notin> set u"
  shows "ParseActiveMember (activeMember u d) = (u, d)"
  using assms by (rule parse_member)

theorem active_member_roundtrip_witness: "ParseActiveMember (activeMember ''u1'' ''phone'') = (''u1'', ''phone'')"
  by (rule active_member_roundtrip) (simp add: activeMemberSep_def)

lemma marker_not_across:
  assumes "CHR '':'' \<notin> set p" and "p \<noteq> []"
  shows "take 8 (p @ '':idle:hb:'' @ r) \<noteq> ''idle:hb:''"
proof
  assume eq: "take 8 (p @ '':idle:hb:'' @ r) = ''idle:hb:''"
  have at: "(p @ '':idle:hb:'' @ r) ! i = ''idle:hb:'' ! i" if "i < 8" for i
    using nth_take [OF that, of "p @ '':idle:hb:'' @ r"] unfolding eq by (rule sym)
  show False
  proof (cases "4 < length p")
    case True
    then have "p ! 4 = CHR '':''" using at [of 4] by (simp add: nth_append)
    then show False using True assms(1) by (metis nth_mem)
  next
    case False
    moreover have "0 < length p" using assms(2) by simp
    ultimately consider "length p = 1" | "length p = 2" | "length p = 3" | "length p = 4" by linarith
    then show False
    proof cases
      case 1 then show False using at [of 1] by (simp add: nth_append)
    next
      case 2 then show False using at [of 2] by (simp add: nth_append)
    next
      case 3 then show False using at [of 3] by (simp add: nth_append)
    next
      case 4 then show False using at [of 5] by (simp add: nth_append)
    qed
  qed
qed

lemma after_marker_skip: "take (length m) (c # cs) \<noteq> m \<Longrightarrow> after_marker m (c # cs) = after_marker m cs"
  by simp

lemma after_marker_prefixed:
  "CHR '':'' \<notin> set p \<Longrightarrow> after_marker ''idle:hb:'' (p @ '':idle:hb:'' @ r) = Some r"
proof (induction p)
  case Nil
  then show ?case by simp
next
  case (Cons c p)
  have eight: "length ''idle:hb:'' = 8" by simp
  have "take (length ''idle:hb:'') (c # (p @ '':idle:hb:'' @ r)) \<noteq> ''idle:hb:''"
    unfolding eight append_Cons [symmetric] by (rule marker_not_across) (use Cons.prems in auto)
  then have "after_marker ''idle:hb:'' (c # (p @ '':idle:hb:'' @ r)) = after_marker ''idle:hb:'' (p @ '':idle:hb:'' @ r)"
    by (rule after_marker_skip)
  then show ?case using Cons by simp
qed

text \<open>The full Redis key of a heartbeat, as an expiry event reports it, reads back to the user
  and the device, for every key prefix and user id without a colon.\<close>

theorem heartbeat_key_roundtrip:
  assumes "CHR '':'' \<notin> set prefix" and "CHR '':'' \<notin> set u"
  shows "ParseHeartbeatKey (cacheKey prefix (heartbeatKey u d)) = Some (u, d)"
proof -
  have rest: "split2 (CHR '':'') (u @ CHR '':'' # d) = Some (u, d)" using assms(2) by (rule split2_first)
  show ?thesis
  proof (cases "prefix = []")
    case True
    then show ?thesis using rest by (simp add: ParseHeartbeatKey_def cacheKey_def heartbeatKey_def)
  next
    case False
    have "after_marker ''idle:hb:'' (prefix @ '':idle:hb:'' @ u @ '':'' @ d) = Some (u @ '':'' @ d)"
      using assms(1) by (rule after_marker_prefixed)
    then show ?thesis using rest False by (simp add: ParseHeartbeatKey_def cacheKey_def heartbeatKey_def)
  qed
qed

theorem heartbeat_key_roundtrip_witness:
  "ParseHeartbeatKey (cacheKey ''hc'' (heartbeatKey ''u1'' ''a:b'')) = Some (''u1'', ''a:b'')"
  by (rule heartbeat_key_roundtrip) simp_all

text \<open>C39. The names of a session in Redis read back. For a user id without a colon and without the separator
character, and a key prefix without a colon: the member that puts the session into the set of active sessions
parses to its user and device, the key that a scan derives from the member is the one a heartbeat sets,
and the full key that Redis reports when the heartbeat expires parses to the same user and device. The
device may contain either separator.\<close>

theorem session_names_round_trip:
  assumes "CHR '':'' \<notin> set prefix" and "CHR '':'' \<notin> set u" and "activeMemberSep \<notin> set u" and "u \<noteq> []"
  shows "ParseActiveMember (activeMember u d) = (u, d) \<and> member_key (activeMember u d) = heartbeatKey u d \<and>
    ParseHeartbeatKey (cacheKey prefix (member_key (activeMember u d))) = Some (ParseActiveMember (activeMember u d))"
  using parse_member [OF assms(3), of d] heartbeat_key_roundtrip [OF assms(1,2), of d] assms(4) by (simp add: member_key_def)

theorem session_names_round_trip_witness:
  "ParseHeartbeatKey (cacheKey ''hc'' (member_key (activeMember ''u1'' ''a:b''))) = Some (''u1'', ''a:b'')"
proof -
  have "ParseActiveMember (activeMember ''u1'' ''a:b'') = (''u1'', ''a:b'') \<and>
      member_key (activeMember ''u1'' ''a:b'') = heartbeatKey ''u1'' ''a:b'' \<and>
      ParseHeartbeatKey (cacheKey ''hc'' (member_key (activeMember ''u1'' ''a:b''))) = Some (ParseActiveMember (activeMember ''u1'' ''a:b''))"
    by (rule session_names_round_trip) (simp_all add: activeMemberSep_def)
  then show ?thesis by metis
qed

section \<open>The flusher\<close>

definition record_all :: "(string \<times> string \<times> instant) list \<Rightarrow> world \<Rightarrow> world" where
  "record_all xs w = fold (\<lambda>(u, d, t). hb_Record u d t) xs w"

text \<open>The last heartbeat that was recorded for a device.\<close>

definition last_beat :: "(string \<times> string \<times> instant) list \<Rightarrow> string \<Rightarrow> string \<Rightarrow> instant option" where
  "last_beat xs u d = map_option (snd \<circ> snd) (find (\<lambda>(v, e, t). v = u \<and> e = d) (rev xs))"

definition plain_user :: "string \<Rightarrow> bool" where
  "plain_user u \<longleftrightarrow> u \<noteq> [] \<and> activeMemberSep \<notin> set u"

definition pending_ok :: "(string \<times> heartbeat_item) list \<Rightarrow> bool" where
  "pending_ok p \<longleftrightarrow> distinct (map fst p) \<and>
     (\<forall>(k, it) \<in> set p. k = activeMember (hb_user it) (hb_device it) \<and> plain_user (hb_user it))"

lemma member_inject:
  assumes "plain_user u" "plain_user v" and "activeMember u d = activeMember v e"
  shows "u = v \<and> d = e"
proof -
  have "(u, d) = ParseActiveMember (activeMember u d)" using assms(1) by (simp add: parse_member plain_user_def)
  also have "\<dots> = (v, e)" using assms(2,3) by (simp add: parse_member plain_user_def)
  finally show ?thesis by simp
qed

lemma set_AList_update: "set (AList.update k v p) \<subseteq> insert (k, v) (set p)"
  by (induction p) auto

lemma pending_ok_record:
  assumes "pending_ok p" and "plain_user u"
  shows "pending_ok (AList.update (activeMember u d) \<lparr>hb_user = u, hb_device = d, hb_ts = t\<rparr> p)"
proof -
  let ?it = "\<lparr>hb_user = u, hb_device = d, hb_ts = t\<rparr>"
  have "k = activeMember (hb_user it) (hb_device it) \<and> plain_user (hb_user it)"
    if "(k, it) \<in> set (AList.update (activeMember u d) ?it p)" for k it
  proof -
    have "(k, it) = (activeMember u d, ?it) \<or> (k, it) \<in> set p"
      using that set_AList_update [of "activeMember u d" ?it p] by blast
    then show ?thesis using assms by (auto simp: pending_ok_def)
  qed
  then show ?thesis using assms(1) by (auto simp: pending_ok_def distinct_update)
qed

lemma item_of_pending:
  assumes "pending_ok p"
  shows "item_of (map snd p) r =
    (if plain_user (ir_user r) then map_of p (activeMember (ir_user r) (ir_device r)) else None)"
  using assms
proof (induction p)
  case Nil
  then show ?case by (simp add: item_of_def)
next
  case (Cons x p)
  obtain k it where x: "x = (k, it)" by fastforce
  have k: "k = activeMember (hb_user it) (hb_device it)" "plain_user (hb_user it)" and "pending_ok p"
    using Cons.prems x by (auto simp: pending_ok_def)
  show ?case
  proof (cases "hb_user it = ir_user r \<and> hb_device it = ir_device r")
    case True
    then show ?thesis using k by (simp add: x item_of_def)
  next
    case False
    then have "k \<noteq> activeMember (ir_user r) (ir_device r)" if "plain_user (ir_user r)"
      using member_inject [OF k(2) that, of "hb_device it" "ir_device r"] k(1) by auto
    moreover have "item_of (map snd (x # p)) r = item_of (map snd p) r" using False by (auto simp: x item_of_def)
    ultimately show ?thesis using Cons.IH \<open>pending_ok p\<close> by (auto simp: x)
  qed
qed

lemma record_all_pending:
  assumes "hb_pending w = []" and "\<forall>(u, d, t) \<in> set xs. plain_user u"
  shows "pending_ok (hb_pending (record_all xs w)) \<and>
    (\<forall>u d. plain_user u \<longrightarrow> map_option hb_ts (map_of (hb_pending (record_all xs w)) (activeMember u d)) = last_beat xs u d)"
  using assms(2)
proof (induction xs rule: rev_induct)
  case Nil
  then show ?case by (simp add: record_all_def assms(1) pending_ok_def last_beat_def)
next
  case (snoc x xs)
  obtain v e t where x: "x = (v, e, t)" by (cases x)
  have v: "plain_user v" using snoc.prems x by simp
  let ?p = "hb_pending (record_all xs w)"
  have upd: "hb_pending (record_all (xs @ [x]) w) =
      AList.update (activeMember v e) \<lparr>hb_user = v, hb_device = e, hb_ts = t\<rparr> ?p"
    using v by (simp add: record_all_def x hb_Record_def activeMember_def plain_user_def)
  have IH: "pending_ok ?p" "\<And>u d. plain_user u \<Longrightarrow> map_option hb_ts (map_of ?p (activeMember u d)) = last_beat xs u d"
    using snoc by auto
  have "map_option hb_ts (map_of (hb_pending (record_all (xs @ [x]) w)) (activeMember u d)) = last_beat (xs @ [x]) u d"
    if u: "plain_user u" for u d
  proof (cases "v = u \<and> e = d")
    case True
    then show ?thesis unfolding upd by (simp add: update_conv' last_beat_def x)
  next
    case False
    then have "activeMember v e \<noteq> activeMember u d" using member_inject [OF v u] by blast
    then have "map_option hb_ts (map_of (hb_pending (record_all (xs @ [x]) w)) (activeMember u d)) = last_beat xs u d"
      using IH(2) [OF u] unfolding upd by (simp add: update_conv')
    also have "\<dots> = last_beat (xs @ [x]) u d" using False by (auto simp: last_beat_def x)
    finally show ?thesis .
  qed
  then show ?case using pending_ok_record [OF IH(1) v] unfolding upd by blast
qed

lemma record_all_frame:
  "faults (record_all xs w) = faults w \<and> db (record_all xs w) = db w \<and> now (record_all xs w) = now w"
proof (induction xs rule: rev_induct)
  case Nil
  then show ?case by (simp add: record_all_def)
next
  case (snoc x xs)
  then show ?case by (auto simp: record_all_def hb_Record_def split: prod.splits)
qed

text \<open>A flush writes to every active session the last heartbeat that was recorded for its user
  and device since the previous flush, and touches no other session.\<close>

theorem flush_writes_last_heartbeat:
  assumes "faults w = []" and "hb_pending w = []" and "xs \<noteq> []" and "\<forall>(u, d, t) \<in> set xs. plain_user u"
    and "hb_Flush (record_all xs w) = (r, w')"
  shows "idle_records (db w') =
    map (\<lambda>q. case (if is_active q \<and> plain_user (ir_user q) then last_beat xs (ir_user q) (ir_device q) else None) of
            None \<Rightarrow> q
          | Some t \<Rightarrow> q\<lparr>ir_heartbeat := Some t, ir_updated := now w\<rparr>) (idle_records (db w))
    \<and> hb_pending w' = []"
proof -
  let ?v = "record_all xs w"
  let ?items = "map snd (hb_pending ?v)"
  note ok = record_all_pending [OF assms(2,4)]
  obtain u d t where last: "last xs = (u, d, t)" by (cases "last xs")
  have "plain_user u" using assms(3,4) last_in_set [OF assms(3)] last by auto
  moreover have "last_beat xs u d \<noteq> None"
    using last_in_set [OF assms(3)] last by (auto simp: last_beat_def find_None_iff)
  ultimately have ne: "?items \<noteq> []" using ok by auto
  have item: "map_option hb_ts (item_of ?items q) =
      (if plain_user (ir_user q) then last_beat xs (ir_user q) (ir_device q) else None)" for q
    using ok item_of_pending [of "hb_pending ?v" q] by simp
  have w': "w' = (?v\<lparr>hb_pending := []\<rparr>)\<lparr>db := (db ?v)\<lparr>idle_records :=
      apply_heartbeats ?items (now ?v) (idle_records (db ?v))\<rparr>\<rparr>"
    using assms(1,5) ne record_all_frame [of xs w]
    by (simp add: hb_Flush_def hb_drain_def bind_io_def BatchUpdateHeartbeat_def db_write_def)
  have "apply_heartbeats ?items (now w) rows =
    map (\<lambda>q. case (if is_active q \<and> plain_user (ir_user q) then last_beat xs (ir_user q) (ir_device q) else None) of
            None \<Rightarrow> q
          | Some t \<Rightarrow> q\<lparr>ir_heartbeat := Some t, ir_updated := now w\<rparr>) rows" for rows
    unfolding apply_heartbeats_def update_where_def
  proof (rule map_cong [OF refl])
    fix q
    show "(if is_active q \<and> item_of ?items q \<noteq> None
        then q\<lparr>ir_heartbeat := map_option hb_ts (item_of ?items q), ir_updated := now w\<rparr> else q) =
      (case (if is_active q \<and> plain_user (ir_user q) then last_beat xs (ir_user q) (ir_device q) else None) of
            None \<Rightarrow> q | Some t \<Rightarrow> q\<lparr>ir_heartbeat := Some t, ir_updated := now w\<rparr>)"
      using item [of q] by (auto split: option.splits if_splits)
  qed
  then show ?thesis using record_all_frame [of xs w] by (simp add: w')
qed

definition sample_session :: idle_record where
  "sample_session = \<lparr>ir_id = 1, ir_user = ''u1'', ir_device = ''phone'', ir_start = 0, ir_end = None,
     ir_heartbeat = None, ir_duration = 0, ir_points = 0, ir_status = Active, ir_created = 0, ir_updated = 0\<rparr>"

definition sample_idle :: world where
  "sample_idle = empty_world\<lparr>db := empty_db\<lparr>idle_records := [sample_session]\<rparr>\<rparr>"

theorem flush_writes_last_heartbeat_witness:
  "idle_records (db (snd (hb_Flush (record_all [(''u1'', ''phone'', 3), (''u1'', ''phone'', 9)] sample_idle)))) =
    map (\<lambda>q. case (if is_active q \<and> plain_user (ir_user q)
                   then last_beat [(''u1'', ''phone'', 3), (''u1'', ''phone'', 9)] (ir_user q) (ir_device q) else None) of
            None \<Rightarrow> q
          | Some t \<Rightarrow> q\<lparr>ir_heartbeat := Some t, ir_updated := now sample_idle\<rparr>) (idle_records (db sample_idle))
    \<and> hb_pending (snd (hb_Flush (record_all [(''u1'', ''phone'', 3), (''u1'', ''phone'', 9)] sample_idle))) = []"
  by (rule flush_writes_last_heartbeat [OF _ _ _ _ prod.collapse [symmetric]])
    (simp_all add: sample_idle_def empty_world_def plain_user_def activeMemberSep_def)

section \<open>The quota after a failed read\<close>

text \<open>When the day's counter is not in Redis and the read of the day's total fails, the
  counter starts from zero: the full amount is granted again, whatever was earned before.\<close>

theorem failed_total_read_restores_quota:
  assumes "faults w = [False, True]" and "cache_on w" "redis_on w"
    and "rget w (l2Key w (IdleDailyPointsKey w u)) = None" and "0 < want" "want \<le> limit"
  shows "fst (AcquireDailyPoints u want limit w) = Inr want"
proof -
  let ?k = "IdleDailyPointsKey w u"
  let ?v = "w\<lparr>faults := []\<rparr>"
  have day: "local_day (x\<lparr>faults := f\<rparr>) = local_day x" "endOfLocalDay (x\<lparr>faults := f\<rparr>) = endOfLocalDay x" for x f
    by (simp_all add: local_day_def endOfLocalDay_def)
  have db: "getDailyPointsDB u (w\<lparr>faults := [True]\<rparr>) = (Inr 0, ?v)"
    by (simp add: getDailyPointsDB_def readDailyPointsSummary_def db_read_def bind_io_def attempt_def gets_io_def ret_def ext_def)
  have get: "snd (GetDailyPoints u w) = rset (l2Key w ?k) (RInt 0) (endOfLocalDay w) ?v"
    using assms(1-4) db
    by (simp add: GetDailyPoints_def heartbeatRedisEnabled_def bind_io_def gets_io_def attempt_def l2_get_def ext_def
        then_io_def best_effort_def l2_set_def encode_def ret_def day)
  let ?u = "rset (l2Key w ?k) (RInt 0) (endOfLocalDay w) ?v"
  have "counter ?u (l2Key ?u (IdleDailyPointsKey ?u u)) = 0"
    by (simp add: counter_def IdleDailyPointsKey_def local_day_def)
  then have "fst (TryAcquireDailyPoints u want limit ?u) = Inr want"
    using assms(3,5,6)
    by (simp add: TryAcquireDailyPoints_def daily_points_script_def Let_def)
  then show ?thesis
    using assms(2,3,5,6) get
    by (simp add: AcquireDailyPoints_def heartbeatRedisEnabled_def bind_io_def gets_io_def then_io_def best_effort_def)
qed

theorem failed_total_read_restores_quota_witness:
  "fst (AcquireDailyPoints ''u1'' 100 100
     (empty_world\<lparr>faults := [False, True],
        db := empty_db\<lparr>idle_daily := [\<lparr>dp_id = 1, dp_user = ''u1'', dp_day = 0, dp_total = 100\<rparr>]\<rparr>\<rparr>)) = Inr 100"
  by (rule failed_total_read_restores_quota) (simp_all add: empty_world_def rget_def live_def)

end
