(* ===== verification/IdleService.thy ===== *)
theory IdleService
  imports IdleRepo
begin

text \<open>
  \<open>internal/service/idle/idle_service.go\<close>: starting, keeping alive and stopping idle sessions,
  their settlement, and the scanners that settle sessions whose heartbeats stopped. Audit
  logging, metrics and spans have no effect on the tables and are left out. The goroutines
  that settle the sessions of one scan are run one after the other here; what they may do to
  the tables in any order is the subject of \<open>IdleInvariants\<close>.
\<close>

section \<open>Configuration and results\<close>

record idle_config =
  ic_timeout :: duration
  ic_heartbeat_interval :: duration
  ic_points_per_minute :: int
  ic_daily_limit :: int
  ic_max_devices :: int
  ic_max_settle :: int
  ic_set_shards :: int
  ic_persist :: bool
  ic_points_on :: bool

definition maxDevices :: "idle_config \<Rightarrow> int" where
  "maxDevices cfg = (if ic_max_devices cfg \<le> 0 then 1 else ic_max_devices cfg)"

definition ErrNotIdle :: gerr where
  "ErrNotIdle = Sentinel ''not in idle state''"

section \<open>Settlement\<close>

definition idle_event :: "int \<Rightarrow> string" where
  "idle_event i = ''pts:idle:'' @ show_int i"

definition idle_ref :: "int \<Rightarrow> string" where
  "idle_ref i = ''idle:'' @ show_int i"

definition idle_outbox :: "idle_record \<Rightarrow> int \<Rightarrow> instant \<Rightarrow> points_outbox" where
  "idle_outbox r pts t = \<lparr>ob_id = 0, ob_user = ir_user r, ob_delta = pts, ob_ref_type = ''idle'',
     ob_ref_id = show_int (ir_id r), ob_event = idle_event (ir_id r), ob_status = Pending,
     ob_created = t, ob_updated = t\<rparr>"

definition idle_transaction :: "idle_record \<Rightarrow> int \<Rightarrow> points_transaction" where
  "idle_transaction r pts = \<lparr>pt_id = 0, pt_user = ir_user r, pt_amount = pts, pt_balance_after = 0,
     pt_type = ''idle_reward'', pt_reference = idle_ref (ir_id r), pt_created = 0\<rparr>"

definition markFn :: "bool \<Rightarrow> int \<Rightarrow> instant \<Rightarrow> int \<Rightarrow> int \<Rightarrow> (world, bool) io" where
  "markFn completed i t dur pts = (if completed then CompleteIfActive i t dur pts else TimeoutIfActive i t dur pts)"

definition final_status :: "bool \<Rightarrow> idle_status" where
  "final_status completed = (if completed then Completed else Timeout)"

text \<open>The business transaction; the result says whether this call settled the session.\<close>

definition settle_tx :: "idle_config \<Rightarrow> idle_record \<Rightarrow> bool \<Rightarrow> instant \<Rightarrow> int \<Rightarrow> int \<Rightarrow> (world, bool) io" where
  "settle_tx cfg r completed t dur pts =
     bind_io (markFn completed (ir_id r) t dur pts) (\<lambda>ok.
       if \<not> ok then ret False
       else then_io (wrap_err ''create points transaction'' (CreateTransaction (idle_transaction r pts)))
           (then_io (if ic_points_on cfg
                     then wrap_err ''append points outbox'' (AppendOutboxInTx (idle_outbox r pts t)) else ret ())
                    (ret True)))"

definition idle_settled_message :: "idle_record \<Rightarrow> message" where
  "idle_settled_message r = IdleSettled (ir_user r) (ir_id r) (ir_duration r) (ir_points r)"

text \<open>
  The event goroutine reads the caller's record, which is filled in only after
  \<open>finalizeSettlement\<close> returned: \<open>before\<close> is the record until then, \<open>after\<close> the one later.
\<close>

definition finalizeSettlement :: "idle_config \<Rightarrow> idle_record \<Rightarrow> idle_record \<Rightarrow> points_outbox \<Rightarrow> (world, unit) io" where
  "finalizeSettlement cfg before after ob =
     then_io (if ic_points_on cfg then ApplyAsync (Some ob) else ret ())
    (then_io (InvalidateActiveByUser (ir_user before) (ir_device before))
    (then_io (best_effort (DeleteHeartbeat (ir_user before) (ir_device before)))
    (then_io (best_effort (RemoveActiveSession (ic_set_shards cfg) (ir_user before) (ir_device before)))
      (bind_io (gets_io publisher_on) (\<lambda>on.
         when_io on (spawn (BgEmitEither (idle_settled_message before) (idle_settled_message after))))))))"

definition closed_record :: "idle_record \<Rightarrow> bool \<Rightarrow> instant \<Rightarrow> int \<Rightarrow> int \<Rightarrow> idle_record" where
  "closed_record r completed t dur pts =
     r\<lparr>ir_status := final_status completed, ir_end := Some t, ir_duration := dur, ir_points := pts\<rparr>"

definition session_seconds :: "idle_record \<Rightarrow> instant \<Rightarrow> int" where
  "session_seconds r t = seconds_of (t - ir_start r)"

definition session_points :: "idle_config \<Rightarrow> idle_record \<Rightarrow> instant \<Rightarrow> int" where
  "session_points cfg r t = wrap64 (max (go_div (session_seconds r t) 60) 1 * ic_points_per_minute cfg)"

definition grant_points :: "idle_config \<Rightarrow> idle_record \<Rightarrow> int \<Rightarrow> (world, int) io" where
  "grant_points cfg r pts =
     (if ic_daily_limit cfg > 0
      then wrap_err ''acquire daily points'' (AcquireDailyPoints (ir_user r) pts (ic_daily_limit cfg))
      else ret pts)"

text \<open>The result is whether the session was settled here, with the caller's record afterwards.\<close>

definition settleSession :: "idle_config \<Rightarrow> idle_record \<Rightarrow> bool \<Rightarrow> (world, bool \<times> idle_record) io" where
  "settleSession cfg r completed =
     bind_io time_now (\<lambda>t.
     let dur = session_seconds r t in
     bind_io (grant_points cfg r (session_points cfg r t)) (\<lambda>granted.
     let r' = closed_record r completed t dur granted;
         give_back = when_io (granted > 0) (best_effort (idle_ReleaseDailyPoints (ir_user r) granted)) in
     if granted = 0
     then bind_io (markFn completed (ir_id r) t dur 0) (\<lambda>applied. ret (applied, r'))
     else bind_io (attempt (transaction (settle_tx cfg r completed t dur granted))) (\<lambda>res.
       case res of
         Inl e \<Rightarrow> then_io give_back (throw e)
       | Inr applied \<Rightarrow>
           then_io
             (if applied
              then then_io (when_io (granted > 0)
                              (bind_io (gets_io local_day) (\<lambda>day.
                                 best_effort (UpsertDailyPoints (ir_user r) day granted))))
                           (finalizeSettlement cfg r r' (idle_outbox r granted t))
              else give_back)
             (ret (applied, r')))))"

section \<open>Requests\<close>

definition evictOldestIfFull :: "idle_config \<Rightarrow> string \<Rightarrow> (world, unit) io" where
  "evictOldestIfFull cfg u =
     bind_io (wrap_err ''find active all'' (FindActiveAll u)) (\<lambda>rs.
       case rs of
         [] \<Rightarrow> ret ()
       | r # _ \<Rightarrow>
           (if int (length rs) < maxDevices cfg then ret ()
            else then_io (wrap_err ''settle oldest session'' (settleSession cfg r True)) (ret ())))"

definition new_session :: "string \<Rightarrow> string \<Rightarrow> instant \<Rightarrow> idle_record" where
  "new_session u v t = \<lparr>ir_id = 0, ir_user = u, ir_device = v, ir_start = t, ir_end = None,
     ir_heartbeat = Some t, ir_duration = 0, ir_points = 0, ir_status = Active, ir_created = t, ir_updated = t\<rparr>"

text \<open>The record that \<open>Start\<close> created, or the one another request created meanwhile.\<close>

definition create_session :: "string \<Rightarrow> string \<Rightarrow> (world, idle_record) io" where
  "create_session u v =
     bind_io time_now (\<lambda>t.
     bind_io (attempt (idle_Create (new_session u v t))) (\<lambda>res.
       let lost = (\<lambda>e. bind_io (attempt (FindActiveByDevice u v)) (\<lambda>found.
                       case found of
                         Inr (Some r) \<Rightarrow> ret r
                       | _ \<Rightarrow> throw (Wrap ''create idle record'' e)))
       in case res of
            Inl e \<Rightarrow> lost e
          | Inr i \<Rightarrow> if i = 0 then lost (Sentinel ''idle record id missing after create'')
                    else ret ((new_session u v t)\<lparr>ir_id := i\<rparr>)))"

definition idle_Start :: "idle_config \<Rightarrow> string \<Rightarrow> string \<Rightarrow> (world, idle_record) io" where
  "idle_Start cfg u v =
     bind_io (wrap_err ''check device active'' (FindActiveByDevice u v)) (\<lambda>existing.
       case existing of
         Some r \<Rightarrow> ret r
       | None \<Rightarrow>
           then_io (evictOldestIfFull cfg u)
          (bind_io (create_session u v) (\<lambda>r.
           then_io (best_effort (TouchHeartbeat (ic_persist cfg) u v (ic_timeout cfg)))
          (then_io (best_effort (AddActiveSession (ic_set_shards cfg) u v)) (ret r)))))"

definition recordHeartbeat :: "string \<Rightarrow> string \<Rightarrow> (world, unit) io" where
  "recordHeartbeat u v =
     bind_io (gets_io (\<lambda>w. (hb_flusher_on w, now w))) (\<lambda>(on, t). when_io on (modify_io (hb_Record u v t)))"

definition beat :: "idle_config \<Rightarrow> string \<Rightarrow> string \<Rightarrow> (world, unit) io" where
  "beat cfg u v =
     then_io (wrap_err ''touch heartbeat'' (TouchHeartbeat (ic_persist cfg) u v (ic_timeout cfg)))
       (recordHeartbeat u v)"

definition idle_Heartbeat :: "idle_config \<Rightarrow> string \<Rightarrow> string \<Rightarrow> (world, unit) io" where
  "idle_Heartbeat cfg u v =
     bind_io (gets_io heartbeatRedisEnabled) (\<lambda>on.
     bind_io (if on then attempt (IsHeartbeatAlive u v) else ret (Inr False)) (\<lambda>alive.
       if alive = Inr True then beat cfg u v
       else bind_io (wrap_err ''find active'' (FindActiveByDevice u v)) (\<lambda>active.
              case active of
                None \<Rightarrow> throw ErrNotIdle
              | Some r \<Rightarrow> beat cfg u v)))"

definition idle_Stop :: "idle_config \<Rightarrow> string \<Rightarrow> (world, idle_record) io" where
  "idle_Stop cfg u =
     bind_io (wrap_err ''find active'' (FindActiveAll u)) (\<lambda>rs.
       if rs = [] then throw ErrNotIdle
       else bind_io (fold_io (\<lambda>r last. bind_io (settleSession cfg r True) (\<lambda>(applied, r'). ret (Some r'))) rs None)
              (\<lambda>last. case last of Some r \<Rightarrow> ret r | None \<Rightarrow> throw ErrNotIdle))"

definition idle_StopDevice :: "idle_config \<Rightarrow> string \<Rightarrow> string \<Rightarrow> (world, idle_record) io" where
  "idle_StopDevice cfg u v =
     bind_io (wrap_err ''find active'' (FindActiveByDevice u v)) (\<lambda>active.
       case active of
         None \<Rightarrow> throw ErrNotIdle
       | Some r \<Rightarrow> bind_io (settleSession cfg r True) (\<lambda>(applied, r'). ret r'))"

record device_info =
  di_session :: int
  di_device :: string
  di_start :: instant
  di_minutes :: int
  di_heartbeat :: "instant option"

record idle_state =
  is_idle :: bool
  is_max_devices :: int
  is_devices :: "device_info list"

definition device_of :: "(string \<times> int) list \<Rightarrow> instant \<Rightarrow> idle_record \<Rightarrow> device_info" where
  "device_of hb t r = \<lparr>di_session = ir_id r, di_device = ir_device r, di_start = ir_start r,
     di_minutes = go_div (t - ir_start r) minute,
     di_heartbeat = (case map_of (rev hb) (ir_device r) of
         Some ts \<Rightarrow> (if ts > 0 \<and> (case ir_heartbeat r of None \<Rightarrow> True | Some h \<Rightarrow> h < ts * second)
                    then Some (ts * second) else ir_heartbeat r)
       | None \<Rightarrow> ir_heartbeat r)\<rparr>"

definition idle_Status :: "idle_config \<Rightarrow> string \<Rightarrow> (world, idle_state) io" where
  "idle_Status cfg u =
     bind_io (wrap_err ''find active'' (FindActiveAll u)) (\<lambda>rs.
       if rs = [] then ret \<lparr>is_idle = False, is_max_devices = maxDevices cfg, is_devices = []\<rparr>
       else bind_io (attempt (BatchGetHeartbeatTS u (map ir_device rs))) (\<lambda>hb.
            bind_io time_now (\<lambda>t.
              ret \<lparr>is_idle = True, is_max_devices = maxDevices cfg,
                   is_devices = map (device_of (case hb of Inr m \<Rightarrow> m | Inl _ \<Rightarrow> []) t) rs\<rparr>)))"

text \<open>\<open>common.CursorPage\<close>: at most \<open>limit\<close> rows, the next cursor, whether there is more.\<close>

definition CursorPage :: "'r list \<Rightarrow> int \<Rightarrow> ('r \<Rightarrow> int) \<Rightarrow> 'r list \<times> int \<times> bool" where
  "CursorPage rows limit key =
     (let n = nat (if limit \<le> 0 then 20 else limit)
      in if length rows \<le> n then (rows, 0, False)
         else (take n rows, key (rows ! (n - 1)), True))"

definition idle_Records :: "string \<Rightarrow> int \<Rightarrow> int \<Rightarrow> (world, idle_record list \<times> int \<times> bool) io" where
  "idle_Records u cursor limit =
     bind_io (wrap_err ''find records'' (FindRecords u cursor limit)) (\<lambda>rows. ret (CursorPage rows limit ir_id))"

section \<open>Scanners\<close>

definition hbBatchSize :: nat where
  "hbBatchSize = 1000"

fun chunks :: "nat \<Rightarrow> 'x list \<Rightarrow> 'x list list" where
  "chunks n xs = (if n = 0 \<or> xs = [] then [] else take n xs # chunks n (drop n xs))"

declare chunks.simps [simp del]

text \<open>A chunk whose probe fails is skipped.\<close>

definition collectDeadSessions :: "string list \<Rightarrow> (world, string list) io" where
  "collectDeadSessions members =
     fold_io (\<lambda>chunk dead.
       bind_io (attempt (BatchHeartbeatAlive chunk)) (\<lambda>r.
         ret (case r of Inl e \<Rightarrow> dead | Inr ms \<Rightarrow> dead @ ms)))
     (chunks hbBatchSize members) []"

definition grace_period :: "idle_config \<Rightarrow> duration" where
  "grace_period cfg = ic_heartbeat_interval cfg * 2"

definition in_grace :: "idle_config \<Rightarrow> instant \<Rightarrow> idle_record \<Rightarrow> bool" where
  "in_grace cfg t r \<longleftrightarrow> grace_period cfg > 0 \<and> t - ir_start r \<le> grace_period cfg"

definition settle_dead :: "idle_config \<Rightarrow> instant \<Rightarrow> string \<Rightarrow> string \<Rightarrow> (world, nat) io" where
  "settle_dead cfg t u v =
     bind_io (attempt (FindActiveByDevice u v)) (\<lambda>found.
       case found of
         Inr (Some r) \<Rightarrow>
           if in_grace cfg t r then ret 0
           else bind_io (attempt (settleSession cfg r False)) (\<lambda>res.
                  ret (case res of Inr (True, _) \<Rightarrow> 1 | _ \<Rightarrow> 0))
       | _ \<Rightarrow> then_io (best_effort (RemoveActiveSession (ic_set_shards cfg) u v)) (ret 0))"

definition settleDeadSessions :: "idle_config \<Rightarrow> string list \<Rightarrow> (world, nat) io" where
  "settleDeadSessions cfg dead =
     (let picked = (if ic_max_settle cfg > 0 \<and> int (length dead) > ic_max_settle cfg
                    then take (nat (ic_max_settle cfg)) dead else dead)
      in bind_io time_now (\<lambda>t.
         fold_io (\<lambda>m n. case ParseActiveMember m of (u, v) \<Rightarrow>
             if u = [] then ret n
             else bind_io (settle_dead cfg t u v) (\<lambda>k. ret (n + k)))
           picked 0))"

definition scanTimeoutByRedis :: "idle_config \<Rightarrow> scan_state \<Rightarrow> (world, nat) io" where
  "scanTimeoutByRedis cfg st =
     bind_io (wrap_err ''scan active sessions''
       (if scanShardingEnabled st \<and> podSetShards st \<noteq> []
        then ScanActiveSessionsInShards (podSetShards st)
        else ScanActiveSessions (ic_set_shards cfg))) (\<lambda>members.
     bind_io (collectDeadSessions members) (settleDeadSessions cfg))"

definition scanTimeoutByDB :: "idle_config \<Rightarrow> (world, nat) io" where
  "scanTimeoutByDB cfg =
     bind_io time_now (\<lambda>t.
     bind_io (wrap_err ''scan stale active'' (FindStaleActive (t - ic_timeout cfg))) (\<lambda>rs.
       fold_io (\<lambda>r n. bind_io (attempt (settleSession cfg r False)) (\<lambda>res.
         ret (case res of Inr (True, _) \<Rightarrow> n + 1 | _ \<Rightarrow> n))) rs 0))"

definition ScanAndSettleTimeout :: "idle_config \<Rightarrow> scan_state \<Rightarrow> (world, nat) io" where
  "ScanAndSettleTimeout cfg st =
     bind_io (gets_io heartbeatRedisEnabled) (\<lambda>on.
       if on then scanTimeoutByRedis cfg st else scanTimeoutByDB cfg)"

definition BackfillActiveSessions :: "idle_config \<Rightarrow> (world, unit) io" where
  "BackfillActiveSessions cfg =
     bind_io (gets_io heartbeatRedisEnabled) (\<lambda>on.
       if \<not> on then ret ()
       else bind_io (wrap_err ''backfill active'' FindAllActive) (\<lambda>rs.
              for_io rs (\<lambda>r. best_effort (AddActiveSession (ic_set_shards cfg) (ir_user r) (ir_device r)))))"

definition settleLockKey :: "string \<Rightarrow> string \<Rightarrow> string" where
  "settleLockKey u v = ''idle:settle-lock:'' @ u @ '':'' @ v"

definition settle_expired :: "idle_config \<Rightarrow> string \<Rightarrow> string \<Rightarrow> (world, unit) io" where
  "settle_expired cfg u v =
     bind_io (attempt (FindActiveByDevice u v)) (\<lambda>found.
       case found of
         Inr (Some r) \<Rightarrow>
           bind_io time_now (\<lambda>t.
             if in_grace cfg t r
             then best_effort (TouchHeartbeat (ic_persist cfg) u v (ic_timeout cfg))
             else best_effort (settleSession cfg r False))
       | _ \<Rightarrow> then_io (best_effort (DeleteHeartbeat u v))
               (best_effort (RemoveActiveSession (ic_set_shards cfg) u v)))"

definition handleHBExpired :: "idle_config \<Rightarrow> scan_state \<Rightarrow> string \<Rightarrow> (world, unit) io" where
  "handleHBExpired cfg st msg =
     (case ParseHeartbeatKey msg of
        None \<Rightarrow> ret ()
      | Some (u, v) \<Rightarrow>
          if \<not> ownsSessionByShard st u then ret ()
          else bind_io (attempt (manager_lock (settleLockKey u v) (15 * second))) (\<lambda>locked.
                 if locked \<noteq> Inr True then ret ()
                 else finally_io (settle_expired cfg u v) (manager_unlock (settleLockKey u v))))"

definition FlushHeartbeats :: "(world, nat) io" where
  "FlushHeartbeats = bind_io (gets_io hb_flusher_on) (\<lambda>on. if on then hb_Flush else ret 0)"

definition service_BackfillDailyPoints :: "(world, nat) io" where
  "service_BackfillDailyPoints = bind_io (gets_io local_day) BackfillDailyPoints"

text \<open>The goroutine of \<open>emitIdleSettledAsync\<close>; a failed send is dropped.\<close>

definition run_emit :: "bool \<Rightarrow> message \<Rightarrow> message \<Rightarrow> (world, unit) io" where
  "run_emit early before after = best_effort (publish (if early then before else after))"

end
