(* ===== verification/IdleInvariants.thy ===== *)
theory IdleInvariants
  imports IdleService
begin

text \<open>
  What the idle service keeps of its tables. Every operation writes the tables only by the
  steps of \<open>idle_db_step\<close>, one statement or one transaction each, whatever calls fail on the
  way; the invariants are proved of the steps, so they hold for every interleaving of the
  operations of all processes.
\<close>

section \<open>The steps\<close>

definition close_session :: "int \<Rightarrow> idle_status \<Rightarrow> instant \<Rightarrow> int \<Rightarrow> int \<Rightarrow> instant \<Rightarrow> business_db \<Rightarrow> business_db" where
  "close_session i st e dur pts t d = d\<lparr>idle_records :=
     update_where (\<lambda>r. ir_id r = i \<and> is_active r) (settled st e dur pts t) (idle_records d)\<rparr>"

definition pay_session :: "points_transaction \<Rightarrow> points_outbox \<Rightarrow> instant \<Rightarrow> business_db \<Rightarrow> business_db" where
  "pay_session pt ob t d =
     d\<lparr>points_transactions := points_transactions d
         @ [pt\<lparr>pt_id := next_id pt_id (points_transactions d), pt_created := t\<rparr>],
       outbox_rows := outbox_rows d
         @ [ob\<lparr>ob_id := next_id ob_id (outbox_rows d), ob_created := t, ob_updated := t\<rparr>]\<rparr>"

definition session_is_active :: "int \<Rightarrow> business_db \<Rightarrow> bool" where
  "session_is_active i d \<longleftrightarrow> (\<exists>r \<in> set (idle_records d). ir_id r = i \<and> is_active r)"

inductive idle_db_step :: "business_db \<Rightarrow> business_db \<Rightarrow> bool" where
  create: "ir_status rec = Active \<Longrightarrow> ir_points rec = 0 \<Longrightarrow>
     idle_db_step d (d\<lparr>idle_records := snd (insert_session rec t (idle_records d))\<rparr>)"
| close: "st \<noteq> Active \<Longrightarrow> idle_db_step d (close_session i st e dur 0 t d)"
| settle: "st \<noteq> Active \<Longrightarrow> session_is_active (ir_id r) d \<Longrightarrow> pts \<noteq> 0 \<Longrightarrow>
     idle_event (ir_id r) \<notin> ob_event ` set (outbox_rows d) \<Longrightarrow>
     idle_db_step d (pay_session (idle_transaction r pts) (idle_outbox r pts e) t
                       (close_session (ir_id r) st e dur pts t d))"
| heartbeat: "(\<And>r. p r \<Longrightarrow> is_active r) \<Longrightarrow>
     idle_db_step d (d\<lparr>idle_records :=
        update_where p (\<lambda>r. r\<lparr>ir_heartbeat := h r, ir_updated := t\<rparr>) (idle_records d)\<rparr>)"
| daily: "idle_db_step d (d\<lparr>idle_daily := x\<rparr>)"

interpretation steps: db_relation "idle_db_step\<^sup>*\<^sup>*"
  by unfold_locales auto

section \<open>Every operation writes by these steps\<close>

lemma ev_idle_Create:
  "ir_status rec = Active \<Longrightarrow> ir_points rec = 0 \<Longrightarrow> evolves (on_db idle_db_step\<^sup>*\<^sup>*) (idle_Create rec)"
  unfolding idle_Create_def
  by (intro steps.ev_world steps.ev_idle steps.ev_db_write)
    (auto simp: case_prod_beta intro: idle_db_step.create)

lemma final_status_neq [simp]: "final_status c \<noteq> Active"
  by (simp add: final_status_def)

lemma markFn_eq: "markFn c i t dur pts = markSettled i (final_status c) t dur pts"
  by (simp add: markFn_def final_status_def CompleteIfActive_def TimeoutIfActive_def)

lemma ev_markFn_zero: "evolves (on_db idle_db_step\<^sup>*\<^sup>*) (markFn c i t dur 0)"
  unfolding markFn_eq markSettled_def
  by (intro steps.ev_db_write) (auto simp: close_session_def [symmetric] intro!: idle_db_step.close)

lemma markSettled_cases:
  assumes "markSettled i st e dur pts w = (res, w')"
  shows "(\<exists>x. res = Inl x) \<and> db w' = db w \<and> now w' = now w \<or>
    res = Inr (session_is_active i (db w)) \<and> db w' = close_session i st e dur pts (now w) (db w) \<and> now w' = now w"
  using assms
  by (auto simp: markSettled_def db_write_def ext_def close_session_def session_is_active_def rows_affected_pos
      split: list.splits if_splits)

lemma CreateTransaction_cases:
  assumes "CreateTransaction pt w = (res, w')"
  shows "(\<exists>x. res = Inl x) \<or>
    res = Inr () \<and> now w' = now w \<and> db w' = (db w)\<lparr>points_transactions := points_transactions (db w)
         @ [pt\<lparr>pt_id := next_id pt_id (points_transactions (db w)), pt_created := now w\<rparr>]\<rparr>"
  using assms by (auto simp: CreateTransaction_def db_write_def ext_def split: list.splits if_splits)

lemma AppendOutbox_cases:
  assumes "AppendOutboxInTx ob w = (res, w')"
  shows "(\<exists>x. res = Inl x) \<or>
    res = Inr () \<and> ob_event ob \<notin> ob_event ` set (outbox_rows (db w)) \<and>
    db w' = (db w)\<lparr>outbox_rows := outbox_rows (db w)
         @ [ob\<lparr>ob_id := next_id ob_id (outbox_rows (db w)), ob_created := now w, ob_updated := now w\<rparr>]\<rparr>"
  using assms by (auto simp: AppendOutboxInTx_def db_try_def ext_def split: list.splits if_splits)

text \<open>What the settlement transaction does when its body returns without an error.\<close>

lemma settle_tx_cases:
  assumes "settle_tx cfg r c e dur pts w = (Inr applied, w')" and "ic_points_on cfg"
  shows "if applied
    then session_is_active (ir_id r) (db w) \<and> idle_event (ir_id r) \<notin> ob_event ` set (outbox_rows (db w)) \<and>
      db w' = pay_session (idle_transaction r pts) (idle_outbox r pts e) (now w)
                (close_session (ir_id r) (final_status c) e dur pts (now w) (db w))
    else \<not> session_is_active (ir_id r) (db w) \<and>
      db w' = close_session (ir_id r) (final_status c) e dur pts (now w) (db w)"
proof -
  obtain ok w1 where m: "markFn c (ir_id r) e dur pts w = (Inr ok, w1)"
    and k: "(if \<not> ok then ret False
       else then_io (wrap_err ''create points transaction'' (CreateTransaction (idle_transaction r pts)))
           (then_io (if ic_points_on cfg
                     then wrap_err ''append points outbox'' (AppendOutboxInTx (idle_outbox r pts e)) else ret ())
                    (ret True))) w1 = (Inr applied, w')"
    using assms(1) unfolding settle_tx_def bind_io_Inr by blast
  have w1: "ok = session_is_active (ir_id r) (db w)" "now w1 = now w"
    "db w1 = close_session (ir_id r) (final_status c) e dur pts (now w) (db w)"
    using markSettled_cases [OF m [unfolded markFn_eq]] by auto
  show ?thesis
  proof (cases ok)
    case False
    then show ?thesis using k w1 by (simp add: ret_def)
  next
    case True
    obtain w2 where 2: "CreateTransaction (idle_transaction r pts) w1 = (Inr (), w2)"
      and 3: "AppendOutboxInTx (idle_outbox r pts e) w2 = (Inr (), w')" and "applied"
      using k True assms(2)
      by (auto simp: then_io_def bind_io_def wrap_err_def ret_def split: prod.splits sum.splits)
    have "outbox_rows (db w1) = outbox_rows (db w)" by (simp add: w1 close_session_def)
    then show ?thesis
      using CreateTransaction_cases [OF 2] AppendOutbox_cases [OF 3] w1 True \<open>applied\<close>
      by (auto simp: pay_session_def close_session_def idle_outbox_def)
  qed
qed

lemma close_none:
  "\<not> session_is_active i d \<Longrightarrow> close_session i st e dur pts t d = d"
  unfolding close_session_def session_is_active_def by (subst update_where_none) auto

lemma ev_settle_tx:
  assumes "ic_points_on cfg" and "pts \<noteq> 0"
  shows "evolves (on_db idle_db_step\<^sup>*\<^sup>*) (transaction (settle_tx cfg r c e dur pts))"
proof (rule evolvesI)
  fix w
  obtain res v where b: "settle_tx cfg r c e dur pts w = (res, v)" by fastforce
  show "on_db idle_db_step\<^sup>*\<^sup>* w (snd (transaction (settle_tx cfg r c e dur pts) w))"
  proof (cases res)
    case (Inl x)
    then show ?thesis using b by (simp add: transaction_def on_db_def)
  next
    case (Inr applied)
    have "idle_db_step\<^sup>*\<^sup>* (db w) (db v)"
    proof (cases applied)
      case True
      note t = settle_tx_cases [OF b [unfolded Inr] assms(1)]
      show ?thesis using t True assms(2) by (auto intro!: idle_db_step.settle)
    next
      case False
      then show ?thesis using settle_tx_cases [OF b [unfolded Inr] assms(1)] by (simp add: close_none)
    qed
    then show ?thesis using b Inr
      by (auto simp: transaction_def on_db_def ext_def ret_def split: list.splits)
  qed
qed

lemma ev_Upsert: "evolves (on_db idle_db_step\<^sup>*\<^sup>*) (UpsertDailyPoints u day n)"
  unfolding UpsertDailyPoints_def
  by (intro steps.ev_world steps.ev_db_write) (auto intro: idle_db_step.daily)

lemma ev_ApplyAsync: "evolves (on_db idle_db_step\<^sup>*\<^sup>*) (ApplyAsync ob)"
  unfolding ApplyAsync_def publish_adjust_def by (intro steps.ev_world)

lemma ev_finalize: "evolves (on_db idle_db_step\<^sup>*\<^sup>*) (finalizeSettlement cfg r r' ob)"
  unfolding finalizeSettlement_def by (intro steps.ev_world steps.ev_idle ev_ApplyAsync)

lemma ev_settleSession:
  assumes "ic_points_on cfg"
  shows "evolves (on_db idle_db_step\<^sup>*\<^sup>*) (settleSession cfg r c)"
  unfolding settleSession_def grant_points_def Let_def
  by (intro steps.ev_world steps.ev_idle ev_markFn_zero ev_settle_tx ev_Upsert ev_finalize assms)

lemma ev_Touch: "evolves (on_db idle_db_step\<^sup>*\<^sup>*) (TouchHeartbeat b u v ttl)"
  unfolding TouchHeartbeat_def updateHeartbeatDB_def
  by (intro steps.ev_world steps.ev_l2 steps.ev_db_write)
    (auto intro!: idle_db_step.heartbeat simp: active_of_def is_active_def)

lemma ev_hb_Flush: "evolves (on_db idle_db_step\<^sup>*\<^sup>*) hb_Flush"
proof -
  have "evolves (on_db idle_db_step\<^sup>*\<^sup>*) hb_drain"
    by (rule steps.ev_same_db) (simp add: hb_drain_def)
  moreover have "evolves (on_db idle_db_step\<^sup>*\<^sup>*) (BatchUpdateHeartbeat items)" for items
    unfolding BatchUpdateHeartbeat_def apply_heartbeats_def
    by (intro steps.ev_world steps.ev_db_write) (auto intro!: idle_db_step.heartbeat)
  ultimately show ?thesis unfolding hb_Flush_def by (intro steps.ev_world)
qed

lemma ev_create_session: "evolves (on_db idle_db_step\<^sup>*\<^sup>*) (create_session u v)"
  unfolding create_session_def Let_def
  by (intro steps.ev_world steps.ev_idle ev_idle_Create) (simp_all add: new_session_def)

lemma ev_record: "evolves (on_db idle_db_step\<^sup>*\<^sup>*) (recordHeartbeat u v)"
  unfolding recordHeartbeat_def
  by (intro steps.ev_world steps.ev_modify) (simp add: hb_Record_def)

text \<open>A request of the service; results and errors go back to the caller.\<close>

datatype idle_request =
    Start string string
  | Beat string string
  | Stop string
  | StopDevice string string
  | ScanTimeout
  | Expired string
  | FlushBeats
  | BackfillSessions
  | BackfillDaily

definition run_request :: "idle_config \<Rightarrow> scan_state \<Rightarrow> idle_request \<Rightarrow> (world, unit) io" where
  "run_request cfg st req = (case req of
      Start u v \<Rightarrow> best_effort (idle_Start cfg u v)
    | Beat u v \<Rightarrow> best_effort (idle_Heartbeat cfg u v)
    | Stop u \<Rightarrow> best_effort (idle_Stop cfg u)
    | StopDevice u v \<Rightarrow> best_effort (idle_StopDevice cfg u v)
    | ScanTimeout \<Rightarrow> best_effort (ScanAndSettleTimeout cfg st)
    | Expired key \<Rightarrow> best_effort (handleHBExpired cfg st key)
    | FlushBeats \<Rightarrow> best_effort FlushHeartbeats
    | BackfillSessions \<Rightarrow> best_effort (BackfillActiveSessions cfg)
    | BackfillDaily \<Rightarrow> best_effort service_BackfillDailyPoints)"

lemma ev_requests:
  assumes "ic_points_on cfg"
  shows "evolves (on_db idle_db_step\<^sup>*\<^sup>*) (idle_Start cfg u v)"
    and "evolves (on_db idle_db_step\<^sup>*\<^sup>*) (idle_Heartbeat cfg u v)"
    and "evolves (on_db idle_db_step\<^sup>*\<^sup>*) (idle_Stop cfg u)"
    and "evolves (on_db idle_db_step\<^sup>*\<^sup>*) (idle_StopDevice cfg u v)"
    and "evolves (on_db idle_db_step\<^sup>*\<^sup>*) FlushHeartbeats"
    and "evolves (on_db idle_db_step\<^sup>*\<^sup>*) (BackfillActiveSessions cfg)"
    and "evolves (on_db idle_db_step\<^sup>*\<^sup>*) service_BackfillDailyPoints"
  unfolding idle_Start_def evictOldestIfFull_def idle_Heartbeat_def beat_def idle_Stop_def idle_StopDevice_def
    FlushHeartbeats_def BackfillActiveSessions_def service_BackfillDailyPoints_def BackfillDailyPoints_def Let_def
  by (intro steps.ev_world steps.ev_idle ev_settleSession ev_create_session ev_Touch ev_record ev_hb_Flush
      steps.ev_db_write assms; auto intro: idle_db_step.daily)+

lemma ev_scans:
  assumes "ic_points_on cfg"
  shows "evolves (on_db idle_db_step\<^sup>*\<^sup>*) (ScanAndSettleTimeout cfg st)"
    and "evolves (on_db idle_db_step\<^sup>*\<^sup>*) (handleHBExpired cfg st key)"
  unfolding ScanAndSettleTimeout_def scanTimeoutByRedis_def scanTimeoutByDB_def collectDeadSessions_def
    settleDeadSessions_def settle_dead_def handleHBExpired_def settle_expired_def Let_def
  by (intro steps.ev_world steps.ev_idle ev_settleSession ev_Touch steps.ev_manager_lock assms)+

lemma ev_run_request:
  assumes "ic_points_on cfg"
  shows "evolves (on_db idle_db_step\<^sup>*\<^sup>*) (run_request cfg st req)"
  unfolding run_request_def
  by (cases req) (auto intro!: steps.ev_world ev_requests [OF assms] ev_scans [OF assms])

text \<open>C7. Whatever request is served, whatever caches, replica and Redis hold and whatever calls
  fail, the business tables change only by single statements and settlement transactions of
  the kinds of \<open>idle_db_step\<close>.\<close>

theorem idle_requests_refine_steps:
  assumes "ic_points_on cfg" and "run_request cfg st req w = (res, w')"
  shows "idle_db_step\<^sup>*\<^sup>* (db w) (db w')"
  using evolvesD [OF ev_run_request [OF assms(1)] assms(2)] by (simp add: on_db_def)

definition sample_config :: idle_config where
  "sample_config = \<lparr>ic_timeout = 3 * minute, ic_heartbeat_interval = minute, ic_points_per_minute = 2,
     ic_daily_limit = 0, ic_max_devices = 2, ic_max_settle = 0, ic_set_shards = 4, ic_persist = False,
     ic_points_on = True\<rparr>"

theorem idle_requests_refine_steps_witness:
  "idle_db_step\<^sup>*\<^sup>* (db sample_idle) (db (snd (run_request sample_config sample_scan_state (Stop ''u1'') sample_idle)))"
  by (rule idle_requests_refine_steps [OF _ prod.collapse [symmetric]]) (simp add: sample_config_def)

section \<open>The invariants\<close>

text \<open>At most one active session of a user and device.\<close>

definition one_active :: "business_db \<Rightarrow> bool" where
  "one_active d \<longleftrightarrow> distinct (map (\<lambda>r. (ir_user r, ir_device r)) (filter is_active (idle_records d)))"

lemma one_active_close:
  assumes "one_active d" and "st \<noteq> Active"
  shows "one_active (close_session i st e dur pts t d)"
proof -
  have "filter is_active (update_where (\<lambda>r. ir_id r = i \<and> is_active r) (settled st e dur pts t) rows) =
      filter (\<lambda>r. ir_id r \<noteq> i) (filter is_active rows)" for rows
    using assms(2) by (induction rows) (auto simp: update_where_def settled_def is_active_def)
  then have "filter is_active (idle_records (close_session i st e dur pts t d)) =
      filter (\<lambda>r. ir_id r \<noteq> i) (filter is_active (idle_records d))"
    by (simp add: close_session_def)
  then show ?thesis using assms(1) by (simp only: one_active_def distinct_map_filter)
qed

lemma one_active_step:
  assumes "idle_db_step d d'" and "one_active d"
  shows "one_active d'"
  using assms
proof cases
  case (create rec t)
  show ?thesis
    using assms(2) create
    by (auto simp: insert_session_def one_active_def is_active_def active_of_def)
next
  case (close st i e dur t)
  then show ?thesis using assms(2) by (simp add: one_active_close)
next
  case (settle st r pts e t dur)
  then show ?thesis
    using one_active_close [OF assms(2)] by (simp add: one_active_def pay_session_def)
next
  case (heartbeat p t h)
  have "filter is_active (update_where p (\<lambda>r. r\<lparr>ir_heartbeat := h r, ir_updated := t\<rparr>) rows) =
      update_where p (\<lambda>r. r\<lparr>ir_heartbeat := h r, ir_updated := t\<rparr>) (filter is_active rows)" for rows
    by (induction rows) (auto simp: update_where_def is_active_def)
  then show ?thesis using assms(2) heartbeat by (simp add: one_active_def map_update_where)
next
  case (daily x)
  then show ?thesis using assms(2) by (simp add: one_active_def)
qed

text \<open>The books: one payment and one event of its points for every settled session, none else.\<close>

definition idle_payments :: "int \<Rightarrow> business_db \<Rightarrow> int list" where
  "idle_payments i d = map pt_amount
     (filter (\<lambda>t. pt_type t = ''idle_reward'' \<and> pt_reference t = idle_ref i) (points_transactions d))"

definition idle_events :: "int \<Rightarrow> business_db \<Rightarrow> int list" where
  "idle_events i d = map ob_delta (filter (\<lambda>r. ob_event r = idle_event i) (outbox_rows d))"

definition earned :: "int \<Rightarrow> idle_record list \<Rightarrow> int list" where
  "earned i rows =
     concat (map (\<lambda>r. if ir_id r = i \<and> \<not> is_active r \<and> ir_points r \<noteq> 0 then [ir_points r] else []) rows)"

definition books_balance :: "business_db \<Rightarrow> bool" where
  "books_balance d \<longleftrightarrow> distinct (map ir_id (idle_records d)) \<and>
     (\<forall>i. idle_payments i d = earned i (idle_records d) \<and> idle_events i d = earned i (idle_records d))"

lemma idle_names_inject [simp]:
  "idle_event i = idle_event j \<longleftrightarrow> i = j" "idle_ref i = idle_ref j \<longleftrightarrow> i = j"
  by (simp_all add: idle_event_def idle_ref_def)

lemma earned_absent: "i \<notin> ir_id ` set rows \<Longrightarrow> earned i rows = []"
  by (induction rows) (auto simp: earned_def)

lemma earned_Cons: "earned i (r # rows) =
    (if ir_id r = i \<and> \<not> is_active r \<and> ir_points r \<noteq> 0 then [ir_points r] else []) @ earned i rows"
  by (simp add: earned_def)

lemma settled_simps [simp]:
  "ir_id (settled st e dur pts t r) = ir_id r" "ir_points (settled st e dur pts t r) = pts"
  "ir_user (settled st e dur pts t r) = ir_user r" "ir_device (settled st e dur pts t r) = ir_device r"
  "is_active (settled st e dur pts t r) \<longleftrightarrow> st = Active"
  by (simp_all add: settled_def is_active_def)

lemma earned_close:
  assumes "distinct (map ir_id rows)" and "r0 \<in> set rows" "ir_id r0 = j" "is_active r0" and "st \<noteq> Active"
  shows "earned i (update_where (\<lambda>r. ir_id r = j \<and> is_active r) (settled st e dur pts t) rows) =
    (if i = j then (if pts = 0 then [] else [pts]) else earned i rows)"
  using assms(1-3)
proof (induction rows)
  case Nil
  then show ?case by simp
next
  case (Cons a rows)
  let ?up = "update_where (\<lambda>r. ir_id r = j \<and> is_active r) (settled st e dur pts t)"
  have up: "?up (a # rows) = (if ir_id a = j \<and> is_active a then settled st e dur pts t a else a) # ?up rows"
    by (simp add: update_where_def)
  show ?case
  proof (cases "r0 = a")
    case True
    then have absent: "j \<notin> ir_id ` set rows" using Cons.prems by auto
    then have "?up rows = rows" by (intro update_where_none) auto
    then show ?thesis using True Cons.prems assms(4,5) earned_absent [OF absent]
      by (auto simp: up earned_Cons)
  next
    case False
    then have "r0 \<in> set rows" "ir_id a \<noteq> j" using Cons.prems by auto
    then show ?thesis using Cons by (auto simp: up earned_Cons)
  qed
qed

lemma earned_before:
  assumes "distinct (map ir_id rows)" and "r0 \<in> set rows" "is_active r0"
  shows "earned (ir_id r0) rows = []"
  using assms(1,2)
proof (induction rows)
  case (Cons a rows)
  then show ?case
    using assms(3) by (cases "r0 = a") (auto simp: earned_Cons earned_absent)
qed simp

lemma books_step:
  assumes "idle_db_step d d'" and "books_balance d"
  shows "books_balance d'"
  using assms(1)
proof cases
  case (create rec t)
  have "next_id ir_id (idle_records d) \<notin> ir_id ` set (idle_records d)" by (rule next_id_fresh)
  then show ?thesis using assms(2) create
    by (auto simp: insert_session_def books_balance_def idle_payments_def idle_events_def earned_def is_active_def)
next
  case (close st i e dur t)
  have "earned j (idle_records d') = earned j (idle_records d)" for j
  proof (cases "session_is_active i d")
    case True
    then obtain r0 where r0: "r0 \<in> set (idle_records d)" "ir_id r0 = i" "is_active r0"
      by (auto simp: session_is_active_def)
    have "distinct (map ir_id (idle_records d))" using assms(2) by (simp add: books_balance_def)
    then show ?thesis
      using earned_close [OF _ r0 close(2)] earned_before [OF _ r0(1,3)] r0(2)
      by (simp add: close(1) close_session_def)
  next
    case False
    then show ?thesis by (simp add: close(1) close_none)
  qed
  then show ?thesis using assms(2) close
    by (simp add: books_balance_def close_session_def map_update_where idle_payments_def idle_events_def)
next
  case (settle st r pts e t dur)
  let ?i = "ir_id r"
  obtain r0 where r0: "r0 \<in> set (idle_records d)" "ir_id r0 = ?i" "is_active r0"
    using settle(3) by (auto simp: session_is_active_def)
  have dist: "distinct (map ir_id (idle_records d))" using assms(2) by (simp add: books_balance_def)
  have rows: "earned j (idle_records d') = (if j = ?i then [pts] else earned j (idle_records d))" for j
    using earned_close [OF dist r0 settle(2)] settle(4)
    by (simp add: settle(1) pay_session_def close_session_def)
  have none: "earned ?i (idle_records d) = []" using earned_before [OF dist r0(1,3)] r0(2) by simp
  have pay: "idle_payments j d' = idle_payments j d @ (if j = ?i then [pts] else [])"
    and events: "idle_events j d' = idle_events j d @ (if j = ?i then [pts] else [])" for j
    by (auto simp: settle(1) idle_payments_def idle_events_def pay_session_def close_session_def
        idle_transaction_def idle_outbox_def)
  have "map ir_id (idle_records d') = map ir_id (idle_records d)"
    by (simp add: settle(1) pay_session_def close_session_def map_update_where)
  then show ?thesis using assms(2) rows pay events none by (simp add: books_balance_def)
next
  case (heartbeat p t h)
  let ?f = "\<lambda>r. r\<lparr>ir_heartbeat := h r, ir_updated := t\<rparr>"
  have "earned i (update_where p ?f rows) = earned i rows" for i rows
  proof (induction rows)
    case Nil
    then show ?case by (simp add: update_where_def)
  next
    case (Cons a rows)
    have "update_where p ?f (a # rows) = (if p a then ?f a else a) # update_where p ?f rows"
      by (simp add: update_where_def)
    then show ?case using Cons by (simp add: earned_Cons is_active_def)
  qed
  then show ?thesis using assms(2) heartbeat
    by (simp add: books_balance_def map_update_where idle_payments_def idle_events_def)
next
  case (daily x)
  then show ?thesis using assms(2) by (simp add: books_balance_def idle_payments_def idle_events_def)
qed

text \<open>A session that is not active keeps its row for ever.\<close>

lemma closed_rows_stay:
  assumes "idle_db_step d d'" and "r \<in> set (idle_records d)" and "\<not> is_active r"
  shows "r \<in> set (idle_records d')"
  using assms
proof cases
  case (create rec t)
  then show ?thesis using assms(2) by (auto simp: insert_session_def)
next
  case (close st i e dur t)
  then show ?thesis using assms(2,3) by (auto simp: close_session_def set_update_where)
next
  case (settle st r' pts e t dur)
  then show ?thesis using assms(2,3) by (auto simp: close_session_def pay_session_def set_update_where)
next
  case (heartbeat p t h)
  then show ?thesis using assms(2,3) by (auto simp: set_update_where)
next
  case (daily x)
  then show ?thesis using assms(2) by simp
qed

section \<open>Runs\<close>

text \<open>
  A run: requests served by any pod, and anything else that leaves the sessions and their
  payments alone (time, caches, Redis, replicas, other services).
\<close>

inductive idle_run :: "idle_config \<Rightarrow> world \<Rightarrow> world \<Rightarrow> bool" for cfg :: idle_config where
  none: "idle_run cfg w w"
| request: "idle_run cfg u v \<Longrightarrow> run_request cfg st req v = (res, w) \<Longrightarrow> idle_run cfg u w"
| other: "idle_run cfg u v \<Longrightarrow> idle_records (db w) = idle_records (db v) \<Longrightarrow>
     (\<And>i. idle_payments i (db w) = idle_payments i (db v) \<and> idle_events i (db w) = idle_events i (db v)) \<Longrightarrow>
     idle_run cfg u w"

locale idle_invariant = step_invariant idle_db_step P for P +
  assumes same_books: "idle_records d' = idle_records d \<Longrightarrow>
      \<forall>i. idle_payments i d' = idle_payments i d \<and> idle_events i d' = idle_events i d \<Longrightarrow> P d \<Longrightarrow> P d'"
begin

lemma kept_by_request:
  assumes "ic_points_on cfg" and "run_request cfg st req v = (res, w)" and "P (db v)"
  shows "P (db w)"
  using many_steps [OF _ assms(3)] evolvesD [OF ev_run_request [OF assms(1)] assms(2)] by (simp add: on_db_def)

lemma kept_by_run:
  assumes "idle_run cfg w w'" and "ic_points_on cfg" and "P (db w)"
  shows "P (db w')"
  using assms
proof (induction rule: idle_run.induct)
  case (request u v st req res w)
  then show ?case using kept_by_request by blast
next
  case (other u v w)
  then show ?case using same_books [of "db w" "db v"] by blast
qed auto

end

interpretation unique_sessions: idle_invariant one_active
  by unfold_locales (blast intro: one_active_step, simp add: one_active_def)

interpretation books: idle_invariant books_balance
  by unfold_locales (blast intro: books_step, simp add: books_balance_def)

interpretation closed_row: idle_invariant "\<lambda>d. r \<in> set (idle_records d) \<and> \<not> is_active r" for r
  by unfold_locales (auto intro: closed_rows_stay)

text \<open>C14. No user ever has two active sessions on one device, however requests of all pods
  interleave and whatever fails.\<close>

theorem one_active_session_per_device:
  assumes "idle_run cfg w w'" and "ic_points_on cfg" and "one_active (db w)"
  shows "one_active (db w')"
  using assms by (rule unique_sessions.kept_by_run)

text \<open>C1. The books always balance: a session that was settled with points has exactly one payment
  and exactly one outbox event, both of exactly its points, and no other session has any; a
  crash, a failed call or a second settlement cannot lose or repeat one.\<close>

theorem settled_sessions_are_paid_once:
  assumes "idle_run cfg w w'" and "ic_points_on cfg" and "books_balance (db w)"
  shows "books_balance (db w')"
  using assms by (rule books.kept_by_run)

text \<open>A completed or timed-out session is final: its row never changes again.\<close>

theorem settled_session_is_final:
  assumes "idle_run cfg w w'" and "ic_points_on cfg" and "r \<in> set (idle_records (db w))" and "ir_status r \<noteq> Active"
  shows "r \<in> set (idle_records (db w'))"
  using closed_row.kept_by_run [OF assms(1,2), of r] assms(3,4) by (simp add: is_active_def)

definition sample_stopped :: world where
  "sample_stopped = snd (run_request sample_config sample_scan_state (Start ''u1'' ''tv'')
     (snd (run_request sample_config sample_scan_state (Stop ''u1'') sample_idle)))"

lemma sample_run: "idle_run sample_config sample_idle sample_stopped"
  unfolding sample_stopped_def
  by (rule idle_run.request [OF idle_run.request [OF idle_run.none]]) (rule prod.collapse [symmetric])+

theorem one_active_session_per_device_witness: "one_active (db sample_stopped)"
  by (rule one_active_session_per_device [OF sample_run])
    (simp_all add: sample_config_def sample_idle_def one_active_def empty_world_def empty_db_def)

theorem settled_sessions_are_paid_once_witness: "books_balance (db sample_stopped)"
  by (rule settled_sessions_are_paid_once [OF sample_run])
    (simp_all add: sample_config_def sample_idle_def books_balance_def idle_payments_def idle_events_def
      earned_def sample_session_def is_active_def empty_world_def empty_db_def)

definition sample_two :: world where
  "sample_two = sample_idle\<lparr>db := (db sample_idle)\<lparr>idle_records :=
     [sample_session, sample_session\<lparr>ir_id := 2, ir_status := Completed\<rparr>]\<rparr>\<rparr>"

theorem settled_session_is_final_witness:
  "sample_session\<lparr>ir_id := 2, ir_status := Completed\<rparr> \<in>
     set (idle_records (db (snd (run_request sample_config sample_scan_state (Stop ''u1'') sample_two))))"
  by (rule settled_session_is_final [OF idle_run.request [OF idle_run.none prod.collapse [symmetric]]])
    (simp_all add: sample_config_def sample_two_def)

section \<open>A second settlement\<close>

lemma grant_same_db: "grant_points cfg r pts w = (res, w') \<Longrightarrow> db w' = db w"
proof -
  have "evolves (on_db (=)) (grant_points cfg r pts)"
    unfolding grant_points_def by (intro unchanged.ev_world unchanged.ev_idle)
  then show "grant_points cfg r pts w = (res, w') \<Longrightarrow> db w' = db w" by (auto dest: evolvesD simp: on_db_def)
qed

lemma give_back_same_db: "db (snd (when_io b (best_effort (idle_ReleaseDailyPoints u n)) w)) = db w"
proof -
  have "evolves (on_db (=)) (when_io b (best_effort (idle_ReleaseDailyPoints u n)))"
    by (intro unchanged.ev_world unchanged.ev_idle)
  then show ?thesis by (simp add: evolves_def on_db_def)
qed

lemma inactive_mark:
  assumes "\<not> session_is_active i (db w)" and "markFn c i t dur pts w = (res, w')"
  shows "db w' = db w \<and> res \<noteq> Inr True"
  using markSettled_cases [OF assms(2) [unfolded markFn_eq]] assms(1) by (auto simp: close_none)

lemma inactive_tx:
  assumes "\<not> session_is_active (ir_id r) (db w)" and "transaction (settle_tx cfg r c t dur pts) w = (res, w')"
  shows "db w' = db w \<and> res \<noteq> Inr True"
proof -
  obtain ok v where m: "markFn c (ir_id r) t dur pts w = (ok, v)" by fastforce
  note i = inactive_mark [OF assms(1) m]
  have "settle_tx cfg r c t dur pts w = (case ok of Inl e \<Rightarrow> (Inl e, v) | Inr x \<Rightarrow> (Inr False, v))"
    using m i by (auto simp: settle_tx_def bind_io_def ret_def split: sum.splits)
  then show ?thesis using assms(2) i
    by (auto simp: transaction_def ext_def ret_def split: sum.splits list.splits if_splits)
qed

text \<open>Settling a session that is no longer active changes nothing in the tables and is never
  reported as a settlement, so of all attempts on one session at most one succeeds.\<close>

theorem second_settlement_does_nothing:
  assumes "\<not> session_is_active (ir_id r) (db w)" and "settleSession cfg r c w = (res, w')"
  shows "db w' = db w \<and> (\<forall>r'. res \<noteq> Inr (True, r'))"
proof -
  let ?dur = "session_seconds r (now w)"
  obtain g w1 where g: "grant_points cfg r (session_points cfg r (now w)) w = (g, w1)" by fastforce
  then have db1: "db w1 = db w" by (rule grant_same_db)
  have inactive: "\<not> session_is_active (ir_id r) (db w1)" using assms(1) db1 by simp
  show ?thesis
  proof (cases g)
    case (Inl e)
    then show ?thesis using assms(2) g db1
      by (auto simp: settleSession_def time_now_def bind_io_def gets_io_def Let_def)
  next
    case (Inr granted)
    show ?thesis
    proof (cases "granted = 0")
      case True
      obtain ok w2 where m: "markFn c (ir_id r) (now w) ?dur 0 w1 = (ok, w2)" by fastforce
      show ?thesis using assms(2) g Inr True m inactive_mark [OF inactive m] db1
        by (auto simp: settleSession_def time_now_def bind_io_def gets_io_def Let_def ret_def split: sum.splits)
    next
      case False
      obtain ok w2 where t: "transaction (settle_tx cfg r c (now w) ?dur granted) w1 = (ok, w2)" by fastforce
      note i = inactive_tx [OF inactive t]
      obtain gr w3 where b: "when_io (granted > 0) (best_effort (idle_ReleaseDailyPoints (ir_user r) granted)) w2 = (gr, w3)"
        by fastforce
      have db3: "db w3 = db w"
        using give_back_same_db [of "granted > 0" "ir_user r" granted w2] b i db1 by simp
      have "w' = w3 \<and> (\<forall>r'. res \<noteq> Inr (True, r'))"
        using assms(2) g Inr False t b i
        by (cases ok; cases gr) (auto simp: settleSession_def time_now_def bind_io_def gets_io_def Let_def ret_def
            attempt_def then_io_def throw_def)
      then show ?thesis using db3 by simp
    qed
  qed
qed

theorem second_settlement_does_nothing_witness:
  "db (snd (settleSession sample_config sample_session True (sample_two\<lparr>db := empty_db\<rparr>))) = db (sample_two\<lparr>db := empty_db\<rparr>) \<and>
   (\<forall>r'. fst (settleSession sample_config sample_session True (sample_two\<lparr>db := empty_db\<rparr>)) \<noteq> Inr (True, r'))"
  by (rule second_settlement_does_nothing [OF _ prod.collapse [symmetric]])
    (simp add: session_is_active_def empty_db_def)

end
