(* ===== verification/IdleProperties.thy ===== *)
theory IdleProperties
  imports IdleInvariants
begin

text \<open>
  What single operations of the idle service return and do: a settlement, the collection of
  dead sessions, the pages of a user's records, and a session closed without points.
\<close>

section \<open>A settlement\<close>

lemma finalize_same_db: "db (snd (finalizeSettlement cfg r r' ob w)) = db w"
proof -
  have "evolves (on_db (=)) (finalizeSettlement cfg r r' ob)"
    unfolding finalizeSettlement_def ApplyAsync_def publish_adjust_def
    by (intro unchanged.ev_world unchanged.ev_idle)
  then show ?thesis by (simp add: evolves_def on_db_def)
qed

lemma fw_finalize: "fails_with (\<lambda>e. False) (finalizeSettlement cfg r r' ob)"
  unfolding finalizeSettlement_def ApplyAsync_def publish_adjust_def InvalidateActiveByUser_def invalidate_keys_def
  by (intro fw_rules fw_spawn)

lemma settle_tx_run:
  assumes "faults w = []" and "ic_points_on cfg" and "session_is_active (ir_id r) (db w)"
    and "idle_event (ir_id r) \<notin> ob_event ` set (outbox_rows (db w))"
  shows "transaction (settle_tx cfg r c t dur pts) w = (Inr True, w\<lparr>db :=
    pay_session (idle_transaction r pts) (idle_outbox r pts t) (now w)
      (close_session (ir_id r) (final_status c) t dur pts (now w) (db w))\<rparr>)"
proof -
  let ?d1 = "close_session (ir_id r) (final_status c) t dur pts (now w) (db w)"
  have m: "markFn c (ir_id r) t dur pts w = (Inr True, w\<lparr>db := ?d1\<rparr>)"
    using assms(1,3)
    by (simp add: markFn_eq markSettled_def db_write_def close_session_def session_is_active_def rows_affected_pos)
  have "settle_tx cfg r c t dur pts w = (Inr True, w\<lparr>db :=
      pay_session (idle_transaction r pts) (idle_outbox r pts t) (now w) ?d1\<rparr>)"
    using assms(1,2,4) m
    by (simp add: settle_tx_def bind_io_def then_io_def wrap_err_def CreateTransaction_def db_write_def
        AppendOutboxInTx_def db_try_def ret_def pay_session_def close_session_def idle_outbox_def)
  then show ?thesis using assms(1) by (simp add: transaction_def ret_def)
qed

text \<open>C23. What a settlement does to the business tables, and its result, when no call fails, points are switched
  on with a positive rate and without a daily limit, the session is active, its event is not yet in the outbox,
  it did not start in the future and its points fit an \<open>int64\<close>: it closes the session at the current time with
  its duration in whole seconds, pays the rate for each whole minute, at least for one, writes the
  payment and its pending outbox event with it, adds the points to the day's total, changes
  nothing else in these tables, and reports the session as settled. (Caches, heartbeats, the set of active
  sessions and the account's balance are not the subject of this theorem.)\<close>

theorem settlement_closes_and_pays:
  assumes "faults w = []" and "ic_points_on cfg" and "ic_daily_limit cfg \<le> 0"
    and "session_is_active (ir_id r) (db w)" and "idle_event (ir_id r) \<notin> ob_event ` set (outbox_rows (db w))"
    and "0 \<le> now w - ir_start r" and "0 < ic_points_per_minute cfg"
    and "in_int64 (max ((now w - ir_start r) div second div 60) 1 * ic_points_per_minute cfg)"
    and "settleSession cfg r c w = (res, w')"
  shows "let dur = (now w - ir_start r) div second; pts = max (dur div 60) 1 * ic_points_per_minute cfg;
             d = pay_session (idle_transaction r pts) (idle_outbox r pts (now w)) (now w)
                   (close_session (ir_id r) (final_status c) (now w) dur pts (now w) (db w))
         in res = Inr (True, closed_record r c (now w) dur pts) \<and>
            db w' = d\<lparr>idle_daily := add_daily (ir_user r) (local_day w) pts (idle_daily (db w))\<rparr>"
proof -
  define dur where "dur = (now w - ir_start r) div second"
  define pts where "pts = max (dur div 60) 1 * ic_points_per_minute cfg"
  have s: "0 < second" by (simp add: second_def)
  then have dur0: "0 \<le> dur" using assms(6) by (simp add: dur_def pos_imp_zdiv_nonneg_iff)
  have dur: "session_seconds r (now w) = dur"
    using assms(6) s by (simp add: session_seconds_def seconds_of_def go_div_nonneg dur_def)
  have pts: "session_points cfg r (now w) = pts"
    using assms(8) dur0 by (simp add: session_points_def dur go_div_nonneg pts_def dur_def)
  have pos: "0 < pts" using assms(7) by (simp add: pts_def)
  define d where "d = pay_session (idle_transaction r pts) (idle_outbox r pts (now w)) (now w)
                   (close_session (ir_id r) (final_status c) (now w) dur pts (now w) (db w))"
  have daily: "idle_daily d = idle_daily (db w)" by (simp add: d_def pay_session_def close_session_def)
  let ?w2 = "w\<lparr>db := d\<lparr>idle_daily := add_daily (ir_user r) (local_day w) pts (idle_daily d)\<rparr>\<rparr>"
  have tx: "transaction (settle_tx cfg r c (now w) dur pts) w = (Inr True, w\<lparr>db := d\<rparr>)"
    unfolding d_def by (rule settle_tx_run) (use assms in auto)
  have up: "UpsertDailyPoints (ir_user r) (local_day w) pts (w\<lparr>db := d\<rparr>) = (Inr (), ?w2)"
    using pos assms(1) by (simp add: UpsertDailyPoints_def db_write_def)
  let ?r' = "closed_record r c (now w) dur pts"
  obtain x w3 where f: "finalizeSettlement cfg r ?r' (idle_outbox r pts (now w)) ?w2 = (Inr x, w3)"
    using fails_withD [OF fw_finalize] by (metis sum.exhaust surj_pair)
  have db3: "db w3 = db ?w2"
    using finalize_same_db [of cfg r ?r' "idle_outbox r pts (now w)" ?w2] f by simp
  have day: "local_day (w\<lparr>db := d\<rparr>) = local_day w" by (simp add: local_day_def)
  have "settleSession cfg r c w = (Inr (True, ?r'), w3)"
    using tx up f pos assms(3) day
    by (simp add: settleSession_def time_now_def bind_io_def gets_io_def grant_points_def ret_def Let_def dur pts
        attempt_def then_io_def when_io_def best_effort_def)
  then show ?thesis using assms(9) db3
    by (simp add: Let_def dur_def [symmetric] pts_def [symmetric] d_def [symmetric] daily)
qed

theorem settlement_closes_and_pays_witness:
  "let w = sample_idle\<lparr>now := 600 * second\<rparr>; dur = (now w - ir_start sample_session) div second;
       pts = max (dur div 60) 1 * ic_points_per_minute sample_config;
       d = pay_session (idle_transaction sample_session pts) (idle_outbox sample_session pts (now w)) (now w)
             (close_session (ir_id sample_session) (final_status True) (now w) dur pts (now w) (db w))
   in fst (settleSession sample_config sample_session True w) = Inr (True, closed_record sample_session True (now w) dur pts) \<and>
      db (snd (settleSession sample_config sample_session True w)) =
        d\<lparr>idle_daily := add_daily (ir_user sample_session) (local_day w) pts (idle_daily (db w))\<rparr>"
  using settlement_closes_and_pays [where w = "sample_idle\<lparr>now := 600 * second\<rparr>" and cfg = sample_config
      and r = sample_session and c = True, OF _ _ _ _ _ _ _ _ prod.collapse [symmetric]]
  by (simp add: sample_idle_def sample_config_def empty_world_def sample_session_def session_is_active_def
      is_active_def empty_db_def second_def in_int64_def Let_def)

section \<open>Dead sessions\<close>

definition has_heartbeat :: "world \<Rightarrow> string \<Rightarrow> bool" where
  "has_heartbeat w m \<longleftrightarrow> live w (l2Key w (member_key m)) \<noteq> None"

lemma dead_members_filter:
  "dead_members ms (map f ms) = filter (\<lambda>m. \<not> f m \<and> member_key m \<noteq> []) ms"
  by (induction ms) (auto simp: dead_members_def)

lemma BatchHeartbeatAlive_run:
  assumes "faults w = []" and "heartbeatRedisEnabled w"
  shows "BatchHeartbeatAlive ms w = (Inr (filter (\<lambda>m. \<not> has_heartbeat w m \<and> member_key m \<noteq> []) ms), w)"
proof -
  have "dead_members ms (map (\<lambda>k. live w (l2Key w k) \<noteq> None) (map member_key ms)) =
      filter (\<lambda>m. \<not> has_heartbeat w m \<and> member_key m \<noteq> []) ms"
    using dead_members_filter [of ms "\<lambda>m. live w (l2Key w (member_key m)) \<noteq> None"]
    by (simp add: comp_def has_heartbeat_def)
  then show ?thesis using assms
    by (auto simp: BatchHeartbeatAlive_def bind_io_def gets_io_def l2_batch_exists_def ret_def)
qed

lemma concat_chunks: "0 < n \<Longrightarrow> concat (chunks n xs) = xs"
  by (induction n xs rule: chunks.induct) (simp add: chunks.simps)

text \<open>The scan in batches of a thousand finds exactly the members whose heartbeat key is gone,
  in their order, and leaves the state as it is.\<close>

theorem dead_sessions_are_those_without_heartbeat:
  assumes "faults w = []" and "heartbeatRedisEnabled w"
  shows "collectDeadSessions members w =
    (Inr (filter (\<lambda>m. \<not> has_heartbeat w m \<and> member_key m \<noteq> []) members), w)"
proof -
  let ?f = "filter (\<lambda>m. \<not> has_heartbeat w m \<and> member_key m \<noteq> [])"
  have "fold_io (\<lambda>chunk dead. bind_io (attempt (BatchHeartbeatAlive chunk)) (\<lambda>r.
         ret (case r of Inl e \<Rightarrow> dead | Inr ms \<Rightarrow> dead @ ms))) cs acc w = (Inr (acc @ ?f (concat cs)), w)" for cs acc
    by (induction cs arbitrary: acc)
      (simp_all add: ret_def bind_io_def attempt_def BatchHeartbeatAlive_run [OF assms])
  then show ?thesis by (simp add: collectDeadSessions_def concat_chunks hbBatchSize_def)
qed

theorem dead_sessions_are_those_without_heartbeat_witness:
  "collectDeadSessions [activeMember ''u1'' ''phone''] sample_idle =
    (Inr (filter (\<lambda>m. \<not> has_heartbeat sample_idle m \<and> member_key m \<noteq> []) [activeMember ''u1'' ''phone'']), sample_idle)"
  by (rule dead_sessions_are_those_without_heartbeat)
    (simp_all add: sample_idle_def empty_world_def heartbeatRedisEnabled_def)

section \<open>Pages\<close>

definition user_records :: "string \<Rightarrow> business_db \<Rightarrow> idle_record list" where
  "user_records u d = rev (sort_key ir_id (filter (\<lambda>r. ir_user r = u) (idle_records d)))"

text \<open>A client that follows the cursors; the bound on the number of pages is its patience.\<close>

fun read_pages :: "nat \<Rightarrow> string \<Rightarrow> int \<Rightarrow> int \<Rightarrow> world \<Rightarrow> idle_record list option" where
  "read_pages 0 u cursor limit w = None"
| "read_pages (Suc n) u cursor limit w =
     (case idle_Records u cursor limit w of
        (Inl e, w') \<Rightarrow> None
      | (Inr (rows, next_cursor, has_more), w') \<Rightarrow>
          if \<not> has_more then Some rows
          else map_option (\<lambda>rest. rows @ rest) (read_pages n u next_cursor limit w'))"

lemma FindRecords_run:
  assumes "faults w = []"
  shows "FindRecords u c limit w =
    (Inr (take (nat (if limit \<le> 0 then 20 else limit) + 1)
            (filter (\<lambda>r. c > 0 \<longrightarrow> ir_id r < c) (user_records u (read_db w)))), w)"
proof -
  have "filter (\<lambda>r. ir_user r = u \<and> (c > 0 \<longrightarrow> ir_id r < c)) rows =
      filter (\<lambda>r. c > 0 \<longrightarrow> ir_id r < c) (filter (\<lambda>r. ir_user r = u) rows)" for rows :: "idle_record list"
    by (simp add: conj_commute)
  then have "rev (sort_key ir_id (filter (\<lambda>r. ir_user r = u \<and> (c > 0 \<longrightarrow> ir_id r < c)) (idle_records d))) =
      filter (\<lambda>r. c > 0 \<longrightarrow> ir_id r < c) (user_records u d)" for d
    by (simp only: user_records_def rev_filter [symmetric] filter_sort)
  then show ?thesis using assms by (simp add: FindRecords_def db_read_def gets_io_def)
qed

definition descending :: "idle_record list \<Rightarrow> bool" where
  "descending L \<longleftrightarrow> (\<forall>i j. i < j \<longrightarrow> j < length L \<longrightarrow> ir_id (L ! j) < ir_id (L ! i))"

lemma user_records_descending:
  assumes "distinct (map ir_id (idle_records d))"
  shows "descending (user_records u d)"
proof -
  let ?S = "sort_key ir_id (filter (\<lambda>r. ir_user r = u) (idle_records d))"
  have "distinct (map ir_id ?S)"
  proof -
    have "distinct (map ir_id (filter (\<lambda>r. ir_user r = u) (idle_records d)))" using assms by (rule distinct_map_filter)
    moreover have "mset (map ir_id ?S) = mset (map ir_id (filter (\<lambda>r. ir_user r = u) (idle_records d)))" by simp
    ultimately show ?thesis by (metis mset_eq_imp_distinct_iff)
  qed
  moreover have "sorted (map ir_id ?S)" by simp
  ultimately have "sorted_wrt (<) (map ir_id ?S)" by (simp add: strict_sorted_iff)
  then have "sorted_wrt (\<lambda>x y. y < x) (rev (map ir_id ?S))" by (simp add: sorted_wrt_rev)
  then show ?thesis
    by (auto simp: descending_def user_records_def sorted_wrt_iff_nth_less rev_map)
qed

lemma filter_below:
  assumes "descending L" and "0 < k" "k \<le> length L"
  shows "filter (\<lambda>r. ir_id r < ir_id (L ! (k - 1))) L = drop k L"
proof -
  have above: "\<not> ir_id r < ir_id (L ! (k - 1))" if "r \<in> set (take k L)" for r
  proof -
    obtain i where i: "i < k" "r = L ! i" using \<open>r \<in> set (take k L)\<close> by (auto simp: in_set_conv_nth)
    show ?thesis
    proof (cases "i = k - 1")
      case False
      then have "ir_id (L ! (k - 1)) < ir_id (L ! i)" using i assms by (simp add: descending_def)
      then show ?thesis using i by simp
    qed (simp add: i)
  qed
  have below: "ir_id r < ir_id (L ! (k - 1))" if "r \<in> set (drop k L)" for r
  proof -
    obtain j where "j < length L - k" "r = L ! (k + j)" using \<open>r \<in> set (drop k L)\<close> assms(3) by (auto simp: in_set_conv_nth)
    then show ?thesis using assms by (simp add: descending_def)
  qed
  have "filter (\<lambda>r. ir_id r < ir_id (L ! (k - 1))) (take k L @ drop k L) = drop k L"
    using above below by (simp only: filter_append) (simp add: filter_empty_conv filter_id_conv)
  then show ?thesis by simp
qed

lemma read_from:
  assumes "faults w = []" and "L = user_records u (read_db w)" and "descending L" and "\<forall>r \<in> set L. 0 < ir_id r"
    and "k \<le> length L" and "k = 0 \<and> c = 0 \<or> 0 < k \<and> c = ir_id (L ! (k - 1))" and "length L - k < m"
  shows "read_pages m u c limit w = Some (drop k L)"
  using assms(5-7)
proof (induction m arbitrary: k c)
  case 0
  then show ?case by simp
next
  case (Suc m)
  define n where "n = nat (if limit \<le> 0 then 20 else limit)"
  have n: "0 < n" by (simp add: n_def)
  have "filter (\<lambda>r. c > 0 \<longrightarrow> ir_id r < c) L = drop k L"
  proof (cases "k = 0")
    case True
    then show ?thesis using Suc.prems by simp
  next
    case False
    then have "0 < c" using Suc.prems assms(4) by simp
    then show ?thesis using Suc.prems False filter_below [OF assms(3), of k] by simp
  qed
  then have page: "idle_Records u c limit w = (Inr (CursorPage (take (n + 1) (drop k L)) limit ir_id), w)"
    using assms(1,2) by (simp add: idle_Records_def FindRecords_run n_def wrap_err_def bind_io_def ret_def)
  show ?case
  proof (cases "length L - k \<le> n")
    case True
    then have "CursorPage (take (n + 1) (drop k L)) limit ir_id = (drop k L, 0, False)"
      by (simp add: CursorPage_def n_def [symmetric] Let_def)
    then show ?thesis by (simp add: page)
  next
    case False
    have nth: "take (n + 1) (drop k L) ! (n - 1) = L ! (k + n - 1)"
      using n False Suc.prems(1) by simp
    have "CursorPage (take (n + 1) (drop k L)) limit ir_id = (take n (drop k L), ir_id (L ! (k + n - 1)), True)"
      using False nth by (simp add: CursorPage_def n_def [symmetric] Let_def)
    moreover have "read_pages m u (ir_id (L ! (k + n - 1))) limit w = Some (drop (k + n) L)"
      by (rule Suc.IH) (use False n Suc.prems in auto)
    moreover have "take n (drop k L) @ drop (k + n) L = drop k L"
      by (metis add.commute append_take_drop_id drop_drop)
    ultimately show ?thesis by (simp add: page)
  qed
qed

text \<open>Following the cursors from the first page reads every record of the user exactly once,
  newest first, for any page size, within as many pages as there are records and one more.\<close>

theorem pages_cover_records_once:
  assumes "faults w = []" and "distinct (map ir_id (idle_records (read_db w)))"
    and "\<forall>r \<in> set (idle_records (read_db w)). 0 < ir_id r"
  shows "read_pages (length (user_records u (read_db w)) + 1) u 0 limit w = Some (user_records u (read_db w))"
proof -
  have "\<forall>r \<in> set (user_records u (read_db w)). 0 < ir_id r" using assms(3) by (auto simp: user_records_def)
  then have "read_pages (length (user_records u (read_db w)) + 1) u 0 limit w = Some (drop 0 (user_records u (read_db w)))"
    by (intro read_from [OF assms(1) refl user_records_descending [OF assms(2)]]) auto
  then show ?thesis by simp
qed

theorem pages_cover_records_once_witness:
  "read_pages (length (user_records ''u1'' (read_db sample_two)) + 1) ''u1'' 0 1 sample_two =
     Some (user_records ''u1'' (read_db sample_two))"
  by (rule pages_cover_records_once)
    (simp_all add: sample_two_def sample_idle_def sample_session_def empty_world_def read_db_def)

section \<open>A session closed without points\<close>

text \<open>When the day's quota leaves no points, the session is closed in the tables but the cached
  copy stays: until it expires, \<open>Start\<close> answers with the closed session as if it were active
  and creates no new one.\<close>

theorem zero_point_close_keeps_cached_session:
  assumes "grant_points cfg r (session_points cfg r (now w)) w = (Inr 0, w1)"
    and "l1_get w1 (deviceKey (ir_user r) (ir_device r)) = Some (Some (CIdle r))" and "cache_on w1"
    and "faults w1 = []" and "session_is_active (ir_id r) (db w1)"
    and "settleSession cfg r True w = (res, w2)"
  shows "(\<exists>r'. res = Inr (True, r')) \<and> \<not> session_is_active (ir_id r) (db w2) \<and>
    fst (idle_Start cfg (ir_user r) (ir_device r) w2) = Inr r"
proof -
  let ?w2 = "w1\<lparr>db := close_session (ir_id r) Completed (now w) (session_seconds r (now w)) 0 (now w1) (db w1)\<rparr>"
  have "markFn True (ir_id r) (now w) (session_seconds r (now w)) 0 w1 = (Inr True, ?w2)"
    using assms(4,5)
    by (simp add: markFn_eq final_status_def markSettled_def db_write_def close_session_def session_is_active_def
        rows_affected_pos)
  then have run: "settleSession cfg r True w =
      (Inr (True, closed_record r True (now w) (session_seconds r (now w)) 0), ?w2)"
    using assms(1) by (simp add: settleSession_def time_now_def bind_io_def gets_io_def Let_def ret_def)
  have closed: "\<not> session_is_active (ir_id r) (db ?w2)"
    by (auto simp: session_is_active_def close_session_def set_update_where)
  have l1: "l1_get ?w2 (deviceKey (ir_user r) (ir_device r)) = Some (Some (CIdle r))"
    using assms(2) by (auto simp: l1_get_def split: if_splits option.splits prod.splits)
  have "FindActiveByDevice (ir_user r) (ir_device r) ?w2 = (Inr (Some r), ?w2)"
    using l1 assms(3)
    by (simp add: FindActiveByDevice_def cachedFindOne_def cache_get_def bind_io_def gets_io_def ret_def decode_idle_def)
  then show ?thesis using run closed assms(6)
    by (auto simp: idle_Start_def bind_io_def wrap_err_def ret_def)
qed

definition sample_exhausted :: world where
  "sample_exhausted = sample_idle\<lparr>l1 := [deviceKey ''u1'' ''phone'' \<mapsto> (Some (CIdle sample_session), hour)],
     redis := [IdleDailyPointsKey empty_world ''u1'' \<mapsto> \<lparr>re_val = RInt 10, re_expire = None\<rparr>]\<rparr>"

lemma sample_grant:
  "grant_points (sample_config\<lparr>ic_daily_limit := 10\<rparr>) sample_session 2 sample_exhausted = (Inr 0, sample_exhausted)"
  by (simp add: grant_points_def sample_config_def AcquireDailyPoints_def heartbeatRedisEnabled_def io_defs
      sample_exhausted_def sample_idle_def empty_world_def GetDailyPoints_def l2_get_def l2Key_def cacheKey_def
      IdleDailyPointsKey_def local_day_def rget_def live_def is_string_value_def decode_def toInt64_def
      TryAcquireDailyPoints_def daily_points_script_def counter_def sample_session_def Let_def)

theorem zero_point_close_keeps_cached_session_witness:
  "(\<exists>r'. fst (settleSession (sample_config\<lparr>ic_daily_limit := 10\<rparr>) sample_session True sample_exhausted) = Inr (True, r')) \<and>
   \<not> session_is_active 1 (db (snd (settleSession (sample_config\<lparr>ic_daily_limit := 10\<rparr>) sample_session True sample_exhausted))) \<and>
   fst (idle_Start (sample_config\<lparr>ic_daily_limit := 10\<rparr>) ''u1'' ''phone''
     (snd (settleSession (sample_config\<lparr>ic_daily_limit := 10\<rparr>) sample_session True sample_exhausted))) = Inr sample_session"
proof -
  have pts: "session_points (sample_config\<lparr>ic_daily_limit := 10\<rparr>) sample_session (now sample_exhausted) = 2"
    by (simp add: session_points_def session_seconds_def sample_config_def sample_session_def sample_exhausted_def
        sample_idle_def empty_world_def seconds_of_def go_div_def wrap64_def)
  show ?thesis
    using zero_point_close_keeps_cached_session [where r = sample_session, OF _ _ _ _ _ prod.collapse [symmetric],
        of "sample_config\<lparr>ic_daily_limit := 10\<rparr>" sample_exhausted sample_exhausted] sample_grant
    unfolding pts
    by (simp add: sample_exhausted_def sample_idle_def sample_session_def empty_world_def l1_get_def hour_def second_def
        session_is_active_def is_active_def)
qed

end
