(* ===== verification/Shop.thy ===== *)
theory Shop
  imports UserRepo Reservations ScanSharding PointsOutbox IdleService
begin

text \<open>
  \<open>internal/repository/shop_repo.go\<close> and the models of \<open>internal/model/order.go\<close>: items and their
  stock, which is split into buckets, orders, and flash sale activities with their quota.
  \<open>businessDB\<close> is never nil here. A repository made for a transaction reads the master and
  has no cache.
\<close>

section \<open>Sales status\<close>

definition item_SalesStatusValue :: "shop_item \<Rightarrow> string" where
  "item_SalesStatusValue it =
     (if \<not> it_active it then ''offline'' else if it_stock it \<le> 0 then ''sold_out'' else ''on_sale'')"

definition activity_SalesStatusValue :: "instant \<Rightarrow> flash_activity \<Rightarrow> string" where
  "activity_SalesStatusValue t a =
     (if fa_status a = FlashEnded then ''ended''
      else if (case fa_end a of Some e \<Rightarrow> t > e | None \<Rightarrow> False) then ''ended''
      else if fa_status a = FlashPending \<or> t < fa_start a then ''presale''
      else if fa_sold a \<ge> fa_limit a then ''sold_out''
      else ''on_sale'')"

definition item_with_sales :: "shop_item \<Rightarrow> shop_item" where
  "item_with_sales it = it\<lparr>it_sales := item_SalesStatusValue it\<rparr>"

definition activity_with_sales :: "instant \<Rightarrow> flash_activity \<Rightarrow> flash_activity" where
  "activity_with_sales t a = a\<lparr>fa_sales := activity_SalesStatusValue t a\<rparr>"

section \<open>Items and stock buckets\<close>

definition stockBucketCount :: int where
  "stockBucketCount = 16"

definition bucketIndex :: "string \<Rightarrow> int \<Rightarrow> int" where
  "bucketIndex shardKey n = uint (fnv32a shardKey mod word_of_int n)"

definition buckets_of :: "int \<Rightarrow> business_db \<Rightarrow> stock_bucket list" where
  "buckets_of i d = filter (\<lambda>b. bk_item b = i) (stock_buckets d)"

definition bucket_total :: "int \<Rightarrow> business_db \<Rightarrow> int" where
  "bucket_total i d = sum_list (map bk_stock (buckets_of i d))"

definition fill_stock :: "business_db \<Rightarrow> shop_item list \<Rightarrow> shop_item list" where
  "fill_stock d items = map (\<lambda>it. if buckets_of (it_id it) d = [] then it
      else it\<lparr>it_stock := bucket_total (it_id it) d\<rparr>) items"

definition fillBucketStock :: "shop_item list \<Rightarrow> (world, shop_item list) io" where
  "fillBucketStock items =
     (if items = [] then ret []
      else bind_io (attempt (db_read ''stock buckets by item'' (\<lambda>d. fill_stock d items))) (\<lambda>r.
             ret (case r of Inl e \<Rightarrow> items | Inr filled \<Rightarrow> filled)))"

definition FindItems :: "int \<Rightarrow> int \<Rightarrow> string \<Rightarrow> (world, shop_item list) io" where
  "FindItems cursor limit category =
     bind_io (db_read ''items find'' (\<lambda>d.
       take (nat (if limit \<le> 0 then 20 else limit) + 1)
         (sort_key it_id (filter (\<lambda>it. it_active it \<and> (category \<noteq> [] \<longrightarrow> it_category it = category)
             \<and> (cursor > 0 \<longrightarrow> it_id it > cursor)) (shop_items d))))) (\<lambda>items.
     bind_io (fillBucketStock items) (\<lambda>items.
     ret (map item_with_sales items)))"

text \<open>\<open>First(&row, id)\<close>: no row is \<open>gorm.ErrRecordNotFound\<close>.\<close>

definition ErrRecordNotFound :: gerr where
  "ErrRecordNotFound = Sentinel ''record not found''"

definition first_item :: "int \<Rightarrow> (world, shop_item option) io" where
  "first_item i = db_read ''item first'' (\<lambda>d. find (\<lambda>it. it_id it = i) (shop_items d))"

definition TotalStock :: "int \<Rightarrow> (world, int) io" where
  "TotalStock i =
     bind_io (db_read ''stock bucket count'' (\<lambda>d. length (buckets_of i d))) (\<lambda>cnt.
       if cnt = 0
       then bind_io (first_item i) (\<lambda>it. case it of None \<Rightarrow> throw ErrRecordNotFound | Some x \<Rightarrow> ret (it_stock x))
       else db_read ''stock bucket sum'' (bucket_total i))"

definition fillItemStock :: "shop_item option \<Rightarrow> (world, shop_item option) io" where
  "fillItemStock it =
     (case it of
        None \<Rightarrow> ret None
      | Some x \<Rightarrow> bind_io (attempt (TotalStock (it_id x))) (\<lambda>r.
          ret (Some (case r of Inl e \<Rightarrow> x | Inr n \<Rightarrow> x\<lparr>it_stock := n\<rparr>))))"

definition decode_item :: "cval option \<Rightarrow> (world, shop_item option) io" where
  "decode_item v = (case v of
      None \<Rightarrow> ret None
    | Some CNil \<Rightarrow> ret None
    | Some (CItem it) \<Rightarrow> ret (Some it)
    | Some _ \<Rightarrow> throw (Sentinel ''cache: unmarshal cached value''))"

definition itemCacheKey :: "int \<Rightarrow> string" where
  "itemCacheKey i = ''shop:item:'' @ show_int i"

definition FindItemByID :: "int \<Rightarrow> (world, shop_item option) io" where
  "FindItemByID i =
     bind_io (gets_io cache_on) (\<lambda>on.
       if on
       then bind_io (cache_get (itemCacheKey i) (120 * second)
                       (bind_io (first_item i) (\<lambda>it. ret (map_option CItem it)))) (\<lambda>v.
            case v of
              None \<Rightarrow> ret None
            | Some _ \<Rightarrow> bind_io (decode_item v) fillItemStock)
       else bind_io (first_item i) fillItemStock)"

definition has_stock :: "int \<Rightarrow> int \<Rightarrow> shop_item \<Rightarrow> bool" where
  "has_stock i q it \<longleftrightarrow> it_id it = i \<and> it_stock it \<ge> q"

definition bucket_has :: "int \<Rightarrow> int \<Rightarrow> int \<Rightarrow> stock_bucket \<Rightarrow> bool" where
  "bucket_has i b q r \<longleftrightarrow> bk_item r = i \<and> bk_bucket r = b \<and> bk_stock r \<ge> q"

definition take_item :: "int \<Rightarrow> shop_item \<Rightarrow> shop_item" where
  "take_item q it = it\<lparr>it_stock := it_stock it - q\<rparr>"

definition take_bucket :: "int \<Rightarrow> stock_bucket \<Rightarrow> stock_bucket" where
  "take_bucket q r = r\<lparr>bk_stock := bk_stock r - q\<rparr>"

definition deduct_item :: "int \<Rightarrow> int \<Rightarrow> (world, nat) io" where
  "deduct_item i q = db_write ''item deduct'' (\<lambda>w d.
     (rows_affected (has_stock i q) (shop_items d),
      d\<lparr>shop_items := update_where (has_stock i q) (take_item q) (shop_items d)\<rparr>))"

definition deduct_bucket :: "int \<Rightarrow> int \<Rightarrow> int \<Rightarrow> (world, nat) io" where
  "deduct_bucket i b q = db_write ''bucket deduct'' (\<lambda>w d.
     (rows_affected (bucket_has i b q) (stock_buckets d),
      d\<lparr>stock_buckets := update_where (bucket_has i b q) (take_bucket q) (stock_buckets d)\<rparr>))"

text \<open>
  \<open>DeductStock\<close> of a repository made for a transaction, which is how its only caller uses it:
  the buckets are tried in a circle from the one the key hashes to.
\<close>

fun try_buckets :: "int \<Rightarrow> int \<Rightarrow> int list \<Rightarrow> (world, unit) io" where
  "try_buckets i q [] = throw (Sentinel ''stock insufficient'')"
| "try_buckets i q (b # bs) =
     bind_io (deduct_bucket i b q) (\<lambda>n. if n > 0 then ret () else try_buckets i q bs)"

definition bucket_order :: "string \<Rightarrow> nat \<Rightarrow> int list" where
  "bucket_order shardKey cnt =
     map (\<lambda>attempt. (bucketIndex shardKey (int cnt) + int attempt) mod int cnt) [0..<cnt]"

definition DeductStock :: "int \<Rightarrow> int \<Rightarrow> string \<Rightarrow> (world, unit) io" where
  "DeductStock i q shardKey =
     bind_io (ext ''stock bucket count'' (gets_io (\<lambda>w. length (buckets_of i (db w))))) (\<lambda>cnt.
       if cnt = 0
       then bind_io (deduct_item i q) (\<lambda>n. if n = 0 then throw (Sentinel ''stock insufficient'') else ret ())
       else try_buckets i q (bucket_order shardKey cnt))"

definition makeBuckets :: "int \<Rightarrow> int \<Rightarrow> int \<Rightarrow> stock_bucket list" where
  "makeBuckets itemID n_stock n =
     map (\<lambda>b. \<lparr>bk_item = itemID, bk_bucket = b,
                bk_stock = go_div n_stock n + (if b < go_rem n_stock n then 1 else 0)\<rparr>) [0..n - 1]"

text \<open>An insert that skips the rows whose primary key exists.\<close>

definition insert_bucket :: "stock_bucket \<Rightarrow> stock_bucket list \<Rightarrow> stock_bucket list" where
  "insert_bucket b rows =
     (if \<exists>r \<in> set rows. bk_item r = bk_item b \<and> bk_bucket r = bk_bucket b then rows else rows @ [b])"

definition CreateStockBuckets :: "int \<Rightarrow> int \<Rightarrow> (world, unit) io" where
  "CreateStockBuckets itemID n_stock = db_write ''stock buckets create'' (\<lambda>w d.
     ((), d\<lparr>stock_buckets := fold insert_bucket (makeBuckets itemID n_stock stockBucketCount) (stock_buckets d)\<rparr>))"

definition BackfillStockBuckets :: "(world, unit) io" where
  "BackfillStockBuckets =
     bind_io (db_read ''items without buckets'' (\<lambda>d.
       map (\<lambda>it. (it_id it, it_stock it))
         (filter (\<lambda>it. it_stock it > 0 \<and> buckets_of (it_id it) d = []) (shop_items d)))) (\<lambda>items.
     for_io items (\<lambda>(i, n). CreateStockBuckets i n))"

definition invalidateItemCache :: "int \<Rightarrow> (world, unit) io" where
  "invalidateItemCache i = invalidate_keys [itemCacheKey i]"

section \<open>Orders\<close>

text \<open>The insert fills in the id and the creation time of the caller's order.\<close>

definition CreateOrder :: "redeem_order \<Rightarrow> (world, redeem_order) io" where
  "CreateOrder ord = db_write ''order create'' (\<lambda>w d.
     let ord' = ord\<lparr>or_id := next_id or_id (redeem_orders d), or_created := now w\<rparr>
     in (ord', d\<lparr>redeem_orders := redeem_orders d @ [ord']\<rparr>))"

definition FindOrders :: "string \<Rightarrow> int \<Rightarrow> int \<Rightarrow> (world, redeem_order list) io" where
  "FindOrders u cursor limit = db_read ''orders find'' (\<lambda>d.
     take (nat (if limit \<le> 0 then 20 else limit) + 1)
       (rev (sort_key or_id (filter (\<lambda>x. or_user x = u \<and> (cursor > 0 \<longrightarrow> or_id x < cursor)) (redeem_orders d)))))"

definition FindOrderByID :: "int \<Rightarrow> (world, redeem_order option) io" where
  "FindOrderByID i = db_read ''order first'' (\<lambda>d. find (\<lambda>x. or_id x = i) (redeem_orders d))"

section \<open>Flash sale activities\<close>

definition FindActivityByID :: "int \<Rightarrow> (world, flash_activity option) io" where
  "FindActivityByID i = db_read ''activity first'' (\<lambda>d. find (\<lambda>a. fa_id a = i) (flash_activities d))"

definition not_over :: "instant \<Rightarrow> flash_activity \<Rightarrow> bool" where
  "not_over t a \<longleftrightarrow> (case fa_end a of None \<Rightarrow> True | Some e \<Rightarrow> t \<le> e)"

definition shown :: "instant \<Rightarrow> flash_activity \<Rightarrow> bool" where
  "shown t a \<longleftrightarrow> not_over t a \<and>
     (fa_status a = FlashPending \<and> fa_start a > t \<or> fa_status a = FlashActive \<and> fa_start a \<le> t)"

definition FindActivities :: "bool \<Rightarrow> int \<Rightarrow> (world, flash_activity list) io" where
  "FindActivities includeEnded limit =
     bind_io time_now (\<lambda>t.
     bind_io (db_read ''activities find'' (\<lambda>d.
       take (nat (if limit \<le> 0 then 20 else limit))
         (sort_key (\<lambda>a. - fa_start a)
            (filter (\<lambda>a. includeEnded \<or> shown t a) (flash_activities d))))) (\<lambda>acts.
     ret (map (activity_with_sales t) acts)))"

definition warmup_due :: "instant \<Rightarrow> duration \<Rightarrow> flash_activity \<Rightarrow> bool" where
  "warmup_due t lead a \<longleftrightarrow> (fa_status a = FlashActive \<or> fa_status a = FlashPending)
     \<and> t - lead \<le> fa_start a \<and> fa_start a \<le> t + lead \<and> not_over t a"

definition ListWarmupCandidates :: "instant \<Rightarrow> duration \<Rightarrow> (world, flash_activity list) io" where
  "ListWarmupCandidates t lead = db_read ''activities warmup''
     (\<lambda>d. sort_key fa_start (filter (warmup_due t lead) (flash_activities d)))"

definition should_start :: "instant \<Rightarrow> flash_activity \<Rightarrow> bool" where
  "should_start t a \<longleftrightarrow> fa_status a = FlashPending \<and> fa_start a \<le> t"

definition should_end :: "instant \<Rightarrow> flash_activity \<Rightarrow> bool" where
  "should_end t a \<longleftrightarrow> fa_status a = FlashActive \<and> (case fa_end a of None \<Rightarrow> False | Some e \<Rightarrow> e \<le> t)"

definition set_flash_status :: "(flash_activity \<Rightarrow> bool) \<Rightarrow> flash_status \<Rightarrow> (world, nat) io" where
  "set_flash_status p st = db_write ''activities status'' (\<lambda>w d.
     (rows_affected p (flash_activities d),
      d\<lparr>flash_activities := update_where p (\<lambda>a. a\<lparr>fa_status := st\<rparr>) (flash_activities d)\<rparr>))"

definition TransitionStaleStatuses :: "instant \<Rightarrow> (world, nat) io" where
  "TransitionStaleStatuses t =
     bind_io (set_flash_status (should_start t) FlashActive) (\<lambda>n.
     bind_io (set_flash_status (should_end t) FlashEnded) (\<lambda>m. ret (n + m)))"

definition CreateActivity :: "flash_activity \<Rightarrow> (world, flash_activity) io" where
  "CreateActivity a = db_write ''activity create'' (\<lambda>w d.
     let i = next_id fa_id (flash_activities d)
     in (a\<lparr>fa_id := i\<rparr>, d\<lparr>flash_activities := flash_activities d @ [a\<lparr>fa_id := i, fa_sales := []\<rparr>]\<rparr>))"

definition edit_activity :: "flash_activity \<Rightarrow> flash_activity \<Rightarrow> flash_activity" where
  "edit_activity a r = r\<lparr>fa_name := fa_name a, fa_start := fa_start a, fa_end := fa_end a,
     fa_limit := fa_limit a, fa_per_user := fa_per_user a, fa_price := fa_price a, fa_status := fa_status a\<rparr>"

definition UpdateActivity :: "flash_activity \<Rightarrow> (world, unit) io" where
  "UpdateActivity a = db_write ''activity update'' (\<lambda>w d.
     ((), d\<lparr>flash_activities := update_where (\<lambda>r. fa_id r = fa_id a) (edit_activity a) (flash_activities d)\<rparr>))"

definition has_quota :: "int \<Rightarrow> flash_activity \<Rightarrow> bool" where
  "has_quota i a \<longleftrightarrow> fa_id a = i \<and> fa_sold a < fa_limit a"

definition AcquireFlashQuota :: "int \<Rightarrow> (world, bool) io" where
  "AcquireFlashQuota i =
     bind_io (db_write ''flash quota acquire'' (\<lambda>w d.
        (rows_affected (has_quota i) (flash_activities d),
         d\<lparr>flash_activities := update_where (has_quota i) (\<lambda>a. a\<lparr>fa_sold := fa_sold a + 1\<rparr>) (flash_activities d)\<rparr>)))
     (\<lambda>n. ret (n > 0))"

definition ReleaseFlashQuota :: "int \<Rightarrow> (world, unit) io" where
  "ReleaseFlashQuota i = db_write ''flash quota release'' (\<lambda>w d.
     ((), d\<lparr>flash_activities := update_where (\<lambda>a. fa_id a = i \<and> fa_sold a > 0)
            (\<lambda>a. a\<lparr>fa_sold := fa_sold a - 1\<rparr>) (flash_activities d)\<rparr>))"

definition FlashUserFlashCountCacheKey :: "int \<Rightarrow> string \<Rightarrow> string" where
  "FlashUserFlashCountCacheKey i u = ''flashsale:count:'' @ show_int i @ '':'' @ u"

definition FlashUserFlashCountTTL :: duration where
  "FlashUserFlashCountTTL = 3 * second"

definition flash_orders :: "int \<Rightarrow> string \<Rightarrow> business_db \<Rightarrow> nat" where
  "flash_orders i u d = rows_affected (\<lambda>x. or_activity x = i \<and> or_user x = u) (redeem_orders d)"

definition count_flash_orders :: "int \<Rightarrow> string \<Rightarrow> (world, int) io" where
  "count_flash_orders i u = db_read ''flash orders count'' (\<lambda>d. int (flash_orders i u d))"

definition decode_count :: "cval option \<Rightarrow> int option" where
  "decode_count v = (case v of
      None \<Rightarrow> Some 0
    | Some (CInt n) \<Rightarrow> Some n
    | _ \<Rightarrow> None)"

definition CountUserFlashOrders :: "int \<Rightarrow> string \<Rightarrow> (world, int) io" where
  "CountUserFlashOrders i u =
     bind_io (gets_io (\<lambda>w. cache_on w \<and> redis_on w)) (\<lambda>on.
       if on
       then bind_io (attempt (cache_get (FlashUserFlashCountCacheKey i u) FlashUserFlashCountTTL
                        (bind_io (count_flash_orders i u) (\<lambda>n. ret (Some (CInt n)))))) (\<lambda>r.
            case r of
              Inl e \<Rightarrow> count_flash_orders i u
            | Inr v \<Rightarrow> (case decode_count v of Some n \<Rightarrow> ret n | None \<Rightarrow> count_flash_orders i u))
       else count_flash_orders i u)"

section \<open>Default items\<close>

text \<open>Go's strings are bytes in UTF-8.\<close>

definition utf8 :: "nat list \<Rightarrow> string" where
  "utf8 bs = map char_of bs"

definition seed_item :: "string \<Rightarrow> string \<Rightarrow> int \<Rightarrow> int \<Rightarrow> string \<Rightarrow> shop_item" where
  "seed_item name desc price stock category = \<lparr>it_id = 0, it_name = name, it_description = desc,
     it_price = price, it_stock = stock, it_version = 0, it_image = [], it_category = category,
     it_active = True, it_sales = []\<rparr>"

definition seed_items :: "shop_item list" where
  "seed_items =
   [
    seed_item (''100 '' @ utf8 [0xE7, 0xA7, 0xAF, 0xE5, 0x88, 0x86, 0xE5, 0x88, 0xB8])
      (utf8 [0xE5, 0x85, 0x91, 0xE6, 0x8D, 0xA2] @ '' 100 '' @ utf8 [0xE7, 0xA7, 0xAF, 0xE5, 0x88, 0x86])
      0 999999 ''coupon'',
    seed_item (''VIP '' @ utf8 [0xE4, 0xBD, 0x93, 0xE9, 0xAA, 0x8C, 0xE5, 0x8D, 0xA1] @ '' (1'' @ utf8 [0xE5, 0xA4, 0xA9] @ '')'')
      (utf8 [0xE4, 0xBA, 0xAB, 0xE5, 0x8F, 0x97] @ '' VIP '' @ utf8 [0xE7, 0x89, 0xB9, 0xE6, 0x9D, 0x83] @ '' 1 '' @ utf8 [0xE5, 0xA4, 0xA9])
      500 1000 ''vip'',
    seed_item (utf8 [0xE6, 0x8C, 0x82, 0xE6, 0x9C, 0xBA, 0xE5, 0x8A, 0xA0, 0xE9, 0x80, 0x9F, 0xE5, 0x8D, 0xA1] @ '' (1'' @ utf8 [0xE5, 0xB0, 0x8F, 0xE6, 0x97, 0xB6] @ '')'')
      (utf8 [0xE6, 0x8C, 0x82, 0xE6, 0x9C, 0xBA, 0xE7, 0xA7, 0xAF, 0xE5, 0x88, 0x86, 0xE7, 0xBF, 0xBB, 0xE5, 0x80, 0x8D] @ '' 1 '' @ utf8 [0xE5, 0xB0, 0x8F, 0xE6, 0x97, 0xB6])
      300 500 ''boost'',
    seed_item (utf8 [0xE9, 0x99, 0x90, 0xE5, 0xAE, 0x9A, 0xE5, 0xA4, 0xB4, 0xE5, 0x83, 0x8F, 0xE6, 0xA1, 0x86])
      (utf8 [0xE7, 0x82, 0xAB, 0xE9, 0x85, 0xB7, 0xE7, 0x9A, 0x84, 0xE9, 0x99, 0x90, 0xE5, 0xAE, 0x9A, 0xE5, 0xA4, 0xB4, 0xE5, 0x83, 0x8F, 0xE6, 0xA1, 0x86])
      1000 100 ''cosmetic'',
    seed_item (utf8 [0xE6, 0x8A, 0xBD, 0xE5, 0xA5, 0x96, 0xE5, 0x88, 0xB8] @ '' x5'')
      (''5 '' @ utf8 [0xE5, 0xBC, 0xA0, 0xE6, 0x8A, 0xBD, 0xE5, 0xA5, 0x96, 0xE5, 0x88, 0xB8])
      200 5000 ''coupon'']"

definition create_item :: "shop_item \<Rightarrow> (world, int) io" where
  "create_item it = db_write ''item create'' (\<lambda>w d.
     let i = next_id it_id (shop_items d)
     in (i, d\<lparr>shop_items := shop_items d @ [it\<lparr>it_id := i\<rparr>]\<rparr>))"

text \<open>An item whose lookup by name fails, for whatever reason, is created.\<close>

definition seed_one :: "shop_item \<Rightarrow> int list \<Rightarrow> (world, int list) io" where
  "seed_one it ids =
     bind_io (attempt (ext ''item by name'' (gets_io (\<lambda>w. find (\<lambda>x. it_name x = it_name it) (shop_items (db w)))))) (\<lambda>r.
       case r of
         Inr (Some _) \<Rightarrow> ret ids
       | _ \<Rightarrow> bind_io (create_item it) (\<lambda>i.
              then_io (CreateStockBuckets i (it_stock it)) (ret (ids @ [i]))))"

definition SeedItems :: "(world, unit) io" where
  "SeedItems =
     bind_io (attempt (ext ''items count'' (gets_io (\<lambda>w. length (shop_items (db w)))))) (\<lambda>r.
       if (case r of Inr n \<Rightarrow> n > 0 | Inl e \<Rightarrow> False) then ret ()
       else bind_io (fold_io seed_one seed_items []) (\<lambda>ids. for_io ids invalidateItemCache))"

end
