(* ===== verification/ShopService.thy ===== *)
theory ShopService
  imports Shop
begin

text \<open>
  \<open>internal/service/shop/shop_service.go\<close>: redeeming an item, flash sales, their management and
  the reconciliation of the Redis counters. Audit logging, metrics and spans are left out.
  \<open>points_on\<close> is \<open>s.points != nil\<close>.
\<close>

section \<open>Errors\<close>

definition ErrItemNotFound :: gerr where "ErrItemNotFound = Sentinel ''ErrItemNotFound''"
definition ErrStockInsufficient :: gerr where "ErrStockInsufficient = Sentinel ''ErrStockInsufficient''"
definition ErrRedeemSoldOutPeak :: gerr where "ErrRedeemSoldOutPeak = Sentinel ''ErrRedeemSoldOutPeak''"
definition ErrPointsInsufficient :: gerr where "ErrPointsInsufficient = Sentinel ''ErrPointsInsufficient''"
definition ErrUserNotFound :: gerr where "ErrUserNotFound = Sentinel ''ErrUserNotFound''"
definition ErrOrderNotFound :: gerr where "ErrOrderNotFound = Sentinel ''ErrOrderNotFound''"
definition ErrRedeemConcurrent :: gerr where "ErrRedeemConcurrent = Sentinel ''ErrRedeemConcurrent''"
definition ErrFlashSaleNotFound :: gerr where "ErrFlashSaleNotFound = Sentinel ''ErrFlashSaleNotFound''"
definition ErrFlashSaleNotStarted :: gerr where "ErrFlashSaleNotStarted = Sentinel ''ErrFlashSaleNotStarted''"
definition ErrFlashSaleEnded :: gerr where "ErrFlashSaleEnded = Sentinel ''ErrFlashSaleEnded''"
definition ErrFlashSaleSoldOut :: gerr where "ErrFlashSaleSoldOut = Sentinel ''ErrFlashSaleSoldOut''"
definition ErrFlashSaleUserLimit :: gerr where "ErrFlashSaleUserLimit = Sentinel ''ErrFlashSaleUserLimit''"

section \<open>Shared steps\<close>

definition acquireLock :: "string \<Rightarrow> duration \<Rightarrow> (world, bool) io" where
  "acquireLock key ttl = bind_io (gets_io cache_on) (\<lambda>on. if on then manager_lock key ttl else ret True)"

definition releaseLock :: "string \<Rightarrow> (world, unit) io" where
  "releaseLock key = bind_io (gets_io cache_on) (\<lambda>on. when_io on (best_effort (manager_unlock key)))"

text \<open>A deferred function that acts when the body fails: it sees the error.\<close>

definition on_error :: "(world, 'a) io \<Rightarrow> (gerr \<Rightarrow> (world, unit) io) \<Rightarrow> (world, 'a) io" where
  "on_error m h = bind_io (attempt m) (\<lambda>r.
     case r of Inl e \<Rightarrow> then_io (best_effort (h e)) (throw e) | Inr x \<Rightarrow> ret x)"

definition redeemStockTTL :: duration where "redeemStockTTL = 30 * minute"
definition flashActivityMetaTTL :: duration where "flashActivityMetaTTL = 5 * second"
definition flashWarmupLead :: duration where "flashWarmupLead = 2 * minute"

definition order_ref :: "int \<Rightarrow> string" where
  "order_ref i = ''order:'' @ show_int i"

definition redeem_event :: "int \<Rightarrow> string" where
  "redeem_event i = ''pts:redeem:'' @ show_int i"

definition flash_event :: "int \<Rightarrow> string" where
  "flash_event i = ''pts:flash:'' @ show_int i"

definition new_order :: "string \<Rightarrow> shop_item \<Rightarrow> int \<Rightarrow> int \<Rightarrow> redeem_order" where
  "new_order u it pts act = \<lparr>or_id = 0, or_user = u, or_item = it_id it, or_item_name = it_name it,
     or_points = pts, or_status = ''completed'', or_activity = act, or_created = 0\<rparr>"

definition order_transaction :: "user \<Rightarrow> redeem_order \<Rightarrow> points_transaction" where
  "order_transaction usr ord = \<lparr>pt_id = 0, pt_user = or_user ord, pt_amount = wrap64 (- or_points ord),
     pt_balance_after = wrap64 (us_points usr - or_points ord), pt_type = ''redeem_spend'',
     pt_reference = order_ref (or_id ord), pt_created = 0\<rparr>"

definition order_outbox :: "string \<Rightarrow> (int \<Rightarrow> string) \<Rightarrow> redeem_order \<Rightarrow> instant \<Rightarrow> points_outbox" where
  "order_outbox ref ev ord t = \<lparr>ob_id = 0, ob_user = or_user ord, ob_delta = wrap64 (- or_points ord),
     ob_ref_type = ref, ob_ref_id = show_int (or_id ord), ob_event = ev (or_id ord), ob_status = Pending,
     ob_created = t, ob_updated = t\<rparr>"

text \<open>The rest of both business transactions: the order, its payment and its event.\<close>

definition write_order ::
  "bool \<Rightarrow> string \<Rightarrow> (int \<Rightarrow> string) \<Rightarrow> user \<Rightarrow> redeem_order \<Rightarrow> (world, redeem_order \<times> points_outbox) io" where
  "write_order points_on ref ev usr ord =
     bind_io (wrap_err ''create order'' (CreateOrder ord)) (\<lambda>ord.
     then_io (wrap_err ''create points transaction'' (CreateTransaction (order_transaction usr ord)))
    (bind_io time_now (\<lambda>t.
     then_io (if points_on
              then wrap_err ''append points outbox'' (AppendOutboxInTx (order_outbox ref ev ord t)) else ret ())
             (ret (ord, order_outbox ref ev ord t)))))"

definition emitShopRedeemed :: "string \<Rightarrow> redeem_order \<Rightarrow> shop_item \<Rightarrow> int \<Rightarrow> (world, unit) io" where
  "emitShopRedeemed u ord it pts =
     bind_io (gets_io publisher_on) (\<lambda>on.
       when_io on (best_effort (publish (ShopRedeemed u (or_id ord) (it_id it) (it_name it) pts))))"

definition after_commit :: "bool \<Rightarrow> string \<Rightarrow> shop_item \<Rightarrow> redeem_order \<Rightarrow> points_outbox \<Rightarrow> int \<Rightarrow> (world, redeem_order) io" where
  "after_commit points_on u it ord ob pts =
     then_io (if points_on then ApplyAsync (Some ob) else ret ())
    (then_io (emitShopRedeemed u ord it pts) (ret ord))"

definition check_user :: "string \<Rightarrow> int \<Rightarrow> (world, user) io" where
  "check_user u pts =
     bind_io (wrap_err ''find user'' (FindByID u)) (\<lambda>usr.
       case usr of
         None \<Rightarrow> throw ErrUserNotFound
       | Some x \<Rightarrow> if us_points x < pts then throw ErrPointsInsufficient else ret x)"

section \<open>Redeeming\<close>

definition redeem_tx :: "bool \<Rightarrow> string \<Rightarrow> shop_item \<Rightarrow> int \<Rightarrow> int \<Rightarrow> user \<Rightarrow> (world, redeem_order \<times> points_outbox) io" where
  "redeem_tx points_on u it q pts usr =
     bind_io (attempt (DeductStock (it_id it) q u)) (\<lambda>r.
       case r of
         Inl e \<Rightarrow> throw ErrStockInsufficient
       | Inr _ \<Rightarrow> write_order points_on ''redeem'' redeem_event usr (new_order u it pts 0))"

text \<open>The Redis reservation: whether a place is held; sold out ends the request.\<close>

definition redeem_reserve :: "shop_item \<Rightarrow> (world, bool) io" where
  "redeem_reserve it =
     bind_io (gets_io (\<lambda>w. cache_on w \<and> redis_on w)) (\<lambda>on.
       if \<not> on then ret False
       else bind_io (attempt (TryAcquireRedeem (it_id it) (it_stock it) redeemStockTTL)) (\<lambda>r.
              case r of
                Inr (RedeemSoldOut, _) \<Rightarrow> throw ErrRedeemSoldOutPeak
              | Inr (RedeemOK, _) \<Rightarrow> ret True
              | _ \<Rightarrow> ret False))"

definition redeem_rollback :: "shop_item \<Rightarrow> bool \<Rightarrow> gerr \<Rightarrow> (world, unit) io" where
  "redeem_rollback it acquired e =
     when_io acquired
       (if errors_is e ''ErrStockInsufficient'' then ReconcileRedeem (it_id it) 0 redeemStockTTL
        else ReleaseRedeem (it_id it))"

definition redeem_reserved :: "bool \<Rightarrow> string \<Rightarrow> shop_item \<Rightarrow> int \<Rightarrow> (world, redeem_order) io" where
  "redeem_reserved points_on u it q =
     (let pts = wrap64 (it_price it * q) in
      bind_io (check_user u pts) (\<lambda>usr.
      bind_io (transaction (redeem_tx points_on u it q pts usr)) (\<lambda>(ord, ob).
      after_commit points_on u it ord ob pts)))"

definition redeem_locked :: "bool \<Rightarrow> string \<Rightarrow> int \<Rightarrow> int \<Rightarrow> (world, redeem_order) io" where
  "redeem_locked points_on u i q =
     bind_io (gets_io (\<lambda>w. cache_on w \<and> redis_on w)) (\<lambda>on.
     bind_io (if on then IsRedeemSoldOut i else ret False) (\<lambda>sold_out.
       if sold_out then throw ErrRedeemSoldOutPeak
       else bind_io (wrap_err ''find item'' (FindItemByID i)) (\<lambda>found.
         case found of
           None \<Rightarrow> throw ErrItemNotFound
         | Some it \<Rightarrow>
             if \<not> it_active it then throw ErrItemNotFound
             else if it_stock it < q then throw ErrStockInsufficient
             else bind_io (redeem_reserve it) (\<lambda>acquired.
                    on_error (redeem_reserved points_on u it q) (redeem_rollback it acquired)))))"

definition redeem_quantity :: "int \<Rightarrow> int" where
  "redeem_quantity q = (if q \<le> 0 then 1 else q)"

definition redeemLockKey :: "string \<Rightarrow> string" where
  "redeemLockKey u = ''redeem:lock:'' @ u"

definition Redeem :: "bool \<Rightarrow> string \<Rightarrow> int \<Rightarrow> int \<Rightarrow> (world, redeem_order) io" where
  "Redeem points_on u itemID quantity =
     bind_io (wrap_err ''acquire redeem lock'' (acquireLock (redeemLockKey u) (10 * second))) (\<lambda>locked.
       if \<not> locked then throw ErrRedeemConcurrent
       else finally_io (redeem_locked points_on u itemID (redeem_quantity quantity)) (releaseLock (redeemLockKey u)))"

section \<open>Flash sales\<close>

definition FlashActivityCacheKey :: "int \<Rightarrow> string" where
  "FlashActivityCacheKey i = ''flashsale:activity:'' @ show_int i"

definition FlashActivityListCacheKey :: string where
  "FlashActivityListCacheKey = ''flashsale:activities:active''"

definition decode_activity :: "cval option \<Rightarrow> flash_activity option" where
  "decode_activity v = (case v of Some (CActivity a) \<Rightarrow> Some a | _ \<Rightarrow> None)"

definition decode_activities :: "cval option \<Rightarrow> flash_activity list option" where
  "decode_activities v = (case v of None \<Rightarrow> Some [] | Some (CActivities xs) \<Rightarrow> Some xs | _ \<Rightarrow> None)"

definition activity_loader :: "int \<Rightarrow> loader" where
  "activity_loader i =
     bind_io (FindActivityByID i) (\<lambda>a. ret (Some (case a of None \<Rightarrow> CNil | Some x \<Rightarrow> CActivity x)))"

definition getFlashActivity :: "int \<Rightarrow> (world, flash_activity option) io" where
  "getFlashActivity i =
     bind_io (gets_io (\<lambda>w. cache_on w \<and> redis_on w)) (\<lambda>on.
     bind_io (if on then attempt (cache_get (FlashActivityCacheKey i) flashActivityMetaTTL (activity_loader i))
              else ret (Inr None)) (\<lambda>r.
       case r of
         Inr v \<Rightarrow> (case decode_activity v of
             Some a \<Rightarrow> if fa_id a \<noteq> 0 then ret (Some a) else FindActivityByID i
           | None \<Rightarrow> FindActivityByID i)
       | Inl e \<Rightarrow> FindActivityByID i))"

definition flashSaleTTL :: "instant \<Rightarrow> flash_activity \<Rightarrow> duration" where
  "flashSaleTTL t a =
     (case fa_end a of
        Some e \<Rightarrow> (let d = e - t + hour in if d > 0 then d else 24 * hour)
      | None \<Rightarrow> 24 * hour)"

definition check_activity :: "instant \<Rightarrow> flash_activity option \<Rightarrow> gerr + flash_activity" where
  "check_activity t act =
     (case act of
        None \<Rightarrow> Inl ErrFlashSaleNotFound
      | Some a \<Rightarrow>
          if fa_status a = FlashEnded then Inl ErrFlashSaleNotFound
          else if fa_status a = FlashPending \<or> t < fa_start a then Inl ErrFlashSaleNotStarted
          else if (case fa_end a of Some e \<Rightarrow> t > e | None \<Rightarrow> False) then Inl ErrFlashSaleEnded
          else Inr a)"

definition per_user_limit :: "flash_activity \<Rightarrow> int" where
  "per_user_limit a = (if fa_per_user a \<le> 0 then 1 else fa_per_user a)"

definition flash_tx :: "bool \<Rightarrow> string \<Rightarrow> int \<Rightarrow> shop_item \<Rightarrow> int \<Rightarrow> user \<Rightarrow> (world, redeem_order \<times> points_outbox) io" where
  "flash_tx points_on u i it pts usr =
     bind_io (wrap_err ''acquire flash quota'' (AcquireFlashQuota i)) (\<lambda>ok.
       if \<not> ok then throw ErrFlashSaleSoldOut
       else write_order points_on ''flash_redeem'' flash_event usr (new_order u it pts i))"

definition flash_reserve :: "string \<Rightarrow> int \<Rightarrow> flash_activity \<Rightarrow> (world, bool) io" where
  "flash_reserve u i a =
     bind_io (gets_io (\<lambda>w. (cache_on w, now w))) (\<lambda>(on, t).
       if \<not> on then ret False
       else bind_io (attempt (TryAcquireFlashSale i u (fa_limit a) (per_user_limit a) (flashSaleTTL t a))) (\<lambda>r.
              case r of
                Inr (FlashSaleSoldOut, _) \<Rightarrow> throw ErrFlashSaleSoldOut
              | Inr (FlashSaleUserLimit, _) \<Rightarrow> throw ErrFlashSaleUserLimit
              | Inr (FlashSaleOK, _) \<Rightarrow> ret True
              | _ \<Rightarrow> ret False))"

definition flash_reserved :: "bool \<Rightarrow> string \<Rightarrow> int \<Rightarrow> flash_activity \<Rightarrow> (world, redeem_order) io" where
  "flash_reserved points_on u i a =
     bind_io (wrap_err ''count user flash orders'' (CountUserFlashOrders i u)) (\<lambda>cnt.
       if cnt \<ge> per_user_limit a then throw ErrFlashSaleUserLimit
       else bind_io (wrap_err ''find item'' (FindItemByID (fa_item a))) (\<lambda>found.
         case found of
           None \<Rightarrow> throw ErrItemNotFound
         | Some it \<Rightarrow>
             if \<not> it_active it then throw ErrItemNotFound
             else bind_io (check_user u (fa_price a)) (\<lambda>usr.
               bind_io (transaction (flash_tx points_on u i it (fa_price a) usr)) (\<lambda>(ord, ob).
               then_io (invalidate_keys [FlashUserFlashCountCacheKey i u])
                 (after_commit points_on u it ord ob (fa_price a))))))"

definition flash_locked :: "bool \<Rightarrow> string \<Rightarrow> int \<Rightarrow> flash_activity \<Rightarrow> (world, redeem_order) io" where
  "flash_locked points_on u i a =
     bind_io (flash_reserve u i a) (\<lambda>acquired.
       on_error (flash_reserved points_on u i a) (\<lambda>e. when_io acquired (ReleaseFlashSale i u)))"

definition flashLockKey :: "string \<Rightarrow> int \<Rightarrow> string" where
  "flashLockKey u i = ''redeem:flash:lock:'' @ u @ '':'' @ show_int i"

definition FlashRedeem :: "bool \<Rightarrow> string \<Rightarrow> int \<Rightarrow> (world, redeem_order) io" where
  "FlashRedeem points_on u i =
     bind_io (wrap_err ''find activity'' (getFlashActivity i)) (\<lambda>act.
     bind_io time_now (\<lambda>t.
       case check_activity t act of
         Inl e \<Rightarrow> throw e
       | Inr a \<Rightarrow>
           bind_io (wrap_err ''acquire flash lock'' (acquireLock (flashLockKey u i) (10 * second))) (\<lambda>locked.
             if \<not> locked then throw ErrRedeemConcurrent
             else finally_io (flash_locked points_on u i a) (releaseLock (flashLockKey u i)))))"

section \<open>Managing flash sales\<close>

definition FlashActivities :: "int \<Rightarrow> (world, flash_activity list) io" where
  "FlashActivities limit =
     bind_io (gets_io (\<lambda>w. cache_on w \<and> redis_on w)) (\<lambda>on.
     bind_io (if on then attempt (cache_get FlashActivityListCacheKey flashActivityMetaTTL
                        (bind_io (FindActivities False limit) (\<lambda>acts. ret (Some (CActivities acts)))))
              else ret (Inl (Sentinel ''no cache''))) (\<lambda>r.
       case (case r of Inr v \<Rightarrow> decode_activities v | Inl e \<Rightarrow> None) of
         Some acts \<Rightarrow> ret acts
       | None \<Rightarrow>
           bind_io (wrap_err ''find active activities'' (FindActivities False limit)) (\<lambda>acts.
           bind_io time_now (\<lambda>t. ret (map (activity_with_sales t) acts)))))"

definition ListFlashActivities :: "int \<Rightarrow> (world, flash_activity list) io" where
  "ListFlashActivities limit =
     bind_io (wrap_err ''find activities'' (FindActivities True limit)) (\<lambda>acts.
     bind_io time_now (\<lambda>t. ret (map (activity_with_sales t) acts)))"

definition FlashActivityDetail :: "int \<Rightarrow> (world, flash_activity) io" where
  "FlashActivityDetail i =
     bind_io (getFlashActivity i) (\<lambda>act.
       case act of
         None \<Rightarrow> throw ErrFlashSaleNotFound
       | Some a \<Rightarrow> bind_io time_now (\<lambda>t. ret (activity_with_sales t a)))"

text \<open>The input of an administrator; \<open>None\<close> for the start is Go's zero time, for the status \<open>""\<close>.\<close>

record flash_input =
  fi_item :: int
  fi_name :: string
  fi_start :: "instant option"
  fi_end :: "instant option"
  fi_limit :: int
  fi_per_user :: int
  fi_price :: int
  fi_status :: "flash_status option"

definition zero_time :: instant where
  "zero_time = - 62135596800 * second"

definition input_start :: "flash_input \<Rightarrow> instant" where
  "input_start inp = (case fi_start inp of None \<Rightarrow> zero_time | Some t \<Rightarrow> t)"

definition reconcileStock :: "flash_activity \<Rightarrow> (world, unit) io" where
  "reconcileStock a =
     bind_io (gets_io (\<lambda>w. (cache_on w \<and> redis_on w, now w))) (\<lambda>(on, t).
       if \<not> on then ret ()
       else ReconcileFlashSale (fa_id a) (fa_limit a - fa_sold a) (flashSaleTTL t a))"

definition created_activity :: "instant \<Rightarrow> flash_input \<Rightarrow> flash_activity" where
  "created_activity t inp = \<lparr>fa_id = 0, fa_item = fi_item inp, fa_name = fi_name inp,
     fa_start = input_start inp, fa_end = fi_end inp, fa_limit = fi_limit inp, fa_sold = 0,
     fa_per_user = (if fi_per_user inp \<le> 0 then 1 else fi_per_user inp), fa_price = fi_price inp,
     fa_status = (case fi_status inp of
        None \<Rightarrow> if input_start inp > t then FlashPending else FlashActive
      | Some st \<Rightarrow> st), fa_sales = []\<rparr>"

definition CreateFlashActivity :: "flash_input option \<Rightarrow> (world, flash_activity) io" where
  "CreateFlashActivity input =
     (case input of
        None \<Rightarrow> throw (Sentinel ''item_id is required'')
      | Some inp \<Rightarrow>
          if fi_item inp \<le> 0 then throw (Sentinel ''item_id is required'')
          else if fi_limit inp \<le> 0 then throw (Sentinel ''limit_qty must be > 0'')
          else bind_io time_now (\<lambda>t.
               bind_io (wrap_err ''create activity'' (CreateActivity (created_activity t inp))) (\<lambda>a.
               let a' = activity_with_sales t a in
               bind_io (gets_io cache_on) (\<lambda>on.
               then_io (when_io on
                  (then_io (best_effort (cache_set (FlashActivityCacheKey (fa_id a)) (Some (CActivity a')) flashActivityMetaTTL))
                           (best_effort (reconcileStock a'))))
                 (ret a')))))"

definition updated_activity :: "flash_input \<Rightarrow> flash_activity \<Rightarrow> flash_activity" where
  "updated_activity inp a =
     a\<lparr>fa_name := (if fi_name inp \<noteq> [] then fi_name inp else fa_name a),
       fa_start := (case fi_start inp of None \<Rightarrow> fa_start a | Some t \<Rightarrow> t),
       fa_end := fi_end inp,
       fa_limit := (if fi_limit inp > 0 then fi_limit inp else fa_limit a),
       fa_per_user := (if fi_per_user inp > 0 then fi_per_user inp else fa_per_user a),
       fa_price := (if fi_price inp \<ge> 0 then fi_price inp else fa_price a),
       fa_status := (case fi_status inp of None \<Rightarrow> fa_status a | Some st \<Rightarrow> st)\<rparr>"

definition UpdateFlashActivity :: "int \<Rightarrow> flash_input \<Rightarrow> (world, flash_activity) io" where
  "UpdateFlashActivity i inp =
     bind_io (wrap_err ''find activity'' (FindActivityByID i)) (\<lambda>act.
       case act of
         None \<Rightarrow> throw ErrFlashSaleNotFound
       | Some a \<Rightarrow>
           let a' = updated_activity inp a in
           then_io (wrap_err ''update activity'' (UpdateActivity a'))
          (then_io (invalidate_keys [FlashActivityCacheKey i, FlashActivityListCacheKey])
          (bind_io (gets_io cache_on) (\<lambda>on.
           then_io (when_io on (best_effort (reconcileStock a'))) (ret a')))))"

definition EndFlashActivity :: "int \<Rightarrow> (world, flash_activity) io" where
  "EndFlashActivity i =
     bind_io (wrap_err ''find activity'' (FindActivityByID i)) (\<lambda>act.
       case act of
         None \<Rightarrow> throw ErrFlashSaleNotFound
       | Some a \<Rightarrow>
           let a' = a\<lparr>fa_status := FlashEnded\<rparr> in
           then_io (wrap_err ''end activity'' (UpdateActivity a'))
          (then_io (invalidate_keys [FlashActivityCacheKey i, FlashActivityListCacheKey]) (ret a')))"

definition WarmupFlashSale :: "int \<Rightarrow> (world, unit) io" where
  "WarmupFlashSale i =
     bind_io (wrap_err ''find activity'' (FindActivityByID i)) (\<lambda>act.
       case act of
         None \<Rightarrow> throw ErrFlashSaleNotFound
       | Some a \<Rightarrow> reconcileStock a)"

definition SyncFlashSaleStock :: "int \<Rightarrow> (world, unit) io" where
  "SyncFlashSaleStock i = WarmupFlashSale i"

definition WarmupDueFlashSales :: "(world, nat) io" where
  "WarmupDueFlashSales =
     bind_io time_now (\<lambda>t.
     bind_io (attempt (TransitionStaleStatuses t)) (\<lambda>r.
     then_io (case r of
                Inl e \<Rightarrow> ret ()
              | Inr n \<Rightarrow> if n > 0 then invalidate_keys [FlashActivityListCacheKey] else ret ())
    (bind_io (wrap_err ''list warmup candidates'' (ListWarmupCandidates t flashWarmupLead)) (\<lambda>acts.
     bind_io (gets_io cache_on) (\<lambda>on.
       if \<not> on then ret 0
       else fold_io (\<lambda>a n. bind_io (attempt (reconcileStock a)) (\<lambda>r.
                ret (case r of Inl e \<Rightarrow> n | Inr _ \<Rightarrow> n + 1))) acts 0)))))"

section \<open>Lists, orders, reconciliation\<close>

definition Items :: "int \<Rightarrow> int \<Rightarrow> string \<Rightarrow> (world, shop_item list \<times> int \<times> bool) io" where
  "Items cursor limit category =
     bind_io (wrap_err ''find items'' (FindItems cursor limit category)) (\<lambda>items.
       case CursorPage items limit it_id of
         (trimmed, nextCursor, hasMore) \<Rightarrow> ret (map item_with_sales trimmed, nextCursor, hasMore))"

definition Orders :: "string \<Rightarrow> int \<Rightarrow> int \<Rightarrow> (world, redeem_order list \<times> int \<times> bool) io" where
  "Orders u cursor limit =
     bind_io (wrap_err ''find orders'' (FindOrders u cursor limit)) (\<lambda>rows. ret (CursorPage rows limit or_id))"

definition OrderDetail :: "int \<Rightarrow> (world, redeem_order) io" where
  "OrderDetail i =
     bind_io (wrap_err ''find order'' (FindOrderByID i)) (\<lambda>x.
       case x of None \<Rightarrow> throw ErrOrderNotFound | Some ord \<Rightarrow> ret ord)"

definition ReconcileItemRedeemStock :: "int \<Rightarrow> (world, unit) io" where
  "ReconcileItemRedeemStock i =
     bind_io (gets_io (\<lambda>w. cache_on w \<and> redis_on w)) (\<lambda>on.
       if \<not> on then ret ()
       else bind_io (TotalStock i) (\<lambda>n. ReconcileRedeem i n redeemStockTTL))"

end
