(* ===== verification/ShopInvariants.thy ===== *)
theory ShopInvariants
  imports ShopService
begin

text \<open>
  What the shop keeps of its tables. As for the idle service, every request writes the tables
  only by the steps of a relation, and the invariants are proved of the steps: a flash sale
  never sells more than its limit, and every order has exactly one payment and one event.
\<close>

section \<open>Which operations leave the tables alone\<close>

context db_relation
begin

lemma ev_invalidate_keys: "evolves (on_db Q) (invalidate_keys ks)"
  unfolding invalidate_keys_def by (intro ev_world ev_cache_delete)

lemma ev_apply_async: "evolves (on_db Q) (ApplyAsync ob)"
  unfolding ApplyAsync_def publish_adjust_def by (intro ev_world)

lemma ev_on_error: "evolves (on_db Q) m \<Longrightarrow> (\<And>e. evolves (on_db Q) (h e)) \<Longrightarrow> evolves (on_db Q) (on_error m h)"
  unfolding on_error_def by (intro ev_world)

lemma ev_shop_locks: "evolves (on_db Q) (acquireLock k t)" "evolves (on_db Q) (releaseLock k)"
  unfolding acquireLock_def releaseLock_def by (intro ev_world ev_manager_lock)+

lemma ev_first_item: "evolves (on_db Q) (first_item i)"
  unfolding first_item_def by (rule ev_db_read)

lemma ev_fillItemStock: "evolves (on_db Q) (fillItemStock it)"
  unfolding fillItemStock_def TotalStock_def by (intro ev_world ev_first_item)

lemma ev_decode_item: "evolves (on_db Q) (decode_item v)"
  unfolding decode_item_def by (auto intro: ev_world split: option.splits cval.splits)

lemma ev_count_flash: "evolves (on_db Q) (count_flash_orders i u)"
  unfolding count_flash_orders_def by (rule ev_db_read)

lemma ev_shop_reads:
  "evolves (on_db Q) (FindItems c l cat)" "evolves (on_db Q) (FindItemByID i)" "evolves (on_db Q) (TotalStock i)"
  "evolves (on_db Q) (FindOrders u c l)" "evolves (on_db Q) (FindOrderByID i)"
  "evolves (on_db Q) (FindActivityByID i)" "evolves (on_db Q) (FindActivities b l)"
  "evolves (on_db Q) (ListWarmupCandidates t lead)" "evolves (on_db Q) (CountUserFlashOrders i u)"
  by (auto simp: FindItems_def fillBucketStock_def FindItemByID_def TotalStock_def FindOrders_def FindOrderByID_def
      FindActivityByID_def FindActivities_def ListWarmupCandidates_def CountUserFlashOrders_def
      intro!: ev_world ev_cache_get ev_first_item ev_fillItemStock ev_decode_item ev_count_flash)

lemma ev_getFlashActivity: "evolves (on_db Q) (getFlashActivity i)"
  unfolding getFlashActivity_def activity_loader_def by (intro ev_world ev_cache_get ev_shop_reads)

lemma ev_check_user: "evolves (on_db Q) (check_user u n)"
  unfolding check_user_def by (intro ev_world ev_user)

lemma ev_reserve: "evolves (on_db Q) (redeem_reserve it)" "evolves (on_db Q) (flash_reserve u i a)"
  "evolves (on_db Q) (redeem_rollback it b e)" "evolves (on_db Q) (reconcileStock a)"
  unfolding redeem_reserve_def flash_reserve_def redeem_rollback_def reconcileStock_def
  by (auto intro!: ev_world ev_reservation split: sum.splits prod.splits redeem_acquire_result.splits
      flash_acquire_result.splits)

lemma ev_after_commit: "evolves (on_db Q) (after_commit p u it ord ob n)"
  unfolding after_commit_def emitShopRedeemed_def by (intro ev_world ev_apply_async)

lemma ev_shop_lists:
  "evolves (on_db Q) (FlashActivities l)" "evolves (on_db Q) (ListFlashActivities l)"
  "evolves (on_db Q) (FlashActivityDetail i)" "evolves (on_db Q) (Items c l cat)" "evolves (on_db Q) (Orders u c l)"
  "evolves (on_db Q) (OrderDetail i)" "evolves (on_db Q) (ReconcileItemRedeemStock i)" "evolves (on_db Q) (WarmupFlashSale i)"
  unfolding FlashActivities_def ListFlashActivities_def FlashActivityDetail_def Items_def Orders_def OrderDetail_def
    ReconcileItemRedeemStock_def WarmupFlashSale_def
  by (intro ev_world ev_cache_get ev_shop_reads ev_getFlashActivity ev_reserve ev_reservation)+

end

section \<open>The steps\<close>

definition stock_taken :: "int \<Rightarrow> int \<Rightarrow> business_db \<Rightarrow> business_db \<Rightarrow> bool" where
  "stock_taken i q d d' \<longleftrightarrow>
     (buckets_of i d = [] \<and> (\<exists>it \<in> set (shop_items d). has_stock i q it) \<and>
        d' = d\<lparr>shop_items := update_where (has_stock i q) (take_item q) (shop_items d)\<rparr>) \<or>
     (\<exists>b. (\<exists>r \<in> set (stock_buckets d). bucket_has i b q r) \<and>
        d' = d\<lparr>stock_buckets := update_where (bucket_has i b q) (take_bucket q) (stock_buckets d)\<rparr>)"

definition placed :: "redeem_order \<Rightarrow> instant \<Rightarrow> business_db \<Rightarrow> redeem_order" where
  "placed ord t d = ord\<lparr>or_id := next_id or_id (redeem_orders d), or_created := t\<rparr>"

definition sell :: "string \<Rightarrow> (int \<Rightarrow> string) \<Rightarrow> user \<Rightarrow> redeem_order \<Rightarrow> instant \<Rightarrow> business_db \<Rightarrow> business_db" where
  "sell ref ev usr ord t d = (let ord' = placed ord t d in
     d\<lparr>redeem_orders := redeem_orders d @ [ord'],
       points_transactions := points_transactions d
         @ [(order_transaction usr ord')\<lparr>pt_id := next_id pt_id (points_transactions d), pt_created := t\<rparr>],
       outbox_rows := outbox_rows d
         @ [(order_outbox ref ev ord' t)\<lparr>ob_id := next_id ob_id (outbox_rows d), ob_created := t, ob_updated := t\<rparr>]\<rparr>)"

definition use_quota :: "int \<Rightarrow> business_db \<Rightarrow> business_db" where
  "use_quota i d = d\<lparr>flash_activities :=
     update_where (has_quota i) (\<lambda>a. a\<lparr>fa_sold := fa_sold a + 1\<rparr>) (flash_activities d)\<rparr>"

text \<open>\<open>edits\<close>: whether administrators change activities, which can lower a limit.\<close>

inductive shop_db_step :: "bool \<Rightarrow> business_db \<Rightarrow> business_db \<Rightarrow> bool" for edits :: bool where
  redeem: "stock_taken i q d d' \<Longrightarrow> 0 < q \<Longrightarrow> or_activity ord = 0 \<Longrightarrow>
     redeem_event (next_id or_id (redeem_orders d)) \<notin> ob_event ` set (outbox_rows d) \<Longrightarrow>
     shop_db_step edits d (sell ''redeem'' redeem_event usr ord t d')"
| flash: "a \<in> set (flash_activities d) \<Longrightarrow> has_quota (or_activity ord) a \<Longrightarrow>
     flash_event (next_id or_id (redeem_orders d)) \<notin> ob_event ` set (outbox_rows d) \<Longrightarrow>
     shop_db_step edits d (sell ''flash_redeem'' flash_event usr ord t (use_quota (or_activity ord) d))"
| status: "shop_db_step edits d
     (d\<lparr>flash_activities := update_where p (\<lambda>a. a\<lparr>fa_status := st\<rparr>) (flash_activities d)\<rparr>)"
| create: "fa_sold a = 0 \<Longrightarrow> 0 < fa_limit a \<Longrightarrow> shop_db_step edits d
     (d\<lparr>flash_activities := flash_activities d @ [a\<lparr>fa_id := next_id fa_id (flash_activities d), fa_sales := []\<rparr>]\<rparr>)"
| edit: "edits \<Longrightarrow> shop_db_step edits d
     (d\<lparr>flash_activities := update_where (\<lambda>r. fa_id r = fa_id a) (edit_activity a) (flash_activities d)\<rparr>)"
| buckets: "shop_db_step edits d (d\<lparr>stock_buckets := fold insert_bucket bs (stock_buckets d)\<rparr>)"
| item: "shop_db_step edits d (d\<lparr>shop_items := shop_items d @ [it\<lparr>it_id := next_id it_id (shop_items d)\<rparr>]\<rparr>)"

interpretation shop_steps: db_relation "(shop_db_step b)\<^sup>*\<^sup>*" for b
  by unfold_locales auto

section \<open>Every request writes by these steps\<close>

lemma deduct_item_cases:
  assumes "deduct_item i q w = (res, w')"
  shows "(\<exists>e. res = Inl e) \<and> db w' = db w \<or>
    res = Inr (rows_affected (has_stock i q) (shop_items (db w))) \<and>
    db w' = (db w)\<lparr>shop_items := update_where (has_stock i q) (take_item q) (shop_items (db w))\<rparr>"
  using assms by (auto simp: deduct_item_def db_write_def ext_def split: list.splits if_splits)

lemma deduct_bucket_cases:
  assumes "deduct_bucket i b q w = (res, w')"
  shows "(\<exists>e. res = Inl e) \<and> db w' = db w \<or>
    res = Inr (rows_affected (bucket_has i b q) (stock_buckets (db w))) \<and>
    db w' = (db w)\<lparr>stock_buckets := update_where (bucket_has i b q) (take_bucket q) (stock_buckets (db w))\<rparr>"
  using assms by (auto simp: deduct_bucket_def db_write_def ext_def split: list.splits if_splits)

lemma no_bucket_has:
  "rows_affected (bucket_has i b q) (stock_buckets d) = 0 \<Longrightarrow>
   d\<lparr>stock_buckets := update_where (bucket_has i b q) f (stock_buckets d)\<rparr> = d"
  by (simp add: rows_affected_0 update_where_none)

lemma try_buckets_cases:
  assumes "try_buckets i q bs w = (res, w')"
  shows "(\<exists>e. res = Inl e) \<and> db w' = db w \<or> res = Inr () \<and>
    (\<exists>b \<in> set bs. (\<exists>r \<in> set (stock_buckets (db w)). bucket_has i b q r) \<and>
      db w' = (db w)\<lparr>stock_buckets := update_where (bucket_has i b q) (take_bucket q) (stock_buckets (db w))\<rparr>)"
  using assms
proof (induction bs arbitrary: w)
  case Nil
  then show ?case by (auto simp: throw_def)
next
  case (Cons b bs)
  obtain x v where d: "deduct_bucket i b q w = (x, v)" by fastforce
  note c = deduct_bucket_cases [OF d]
  show ?case
  proof (cases x)
    case (Inl e)
    then show ?thesis using Cons.prems d c by (auto simp: bind_io_def)
  next
    case (Inr n)
    show ?thesis
    proof (cases "n > 0")
      case True
      then show ?thesis using Cons.prems d c Inr by (auto simp: bind_io_def ret_def rows_affected_pos)
    next
      case False
      then have "db v = db w" using c Inr no_bucket_has [of i b q "db w"] by simp
      then show ?thesis using Cons.prems Cons.IH [of v] d Inr False by (auto simp: bind_io_def)
    qed
  qed
qed

lemma DeductStock_cases:
  assumes "DeductStock i q k w = (res, w')"
  shows "(\<exists>e. res = Inl e) \<and> db w' = db w \<or> res = Inr () \<and> stock_taken i q (db w) (db w')"
proof -
  obtain x v where c: "ext ''stock bucket count'' (gets_io (\<lambda>w. length (buckets_of i (db w)))) w = (x, v)" by fastforce
  then have v: "db v = db w \<and> ((\<exists>e. x = Inl e) \<or> x = Inr (length (buckets_of i (db w))))"
    by (auto simp: ext_def gets_io_def split: list.splits if_splits)
  consider (err) e where "x = Inl e" | (row) "x = Inr 0" "buckets_of i (db w) = []"
    | (many) n where "x = Inr (Suc n)"
    using v by (cases "buckets_of i (db w)") auto
  then show ?thesis
  proof cases
    case err
    then show ?thesis using assms c v by (auto simp: DeductStock_def bind_io_def)
  next
    case row
    obtain y u where y: "deduct_item i q v = (y, u)" by fastforce
    then show ?thesis using assms c v row deduct_item_cases [OF y]
      by (cases y) (auto simp: DeductStock_def bind_io_def throw_def ret_def stock_taken_def rows_affected_0
          rows_affected_pos update_where_none split: if_splits)
  next
    case many
    then have "try_buckets i q (bucket_order k (Suc n)) v = (res, w')"
      using assms c by (simp add: DeductStock_def bind_io_def)
    from try_buckets_cases [OF this] show ?thesis using v by (auto simp: stock_taken_def)
  qed
qed

lemma CreateOrder_cases:
  assumes "CreateOrder ord w = (res, w')"
  shows "(\<exists>x. res = Inl x) \<or> res = Inr (placed ord (now w) (db w)) \<and> now w' = now w \<and>
    db w' = (db w)\<lparr>redeem_orders := redeem_orders (db w) @ [placed ord (now w) (db w)]\<rparr>"
  using assms by (auto simp: CreateOrder_def db_write_def ext_def placed_def Let_def split: list.splits if_splits)

text \<open>What the common part of the transactions does when it returns without an error.\<close>

lemma write_order_ok:
  assumes "write_order True ref ev usr ord w = (Inr (ord', ob), w')"
  shows "ord' = placed ord (now w) (db w)" and "ob = order_outbox ref ev ord' (now w)"
    and "ev (or_id ord') \<notin> ob_event ` set (outbox_rows (db w))"
    and "db w' = sell ref ev usr ord (now w) (db w)"
proof -
  obtain o1 w1 where 1: "CreateOrder ord w = (Inr o1, w1)"
    and k: "then_io (wrap_err ''create points transaction'' (CreateTransaction (order_transaction usr o1)))
      (bind_io time_now (\<lambda>t. then_io (wrap_err ''append points outbox'' (AppendOutboxInTx (order_outbox ref ev o1 t)))
         (ret (o1, order_outbox ref ev o1 t)))) w1 = (Inr (ord', ob), w')"
    using assms unfolding write_order_def bind_io_Inr by (auto simp: wrap_err_def split: prod.splits sum.splits)
  obtain w2 where 2: "CreateTransaction (order_transaction usr o1) w1 = (Inr (), w2)"
    and 3: "AppendOutboxInTx (order_outbox ref ev o1 (now w2)) w2 = (Inr (), w')"
    and r: "ord' = o1" "ob = order_outbox ref ev o1 (now w2)"
    using k unfolding time_now_def Inr_rules by auto
  note c1 = CreateOrder_cases [OF 1] and c2 = CreateTransaction_ok [OF 2] and c3 = AppendOutbox_ok [OF 3]
  show "ord' = placed ord (now w) (db w)" "ob = order_outbox ref ev ord' (now w)" using c1 c2 r by auto
  show "ev (or_id ord') \<notin> ob_event ` set (outbox_rows (db w))" using c1 c2 c3 r by (auto simp: order_outbox_def)
  show "db w' = sell ref ev usr ord (now w) (db w)" using c1 c2 c3 by (auto simp: sell_def Let_def)
qed

lemma redeem_tx_ok:
  assumes "redeem_tx True u it q pts usr w = (Inr (ord, ob), w')"
  shows "\<exists>d t. stock_taken (it_id it) q (db w) d \<and> ord = placed (new_order u it pts 0) t d \<and>
    redeem_event (or_id ord) \<notin> ob_event ` set (outbox_rows d) \<and>
    db w' = sell ''redeem'' redeem_event usr (new_order u it pts 0) t d"
proof -
  obtain x v where d: "DeductStock (it_id it) q u w = (x, v)" by fastforce
  then obtain y where x: "x = Inr y" and
    k: "write_order True ''redeem'' redeem_event usr (new_order u it pts 0) v = (Inr (ord, ob), w')"
    using assms by (cases x) (auto simp: redeem_tx_def bind_io_def attempt_def throw_def)
  then have "stock_taken (it_id it) q (db w) (db v)" using DeductStock_cases [OF d] by auto
  then show ?thesis using write_order_ok [OF k] by blast
qed

lemma AcquireFlashQuota_cases:
  assumes "AcquireFlashQuota i w = (Inr ok, w')"
  shows "db w' = use_quota i (db w)" and "ok \<longleftrightarrow> (\<exists>a \<in> set (flash_activities (db w)). has_quota i a)"
  using assms
  by (auto simp: AcquireFlashQuota_def db_write_def bind_io_def ext_def ret_def use_quota_def rows_affected_pos
      split: list.splits if_splits)

lemma flash_tx_ok:
  assumes "flash_tx True u i it pts usr w = (Inr (ord, ob), w')"
  shows "\<exists>t. (\<exists>a \<in> set (flash_activities (db w)). has_quota i a) \<and>
    ord = placed (new_order u it pts i) t (use_quota i (db w)) \<and>
    flash_event (or_id ord) \<notin> ob_event ` set (outbox_rows (db w)) \<and>
    db w' = sell ''flash_redeem'' flash_event usr (new_order u it pts i) t (use_quota i (db w))"
proof -
  obtain ok v where q: "AcquireFlashQuota i w = (Inr ok, v)"
    and k: "(if \<not> ok then throw ErrFlashSaleSoldOut
       else write_order True ''flash_redeem'' flash_event usr (new_order u it pts i)) v = (Inr (ord, ob), w')"
    using assms unfolding flash_tx_def bind_io_Inr by (auto simp: wrap_err_def split: prod.splits sum.splits)
  have ok: ok using k by (auto simp: throw_def split: if_splits)
  then have "write_order True ''flash_redeem'' flash_event usr (new_order u it pts i) v = (Inr (ord, ob), w')"
    using k by simp
  from write_order_ok [OF this] AcquireFlashQuota_cases [OF q] ok show ?thesis
    by (auto simp: use_quota_def)
qed

lemma stock_taken_frame:
  assumes "stock_taken i q d d'"
  shows "redeem_orders d' = redeem_orders d \<and> outbox_rows d' = outbox_rows d \<and>
    points_transactions d' = points_transactions d \<and> flash_activities d' = flash_activities d"
  using assms by (auto simp: stock_taken_def)

lemma new_order_activity [simp]: "or_activity (new_order u it pts i) = i"
  by (simp add: new_order_def)

lemma placed_simps [simp]:
  "or_id (placed ord t d) = next_id or_id (redeem_orders d)" "or_activity (placed ord t d) = or_activity ord"
  "or_points (placed ord t d) = or_points ord" "or_user (placed ord t d) = or_user ord"
  by (simp_all add: placed_def)

lemma ev_redeem_tx:
  assumes "0 < q"
  shows "evolves (on_db (shop_db_step b)\<^sup>*\<^sup>*) (transaction (redeem_tx True u it q pts usr))"
proof (rule ev_whole_transaction)
  fix w x w'
  assume "redeem_tx True u it q pts usr w = (Inr x, w')"
  then obtain ord ob where "redeem_tx True u it q pts usr w = (Inr (ord, ob), w')" by (cases x) auto
  from redeem_tx_ok [OF this] obtain d t where
    st: "stock_taken (it_id it) q (db w) d" and ord: "ord = placed (new_order u it pts 0) t d"
    and fresh: "redeem_event (or_id ord) \<notin> ob_event ` set (outbox_rows d)"
    and w': "db w' = sell ''redeem'' redeem_event usr (new_order u it pts 0) t d" by blast
  have "shop_db_step b (db w) (db w')" unfolding w'
    using st assms by (rule shop_db_step.redeem) (use fresh ord stock_taken_frame [OF st] in simp_all)
  then show "(shop_db_step b)\<^sup>*\<^sup>* (db w) (db w')" by blast
qed auto

lemma ev_flash_tx: "evolves (on_db (shop_db_step b)\<^sup>*\<^sup>*) (transaction (flash_tx True u i it pts usr))"
proof (rule ev_whole_transaction)
  fix w x w'
  assume "flash_tx True u i it pts usr w = (Inr x, w')"
  then obtain ord ob where "flash_tx True u i it pts usr w = (Inr (ord, ob), w')" by (cases x) auto
  from flash_tx_ok [OF this] obtain t a where a: "a \<in> set (flash_activities (db w))" "has_quota i a"
    and ord: "ord = placed (new_order u it pts i) t (use_quota i (db w))"
    and fresh: "flash_event (or_id ord) \<notin> ob_event ` set (outbox_rows (db w))"
    and w': "db w' = sell ''flash_redeem'' flash_event usr (new_order u it pts i) t (use_quota i (db w))" by blast
  have "shop_db_step b (db w) (sell ''flash_redeem'' flash_event usr (new_order u it pts i) t
      (use_quota (or_activity (new_order u it pts i)) (db w)))"
    using a(1) by (rule shop_db_step.flash) (use a ord fresh in \<open>simp_all add: use_quota_def\<close>)
  then show "(shop_db_step b)\<^sup>*\<^sup>* (db w) (db w')" using w' by simp
qed auto

lemma redeem_quantity_pos: "0 < redeem_quantity q"
  by (simp add: redeem_quantity_def)

lemma ev_Redeem: "evolves (on_db (shop_db_step b)\<^sup>*\<^sup>*) (Redeem True u i q)"
  unfolding Redeem_def redeem_locked_def redeem_reserved_def Let_def
  by (intro shop_steps.ev_world shop_steps.ev_shop_locks shop_steps.ev_shop_reads shop_steps.ev_reservation
      shop_steps.ev_reserve shop_steps.ev_on_error shop_steps.ev_check_user shop_steps.ev_after_commit
      ev_redeem_tx redeem_quantity_pos)

lemma ev_FlashRedeem: "evolves (on_db (shop_db_step b)\<^sup>*\<^sup>*) (FlashRedeem True u i)"
  unfolding FlashRedeem_def flash_locked_def flash_reserved_def Let_def
  by (intro shop_steps.ev_world shop_steps.ev_shop_locks shop_steps.ev_shop_reads shop_steps.ev_reservation
      shop_steps.ev_reserve shop_steps.ev_on_error shop_steps.ev_check_user shop_steps.ev_after_commit
      shop_steps.ev_getFlashActivity shop_steps.ev_invalidate_keys ev_flash_tx)

lemma ev_set_flash_status: "evolves (on_db (shop_db_step b)\<^sup>*\<^sup>*) (set_flash_status p st)"
  unfolding set_flash_status_def by (intro shop_steps.ev_db_write) (auto intro: shop_db_step.status)

lemma ev_CreateActivity:
  "fa_sold a = 0 \<Longrightarrow> 0 < fa_limit a \<Longrightarrow> evolves (on_db (shop_db_step b)\<^sup>*\<^sup>*) (CreateActivity a)"
  unfolding CreateActivity_def Let_def by (intro shop_steps.ev_db_write) (auto intro: shop_db_step.create)

lemma ev_UpdateActivity: "evolves (on_db (shop_db_step True)\<^sup>*\<^sup>*) (UpdateActivity a)"
  unfolding UpdateActivity_def by (intro shop_steps.ev_db_write) (auto intro: shop_db_step.edit)

lemma ev_CreateFlashActivity: "evolves (on_db (shop_db_step b)\<^sup>*\<^sup>*) (CreateFlashActivity input)"
  unfolding CreateFlashActivity_def Let_def
  by (cases input) (auto intro!: shop_steps.ev_world shop_steps.ev_cache_set shop_steps.ev_reserve ev_CreateActivity
      simp: created_activity_def)

lemma ev_edits:
  "evolves (on_db (shop_db_step True)\<^sup>*\<^sup>*) (UpdateFlashActivity i inp)"
  "evolves (on_db (shop_db_step True)\<^sup>*\<^sup>*) (EndFlashActivity i)"
  unfolding UpdateFlashActivity_def EndFlashActivity_def Let_def
  by (intro shop_steps.ev_world shop_steps.ev_shop_reads shop_steps.ev_invalidate_keys shop_steps.ev_reserve
      ev_UpdateActivity)+

lemma ev_WarmupDue: "evolves (on_db (shop_db_step b)\<^sup>*\<^sup>*) WarmupDueFlashSales"
  unfolding WarmupDueFlashSales_def TransitionStaleStatuses_def
  by (intro shop_steps.ev_world shop_steps.ev_shop_reads shop_steps.ev_invalidate_keys shop_steps.ev_reserve
      ev_set_flash_status)

lemma ev_CreateStockBuckets: "evolves (on_db (shop_db_step b)\<^sup>*\<^sup>*) (CreateStockBuckets i n)"
  unfolding CreateStockBuckets_def by (intro shop_steps.ev_db_write) (auto intro: shop_db_step.buckets)

lemma ev_seeds:
  "evolves (on_db (shop_db_step b)\<^sup>*\<^sup>*) SeedItems" "evolves (on_db (shop_db_step b)\<^sup>*\<^sup>*) BackfillStockBuckets"
  unfolding SeedItems_def seed_one_def create_item_def invalidateItemCache_def BackfillStockBuckets_def Let_def
  by (intro shop_steps.ev_world shop_steps.ev_invalidate_keys ev_CreateStockBuckets shop_steps.ev_db_write;
      auto intro: shop_db_step.item)+

datatype shop_request =
    RedeemItem string int int
  | FlashBuy string int
  | CreateFlash "flash_input option"
  | UpdateFlash int flash_input
  | EndFlash int
  | Warmup int
  | WarmupDue
  | ReconcileItem int
  | Seed
  | BackfillBuckets
  | ListItems int int string
  | ListActivities int

definition run_shop :: "shop_request \<Rightarrow> (world, unit) io" where
  "run_shop req = (case req of
      RedeemItem u i q \<Rightarrow> best_effort (Redeem True u i q)
    | FlashBuy u i \<Rightarrow> best_effort (FlashRedeem True u i)
    | CreateFlash input \<Rightarrow> best_effort (CreateFlashActivity input)
    | UpdateFlash i inp \<Rightarrow> best_effort (UpdateFlashActivity i inp)
    | EndFlash i \<Rightarrow> best_effort (EndFlashActivity i)
    | Warmup i \<Rightarrow> best_effort (WarmupFlashSale i)
    | WarmupDue \<Rightarrow> best_effort WarmupDueFlashSales
    | ReconcileItem i \<Rightarrow> best_effort (ReconcileItemRedeemStock i)
    | Seed \<Rightarrow> best_effort SeedItems
    | BackfillBuckets \<Rightarrow> best_effort BackfillStockBuckets
    | ListItems c l cat \<Rightarrow> best_effort (Items c l cat)
    | ListActivities l \<Rightarrow> best_effort (FlashActivities l))"

definition is_edit :: "shop_request \<Rightarrow> bool" where
  "is_edit req = (case req of UpdateFlash _ _ \<Rightarrow> True | EndFlash _ \<Rightarrow> True | _ \<Rightarrow> False)"

lemma ev_run_shop:
  assumes "is_edit req \<Longrightarrow> b"
  shows "evolves (on_db (shop_db_step b)\<^sup>*\<^sup>*) (run_shop req)"
  using assms unfolding run_shop_def is_edit_def
  by (cases req) (auto intro!: shop_steps.ev_best_effort ev_Redeem ev_FlashRedeem ev_CreateFlashActivity ev_edits
      ev_WarmupDue ev_seeds shop_steps.ev_shop_lists)

text \<open>C8. Whatever the shop is asked to do, whatever caches, replica and Redis hold and whatever
  calls fail, the business tables change only by whole sales (stock or quota, order, payment
  and event together), quota-safe activity changes, new buckets and new items.\<close>

theorem shop_requests_refine_steps:
  assumes "is_edit req \<Longrightarrow> edits" and "run_shop req w = (res, w')"
  shows "(shop_db_step edits)\<^sup>*\<^sup>* (db w) (db w')"
proof -
  have "evolves (on_db (shop_db_step edits)\<^sup>*\<^sup>*) (run_shop req)" using assms(1) by (rule ev_run_shop)
  then show ?thesis using assms(2) by (auto dest: evolvesD simp: on_db_def)
qed

section \<open>Flash sales: orders and quota\<close>

definition orders_of :: "int \<Rightarrow> redeem_order list \<Rightarrow> nat" where
  "orders_of i orders = rows_affected (\<lambda>x. or_activity x = i) orders"

definition flash_books :: "business_db \<Rightarrow> bool" where
  "flash_books d \<longleftrightarrow> distinct (map fa_id (flash_activities d)) \<and>
     (\<forall>a \<in> set (flash_activities d). 0 < fa_id a \<and> fa_sold a = int (orders_of (fa_id a) (redeem_orders d))) \<and>
     (\<forall>x \<in> set (redeem_orders d). or_activity x = 0 \<or> or_activity x \<in> fa_id ` set (flash_activities d))"

definition within_limits :: "business_db \<Rightarrow> bool" where
  "within_limits d \<longleftrightarrow> (\<forall>a \<in> set (flash_activities d). fa_sold a \<le> fa_limit a)"

lemma orders_of_append [simp]: "orders_of i (xs @ [x]) = orders_of i xs + (if or_activity x = i then 1 else 0)"
  by (simp add: orders_of_def rows_affected_def)

lemma orders_of_absent: "\<forall>x \<in> set orders. or_activity x \<noteq> i \<Longrightarrow> orders_of i orders = 0"
  by (simp add: orders_of_def rows_affected_0)

lemma sell_simps [simp]:
  "redeem_orders (sell ref ev usr ord t d) = redeem_orders d @ [placed ord t d]"
  "flash_activities (sell ref ev usr ord t d) = flash_activities d"
  by (simp_all add: sell_def Let_def)

lemma use_quota_simps [simp]:
  "flash_activities (use_quota i d) =
     update_where (has_quota i) (\<lambda>a. a\<lparr>fa_sold := fa_sold a + 1\<rparr>) (flash_activities d)"
  "redeem_orders (use_quota i d) = redeem_orders d" "outbox_rows (use_quota i d) = outbox_rows d"
  "points_transactions (use_quota i d) = points_transactions d"
  by (simp_all add: use_quota_def)

lemma edit_activity_simps [simp]:
  "fa_id (edit_activity a r) = fa_id r" "fa_sold (edit_activity a r) = fa_sold r"
  by (simp_all add: edit_activity_def)

lemma image_update_where: "(\<And>r. g (f r) = g r) \<Longrightarrow> g ` set (update_where p f rows) = g ` set rows"
  unfolding image_set by (simp add: map_update_where)

lemma flash_books_update:
  assumes "flash_books d" and "\<And>a. fa_id (f a) = fa_id a" and "\<And>a. fa_sold (f a) = fa_sold a"
  shows "flash_books (d\<lparr>flash_activities := update_where p f (flash_activities d)\<rparr>)"
proof -
  have ids: "fa_id ` set (update_where p f (flash_activities d)) = fa_id ` set (flash_activities d)"
    by (rule image_update_where) (rule assms(2))
  have "\<forall>a \<in> set (update_where p f (flash_activities d)).
      0 < fa_id a \<and> fa_sold a = int (orders_of (fa_id a) (redeem_orders d))"
    using assms by (auto simp: flash_books_def set_update_where)
  then show ?thesis using assms(1,2) by (simp add: flash_books_def map_update_where ids)
qed

lemma flash_books_step:
  assumes "shop_db_step edits d d'" and "flash_books d"
  shows "flash_books d'"
  using assms
proof cases
  case (redeem i q d1 ord usr t)
  then show ?thesis using assms(2) stock_taken_frame [of i q d d1]
    by (auto simp: flash_books_def)
next
  case (flash a ord usr t)
  let ?i = "or_activity ord" and ?f = "\<lambda>a. a\<lparr>fa_sold := fa_sold a + 1\<rparr>"
  have i: "fa_id a = ?i" using flash(3) by (simp add: has_quota_def)
  have quota: "has_quota ?i r \<longleftrightarrow> fa_id r = ?i" if "r \<in> set (flash_activities d)" for r
  proof
    assume "fa_id r = ?i"
    then have "r = a" using that flash(2) i assms(2) by (auto simp: flash_books_def distinct_map inj_on_def)
    then show "has_quota ?i r" using flash(3) by simp
  qed (simp add: has_quota_def)
  then have up: "update_where (has_quota ?i) ?f (flash_activities d) =
      update_where (\<lambda>r. fa_id r = ?i) ?f (flash_activities d)"
    by (simp add: update_where_def)
  have old: "?i \<in> fa_id ` set (flash_activities d)" using flash(2) i by force
  have ids: "fa_id ` set (update_where (\<lambda>r. fa_id r = ?i) ?f (flash_activities d)) = fa_id ` set (flash_activities d)"
    by (rule image_update_where) simp
  have "\<forall>b \<in> set (update_where (\<lambda>r. fa_id r = ?i) ?f (flash_activities d)).
      0 < fa_id b \<and> fa_sold b = int (orders_of (fa_id b) (redeem_orders d @ [placed ord t (use_quota ?i d)]))"
    using assms(2) by (auto simp: flash_books_def set_update_where)
  then show ?thesis using assms(2) old flash(1)
    by (simp add: flash_books_def up map_update_where ids)
next
  case (status p st)
  then show ?thesis using assms(2) flash_books_update [of d "\<lambda>a. a\<lparr>fa_status := st\<rparr>" p] by simp
next
  case (create a)
  let ?i = "next_id fa_id (flash_activities d)"
  have pos: "0 < ?i" by (rule next_id_pos)
  have fresh: "?i \<notin> fa_id ` set (flash_activities d)" by (rule next_id_fresh)
  have "or_activity x \<noteq> ?i" if "x \<in> set (redeem_orders d)" for x
  proof -
    have "or_activity x = 0 \<or> or_activity x \<in> fa_id ` set (flash_activities d)"
      using that assms(2) unfolding flash_books_def by blast
    then show ?thesis using fresh pos by (metis less_irrefl)
  qed
  then have "orders_of ?i (redeem_orders d) = 0" by (simp add: orders_of_absent)
  then show ?thesis using assms(2) create fresh pos by (auto simp: flash_books_def)
next
  case (edit a)
  then show ?thesis using assms(2) flash_books_update [of d "edit_activity a" "\<lambda>r. fa_id r = fa_id a"] by simp
qed (simp_all add: flash_books_def)

lemma within_limits_step:
  assumes "shop_db_step False d d'" and "within_limits d"
  shows "within_limits d'"
  using assms
proof cases
  case (redeem i q d1 ord usr t)
  then show ?thesis using assms(2) stock_taken_frame [of i q d d1] by (auto simp: within_limits_def)
next
  case (flash a ord usr t)
  then show ?thesis using assms(2) by (auto simp: within_limits_def set_update_where has_quota_def)
next
  case (create a)
  then show ?thesis using assms(2) by (auto simp: within_limits_def)
qed (auto simp: within_limits_def set_update_where)

section \<open>Orders and their payments\<close>

definition order_payments :: "int \<Rightarrow> business_db \<Rightarrow> int list" where
  "order_payments i d = map pt_amount
     (filter (\<lambda>t. pt_type t = ''redeem_spend'' \<and> pt_reference t = order_ref i) (points_transactions d))"

definition order_events :: "int \<Rightarrow> business_db \<Rightarrow> int list" where
  "order_events i d = map ob_delta
     (filter (\<lambda>r. ob_event r = redeem_event i \<or> ob_event r = flash_event i) (outbox_rows d))"

definition charged :: "int \<Rightarrow> redeem_order list \<Rightarrow> int list" where
  "charged i orders = map (\<lambda>x. wrap64 (- or_points x)) (filter (\<lambda>x. or_id x = i) orders)"

definition order_books :: "business_db \<Rightarrow> bool" where
  "order_books d \<longleftrightarrow> distinct (map or_id (redeem_orders d)) \<and>
     (\<forall>i. order_payments i d = charged i (redeem_orders d) \<and> order_events i d = charged i (redeem_orders d))"

lemma order_names [simp]:
  "order_ref i = order_ref j \<longleftrightarrow> i = j" "redeem_event i = redeem_event j \<longleftrightarrow> i = j"
  "flash_event i = flash_event j \<longleftrightarrow> i = j" "redeem_event i \<noteq> flash_event j" "flash_event i \<noteq> redeem_event j"
  by (simp_all add: order_ref_def redeem_event_def flash_event_def)

lemma order_books_sell:
  assumes "order_books d" and "\<And>i j. ev i = redeem_event j \<or> ev i = flash_event j \<longleftrightarrow> i = j"
  shows "order_books (sell ref ev usr ord t d)"
proof -
  have "next_id or_id (redeem_orders d) \<notin> or_id ` set (redeem_orders d)" by (rule next_id_fresh)
  then show ?thesis using assms
    by (auto simp: order_books_def sell_def Let_def order_payments_def order_events_def charged_def
        order_transaction_def order_outbox_def)
qed

lemma order_books_frame:
  assumes "redeem_orders d' = redeem_orders d"
    and "\<forall>i. order_payments i d' = order_payments i d \<and> order_events i d' = order_events i d"
  shows "order_books d' \<longleftrightarrow> order_books d"
  using assms by (simp add: order_books_def)

lemma order_books_step:
  assumes "shop_db_step edits d d'" and "order_books d"
  shows "order_books d'"
  using assms
proof cases
  case (redeem i q d1 ord usr t)
  have "order_books d1" using assms(2) stock_taken_frame [OF redeem(2)]
    by (simp add: order_books_def order_payments_def order_events_def)
  then show ?thesis unfolding redeem(1) by (rule order_books_sell) auto
next
  case (flash a ord usr t)
  have "order_books (use_quota (or_activity ord) d)" using assms(2)
    by (simp add: order_books_def order_payments_def order_events_def)
  then show ?thesis unfolding flash(1) by (rule order_books_sell) auto
qed (simp_all add: order_books_def order_payments_def order_events_def)

section \<open>Runs\<close>

text \<open>
  A run: requests served by any pod, and anything else that leaves orders, activities and
  the payments of orders alone.
\<close>

inductive shop_run :: "bool \<Rightarrow> world \<Rightarrow> world \<Rightarrow> bool" for edits :: bool where
  none: "shop_run edits w w"
| request: "shop_run edits u v \<Longrightarrow> (is_edit req \<Longrightarrow> edits) \<Longrightarrow> run_shop req v = (res, w) \<Longrightarrow> shop_run edits u w"
| other: "shop_run edits u v \<Longrightarrow> redeem_orders (db w) = redeem_orders (db v) \<Longrightarrow>
     flash_activities (db w) = flash_activities (db v) \<Longrightarrow>
     (\<And>i. order_payments i (db w) = order_payments i (db v) \<and> order_events i (db w) = order_events i (db v)) \<Longrightarrow>
     shop_run edits u w"

locale shop_invariant = step_invariant "shop_db_step edits" P for edits P +
  assumes same_tables: "redeem_orders d' = redeem_orders d \<Longrightarrow> flash_activities d' = flash_activities d \<Longrightarrow>
      \<forall>i. order_payments i d' = order_payments i d \<and> order_events i d' = order_events i d \<Longrightarrow> P d \<Longrightarrow> P d'"
begin

lemma kept_by_run:
  assumes "shop_run edits w w'" and "P (db w)"
  shows "P (db w')"
  using assms
proof (induction rule: shop_run.induct)
  case (request u v req res w)
  then show ?case
    using many_steps [of "db v" "db w"] evolvesD [OF ev_run_shop [of req edits]] by (simp add: on_db_def)
next
  case (other u v w)
  then show ?case using same_tables [of "db w" "db v"] by blast
qed auto

end

interpretation flash_counts: shop_invariant edits flash_books for edits
  by unfold_locales (blast intro: flash_books_step, simp add: flash_books_def)

interpretation flash_limits: shop_invariant False within_limits
  by unfold_locales (blast intro: within_limits_step, simp add: within_limits_def)

interpretation order_payment: shop_invariant edits order_books for edits
  by unfold_locales (blast intro: order_books_step, simp add: order_books_def)

text \<open>The number an activity keeps as sold is the number of its orders, and its limit bounds both.\<close>

definition sold_within :: "business_db \<Rightarrow> flash_activity \<Rightarrow> bool" where
  "sold_within d a \<longleftrightarrow> fa_sold a = int (orders_of (fa_id a) (redeem_orders d)) \<and> int (orders_of (fa_id a) (redeem_orders d)) \<le> fa_limit a"

text \<open>C6. A flash sale never sells more than its limit: from tables where that is so, and as long as nobody edits activities, in every
  run of requests of all pods, with any failures and whatever Redis says, each activity counts as sold
  exactly its orders, one unit each, and has at most as many as its limit.\<close>

theorem flash_sale_never_oversells:
  assumes "shop_run False w w'" and "flash_books (db w)" and "within_limits (db w)"
  shows "list_all (sold_within (db w')) (flash_activities (db w'))"
proof -
  have "flash_books (db w')" using assms(1,2) by (rule flash_counts.kept_by_run)
  moreover have "within_limits (db w')" using assms(1,3) by (rule flash_limits.kept_by_run)
  ultimately show ?thesis by (auto simp: flash_books_def within_limits_def sold_within_def list_all_iff)
qed

text \<open>C3. Every order, of a redemption or a flash sale, has exactly one payment and one outbox event,
  both of minus its price, and there are none without an order; administrators' edits included.\<close>

theorem orders_are_charged_once:
  assumes "shop_run edits w w'" and "order_books (db w)"
  shows "order_books (db w')"
  using assms by (rule order_payment.kept_by_run)

section \<open>Examples\<close>

definition sample_item :: shop_item where
  "sample_item = \<lparr>it_id = 1, it_name = ''pen'', it_description = [], it_price = 3, it_stock = 5, it_version = 0,
     it_image = [], it_category = [], it_active = True, it_sales = []\<rparr>"

definition sample_activity :: flash_activity where
  "sample_activity = \<lparr>fa_id = 1, fa_item = 1, fa_name = ''sale'', fa_start = 0, fa_end = None, fa_limit = 1,
     fa_sold = 0, fa_per_user = 1, fa_price = 2, fa_status = FlashActive, fa_sales = []\<rparr>"

definition sample_shop :: world where
  "sample_shop = empty_world\<lparr>cache_on := False, users := [sample_user],
     db := empty_db\<lparr>shop_items := [sample_item], flash_activities := [sample_activity]\<rparr>\<rparr>"

definition sample_sold :: world where
  "sample_sold = snd (run_shop (RedeemItem ''u1'' 1 1) (snd (run_shop (FlashBuy ''u1'' 1) sample_shop)))"

lemma sample_shop_run: "shop_run False sample_shop sample_sold"
  unfolding sample_sold_def
proof -
  let ?w1 = "snd (run_shop (FlashBuy ''u1'' 1) sample_shop)"
  have "shop_run False sample_shop ?w1"
    by (rule shop_run.request [OF shop_run.none _ prod.collapse [symmetric]]) (simp add: is_edit_def)
  then show "shop_run False sample_shop (snd (run_shop (RedeemItem ''u1'' 1 1) ?w1))"
    by (rule shop_run.request [OF _ _ prod.collapse [symmetric]]) (simp add: is_edit_def)
qed

theorem flash_sale_never_oversells_witness: "list_all (sold_within (db sample_sold)) (flash_activities (db sample_sold))"
  by (rule flash_sale_never_oversells [OF sample_shop_run])
    (simp_all add: sample_shop_def sample_activity_def flash_books_def within_limits_def empty_db_def
      orders_of_def rows_affected_def)

theorem orders_are_charged_once_witness: "order_books (db sample_sold)"
  by (rule orders_are_charged_once [OF sample_shop_run])
    (simp add: sample_shop_def order_books_def order_payments_def order_events_def charged_def empty_db_def)

theorem shop_requests_refine_steps_witness:
  "(shop_db_step False)\<^sup>*\<^sup>* (db sample_shop) (db (snd (run_shop (FlashBuy ''u1'' 1) sample_shop)))"
  by (rule shop_requests_refine_steps [OF _ prod.collapse [symmetric]]) (simp add: is_edit_def)

text \<open>The sales really happen.\<close>

lemma sample_sold_rows:
  "map or_points (redeem_orders (db sample_sold)) = [2, 3]"
  by code_simp

end
