(* ===== verification/ShopProperties.thy ===== *)
theory ShopProperties
  imports ShopInvariants
begin

text \<open>
  How the operations of the shop behave: the buckets add up to the stock, a deduction takes
  exactly its quantity from one place, a refused request leaves the tables as they were, and
  what a deduction that fails does to the Redis counter.
\<close>

section \<open>Buckets\<close>

lemma upto_snoc: "[0..int (Suc m) - 1] = [0..int m - 1] @ [int m]"
  using upto_rec2 [of 0 "int m"] by simp

lemma sum_ramp:
  "0 \<le> r \<Longrightarrow> sum_list (map (\<lambda>b. c + (if b < r then 1 else 0)) [0..int m - 1]) = int m * c + min r (int m)"
proof (induction m)
  case (Suc m)
  then show ?case by (simp only: upto_snoc) (auto simp: algebra_simps)
qed simp

text \<open>Splitting a stock into buckets loses nothing and is even: the buckets of an item add up to
  its stock and any two of them differ by at most one.\<close>

theorem makeBuckets_split:
  assumes "0 \<le> n_stock" and "0 < n"
  shows "sum_list (map bk_stock (makeBuckets i n_stock n)) = n_stock
    \<and> list_all (\<lambda>b. bk_stock b \<in> {n_stock div n, n_stock div n + 1}) (makeBuckets i n_stock n)"
proof -
  have r: "0 \<le> n_stock mod n" "n_stock mod n < n" using assms by auto
  have *: "makeBuckets i n_stock n = map (\<lambda>b. \<lparr>bk_item = i, bk_bucket = b,
      bk_stock = n_stock div n + (if b < n_stock mod n then 1 else 0)\<rparr>) [0..int (nat n) - 1]"
    using assms by (simp add: makeBuckets_def go_div_nonneg go_rem_nonneg)
  have "map bk_stock (makeBuckets i n_stock n) =
      map (\<lambda>b. n_stock div n + (if b < n_stock mod n then 1 else 0)) [0..int (nat n) - 1]"
    unfolding * by simp
  then have "sum_list (map bk_stock (makeBuckets i n_stock n)) = n_stock"
    using sum_ramp [OF r(1), of "n_stock div n" "nat n"] r assms by simp
  then show ?thesis unfolding * by (simp add: list_all_iff)
qed

theorem makeBuckets_split_witness:
  "sum_list (map bk_stock (makeBuckets 7 1000 16)) = 1000
    \<and> list_all (\<lambda>b. bk_stock b \<in> {1000 div 16, 1000 div 16 + 1}) (makeBuckets 7 1000 16)"
  by (rule makeBuckets_split) simp_all

section \<open>Deducting stock\<close>

definition stock_keys :: "business_db \<Rightarrow> bool" where
  "stock_keys d \<longleftrightarrow> distinct (map it_id (shop_items d)) \<and>
     distinct (map (\<lambda>b. (bk_item b, bk_bucket b)) (stock_buckets d))"

definition available :: "int \<Rightarrow> business_db \<Rightarrow> int" where
  "available i d = (if buckets_of i d = [] then sum_list (map it_stock (filter (\<lambda>it. it_id it = i) (shop_items d)))
     else bucket_total i d)"

definition no_debt :: "business_db \<Rightarrow> bool" where
  "no_debt d \<longleftrightarrow> list_all (\<lambda>it. 0 \<le> it_stock it) (shop_items d) \<and> list_all (\<lambda>b. 0 \<le> bk_stock b) (stock_buckets d)"

lemma sum_update_where:
  assumes "\<And>x. p x \<Longrightarrow> val (f x) = val x - q" and "\<And>x. sel (f x) = sel x" and "\<And>x. p x \<Longrightarrow> sel x"
  shows "sum_list (map val (filter sel (update_where p f rows))) =
    sum_list (map val (filter sel rows)) - q * int (rows_affected p rows)"
  using assms by (induction rows) (auto simp: update_where_def rows_affected_def algebra_simps)

lemma filter_update_other:
  assumes "\<And>x. p x \<Longrightarrow> \<not> sel x" and "\<And>x. p x \<Longrightarrow> \<not> sel (f x)"
  shows "filter sel (update_where p f rows) = filter sel rows"
  using assms by (induction rows) (auto simp: update_where_def)

lemma one_row_affected:
  assumes "distinct (map key rows)" and "r \<in> set rows" and "p r" and "\<And>x. p x \<Longrightarrow> key x = key r"
  shows "rows_affected p rows = 1"
  using assms(1,2)
proof (induction rows)
  case (Cons a rows)
  show ?case
  proof (cases "p a")
    case True
    then have "\<forall>x \<in> set rows. \<not> p x" using Cons.prems assms(4) by (metis distinct.simps(2) image_eqI list.simps(9) set_map)
    then have "rows_affected p rows = 0" by (simp add: rows_affected_0)
    then show ?thesis using True by (simp add: rows_affected_def)
  next
    case False
    then show ?thesis using Cons assms(3) by (auto simp: rows_affected_def)
  qed
qed simp

lemma filter_update_commute:
  "(\<And>x. sel (f x) = sel x) \<Longrightarrow> filter sel (update_where p f rows) = update_where p f (filter sel rows)"
  by (induction rows) (auto simp: update_where_def)

lemma buckets_after_take:
  "buckets_of j (d\<lparr>stock_buckets := update_where (bucket_has i b q) (take_bucket q) (stock_buckets d)\<rparr>)
     = update_where (bucket_has i b q) (take_bucket q) (buckets_of j d)"
  by (simp add: buckets_of_def filter_update_commute take_bucket_def)

lemma stock_taken_available:
  assumes "stock_taken i q d d'" and "stock_keys d"
  shows "available j d' = available j d - (if j = i then q else 0)"
  using assms(1) unfolding stock_taken_def
proof (elim disjE conjE exE bexE)
  fix it
  assume none: "buckets_of i d = []" and it: "it \<in> set (shop_items d)" "has_stock i q it"
    and d': "d' = d\<lparr>shop_items := update_where (has_stock i q) (take_item q) (shop_items d)\<rparr>"
  have one: "rows_affected (has_stock i q) (shop_items d) = 1"
    using assms(2) it by (intro one_row_affected [of it_id]) (auto simp: stock_keys_def has_stock_def)
  have b: "buckets_of j d' = buckets_of j d" "bucket_total j d' = bucket_total j d"
    by (simp_all add: d' buckets_of_def bucket_total_def)
  show ?thesis
  proof (cases "j = i")
    case True
    then show ?thesis
      using sum_update_where [of "has_stock i q" it_stock "take_item q" q "\<lambda>it. it_id it = i" "shop_items d"] none one
      by (simp add: available_def b d' has_stock_def take_item_def buckets_of_def)
  next
    case False
    then show ?thesis
      using filter_update_other [of "has_stock i q" "\<lambda>it. it_id it = j" "take_item q" "shop_items d"] b
      by (auto simp: available_def d' has_stock_def take_item_def)
  qed
next
  fix b r
  assume r: "r \<in> set (stock_buckets d)" "bucket_has i b q r"
    and d': "d' = d\<lparr>stock_buckets := update_where (bucket_has i b q) (take_bucket q) (stock_buckets d)\<rparr>"
  have one: "rows_affected (bucket_has i b q) (stock_buckets d) = 1"
    using assms(2) r by (intro one_row_affected [of "\<lambda>b. (bk_item b, bk_bucket b)"]) (auto simp: stock_keys_def bucket_has_def)
  have b: "buckets_of j d' = update_where (bucket_has i b q) (take_bucket q) (buckets_of j d)"
    unfolding d' by (rule buckets_after_take)
  have empty: "buckets_of j d' = [] \<longleftrightarrow> buckets_of j d = []" unfolding b by (simp add: update_where_def)
  show ?thesis
  proof (cases "j = i")
    case True
    have "buckets_of i d \<noteq> []" using r by (auto simp: buckets_of_def bucket_has_def filter_empty_conv)
    then show ?thesis
      using True empty sum_update_where [of "bucket_has i b q" bk_stock "take_bucket q" q "\<lambda>b. bk_item b = i" "stock_buckets d"] one
      by (simp add: available_def bucket_total_def buckets_of_def d' bucket_has_def take_bucket_def)
  next
    case False
    have same: "buckets_of j d' = buckets_of j d"
      using False filter_update_other [of "bucket_has i b q" "\<lambda>b. bk_item b = j" "take_bucket q" "stock_buckets d"]
      by (auto simp: buckets_of_def d' bucket_has_def take_bucket_def)
    then show ?thesis using False by (simp add: available_def bucket_total_def d')
  qed
qed

lemma stock_taken_no_debt:
  assumes "stock_taken i q d d'" and "no_debt d"
  shows "no_debt d'"
  using assms by (auto simp: stock_taken_def no_debt_def list_all_iff set_update_where has_stock_def bucket_has_def
      take_item_def take_bucket_def)

text \<open>Only the stock of item \<open>i\<close>, in its row or in its buckets, may differ.\<close>

definition stock_only :: "int \<Rightarrow> business_db \<Rightarrow> business_db \<Rightarrow> bool" where
  "stock_only i d d' \<longleftrightarrow> d' = d\<lparr>shop_items := shop_items d', stock_buckets := stock_buckets d'\<rparr> \<and>
     filter (\<lambda>it. it_id it \<noteq> i) (shop_items d') = filter (\<lambda>it. it_id it \<noteq> i) (shop_items d) \<and>
     map (\<lambda>it. it\<lparr>it_stock := 0\<rparr>) (shop_items d') = map (\<lambda>it. it\<lparr>it_stock := 0\<rparr>) (shop_items d) \<and>
     filter (\<lambda>b. bk_item b \<noteq> i) (stock_buckets d') = filter (\<lambda>b. bk_item b \<noteq> i) (stock_buckets d) \<and>
     map (\<lambda>b. b\<lparr>bk_stock := 0\<rparr>) (stock_buckets d') = map (\<lambda>b. b\<lparr>bk_stock := 0\<rparr>) (stock_buckets d)"

lemma stock_taken_only:
  assumes "stock_taken i q d d'"
  shows "stock_only i d d'"
proof -
  have "filter (\<lambda>it. it_id it \<noteq> i) (update_where (has_stock i q) (take_item q) its) = filter (\<lambda>it. it_id it \<noteq> i) its"
    "filter (\<lambda>b. bk_item b \<noteq> i) (update_where (bucket_has i b q) (take_bucket q) bs) = filter (\<lambda>b. bk_item b \<noteq> i) bs" for its bs b
    by (intro filter_update_other; simp add: has_stock_def bucket_has_def take_item_def take_bucket_def)+
  moreover have "map (\<lambda>it. it\<lparr>it_stock := 0\<rparr>) (update_where (has_stock i q) (take_item q) its) = map (\<lambda>it. it\<lparr>it_stock := 0\<rparr>) its"
    "map (\<lambda>b. b\<lparr>bk_stock := 0\<rparr>) (update_where (bucket_has i b q) (take_bucket q) bs) = map (\<lambda>b. b\<lparr>bk_stock := 0\<rparr>) bs" for its bs b
    by (simp_all add: update_where_def take_item_def take_bucket_def)
  ultimately show ?thesis using assms by (auto simp: stock_taken_def stock_only_def)
qed

text \<open>C24. Where stock rows have distinct keys and none is below zero, a deduction takes exactly its quantity
  from the stock of its item and nothing from any other, never drives a row below zero and
  touches nothing in the business tables but that stock; when it fails, for whatever reason, it changes
  nothing in them.\<close>

theorem DeductStock_takes_exactly:
  assumes "stock_keys (db w)" and "no_debt (db w)" and "DeductStock i q k w = (res, w')"
  shows "no_debt (db w') \<and> available j (db w') =
    available j (db w) - (if j = i \<and> res = Inr () then q else 0) \<and>
    (if res = Inr () then stock_only i (db w) (db w') else db w' = db w)"
  using DeductStock_cases [OF assms(3)]
proof (elim disjE conjE exE)
  fix e assume "res = Inl e" and "db w' = db w"
  then show ?thesis using assms(2) by simp
next
  assume "res = Inr ()" and t: "stock_taken i q (db w) (db w')"
  then show ?thesis using stock_taken_available [OF t assms(1)] stock_taken_no_debt [OF t assms(2)] stock_taken_only [OF t] by simp
qed

definition sample_buckets :: world where
  "sample_buckets = sample_shop\<lparr>db := (db sample_shop)\<lparr>stock_buckets := makeBuckets 1 5 3\<rparr>\<rparr>"

theorem DeductStock_takes_exactly_witness:
  "no_debt (db (snd (DeductStock 1 2 ''u1'' sample_buckets))) \<and> available 1 (db (snd (DeductStock 1 2 ''u1'' sample_buckets))) =
     available 1 (db sample_buckets) - (if 1 = (1::int) \<and> fst (DeductStock 1 2 ''u1'' sample_buckets) = Inr () then 2 else 0) \<and>
     (if fst (DeductStock 1 2 ''u1'' sample_buckets) = Inr () then stock_only 1 (db sample_buckets) (db (snd (DeductStock 1 2 ''u1'' sample_buckets)))
      else db (snd (DeductStock 1 2 ''u1'' sample_buckets)) = db sample_buckets)"
proof (rule DeductStock_takes_exactly [OF _ _ prod.collapse [symmetric]])
  show "stock_keys (db sample_buckets)" "no_debt (db sample_buckets)" by code_simp+
qed

section \<open>All buckets are tried\<close>

lemma shifted_residues:
  assumes "0 < n"
  shows "distinct (map (\<lambda>a. (p + int a) mod int n) [0..<n]) \<and> set (map (\<lambda>a. (p + int a) mod int n) [0..<n]) = {0..<int n}"
proof -
  have inj: "inj_on (\<lambda>a. (p + int a) mod int n) {0..<n}"
  proof (rule inj_onI)
    fix a b
    assume ab: "a \<in> {0..<n}" "b \<in> {0..<n}" and eq: "(p + int a) mod int n = (p + int b) mod int n"
    then have "int n dvd int a - int b" by (simp add: mod_eq_dvd_iff)
    then have "int a mod int n = int b mod int n" by (simp add: mod_eq_dvd_iff)
    then show "a = b" using ab by simp
  qed
  have "(\<lambda>a. (p + int a) mod int n) ` {0..<n} = {0..<int n}"
  proof (rule card_subset_eq)
    show "(\<lambda>a. (p + int a) mod int n) ` {0..<n} \<subseteq> {0..<int n}" using assms by auto
    show "card ((\<lambda>a. (p + int a) mod int n) ` {0..<n}) = card {0..<int n}" using inj by (simp add: card_image)
  qed simp
  then show ?thesis using inj by (simp add: distinct_map)
qed

lemma bucket_order_covers:
  "0 < n \<Longrightarrow> distinct (bucket_order k n) \<and> set (bucket_order k n) = {0..<int n}"
  unfolding bucket_order_def by (rule shifted_residues)

lemma no_fault_deduct:
  assumes "faults w = []"
  shows "deduct_bucket i b q w = (Inr (rows_affected (bucket_has i b q) (stock_buckets (db w))),
    w\<lparr>db := (db w)\<lparr>stock_buckets := update_where (bucket_has i b q) (take_bucket q) (stock_buckets (db w))\<rparr>\<rparr>)"
  using assms by (simp add: deduct_bucket_def db_write_def)

lemma try_buckets_none:
  assumes "faults w = []" and "\<forall>b \<in> set bs. \<forall>r \<in> set (stock_buckets (db w)). \<not> bucket_has i b q r"
  shows "try_buckets i q bs w = (Inl (Sentinel ''stock insufficient''), w)"
  using assms(2)
proof (induction bs)
  case (Cons b bs)
  then have "update_where (bucket_has i b q) (take_bucket q) (stock_buckets (db w)) = stock_buckets (db w)"
    and "rows_affected (bucket_has i b q) (stock_buckets (db w)) = 0"
    by (auto simp: update_where_none rows_affected_0)
  then show ?case using Cons assms(1) by (simp add: bind_io_def no_fault_deduct)
qed (simp add: throw_def)

lemma try_buckets_some:
  assumes "faults w = []" and "b \<in> set bs" and "r \<in> set (stock_buckets (db w))" and "bucket_has i b q r"
  shows "fst (try_buckets i q bs w) = Inr ()"
  using assms(2)
proof (induction bs)
  case (Cons c bs)
  show ?case
  proof (cases "rows_affected (bucket_has i c q) (stock_buckets (db w)) = 0")
    case True
    then have "deduct_bucket i c q w = (Inr 0, w)" and "c \<noteq> b"
      using assms by (auto simp: no_fault_deduct rows_affected_0 update_where_none)
    then show ?thesis using Cons by (simp add: bind_io_def)
  next
    case False
    then show ?thesis using assms(1) by (simp add: bind_io_def no_fault_deduct ret_def)
  qed
qed simp

definition numbered :: "int \<Rightarrow> business_db \<Rightarrow> bool" where
  "numbered i d \<longleftrightarrow> buckets_of i d \<noteq> [] \<and>
     set (map bk_bucket (buckets_of i d)) \<subseteq> {0..<int (length (buckets_of i d))}"

lemma DeductStock_run:
  assumes "faults w = []" and "buckets_of i (db w) \<noteq> []"
  shows "DeductStock i q k w = try_buckets i q (bucket_order k (length (buckets_of i (db w)))) w"
  using assms by (simp add: DeductStock_def bind_io_def gets_io_def)

text \<open>With no failing call, a deduction from an item with buckets succeeds exactly when one bucket
  alone holds the whole quantity, whichever bucket the user hashes to: an uneven spread of the
  buckets does not turn anyone away who asks for one piece, but a quantity that only several
  buckets together hold is refused.\<close>

theorem DeductStock_succeeds_iff:
  assumes "faults w = []" and "numbered i (db w)"
  shows "fst (DeductStock i q k w) = Inr () \<longleftrightarrow> list_ex (\<lambda>r. q \<le> bk_stock r) (buckets_of i (db w))"
proof -
  let ?bs = "bucket_order k (length (buckets_of i (db w)))"
  have ne: "buckets_of i (db w) \<noteq> []" using assms(2) by (simp add: numbered_def)
  then have set: "set ?bs = {0..<int (length (buckets_of i (db w)))}" using bucket_order_covers by blast
  note run = DeductStock_run [OF assms(1) ne]
  show ?thesis
  proof
    assume "list_ex (\<lambda>r. q \<le> bk_stock r) (buckets_of i (db w))"
    then obtain r where r: "r \<in> set (buckets_of i (db w))" "q \<le> bk_stock r" by (auto simp: list_ex_iff)
    then have "bucket_has i (bk_bucket r) q r" "r \<in> set (stock_buckets (db w))"
      by (auto simp: bucket_has_def buckets_of_def)
    moreover have "bk_bucket r \<in> set ?bs" unfolding set using r(1) assms(2) by (force simp: numbered_def)
    ultimately show "fst (DeductStock i q k w) = Inr ()" using try_buckets_some [OF assms(1)] run by simp
  next
    assume ok: "fst (DeductStock i q k w) = Inr ()"
    show "list_ex (\<lambda>r. q \<le> bk_stock r) (buckets_of i (db w))"
    proof (rule ccontr)
      assume "\<not> list_ex (\<lambda>r. q \<le> bk_stock r) (buckets_of i (db w))"
      then have "\<forall>b \<in> set ?bs. \<forall>r \<in> set (stock_buckets (db w)). \<not> bucket_has i b q r"
        by (auto simp: list_ex_iff bucket_has_def buckets_of_def)
      from try_buckets_none [OF assms(1) this] show False using ok run by simp
    qed
  qed
qed

theorem DeductStock_succeeds_iff_witness:
  "fst (DeductStock 1 3 ''u1'' sample_buckets) = Inr () \<longleftrightarrow> list_ex (\<lambda>r. 3 \<le> bk_stock r) (buckets_of 1 (db sample_buckets))"
proof (rule DeductStock_succeeds_iff)
  show "faults sample_buckets = []" by code_simp
  show "numbered 1 (db sample_buckets)" unfolding numbered_def by code_simp
qed

section \<open>A refused request writes nothing\<close>

abbreviation all_or_nothing :: "(world, 'a) io \<Rightarrow> bool" where
  "all_or_nothing m \<equiv> undoes (on_db (=)) m"

lemma aon_transaction: "all_or_nothing (transaction m)"
  by (auto simp: undoes_def on_db_def dest: transaction_fails)

lemma aon_on_error:
  assumes "all_or_nothing m" and "\<And>e. evolves (on_db (=)) (h e)"
  shows "all_or_nothing (on_error m h)"
  unfolding undoes_def
proof (intro allI impI)
  fix w e w'
  assume f: "on_error m h w = (Inl e, w')"
  obtain r v where m: "m w = (r, v)" by fastforce
  then obtain x where r: "r = Inl x" using f
    by (cases r) (auto simp: on_error_def bind_io_def attempt_def ret_def)
  obtain r' v' where h: "h x v = (r', v')" by fastforce
  have "db v' = db v" using evolvesD [OF assms(2) h] by (simp add: on_db_def)
  then show "on_db (=) w w'" using f m r h assms(1)
    by (auto simp: on_error_def bind_io_def attempt_def then_io_def best_effort_def throw_def undoes_def on_db_def)
qed

lemma after_commit_never_fails: "fails_with E (after_commit p u it ord ob pts)"
  unfolding after_commit_def emitShopRedeemed_def ApplyAsync_def publish_adjust_def
  by (intro fw_rules fw_spawn)

lemma invalidate_never_fails: "fails_with E (invalidate_keys ks)"
  unfolding invalidate_keys_def by (intro fw_rules)

lemma sales_all_or_nothing: "all_or_nothing (Redeem p u i q)" "all_or_nothing (FlashRedeem p u i)"
  unfolding Redeem_def redeem_locked_def redeem_reserved_def FlashRedeem_def flash_locked_def flash_reserved_def Let_def
  by (intro unchanged.un_bind_before unchanged.un_if unchanged.un_throw unchanged.un_after unchanged.un_option
      unchanged.un_sum aon_on_error unchanged.un_bind_after aon_transaction
      fw_rules after_commit_never_fails invalidate_never_fails unchanged.ev_world unchanged.ev_shop_locks
      unchanged.ev_shop_reads unchanged.ev_reservation unchanged.ev_reserve unchanged.ev_check_user
      unchanged.ev_getFlashActivity)+

text \<open>A redemption or flash purchase that is refused, at whatever point, leaves all business
  tables as they were: no stock or quota is lost and no order, payment or event is left behind.\<close>

theorem refused_sale_writes_nothing:
  assumes "sale = Redeem p u i q \<or> sale = FlashRedeem p u i" and "sale w = (Inl e, w')"
  shows "db w' = db w"
  using assms undoesD [OF sales_all_or_nothing(1)] undoesD [OF sales_all_or_nothing(2)] by (auto simp: on_db_def)

theorem refused_sale_writes_nothing_witness:
  "db (snd (Redeem True ''u1'' 1 9 sample_shop)) = db sample_shop"
proof (rule refused_sale_writes_nothing)
  have "fst (Redeem True ''u1'' 1 9 sample_shop) = Inl ErrStockInsufficient" by code_simp
  then show "Redeem True ''u1'' 1 9 sample_shop = (Inl ErrStockInsufficient, snd (Redeem True ''u1'' 1 9 sample_shop))"
    by (metis prod.collapse)
qed blast

section \<open>A failed deduction closes the Redis gate\<close>

lemma spread_tx:
  assumes "faults w = []" and "buckets_of (it_id it) (db w) \<noteq> []"
    and "\<forall>r \<in> set (buckets_of (it_id it) (db w)). bk_stock r < q"
  shows "transaction (redeem_tx p u it q pts usr) w = (Inl ErrStockInsufficient, w)"
proof -
  have "try_buckets (it_id it) q (bucket_order u (length (buckets_of (it_id it) (db w)))) w
      = (Inl (Sentinel ''stock insufficient''), w)"
    by (rule try_buckets_none [OF assms(1)]) (use assms(3) in \<open>force simp: bucket_has_def buckets_of_def\<close>)
  then show ?thesis
    by (simp add: transaction_def redeem_tx_def DeductStock_run [OF assms(1,2)] bind_io_def attempt_def throw_def)
qed

lemma ReconcileRedeem_closes:
  assumes "faults w = []" and "redis_on w"
  shows "snd (ReconcileRedeem i 0 redeemStockTTL w) = rset (l2Key w (RedeemStockKey i)) (RInt 0) redeemStockTTL w"
  using assms by (simp add: ReconcileRedeem_def)

lemma closed_gate_refuses:
  assumes "faults w = []" and "redis_on w" and "cache_on w" and "rget w (l2Key w (RedeemStockKey i)) = Some (RInt 0)"
  shows "fst (redeem_locked p u i q w) = Inl ErrRedeemSoldOutPeak"
  using assms by (simp add: redeem_locked_def IsRedeemSoldOut_def io_defs)

text \<open>An item whose buckets together hold enough, but no one of them the quantity asked for, is
  refused by the database; the refusal counts as sold out and sets the Redis counter to 0, so
  the next request for the item is turned away before the database, whoever asks and however
  little, although all of the stock is still there.\<close>

theorem spread_stock_closes_sale:
  assumes "check_user u (wrap64 (it_price it * q)) w = (Inr usr, v)"
    and "faults v = []" and "redis_on v" and "cache_on v"
    and "buckets_of (it_id it) (db v) \<noteq> []" and "\<forall>r \<in> set (buckets_of (it_id it) (db v)). bk_stock r < q"
    and "on_error (redeem_reserved p u it q) (redeem_rollback it True) w = (res, w')"
  shows "res = Inl ErrStockInsufficient \<and> db w' = db w \<and>
    fst (redeem_locked p u' (it_id it) q' w') = Inl ErrRedeemSoldOutPeak"
proof -
  let ?k = "l2Key v (RedeemStockKey (it_id it))"
  have "redeem_reserved p u it q w = (Inl ErrStockInsufficient, v)"
    using assms(1) spread_tx [OF assms(2,5,6)] by (simp add: redeem_reserved_def Let_def bind_io_def)
  then have r: "res = Inl ErrStockInsufficient" "w' = rset ?k (RInt 0) redeemStockTTL v"
    using assms(7) ReconcileRedeem_closes [OF assms(2,3)]
    by (auto simp: on_error_def redeem_rollback_def io_defs ErrStockInsufficient_def)
  have "evolves (on_db (=)) (check_user u (wrap64 (it_price it * q)))" by (rule unchanged.ev_check_user)
  then have "db v = db w" using assms(1) by (auto dest: evolvesD simp: on_db_def)
  then show ?thesis using r assms(2-4) closed_gate_refuses [of w' "it_id it"] by simp
qed

definition sample_spread :: world where
  "sample_spread = sample_shop\<lparr>cache_on := True, users := [sample_user\<lparr>us_points := 100\<rparr>],
     db := (db sample_shop)\<lparr>stock_buckets := makeBuckets 1 16 16\<rparr>\<rparr>"

theorem spread_stock_closes_sale_witness:
  "fst (on_error (redeem_reserved True ''u1'' sample_item 2) (redeem_rollback sample_item True) sample_spread)
     = Inl ErrStockInsufficient \<and>
   db (snd (on_error (redeem_reserved True ''u1'' sample_item 2) (redeem_rollback sample_item True) sample_spread))
     = db sample_spread \<and>
   fst (redeem_locked True ''u2'' (it_id sample_item) 1
     (snd (on_error (redeem_reserved True ''u1'' sample_item 2) (redeem_rollback sample_item True) sample_spread)))
     = Inl ErrRedeemSoldOutPeak"
proof (rule spread_stock_closes_sale)
  let ?c = "check_user ''u1'' (wrap64 (it_price sample_item * 2)) sample_spread"
  have "case ?c of (r, v) \<Rightarrow> r = Inr (sample_user\<lparr>us_points := 100\<rparr>) \<and> faults v = [] \<and> redis_on v \<and> cache_on v"
    by code_simp
  then show "?c = (Inr (sample_user\<lparr>us_points := 100\<rparr>), snd ?c)" "faults (snd ?c) = []" "redis_on (snd ?c)" "cache_on (snd ?c)"
    by (auto simp: case_prod_beta intro: prod_eqI)
  have "db (snd ?c) = db sample_spread"
    using unchanged.ev_check_user [of "''u1''" "wrap64 (it_price sample_item * 2)"] by (simp add: evolves_def on_db_def)
  then show "buckets_of (it_id sample_item) (db (snd ?c)) \<noteq> []"
    and "\<forall>r \<in> set (buckets_of (it_id sample_item) (db (snd ?c))). bk_stock r < 2"
    by (simp_all add: sample_spread_def sample_item_def makeBuckets_def upto.simps go_div_def go_rem_def buckets_of_def)
qed (rule prod.collapse [symmetric])

end
