(* ===== verification/Task.thy ===== *)
theory Task
  imports Shop "HOL-Library.Sublist"
begin

text \<open>
  \<open>internal/repository/task_repo.go\<close> and \<open>event_dedup_repo.go\<close>: the tasks, the progress of a
  user in a period, and the marks of the events already counted. \<open>businessDB\<close> is never nil
  here. Counters stay far inside 64 bits and are integers.

  A repository is made for the database or for a transaction: \<open>tx\<close> is \<open>None\<close> or the tables as
  they were when the transaction began.
\<close>

type_synonym task_tx = "business_db option"

section \<open>Periods\<close>

definition utc_day :: "world \<Rightarrow> int" where
  "utc_day w = now w div (24 * hour)"

text \<open>\<open>time.Weekday\<close> of a day: Sunday is 0; day 0 was a Thursday.\<close>

definition weekday :: "int \<Rightarrow> int" where
  "weekday d = (d + 4) mod 7"

definition monday_of :: "int \<Rightarrow> int" where
  "monday_of d = (let wd = (if weekday d = 0 then 7 else weekday d) in d - (wd - 1))"

definition GetCurrentPeriod :: "string \<Rightarrow> world \<Rightarrow> period" where
  "GetCurrentPeriod ty w =
     (if ty = ''daily'' then Day (utc_day w)
      else if ty = ''weekly'' then Day (monday_of (utc_day w))
      else if ty = ''achievement'' then Lifetime
      else Day (utc_day w))"

section \<open>Reading\<close>

text \<open>A repository of a transaction reads the master.\<close>

definition task_read :: "task_tx \<Rightarrow> string \<Rightarrow> (business_db \<Rightarrow> 'a) \<Rightarrow> (world, 'a) io" where
  "task_read tx name f =
     (case tx of None \<Rightarrow> db_read name f | Some d \<Rightarrow> ext name (gets_io (\<lambda>w. f (db w))))"

definition active_tasks :: "business_db \<Rightarrow> task list" where
  "active_tasks d = filter tk_active (tasks d)"

definition decode_tasks :: "cval option \<Rightarrow> (world, task list) io" where
  "decode_tasks v = (case v of
      None \<Rightarrow> ret []
    | Some CNil \<Rightarrow> ret []
    | Some (CTasks ts) \<Rightarrow> ret ts
    | Some _ \<Rightarrow> throw (Sentinel ''cache: unmarshal cached value''))"

definition decode_task :: "cval option \<Rightarrow> (world, task option) io" where
  "decode_task v = (case v of
      None \<Rightarrow> ret None
    | Some CNil \<Rightarrow> ret None
    | Some (CTask t) \<Rightarrow> ret (Some t)
    | Some _ \<Rightarrow> throw (Sentinel ''cache: unmarshal cached value''))"

definition FindAll :: "(world, task list) io" where
  "FindAll =
     bind_io (gets_io cache_on) (\<lambda>on.
       if on
       then bind_io (cache_get ''task:all'' (60 * second)
              (bind_io (db_read ''tasks find'' active_tasks) (\<lambda>ts. ret (Some (CTasks ts))))) decode_tasks
       else db_read ''tasks find'' active_tasks)"

definition taskCacheKey :: "int \<Rightarrow> string" where
  "taskCacheKey i = ''task:'' @ show_int i"

definition first_task :: "int \<Rightarrow> (world, task option) io" where
  "first_task i = db_read ''task first'' (\<lambda>d. find (\<lambda>t. tk_id t = i) (tasks d))"

definition task_FindByID :: "int \<Rightarrow> (world, task option) io" where
  "task_FindByID i =
     bind_io (gets_io cache_on) (\<lambda>on.
       if on
       then bind_io (cache_get (taskCacheKey i) (120 * second)
                       (bind_io (first_task i) (\<lambda>t. ret (map_option CTask t)))) (\<lambda>v.
            case v of None \<Rightarrow> ret None | Some _ \<Rightarrow> decode_task v)
       else first_task i)"

definition progress_key :: "string \<Rightarrow> int \<Rightarrow> period \<Rightarrow> task_progress \<Rightarrow> bool" where
  "progress_key u i p r \<longleftrightarrow> tp_user r = u \<and> tp_task r = i \<and> tp_period r = p"

definition FindProgress :: "string \<Rightarrow> int \<Rightarrow> period \<Rightarrow> (world, task_progress option) io" where
  "FindProgress u i p = db_read ''progress first'' (\<lambda>d. find (progress_key u i p) (task_progresses d))"

definition FindUserProgress :: "string \<Rightarrow> period \<Rightarrow> (world, task_progress list) io" where
  "FindUserProgress u p =
     db_read ''progress find'' (\<lambda>d. filter (\<lambda>r. tp_user r = u \<and> tp_period r = p) (task_progresses d))"

definition FindByKeys :: "task_tx \<Rightarrow> string list \<Rightarrow> (world, task list) io" where
  "FindByKeys tx keys =
     (if keys = [] then ret []
      else task_read tx ''tasks by key'' (\<lambda>d. filter (\<lambda>t. tk_key t \<in> set keys \<and> tk_active t) (tasks d)))"

section \<open>Writing progress\<close>

text \<open>The unique index \<open>idx_user_task_period\<close>: a second row of the same key is not inserted.\<close>

definition new_progress :: "string \<Rightarrow> int \<Rightarrow> period \<Rightarrow> task_progress" where
  "new_progress u i p = \<lparr>tp_id = 0, tp_user = u, tp_task = i, tp_period = p, tp_current = 0,
     tp_completed = False, tp_claimed = False, tp_completed_at = None\<rparr>"

definition has_progress :: "string \<Rightarrow> int \<Rightarrow> period \<Rightarrow> task_progress list \<Rightarrow> bool" where
  "has_progress u i p rows \<longleftrightarrow> list_ex (progress_key u i p) rows"

definition ensure_progress :: "string \<Rightarrow> int \<Rightarrow> period \<Rightarrow> task_progress list \<Rightarrow> task_progress list" where
  "ensure_progress u i p rows =
     (if has_progress u i p rows then rows
      else rows @ [(new_progress u i p)\<lparr>tp_id := next_id tp_id rows\<rparr>])"

definition UpsertProgress :: "task_progress \<Rightarrow> (world, unit) io" where
  "UpsertProgress r = db_write ''progress upsert'' (\<lambda>w d. ((),
     d\<lparr>task_progresses :=
         (let rows = task_progresses d; key = progress_key (tp_user r) (tp_task r) (tp_period r) in
          if list_ex key rows
          then update_where key (\<lambda>x. x\<lparr>tp_current := tp_current r, tp_completed := tp_completed r,
                 tp_claimed := tp_claimed r, tp_completed_at := tp_completed_at r\<rparr>) rows
          else rows @ [r\<lparr>tp_id := next_id tp_id rows\<rparr>])\<rparr>))"

text \<open>
  The assignments of the second statement, which GORM writes in the order of the column names:
  \<open>completed_at\<close>, \<open>current_progress\<close>, \<open>is_completed\<close>. MySQL evaluates them from left to right, so
  that \<open>is_completed\<close> sees the new counter; other databases read the old row throughout.
\<close>

definition add_progress :: "bool \<Rightarrow> int \<Rightarrow> int \<Rightarrow> instant \<Rightarrow> task_progress \<Rightarrow> task_progress" where
  "add_progress left_to_right target delta t r =
     (let old = tp_current r;
          new = old + delta;
          seen = (if left_to_right then new else old)
      in r\<lparr>tp_current := new,
           tp_completed_at := (if 0 < target \<and> old + delta \<ge> target \<and> \<not> tp_completed r then Some t
                               else tp_completed_at r),
           tp_completed := (if 0 < target \<and> seen + delta \<ge> target then True else tp_completed r)\<rparr>)"

definition unclaimed_key :: "string \<Rightarrow> int \<Rightarrow> period \<Rightarrow> task_progress \<Rightarrow> bool" where
  "unclaimed_key u i p r \<longleftrightarrow> progress_key u i p r \<and> \<not> tp_claimed r"

text \<open>A deadlock makes MySQL roll the whole transaction back before the error is returned.\<close>

definition isDeadlock :: "world \<Rightarrow> gerr \<Rightarrow> bool" where
  "isDeadlock w e \<longleftrightarrow> (let msg = error_text (fault_text w) e in
     sublist ''Deadlock found'' msg \<or> sublist ''1213'' msg)"

definition mysql_statement :: "task_tx \<Rightarrow> (world, 'a) io \<Rightarrow> (world, 'a) io" where
  "mysql_statement tx m w =
     (case m w of
        (Inr x, w') \<Rightarrow> (Inr x, w')
      | (Inl e, w') \<Rightarrow> (Inl e, if mysql w' \<and> isDeadlock w' e
                             then (case tx of None \<Rightarrow> w' | Some d \<Rightarrow> w'\<lparr>db := d\<rparr>) else w'))"

definition incrProgressOnce :: "task_tx \<Rightarrow> string \<Rightarrow> task \<Rightarrow> period \<Rightarrow> int \<Rightarrow> (world, unit) io" where
  "incrProgressOnce tx u t p delta =
     then_io (mysql_statement tx (db_write ''progress insert'' (\<lambda>w d. ((),
                d\<lparr>task_progresses := ensure_progress u (tk_id t) p (task_progresses d)\<rparr>))))
       (mysql_statement tx (db_write ''progress add'' (\<lambda>w d. ((),
          d\<lparr>task_progresses := update_where (unclaimed_key u (tk_id t) p)
               (add_progress (mysql w) (tk_target t) delta (now w)) (task_progresses d)\<rparr>))))"

text \<open>Three attempts; before the second and third the goroutine sleeps.\<close>

primrec retry_deadlocks :: "(world, unit) io \<Rightarrow> nat list \<Rightarrow> gerr option \<Rightarrow> (world, unit) io" where
  "retry_deadlocks m [] prev = (case prev of None \<Rightarrow> ret () | Some e \<Rightarrow> throw e)"
| "retry_deadlocks m (k # ks) prev =
     then_io (when_io (k > 0) (modify_io (\<lambda>w. w\<lparr>now := now w + int k * (50 * millisecond)\<rparr>)))
     (bind_io (attempt m) (\<lambda>r.
        case r of
          Inr _ \<Rightarrow> ret ()
        | Inl e \<Rightarrow> bind_io (gets_io (\<lambda>w. isDeadlock w e)) (\<lambda>again.
            if again then retry_deadlocks m ks (Some e) else throw e)))"

definition IncrProgress :: "task_tx \<Rightarrow> string \<Rightarrow> task \<Rightarrow> period \<Rightarrow> int \<Rightarrow> (world, unit) io" where
  "IncrProgress tx u t p delta =
     (if delta \<le> 0 then ret ()
      else retry_deadlocks (incrProgressOnce tx u t p delta) [0, 1, 2] None)"

definition claimable :: "string \<Rightarrow> int \<Rightarrow> period \<Rightarrow> task_progress \<Rightarrow> bool" where
  "claimable u i p r \<longleftrightarrow> progress_key u i p r \<and> tp_completed r \<and> \<not> tp_claimed r"

definition claim_row :: "task_progress \<Rightarrow> task_progress" where
  "claim_row r = r\<lparr>tp_claimed := True\<rparr>"

definition ClaimReward :: "string \<Rightarrow> int \<Rightarrow> period \<Rightarrow> (world, unit) io" where
  "ClaimReward u i p =
     bind_io (db_write ''progress claim'' (\<lambda>w d.
        (rows_affected (claimable u i p) (task_progresses d),
         d\<lparr>task_progresses := update_where (claimable u i p) claim_row (task_progresses d)\<rparr>))) (\<lambda>n.
     if n = 0 then throw (Sentinel ''task not completed or already claimed'') else ret ())"

section \<open>Tasks and periods\<close>

definition default_task :: "string \<Rightarrow> string \<Rightarrow> int \<Rightarrow> int \<Rightarrow> task" where
  "default_task ty key target reward = \<lparr>tk_id = 0, tk_type = ty, tk_key = key, tk_name = key,
     tk_target = target, tk_reward = reward, tk_active = True\<rparr>"

definition TaskKeyDailyLogin :: string where "TaskKeyDailyLogin = ''daily_login''"
definition TaskKeyDailyIdle30 :: string where "TaskKeyDailyIdle30 = ''daily_idle_30''"
definition TaskKeyDailyRedeem1 :: string where "TaskKeyDailyRedeem1 = ''daily_redeem_1''"
definition TaskKeyWeeklyIdle300 :: string where "TaskKeyWeeklyIdle300 = ''weekly_idle_300''"
definition TaskKeyWeeklyRedeem3 :: string where "TaskKeyWeeklyRedeem3 = ''weekly_redeem_3''"
definition TaskKeyAchievePoints10k :: string where "TaskKeyAchievePoints10k = ''achieve_points_10000''"
definition TaskKeyAchieveRedeem100 :: string where "TaskKeyAchieveRedeem100 = ''achieve_redeem_100''"

text \<open>The displayed names, which are Chinese texts, are represented by the keys.\<close>

definition seed_tasks :: "task list" where
  "seed_tasks =
     [default_task ''daily'' TaskKeyDailyLogin 1 100,
      default_task ''daily'' TaskKeyDailyIdle30 30 200,
      default_task ''daily'' TaskKeyDailyRedeem1 1 300,
      default_task ''weekly'' TaskKeyWeeklyIdle300 300 1000,
      default_task ''weekly'' TaskKeyWeeklyRedeem3 3 1500,
      default_task ''achievement'' TaskKeyAchievePoints10k 10000 5000,
      default_task ''achievement'' TaskKeyAchieveRedeem100 100 10000]"

primrec insert_tasks :: "task list \<Rightarrow> task list \<Rightarrow> task list" where
  "insert_tasks [] rows = rows"
| "insert_tasks (t # ts) rows = insert_tasks ts (rows @ [t\<lparr>tk_id := next_id tk_id rows\<rparr>])"

text \<open>One statement inserts the tasks, unless a key is taken; a failed count counts as none.\<close>

definition task_SeedTasks :: "(world, unit) io" where
  "task_SeedTasks =
     bind_io (attempt (ext ''tasks count'' (gets_io (\<lambda>w. length (tasks (db w)))))) (\<lambda>r.
       if (case r of Inr n \<Rightarrow> n > 0 | Inl e \<Rightarrow> False) then ret ()
       else bind_io (db_try ''tasks create'' (\<lambda>w d.
              if set (map tk_key seed_tasks) \<inter> set (map tk_key (tasks d)) \<noteq> {}
              then Inl (Fault ''unique index task_key'')
              else let rows = insert_tasks seed_tasks (tasks d)
                   in Inr (map tk_id (drop (length (tasks d)) rows), d\<lparr>tasks := rows\<rparr>))) (\<lambda>ids.
            then_io (invalidate_keys [''task:all''])
              (for_io ids (\<lambda>i. invalidate_keys [taskCacheKey i]))))"

definition ResetProgressByType :: "string \<Rightarrow> period \<Rightarrow> (world, nat) io" where
  "ResetProgressByType ty p = db_write ''progress reset'' (\<lambda>w d.
     (let old = (\<lambda>r. list_ex (\<lambda>t. tk_id t = tp_task r \<and> tk_type t = ty) (tasks d) \<and> tp_period r \<noteq> p)
      in (rows_affected old (task_progresses d),
          d\<lparr>task_progresses := filter (\<lambda>r. \<not> old r) (task_progresses d)\<rparr>)))"

section \<open>Counted events\<close>

text \<open>\<open>Mark\<close>: whether the event is new; the unique index keeps one row of an event.\<close>

definition Mark :: "string \<Rightarrow> string \<Rightarrow> (world, bool) io" where
  "Mark ev source =
     (if ev = [] then ret False
      else db_write ''event mark'' (\<lambda>w d.
        if list_ex (\<lambda>r. ed_event r = ev) (event_dedups d) then (False, d)
        else (True, d\<lparr>event_dedups := event_dedups d
                @ [\<lparr>ed_event = ev, ed_source = source, ed_created = now w\<rparr>]\<rparr>)))"

definition DeleteBefore :: "instant \<Rightarrow> (world, nat) io" where
  "DeleteBefore before = db_write ''event cleanup'' (\<lambda>w d.
     (rows_affected (\<lambda>r. ed_created r < before) (event_dedups d),
      d\<lparr>event_dedups := filter (\<lambda>r. \<not> ed_created r < before) (event_dedups d)\<rparr>))"

end
