(* ===== verification/TaskService.thy ===== *)
theory TaskService
  imports Task
begin

text \<open>
  \<open>internal/service/task/task_service.go\<close>: listing the tasks with the user's progress, claiming
  a reward, counting the events of other services, and the periodic cleanups, with the events
  of \<open>internal/event/events.go\<close>. Audit logging is left out; \<open>points_on\<close> is \<open>s.points != nil\<close>.
\<close>

section \<open>Errors\<close>

definition ErrTaskNotFound :: gerr where "ErrTaskNotFound = Sentinel ''task not found''"
definition ErrTaskNotCompleted :: gerr where "ErrTaskNotCompleted = Sentinel ''task not completed''"
definition ErrTaskClaimed :: gerr where "ErrTaskClaimed = Sentinel ''task already claimed''"

section \<open>Listing\<close>

text \<open>
  The rows of every period in which a task runs, read one period after the other. Go iterates
  over a map in any order: \<open>ord\<close> and \<open>ord'\<close> are the orders of the two loops.
\<close>

definition task_periods :: "world \<Rightarrow> task list \<Rightarrow> period list" where
  "task_periods w ts = remdups (map (\<lambda>t. GetCurrentPeriod (tk_type t) w) ts)"

type_synonym period_rows = "(period \<times> task_progress list) list"

definition read_periods :: "string \<Rightarrow> period list \<Rightarrow> (world, period_rows) io" where
  "read_periods u ps = fold_io (\<lambda>p acc.
     bind_io (wrap_err ''find progress for period'' (FindUserProgress u p)) (\<lambda>rows.
     ret (acc @ [(p, rows)]))) ps []"

definition progress_index :: "period_rows \<Rightarrow> (int \<rightharpoonup> task_progress)" where
  "progress_index prs = fold (\<lambda>r m. m(tp_task r \<mapsto> r)) (concat (map snd prs)) Map.empty"

definition with_progress ::
  "(period list \<Rightarrow> period list) \<Rightarrow> (period_rows \<Rightarrow> period_rows) \<Rightarrow> string \<Rightarrow> task list \<Rightarrow> (world, int \<rightharpoonup> task_progress) io" where
  "with_progress ord ord' u ts =
     bind_io (gets_io (\<lambda>w. task_periods w ts)) (\<lambda>ps.
     bind_io (read_periods u (ord ps)) (\<lambda>prs.
     ret (progress_index (ord' prs))))"

definition task_List ::
  "(period list \<Rightarrow> period list) \<Rightarrow> (period_rows \<Rightarrow> period_rows) \<Rightarrow> string \<Rightarrow> (world, (task \<times> task_progress option) list) io" where
  "task_List ord ord' u =
     bind_io (wrap_err ''find tasks'' FindAll) (\<lambda>ts.
     bind_io (with_progress ord ord' u ts) (\<lambda>m.
     ret (map (\<lambda>t. (t, m (tk_id t))) ts)))"

record progress_info =
  pi_task :: int
  pi_name :: string
  pi_type :: string
  pi_key :: string
  pi_target :: int
  pi_reward :: int
  pi_current :: int
  pi_completed :: bool
  pi_claimed :: bool

definition progress_info_of :: "(int \<rightharpoonup> task_progress) \<Rightarrow> task \<Rightarrow> progress_info" where
  "progress_info_of m t =
     (let i = \<lparr>pi_task = tk_id t, pi_name = tk_name t, pi_type = tk_type t, pi_key = tk_key t,
        pi_target = tk_target t, pi_reward = tk_reward t, pi_current = 0, pi_completed = False, pi_claimed = False\<rparr>
      in case m (tk_id t) of
           None \<Rightarrow> i
         | Some p \<Rightarrow> i\<lparr>pi_current := tp_current p, pi_completed := tp_completed p, pi_claimed := tp_claimed p\<rparr>)"

definition task_Progress ::
  "(period list \<Rightarrow> period list) \<Rightarrow> (period_rows \<Rightarrow> period_rows) \<Rightarrow> string \<Rightarrow> (world, progress_info list) io" where
  "task_Progress ord ord' u =
     bind_io FindAll (\<lambda>ts.
     bind_io (with_progress ord ord' u ts) (\<lambda>m.
     ret (map (progress_info_of m) ts)))"

section \<open>Claiming\<close>

definition show_period :: "period \<Rightarrow> string" where
  "show_period p = (case p of Day d \<Rightarrow> show_int d | Lifetime \<Rightarrow> ''lifetime'')"

definition task_transaction :: "string \<Rightarrow> task \<Rightarrow> int \<Rightarrow> points_transaction" where
  "task_transaction u t i = \<lparr>pt_id = 0, pt_user = u, pt_amount = tk_reward t, pt_balance_after = 0,
     pt_type = ''task_reward'', pt_reference = ''task:'' @ show_int i, pt_created = 0\<rparr>"

definition task_event :: "string \<Rightarrow> int \<Rightarrow> period \<Rightarrow> string" where
  "task_event u i p = ''pts:task:'' @ u @ '':'' @ show_int i @ '':'' @ show_period p"

definition task_outbox :: "string \<Rightarrow> task \<Rightarrow> int \<Rightarrow> period \<Rightarrow> instant \<Rightarrow> points_outbox" where
  "task_outbox u t i p t0 = \<lparr>ob_id = 0, ob_user = u, ob_delta = tk_reward t, ob_ref_type = ''task'',
     ob_ref_id = show_int i, ob_event = task_event u i p, ob_status = Pending, ob_created = t0, ob_updated = t0\<rparr>"

definition claim_tx :: "bool \<Rightarrow> string \<Rightarrow> task \<Rightarrow> int \<Rightarrow> period \<Rightarrow> (world, points_outbox) io" where
  "claim_tx points_on u t i p =
     then_io (ClaimReward u i p)
    (then_io (wrap_err ''create points transaction'' (CreateTransaction (task_transaction u t i)))
    (bind_io time_now (\<lambda>t0.
     then_io (if points_on
              then wrap_err ''append points outbox'' (AppendOutboxInTx (task_outbox u t i p t0)) else ret ())
             (ret (task_outbox u t i p t0)))))"

definition task_Claim :: "bool \<Rightarrow> string \<Rightarrow> int \<Rightarrow> (world, task) io" where
  "task_Claim points_on u i =
     bind_io (wrap_err ''find task'' (task_FindByID i)) (\<lambda>found.
       case found of
         None \<Rightarrow> throw ErrTaskNotFound
       | Some t \<Rightarrow>
     bind_io (gets_io (GetCurrentPeriod (tk_type t))) (\<lambda>p.
     bind_io (FindProgress u i p) (\<lambda>progress.
       case progress of
         None \<Rightarrow> throw ErrTaskNotCompleted
       | Some r \<Rightarrow>
           if \<not> tp_completed r then throw ErrTaskNotCompleted
           else if tp_claimed r then throw ErrTaskClaimed
           else bind_io (transaction (claim_tx points_on u t i p)) (\<lambda>ob.
                then_io (if points_on then ApplyAsync (Some ob) else ret ())
                        (ret t)))))"

section \<open>Counting events\<close>

text \<open>
  A message as the consumer gets it. Its payload is JSON: \<open>event_fields\<close> holds the fields the
  code decodes, those absent being zero; \<open>None\<close> is a payload that does not decode.
\<close>

definition EventIdleSettled :: string where "EventIdleSettled = ''idle.settled''"
definition EventShopRedeemed :: string where "EventShopRedeemed = ''shop.redeemed''"

record event_fields =
  ef_user :: string
  ef_record :: int
  ef_duration :: int
  ef_order :: int

record event_message =
  em_type :: string
  em_id :: string
  em_payload :: "event_fields option"

text \<open>The event, the user, the amount and the tasks of a message; \<open>None\<close> when it counts nothing.\<close>

definition event_progress :: "event_message \<Rightarrow> gerr + (string \<times> string \<times> int \<times> string list) option" where
  "event_progress msg =
     (if em_type msg = EventIdleSettled then
        (case em_payload msg of
           None \<Rightarrow> Inl (Sentinel ''unmarshal payload'')
         | Some p \<Rightarrow>
             (let ev = (if em_id msg = [] then ''idle:'' @ show_int (ef_record p) else em_id msg);
                  delta = go_div (ef_duration p) 60
              in Inr (if delta \<le> 0 \<or> ef_user p = [] then None
                      else Some (ev, ef_user p, delta, [TaskKeyDailyIdle30, TaskKeyWeeklyIdle300]))))
      else if em_type msg = EventShopRedeemed then
        (case em_payload msg of
           None \<Rightarrow> Inl (Sentinel ''unmarshal payload'')
         | Some p \<Rightarrow>
             (let ev = (if em_id msg = [] then ''shop:'' @ show_int (ef_order p) else em_id msg)
              in Inr (if ef_user p = [] then None
                      else Some (ev, ef_user p, 1, [TaskKeyDailyRedeem1, TaskKeyWeeklyRedeem3, TaskKeyAchieveRedeem100]))))
      else Inr None)"

definition incr_task :: "task_tx \<Rightarrow> string \<Rightarrow> int \<Rightarrow> task \<Rightarrow> (world, unit) io" where
  "incr_task tx u delta t =
     bind_io (gets_io (GetCurrentPeriod (tk_type t))) (\<lambda>p.
     wrap_err ''incr progress'' (IncrProgress tx u t p delta))"

definition event_tx :: "task_tx \<Rightarrow> string \<Rightarrow> string \<Rightarrow> string \<Rightarrow> int \<Rightarrow> string list \<Rightarrow> (world, unit) io" where
  "event_tx tx source ev u delta keys =
     bind_io (wrap_err ''mark event dedup'' (Mark ev source)) (\<lambda>first.
       if \<not> first then ret ()
       else bind_io (wrap_err ''find tasks by keys'' (FindByKeys tx keys)) (\<lambda>ts.
            for_io ts (incr_task tx u delta)))"

definition ApplyEventProgress :: "event_message option \<Rightarrow> (world, unit) io" where
  "ApplyEventProgress m =
     (case m of
        None \<Rightarrow> ret ()
      | Some msg \<Rightarrow>
          (case event_progress msg of
             Inl e \<Rightarrow> throw e
           | Inr None \<Rightarrow> ret ()
           | Inr (Some (ev, u, delta, keys)) \<Rightarrow>
               bind_io (gets_io db) (\<lambda>d. transaction (event_tx (Some d) (em_type msg) ev u delta keys))))"

section \<open>Scheduled work\<close>

definition task_service_SeedTasks :: "(world, unit) io" where
  "task_service_SeedTasks = task_SeedTasks"

definition CleanupDedup :: "duration \<Rightarrow> (world, nat) io" where
  "CleanupDedup retention =
     (let keep = (if retention \<le> 0 then 7 * 24 * hour else retention) in
      bind_io time_now (\<lambda>t. wrap_err ''cleanup event dedup'' (DeleteBefore (t - keep))))"

definition ResetPeriod :: "string \<Rightarrow> (world, nat) io" where
  "ResetPeriod ty =
     bind_io (gets_io (GetCurrentPeriod ty)) (\<lambda>p. wrap_err ''reset progress'' (ResetProgressByType ty p))"

end
