(* ===== verification/TaskInvariants.thy ===== *)
theory TaskInvariants
  imports TaskService ShopInvariants
begin

text \<open>
  What the task service keeps of its tables. Every request writes them by the steps of a
  relation; the invariants are proved of the steps: rewards are booked once, progress rows are
  well formed, and only the tasks that an event counts ever get a row.
\<close>

section \<open>The steps\<close>

definition counted_keys :: "string list" where
  "counted_keys = [TaskKeyDailyIdle30, TaskKeyWeeklyIdle300, TaskKeyDailyRedeem1, TaskKeyWeeklyRedeem3, TaskKeyAchieveRedeem100]"

definition pay_claim :: "string \<Rightarrow> task \<Rightarrow> int \<Rightarrow> period \<Rightarrow> instant \<Rightarrow> business_db \<Rightarrow> business_db" where
  "pay_claim u t i p t0 d =
     d\<lparr>task_progresses := update_where (claimable u i p) claim_row (task_progresses d),
       points_transactions := points_transactions d
         @ [(task_transaction u t i)\<lparr>pt_id := next_id pt_id (points_transactions d), pt_created := t0\<rparr>],
       outbox_rows := outbox_rows d
         @ [(task_outbox u t i p t0)\<lparr>ob_id := next_id ob_id (outbox_rows d), ob_created := t0, ob_updated := t0\<rparr>]\<rparr>"

definition is_counted_task :: "task \<Rightarrow> business_db \<Rightarrow> bool" where
  "is_counted_task t d \<longleftrightarrow> t \<in> set (tasks d) \<and> tk_key t \<in> set counted_keys"

text \<open>\<open>lr\<close>: whether the assignments of an update see each other (MySQL).\<close>

inductive task_db_step :: "bool \<Rightarrow> business_db \<Rightarrow> business_db \<Rightarrow> bool" for lr :: bool where
  claim: "r \<in> set (task_progresses d) \<Longrightarrow> claimable u i p r \<Longrightarrow>
     task_event u i p \<notin> ob_event ` set (outbox_rows d) \<Longrightarrow> task_db_step lr d (pay_claim u t i p t0 d)"
| mark: "ev \<noteq> [] \<Longrightarrow> ev \<notin> ed_event ` set (event_dedups d) \<Longrightarrow>
     task_db_step lr d (d\<lparr>event_dedups := event_dedups d @ [\<lparr>ed_event = ev, ed_source = src, ed_created = t0\<rparr>]\<rparr>)"
| start: "is_counted_task t d \<Longrightarrow>
     task_db_step lr d (d\<lparr>task_progresses := ensure_progress u (tk_id t) p (task_progresses d)\<rparr>)"
| add: "is_counted_task t d \<Longrightarrow> 0 < delta \<Longrightarrow>
     task_db_step lr d (d\<lparr>task_progresses := update_where (unclaimed_key u (tk_id t) p)
       (add_progress lr (tk_target t) delta t0) (task_progresses d)\<rparr>)"
| reset: "task_db_step lr d (d\<lparr>task_progresses := filter q (task_progresses d)\<rparr>)"
| forget: "task_db_step lr d (d\<lparr>event_dedups := filter q' (event_dedups d)\<rparr>)"
| seed: "task_db_step lr d (d\<lparr>tasks := insert_tasks seed_tasks (tasks d)\<rparr>)"

interpretation task_steps: db_relation "(task_db_step lr)\<^sup>*\<^sup>*" for lr
  by unfold_locales auto

section \<open>Requests that only read or write once\<close>

context db_relation
begin

lemma ev_decode_tasks: "evolves (on_db Q) (decode_tasks v)" "evolves (on_db Q) (decode_task v)"
  by (auto simp: decode_tasks_def decode_task_def intro: ev_world split: option.splits cval.splits)

lemma ev_task_reads:
  "evolves (on_db Q) FindAll" "evolves (on_db Q) (task_FindByID i)" "evolves (on_db Q) (FindProgress u i p)"
  "evolves (on_db Q) (FindUserProgress u p)"
  unfolding FindAll_def task_FindByID_def first_task_def FindProgress_def FindUserProgress_def
  by (intro ev_world ev_cache_get ev_decode_tasks)+

lemma ev_task_lists:
  "evolves (on_db Q) (task_List ord ord' u)" "evolves (on_db Q) (task_Progress ord ord' u)"
  unfolding task_List_def task_Progress_def with_progress_def read_periods_def
  by (intro ev_world ev_task_reads)+

end

lemma ev_task_cleanups:
  "evolves (on_db (task_db_step lr)\<^sup>*\<^sup>*) (CleanupDedup keep)" "evolves (on_db (task_db_step lr)\<^sup>*\<^sup>*) (ResetPeriod ty)"
  unfolding CleanupDedup_def DeleteBefore_def ResetPeriod_def ResetProgressByType_def Let_def
  by (intro task_steps.ev_world task_steps.ev_db_write; auto intro: task_db_step.forget task_db_step.reset)+

lemma ev_task_SeedTasks: "evolves (on_db (task_db_step lr)\<^sup>*\<^sup>*) task_SeedTasks"
  unfolding task_SeedTasks_def
  by (intro task_steps.ev_world task_steps.ev_invalidate_keys task_steps.ev_db_try)
    (auto simp: Let_def intro: task_db_step.seed split: if_splits)

section \<open>Claiming\<close>

lemma ClaimReward_ok:
  assumes "ClaimReward u i p w = (Inr x, w')"
  shows "(\<exists>r \<in> set (task_progresses (db w)). claimable u i p r) \<and>
    db w' = (db w)\<lparr>task_progresses := update_where (claimable u i p) claim_row (task_progresses (db w))\<rparr>"
  using assms
  by (auto simp: ClaimReward_def db_write_def bind_io_def ext_def ret_def throw_def rows_affected_pos rows_affected_0
      split: list.splits if_splits)

lemma ClaimReward_now: "ClaimReward u i p w = (Inr x, w') \<Longrightarrow> now w' = now w"
  by (auto simp: ClaimReward_def db_write_def bind_io_def ext_def ret_def throw_def split: list.splits if_splits)

lemma claim_tx_ok:
  assumes "claim_tx True u t i p w = (Inr ob, w')"
  shows "(\<exists>r \<in> set (task_progresses (db w)). claimable u i p r) \<and>
    task_event u i p \<notin> ob_event ` set (outbox_rows (db w)) \<and>
    ob = task_outbox u t i p (now w) \<and> db w' = pay_claim u t i p (now w) (db w)"
proof -
  obtain w1 w2 where 1: "ClaimReward u i p w = (Inr (), w1)"
    and 2: "CreateTransaction (task_transaction u t i) w1 = (Inr (), w2)"
    and 3: "AppendOutboxInTx (task_outbox u t i p (now w2)) w2 = (Inr (), w')"
    and ob: "ob = task_outbox u t i p (now w2)"
    using assms unfolding claim_tx_def time_now_def Inr_rules if_True by auto
  show ?thesis
    using ClaimReward_ok [OF 1] ClaimReward_now [OF 1] CreateTransaction_ok [OF 2] AppendOutbox_ok [OF 3] ob
    by (auto simp: pay_claim_def task_outbox_def)
qed

lemma ev_claim_tx: "evolves (on_db (task_db_step lr)\<^sup>*\<^sup>*) (transaction (claim_tx True u t i p))"
proof (rule ev_whole_transaction)
  fix w x w'
  assume "claim_tx True u t i p w = (Inr x, w')"
  from claim_tx_ok [OF this] show "(task_db_step lr)\<^sup>*\<^sup>* (db w) (db w')"
    by (auto intro!: task_db_step.claim)
qed auto

lemma ev_task_Claim: "evolves (on_db (task_db_step lr)\<^sup>*\<^sup>*) (task_Claim True u i)"
  unfolding task_Claim_def
  by (intro task_steps.ev_world task_steps.ev_task_reads task_steps.ev_apply_async ev_claim_tx)

section \<open>Counting an event\<close>

text \<open>
  \<open>guarded lr I\<close>: a program run on a database of kind \<open>lr\<close> from tables in \<open>I\<close> leaves tables in
  \<open>I\<close>. A rollback goes back to the tables of the beginning, which are in \<open>I\<close> too.
\<close>

definition guarded :: "bool \<Rightarrow> (business_db \<Rightarrow> bool) \<Rightarrow> world \<Rightarrow> world \<Rightarrow> bool" where
  "guarded lr I w w' \<longleftrightarrow> (mysql w = lr \<and> I (db w) \<longrightarrow> mysql w' = lr \<and> I (db w'))"

interpretation guard: two_state "guarded lr I" for lr I
  by unfold_locales (auto simp: guarded_def)

lemma gd_ext:
  assumes "\<And>w. mysql w = lr \<Longrightarrow> I (db w) \<Longrightarrow> mysql (snd (m w)) = lr \<and> I (db (snd (m w)))"
  shows "evolves (guarded lr I) (ext name m)"
  by (rule evolvesI) (use assms in \<open>auto simp: guarded_def ext_def split: list.splits\<close>)

lemma gd_db_write:
  assumes "\<And>w. mysql w = lr \<Longrightarrow> I (db w) \<Longrightarrow> I (snd (f w (db w)))"
  shows "evolves (guarded lr I) (db_write name f)"
  unfolding db_write_def by (rule gd_ext) (use assms in \<open>simp add: case_prod_beta\<close>)

lemma gd_modify_now: "evolves (guarded lr I) (modify_io (\<lambda>w. w\<lparr>now := f w\<rparr>))"
  by (rule evolvesI) (simp add: guarded_def modify_io_def)

lemma gd_mysql_statement:
  assumes "evolves (guarded lr I) m" and "I d"
  shows "evolves (guarded lr I) (mysql_statement (Some d) m)"
proof (rule evolvesI)
  fix w
  have "guarded lr I w (snd (m w))" using assms(1) by (simp add: evolves_def)
  then show "guarded lr I w (snd (mysql_statement (Some d) m w))"
    using assms(2) by (auto simp: guarded_def mysql_statement_def split: prod.splits sum.splits)
qed

lemma gd_retry: "evolves (guarded lr I) m \<Longrightarrow> evolves (guarded lr I) (retry_deadlocks m ks prev)"
  by (induction ks arbitrary: prev)
    (auto intro!: guard.ev_rules gd_modify_now split: option.splits)

lemma gd_incrProgressOnce:
  assumes "I d0" and "0 < delta"
    and "\<And>d. I d \<Longrightarrow> is_counted_task t d" and "\<And>d d'. task_db_step lr d d' \<Longrightarrow> I d \<Longrightarrow> tasks d' = tasks d \<Longrightarrow> I d'"
  shows "evolves (guarded lr I) (incrProgressOnce (Some d0) u t p delta)"
  unfolding incrProgressOnce_def
proof (intro guard.ev_rules gd_mysql_statement gd_db_write assms(1))
  fix w
  assume w: "mysql w = lr" "I (db w)"
  then have t: "is_counted_task t (db w)" using assms(3) by blast
  show "I (snd ((), (db w)\<lparr>task_progresses := ensure_progress u (tk_id t) p (task_progresses (db w))\<rparr>))"
    using assms(4) [OF task_db_step.start [OF t] w(2)] by simp
  show "I (snd ((), (db w)\<lparr>task_progresses := update_where (unclaimed_key u (tk_id t) p)
      (add_progress (mysql w) (tk_target t) delta (now w)) (task_progresses (db w))\<rparr>))"
    using assms(4) [OF task_db_step.add [OF t assms(2)] w(2)] w(1) by simp
qed

text \<open>The tables of a transaction that started from \<open>d0\<close> and has not touched the tasks.\<close>

definition in_tx :: "bool \<Rightarrow> business_db \<Rightarrow> business_db \<Rightarrow> bool" where
  "in_tx lr d0 d \<longleftrightarrow> (task_db_step lr)\<^sup>*\<^sup>* d0 d \<and> tasks d = tasks d0"

lemma in_tx_refl: "in_tx lr d d"
  by (simp add: in_tx_def)

lemma in_tx_step: "task_db_step lr d d' \<Longrightarrow> in_tx lr d0 d \<Longrightarrow> tasks d' = tasks d \<Longrightarrow> in_tx lr d0 d'"
  by (auto simp: in_tx_def)

lemma gd_incr_task:
  assumes "is_counted_task t d0" and "0 < delta"
  shows "evolves (guarded lr (in_tx lr d0)) (incr_task (Some d0) u delta t)"
proof -
  have "evolves (guarded lr (in_tx lr d0)) (incrProgressOnce (Some d0) u t p delta)" for p
    using assms by (intro gd_incrProgressOnce in_tx_refl) (auto simp: in_tx_def is_counted_task_def)
  then show ?thesis unfolding incr_task_def IncrProgress_def
    by (intro guard.ev_rules gd_retry)
qed

lemma event_keys_counted: "event_progress msg = Inr (Some (ev, u, delta, keys)) \<Longrightarrow> set keys \<subseteq> set counted_keys \<and> 0 < delta"
  by (auto simp: event_progress_def counted_keys_def Let_def split: if_splits option.splits)

lemma gd_Mark: "evolves (guarded lr (in_tx lr d0)) (Mark ev src)"
  unfolding Mark_def
  by (intro guard.ev_rules gd_db_write)
    (auto simp: list_ex_iff intro!: in_tx_step [OF task_db_step.mark])

lemma FindByKeys_tx:
  assumes "FindByKeys (Some d0) keys w = (res, w')"
  shows "db w' = db w \<and> mysql w' = mysql w \<and>
    (\<forall>ts. res = Inr ts \<longrightarrow> ts = filter (\<lambda>t. tk_key t \<in> set keys \<and> tk_active t) (tasks (db w)))"
  using assms
  by (auto simp: FindByKeys_def task_read_def ext_def gets_io_def ret_def split: list.splits if_splits)

lemma event_tx_steps:
  assumes run: "event_tx (Some (db w)) src ev u delta keys w = (res, w')"
    and keys: "set keys \<subseteq> set counted_keys" "0 < delta"
  shows "in_tx (mysql w) (db w) (db w')"
proof -
  let ?I = "in_tx (mysql w) (db w)"
  obtain r1 w1 where 1: "wrap_err ''mark event dedup'' (Mark ev src) w = (r1, w1)" by fastforce
  have w1: "mysql w1 = mysql w" "?I (db w1)"
    using evolvesD [OF guard.ev_wrap_err [OF gd_Mark] 1, of "mysql w" "db w"] in_tx_refl
    by (auto simp: guarded_def)
  show ?thesis
  proof (cases "r1 = Inr True")
    case False
    then have "db w' = db w1" using run 1
      by (cases r1) (auto simp: event_tx_def bind_io_def ret_def split: if_splits)
    then show ?thesis using w1 by simp
  next
    case True
    obtain r2 w2 where 2: "FindByKeys (Some (db w)) keys w1 = (r2, w2)" by fastforce
    note f = FindByKeys_tx [OF 2]
    show ?thesis
    proof (cases r2)
      case (Inl e)
      then have "db w' = db w2" using run 1 2 True
        by (auto simp: event_tx_def bind_io_def wrap_err_def)
      then show ?thesis using w1 f by simp
    next
      case (Inr ts)
      have "is_counted_task t (db w)" if "t \<in> set ts" for t
        using that f Inr w1(2) keys(1) by (auto simp: is_counted_task_def in_tx_def)
      then have "evolves (guarded (mysql w) ?I) (for_io ts (incr_task (Some (db w)) u delta))"
        using keys(2) by (intro guard.ev_for_in gd_incr_task)
      moreover have "for_io ts (incr_task (Some (db w)) u delta) w2 = (res, w')"
        using run 1 2 True Inr by (simp add: event_tx_def bind_io_def wrap_err_def)
      ultimately have "guarded (mysql w) ?I w2 w'" by (rule evolvesD)
      then show ?thesis using w1 f by (simp add: guarded_def)
    qed
  qed
qed

lemma ApplyEventProgress_steps:
  assumes "ApplyEventProgress m w = (res, w')"
  shows "(task_db_step (mysql w))\<^sup>*\<^sup>* (db w) (db w')"
proof (cases "m = None \<or> (\<exists>msg. m = Some msg \<and> (\<forall>ev u delta keys. event_progress msg \<noteq> Inr (Some (ev, u, delta, keys))))")
  case True
  then have "db w' = db w" using assms
    by (auto simp: ApplyEventProgress_def ret_def throw_def split: sum.splits option.splits)
  then show ?thesis by simp
next
  case False
  then obtain msg ev u delta keys where m: "m = Some msg" "event_progress msg = Inr (Some (ev, u, delta, keys))" by auto
  then have t: "transaction (event_tx (Some (db w)) (em_type msg) ev u delta keys) w = (res, w')"
    using assms by (simp add: ApplyEventProgress_def bind_io_def gets_io_def)
  show ?thesis
  proof (cases res)
    case (Inl e)
    then show ?thesis using transaction_fails [OF t [unfolded Inl]] by simp
  next
    case (Inr x)
    then obtain v where "event_tx (Some (db w)) (em_type msg) ev u delta keys w = (Inr x, v)" "db w' = db v"
      using transaction_ok [OF t [unfolded Inr]] by blast
    then have "in_tx (mysql w) (db w) (db v)"
      using event_tx_steps [of w "em_type msg" ev u delta keys "Inr x" v] event_keys_counted [OF m(2)] by blast
    then show ?thesis using \<open>db w' = db v\<close> by (simp add: in_tx_def)
  qed
qed

section \<open>Requests and runs\<close>

datatype task_request =
    ClaimTask string int
  | ApplyEvent "event_message option"
  | ResetTasks string
  | Cleanup duration
  | SeedTaskTable
  | ListTasks "period list \<Rightarrow> period list" "period_rows \<Rightarrow> period_rows" string
  | ShowProgress "period list \<Rightarrow> period list" "period_rows \<Rightarrow> period_rows" string

definition run_task :: "task_request \<Rightarrow> (world, unit) io" where
  "run_task req = (case req of
      ClaimTask u i \<Rightarrow> best_effort (task_Claim True u i)
    | ApplyEvent m \<Rightarrow> best_effort (ApplyEventProgress m)
    | ResetTasks ty \<Rightarrow> best_effort (ResetPeriod ty)
    | Cleanup keep \<Rightarrow> best_effort (CleanupDedup keep)
    | SeedTaskTable \<Rightarrow> best_effort task_service_SeedTasks
    | ListTasks ord ord' u \<Rightarrow> best_effort (task_List ord ord' u)
    | ShowProgress ord ord' u \<Rightarrow> best_effort (task_Progress ord ord' u))"

lemma run_task_steps:
  assumes "run_task req w = (res, w')"
  shows "(task_db_step (mysql w))\<^sup>*\<^sup>* (db w) (db w')"
proof (cases "\<exists>m. req = ApplyEvent m")
  case True
  then obtain m where m: "req = ApplyEvent m" by blast
  obtain r v where "ApplyEventProgress m w = (r, v)" by fastforce
  then show ?thesis using ApplyEventProgress_steps [of m w r v] assms m
    by (simp add: run_task_def best_effort_def)
next
  case False
  then have "evolves (on_db (task_db_step (mysql w))\<^sup>*\<^sup>*) (run_task req)"
    unfolding run_task_def task_service_SeedTasks_def
    by (cases req) (auto intro!: task_steps.ev_best_effort task_steps.ev_task_lists ev_task_Claim ev_task_cleanups
        ev_task_SeedTasks)
  then show ?thesis using assms by (auto dest: evolvesD simp: on_db_def)
qed

text \<open>C9. Whatever the task service is asked to do, whatever fails and whatever caches and replica
  hold, its tables change only by the steps: a claim with its payment and event, a mark, a row,
  an addition to an unclaimed row, and the cleanups.\<close>

theorem task_requests_refine_steps:
  assumes "run_task req w = (res, w')"
  shows "(task_db_step (mysql w))\<^sup>*\<^sup>* (db w) (db w')"
  using assms by (rule run_task_steps)

definition reward_ledger :: "business_db \<Rightarrow> (string \<times> int \<times> string) list" where
  "reward_ledger d = map (\<lambda>t. (pt_user t, pt_amount t, pt_reference t))
     (filter (\<lambda>t. pt_type t = ''task_reward'') (points_transactions d))"

definition reward_events :: "business_db \<Rightarrow> (string \<times> string \<times> int \<times> string) list" where
  "reward_events d = map (\<lambda>r. (ob_event r, ob_user r, ob_delta r, ob_ref_id r))
     (filter (\<lambda>r. ob_ref_type r = ''task'') (outbox_rows d))"

text \<open>
  A run on a database of kind \<open>lr\<close>: requests of any pods, and anything else that leaves the
  tasks, the progress and the books of the rewards alone.
\<close>

inductive task_run :: "bool \<Rightarrow> world \<Rightarrow> world \<Rightarrow> bool" for lr :: bool where
  none: "task_run lr w w"
| request: "task_run lr u v \<Longrightarrow> mysql v = lr \<Longrightarrow> run_task req v = (res, w) \<Longrightarrow> task_run lr u w"
| other: "task_run lr u v \<Longrightarrow> tasks (db w) = tasks (db v) \<Longrightarrow> task_progresses (db w) = task_progresses (db v) \<Longrightarrow>
     reward_ledger (db w) = reward_ledger (db v) \<Longrightarrow> reward_events (db w) = reward_events (db v) \<Longrightarrow>
     task_run lr u w"

locale task_invariant = step_invariant "task_db_step lr" P for lr P +
  assumes same_rewards: "tasks d' = tasks d \<Longrightarrow> task_progresses d' = task_progresses d \<Longrightarrow>
    reward_ledger d' = reward_ledger d \<Longrightarrow> reward_events d' = reward_events d \<Longrightarrow> P d \<Longrightarrow> P d'"
begin

lemma kept_by_run:
  assumes "task_run lr w w'" and "P (db w)"
  shows "P (db w')"
  using assms
proof (induction rule: task_run.induct)
  case (request u v req res w)
  then show ?case using many_steps [of "db v" "db w"] run_task_steps [of req v res w] by simp
next
  case (other u v w)
  then show ?case using same_rewards [of "db w" "db v"] by blast
qed auto

end

section \<open>Rewards\<close>

text \<open>
  The books of the rewards: the ledger and the outbox list the same rewards in the same order,
  no event occurs twice, and the event of every claimed row is among them.
\<close>

definition reward_books :: "business_db \<Rightarrow> bool" where
  "reward_books d \<longleftrightarrow>
     reward_ledger d = map (\<lambda>(ev, u, n, i). (u, n, ''task:'' @ i)) (reward_events d) \<and>
     distinct (map fst (reward_events d)) \<and>
     list_all (\<lambda>r. \<not> tp_claimed r \<or>
         task_event (tp_user r) (tp_task r) (tp_period r) \<in> set (map fst (reward_events d))) (task_progresses d)"

lemma pay_claim_simps [simp]:
  "reward_ledger (pay_claim u t i p t0 d) = reward_ledger d @ [(u, tk_reward t, ''task:'' @ show_int i)]"
  "reward_events (pay_claim u t i p t0 d) = reward_events d @ [(task_event u i p, u, tk_reward t, show_int i)]"
  "task_progresses (pay_claim u t i p t0 d) = update_where (claimable u i p) claim_row (task_progresses d)"
  "tasks (pay_claim u t i p t0 d) = tasks d"
  by (simp_all add: pay_claim_def reward_ledger_def reward_events_def task_transaction_def task_outbox_def)

lemma reward_frame [simp]:
  "reward_ledger (d\<lparr>task_progresses := x\<rparr>) = reward_ledger d" "reward_events (d\<lparr>task_progresses := x\<rparr>) = reward_events d"
  "reward_ledger (d\<lparr>event_dedups := y\<rparr>) = reward_ledger d" "reward_events (d\<lparr>event_dedups := y\<rparr>) = reward_events d"
  "reward_ledger (d\<lparr>tasks := z\<rparr>) = reward_ledger d" "reward_events (d\<lparr>tasks := z\<rparr>) = reward_events d"
  by (simp_all add: reward_ledger_def reward_events_def)

lemma progress_field_simps [simp]:
  "tp_user (claim_row r) = tp_user r" "tp_task (claim_row r) = tp_task r" "tp_period (claim_row r) = tp_period r"
  "tp_claimed (claim_row r)" "tp_completed (claim_row r) = tp_completed r" "tp_id (claim_row r) = tp_id r"
  "tp_completed_at (claim_row r) = tp_completed_at r" "tp_current (claim_row r) = tp_current r"
  "tp_user (add_progress lr n k t0 r) = tp_user r" "tp_task (add_progress lr n k t0 r) = tp_task r"
  "tp_period (add_progress lr n k t0 r) = tp_period r" "tp_claimed (add_progress lr n k t0 r) = tp_claimed r"
  "tp_current (add_progress lr n k t0 r) = tp_current r + k" "tp_id (add_progress lr n k t0 r) = tp_id r"
  by (simp_all add: claim_row_def add_progress_def Let_def)

lemma set_ensure_progress:
  "set (ensure_progress u i p rows) \<subseteq> set rows \<union> {(new_progress u i p)\<lparr>tp_id := next_id tp_id rows\<rparr>}"
  by (auto simp: ensure_progress_def)

lemma new_progress_simps [simp]:
  "tp_user (new_progress u i p) = u" "tp_task (new_progress u i p) = i" "tp_period (new_progress u i p) = p"
  "\<not> tp_claimed (new_progress u i p)" "\<not> tp_completed (new_progress u i p)"
  "tp_completed_at (new_progress u i p) = None" "tp_current (new_progress u i p) = 0"
  by (simp_all add: new_progress_def)

lemma reward_books_step:
  assumes "task_db_step lr d d'" and "reward_books d"
  shows "reward_books d'"
  using assms
proof cases
  case (claim r u i p t t0)
  have fresh: "task_event u i p \<notin> fst ` set (reward_events d)"
    using claim(4) by (auto simp: reward_events_def)
  have "\<not> tp_claimed x \<or> task_event (tp_user x) (tp_task x) (tp_period x) \<in> insert (task_event u i p) (fst ` set (reward_events d))"
    if "x \<in> set (update_where (claimable u i p) claim_row (task_progresses d))" for x
    using that assms(2) by (auto simp: set_update_where reward_books_def list_all_iff claimable_def progress_key_def)
  then show ?thesis using claim(1) fresh assms(2) by (auto simp: reward_books_def list_all_iff)
next
  case (start t u p)
  then show ?thesis using assms(2) set_ensure_progress [of u "tk_id t" p "task_progresses d"]
    by (auto simp: reward_books_def list_all_iff)
next
  case (add t delta u p t0)
  then show ?thesis using assms(2) by (auto simp: reward_books_def list_all_iff set_update_where)
qed (auto simp: reward_books_def list_all_iff)

interpretation rewards: task_invariant lr reward_books for lr
  by unfold_locales (blast intro: reward_books_step, simp add: reward_books_def)

text \<open>C4. Rewards are paid once: the points ledger and the outbox hold the same task rewards, one of
  each claim, no claim's event occurs twice, and every claimed progress row has its event, in
  every run of requests of all pods, with any failures.\<close>

theorem task_rewards_are_paid_once:
  assumes "task_run lr w w'" and "reward_books (db w)"
  shows "reward_books (db w')"
  using assms by (rule rewards.kept_by_run)

section \<open>Well-formed progress\<close>

definition progress_id :: "task_progress \<Rightarrow> string \<times> int \<times> period" where
  "progress_id r = (tp_user r, tp_task r, tp_period r)"

definition row_ok :: "task_progress \<Rightarrow> bool" where
  "row_ok r \<longleftrightarrow> 0 \<le> tp_current r \<and> (tp_completed r \<or> \<not> tp_claimed r) \<and> (tp_completed r \<longleftrightarrow> tp_completed_at r \<noteq> None)"

definition progress_ok :: "business_db \<Rightarrow> bool" where
  "progress_ok d \<longleftrightarrow> distinct (map progress_id (task_progresses d)) \<and> list_all row_ok (task_progresses d)"

lemma progress_key_iff: "progress_key u i p r \<longleftrightarrow> progress_id r = (u, i, p)"
  by (auto simp: progress_key_def progress_id_def)

lemma progress_id_simps [simp]:
  "progress_id (claim_row r) = progress_id r" "progress_id (add_progress lr n k t0 r) = progress_id r"
  "progress_id ((new_progress u i p)\<lparr>tp_id := j\<rparr>) = (u, i, p)"
  by (simp_all add: progress_id_def)

lemma ensure_progress_ids:
  "distinct (map progress_id rows) \<Longrightarrow> distinct (map progress_id (ensure_progress u i p rows))"
  by (auto simp: ensure_progress_def has_progress_def list_ex_iff progress_key_iff)

lemma row_ok_new: "row_ok ((new_progress u i p)\<lparr>tp_id := j\<rparr>)"
  by (simp add: row_ok_def)

lemma row_ok_claim: "claimable u i p r \<Longrightarrow> row_ok r \<Longrightarrow> row_ok (claim_row r)"
  by (simp add: row_ok_def claimable_def)

lemma row_ok_add: "0 < k \<Longrightarrow> row_ok r \<Longrightarrow> row_ok (add_progress False n k t0 r)"
  by (auto simp: row_ok_def add_progress_def Let_def)

lemma progress_ok_step:
  assumes "task_db_step False d d'" and "progress_ok d"
  shows "progress_ok d'"
  using assms
proof cases
  case (claim r u i p t t0)
  then show ?thesis using assms(2)
    by (auto simp: progress_ok_def map_update_where list_all_iff set_update_where row_ok_claim)
next
  case (start t u p)
  then show ?thesis using assms(2) set_ensure_progress [of u "tk_id t" p "task_progresses d"] row_ok_new
    by (auto simp: progress_ok_def list_all_iff ensure_progress_ids)
next
  case (add t delta u p t0)
  then show ?thesis using assms(2)
    by (auto simp: progress_ok_def map_update_where list_all_iff set_update_where row_ok_add)
qed (auto simp: progress_ok_def list_all_iff distinct_map_filter)

interpretation well_formed: task_invariant False progress_ok
  by unfold_locales (blast intro: progress_ok_step, simp add: progress_ok_def)

text \<open>C29. On a database that evaluates an update on the old row, progress is well formed in every run:
  one row per user, task and period, no negative counter, claimed only when completed, and
  completed exactly when the completion time is set.\<close>

theorem progress_stays_well_formed:
  assumes "task_run False w w'" and "progress_ok (db w)"
  shows "progress_ok (db w')"
  using assms by (rule well_formed.kept_by_run)

section \<open>Tasks that nothing counts\<close>

definition only_counted :: "business_db \<Rightarrow> bool" where
  "only_counted d \<longleftrightarrow> distinct (map tk_id (tasks d)) \<and>
     list_all (\<lambda>r. list_ex (\<lambda>t. tk_id t = tp_task r \<and> tk_key t \<in> set counted_keys) (tasks d)) (task_progresses d)"

lemma insert_tasks_props:
  "distinct (map tk_id rows) \<Longrightarrow> distinct (map tk_id (insert_tasks ts rows))"
  "set rows \<subseteq> set (insert_tasks ts rows)"
proof (induction ts arbitrary: rows)
  case (Cons t ts)
  {
    case 1
    then show ?case using Cons.IH(1) [of "rows @ [t\<lparr>tk_id := next_id tk_id rows\<rparr>]"] next_id_fresh [of tk_id rows]
      by simp
  next
    case 2
    show ?case using Cons.IH(2) [of "rows @ [t\<lparr>tk_id := next_id tk_id rows\<rparr>]"] by auto
  }
qed simp_all

lemma only_counted_step:
  assumes "task_db_step lr d d'" and "only_counted d"
  shows "only_counted d'"
  using assms
proof cases
  case (claim r u i p t t0)
  then show ?thesis using assms(2) by (auto simp: only_counted_def list_all_iff set_update_where)
next
  case (start t u p)
  then show ?thesis using assms(2) set_ensure_progress [of u "tk_id t" p "task_progresses d"]
    by (fastforce simp: only_counted_def list_all_iff list_ex_iff is_counted_task_def)
next
  case (add t delta u p t0)
  then show ?thesis using assms(2) by (auto simp: only_counted_def list_all_iff set_update_where)
next
  case seed
  then show ?thesis using assms(2) insert_tasks_props [of "tasks d" seed_tasks]
    by (fastforce simp: only_counted_def list_all_iff list_ex_iff)
qed (auto simp: only_counted_def list_all_iff)

interpretation counted: task_invariant lr only_counted for lr
  by unfold_locales (blast intro: only_counted_step, simp add: only_counted_def)

end
