(* ===== verification/TaskProperties.thy ===== *)
theory TaskProperties
  imports TaskInvariants ShopProperties
begin

text \<open>
  How the operations of the task service behave: periods, what an event adds, when a task is
  completed on which database, what a claim pays, and which errors leave the tables alone.
\<close>

section \<open>Periods\<close>

text \<open>The weekly period of a day is named by the Monday of its week: a day of that week that is a
  Monday, and two days have the same period exactly when they lie in the same week.\<close>

theorem weekly_period_is_monday:
  "weekday (monday_of d) = 1 \<and> monday_of d \<le> d \<and> d < monday_of d + 7 \<and>
   (monday_of d = monday_of d' \<longleftrightarrow> (d + 3) div 7 = (d' + 3) div 7)"
proof -
  have m: "monday_of e = 7 * ((e + 3) div 7) - 3" for e
  proof -
    let ?r = "(e + 3) mod 7"
    have r: "0 \<le> ?r" "?r < 7" by simp_all
    have "(e + 4) mod 7 = (?r + 1) mod 7" using mod_add_left_eq [of "e + 3" 7 1] by (simp add: add.commute)
    then have "(e + 4) mod 7 = (if ?r = 6 then 0 else ?r + 1)" using r by auto
    then have "monday_of e = e - ?r" using r by (auto simp: monday_of_def weekday_def Let_def)
    then show ?thesis using mult_div_mod_eq [of 7 "e + 3"] by linarith
  qed
  have "weekday (7 * k - 3) = 1" for k unfolding weekday_def by presburger
  moreover have "7 * ((d + 3) div 7) - 3 \<le> d" "d < 7 * ((d + 3) div 7) - 3 + 7" by linarith+
  ultimately show ?thesis unfolding m by simp
qed

section \<open>Claiming\<close>

lemma claim_step_claimable:
  assumes "bind_io (transaction (claim_tx p u t i q)) k w = (Inr x, w')"
  shows "\<exists>r. r \<in> set (task_progresses (db w)) \<and> claimable u i q r"
proof -
  obtain ob w1 where "transaction (claim_tx p u t i q) w = (Inr ob, w1)"
    using assms unfolding bind_io_Inr by blast
  from transaction_ok [OF this] obtain v where "claim_tx p u t i q w = (Inr ob, v)" by blast
  then obtain y w2 where "ClaimReward u i q w = (Inr y, w2)" unfolding claim_tx_def then_io_Inr by blast
  from ClaimReward_ok [OF this] show ?thesis by blast
qed

lemma task_Claim_claimable:
  assumes "task_Claim p u i w = (Inr t', w')"
  shows "\<exists>r q. r \<in> set (task_progresses (db w)) \<and> claimable u i q r"
proof -
  obtain found w1 where 1: "task_FindByID i w = (Inr found, w1)"
    and k: "(case found of None \<Rightarrow> throw ErrTaskNotFound | Some t \<Rightarrow>
     bind_io (gets_io (GetCurrentPeriod (tk_type t))) (\<lambda>q.
     bind_io (FindProgress u i q) (\<lambda>progress.
       case progress of
         None \<Rightarrow> throw ErrTaskNotCompleted
       | Some r \<Rightarrow>
           if \<not> tp_completed r then throw ErrTaskNotCompleted
           else if tp_claimed r then throw ErrTaskClaimed
           else bind_io (transaction (claim_tx p u t i q)) (\<lambda>ob.
                then_io (if p then ApplyAsync (Some ob) else ret ()) (ret t))))) w1 = (Inr t', w')"
    using assms unfolding task_Claim_def bind_io_Inr wrap_err_Inr by blast
  obtain t where t: "found = Some t" using k by (cases found) auto
  obtain progress w2 where 2: "FindProgress u i (GetCurrentPeriod (tk_type t) w1) w1 = (Inr progress, w2)"
    and k2: "(case progress of
         None \<Rightarrow> throw ErrTaskNotCompleted
       | Some r \<Rightarrow>
           if \<not> tp_completed r then throw ErrTaskNotCompleted
           else if tp_claimed r then throw ErrTaskClaimed
           else bind_io (transaction (claim_tx p u t i (GetCurrentPeriod (tk_type t) w1))) (\<lambda>ob.
                then_io (if p then ApplyAsync (Some ob) else ret ()) (ret t))) w2 = (Inr t', w')"
    using k unfolding t option.case bind_io_Inr gets_io_Inr by blast
  have "bind_io (transaction (claim_tx p u t i (GetCurrentPeriod (tk_type t) w1))) (\<lambda>ob.
      then_io (if p then ApplyAsync (Some ob) else ret ()) (ret t)) w2 = (Inr t', w')"
    using k2 by (cases progress) (simp_all split: if_splits)
  from claim_step_claimable [OF this] have "\<exists>r q. r \<in> set (task_progresses (db w2)) \<and> claimable u i q r" by blast
  moreover have "db w1 = db w" "db w2 = db w1"
    using evolvesD [OF unchanged.ev_task_reads(2) 1] evolvesD [OF unchanged.ev_task_reads(3) 2] by (simp_all add: on_db_def)
  ultimately show ?thesis by simp
qed

text \<open>Nothing counts the tasks \<open>daily_login\<close> and \<open>achieve_points_10000\<close>: in every run, whatever events
  arrive, no claim of a task whose key is not among the five counted ones succeeds.\<close>

theorem uncounted_task_is_never_rewarded:
  assumes "task_run lr w w'" and "only_counted (db w)"
    and "t \<in> set (tasks (db w'))" and "tk_key t \<notin> set counted_keys"
  shows "fst (task_Claim p u (tk_id t) w') \<noteq> Inr t'"
proof
  assume "fst (task_Claim p u (tk_id t) w') = Inr t'"
  then have "task_Claim p u (tk_id t) w' = (Inr t', snd (task_Claim p u (tk_id t) w'))" by (metis prod.collapse)
  from task_Claim_claimable [OF this] obtain r where
    r: "r \<in> set (task_progresses (db w'))" "tp_task r = tk_id t" by (auto simp: claimable_def progress_key_def)
  have c: "only_counted (db w')" using assms(1,2) by (rule counted.kept_by_run)
  obtain t2 where t2: "t2 \<in> set (tasks (db w'))" "tk_id t2 = tk_id t" "tk_key t2 \<in> set counted_keys"
    using c r unfolding only_counted_def list_all_iff list_ex_iff by metis
  have "inj_on tk_id (set (tasks (db w')))" using c by (simp add: only_counted_def distinct_map)
  then have "t2 = t" using t2(1,2) assms(3) by (simp add: inj_on_def)
  then show False using t2(3) assms(4) by simp
qed

lemma apply_async_never_fails: "fails_with E (ApplyAsync ob)"
  unfolding ApplyAsync_def publish_adjust_def by (intro fw_rules fw_spawn)

lemma task_Claim_all_or_nothing: "all_or_nothing (task_Claim p u i)"
  unfolding task_Claim_def
  by (intro unchanged.un_bind_before unchanged.un_if unchanged.un_throw unchanged.un_option unchanged.un_bind_after aon_transaction
      fw_rules apply_async_never_fails unchanged.ev_world unchanged.ev_task_reads)

text \<open>A claim that is refused, at whatever point, leaves all tables as they were.\<close>

theorem refused_claim_writes_nothing:
  assumes "task_Claim p u i w = (Inl e, w')"
  shows "db w' = db w"
  using undoesD [OF task_Claim_all_or_nothing assms] by (simp add: on_db_def)

text \<open>A claim of a completed, unclaimed row whose event is new succeeds when no call fails: the row
  is claimed and the reward stands in the ledger and the outbox, and nothing else has changed.\<close>

theorem claim_pays_reward:
  assumes "faults w = []" and "replica w = None"
    and "task_FindByID i w = (Inr (Some t), w)"
    and "find (progress_key u i (GetCurrentPeriod (tk_type t) w)) (task_progresses (db w)) = Some r"
    and "tp_completed r" and "\<not> tp_claimed r"
    and "task_event u i (GetCurrentPeriod (tk_type t) w) \<notin> ob_event ` set (outbox_rows (db w))"
  shows "fst (task_Claim True u i w) = Inr t \<and>
    db (snd (task_Claim True u i w)) = pay_claim u t i (GetCurrentPeriod (tk_type t) w) (now w) (db w)"
proof -
  let ?p = "GetCurrentPeriod (tk_type t) w" and ?d = "db w"
  let ?d1 = "?d\<lparr>task_progresses := update_where (claimable u i ?p) claim_row (task_progresses ?d)\<rparr>"
  let ?d2 = "pay_claim u t i ?p (now w) ?d"
  have "r \<in> set (task_progresses ?d)" "progress_key u i ?p r" using assms(4) by (auto simp: find_Some_iff)
  then have "0 < rows_affected (claimable u i ?p) (task_progresses ?d)"
    using assms(5,6) by (auto simp: rows_affected_pos claimable_def)
  then have "ClaimReward u i ?p w = (Inr (), w\<lparr>db := ?d1\<rparr>)"
    using assms(1) by (simp add: ClaimReward_def db_write_def bind_io_def ret_def)
  then have "claim_tx True u t i ?p w = (Inr (task_outbox u t i ?p (now w)), w\<lparr>db := ?d2\<rparr>)"
    using assms(1,7)
    by (simp add: claim_tx_def then_io_def bind_io_def wrap_err_def CreateTransaction_def db_write_def time_now_def
        gets_io_def AppendOutboxInTx_def db_try_def ret_def task_outbox_def pay_claim_def)
  then have tx: "transaction (claim_tx True u t i ?p) w = (Inr (task_outbox u t i ?p (now w)), w\<lparr>db := ?d2\<rparr>)"
    using assms(1) by (simp add: transaction_def ret_def)
  have "FindProgress u i ?p w = (Inr (Some r), w)"
    using assms(1,2,4) by (simp add: FindProgress_def db_read_def gets_io_def read_db_def)
  then have c: "task_Claim True u i w =
      then_io (ApplyAsync (Some (task_outbox u t i ?p (now w)))) (ret t) (w\<lparr>db := ?d2\<rparr>)"
    using assms(3,5,6) tx by (simp add: task_Claim_def wrap_err_def bind_io_def gets_io_def)
  obtain x v where a: "ApplyAsync (Some (task_outbox u t i ?p (now w))) (w\<lparr>db := ?d2\<rparr>) = (x, v)" by fastforce
  then have "db v = ?d2" using evolvesD [OF unchanged.ev_apply_async a] by (simp add: on_db_def)
  moreover have "\<exists>y. x = Inr y" using fails_withD [OF apply_async_never_fails [of "\<lambda>_. False"]] a by (cases x) auto
  ultimately show ?thesis using c a by (auto simp: then_io_def bind_io_def ret_def)
qed

section \<open>Events\<close>

definition marked :: "string \<Rightarrow> business_db \<Rightarrow> bool" where
  "marked ev d \<longleftrightarrow> ev \<in> ed_event ` set (event_dedups d)"

lemma event_id_nonempty: "event_progress msg = Inr (Some (ev, u, delta, keys)) \<Longrightarrow> ev \<noteq> []"
  by (auto simp: event_progress_def Let_def split: if_splits option.splits)

lemma Mark_cases:
  assumes "Mark ev src w = (res, w')" and "ev \<noteq> []"
  shows "mysql w' = mysql w \<and> ((\<exists>e. res = Inl e) \<and> db w' = db w \<or>
    marked ev (db w) \<and> res = Inr False \<and> db w' = db w \<or>
    \<not> marked ev (db w) \<and> res = Inr True \<and> marked ev (db w'))"
  using assms
  by (auto simp: Mark_def db_write_def ext_def marked_def list_ex_iff split: list.splits if_splits)

lemma marked_event_is_skipped:
  assumes "marked ev (db w)" and "ev \<noteq> []" and "event_tx tx src ev u delta keys w = (res, w')"
  shows "db w' = db w"
proof -
  obtain r v where m: "Mark ev src w = (r, v)" by fastforce
  show ?thesis using Mark_cases [OF m assms(2)] assms(1,3) m
    by (auto simp: event_tx_def bind_io_def wrap_err_def ret_def)
qed

lemma gd_statement: "evolves (guarded False I) m \<Longrightarrow> evolves (guarded False I) (mysql_statement tx m)"
proof (rule evolvesI)
  fix w
  assume "evolves (guarded False I) m"
  then have "guarded False I w (snd (m w))" by (simp add: evolves_def)
  then show "guarded False I w (snd (mysql_statement tx m w))"
    by (auto simp: guarded_def mysql_statement_def split: prod.splits sum.splits)
qed

lemma gd_marks_stay: "evolves (guarded False (marked ev)) (incr_task tx u delta t)"
  unfolding incr_task_def IncrProgress_def incrProgressOnce_def
  by (intro guard.ev_rules gd_retry gd_statement gd_db_write) (auto simp: marked_def)

lemma event_tx_marks:
  assumes "event_tx tx src ev u delta keys w = (Inr x, w')" and "ev \<noteq> []" and "\<not> mysql w"
  shows "marked ev (db w')"
proof -
  obtain first w1 where 1: "Mark ev src w = (Inr first, w1)"
    and k: "(if \<not> first then ret () else bind_io (wrap_err ''find tasks by keys'' (FindByKeys tx keys)) (\<lambda>ts.
            for_io ts (incr_task tx u delta))) w1 = (Inr x, w')"
    using assms(1) unfolding event_tx_def by (auto simp: bind_io_Inr wrap_err_Inr)
  note m = Mark_cases [OF 1 assms(2)]
  show ?thesis
  proof (cases first)
    case False
    then show ?thesis using m k by (auto simp: ret_def)
  next
    case True
    have "evolves (guarded False (marked ev)) (FindByKeys tx keys)"
      unfolding FindByKeys_def task_read_def db_read_def
      by (intro guard.ev_rules gd_ext) (auto simp: gets_io_def)
    then have "evolves (guarded False (marked ev)) (bind_io (wrap_err ''find tasks by keys'' (FindByKeys tx keys)) (\<lambda>ts.
            for_io ts (incr_task tx u delta)))"
      by (intro guard.ev_rules gd_marks_stay)
    then show ?thesis using evolvesD m k True assms(3) by (fastforce simp: guarded_def)
  qed
qed

text \<open>An event counts once: after a delivery that returned without error, no further delivery of
  the same message changes the tables while the mark is kept, whatever fails and however often
  it comes (on a database that does not roll transactions back on its own).\<close>

theorem redelivered_event_changes_nothing:
  assumes "ApplyEventProgress (Some msg) w = (Inr (), w1)" and "\<not> mysql w"
    and "event_dedups (db v) = event_dedups (db w1)" and "ApplyEventProgress (Some msg) v = (res, v')"
  shows "db v' = db v"
proof (cases "\<exists>ev u delta keys. event_progress msg = Inr (Some (ev, u, delta, keys))")
  case False
  then show ?thesis using assms(4)
    by (auto simp: ApplyEventProgress_def ret_def throw_def split: sum.splits option.splits)
next
  case True
  then obtain ev u delta keys where m: "event_progress msg = Inr (Some (ev, u, delta, keys))" by blast
  have run: "ApplyEventProgress (Some msg) x = transaction (event_tx (Some (db x)) (em_type msg) ev u delta keys) x" for x
    by (simp add: ApplyEventProgress_def m bind_io_def gets_io_def)
  obtain w0 where "event_tx (Some (db w)) (em_type msg) ev u delta keys w = (Inr (), w0)" "db w1 = db w0"
    using transaction_ok [of _ w "()" w1] assms(1) run by metis
  then have "marked ev (db w1)" using event_tx_marks event_id_nonempty [OF m] assms(2) by metis
  then have mk: "marked ev (db v)" using assms(3) by (simp add: marked_def)
  obtain r v0 where e: "event_tx (Some (db v)) (em_type msg) ev u delta keys v = (r, v0)" by fastforce
  have same: "db v0 = db v" using mk event_id_nonempty [OF m] e by (rule marked_event_is_skipped)
  show ?thesis
  proof (cases res)
    case (Inl x)
    then show ?thesis using transaction_fails assms(4) run by metis
  next
    case (Inr x)
    then have "\<exists>v0. event_tx (Some (db v)) (em_type msg) ev u delta keys v = (Inr x, v0) \<and> db v' = db v0"
      using transaction_ok assms(4) run by metis
    then show ?thesis using e same by auto
  qed
qed

section \<open>What an event adds\<close>

definition row_of :: "string \<Rightarrow> int \<Rightarrow> period \<Rightarrow> task_progress list \<Rightarrow> task_progress option" where
  "row_of u i p rows = find (progress_key u i p) rows"

definition tally :: "string \<Rightarrow> int \<Rightarrow> period \<Rightarrow> task_progress list \<Rightarrow> int" where
  "tally u i p rows = (case row_of u i p rows of None \<Rightarrow> 0 | Some r \<Rightarrow> tp_current r)"

definition is_claimed :: "string \<Rightarrow> int \<Rightarrow> period \<Rightarrow> task_progress list \<Rightarrow> bool" where
  "is_claimed u i p rows = (case row_of u i p rows of None \<Rightarrow> False | Some r \<Rightarrow> tp_claimed r)"

definition bump :: "bool \<Rightarrow> string \<Rightarrow> task \<Rightarrow> period \<Rightarrow> int \<Rightarrow> instant \<Rightarrow> task_progress list \<Rightarrow> task_progress list" where
  "bump lr u t p delta t0 rows = update_where (unclaimed_key u (tk_id t) p) (add_progress lr (tk_target t) delta t0)
     (ensure_progress u (tk_id t) p rows)"

lemma find_update_where:
  "(\<And>r. key (f r) = key r) \<Longrightarrow>
   find key (update_where q f rows) = map_option (\<lambda>r. if q r then f r else r) (find key rows)"
  by (induction rows) (auto simp: update_where_def)

lemma find_append: "find q (xs @ ys) = (case find q xs of None \<Rightarrow> find q ys | Some x \<Rightarrow> Some x)"
  by (induction xs) auto

lemma row_of_ensure:
  "row_of v i p (ensure_progress u j q rows) =
     (if row_of v i p rows = None \<and> v = u \<and> i = j \<and> p = q
      then Some ((new_progress u j q)\<lparr>tp_id := next_id tp_id rows\<rparr>) else row_of v i p rows)"
proof (cases "has_progress u j q rows")
  case True
  then have "row_of u j q rows \<noteq> None" by (auto simp: row_of_def has_progress_def list_ex_iff find_None_iff)
  then show ?thesis using True by (auto simp: ensure_progress_def)
next
  case False
  then have "row_of u j q rows = None" by (auto simp: row_of_def has_progress_def list_ex_iff find_None_iff)
  then show ?thesis using False
    by (auto simp: ensure_progress_def row_of_def find_append progress_key_def split: option.splits)
qed

lemma progress_key_add [simp]: "progress_key v i q (add_progress lr n k t0 r) = progress_key v i q r"
  by (simp add: progress_key_def)

lemma row_of_key: "row_of u i p rows = Some r \<Longrightarrow> progress_key u i p r"
  by (auto simp: row_of_def find_Some_iff)

lemma row_of_bump:
  "row_of v i q (bump lr u t p delta t0 rows) =
     map_option (\<lambda>r. if v = u \<and> i = tk_id t \<and> q = p \<and> \<not> tp_claimed r then add_progress lr (tk_target t) delta t0 r else r)
       (row_of v i q (ensure_progress u (tk_id t) p rows))"
proof (cases "row_of v i q (ensure_progress u (tk_id t) p rows)")
  case None
  then show ?thesis by (simp add: bump_def row_of_def find_update_where)
next
  case (Some r)
  then have "progress_key v i q r" by (rule row_of_key)
  then have "unclaimed_key u (tk_id t) p r \<longleftrightarrow> v = u \<and> i = tk_id t \<and> q = p \<and> \<not> tp_claimed r"
    by (auto simp: unclaimed_key_def progress_key_def)
  then show ?thesis using Some by (simp add: bump_def row_of_def find_update_where)
qed

lemma tally_bump:
  "tally v i q (bump lr u t p delta t0 rows) =
     tally v i q rows + (if v = u \<and> i = tk_id t \<and> q = p \<and> \<not> is_claimed v i q rows then delta else 0)"
  by (auto simp: tally_def is_claimed_def row_of_bump row_of_ensure split: option.splits)

lemma is_claimed_bump: "is_claimed v i q (bump lr u t p delta t0 rows) = is_claimed v i q rows"
  by (auto simp: is_claimed_def row_of_bump row_of_ensure split: option.splits)

lemma incrProgressOnce_run:
  assumes "faults w = []"
  shows "incrProgressOnce tx u t p delta w = (Inr (), w\<lparr>db := (db w)\<lparr>task_progresses :=
     bump (mysql w) u t p delta (now w) (task_progresses (db w))\<rparr>\<rparr>)"
  using assms by (simp add: incrProgressOnce_def mysql_statement_def db_write_def then_io_def bind_io_def bump_def)

definition bump_all :: "world \<Rightarrow> string \<Rightarrow> int \<Rightarrow> task list \<Rightarrow> task_progress list \<Rightarrow> task_progress list" where
  "bump_all w u delta ts rows =
     fold (\<lambda>t rs. bump (mysql w) u t (GetCurrentPeriod (tk_type t) w) delta (now w) rs) ts rows"

lemma incr_task_run:
  assumes "faults w = []" and "0 < delta"
  shows "incr_task tx u delta t w = (Inr (), w\<lparr>db := (db w)\<lparr>task_progresses :=
     bump (mysql w) u t (GetCurrentPeriod (tk_type t) w) delta (now w) (task_progresses (db w))\<rparr>\<rparr>)"
  using assms
  by (simp add: incr_task_def IncrProgress_def bind_io_def gets_io_def wrap_err_def then_io_def when_io_def ret_def
      attempt_def incrProgressOnce_run)

lemma period_frame [simp]: "GetCurrentPeriod ty (w\<lparr>db := d\<rparr>) = GetCurrentPeriod ty w"
  by (simp add: GetCurrentPeriod_def utc_day_def)

lemma incr_tasks_run:
  assumes "faults w = []" and "0 < delta"
  shows "for_io ts (incr_task tx u delta) w = (Inr (), w\<lparr>db := (db w)\<lparr>task_progresses :=
     bump_all w u delta ts (task_progresses (db w))\<rparr>\<rparr>)"
  using assms
proof (induction ts arbitrary: w)
  case (Cons t ts)
  let ?w1 = "w\<lparr>db := (db w)\<lparr>task_progresses :=
     bump (mysql w) u t (GetCurrentPeriod (tk_type t) w) delta (now w) (task_progresses (db w))\<rparr>\<rparr>"
  show ?case using Cons.IH [of ?w1] Cons.prems
    by (simp add: then_io_def bind_io_def incr_task_run bump_all_def)
qed (simp add: ret_def bump_all_def)

lemma tally_bump_all:
  assumes "distinct (map tk_id ts)"
  shows "tally v i q (bump_all w u delta ts rows) = tally v i q rows +
    (if v = u \<and> list_ex (\<lambda>t. tk_id t = i \<and> GetCurrentPeriod (tk_type t) w = q) ts \<and> \<not> is_claimed v i q rows
     then delta else 0)"
  using assms
proof (induction ts arbitrary: rows)
  case (Cons t ts)
  then have "tk_id t \<notin> tk_id ` set ts" by simp
  then have "\<not> list_ex (\<lambda>x. tk_id x = tk_id t \<and> GetCurrentPeriod (tk_type x) w = q) ts"
    unfolding list_ex_iff by (metis image_eqI)
  then show ?case using Cons by (auto simp: bump_all_def tally_bump is_claimed_bump)
qed (simp add: bump_all_def)

definition counts_for :: "string list \<Rightarrow> world \<Rightarrow> int \<Rightarrow> period \<Rightarrow> bool" where
  "counts_for keys w i p \<longleftrightarrow>
     list_ex (\<lambda>t. tk_id t = i \<and> tk_active t \<and> tk_key t \<in> set keys \<and> GetCurrentPeriod (tk_type t) w = p) (tasks (db w))"

lemma event_tx_run:
  assumes "faults w = []" and "\<not> marked ev (db w)" and "ev \<noteq> []" and "0 < delta" and "keys \<noteq> []"
  shows "\<exists>e. event_tx (Some d) src ev u delta keys w =
     (Inr (), w\<lparr>db := (db w)\<lparr>event_dedups := event_dedups (db w) @ [e],
       task_progresses := bump_all w u delta (filter (\<lambda>t. tk_key t \<in> set keys \<and> tk_active t) (tasks (db w)))
          (task_progresses (db w))\<rparr>\<rparr>) \<and> ed_event e = ev"
proof -
  let ?e = "\<lparr>ed_event = ev, ed_source = src, ed_created = now w\<rparr>"
  let ?w1 = "w\<lparr>db := (db w)\<lparr>event_dedups := event_dedups (db w) @ [?e]\<rparr>\<rparr>"
  let ?ts = "filter (\<lambda>t. tk_key t \<in> set keys \<and> tk_active t) (tasks (db w))"
  have m: "Mark ev src w = (Inr True, ?w1)" using assms(1-3)
    by (auto simp: Mark_def db_write_def marked_def list_ex_iff)
  have f: "FindByKeys (Some d) keys ?w1 = (Inr ?ts, ?w1)" using assms(1,5)
    by (simp add: FindByKeys_def task_read_def gets_io_def)
  have "for_io ?ts (incr_task (Some d) u delta) ?w1 = (Inr (), ?w1\<lparr>db := (db ?w1)\<lparr>task_progresses :=
     bump_all ?w1 u delta ?ts (task_progresses (db ?w1))\<rparr>\<rparr>)" using assms(1,4) by (intro incr_tasks_run) simp_all
  then show ?thesis using m f
    by (intro exI [of _ ?e]) (simp add: event_tx_def bind_io_def wrap_err_def bump_all_def)
qed

text \<open>A new event is counted in full when no call fails: the counter of the user in the current
  period of every active task that the event counts for grows by the amount, unless that row
  is claimed; every other counter stays, and the event is marked.\<close>

theorem event_adds_its_amount:
  assumes "event_progress msg = Inr (Some (ev, u, delta, keys))" and "faults w = []" and "\<not> marked ev (db w)"
    and "distinct (map tk_id (tasks (db w)))"
  shows "fst (ApplyEventProgress (Some msg) w) = Inr () \<and> marked ev (db (snd (ApplyEventProgress (Some msg) w))) \<and>
    tally v i p (task_progresses (db (snd (ApplyEventProgress (Some msg) w)))) = tally v i p (task_progresses (db w)) +
      (if v = u \<and> counts_for keys w i p \<and> \<not> is_claimed v i p (task_progresses (db w)) then delta else 0)"
proof -
  let ?ts = "filter (\<lambda>t. tk_key t \<in> set keys \<and> tk_active t) (tasks (db w))"
  have k: "keys \<noteq> []" "0 < delta" using assms(1)
    by (auto simp: event_progress_def Let_def split: if_splits option.splits)
  obtain e where e: "event_tx (Some (db w)) (em_type msg) ev u delta keys w =
      (Inr (), w\<lparr>db := (db w)\<lparr>event_dedups := event_dedups (db w) @ [e],
        task_progresses := bump_all w u delta ?ts (task_progresses (db w))\<rparr>\<rparr>)" "ed_event e = ev"
    using event_tx_run [OF assms(2,3) event_id_nonempty [OF assms(1)] k(2,1)] by blast
  have "distinct (map tk_id ?ts)" using assms(4) by (rule distinct_map_filter)
  moreover have "list_ex (\<lambda>t. tk_id t = i \<and> GetCurrentPeriod (tk_type t) w = p) ?ts \<longleftrightarrow> counts_for keys w i p"
    by (auto simp: counts_for_def list_ex_iff)
  ultimately show ?thesis using e assms(1,2)
    by (simp add: ApplyEventProgress_def bind_io_def gets_io_def transaction_def ret_def marked_def tally_bump_all)
qed

section \<open>When a task is completed\<close>

text \<open>The counter after an addition is the sum. On most databases the row is then completed exactly
  when the counter has reached the target; MySQL compares the new counter plus the amount
  again, so there the task is completed as soon as the old counter plus twice the amount
  reaches it, and without a completion time if the sum itself does not.\<close>

theorem completion_rule:
  assumes "faults w = []" and "row_of u (tk_id t) p (task_progresses (db w)) = Some r" and "\<not> tp_claimed r"
    and "row_of u (tk_id t) p (task_progresses (db (snd (incrProgressOnce tx u t p delta w)))) = Some r'"
  shows "tp_current r' = tp_current r + delta \<and>
    (tp_completed r' \<longleftrightarrow> tp_completed r \<or>
       0 < tk_target t \<and> tp_current r + (if mysql w then 2 * delta else delta) \<ge> tk_target t) \<and>
    tp_completed_at r' = (if 0 < tk_target t \<and> tp_current r' \<ge> tk_target t \<and> \<not> tp_completed r then Some (now w)
       else tp_completed_at r)"
proof -
  have "r' = add_progress (mysql w) (tk_target t) delta (now w) r"
    using assms by (simp add: incrProgressOnce_run row_of_bump row_of_ensure)
  then show ?thesis by (auto simp: add_progress_def Let_def)
qed

section \<open>Examples\<close>

definition sample_tasks :: "task list" where
  "sample_tasks = insert_tasks seed_tasks []"

definition sample_task_world :: world where
  "sample_task_world = empty_world\<lparr>cache_on := False, now := 5 * 24 * hour + hour, db := empty_db\<lparr>tasks := sample_tasks\<rparr>\<rparr>"

text \<open>One redemption, and a session of 20 minutes.\<close>

definition redeemed_msg :: event_message where
  "redeemed_msg = \<lparr>em_type = ''shop.redeemed'', em_id = ''shop:7'', em_payload =
     Some \<lparr>ef_user = ''u1'', ef_record = 0, ef_duration = 0, ef_order = 7\<rparr>\<rparr>"

definition settled_msg :: event_message where
  "settled_msg = \<lparr>em_type = ''idle.settled'', em_id = ''idle:5'', em_payload =
     Some \<lparr>ef_user = ''u1'', ef_record = 5, ef_duration = 1200, ef_order = 0\<rparr>\<rparr>"

definition after_redeemed :: world where
  "after_redeemed = snd (run_task (ApplyEvent (Some redeemed_msg)) sample_task_world)"

definition after_claim :: world where
  "after_claim = snd (run_task (ClaimTask ''u1'' 3) after_redeemed)"

lemma sample_task_run: "task_run False sample_task_world after_claim"
  unfolding after_claim_def
proof (rule task_run.request [OF _ _ prod.collapse [symmetric]])
  show "task_run False sample_task_world after_redeemed"
    unfolding after_redeemed_def
    by (rule task_run.request [OF task_run.none _ prod.collapse [symmetric]]) (simp add: sample_task_world_def empty_world_def)
  show "mysql after_redeemed = False" by code_simp
qed

lemma sample_task_start:
  "reward_books (db sample_task_world)" "progress_ok (db sample_task_world)" "only_counted (db sample_task_world)"
  by code_simp+

theorem task_rewards_are_paid_once_witness:
  "reward_books (db after_claim) \<and> reward_ledger (db after_claim) = [(''u1'', 300, ''task:3'')]"
proof
  show "reward_books (db after_claim)"
    using sample_task_run sample_task_start(1) by (rule task_rewards_are_paid_once)
  show "reward_ledger (db after_claim) = [(''u1'', 300, ''task:3'')]" by code_simp
qed

theorem progress_stays_well_formed_witness: "progress_ok (db after_claim)"
  using sample_task_run sample_task_start(2) by (rule progress_stays_well_formed)

theorem task_requests_refine_steps_witness:
  "(task_db_step (mysql after_redeemed))\<^sup>*\<^sup>* (db after_redeemed) (db after_claim)"
  unfolding after_claim_def by (rule task_requests_refine_steps [OF prod.collapse [symmetric]])

theorem uncounted_task_is_never_rewarded_witness:
  "fst (task_Claim True ''u1'' 1 after_claim) \<noteq> Inr (hd sample_tasks)"
proof -
  have t: "tasks (db after_claim) = sample_tasks" by code_simp
  have h: "hd sample_tasks \<in> set sample_tasks" "tk_key (hd sample_tasks) \<notin> set counted_keys" "tk_id (hd sample_tasks) = 1"
    by code_simp+
  show ?thesis
    using uncounted_task_is_never_rewarded [OF sample_task_run sample_task_start(3), of "hd sample_tasks" True "''u1''"] t h
    by simp
qed

theorem refused_claim_writes_nothing_witness:
  "db (snd (task_Claim True ''u1'' 1 after_redeemed)) = db after_redeemed"
proof (rule refused_claim_writes_nothing)
  have "fst (task_Claim True ''u1'' 1 after_redeemed) = Inl ErrTaskNotCompleted" by code_simp
  then show "task_Claim True ''u1'' 1 after_redeemed =
      (Inl ErrTaskNotCompleted, snd (task_Claim True ''u1'' 1 after_redeemed))" by (metis prod.collapse)
qed

theorem redelivered_event_changes_nothing_witness:
  "db (snd (ApplyEventProgress (Some redeemed_msg) after_redeemed)) = db after_redeemed"
proof (rule redelivered_event_changes_nothing [of _ sample_task_world after_redeemed])
  have "fst (ApplyEventProgress (Some redeemed_msg) sample_task_world) = Inr ()" by code_simp
  then show "ApplyEventProgress (Some redeemed_msg) sample_task_world = (Inr (), after_redeemed)"
    by (simp add: after_redeemed_def run_task_def best_effort_def prod_eq_iff)
  show "\<not> mysql sample_task_world" by code_simp
qed (rule refl, rule prod.collapse [symmetric])

theorem event_adds_its_amount_witness:
  "fst (ApplyEventProgress (Some redeemed_msg) sample_task_world) = Inr () \<and>
   marked ''shop:7'' (db (snd (ApplyEventProgress (Some redeemed_msg) sample_task_world))) \<and>
   tally ''u1'' 7 Lifetime (task_progresses (db (snd (ApplyEventProgress (Some redeemed_msg) sample_task_world)))) =
     tally ''u1'' 7 Lifetime (task_progresses (db sample_task_world)) + 1"
proof -
  let ?keys = "[TaskKeyDailyRedeem1, TaskKeyWeeklyRedeem3, TaskKeyAchieveRedeem100]"
  have 1: "event_progress redeemed_msg = Inr (Some (''shop:7'', ''u1'', 1, ?keys))" by code_simp
  have 2: "faults sample_task_world = []" "\<not> marked ''shop:7'' (db sample_task_world)"
    "distinct (map tk_id (tasks (db sample_task_world)))" by code_simp+
  have 3: "counts_for ?keys sample_task_world 7 Lifetime" "\<not> is_claimed ''u1'' 7 Lifetime (task_progresses (db sample_task_world))"
    by code_simp+
  show ?thesis using event_adds_its_amount [OF 1 2(1,2,3), of "''u1''" 7 Lifetime] 3 by simp
qed

definition idle_task :: task where
  "idle_task = \<lparr>tk_id = 2, tk_type = ''daily'', tk_key = TaskKeyDailyIdle30, tk_name = TaskKeyDailyIdle30,
     tk_target = 30, tk_reward = 200, tk_active = True\<rparr>"

definition sample_mysql :: world where
  "sample_mysql = sample_task_world\<lparr>mysql := True, db := (db sample_task_world)\<lparr>task_progresses :=
     [(new_progress ''u1'' 2 (Day 5))\<lparr>tp_id := 1\<rparr>]\<rparr>\<rparr>"

text \<open>On MySQL a session of 20 minutes completes the task of 30 minutes.\<close>

theorem completion_rule_witness:
  "\<exists>r'. row_of ''u1'' 2 (Day 5) (task_progresses (db (snd (incrProgressOnce None ''u1'' idle_task (Day 5) 20 sample_mysql)))) = Some r'
     \<and> tp_current r' = 20 \<and> tp_completed r' \<and> tp_completed_at r' = None"
proof -
  let ?w' = "snd (incrProgressOnce None ''u1'' idle_task (Day 5) 20 sample_mysql)"
  let ?r = "(new_progress ''u1'' 2 (Day 5))\<lparr>tp_id := 1\<rparr>"
  have r: "faults sample_mysql = []" "mysql sample_mysql" "tk_id idle_task = 2" "tk_target idle_task = 30"
    "row_of ''u1'' 2 (Day 5) (task_progresses (db sample_mysql)) = Some ?r"
    by (simp_all add: sample_mysql_def sample_task_world_def empty_world_def idle_task_def row_of_def progress_key_def)
  have "row_of ''u1'' 2 (Day 5) (task_progresses (db ?w')) \<noteq> None" by code_simp
  then obtain r' where r': "row_of ''u1'' 2 (Day 5) (task_progresses (db ?w')) = Some r'" by auto
  show ?thesis
    using completion_rule [of sample_mysql "''u1''" idle_task "Day 5" ?r None 20 r'] r r' by simp
qed

theorem claim_pays_reward_witness:
  "fst (task_Claim True ''u1'' 3 after_redeemed) = Inr (sample_tasks ! 2) \<and>
   db (snd (task_Claim True ''u1'' 3 after_redeemed)) =
     pay_claim ''u1'' (sample_tasks ! 2) 3 (GetCurrentPeriod (tk_type (sample_tasks ! 2)) after_redeemed)
       (now after_redeemed) (db after_redeemed)"
proof -
  let ?t = "sample_tasks ! 2" and ?w = after_redeemed
  let ?p = "GetCurrentPeriod (tk_type ?t) ?w"
  let ?row = "find (progress_key ''u1'' 3 ?p) (task_progresses (db ?w))"
  have w: "faults ?w = []" "replica ?w = None" "\<not> cache_on ?w" "find (\<lambda>t. tk_id t = 3) (tasks (db ?w)) = Some ?t"
    by code_simp+
  have f: "task_FindByID 3 ?w = (Inr (Some ?t), ?w)"
    using w by (simp add: task_FindByID_def first_task_def db_read_def read_db_def gets_io_def bind_io_def)
  have r: "case ?row of None \<Rightarrow> False | Some r \<Rightarrow> tp_completed r \<and> \<not> tp_claimed r" by code_simp
  have e: "task_event ''u1'' 3 ?p \<notin> ob_event ` set (outbox_rows (db ?w))" by code_simp
  show ?thesis using claim_pays_reward [OF w(1,2) f, of "''u1''" "the ?row"] r e by (auto split: option.splits)
qed

text \<open>
  On MySQL a deadlock of the first statement rolls the mark back with the transaction; the
  retry then counts the event without its mark, and the next delivery counts it again.
\<close>

definition deadlock_world :: world where
  "deadlock_world = sample_task_world\<lparr>mysql := True, fault_text := (\<lambda>name. ''Error 1213''), faults := [False, False, True]\<rparr>"

lemma deadlock_loses_the_mark:
  "(let w1 = snd (ApplyEventProgress (Some redeemed_msg) deadlock_world);
        w2 = snd (ApplyEventProgress (Some redeemed_msg) w1)
    in event_dedups (db w1) = [] \<and> map tp_current (task_progresses (db w1)) = [1, 1, 1] \<and>
       map tp_current (task_progresses (db w2)) = [2, 2, 2])"
  by code_simp

text \<open>
  Daily rows of Monday have the name of the weekly period: while they are in the table, the
  order in which Go iterates over the periods decides whether the list shows Monday's row or
  today's.
\<close>

lemma list_depends_on_map_order:
  "(let old = \<lparr>tp_id = 1, tp_user = ''u1'', tp_task = 2, tp_period = Day 4, tp_current = 30, tp_completed = True,
          tp_claimed = True, tp_completed_at = Some 0\<rparr>;
        new = \<lparr>tp_id = 2, tp_user = ''u1'', tp_task = 2, tp_period = Day 6, tp_current = 5, tp_completed = False,
          tp_claimed = False, tp_completed_at = None\<rparr>;
        w = sample_task_world\<lparr>now := 6 * 24 * hour, db := (db sample_task_world)\<lparr>task_progresses := [old, new]\<rparr>\<rparr>;
        shown = (\<lambda>ord. case fst (task_Progress (\<lambda>ps. ps) ord ''u1'' w) of
            Inl e \<Rightarrow> [] | Inr ps \<Rightarrow> map pi_current (filter (\<lambda>x. pi_task x = 2) ps))
    in shown (\<lambda>prs. prs) \<noteq> shown rev)"
  by code_simp

end
