(* ===== verification/AccountLock.thy ===== *)
theory AccountLock
  imports L2Cache
begin

text \<open>
  The store of failed logins: the Redis implementation of \<open>internal/cache/manager.go\<close>, which
  counts and locks in one script on one hash, and the in-process implementation of
  \<open>internal/service/auth/account_lock.go\<close>. Both provide the contract \<open>account_locks\<close>; the last
  section shows where they differ. \<open>digest\<close> is the hexadecimal SHA-256 of an email.
\<close>

section \<open>Redis\<close>

definition accountLockKey :: "(string \<Rightarrow> string) \<Rightarrow> string \<Rightarrow> string" where
  "accountLockKey digest email = ''{login:fail:'' @ digest email @ ''}''"

definition no_l2 :: gerr where
  "no_l2 = Sentinel ''L2 cache not available''"

definition is_hash_key :: "world \<Rightarrow> string \<Rightarrow> bool" where
  "is_hash_key w k = (case rget w k of None \<Rightarrow> True | Some (RHash h) \<Rightarrow> True | _ \<Rightarrow> False)"

text \<open>The script; a time to live is in whole seconds, and one of zero deletes the key.\<close>

definition record_failure_script :: "string \<Rightarrow> int \<Rightarrow> int \<Rightarrow> instant \<Rightarrow> int \<Rightarrow> world \<Rightarrow> (int \<times> bool) \<times> world" where
  "record_failure_script k countTTL maxFailures lockAt lockTTL w =
     (let c = hash_count w k ''count'' + 1;
          w1 = rput k (RHash ((hash_of w k)(''count'' \<mapsto> c))) w;
          w2 = (if c = 1 then rexpire k (countTTL * second) w1 else w1);
          locked = (maxFailures > 0 \<and> c \<ge> maxFailures);
          w3 = (if locked then rexpire k (lockTTL * second) (rput k (RHash ((hash_of w2 k)(''lock'' \<mapsto> lockAt))) w2) else w2)
      in ((c, locked), w3))"

definition redis_RecordFailure ::
  "(string \<Rightarrow> string) \<Rightarrow> string \<Rightarrow> int \<Rightarrow> duration \<Rightarrow> duration \<Rightarrow> (world, int \<times> bool) io" where
  "redis_RecordFailure digest email maxFailures countTTL lockTTL =
     bind_io (gets_io redis_on) (\<lambda>on.
       if \<not> on then throw no_l2
       else ext ''redis record failure'' (\<lambda>w.
         let k = l2Key w (accountLockKey digest email) in
         if \<not> is_hash_key w k then (Inl wrongtype, w)
         else case record_failure_script k (seconds_of countTTL) maxFailures (now w + lockTTL) (seconds_of lockTTL) w of
                (r, w') \<Rightarrow> (Inr r, w')))"

definition redis_hget :: "(string \<Rightarrow> string) \<Rightarrow> string \<Rightarrow> string \<Rightarrow> (world, int option) io" where
  "redis_hget digest email field =
     bind_io (gets_io redis_on) (\<lambda>on.
       if \<not> on then throw no_l2
       else ext ''redis hget'' (\<lambda>w.
         let k = l2Key w (accountLockKey digest email) in
         if is_hash_key w k then (Inr (hash_of w k field), w) else (Inl wrongtype, w)))"

definition redis_GetFailureCount :: "(string \<Rightarrow> string) \<Rightarrow> string \<Rightarrow> (world, int) io" where
  "redis_GetFailureCount digest email =
     bind_io (redis_hget digest email ''count'') (\<lambda>n. ret (case n of None \<Rightarrow> 0 | Some c \<Rightarrow> c))"

definition redis_GetLockUntil :: "(string \<Rightarrow> string) \<Rightarrow> string \<Rightarrow> (world, instant option) io" where
  "redis_GetLockUntil digest email =
     bind_io (redis_hget digest email ''lock'') (\<lambda>n.
       case n of
         None \<Rightarrow> ret None
       | Some until \<Rightarrow> bind_io time_now (\<lambda>t. ret (if until < t then None else Some until)))"

definition redis_Clear :: "(string \<Rightarrow> string) \<Rightarrow> string \<Rightarrow> (world, unit) io" where
  "redis_Clear digest email =
     bind_io (gets_io redis_on) (\<lambda>on.
       if \<not> on then throw no_l2
       else ext ''redis del'' (\<lambda>w. (Inr (), rdel (l2Key w (accountLockKey digest email)) w)))"

section \<open>In the process\<close>

definition mem_entry :: "world \<Rightarrow> string \<Rightarrow> login_fail_entry" where
  "mem_entry w email = (case mem_locks w email of
     Some e \<Rightarrow> e | None \<Rightarrow> \<lparr>lf_count = 0, lf_until = None, lf_seen = 0\<rparr>)"

definition mem_GetFailureCount :: "string \<Rightarrow> (world, int) io" where
  "mem_GetFailureCount email = gets_io (\<lambda>w. lf_count (mem_entry w email))"

definition mem_record :: "string \<Rightarrow> int \<Rightarrow> duration \<Rightarrow> world \<Rightarrow> (int \<times> bool) \<times> world" where
  "mem_record email maxFailures lockTTL w =
     (let e = mem_entry w email;
          c = lf_count e + 1;
          locked = (maxFailures > 0 \<and> c \<ge> maxFailures);
          e' = \<lparr>lf_count = c, lf_until = (if locked then Some (now w + lockTTL) else lf_until e), lf_seen = now w\<rparr>
      in ((c, locked), w\<lparr>mem_locks := (mem_locks w)(email \<mapsto> e')\<rparr>))"

definition mem_RecordFailure :: "string \<Rightarrow> int \<Rightarrow> duration \<Rightarrow> duration \<Rightarrow> (world, int \<times> bool) io" where
  "mem_RecordFailure email maxFailures countTTL lockTTL w =
     (case mem_record email maxFailures lockTTL w of (r, w') \<Rightarrow> (Inr r, w'))"

definition mem_GetLockUntil :: "string \<Rightarrow> (world, instant option) io" where
  "mem_GetLockUntil email = gets_io (\<lambda>w.
     case lf_until (mem_entry w email) of
       Some t \<Rightarrow> if now w < t then Some t else None
     | None \<Rightarrow> None)"

definition mem_Clear :: "string \<Rightarrow> (world, unit) io" where
  "mem_Clear email = modify_io (\<lambda>w. w\<lparr>mem_locks := (mem_locks w)(email := None)\<rparr>)"

text \<open>One tick of the cleanup.\<close>

definition mem_cleanup :: "world \<Rightarrow> world" where
  "mem_cleanup w = w\<lparr>mem_locks := (\<lambda>email. case mem_locks w email of
       None \<Rightarrow> None
     | Some e \<Rightarrow>
         let expired = (case lf_until e of None \<Rightarrow> True | Some t \<Rightarrow> now w > t)
         in if expired \<and> now w - lf_seen e > hour then None else Some e)\<rparr>"

section \<open>The contract\<close>

text \<open>
  What the login relies on, for the calls that reach the store: \<open>count_of\<close> is the counter and
  \<open>until_of\<close> the answer of \<open>GetLockUntil\<close>. A lock holds until its whole seconds are over.
\<close>

definition held :: "(world \<Rightarrow> string \<Rightarrow> instant option) \<Rightarrow> world \<Rightarrow> string \<Rightarrow> bool" where
  "held until_of w email = (case until_of w email of None \<Rightarrow> False | Some u \<Rightarrow> now w < u)"

locale account_locks =
  fixes usable :: "world \<Rightarrow> string \<Rightarrow> bool"
    and count_of :: "world \<Rightarrow> string \<Rightarrow> int"
    and until_of :: "world \<Rightarrow> string \<Rightarrow> instant option"
    and record_at :: "string \<Rightarrow> int \<Rightarrow> duration \<Rightarrow> duration \<Rightarrow> world \<Rightarrow> (int \<times> bool) \<times> world"
    and clear_at :: "string \<Rightarrow> world \<Rightarrow> world"
  assumes record_keeps: "usable w e \<Longrightarrow> second \<le> countTTL \<Longrightarrow> second \<le> lockTTL \<Longrightarrow>
      usable (snd (record_at e n countTTL lockTTL w)) e \<and> now (snd (record_at e n countTTL lockTTL w)) = now w"
    and record_counts: "usable w e \<Longrightarrow> second \<le> countTTL \<Longrightarrow> second \<le> lockTTL \<Longrightarrow>
      fst (record_at e n countTTL lockTTL w) = (count_of w e + 1, 0 < n \<and> n \<le> count_of w e + 1) \<and>
      count_of (snd (record_at e n countTTL lockTTL w)) e = count_of w e + 1"
    and record_locks: "usable w e \<Longrightarrow> second \<le> countTTL \<Longrightarrow> second \<le> lockTTL \<Longrightarrow> 0 < n \<Longrightarrow> n \<le> count_of w e + 1 \<Longrightarrow>
      now w \<le> t \<Longrightarrow> t < now w + seconds_of lockTTL * second \<Longrightarrow>
      held until_of ((snd (record_at e n countTTL lockTTL w))\<lparr>now := t\<rparr>) e"
    and clear_forgets: "usable w e \<Longrightarrow> count_of (clear_at e w) e = 0 \<and> \<not> held until_of (clear_at e w) e"
begin

primrec failures :: "nat \<Rightarrow> string \<Rightarrow> int \<Rightarrow> duration \<Rightarrow> duration \<Rightarrow> world \<Rightarrow> world" where
  "failures 0 e n countTTL lockTTL w = w"
| "failures (Suc k) e n countTTL lockTTL w = snd (record_at e n countTTL lockTTL (failures k e n countTTL lockTTL w))"

lemma failures_count:
  assumes "usable w e" and "second \<le> countTTL" and "second \<le> lockTTL"
  shows "usable (failures k e n countTTL lockTTL w) e \<and> now (failures k e n countTTL lockTTL w) = now w \<and>
    count_of (failures k e n countTTL lockTTL w) e = count_of w e + int k"
  by (induction k) (use assms record_keeps record_counts in auto)

lemma failures_lock:
  assumes "usable w e" and "second \<le> countTTL" and "second \<le> lockTTL" and "0 < n" and "n \<le> count_of w e + int k" and "0 < k"
    and "now w \<le> t" and "t < now w + seconds_of lockTTL * second"
  shows "held until_of ((failures k e n countTTL lockTTL w)\<lparr>now := t\<rparr>) e"
proof -
  obtain j where k: "k = Suc j" using assms(6) by (cases k) auto
  note f = failures_count [OF assms(1-3), of j n]
  show ?thesis unfolding k failures.simps
    by (rule record_locks) (use f assms(2-5,7,8) k in auto)
qed

end

section \<open>Both stores provide it\<close>

lemma seconds_of_pos: "second \<le> d \<Longrightarrow> 1 \<le> seconds_of d"
  by (simp add: seconds_of_def second_def go_div_nonneg)

lemma whole_seconds_le: "second \<le> d \<Longrightarrow> seconds_of d * second \<le> d"
  by (simp add: seconds_of_def second_def go_div_nonneg)

definition redis_count :: "(string \<Rightarrow> string) \<Rightarrow> world \<Rightarrow> string \<Rightarrow> int" where
  "redis_count digest w e = hash_count w (l2Key w (accountLockKey digest e)) ''count''"

definition redis_until :: "(string \<Rightarrow> string) \<Rightarrow> world \<Rightarrow> string \<Rightarrow> instant option" where
  "redis_until digest w e = (case hash_of w (l2Key w (accountLockKey digest e)) ''lock'' of
     None \<Rightarrow> None | Some u \<Rightarrow> if u < now w then None else Some u)"

definition redis_record :: "(string \<Rightarrow> string) \<Rightarrow> string \<Rightarrow> int \<Rightarrow> duration \<Rightarrow> duration \<Rightarrow> world \<Rightarrow> (int \<times> bool) \<times> world" where
  "redis_record digest e n countTTL lockTTL w =
     record_failure_script (l2Key w (accountLockKey digest e)) (seconds_of countTTL) n (now w + lockTTL) (seconds_of lockTTL) w"

definition redis_forget :: "(string \<Rightarrow> string) \<Rightarrow> string \<Rightarrow> world \<Rightarrow> world" where
  "redis_forget digest e w = rdel (l2Key w (accountLockKey digest e)) w"

definition mem_until :: "world \<Rightarrow> string \<Rightarrow> instant option" where
  "mem_until w e = (case lf_until (mem_entry w e) of Some t \<Rightarrow> if now w < t then Some t else None | None \<Rightarrow> None)"

lemma script_frame:
  "key_prefix (snd (record_failure_script k ct n la lt w)) = key_prefix w"
  "now (snd (record_failure_script k ct n la lt w)) = now w"
  by (simp_all add: record_failure_script_def Let_def)

lemma script_hash:
  assumes "0 < ct" and "0 < lt"
  shows "hash_of (snd (record_failure_script k ct n la lt w)) k =
    (let h = (hash_of w k)(''count'' \<mapsto> hash_count w k ''count'' + 1)
     in if 0 < n \<and> n \<le> hash_count w k ''count'' + 1 then h(''lock'' \<mapsto> la) else h)"
  using assms
  by (auto simp: record_failure_script_def Let_def hash_of_def rget_def second_def split: if_splits)

lemma live_until:
  assumes "live w k = Some e" and "re_expire e = Some x" and "t < x"
  shows "live (w\<lparr>now := t\<rparr>) k = Some e"
  using assms by (auto simp: live_def split: option.splits if_splits)

lemma script_expiry:
  assumes "0 < lt" and "0 < n" and "n \<le> hash_count w k ''count'' + 1"
  shows "\<exists>e. live (snd (record_failure_script k ct n la lt w)) k = Some e \<and> re_expire e = Some (now w + lt * second)"
proof -
  define v where "v = snd (record_failure_script k ct n la lt w)"
  have "0 < lt * second" using assms(1) by (simp add: second_def)
  moreover obtain u h where "v = rexpire k (lt * second) (rput k h u)" "now u = now w"
    using assms(2,3) unfolding v_def record_failure_script_def Let_def by (cases "hash_count w k ''count'' + 1 = 1") auto
  ultimately show ?thesis unfolding v_def [symmetric] by simp
qed

lemma script_lives:
  assumes "0 < lt" and "0 < n" and "n \<le> hash_count w k ''count'' + 1" and "t < now w + lt * second"
  shows "rget ((snd (record_failure_script k ct n la lt w))\<lparr>now := t\<rparr>) k =
    rget (snd (record_failure_script k ct n la lt w)) k"
  using script_expiry [OF assms(1-3), of ct la] live_until assms(4) by (fastforce simp: rget_def)

lemma hash_count_of: "hash_count w k f = (case hash_of w k f of None \<Rightarrow> 0 | Some n \<Rightarrow> n)"
  by (simp add: hash_count_def hash_of_def split: option.splits rval.splits)

definition redis_usable :: "(string \<Rightarrow> string) \<Rightarrow> world \<Rightarrow> string \<Rightarrow> bool" where
  "redis_usable digest w e \<longleftrightarrow> redis_on w \<and> faults w = [] \<and> is_hash_key w (l2Key w (accountLockKey digest e))"

lemma script_usable:
  "redis_on (snd (record_failure_script k ct n la lt w)) = redis_on w"
  "faults (snd (record_failure_script k ct n la lt w)) = faults w"
  by (simp_all add: record_failure_script_def Let_def)

lemma script_is_hash:
  assumes "0 < ct" and "0 < lt"
  shows "is_hash_key (snd (record_failure_script k ct n la lt w)) k"
  using assms by (auto simp: record_failure_script_def Let_def is_hash_key_def rget_def second_def)

interpretation redis_locks: account_locks "redis_usable digest" "redis_count digest" "redis_until digest" "redis_record digest"
    "redis_forget digest" for digest
proof unfold_locales
  fix w e n countTTL lockTTL
  assume u: "redis_usable digest w e"
  let ?k = "l2Key w (accountLockKey digest e)" and ?w' = "snd (redis_record digest e n countTTL lockTTL w)"
  assume ttl: "second \<le> countTTL" "second \<le> lockTTL"
  have pos: "0 < seconds_of countTTL" "0 < seconds_of lockTTL" using seconds_of_pos ttl by force+
  have k': "l2Key ?w' key = l2Key w key" for key by (simp add: l2Key_def redis_record_def script_frame)
  show "redis_usable digest ?w' e \<and> now ?w' = now w"
    using u script_is_hash [OF pos] unfolding redis_usable_def k'
    by (simp add: redis_record_def script_frame script_usable)
  show "fst (redis_record digest e n countTTL lockTTL w) =
      (redis_count digest w e + 1, 0 < n \<and> n \<le> redis_count digest w e + 1) \<and>
    redis_count digest ?w' e = redis_count digest w e + 1"
    unfolding redis_count_def k' by (simp add: redis_record_def hash_count_of script_hash pos)
      (simp add: record_failure_script_def Let_def hash_count_of)
  fix t
  assume n: "0 < n" "n \<le> redis_count digest w e + 1" and t: "now w \<le> t" "t < now w + seconds_of lockTTL * second"
  have "rget (?w'\<lparr>now := t\<rparr>) ?k = rget ?w' ?k"
    unfolding redis_record_def by (rule script_lives) (use pos n t in \<open>simp_all add: redis_count_def\<close>)
  then have "hash_of (?w'\<lparr>now := t\<rparr>) ?k = hash_of ?w' ?k" by (simp add: hash_of_def)
  moreover have "hash_of ?w' ?k ''lock'' = Some (now w + lockTTL)"
    using n by (simp add: redis_record_def script_hash pos redis_count_def)
  moreover have "t < now w + lockTTL" using t(2) whole_seconds_le [OF ttl(2)] by simp
  ultimately show "held (redis_until digest) (?w'\<lparr>now := t\<rparr>) e"
    by (simp add: held_def redis_until_def k')
next
  fix w e
  show "redis_count digest (redis_forget digest e w) e = 0 \<and> \<not> held (redis_until digest) (redis_forget digest e w) e"
    by (simp add: redis_forget_def redis_count_def held_def redis_until_def hash_count_def hash_of_def)
qed

interpretation memory_locks: account_locks "\<lambda>w e. True" "\<lambda>w e. lf_count (mem_entry w e)" mem_until
    "\<lambda>e n countTTL lockTTL. mem_record e n lockTTL" "\<lambda>e w. w\<lparr>mem_locks := (mem_locks w)(e := None)\<rparr>"
proof unfold_locales
  fix w e n countTTL lockTTL t
  assume "second \<le> lockTTL" and "t < now w + seconds_of lockTTL * second" and "0 < n" and "n \<le> lf_count (mem_entry w e) + 1"
  then show "held mem_until ((snd (mem_record e n lockTTL w))\<lparr>now := t\<rparr>) e"
    using whole_seconds_le [of lockTTL] by (simp add: mem_record_def held_def mem_until_def mem_entry_def Let_def)
qed (simp_all add: mem_record_def mem_entry_def held_def mem_until_def Let_def)

section \<open>The store of the service\<close>

text \<open>\<open>initLockStore\<close>: the cache manager when it has Redis, else the process.\<close>

definition RecordFailure ::
  "bool \<Rightarrow> (string \<Rightarrow> string) \<Rightarrow> string \<Rightarrow> int \<Rightarrow> duration \<Rightarrow> duration \<Rightarrow> (world, int \<times> bool) io" where
  "RecordFailure in_redis digest email n countTTL lockTTL =
     (if in_redis then redis_RecordFailure digest email n countTTL lockTTL else mem_RecordFailure email n countTTL lockTTL)"

definition GetLockUntil :: "bool \<Rightarrow> (string \<Rightarrow> string) \<Rightarrow> string \<Rightarrow> (world, instant option) io" where
  "GetLockUntil in_redis digest email = (if in_redis then redis_GetLockUntil digest email else mem_GetLockUntil email)"

definition Clear :: "bool \<Rightarrow> (string \<Rightarrow> string) \<Rightarrow> string \<Rightarrow> (world, unit) io" where
  "Clear in_redis digest email = (if in_redis then redis_Clear digest email else mem_Clear email)"

definition lock_usable :: "bool \<Rightarrow> (string \<Rightarrow> string) \<Rightarrow> world \<Rightarrow> string \<Rightarrow> bool" where
  "lock_usable in_redis digest w e \<longleftrightarrow> (if in_redis then redis_usable digest w e else True)"

definition failures_so_far :: "bool \<Rightarrow> (string \<Rightarrow> string) \<Rightarrow> world \<Rightarrow> string \<Rightarrow> int" where
  "failures_so_far in_redis digest w e = (if in_redis then redis_count digest w e else lf_count (mem_entry w e))"

definition is_held :: "bool \<Rightarrow> (string \<Rightarrow> string) \<Rightarrow> world \<Rightarrow> string \<Rightarrow> bool" where
  "is_held in_redis digest w e = (if in_redis then held (redis_until digest) w e else held mem_until w e)"

text \<open>\<open>k\<close> failed logins in a row.\<close>

primrec fail_times ::
  "nat \<Rightarrow> bool \<Rightarrow> (string \<Rightarrow> string) \<Rightarrow> string \<Rightarrow> int \<Rightarrow> duration \<Rightarrow> duration \<Rightarrow> world \<Rightarrow> world" where
  "fail_times 0 r g e n countTTL lockTTL w = w"
| "fail_times (Suc k) r g e n countTTL lockTTL w =
     snd (RecordFailure r g e n countTTL lockTTL (fail_times k r g e n countTTL lockTTL w))"

lemma RecordFailure_run:
  assumes "lock_usable r digest w e"
  shows "RecordFailure r digest e n ct lt w =
    (if r then (Inr (fst (redis_record digest e n ct lt w)), snd (redis_record digest e n ct lt w))
     else (Inr (fst (mem_record e n lt w)), snd (mem_record e n lt w)))"
  using assms
  by (auto simp: RecordFailure_def lock_usable_def redis_usable_def redis_RecordFailure_def redis_record_def
      mem_RecordFailure_def bind_io_def gets_io_def Let_def split: prod.splits)

lemma GetLockUntil_run:
  assumes "lock_usable r digest w e"
  shows "fst (GetLockUntil r digest e w) = Inr (if r then redis_until digest w e else mem_until w e)"
  using assms
  by (auto simp: GetLockUntil_def lock_usable_def redis_usable_def redis_GetLockUntil_def redis_hget_def redis_until_def
      mem_GetLockUntil_def mem_until_def bind_io_def gets_io_def time_now_def ret_def Let_def split: option.splits)

lemma fail_times_eq:
  assumes "lock_usable r digest w e" and "second \<le> ct" and "second \<le> lt"
  shows "fail_times k r digest e n ct lt w =
    (if r then redis_locks.failures digest k e n ct lt w else memory_locks.failures k e n ct lt w)"
proof (induction k)
  case (Suc k)
  have "lock_usable r digest (fail_times k r digest e n ct lt w) e"
    using Suc assms redis_locks.failures_count [of digest w e ct lt k n] by (auto simp: lock_usable_def)
  then show ?case using Suc by (simp add: RecordFailure_run)
qed simp

text \<open>C38. Whichever store is used, a run of failed logins that brings the counter to the limit locks
  the account: until the seconds of the lock are over the store names a later time.\<close>

theorem failures_lock_account:
  assumes "lock_usable r digest w e" and "second \<le> ct" and "second \<le> lt" and "0 < n" and "0 < k"
    and "n \<le> failures_so_far r digest w e + int k"
    and "now w \<le> t" and "t < now w + seconds_of lt * second"
  shows "is_held r digest ((fail_times k r digest e n ct lt w)\<lparr>now := t\<rparr>) e"
proof (cases r)
  case True
  have "held (redis_until digest) ((redis_locks.failures digest k e n ct lt w)\<lparr>now := t\<rparr>) e"
    by (rule redis_locks.failures_lock) (use assms True in \<open>auto simp: lock_usable_def failures_so_far_def\<close>)
  then show ?thesis using True fail_times_eq [OF assms(1-3), of k n] by (simp add: is_held_def)
next
  case False
  have "held mem_until ((memory_locks.failures k e n ct lt w)\<lparr>now := t\<rparr>) e"
    by (rule memory_locks.failures_lock) (use assms False in \<open>auto simp: failures_so_far_def\<close>)
  then show ?thesis using False fail_times_eq [OF assms(1-3), of k n] by (simp add: is_held_def)
qed

definition sample_digest :: "string \<Rightarrow> string" where
  "sample_digest e = e"

theorem failures_lock_account_witness:
  "is_held True sample_digest ((fail_times 3 True sample_digest ''a'' 3 (2 * hour) hour empty_world)\<lparr>now := minute\<rparr>) ''a''"
proof (rule failures_lock_account)
  show "lock_usable True sample_digest empty_world ''a''"
    by (simp add: lock_usable_def redis_usable_def empty_world_def is_hash_key_def rget_def live_def)
  show "3 \<le> failures_so_far True sample_digest empty_world ''a'' + int 3"
    by (simp add: failures_so_far_def redis_count_def hash_count_def rget_def live_def empty_world_def)
qed (simp_all add: second_def hour_def minute_def seconds_of_def go_div_def empty_world_def)

text \<open>The stores differ once a lock is over: in Redis the counter went with the lock, and the next
  failure is the first again; in the process the counter is still there, and the next failure
  locks the account again.\<close>

theorem stores_differ_after_a_lock:
  assumes "1 < n" and "second \<le> ct" and "second \<le> lt"
    and "n \<le> redis_count digest w e + 1" and "n \<le> lf_count (mem_entry w e) + 1"
    and "now w + seconds_of lt * second \<le> t"
  shows "fst (redis_record digest e n ct lt ((snd (redis_record digest e n ct lt w))\<lparr>now := t\<rparr>)) = (1, False) \<and>
    snd (fst (mem_record e n lt ((snd (mem_record e n lt w))\<lparr>now := t\<rparr>)))"
proof
  let ?k = "l2Key w (accountLockKey digest e)" and ?w' = "snd (redis_record digest e n ct lt w)"
  have "0 < seconds_of lt" using seconds_of_pos [OF assms(3)] by simp
  then obtain x where "live ?w' ?k = Some x" "re_expire x = Some (now w + seconds_of lt * second)"
    using script_expiry [of "seconds_of lt" n w ?k] assms(1,4) by (auto simp: redis_record_def redis_count_def)
  then have "live (?w'\<lparr>now := t\<rparr>) ?k = None"
    using assms(6) by (auto simp: live_def split: option.splits if_splits)
  moreover have "l2Key (?w'\<lparr>now := t\<rparr>) key = l2Key w key" for key
    by (simp add: l2Key_def redis_record_def script_frame)
  ultimately show "fst (redis_record digest e n ct lt (?w'\<lparr>now := t\<rparr>)) = (1, False)"
    using assms(1) by (simp add: redis_record_def [of _ _ _ _ _ "?w'\<lparr>now := t\<rparr>"] record_failure_script_def Let_def
        hash_count_def rget_def)
  show "snd (fst (mem_record e n lt ((snd (mem_record e n lt w))\<lparr>now := t\<rparr>)))"
    using assms(1,5) by (simp add: mem_record_def mem_entry_def Let_def)
qed

definition locked_twice :: world where
  "locked_twice = fail_times 1 False sample_digest ''a'' 2 (2 * hour) hour
     (fail_times 1 True sample_digest ''a'' 2 (2 * hour) hour empty_world)"

theorem stores_differ_after_a_lock_witness:
  "fst (redis_record sample_digest ''a'' 2 (2 * hour) hour
      ((snd (redis_record sample_digest ''a'' 2 (2 * hour) hour locked_twice))\<lparr>now := 2 * hour\<rparr>)) = (1, False) \<and>
    snd (fst (mem_record ''a'' 2 hour ((snd (mem_record ''a'' 2 hour locked_twice))\<lparr>now := 2 * hour\<rparr>)))"
proof (rule stores_differ_after_a_lock)
  show "2 \<le> redis_count sample_digest locked_twice ''a'' + 1" "2 \<le> lf_count (mem_entry locked_twice ''a'') + 1"
    "now locked_twice + seconds_of hour * second \<le> 2 * hour"
    by code_simp+
qed (simp_all add: second_def hour_def)

end
