(* ===== verification/Token.thy ===== *)
theory Token
  imports L2Cache GoText
begin

text \<open>
  Tokens: \<open>pkg/jwt/jwt.go\<close>, \<open>internal/service/auth/jwt.go\<close>, the blacklist of
  \<open>internal/cache/manager.go\<close> and the middleware of \<open>internal/middleware/auth.go\<close>. Signing and
  parsing are the golang-jwt library's, a parameter; so are the keys, which the code only passes
  on.
\<close>

section \<open>Claims and keys\<close>

record claims =
  cl_user :: string
  cl_email :: string
  cl_issuer :: string
  cl_subject :: string
  cl_issued :: "instant option"
  cl_expires :: "instant option"
  cl_id :: string

datatype sign_method = MethodHMAC | MethodRSA | MethodOther string

datatype jwt_key = HmacKey string | RsaPrivate string | RsaPublic string

record jwt_manager =
  jm_algorithm :: string
  jm_signing_key :: string
  jm_private :: string
  jm_public :: string
  jm_issuer :: string
  jm_access_ttl :: duration
  jm_refresh_ttl :: duration

text \<open>The library: \<open>SignedString\<close>, and \<open>ParseWithClaims\<close> with the claims and \<open>token.Valid\<close>.\<close>

record jwt_library =
  jl_sign :: "sign_method \<Rightarrow> jwt_key \<Rightarrow> claims \<Rightarrow> gerr + string"
  jl_parse :: "instant \<Rightarrow> string \<Rightarrow> (sign_method \<Rightarrow> gerr + jwt_key) \<Rightarrow> gerr + claims \<times> bool"

text \<open>\<open>NewManager\<close>; \<open>loaded\<close> is what reading the key files gives.\<close>

definition NewManager ::
  "string \<Rightarrow> string \<Rightarrow> gerr + string \<times> string \<Rightarrow> string \<Rightarrow> duration \<Rightarrow> duration \<Rightarrow> gerr + jwt_manager" where
  "NewManager alg key loaded issuer accessTTL refreshTTL =
     (let m = \<lparr>jm_algorithm = alg, jm_signing_key = key, jm_private = [], jm_public = [], jm_issuer = issuer,
        jm_access_ttl = accessTTL, jm_refresh_ttl = refreshTTL\<rparr>
      in if alg = ''RS256'' then
           (case loaded of Inl e \<Rightarrow> Inl e | Inr (priv, pub) \<Rightarrow> Inr (m\<lparr>jm_private := priv, jm_public := pub\<rparr>))
         else Inr m)"

definition NewNumericDate :: "instant \<Rightarrow> instant" where
  "NewNumericDate t = t - t mod second"

definition make_claims :: "jwt_manager \<Rightarrow> string \<Rightarrow> string \<Rightarrow> duration \<Rightarrow> string \<Rightarrow> instant \<Rightarrow> claims" where
  "make_claims m user email ttl pre t = \<lparr>cl_user = user, cl_email = email, cl_issuer = jm_issuer m,
     cl_subject = user, cl_issued = Some (NewNumericDate t), cl_expires = Some (NewNumericDate (t + ttl)),
     cl_id = pre @ user @ ''-'' @ show_int t\<rparr>"

definition sign_method_of :: "jwt_manager \<Rightarrow> sign_method" where
  "sign_method_of m = (if jm_algorithm m = ''RS256'' then MethodRSA else MethodHMAC)"

definition sign_key_of :: "jwt_manager \<Rightarrow> jwt_key" where
  "sign_key_of m = (if jm_algorithm m = ''RS256'' then RsaPrivate (jm_private m) else HmacKey (jm_signing_key m))"

definition jwt_sign :: "jwt_library \<Rightarrow> jwt_manager \<Rightarrow> claims \<Rightarrow> gerr + string" where
  "jwt_sign lib m c = jl_sign lib (sign_method_of m) (sign_key_of m) c"

definition keyFunc :: "jwt_manager \<Rightarrow> sign_method \<Rightarrow> gerr + jwt_key" where
  "keyFunc m meth =
     (if jm_algorithm m = ''RS256'' then
        (if meth \<noteq> MethodRSA then Inl (Sentinel ''unexpected signing method'') else Inr (RsaPublic (jm_public m)))
      else if meth \<noteq> MethodHMAC then Inl (Sentinel ''unexpected signing method'')
      else Inr (HmacKey (jm_signing_key m)))"

definition GenerateAccessToken :: "jwt_library \<Rightarrow> jwt_manager \<Rightarrow> string \<Rightarrow> string \<Rightarrow> instant \<Rightarrow> gerr + string" where
  "GenerateAccessToken lib m user email t = jwt_sign lib m (make_claims m user email (jm_access_ttl m) [] t)"

definition GenerateRefreshToken :: "jwt_library \<Rightarrow> jwt_manager \<Rightarrow> string \<Rightarrow> string \<Rightarrow> instant \<Rightarrow> gerr + string" where
  "GenerateRefreshToken lib m user email t = jwt_sign lib m (make_claims m user email (jm_refresh_ttl m) ''refresh-'' t)"

definition GenerateTokenPair ::
  "jwt_library \<Rightarrow> jwt_manager \<Rightarrow> string \<Rightarrow> string \<Rightarrow> instant \<Rightarrow> gerr + string \<times> string" where
  "GenerateTokenPair lib m user email t =
     (case GenerateAccessToken lib m user email t of
        Inl e \<Rightarrow> Inl e
      | Inr access \<Rightarrow>
          (case GenerateRefreshToken lib m user email t of
             Inl e \<Rightarrow> Inl e
           | Inr refresh \<Rightarrow> Inr (access, refresh)))"

definition ValidateToken :: "jwt_library \<Rightarrow> jwt_manager \<Rightarrow> instant \<Rightarrow> string \<Rightarrow> gerr + claims" where
  "ValidateToken lib m t tok =
     (case jl_parse lib t tok (keyFunc m) of
        Inl e \<Rightarrow> Inl (Wrap ''parse token'' e)
      | Inr (c, valid) \<Rightarrow> if valid then Inr c else Inl (Sentinel ''invalid token''))"

section \<open>The manager of the service\<close>

text \<open>\<open>None\<close>: \<open>InitJWT\<close> has not run. The validator it installs keeps two fields of the claims.\<close>

definition no_manager :: gerr where
  "no_manager = Sentinel ''jwt manager not initialized''"

definition jwtGenerate :: "jwt_library \<Rightarrow> jwt_manager option \<Rightarrow> string \<Rightarrow> string \<Rightarrow> instant \<Rightarrow> gerr + string \<times> string" where
  "jwtGenerate lib mgr user email t =
     (case mgr of None \<Rightarrow> Inl no_manager | Some m \<Rightarrow> GenerateTokenPair lib m user email t)"

definition jwtValidate :: "jwt_library \<Rightarrow> jwt_manager option \<Rightarrow> instant \<Rightarrow> string \<Rightarrow> gerr + claims" where
  "jwtValidate lib mgr t tok = (case mgr of None \<Rightarrow> Inl no_manager | Some m \<Rightarrow> ValidateToken lib m t tok)"

definition user_and_email :: "claims \<Rightarrow> claims" where
  "user_and_email c = \<lparr>cl_user = cl_user c, cl_email = cl_email c, cl_issuer = [], cl_subject = [],
     cl_issued = None, cl_expires = None, cl_id = []\<rparr>"

type_synonym validator = "(instant \<Rightarrow> string \<Rightarrow> gerr + claims) option"

definition InitJWT :: "jwt_library \<Rightarrow> jwt_manager option \<Rightarrow> validator" where
  "InitJWT lib mgr = (case mgr of
     None \<Rightarrow> None
   | Some m \<Rightarrow> Some (\<lambda>t tok. case ValidateToken lib m t tok of Inl e \<Rightarrow> Inl e | Inr c \<Rightarrow> Inr (user_and_email c)))"

section \<open>The blacklist\<close>

definition blacklistKey :: "string \<Rightarrow> string" where
  "blacklistKey jti = ''jwt:blacklist:'' @ jti"

definition IsBlacklisted :: "string \<Rightarrow> (world, bool) io" where
  "IsBlacklisted jti = bind_io (gets_io redis_on) (\<lambda>on. if \<not> on then ret False else l2_exists (blacklistKey jti))"

definition IsBlacklistedMulti :: "string list \<Rightarrow> (world, bool list) io" where
  "IsBlacklistedMulti jtis = bind_io (gets_io redis_on) (\<lambda>on.
     if \<not> on then ret (map (\<lambda>_. False) jtis) else l2_batch_exists (map blacklistKey jtis))"

definition AddBlacklist :: "string \<Rightarrow> duration \<Rightarrow> (world, unit) io" where
  "AddBlacklist jti ttl = bind_io (gets_io redis_on) (\<lambda>on.
     if \<not> on then throw (Sentinel ''L2 cache not available'')
     else bind_io time_now (\<lambda>t. l2_set (blacklistKey jti) (Some (CInt (unix_seconds t))) ttl))"

section \<open>The middleware\<close>

text \<open>\<open>strings.Cut(s, " ")\<close>.\<close>

primrec cut_space :: "string \<Rightarrow> (string \<times> string) option" where
  "cut_space [] = None"
| "cut_space (c # cs) =
     (if c = CHR '' '' then Some ([], cs) else map_option (\<lambda>(a, b). (c # a, b)) (cut_space cs))"

definition bearer :: "string \<Rightarrow> string" where
  "bearer header = (case cut_space header of
     Some (scheme, rest) \<Rightarrow> if EqualFold scheme ''Bearer'' then rest else header
   | None \<Rightarrow> header)"

record session =
  se_user :: string
  se_email :: string
  se_jti :: string
  se_expires :: "instant option"

datatype auth_outcome = Rejected int | Anonymous | Authenticated session

definition is_expired_error :: "world \<Rightarrow> gerr \<Rightarrow> bool" where
  "is_expired_error w e \<longleftrightarrow> errors_is e ''token is expired'' \<or> sublist ''expired'' (error_text (fault_text w) e)"

text \<open>The keys looked up and what an answer means for them: \<open>Some n\<close> rejects with code \<open>n\<close>.\<close>

definition blacklist_keys :: "bool \<Rightarrow> claims \<Rightarrow> string list" where
  "blacklist_keys enabled c =
     (if cl_id c \<noteq> [] then [cl_id c] else []) @ (if enabled then [''pwd_change:'' @ cl_user c] else [])"

definition blacklist_verdict :: "bool \<Rightarrow> claims \<Rightarrow> bool list \<Rightarrow> int option" where
  "blacklist_verdict enabled c existed =
     (let pwd = (if cl_id c \<noteq> [] then 1 else 0)
      in if cl_id c \<noteq> [] \<and> existed ! 0 then Some 10104
         else if enabled \<and> existed ! pwd \<and> cl_issued c \<noteq> None then Some 10104
         else None)"

definition check_blacklist :: "bool \<Rightarrow> bool \<Rightarrow> claims \<Rightarrow> (world, int option) io" where
  "check_blacklist checker_on enabled c =
     (let keys = blacklist_keys enabled c in
      if \<not> checker_on \<or> keys = [] then ret None
      else bind_io (attempt (IsBlacklistedMulti keys)) (\<lambda>r.
        ret (case r of Inl e \<Rightarrow> None | Inr existed \<Rightarrow> blacklist_verdict enabled c existed)))"

definition Auth :: "validator \<Rightarrow> bool \<Rightarrow> bool \<Rightarrow> string \<Rightarrow> (world, auth_outcome) io" where
  "Auth validator checker_on enabled header =
     (if header = [] then ret (Rejected 10102)
      else case validator of
        None \<Rightarrow> ret Anonymous
      | Some validate \<Rightarrow>
          bind_io (gets_io (\<lambda>w. (validate (now w) (bearer header), w))) (\<lambda>(r, w).
            case r of
              Inl e \<Rightarrow> ret (Rejected (if is_expired_error w e then 10101 else 10102))
            | Inr c \<Rightarrow>
                bind_io (check_blacklist checker_on enabled c) (\<lambda>verdict.
                  case verdict of
                    Some n \<Rightarrow> ret (Rejected n)
                  | None \<Rightarrow> ret (Authenticated \<lparr>se_user = cl_user c, se_email = cl_email c, se_jti = cl_id c,
                                se_expires = cl_expires c\<rparr>))))"

section \<open>What the middleware decides\<close>

lemma check_blacklist_never_fails: "fails_with E (check_blacklist on enabled c)"
  unfolding check_blacklist_def Let_def by (intro fw_rules)

lemma check_blacklist_total: "\<exists>x w'. check_blacklist on enabled c w = (Inr x, w')"
  using fails_withD [OF check_blacklist_never_fails [of "\<lambda>_. False"]]
  by (cases "check_blacklist on enabled c w"; cases "fst (check_blacklist on enabled c w)") fastforce+

lemma short_claims_pass:
  assumes "cl_id c = []" and "cl_issued c = None"
  shows "\<exists>w'. check_blacklist on enabled c w = (Inr None, w')"
  using assms
  by (auto simp: check_blacklist_def blacklist_verdict_def bind_io_def attempt_def ret_def Let_def
      split: prod.splits sum.splits)

lemma user_and_email_pass: "\<exists>w'. check_blacklist on enabled (user_and_email c) w = (Inr None, w')"
  by (rule short_claims_pass) (simp_all add: user_and_email_def)

text \<open>No revocation ever rejects a token: the installed validator hands the middleware claims
  without id and issue time, so a token that the library still accepts is let through in every
  state, whatever the blacklist holds (its id, its user's password change) and whether or not
  Redis answers.\<close>

theorem revoked_token_is_accepted:
  assumes "ValidateToken lib m (now w) tok = Inr c"
  shows "fst (Auth (InitJWT lib (Some m)) checker_on enabled (''Bearer '' @ tok) w) =
    Inr (Authenticated \<lparr>se_user = cl_user c, se_email = cl_email c, se_jti = [], se_expires = None\<rparr>)"
proof -
  have b: "bearer (''Bearer '' @ tok) = tok"
    by (simp add: bearer_def EqualFold_def)
  obtain w' where "check_blacklist checker_on enabled (user_and_email c) w = (Inr None, w')"
    using user_and_email_pass by blast
  then show ?thesis using assms
    unfolding Auth_def InitJWT_def b
    by (simp add: bind_io_def gets_io_def ret_def user_and_email_def)
qed

text \<open>With the full claims both kinds of revocation would reject.\<close>

lemma full_claims_are_rejected:
  assumes "cl_id c \<noteq> []" and "cl_issued c \<noteq> None" and "redis_on w" and "faults w = []"
    and "live w (l2Key w (blacklistKey (cl_id c))) \<noteq> None \<or>
      enabled \<and> live w (l2Key w (blacklistKey (''pwd_change:'' @ cl_user c))) \<noteq> None"
  shows "fst (check_blacklist True enabled c w) = Inr (Some 10104)"
  using assms
  by (auto simp: check_blacklist_def blacklist_keys_def blacklist_verdict_def IsBlacklistedMulti_def l2_batch_exists_def
      bind_io_def gets_io_def attempt_def ret_def Let_def)

section \<open>Issued tokens\<close>

text \<open>
  What the code relies on in the library, for the claims it signs: the token parses back to
  them, valid, when the key function offers the key that belongs to the signing key.
\<close>

definition key_matches :: "jwt_key \<Rightarrow> jwt_key \<Rightarrow> jwt_manager \<Rightarrow> bool" where
  "key_matches sk vk m \<longleftrightarrow> (case (sk, vk) of
     (HmacKey a, HmacKey b) \<Rightarrow> a = b
   | (RsaPrivate a, RsaPublic b) \<Rightarrow> a = jm_private m \<and> b = jm_public m
   | _ \<Rightarrow> False)"

definition parses_back :: "jwt_library \<Rightarrow> jwt_manager \<Rightarrow> instant \<Rightarrow> claims \<Rightarrow> bool" where
  "parses_back lib m t c \<longleftrightarrow> (\<exists>tok. jwt_sign lib m c = Inr tok \<and>
     (\<forall>kf vk. kf (sign_method_of m) = Inr vk \<longrightarrow> key_matches (sign_key_of m) vk m \<longrightarrow>
        jl_parse lib t tok kf = Inr (c, True)))"

lemma keyFunc_matches: "\<exists>vk. keyFunc m (sign_method_of m) = Inr vk \<and> key_matches (sign_key_of m) vk m"
  by (simp add: keyFunc_def sign_method_of_def sign_key_of_def key_matches_def)

lemma no_algorithm_confusion:
  "keyFunc m meth = Inr k \<Longrightarrow> meth = sign_method_of m \<and> key_matches (sign_key_of m) k m"
  by (auto simp: keyFunc_def sign_method_of_def sign_key_of_def key_matches_def split: if_splits)

lemma validate_signed:
  assumes "parses_back lib m t c" and "jwt_sign lib m c = Inr tok"
  shows "ValidateToken lib m t tok = Inr c"
proof -
  obtain vk where "keyFunc m (sign_method_of m) = Inr vk" "key_matches (sign_key_of m) vk m"
    using keyFunc_matches by blast
  then have "jl_parse lib t tok (keyFunc m) = Inr (c, True)" using assms unfolding parses_back_def by auto
  then show ?thesis by (simp add: ValidateToken_def)
qed

text \<open>Both tokens of a pair validate to the user they were issued to, as long as the library
  parses them back, and both authenticate as that user: a refresh token is accepted as an
  access token too.\<close>

theorem issued_tokens_authenticate:
  assumes "GenerateTokenPair lib m user email t0 = Inr (access, refresh)"
    and "parses_back lib m (now w) (make_claims m user email (jm_access_ttl m) [] t0)"
    and "parses_back lib m (now w) (make_claims m user email (jm_refresh_ttl m) ''refresh-'' t0)"
    and "tok = access \<or> tok = refresh"
  shows "map_sum id (\<lambda>c. (cl_user c, cl_email c)) (jwtValidate lib (Some m) (now w) tok) = Inr (user, email) \<and>
    fst (Auth (InitJWT lib (Some m)) checker_on enabled (''Bearer '' @ tok) w) =
      Inr (Authenticated \<lparr>se_user = user, se_email = email, se_jti = [], se_expires = None\<rparr>)"
proof -
  let ?a = "make_claims m user email (jm_access_ttl m) [] t0"
  let ?r = "make_claims m user email (jm_refresh_ttl m) ''refresh-'' t0"
  have "jwt_sign lib m ?a = Inr access" "jwt_sign lib m ?r = Inr refresh"
    using assms(1) by (auto simp: GenerateTokenPair_def GenerateAccessToken_def GenerateRefreshToken_def split: sum.splits)
  then have v: "ValidateToken lib m (now w) tok = Inr (if tok = access then ?a else ?r)"
    using validate_signed assms(2-4) by auto
  have b: "bearer (''Bearer '' @ tok) = tok" by (simp add: bearer_def EqualFold_def)
  obtain w' where "check_blacklist checker_on enabled (user_and_email (if tok = access then ?a else ?r)) w = (Inr None, w')"
    using user_and_email_pass by blast
  then have "fst (Auth (InitJWT lib (Some m)) checker_on enabled (''Bearer '' @ tok) w) =
      Inr (Authenticated \<lparr>se_user = user, se_email = email, se_jti = [], se_expires = None\<rparr>)"
    using v unfolding Auth_def InitJWT_def b
    by (simp add: bind_io_def gets_io_def ret_def user_and_email_def make_claims_def)
  then show ?thesis using v by (simp add: jwtValidate_def make_claims_def)
qed

section \<open>Examples\<close>

definition sample_mgr :: jwt_manager where
  "sample_mgr = \<lparr>jm_algorithm = ''HS256'', jm_signing_key = ''key'', jm_private = [], jm_public = [], jm_issuer = ''hc'',
     jm_access_ttl = hour, jm_refresh_ttl = 24 * hour\<rparr>"

definition access_claims :: claims where
  "access_claims = make_claims sample_mgr ''u1'' ''a@b'' hour [] 0"

definition refresh_claims :: claims where
  "refresh_claims = make_claims sample_mgr ''u1'' ''a@b'' (24 * hour) ''refresh-'' 0"

text \<open>A library whose tokens are the ids of the claims, and which knows the tokens of one pair.\<close>

definition sample_lib :: jwt_library where
  "sample_lib = \<lparr>jl_sign = (\<lambda>meth key c. Inr (cl_id c)),
     jl_parse = (\<lambda>t tok kf. case kf MethodHMAC of
        Inl e \<Rightarrow> Inl e
      | Inr key \<Rightarrow> if tok = cl_id access_claims then Inr (access_claims, True)
          else if tok = cl_id refresh_claims then Inr (refresh_claims, True)
          else Inl (Sentinel ''token is malformed''))\<rparr>"

lemma claim_ids: "cl_id refresh_claims \<noteq> cl_id access_claims"
  by (simp add: access_claims_def refresh_claims_def make_claims_def)

lemma sample_parses: "parses_back sample_lib sample_mgr t access_claims" "parses_back sample_lib sample_mgr t refresh_claims"
  using claim_ids
  by (auto simp: parses_back_def jwt_sign_def sample_lib_def sign_method_of_def sample_mgr_def)

definition revoked_world :: world where
  "revoked_world = snd (AddBlacklist ''pwd_change:u1'' hour (snd (AddBlacklist (cl_id access_claims) hour empty_world)))"

theorem revoked_token_is_accepted_witness:
  "live revoked_world (l2Key revoked_world (blacklistKey (cl_id access_claims))) \<noteq> None \<and>
   fst (Auth (InitJWT sample_lib (Some sample_mgr)) True True (''Bearer '' @ cl_id access_claims) revoked_world) =
     Inr (Authenticated \<lparr>se_user = ''u1'', se_email = ''a@b'', se_jti = [], se_expires = None\<rparr>)"
proof
  show "live revoked_world (l2Key revoked_world (blacklistKey (cl_id access_claims))) \<noteq> None"
    by (simp add: revoked_world_def AddBlacklist_def bind_io_def gets_io_def time_now_def empty_world_def l2_set_def
        hour_def second_def)
  have "jwt_sign sample_lib sample_mgr access_claims = Inr (cl_id access_claims)"
    by (simp add: jwt_sign_def sample_lib_def)
  then have v: "ValidateToken sample_lib sample_mgr (now revoked_world) (cl_id access_claims) = Inr access_claims"
    by (rule validate_signed [OF sample_parses(1)])
  show "fst (Auth (InitJWT sample_lib (Some sample_mgr)) True True (''Bearer '' @ cl_id access_claims) revoked_world) =
     Inr (Authenticated \<lparr>se_user = ''u1'', se_email = ''a@b'', se_jti = [], se_expires = None\<rparr>)"
    using revoked_token_is_accepted [OF v] by (simp add: access_claims_def make_claims_def)
qed

theorem issued_tokens_authenticate_witness:
  "map_sum id (\<lambda>c. (cl_user c, cl_email c)) (jwtValidate sample_lib (Some sample_mgr) (now empty_world) (cl_id refresh_claims)) =
     Inr (''u1'', ''a@b'') \<and>
   fst (Auth (InitJWT sample_lib (Some sample_mgr)) True True (''Bearer '' @ cl_id refresh_claims) empty_world) =
     Inr (Authenticated \<lparr>se_user = ''u1'', se_email = ''a@b'', se_jti = [], se_expires = None\<rparr>)"
proof (rule issued_tokens_authenticate)
  show "GenerateTokenPair sample_lib sample_mgr ''u1'' ''a@b'' 0 = Inr (cl_id access_claims, cl_id refresh_claims)"
    by (simp add: GenerateTokenPair_def GenerateAccessToken_def GenerateRefreshToken_def jwt_sign_def sample_lib_def
        access_claims_def refresh_claims_def make_claims_def)
  show "parses_back sample_lib sample_mgr (now empty_world) (make_claims sample_mgr ''u1'' ''a@b'' (jm_access_ttl sample_mgr) [] 0)"
    using sample_parses(1) by (simp add: access_claims_def sample_mgr_def)
  show "parses_back sample_lib sample_mgr (now empty_world)
      (make_claims sample_mgr ''u1'' ''a@b'' (jm_refresh_ttl sample_mgr) ''refresh-'' 0)"
    using sample_parses(2) by (simp add: refresh_claims_def sample_mgr_def)
qed simp

end
