(* ===== verification/AuthService.thy ===== *)
theory AuthService
  imports UserRepo AccountLock Token GoText
begin

text \<open>
  \<open>internal/service/auth/auth_service.go\<close>: registration, login, Google login, refreshing tokens
  and changing passwords. Audit logging is left out. Strings are byte sequences; lower case and
  white space are those of ASCII.
\<close>

section \<open>Configuration and surroundings\<close>

text \<open>
  The configuration, what is connected, and the code that is not part of the repository:
  bcrypt (\<open>ae_hash\<close> with the salt it draws, \<open>ae_compare\<close>), the token library, random
  identifiers, SHA-256, and Google's endpoints: the token endpoint answers with a status and
  the access token of its body (\<open>None\<close>: not JSON), the user endpoint likewise.
\<close>

record google_info =
  gi_sub :: string
  gi_email :: string
  gi_verified :: bool
  gi_name :: string
  gi_picture :: string

record auth_env =
  ae_max_failures :: int
  ae_lock_duration :: duration
  ae_fail_delays :: "int list"
  ae_min_length :: int
  ae_require_upper :: bool
  ae_require_lower :: bool
  ae_require_digit :: bool
  ae_require_special :: bool
  ae_require_categories :: int
  ae_bcrypt_cost :: int
  ae_blacklist_on :: bool
  ae_mailer_on :: bool
  ae_lock_in_redis :: bool
  ae_client_id :: string
  ae_client_secret :: string
  ae_jwt :: "jwt_manager option"
  ae_lib :: jwt_library
  ae_refresh_ttl :: duration
  ae_hash :: "string \<Rightarrow> int \<Rightarrow> nat \<Rightarrow> gerr + string"
  ae_compare :: "string \<Rightarrow> string \<Rightarrow> bool"
  ae_uuid :: "nat \<Rightarrow> string"
  ae_digest :: "string \<Rightarrow> string"
  ae_google_token :: "string \<Rightarrow> gerr + int \<times> string option"
  ae_google_user :: "string \<Rightarrow> gerr + int \<times> google_info option"

section \<open>Errors\<close>

definition ErrServerBusy :: gerr where "ErrServerBusy = Sentinel ''bcrypt compute slots exhausted''"
definition ErrEmailRegistered :: gerr where "ErrEmailRegistered = Sentinel ''email already registered''"
definition ErrInvalidCredentials :: gerr where "ErrInvalidCredentials = Sentinel ''invalid email or password''"
definition ErrAccountLocked :: gerr where "ErrAccountLocked = Sentinel ''account locked''"
definition ErrTokenInvalid :: gerr where "ErrTokenInvalid = Sentinel ''invalid token''"
definition ErrOAuthFailed :: gerr where "ErrOAuthFailed = Sentinel ''google oauth failed''"

section \<open>Strings\<close>

definition normal_email :: "string \<Rightarrow> string" where
  "normal_email s = ToLower (TrimSpace s)"

definition isHexString :: "string \<Rightarrow> bool" where
  "isHexString s \<longleftrightarrow> list_all (\<lambda>c. between 48 57 c \<or> between 97 102 c \<or> between 65 70 c) s"

definition containsUpper :: "string \<Rightarrow> bool" where "containsUpper s \<longleftrightarrow> list_ex (between 65 90) s"
definition containsLower :: "string \<Rightarrow> bool" where "containsLower s \<longleftrightarrow> list_ex (between 97 122) s"
definition containsDigit :: "string \<Rightarrow> bool" where "containsDigit s \<longleftrightarrow> list_ex (between 48 57) s"
definition containsSpecial :: "string \<Rightarrow> bool" where
  "containsSpecial s \<longleftrightarrow> list_ex (\<lambda>c. \<not> between 65 90 c \<and> \<not> between 97 122 c \<and> \<not> between 48 57 c) s"

definition categories :: "auth_env \<Rightarrow> string \<Rightarrow> int" where
  "categories env s =
     (if ae_require_upper env \<and> containsUpper s then 1 else 0) + (if ae_require_lower env \<and> containsLower s then 1 else 0) +
     (if ae_require_digit env \<and> containsDigit s then 1 else 0) + (if ae_require_special env \<and> containsSpecial s then 1 else 0)"

definition validatePassword :: "auth_env \<Rightarrow> string \<Rightarrow> gerr option" where
  "validatePassword env s =
     (if length s \<noteq> 64 then
        (if int (length s) < ae_min_length env then Some (Sentinel ''password too short'')
         else if categories env s < ae_require_categories env then Some (Sentinel ''password too weak'')
         else None)
      else if \<not> isHexString s then Some (Sentinel ''password must be a valid hex-encoded SHA256 hash'')
      else None)"

definition bcryptCost :: "auth_env \<Rightarrow> int" where
  "bcryptCost env = (if ae_bcrypt_cost env > 0 then ae_bcrypt_cost env else 12)"

definition generateUsername :: "string \<Rightarrow> string \<Rightarrow> string" where
  "generateUsername email nickname = (if nickname \<noteq> [] then nickname else takeWhile (\<lambda>c. c \<noteq> CHR ''@'') email)"

section \<open>bcrypt, events, mail\<close>

definition draw :: "(world, nat) io" where
  "draw w = (Inr (uuid_seq w), w\<lparr>uuid_seq := Suc (uuid_seq w)\<rparr>)"

definition lift_result :: "gerr + 'a \<Rightarrow> (world, 'a) io" where
  "lift_result r = (case r of Inl e \<Rightarrow> throw e | Inr x \<Rightarrow> ret x)"

definition bcrypt_Hash :: "auth_env \<Rightarrow> string \<Rightarrow> int \<Rightarrow> (world, string) io" where
  "bcrypt_Hash env password cost = bind_io draw (\<lambda>salt. lift_result (ae_hash env password cost salt))"

definition acquireBcrypt :: "(world, unit) io" where
  "acquireBcrypt = bind_io (gets_io bcrypt_free) (\<lambda>n.
     if n > 0 then modify_io (\<lambda>w. w\<lparr>bcrypt_free := n - 1\<rparr>) else throw ErrServerBusy)"

definition releaseBcrypt :: "(world, unit) io" where
  "releaseBcrypt = modify_io (\<lambda>w. w\<lparr>bcrypt_free := Suc (bcrypt_free w)\<rparr>)"

definition publishEvent :: "message \<Rightarrow> (world, unit) io" where
  "publishEvent m = bind_io (gets_io publisher_on) (\<lambda>on. when_io on (best_effort (publish m)))"

definition sendRegisterConfirmation :: "auth_env \<Rightarrow> string \<Rightarrow> string \<Rightarrow> (world, unit) io" where
  "sendRegisterConfirmation env email username =
     when_io (ae_mailer_on env)
       (spawn (BgMail email (if username = [] then takeWhile (\<lambda>c. c \<noteq> CHR ''@'') email else username)))"

section \<open>Failed logins\<close>

definition isAccountLocked :: "auth_env \<Rightarrow> string \<Rightarrow> (world, bool) io" where
  "isAccountLocked env email =
     (if ae_max_failures env \<le> 0 then ret False
      else bind_io (attempt (GetLockUntil (ae_lock_in_redis env) (ae_digest env) email)) (\<lambda>r.
           case r of
             Inr (Some until) \<Rightarrow> bind_io time_now (\<lambda>t. ret (t < until))
           | _ \<Rightarrow> ret False))"

definition fail_delay :: "auth_env \<Rightarrow> int \<Rightarrow> duration" where
  "fail_delay env n =
     (if ae_fail_delays env = [] then 0
      else let idx = (if n - 1 < 0 then 0 else n - 1);
               idx = (if idx \<ge> int (length (ae_fail_delays env)) then int (length (ae_fail_delays env)) - 1 else idx)
           in (ae_fail_delays env ! nat idx) * second)"

definition recordLoginFailure :: "auth_env \<Rightarrow> string \<Rightarrow> (world, unit) io" where
  "recordLoginFailure env email =
     bind_io (attempt (RecordFailure (ae_lock_in_redis env) (ae_digest env) email (ae_max_failures env)
        (ae_lock_duration env + hour) (ae_lock_duration env))) (\<lambda>r.
     (let n = (case r of Inl e \<Rightarrow> 1 | Inr (c, locked) \<Rightarrow> c); delay = fail_delay env n
      in when_io (delay > 0) (modify_io (\<lambda>w. w\<lparr>now := now w + delay\<rparr>))))"

definition clearLoginFailure :: "auth_env \<Rightarrow> string \<Rightarrow> (world, unit) io" where
  "clearLoginFailure env email = best_effort (Clear (ae_lock_in_redis env) (ae_digest env) email)"

section \<open>Registration\<close>

definition new_user :: "string \<Rightarrow> string \<Rightarrow> string \<Rightarrow> string \<Rightarrow> user" where
  "new_user uid username email hash = \<lparr>us_id = uid, us_username = username, us_email = email, us_password_hash = hash,
     us_google = None, us_avatar = [], us_points = 0, us_status = ''active'', us_password_changed = None\<rparr>"

definition isUniqueViolation :: "world \<Rightarrow> gerr \<Rightarrow> bool" where
  "isUniqueViolation w e \<longleftrightarrow> (let msg = error_text (fault_text w) e in sublist ''UNIQUE'' msg \<or> sublist ''unique'' msg)"

primrec createUserWithRetry :: "nat \<Rightarrow> auth_env \<Rightarrow> string \<Rightarrow> string \<Rightarrow> string \<Rightarrow> (world, user) io" where
  "createUserWithRetry 0 env email nickname hash = throw (Sentinel ''create user failed'')"
| "createUserWithRetry (Suc n) env email nickname hash =
     bind_io draw (\<lambda>k.
     bind_io (wrap_err ''check user id'' (FindByID (ae_uuid env k))) (\<lambda>existing.
       if existing \<noteq> None then createUserWithRetry n env email nickname hash
       else let usr = new_user (ae_uuid env k) (generateUsername email nickname) email hash in
            bind_io (attempt (user_Create usr)) (\<lambda>r.
              case r of
                Inr _ \<Rightarrow> ret usr
              | Inl e \<Rightarrow> bind_io (gets_io (\<lambda>w. isUniqueViolation w e)) (\<lambda>unique.
                  if unique then throw ErrEmailRegistered else createUserWithRetry n env email nickname hash))))"

definition maxUUIDRetries :: nat where
  "maxUUIDRetries = 3"

definition Register :: "auth_env \<Rightarrow> string \<Rightarrow> string \<Rightarrow> string \<Rightarrow> (world, user) io" where
  "Register env email0 password nickname =
     (if TrimSpace email0 = [] then throw (Sentinel ''email is required'')
      else let email = normal_email email0 in
        case validatePassword env password of
          Some e \<Rightarrow> throw e
        | None \<Rightarrow>
            bind_io (wrap_err ''check email'' (FindByEmail email)) (\<lambda>existing.
              if existing \<noteq> None then throw ErrEmailRegistered
              else
                bind_io (wrap_err ''hash password'' (bcrypt_Hash env password (bcryptCost env))) (\<lambda>hash.
                bind_io (createUserWithRetry maxUUIDRetries env email nickname hash) (\<lambda>usr.
                then_io (publishEvent (UserRegistered (us_id usr) (us_email usr) ''password''))
               (then_io (sendRegisterConfirmation env (us_email usr) (us_username usr))
                  (ret usr))))))"

section \<open>Login\<close>

record login_result =
  lr_user :: user
  lr_access :: string
  lr_refresh :: string

definition IssueTokens :: "auth_env \<Rightarrow> user \<Rightarrow> (world, login_result) io" where
  "IssueTokens env usr =
     bind_io time_now (\<lambda>t.
     bind_io (wrap_err ''generate token'' (lift_result (jwtGenerate (ae_lib env) (ae_jwt env) (us_id usr) (us_email usr) t)))
       (\<lambda>(access, refresh). ret \<lparr>lr_user = usr, lr_access = access, lr_refresh = refresh\<rparr>))"

definition Login :: "auth_env \<Rightarrow> string \<Rightarrow> string \<Rightarrow> (world, login_result) io" where
  "Login env email0 password =
     (let email = normal_email email0 in
      bind_io (wrap_err ''find user'' (FindByEmail email)) (\<lambda>found.
        case found of
          None \<Rightarrow> throw ErrInvalidCredentials
        | Some usr \<Rightarrow>
            if us_status usr \<noteq> ''active'' then throw ErrAccountLocked
            else bind_io (isAccountLocked env email) (\<lambda>locked.
              if locked then throw ErrAccountLocked
              else if \<not> ae_compare env (us_password_hash usr) password
              then then_io (recordLoginFailure env email) (throw ErrInvalidCredentials)
              else
                then_io (clearLoginFailure env email)
               (bind_io (IssueTokens env usr) (\<lambda>res.
                then_io (publishEvent (UserLoggedIn (us_id usr) ''password'')) (ret res))))))"

section \<open>Google\<close>

definition google_user :: "string \<Rightarrow> string \<Rightarrow> string \<Rightarrow> string \<Rightarrow> string \<Rightarrow> user" where
  "google_user uid googleID email name avatar = \<lparr>us_id = uid, us_username = name, us_email = email,
     us_password_hash = [], us_google = Some googleID, us_avatar = avatar, us_points = 0, us_status = ''active'',
     us_password_changed = None\<rparr>"

text \<open>The user with this Google id, or the one with this email, to whom the Google id is then bound.\<close>

definition find_or_bind :: "string \<Rightarrow> string \<Rightarrow> (world, user option) io" where
  "find_or_bind googleID email =
     bind_io (wrap_err ''find by google id'' (FindByGoogleID googleID)) (\<lambda>found.
       if found = None \<and> email \<noteq> []
       then bind_io (wrap_err ''find by email'' (FindByEmail email)) (\<lambda>byEmail.
              case byEmail of
                None \<Rightarrow> ret None
              | Some usr \<Rightarrow>
                  then_io (wrap_err ''bind google id'' (user_Update (usr\<lparr>us_google := Some googleID\<rparr>)))
                    (ret (Some (usr\<lparr>us_google := Some googleID\<rparr>))))
       else ret found)"

definition GoogleOAuthLogin :: "auth_env \<Rightarrow> string \<Rightarrow> string \<Rightarrow> string \<Rightarrow> string \<Rightarrow> (world, login_result) io" where
  "GoogleOAuthLogin env googleID email name avatar =
     bind_io (find_or_bind googleID email) (\<lambda>found.
     bind_io (case found of
         Some usr \<Rightarrow> ret usr
       | None \<Rightarrow>
           bind_io draw (\<lambda>k.
             let usr = google_user (ae_uuid env k) googleID email name avatar in
             then_io (wrap_err ''create user'' (user_Create usr))
            (then_io (sendRegisterConfirmation env (us_email usr) (us_username usr)) (ret usr)))) (\<lambda>usr.
     bind_io (IssueTokens env usr) (\<lambda>res.
     then_io (publishEvent (UserLoggedIn (us_id usr) ''google'')) (ret res))))"

definition exchangeGoogleCode :: "auth_env \<Rightarrow> string \<Rightarrow> (world, google_info) io" where
  "exchangeGoogleCode env code =
     (if ae_client_id env = [] \<or> ae_client_secret env = [] then throw (Sentinel ''google oauth not configured'')
      else bind_io (wrap_err ''exchange code'' (lift_result (ae_google_token env code))) (\<lambda>(status, body).
        if status \<noteq> 200 then throw (Wrap ''token endpoint'' ErrOAuthFailed)
        else case body of
          None \<Rightarrow> throw (Sentinel ''decode token response'')
        | Some token \<Rightarrow>
            if token = [] then throw (Wrap ''empty access_token'' ErrOAuthFailed)
            else bind_io (wrap_err ''fetch userinfo'' (lift_result (ae_google_user env token))) (\<lambda>(status, body).
              if status \<noteq> 200 then throw (Wrap ''userinfo'' ErrOAuthFailed)
              else case body of
                None \<Rightarrow> throw (Sentinel ''decode userinfo'')
              | Some info \<Rightarrow> ret info)))"

definition GoogleOAuthCode :: "auth_env \<Rightarrow> string \<Rightarrow> (world, login_result) io" where
  "GoogleOAuthCode env code =
     bind_io (exchangeGoogleCode env code) (\<lambda>info.
       if gi_sub info = [] then throw ErrOAuthFailed
       else GoogleOAuthLogin env (gi_sub info) (gi_email info) (gi_name info) (gi_picture info))"

section \<open>Refreshing and changing the password\<close>

text \<open>A token without an expiry makes \<open>claims.ExpiresAt.Time\<close> a nil dereference: a panic, which no error value of the
service stands for. It is the error \<open>nil_dereference\<close> here, which callers pass on.\<close>

definition nil_dereference :: gerr where
  "nil_dereference = Fault ''nil pointer dereference''"

definition blacklist_refresh :: "auth_env \<Rightarrow> claims \<Rightarrow> (world, unit) io" where
  "blacklist_refresh env c =
     when_io (ae_blacklist_on env \<and> cl_id c \<noteq> [])
       (bind_io time_now (\<lambda>t.
          case cl_expires c of
            None \<Rightarrow> throw nil_dereference
          | Some e \<Rightarrow> when_io (e - t > 0) (best_effort (AddBlacklist (cl_id c) (e - t)))))"

definition RefreshToken :: "auth_env \<Rightarrow> string \<Rightarrow> (world, login_result) io" where
  "RefreshToken env tok =
     bind_io (gets_io (\<lambda>w. jwtValidate (ae_lib env) (ae_jwt env) (now w) tok)) (\<lambda>r.
       case r of
         Inl e \<Rightarrow> throw ErrTokenInvalid
       | Inr c \<Rightarrow>
           bind_io (wrap_err ''find user'' (FindByID (cl_user c))) (\<lambda>found.
             case found of
               None \<Rightarrow> throw ErrTokenInvalid
             | Some usr \<Rightarrow> then_io (blacklist_refresh env c) (IssueTokens env usr)))"

definition ChangePassword :: "auth_env \<Rightarrow> string \<Rightarrow> string \<Rightarrow> string \<Rightarrow> (world, unit) io" where
  "ChangePassword env userID old new =
     bind_io (wrap_err ''find user'' (FindByID userID)) (\<lambda>found.
       case found of
         None \<Rightarrow> throw ErrInvalidCredentials
       | Some usr \<Rightarrow>
           then_io acquireBcrypt
            (finally_io
              (if \<not> ae_compare env (us_password_hash usr) old then throw ErrInvalidCredentials
               else case validatePassword env new of
                 Some e \<Rightarrow> throw (Wrap ''validate new password'' e)
               | None \<Rightarrow>
                   bind_io (wrap_err ''hash password'' (bcrypt_Hash env new (bcryptCost env))) (\<lambda>hash.
                   bind_io time_now (\<lambda>t.
                   then_io (wrap_err ''update password'' (UpdatePassword userID hash (Some t)))
                     (when_io (ae_blacklist_on env)
                        (best_effort (AddBlacklist (''pwd_change:'' @ userID) (ae_refresh_ttl env)))))))
              releaseBcrypt))"

end
