(* ===== verification/AuthProperties.thy ===== *)
theory AuthProperties
  imports AuthService
begin

text \<open>
  How the authentication service behaves: who gets tokens, what a refused request leaves
  behind, what every request keeps of the users, and what revoking does not do.
\<close>

section \<open>What reads leave alone\<close>

context quiet_relation
begin

lemma ev_draw: "evolves R draw"
  by (rule ev_quiet) (simp add: draw_def)

lemma ev_lift_result: "evolves R (lift_result r)"
  unfolding lift_result_def by (cases r) (auto intro: ev_rules)

lemma ev_bcrypt_Hash: "evolves R (bcrypt_Hash env p c)"
  unfolding bcrypt_Hash_def by (intro ev_quiet_world ev_draw ev_lift_result)

lemma ev_IssueTokens: "evolves R (IssueTokens env usr)"
  unfolding IssueTokens_def by (intro ev_quiet_world ev_lift_result)

lemma ev_publishEvent: "evolves R (publishEvent m)"
  unfolding publishEvent_def by (intro ev_quiet_world)

lemma ev_confirmation: "evolves R (sendRegisterConfirmation env e n)"
  unfolding sendRegisterConfirmation_def by (intro ev_quiet_world)

lemma ev_redis_locks: "evolves R (redis_hget g e f)" "evolves R (redis_RecordFailure g e n a b)" "evolves R (redis_Clear g e)"
  unfolding redis_hget_def redis_RecordFailure_def redis_Clear_def
  by (intro ev_quiet_world ev_quiet; auto simp: record_failure_script_def Let_def split: if_splits)+

lemma ev_GetLockUntil: "evolves R (GetLockUntil r g e)"
  unfolding GetLockUntil_def redis_GetLockUntil_def mem_GetLockUntil_def
  by (intro ev_quiet_world ev_redis_locks)

lemma ev_isAccountLocked: "evolves R (isAccountLocked env e)"
  unfolding isAccountLocked_def by (intro ev_quiet_world ev_GetLockUntil)

lemma ev_AddBlacklist: "evolves R (AddBlacklist j t)"
  unfolding AddBlacklist_def by (intro ev_quiet_world ev_l2)

lemma ev_RefreshToken: "evolves R (RefreshToken env tok)"
  unfolding RefreshToken_def blacklist_refresh_def
  by (intro ev_quiet_world ev_user_finds ev_AddBlacklist ev_IssueTokens)

lemma ev_exchangeGoogleCode: "evolves R (exchangeGoogleCode env code)"
  unfolding exchangeGoogleCode_def by (intro ev_quiet_world ev_lift_result)

end

text \<open>Relations that do not look at the failed logins of the process.\<close>

locale account_relation = quiet_relation R for R +
  assumes only_locks: "R w (w\<lparr>mem_locks := x\<rparr>)"
begin

lemma ev_mem_locks: "evolves R (mem_RecordFailure e n a b)" "evolves R (mem_Clear e)"
  by (rule evolvesI, simp add: mem_RecordFailure_def mem_record_def mem_Clear_def modify_io_def Let_def only_locks)+

lemma ev_failures: "evolves R (recordLoginFailure env e)" "evolves R (clearLoginFailure env e)"
  unfolding recordLoginFailure_def clearLoginFailure_def RecordFailure_def Clear_def Let_def
  by (intro ev_quiet_world ev_redis_locks ev_mem_locks ev_quiet_modify; simp)+

lemma ev_Login: "evolves R (Login env e p)"
  unfolding Login_def Let_def
  by (intro ev_quiet_world ev_user_finds ev_isAccountLocked ev_failures ev_IssueTokens ev_publishEvent)

lemma ev_createUser:
  assumes "\<And>u. evolves R (user_Create u)"
  shows "evolves R (createUserWithRetry n env e nick h)"
proof (induction n)
  case (Suc n)
  show ?case unfolding createUserWithRetry.simps Let_def
    by (intro ev_quiet_world ev_draw ev_user_finds assms Suc)
qed (simp add: ev_throw)

lemma ev_Register:
  assumes "\<And>u. evolves R (user_Create u)"
  shows "evolves R (Register env e p nick)"
  unfolding Register_def Let_def
  by (intro ev_quiet_world ev_user_finds ev_bcrypt_Hash ev_createUser assms ev_publishEvent ev_confirmation)

lemma ev_Google:
  assumes "\<And>u. evolves R (user_Create u)" and "\<And>u. evolves R (user_Update u)"
  shows "evolves R (GoogleOAuthCode env code)"
  unfolding GoogleOAuthCode_def GoogleOAuthLogin_def find_or_bind_def Let_def
  by (intro ev_quiet_world ev_user_finds ev_exchangeGoogleCode ev_draw assms ev_confirmation ev_IssueTokens ev_publishEvent)

end

interpretation same_users: account_relation "\<lambda>w w'. users w' = users w"
  by unfold_locales (auto simp: durable_def)

interpretation same_slots: account_relation "\<lambda>w w'. bcrypt_free w' = bcrypt_free w"
  by unfold_locales (auto simp: durable_def)

section \<open>Accounts stay distinct\<close>

definition accounts_ok :: "user list \<Rightarrow> bool" where
  "accounts_ok us \<longleftrightarrow> distinct (map us_id us) \<and> distinct (map us_email us) \<and> list_all (\<lambda>u. 0 \<le> us_points u) us"

interpretation accounts: account_relation "\<lambda>w w'. accounts_ok (users w) \<longrightarrow> accounts_ok (users w')"
  by unfold_locales (auto simp: durable_def)

lemma accounts_write:
  assumes "\<And>us. accounts_ok us \<Longrightarrow> accounts_ok (snd (f us))"
  shows "evolves (\<lambda>w w'. accounts_ok (users w) \<longrightarrow> accounts_ok (users w')) (user_write name f)"
  unfolding user_write_def
  by (intro accounts.ev_ext evolvesI) (use assms in \<open>simp add: case_prod_beta\<close>)

lemma accounts_replaced:
  assumes "accounts_ok us" and "\<not> (\<exists>v \<in> set us. us_id v \<noteq> us_id u \<and> user_conflict u v)" and "0 \<le> us_points u"
  shows "accounts_ok (update_where (\<lambda>v. us_id v = us_id u) (\<lambda>_. u) us)"
proof -
  have ids: "map us_id (update_where (\<lambda>v. us_id v = us_id u) (\<lambda>_. u) us) = map us_id us"
    by (auto simp: update_where_def)
  have "distinct (map us_email (update_where (\<lambda>v. us_id v = us_id u) (\<lambda>_. u) us))"
  proof -
    have inj: "inj_on us_id (set us)" "inj_on us_email (set us)" "distinct us"
      using assms(1) by (auto simp: accounts_ok_def distinct_map)
    have fresh: "us_email u \<noteq> us_email v" if "v \<in> set us" "us_id v \<noteq> us_id u" for v
      using assms(2) that by (auto simp: user_conflict_def)
    let ?g = "\<lambda>v. us_email (if us_id v = us_id u then u else v)"
    have "inj_on ?g (set us)"
    proof (rule inj_onI)
      fix a b
      assume ab: "a \<in> set us" "b \<in> set us" "?g a = ?g b"
      show "a = b"
      proof (cases "us_id a = us_id u \<longleftrightarrow> us_id b = us_id u")
        case True
        then have "us_id a = us_id b \<or> us_email a = us_email b" using ab(3) by (auto split: if_splits)
        then show ?thesis using inj ab(1,2) by (auto simp: inj_on_def)
      next
        case False
        then show ?thesis using fresh [of a] fresh [of b] ab by (auto split: if_splits)
      qed
    qed
    then show ?thesis using inj(3) by (simp add: update_where_def distinct_map comp_def)
  qed
  then show ?thesis using assms(1,3) ids by (auto simp: accounts_ok_def list_all_iff set_update_where)
qed

lemma accounts_user_ops:
  "evolves (\<lambda>w w'. accounts_ok (users w) \<longrightarrow> accounts_ok (users w')) (user_Create u)"
  "evolves (\<lambda>w w'. accounts_ok (users w) \<longrightarrow> accounts_ok (users w')) (user_Update u)"
  "evolves (\<lambda>w w'. accounts_ok (users w) \<longrightarrow> accounts_ok (users w')) (UpdatePassword i h t)"
proof -
  show "evolves (\<lambda>w w'. accounts_ok (users w) \<longrightarrow> accounts_ok (users w')) (user_Create u)"
    unfolding user_Create_def
    by (intro accounts_write) (auto simp: accounts_ok_def list_all_iff user_conflict_def)
  show "evolves (\<lambda>w w'. accounts_ok (users w) \<longrightarrow> accounts_ok (users w')) (user_Update u)"
    unfolding user_Update_def user_save_def
    by (intro accounts.ev_then accounts.ev_invalidateUser accounts_write)
      (auto simp: accounts_replaced, auto simp: accounts_ok_def list_all_iff user_conflict_def)
  show "evolves (\<lambda>w w'. accounts_ok (users w) \<longrightarrow> accounts_ok (users w')) (UpdatePassword i h t)"
    unfolding UpdatePassword_def
    by (intro accounts.ev_quiet_world accounts.ev_first_user accounts.ev_invalidateUser accounts_write)
      (auto simp: accounts_ok_def map_update_where list_all_iff set_update_where)
qed

datatype auth_request =
    DoRegister string string string
  | DoLogin string string
  | DoGoogle string
  | DoRefresh string
  | DoChange string string string

definition run_auth :: "auth_env \<Rightarrow> auth_request \<Rightarrow> (world, unit) io" where
  "run_auth env req = (case req of
      DoRegister e p nick \<Rightarrow> best_effort (Register env e p nick)
    | DoLogin e p \<Rightarrow> best_effort (Login env e p)
    | DoGoogle code \<Rightarrow> best_effort (GoogleOAuthCode env code)
    | DoRefresh tok \<Rightarrow> best_effort (RefreshToken env tok)
    | DoChange u old new \<Rightarrow> best_effort (ChangePassword env u old new))"

lemma bcrypt_keeps_accounts:
  "evolves (\<lambda>w w'. accounts_ok (users w) \<longrightarrow> accounts_ok (users w')) acquireBcrypt"
  "evolves (\<lambda>w w'. accounts_ok (users w) \<longrightarrow> accounts_ok (users w')) releaseBcrypt"
  by (auto simp: evolves_def acquireBcrypt_def releaseBcrypt_def io_defs)

text \<open>No request of the authentication service creates a second account of an id or an email, or
  a negative balance, whatever identifiers are drawn, whatever Google answers and whatever
  fails; so it is along every sequence of requests.\<close>

theorem accounts_stay_distinct:
  assumes "accounts_ok (users w)"
  shows "accounts_ok (users (fold (\<lambda>req v. snd (run_auth env req v)) reqs w))"
  using assms
proof (induction reqs arbitrary: w)
  case (Cons req reqs)
  have "evolves (\<lambda>w w'. accounts_ok (users w) \<longrightarrow> accounts_ok (users w')) (run_auth env req)"
    unfolding run_auth_def ChangePassword_def
    by (cases req)
      (auto intro!: accounts.ev_quiet_world accounts.ev_Login accounts.ev_Register accounts.ev_Google accounts.ev_RefreshToken
        accounts_user_ops accounts.ev_user_finds accounts.ev_bcrypt_Hash accounts.ev_AddBlacklist bcrypt_keeps_accounts)
  then have "accounts_ok (users (snd (run_auth env req w)))" using Cons.prems by (simp add: evolves_def)
  then show ?case using Cons.IH by simp
qed simp

section \<open>Registration\<close>

lemma user_Create_cases:
  assumes "user_Create u w = (res, w')"
  shows "(\<exists>e. res = Inl e) \<and> users w' = users w \<or>
    res = Inr () \<and> users w' = users w @ [u] \<and> list_all (\<lambda>v. \<not> user_conflict u v) (users w)"
  using assms
  by (auto simp: user_Create_def user_write_def ext_def list_all_iff split: list.splits if_splits)

lemma undo_user_Create: "undoes (\<lambda>w w'. users w' = users w) (user_Create u)"
  unfolding undoes_def using user_Create_cases by fastforce

text \<open>What is read, drawn or published on the way changes no user.\<close>

lemmas user_reads = same_users.ev_quiet_world same_users.ev_user_finds same_users.ev_bcrypt_Hash same_users.ev_draw
  same_users.ev_publishEvent same_users.ev_confirmation same_users.ev_AddBlacklist

lemma createUser_adds:
  assumes "createUserWithRetry n env e nick h w = (res, w')"
  shows "(\<exists>x. res = Inl x) \<and> users w' = users w \<or>
    (\<exists>k. res = Inr (new_user (ae_uuid env k) (generateUsername e nick) e h) \<and>
         users w' = users w @ [new_user (ae_uuid env k) (generateUsername e nick) e h] \<and>
         list_all (\<lambda>v. us_email v \<noteq> e) (users w))"
  using assms
proof (induction n arbitrary: w)
  case 0
  then show ?case by (auto simp: throw_def)
next
  case (Suc n)
  let ?find = "\<lambda>k. wrap_err ''check user id'' (FindByID (ae_uuid env k))"
  obtain k w1 where 1: "draw w = (Inr k, w1)" "users w1 = users w" by (auto simp: draw_def)
  obtain r w2 where 2: "?find k w1 = (r, w2)" by fastforce
  have u2: "users w2 = users w" using evolvesD [OF same_users.ev_wrap_err [OF same_users.ev_user_finds(1)] 2] 1 by simp
  let ?u = "new_user (ae_uuid env k) (generateUsername e nick) e h"
  obtain c w3 where 3: "user_Create ?u w2 = (c, w3)" by fastforce
  note cases = user_Create_cases [OF 3]
  have run: "createUserWithRetry (Suc n) env e nick h w = (case r of
      Inl x \<Rightarrow> (Inl x, w2)
    | Inr ex \<Rightarrow> if ex \<noteq> None then createUserWithRetry n env e nick h w2
        else case c of Inr _ \<Rightarrow> (Inr ?u, w3)
          | Inl x \<Rightarrow> if isUniqueViolation w3 x then (Inl ErrEmailRegistered, w3) else createUserWithRetry n env e nick h w3)"
    using 1 2 3
    by (auto simp: bind_io_def attempt_def gets_io_def ret_def throw_def Let_def split: sum.splits)
  show ?case
  proof (cases r)
    case (Inl x)
    then show ?thesis using Suc.prems run u2 by auto
  next
    case (Inr ex)
    show ?thesis
    proof (cases "ex \<noteq> None")
      case True
      then show ?thesis using Suc.prems run Inr Suc.IH [of w2] u2 by simp
    next
      case False
      then show ?thesis using Suc.prems run Inr Suc.IH [of w3] u2 cases
        by (auto simp: user_conflict_def new_user_def list_all_iff split: if_splits)
    qed
  qed
qed

lemma after_registration_never_fails:
  "fails_with E (then_io (publishEvent m) (then_io (sendRegisterConfirmation env e n) (ret x)))"
  unfolding publishEvent_def sendRegisterConfirmation_def by (intro fw_rules fw_spawn)

text \<open>A registration that is refused creates nobody and changes no account, wherever it stops.\<close>

theorem refused_registration_creates_nobody:
  assumes "Register env e p nick w = (Inl x, w')"
  shows "users w' = users w"
proof -
  have c: "undoes (\<lambda>w w'. users w' = users w) (createUserWithRetry n env e' nick h)" for n e' h
    unfolding undoes_def using createUser_adds by fastforce
  have "undoes (\<lambda>w w'. users w' = users w) (Register env e p nick)"
    unfolding Register_def Let_def
    by (intro same_users.un_if same_users.un_throw same_users.un_option same_users.un_bind_before same_users.un_bind_after
        user_reads c after_registration_never_fails)
  then show ?thesis using assms by (rule undoesD)
qed

text \<open>A registration that succeeds adds exactly one account: active, without points, under the
  trimmed lower-case email, which no account had before, with a hash of the password.\<close>

theorem registration_adds_one_account:
  assumes "Register env e p nick w = (Inr usr, w')"
  shows "users w' = users w @ [usr] \<and> us_email usr = normal_email e \<and> us_status usr = ''active'' \<and> us_points usr = 0 \<and>
    list_all (\<lambda>v. us_email v \<noteq> normal_email e) (users w) \<and> validatePassword env p = None \<and>
    (\<exists>salt. ae_hash env p (bcryptCost env) salt = Inr (us_password_hash usr))"
proof -
  let ?e = "normal_email e"
  have valid: "validatePassword env p = None" and nonempty: "TrimSpace e \<noteq> []"
    using assms by (auto simp: Register_def throw_def Let_def split: if_splits option.splits)
  obtain ex w1 where 1: "wrap_err ''check email'' (FindByEmail ?e) w = (Inr ex, w1)"
    and k1: "(if ex \<noteq> None then throw ErrEmailRegistered else
        bind_io (wrap_err ''hash password'' (bcrypt_Hash env p (bcryptCost env))) (\<lambda>hash.
        bind_io (createUserWithRetry maxUUIDRetries env ?e nick hash) (\<lambda>usr.
        then_io (publishEvent (UserRegistered (us_id usr) (us_email usr) ''password''))
       (then_io (sendRegisterConfirmation env (us_email usr) (us_username usr)) (ret usr))))) w1 = (Inr usr, w')"
    using assms nonempty valid unfolding Register_def Let_def by (auto simp: bind_io_Inr)
  then have ex: "ex = None" by (auto split: if_splits)
  obtain hash w2 u w3 where
    2: "wrap_err ''hash password'' (bcrypt_Hash env p (bcryptCost env)) w1 = (Inr hash, w2)"
    and 3: "createUserWithRetry maxUUIDRetries env ?e nick hash w2 = (Inr u, w3)"
    and 4: "then_io (publishEvent (UserRegistered (us_id u) (us_email u) ''password''))
       (then_io (sendRegisterConfirmation env (us_email u) (us_username u)) (ret u)) w3 = (Inr usr, w')"
    using k1 by (simp only: ex simp_thms if_False bind_io_Inr) blast
  have u: "users w1 = users w" "users w2 = users w1"
    using evolvesD [OF same_users.ev_wrap_err [OF same_users.ev_user_finds(2)] 1]
      evolvesD [OF same_users.ev_wrap_err [OF same_users.ev_bcrypt_Hash] 2] by simp_all
  have "evolves (\<lambda>w w'. users w' = users w) (then_io (publishEvent (UserRegistered (us_id u) (us_email u) ''password''))
       (then_io (sendRegisterConfirmation env (us_email u) (us_username u)) (ret u)))" by (intro user_reads)
  then have "users w' = users w3" using 4 by (rule evolvesD)
  moreover have "usr = u" using 4 unfolding then_io_Inr ret_Inr by auto
  moreover obtain salt where "ae_hash env p (bcryptCost env) salt = Inr hash"
    using 2 by (auto simp: bcrypt_Hash_def draw_def lift_result_def wrap_err_def bind_io_def ret_def throw_def split: sum.splits)
  ultimately show ?thesis using createUser_adds [OF 3] u valid by (auto simp: new_user_def)
qed

text \<open>C10. A registration is all or nothing. Refused or failing anywhere it changes no account; an email that is
already registered is refused right after it was looked up. Successful, it appended one new account to the ones
there were: active, without points, with a hash of the password, which satisfied the rules, under the trimmed
lower-case email, which was given, was not found by the lookup and belonged to no account.\<close>

theorem registration_is_all_or_nothing:
  assumes "Register env e p nick w = (res, w')"
  shows "(case res of
      Inl x \<Rightarrow> users w' = users w
    | Inr usr \<Rightarrow> users w' = users w @ [usr] \<and> us_email usr = normal_email e \<and> us_status usr = ''active'' \<and> us_points usr = 0 \<and>
        (\<exists>salt. ae_hash env p (bcryptCost env) salt = Inr (us_password_hash usr)) \<and>
        TrimSpace e \<noteq> [] \<and> validatePassword env p = None \<and> fst (FindByEmail (normal_email e) w) = Inr None \<and>
        list_all (\<lambda>v. us_email v \<noteq> normal_email e) (users w)) \<and>
    (if TrimSpace e \<noteq> [] \<and> validatePassword env p = None \<and> fst (FindByEmail (normal_email e) w) = Inr (Some v)
     then res = Inl ErrEmailRegistered \<and> w' = snd (FindByEmail (normal_email e) w) else True)"
proof
  have taken: "res = Inl ErrEmailRegistered \<and> w' = snd (FindByEmail (normal_email e) w)"
    if "TrimSpace e \<noteq> []" "validatePassword env p = None" "fst (FindByEmail (normal_email e) w) = Inr (Some v)" for v
    using that assms by (cases "FindByEmail (normal_email e) w") (auto simp: Register_def Let_def wrap_err_def bind_io_def throw_def)
  then show "if TrimSpace e \<noteq> [] \<and> validatePassword env p = None \<and> fst (FindByEmail (normal_email e) w) = Inr (Some v)
     then res = Inl ErrEmailRegistered \<and> w' = snd (FindByEmail (normal_email e) w) else True" by simp
  show "case res of
      Inl x \<Rightarrow> users w' = users w
    | Inr usr \<Rightarrow> users w' = users w @ [usr] \<and> us_email usr = normal_email e \<and> us_status usr = ''active'' \<and> us_points usr = 0 \<and>
        (\<exists>salt. ae_hash env p (bcryptCost env) salt = Inr (us_password_hash usr)) \<and>
        TrimSpace e \<noteq> [] \<and> validatePassword env p = None \<and> fst (FindByEmail (normal_email e) w) = Inr None \<and>
        list_all (\<lambda>v. us_email v \<noteq> normal_email e) (users w)"
  proof (cases res)
    case (Inl x)
    then show ?thesis using refused_registration_creates_nobody assms by simp
  next
    case (Inr usr)
    then have reg: "Register env e p nick w = (Inr usr, w')" using assms by simp
    note adds = registration_adds_one_account [OF reg]
    have given: "TrimSpace e \<noteq> []" using reg by (auto simp: Register_def throw_def split: if_splits)
    have "fst (FindByEmail (normal_email e) w) = Inr None"
    proof (cases "fst (FindByEmail (normal_email e) w)")
      case (Inl x)
      then show ?thesis using reg given adds
        by (cases "FindByEmail (normal_email e) w") (simp add: Register_def Let_def wrap_err_def bind_io_def)
    next
      case (Inr found)
      then show ?thesis using taken given adds \<open>res = Inr usr\<close> by (cases found) auto
    qed
    then show ?thesis using Inr adds given by simp
  qed
qed

section \<open>Login\<close>

lemma isAccountLocked_held:
  assumes "lock_usable (ae_lock_in_redis env) (ae_digest env) w e" and "is_held (ae_lock_in_redis env) (ae_digest env) w e"
    and "0 < ae_max_failures env"
  shows "fst (isAccountLocked env e w) = Inr True"
proof -
  obtain r v where g: "GetLockUntil (ae_lock_in_redis env) (ae_digest env) e w = (r, v)" by fastforce
  have r: "r = Inr (if ae_lock_in_redis env then redis_until (ae_digest env) w e else mem_until w e)"
    using GetLockUntil_run [OF assms(1)] g by simp
  have "now v = now w" using g assms(1)
    by (auto simp: GetLockUntil_def lock_usable_def redis_usable_def redis_GetLockUntil_def redis_hget_def
        mem_GetLockUntil_def bind_io_def gets_io_def time_now_def ret_def Let_def split: option.splits if_splits)
  then show ?thesis using r g assms(2,3)
    by (auto simp: isAccountLocked_def bind_io_def attempt_def time_now_def gets_io_def ret_def is_held_def held_def
        split: option.splits if_splits)
qed

text \<open>C17. A login by password gives out tokens only to the owner: when it succeeds it found an active account,
  the hash it read for it matches the password given, the tokens are issued to that account, and,
  where failed logins are limited and the store of locks answers, no lock was held on the email (a store that
  fails counts as no lock). The login through Google and the exchange of a refresh token, which give
  out tokens without a password, are not the subject of this theorem.\<close>

theorem login_needs_the_password:
  assumes "Login env e p w = (Inr res, w')"
  shows "\<exists>usr w1 w2 t. FindByEmail (normal_email e) w = (Inr (Some usr), w1) \<and> us_status usr = ''active'' \<and>
    isAccountLocked env (normal_email e) w1 = (Inr False, w2) \<and> ae_compare env (us_password_hash usr) p \<and>
    (if 0 < ae_max_failures env \<and> lock_usable (ae_lock_in_redis env) (ae_digest env) w1 (normal_email e)
     then \<not> is_held (ae_lock_in_redis env) (ae_digest env) w1 (normal_email e) else True) \<and>
    lr_user res = usr \<and> jwtGenerate (ae_lib env) (ae_jwt env) (us_id usr) (us_email usr) t = Inr (lr_access res, lr_refresh res)"
proof -
  let ?e = "normal_email e"
  obtain found w1 where 1: "FindByEmail ?e w = (Inr found, w1)"
    and k1: "(case found of None \<Rightarrow> throw ErrInvalidCredentials | Some usr \<Rightarrow>
            if us_status usr \<noteq> ''active'' then throw ErrAccountLocked
            else bind_io (isAccountLocked env ?e) (\<lambda>locked.
              if locked then throw ErrAccountLocked
              else if \<not> ae_compare env (us_password_hash usr) p
              then then_io (recordLoginFailure env ?e) (throw ErrInvalidCredentials)
              else then_io (clearLoginFailure env ?e)
               (bind_io (IssueTokens env usr) (\<lambda>res.
                then_io (publishEvent (UserLoggedIn (us_id usr) ''password'')) (ret res))))) w1 = (Inr res, w')"
    using assms unfolding Login_def Let_def bind_io_Inr wrap_err_Inr by blast
  obtain usr where usr: "found = Some usr" using k1 by (cases found) auto
  have active: "us_status usr = ''active''" using k1 usr by (auto split: if_splits)
  obtain locked w2 where 2: "isAccountLocked env ?e w1 = (Inr locked, w2)"
    and k2: "(if locked then throw ErrAccountLocked
              else if \<not> ae_compare env (us_password_hash usr) p
              then then_io (recordLoginFailure env ?e) (throw ErrInvalidCredentials)
              else then_io (clearLoginFailure env ?e)
               (bind_io (IssueTokens env usr) (\<lambda>res.
                then_io (publishEvent (UserLoggedIn (us_id usr) ''password'')) (ret res)))) w2 = (Inr res, w')"
    using k1 usr active by (auto simp: bind_io_Inr)
  have ok: "\<not> locked" "ae_compare env (us_password_hash usr) p"
    using k2 by (auto simp: then_io_Inr split: if_splits)
  obtain w3 res' w4 where 3: "IssueTokens env usr w3 = (Inr res', w4)" and "res = res'"
    using k2 ok by (auto simp: then_io_Inr bind_io_Inr ret_Inr)
  then have "lr_user res = usr \<and> jwtGenerate (ae_lib env) (ae_jwt env) (us_id usr) (us_email usr) (now w3) = Inr (lr_access res, lr_refresh res)"
    by (auto simp: IssueTokens_def time_now_def lift_result_def Inr_rules throw_def split: sum.splits prod.splits)
  moreover have "\<not> is_held (ae_lock_in_redis env) (ae_digest env) w1 ?e"
    if "0 < ae_max_failures env" "lock_usable (ae_lock_in_redis env) (ae_digest env) w1 ?e"
    using isAccountLocked_held [of env w1 ?e] that 2 ok(1) by auto
  ultimately show ?thesis using 1 2 usr active ok by auto
qed

text \<open>A locked account is refused whatever password is given: no password is compared, no token
  issued and no account changed, until the lock is over.\<close>

theorem locked_account_is_refused:
  assumes "FindByEmail (normal_email e) w = (Inr (Some usr), w1)" and "us_status usr = ''active''" and "0 < ae_max_failures env"
    and "lock_usable (ae_lock_in_redis env) (ae_digest env) w1 (normal_email e)"
    and "is_held (ae_lock_in_redis env) (ae_digest env) w1 (normal_email e)"
  shows "fst (Login env e p w) = Inl ErrAccountLocked \<and> users (snd (Login env e p w)) = users w"
proof
  obtain v where "isAccountLocked env (normal_email e) w1 = (Inr True, v)"
    using isAccountLocked_held [OF assms(4,5,3)] by (metis prod.collapse)
  then show "fst (Login env e p w) = Inl ErrAccountLocked"
    using assms(1,2) by (simp add: Login_def wrap_err_def bind_io_def throw_def Let_def)
  show "users (snd (Login env e p w)) = users w"
    using same_users.ev_Login by (simp add: evolves_def)
qed

section \<open>Refreshing\<close>

lemma blacklist_refresh_runs:
  assumes "cl_expires c \<noteq> None"
  shows "\<exists>w'. blacklist_refresh env c w = (Inr (), w')"
proof -
  obtain x where "cl_expires c = Some x" using assms by blast
  then have "fails_with (\<lambda>_. False) (blacklist_refresh env c)"
    unfolding blacklist_refresh_def time_now_def by (simp, intro fw_rules)
  then show ?thesis by (cases "blacklist_refresh env c w"; cases "fst (blacklist_refresh env c w)") (auto dest: fails_withD)
qed

text \<open>A refresh token works again and again: a token that validates and whose user exists is
  exchanged for a new pair in every state, also when an earlier exchange or a logout has put
  it on the blacklist, which is never consulted.\<close>

theorem refresh_token_is_never_spent:
  assumes "jwtValidate (ae_lib env) (ae_jwt env) (now w) tok = Inr c" and "cl_expires c \<noteq> None"
    and "FindByID (cl_user c) w = (Inr (Some usr), w1)"
    and "\<And>t. \<exists>access refresh. jwtGenerate (ae_lib env) (ae_jwt env) (us_id usr) (us_email usr) t = Inr (access, refresh)"
  shows "\<exists>res. fst (RefreshToken env tok w) = Inr res \<and> lr_user res = usr"
proof -
  obtain w2 where 2: "blacklist_refresh env c w1 = (Inr (), w2)" using blacklist_refresh_runs [OF assms(2)] by blast
  obtain a r where "jwtGenerate (ae_lib env) (ae_jwt env) (us_id usr) (us_email usr) (now w2) = Inr (a, r)"
    using assms(4) by blast
  then show ?thesis using assms(1,3) 2
    by (simp add: RefreshToken_def IssueTokens_def time_now_def lift_result_def wrap_err_def bind_io_def then_io_def
        gets_io_def ret_def)
qed

section \<open>Passwords\<close>

lemma UpdatePassword_cases:
  assumes "UpdatePassword i h t w = (res, w')"
  shows "(\<exists>e. res = Inl e) \<and> users w' = users w \<or> res = Inr () \<and>
    users w' = update_where (\<lambda>u. us_id u = i) (\<lambda>u. u\<lparr>us_password_hash := h, us_password_changed := t\<rparr>) (users w)"
proof -
  let ?up = "update_where (\<lambda>u. us_id u = i) (\<lambda>u. u\<lparr>us_password_hash := h, us_password_changed := t\<rparr>)"
  let ?wr = "user_write ''user update password'' (\<lambda>us. (Inr (), ?up us))"
  let ?rest = "bind_io (gets_io cache_on) (\<lambda>on.
      bind_io (if on then attempt (first_user (\<lambda>u. us_id u = i)) else ret (Inr None)) (\<lambda>r.
      invalidateUser i (case r of Inr (Some u) \<Rightarrow> us_email u | _ \<Rightarrow> [])))"
  obtain x v where 1: "?wr w = (x, v)" by fastforce
  have c: "(\<exists>e. x = Inl e) \<and> users v = users w \<or> x = Inr () \<and> users v = ?up (users w)"
    using 1 by (auto simp: user_write_def ext_def split: list.splits if_splits)
  obtain y u where 2: "?rest v = (y, u)" by fastforce
  have f: "fails_with (\<lambda>_. False) ?rest" unfolding invalidateUser_def Let_def by (intro fw_rules)
  have "evolves (\<lambda>w w'. users w' = users w) ?rest"
    by (intro user_reads same_users.ev_first_user same_users.ev_invalidateUser)
  then have "users u = users v" using 2 by (rule evolvesD)
  moreover have "\<exists>z. y = Inr z" using fails_withD [OF f] 2 by (cases y) auto
  moreover have "UpdatePassword i h t w = (case x of Inl e \<Rightarrow> (Inl e, v) | Inr _ \<Rightarrow> (y, u))"
    using 1 2 by (auto simp: UpdatePassword_def then_io_def bind_io_def split: sum.splits)
  ultimately show ?thesis using assms c by auto
qed

lemma undo_UpdatePassword: "undoes (\<lambda>w w'. users w' = users w) (UpdatePassword i h t)"
  unfolding undoes_def using UpdatePassword_cases by fastforce

lemma bcrypt_same_users:
  "evolves (\<lambda>w w'. users w' = users w) acquireBcrypt" "evolves (\<lambda>w w'. users w' = users w) releaseBcrypt"
  by (auto simp: evolves_def acquireBcrypt_def releaseBcrypt_def io_defs)

text \<open>A refused change of password changes no account.\<close>

theorem refused_password_change_keeps_accounts:
  assumes "ChangePassword env i old new w = (Inl e, w')"
  shows "users w' = users w"
proof -
  have never: "fails_with (\<lambda>_. False) (when_io b (best_effort m))" for b and m :: "(world, unit) io"
    by (intro fw_rules)
  have "undoes (\<lambda>w w'. users w' = users w) (ChangePassword env i old new)"
    unfolding ChangePassword_def
    by (intro same_users.un_bind_before same_users.un_option same_users.un_throw same_users.un_then_before same_users.un_after
        same_users.un_if same_users.un_then_after same_users.un_wrap_err undo_UpdatePassword never user_reads bcrypt_same_users)
  then show ?thesis using assms by (rule undoesD)
qed

lemma slots_UpdatePassword: "evolves (\<lambda>w w'. bcrypt_free w' = bcrypt_free w) (UpdatePassword i h t)"
proof -
  have "evolves (\<lambda>w w'. bcrypt_free w' = bcrypt_free w) (user_write name f)" for name and f :: "user list \<Rightarrow> (gerr + unit) \<times> user list"
    unfolding user_write_def by (intro same_slots.ev_ext evolvesI) (simp add: case_prod_beta)
  then show ?thesis unfolding UpdatePassword_def
    by (intro same_slots.ev_quiet_world same_slots.ev_first_user same_slots.ev_invalidateUser)
qed

text \<open>Every slot that a change of password takes is given back, however it ends; a change that finds
  no free slot is refused.\<close>

theorem bcrypt_slots_are_returned:
  "bcrypt_free (snd (ChangePassword env i old new w)) = bcrypt_free w"
proof -
  let ?R = "\<lambda>w w'. bcrypt_free w' = bcrypt_free w"
  let ?body = "\<lambda>usr. if \<not> ae_compare env (us_password_hash usr) old then throw ErrInvalidCredentials
               else case validatePassword env new of
                 Some e \<Rightarrow> throw (Wrap ''validate new password'' e)
               | None \<Rightarrow>
                   bind_io (wrap_err ''hash password'' (bcrypt_Hash env new (bcryptCost env))) (\<lambda>hash.
                   bind_io time_now (\<lambda>t.
                   then_io (wrap_err ''update password'' (UpdatePassword i hash (Some t)))
                     (when_io (ae_blacklist_on env)
                        (best_effort (AddBlacklist (''pwd_change:'' @ i) (ae_refresh_ttl env))))))"
  have body: "evolves ?R (?body usr)" for usr
    by (intro same_slots.ev_quiet_world same_slots.ev_bcrypt_Hash slots_UpdatePassword same_slots.ev_AddBlacklist)
  have "evolves ?R (then_io acquireBcrypt (finally_io (?body usr) releaseBcrypt))" for usr
  proof (rule evolvesI)
    fix w
    show "?R w (snd (then_io acquireBcrypt (finally_io (?body usr) releaseBcrypt) w))"
    proof (cases "bcrypt_free w > 0")
      case True
      let ?v = "w\<lparr>bcrypt_free := bcrypt_free w - 1\<rparr>"
      have "bcrypt_free (snd (?body usr ?v)) = bcrypt_free w - 1"
        using body [of usr] unfolding evolves_def by (simp only: simp_thms) simp
      then show ?thesis using True
        by (simp add: then_io_def bind_io_def acquireBcrypt_def gets_io_def modify_io_def finally_io_def releaseBcrypt_def
            case_prod_beta)
    next
      case False
      then show ?thesis by (simp add: then_io_def bind_io_def acquireBcrypt_def gets_io_def throw_def)
    qed
  qed
  then have "evolves ?R (ChangePassword env i old new)"
    unfolding ChangePassword_def
    by (intro same_slots.ev_bind same_slots.ev_wrap_err same_slots.ev_user_finds same_slots.ev_option same_slots.ev_throw)
  then show ?thesis by (simp add: evolves_def)
qed

section \<open>Binding a Google id\<close>

text \<open>Binding a Google id writes back the copy of the account that was read: when it came from the
  cache, which does not hold the password hash, the account loses its password, and its balance
  becomes that of the copy.\<close>

theorem google_binding_writes_back_the_copy:
  assumes "email \<noteq> []" and "FindByGoogleID g w = (Inr None, w1)" and "FindByEmail email w1 = (Inr (Some usr), w2)"
    and "faults w2 = []" and "0 \<le> us_points usr" and "\<exists>v \<in> set (users w2). us_id v = us_id usr"
    and "\<not> (\<exists>v \<in> set (users w2). us_id v \<noteq> us_id usr \<and> user_conflict (usr\<lparr>us_google := Some g\<rparr>) v)"
  shows "users (snd (find_or_bind g email w)) = update_where (\<lambda>v. us_id v = us_id usr) (\<lambda>_. usr\<lparr>us_google := Some g\<rparr>) (users w)"
proof -
  let ?u = "usr\<lparr>us_google := Some g\<rparr>" and ?up = "update_where (\<lambda>v. us_id v = us_id usr) (\<lambda>_. usr\<lparr>us_google := Some g\<rparr>)"
  have save: "user_save ?u w2 = (Inr (), w2\<lparr>users := ?up (users w2)\<rparr>)"
    using assms(4-7) by (simp add: user_save_def user_write_def)
  obtain r v where inv: "invalidateUser (us_id ?u) (us_email ?u) (w2\<lparr>users := ?up (users w2)\<rparr>) = (r, v)" by fastforce
  have v: "users v = ?up (users w2)" using evolvesD [OF same_users.ev_invalidateUser inv] by simp
  have "users w2 = users w1" "users w1 = users w"
    using evolvesD [OF same_users.ev_user_finds(2) assms(3)] evolvesD [OF same_users.ev_user_finds(3) assms(2)] by simp_all
  moreover have "snd (find_or_bind g email w) = v"
    using assms(1-3) save inv
    by (cases r) (simp_all add: find_or_bind_def user_Update_def wrap_err_def bind_io_def then_io_def ret_def)
  ultimately show ?thesis using v by simp
qed

section \<open>Examples\<close>

text \<open>A hash is the password behind a mark; identifiers and digests are readable.\<close>

definition sample_env :: auth_env where
  "sample_env = \<lparr>ae_max_failures = 2, ae_lock_duration = hour, ae_fail_delays = [], ae_min_length = 6,
     ae_require_upper = False, ae_require_lower = True, ae_require_digit = True, ae_require_special = False,
     ae_require_categories = 1, ae_bcrypt_cost = 4, ae_blacklist_on = True, ae_mailer_on = False,
     ae_lock_in_redis = False, ae_client_id = ''id'', ae_client_secret = ''secret'', ae_jwt = Some sample_mgr,
     ae_lib = sample_lib, ae_refresh_ttl = 24 * hour, ae_hash = (\<lambda>p cost salt. Inr (''#'' @ p)),
     ae_compare = (\<lambda>h p. h = ''#'' @ p), ae_uuid = (\<lambda>k. replicate (Suc k) (CHR ''i'')), ae_digest = (\<lambda>e. e),
     ae_google_token = (\<lambda>code. Inl (Fault ''google'')), ae_google_user = (\<lambda>tok. Inl (Fault ''google''))\<rparr>"

definition alice :: user where
  "alice = new_user ''u1'' ''alice'' ''a@b'' ''#secret''"

definition auth_world :: world where
  "auth_world = empty_world\<lparr>cache_on := False, users := [alice]\<rparr>"

lemma auth_world_find: "FindByEmail ''a@b'' auth_world = (Inr (Some alice), auth_world)" "FindByID ''u1'' auth_world = (Inr (Some alice), auth_world)"
  by (simp_all add: FindByEmail_def FindByID_def cached_first_user_def first_user_def user_read_def bind_io_def gets_io_def auth_world_def
      empty_world_def alice_def new_user_def)

lemma alice_email: "normal_email '' A@b'' = ''a@b''"
  by code_simp

theorem accounts_stay_distinct_witness:
  "accounts_ok (users (fold (\<lambda>req v. snd (run_auth sample_env req v)) [DoRegister ''c@d'' ''secret'' [], DoLogin ''a@b'' ''secret''] auth_world))"
  by (rule accounts_stay_distinct) (simp add: auth_world_def accounts_ok_def alice_def new_user_def)

theorem refused_registration_creates_nobody_witness:
  "users (snd (Register sample_env ''A@b'' ''secret'' [] auth_world)) = [alice]"
proof -
  have "fst (Register sample_env ''A@b'' ''secret'' [] auth_world) = Inl ErrEmailRegistered" by code_simp
  then have "Register sample_env ''A@b'' ''secret'' [] auth_world =
      (Inl ErrEmailRegistered, snd (Register sample_env ''A@b'' ''secret'' [] auth_world))" by (metis prod.collapse)
  from refused_registration_creates_nobody [OF this] show ?thesis by (simp add: auth_world_def)
qed

definition carol :: user where
  "carol = new_user ''ii'' ''c'' ''c@d'' ''#secret''"

theorem registration_adds_one_account_witness:
  "users (snd (Register sample_env ''C@d'' ''secret'' [] auth_world)) = [alice, carol]"
proof -
  have "fst (Register sample_env ''C@d'' ''secret'' [] auth_world) = Inr carol" by code_simp
  then have "Register sample_env ''C@d'' ''secret'' [] auth_world =
      (Inr carol, snd (Register sample_env ''C@d'' ''secret'' [] auth_world))" by (metis prod.collapse)
  from registration_adds_one_account [OF this] show ?thesis by (simp add: auth_world_def)
qed

theorem registration_is_all_or_nothing_witness:
  "users (snd (Register sample_env '' C@d'' ''secret'' [] auth_world)) = [alice, carol] \<and>
   Register sample_env ''A@b'' ''secret'' [] auth_world = (Inl ErrEmailRegistered, auth_world)"
proof
  have "fst (Register sample_env '' C@d'' ''secret'' [] auth_world) = Inr carol" by code_simp
  then have "Register sample_env '' C@d'' ''secret'' [] auth_world =
      (Inr carol, snd (Register sample_env '' C@d'' ''secret'' [] auth_world))" by (metis prod.collapse)
  from registration_is_all_or_nothing [OF this] show "users (snd (Register sample_env '' C@d'' ''secret'' [] auth_world)) = [alice, carol]"
    by (simp add: auth_world_def)
  have e: "normal_email ''A@b'' = ''a@b''" "TrimSpace ''A@b'' \<noteq> []" "validatePassword sample_env ''secret'' = None" by code_simp+
  show "Register sample_env ''A@b'' ''secret'' [] auth_world = (Inl ErrEmailRegistered, auth_world)"
    using registration_is_all_or_nothing [of sample_env "''A@b''" "''secret''" "[]" auth_world _ _ alice, OF prod.collapse [symmetric]] e
    by (simp add: auth_world_find prod_eq_iff)
qed

theorem login_needs_the_password_witness:
  "\<exists>res. fst (Login sample_env '' A@b'' ''secret'' auth_world) = Inr res \<and> lr_user res = alice"
proof -
  have "case fst (Login sample_env '' A@b'' ''secret'' auth_world) of Inl e \<Rightarrow> False | Inr r \<Rightarrow> True" by code_simp
  then obtain res where "fst (Login sample_env '' A@b'' ''secret'' auth_world) = Inr res" by (auto split: sum.splits)
  moreover from this have "Login sample_env '' A@b'' ''secret'' auth_world =
      (Inr res, snd (Login sample_env '' A@b'' ''secret'' auth_world))" by (metis prod.collapse)
  ultimately show ?thesis
    using login_needs_the_password [of sample_env "'' A@b''" "''secret''" auth_world res]
    by (auto simp: alice_email auth_world_find)
qed

definition locked_world :: world where
  "locked_world = fail_times 2 False (\<lambda>e. e) ''a@b'' 2 (2 * hour) hour auth_world"

theorem locked_account_is_refused_witness:
  "fst (Login sample_env ''a@b'' ''secret'' locked_world) = Inl ErrAccountLocked \<and>
   users (snd (Login sample_env ''a@b'' ''secret'' locked_world)) = users locked_world"
proof (rule locked_account_is_refused)
  have e: "normal_email ''a@b'' = ''a@b''" by code_simp
  have w: "faults locked_world = []" "\<not> cache_on locked_world" "users locked_world = [alice]" by code_simp+
  then show "FindByEmail (normal_email ''a@b'') locked_world = (Inr (Some alice), locked_world)"
    by (simp add: e FindByEmail_def cached_first_user_def first_user_def user_read_def bind_io_def gets_io_def alice_def new_user_def)
  show "us_status alice = ''active''" "0 < ae_max_failures sample_env"
    "lock_usable (ae_lock_in_redis sample_env) (ae_digest sample_env) locked_world (normal_email ''a@b'')"
    by (simp_all add: alice_def new_user_def sample_env_def lock_usable_def)
  show "is_held (ae_lock_in_redis sample_env) (ae_digest sample_env) locked_world (normal_email ''a@b'')" by code_simp
qed

theorem refresh_token_is_never_spent_witness:
  "\<exists>res. fst (RefreshToken sample_env (cl_id refresh_claims) (snd (RefreshToken sample_env (cl_id refresh_claims) auth_world))) = Inr res
     \<and> lr_user res = alice"
proof (rule refresh_token_is_never_spent)
  let ?w = "snd (RefreshToken sample_env (cl_id refresh_claims) auth_world)"
  have "jwt_sign sample_lib sample_mgr refresh_claims = Inr (cl_id refresh_claims)" by (simp add: jwt_sign_def sample_lib_def)
  then show "jwtValidate (ae_lib sample_env) (ae_jwt sample_env) (now ?w) (cl_id refresh_claims) = Inr refresh_claims"
    using validate_signed [OF sample_parses(2)] by (simp add: jwtValidate_def sample_env_def)
  show "cl_expires refresh_claims \<noteq> None" by (simp add: refresh_claims_def make_claims_def)
  have w: "faults ?w = []" "\<not> cache_on ?w" "users ?w = [alice]" by code_simp+
  then show "FindByID (cl_user refresh_claims) ?w = (Inr (Some alice), ?w)"
    by (simp add: FindByID_def cached_first_user_def first_user_def user_read_def bind_io_def gets_io_def
        alice_def new_user_def refresh_claims_def make_claims_def)
  fix t
  show "\<exists>access refresh. jwtGenerate (ae_lib sample_env) (ae_jwt sample_env) (us_id alice) (us_email alice) t = Inr (access, refresh)"
    by (simp add: jwtGenerate_def sample_env_def GenerateTokenPair_def GenerateAccessToken_def GenerateRefreshToken_def
        jwt_sign_def sample_lib_def)
qed

theorem refused_password_change_keeps_accounts_witness:
  "users (snd (ChangePassword sample_env ''u1'' ''secret'' ''abc'' auth_world)) = [alice]"
proof -
  have "case fst (ChangePassword sample_env ''u1'' ''secret'' ''abc'' auth_world) of Inl e \<Rightarrow> True | Inr u \<Rightarrow> False" by code_simp
  then obtain x where "fst (ChangePassword sample_env ''u1'' ''secret'' ''abc'' auth_world) = Inl x" by (auto split: sum.splits)
  then have "ChangePassword sample_env ''u1'' ''secret'' ''abc'' auth_world =
      (Inl x, snd (ChangePassword sample_env ''u1'' ''secret'' ''abc'' auth_world))" by (metis prod.collapse)
  from refused_password_change_keeps_accounts [OF this] show ?thesis by (simp add: auth_world_def)
qed

text \<open>After one read the account is served from the cache, without its hash.\<close>

definition cached_world :: world where
  "cached_world = snd (FindByEmail ''a@b'' (auth_world\<lparr>cache_on := True\<rparr>))"

theorem google_binding_writes_back_the_copy_witness:
  "map us_password_hash (users (snd (find_or_bind ''g1'' ''a@b'' cached_world))) = [[]]"
proof -
  let ?g = "FindByGoogleID ''g1'' cached_world" and ?copy = "alice\<lparr>us_password_hash := []\<rparr>"
  let ?f = "FindByEmail ''a@b'' (snd ?g)"
  have g: "fst ?g = Inr None" and f: "fst ?f = Inr (Some ?copy)" by code_simp+
  have u: "faults (snd ?f) = []" "users (snd ?f) = [alice]" "users cached_world = [alice]" by code_simp+
  have "users (snd (find_or_bind ''g1'' ''a@b'' cached_world)) =
      update_where (\<lambda>v. us_id v = us_id ?copy) (\<lambda>_. ?copy\<lparr>us_google := Some ''g1''\<rparr>) (users cached_world)"
  proof (rule google_binding_writes_back_the_copy)
    show "?g = (Inr None, snd ?g)" "?f = (Inr (Some ?copy), snd ?f)" using g f by (metis prod.collapse)+
  qed (use u in \<open>simp_all add: alice_def new_user_def\<close>)
  then show ?thesis using u by (simp add: update_where_def)
qed

end
