(* ===== verification/Retry.thy ===== *)
theory Retry
  imports World
begin

text \<open>
  Calling the handler of a message (\<open>internal/mq/retry.go\<close>, \<open>internal/mq/ctx.go\<close>): a panic becomes
  an error, a failed call is repeated with exponential backoff, a cancelled context ends the
  repetitions. The Kafka consumer, the in-memory consumer and the other adapters share the loop.
  The state the handler acts on is a type parameter.
\<close>

section \<open>Defaults\<close>

definition maxInt :: "int \<Rightarrow> int \<Rightarrow> int" where
  "maxInt a b = (if b < a then a else b)"

definition orDuration :: "duration \<Rightarrow> duration \<Rightarrow> duration" where
  "orDuration d def = (if d \<le> 0 then def else d)"

definition orInt :: "int \<Rightarrow> int \<Rightarrow> int" where
  "orInt d def = (if d = 0 then def else d)"

definition orStr :: "string \<Rightarrow> string \<Rightarrow> string" where
  "orStr s def = (if s = [] then def else s)"

section \<open>Calls of the handler\<close>

text \<open>
  A handler returns an error value or panics. The worker that calls it has the state the handler
  acts on, the number of sleeps after which its context is cancelled (\<open>None\<close>: never) and the
  delays it has slept.
\<close>

datatype handler_result = Returned "gerr option" | Panicked string

type_synonym ('m, 'w) handler = "'m \<Rightarrow> 'w \<Rightarrow> handler_result \<times> 'w"

record 'w worker =
  app :: 'w
  ctx_left :: "nat option"
  slept :: "duration list"

definition errHandlerPanic :: string where
  "errHandlerPanic = ''mq handler panic''"

definition handler_error :: "handler_result \<Rightarrow> gerr option" where
  "handler_error r = (case r of Returned e \<Rightarrow> e | Panicked s \<Rightarrow> Some (Wrap s (Sentinel errHandlerPanic)))"

definition callHandlerSafe :: "('m, 'w) handler \<Rightarrow> 'm \<Rightarrow> (('w, 'z) worker_scheme, unit) io" where
  "callHandlerSafe h m c =
     (case h m (app c) of (r, a) \<Rightarrow>
        (case handler_error r of None \<Rightarrow> Inr () | Some e \<Rightarrow> Inl e, c\<lparr>app := a\<rparr>))"

definition ctx_cancelled :: "('w, 'z) worker_scheme \<Rightarrow> bool" where
  "ctx_cancelled c \<longleftrightarrow> ctx_left c = Some 0"

definition ctx_Err :: gerr where
  "ctx_Err = Sentinel ''context canceled''"

text \<open>A sleep in a context that is cancelled, or cancelled meanwhile, returns at once.\<close>

definition after_sleep :: "duration \<Rightarrow> ('w, 'z) worker_scheme \<Rightarrow> ('w, 'z) worker_scheme" where
  "after_sleep d c = (if ctx_cancelled c then c
     else c\<lparr>slept := slept c @ [d], ctx_left := map_option (\<lambda>n. n - 1) (ctx_left c)\<rparr>)"

definition sleepWithContext :: "duration \<Rightarrow> (('w, 'z) worker_scheme, unit) io" where
  "sleepWithContext d = modify_io (after_sleep d)"

text \<open>\<open>delay *= 2; if delay > max \{ delay = max \}\<close>\<close>

definition next_delay :: "duration \<Rightarrow> duration \<Rightarrow> duration" where
  "next_delay mx d = (let d' = wrap64 (d * 2) in if mx < d' then mx else d')"

text \<open>The repetitions that are left after a call that failed with \<open>e\<close>.\<close>

primrec retry_from :: "('m, 'w) handler \<Rightarrow> 'm \<Rightarrow> duration \<Rightarrow> nat \<Rightarrow> duration \<Rightarrow> gerr \<Rightarrow> (('w, 'z) worker_scheme, unit) io" where
  "retry_from h m mx 0 delay e = throw e"
| "retry_from h m mx (Suc n) delay e =
     then_io (sleepWithContext delay)
       (bind_io (gets_io ctx_cancelled) (\<lambda>cancelled.
          if cancelled then throw ctx_Err
          else bind_io (attempt (callHandlerSafe h m)) (\<lambda>r.
            case r of
              Inr x \<Rightarrow> ret ()
            | Inl e' \<Rightarrow> (if errors_is e' errHandlerPanic then throw e'
                        else retry_from h m mx n (next_delay mx delay) e'))))"

definition retryProcess :: "('m, 'w) handler \<Rightarrow> 'm \<Rightarrow> int \<Rightarrow> duration \<Rightarrow> duration \<Rightarrow> (('w, 'z) worker_scheme, unit) io" where
  "retryProcess h m retryMax base mx =
     bind_io (attempt (callHandlerSafe h m)) (\<lambda>r.
       case r of
         Inr x \<Rightarrow> ret ()
       | Inl e \<Rightarrow> (if errors_is e errHandlerPanic then throw e
                  else retry_from h m mx (nat (maxInt retryMax 0)) base e))"

section \<open>How often the handler is called, and how long the worker sleeps\<close>

text \<open>The state after \<open>k\<close> calls and the result of call \<open>k\<close>, counted from 0.\<close>

primrec after_calls :: "('m, 'w) handler \<Rightarrow> 'm \<Rightarrow> nat \<Rightarrow> 'w \<Rightarrow> 'w" where
  "after_calls h m 0 a = a"
| "after_calls h m (Suc k) a = snd (h m (after_calls h m k a))"

definition call_result :: "('m, 'w) handler \<Rightarrow> 'm \<Rightarrow> nat \<Rightarrow> 'w \<Rightarrow> handler_result" where
  "call_result h m k a = fst (h m (after_calls h m k a))"

text \<open>The first \<open>k\<close> delays.\<close>

primrec delays :: "duration \<Rightarrow> duration \<Rightarrow> nat \<Rightarrow> duration list" where
  "delays mx d 0 = []"
| "delays mx d (Suc k) = d # delays mx (next_delay mx d) k"

text \<open>A call that may be repeated: it returned an error that is not a panic.\<close>

definition repeatable :: "handler_result \<Rightarrow> bool" where
  "repeatable r = (case r of Returned (Some e) \<Rightarrow> \<not> errors_is e errHandlerPanic | _ \<Rightarrow> False)"

lemma after_calls_first: "after_calls h m (Suc k) a = after_calls h m k (snd (h m a))"
  by (induction k) auto

lemma after_calls_one [simp]: "after_calls h m (Suc 0) a = snd (h m a)"
  by simp

declare after_calls.simps(2) [simp del] and retry_from.simps(2) [simp del]

lemma call_result_first: "call_result h m (Suc k) a = call_result h m k (snd (h m a))"
  by (simp add: call_result_def after_calls_first)

lemma callHandlerSafe_run:
  "callHandlerSafe h m c =
     (case handler_error (call_result h m 0 (app c)) of None \<Rightarrow> Inr () | Some e \<Rightarrow> Inl e, c\<lparr>app := after_calls h m 1 (app c)\<rparr>)"
  by (simp add: callHandlerSafe_def call_result_def split: prod.split)

lemma panic_is_not_repeatable:
  "repeatable r \<longleftrightarrow> (\<exists>e. handler_error r = Some e \<and> \<not> errors_is e errHandlerPanic)"
  by (auto simp: repeatable_def handler_error_def split: handler_result.splits option.splits)

lemma app_after_sleep [simp]: "app (after_sleep d c) = app c"
  by (simp add: after_sleep_def)

lemma after_sleep_live: "ctx_left c = None \<Longrightarrow> after_sleep d c = c\<lparr>slept := slept c @ [d]\<rparr>"
  by (cases c) (simp add: after_sleep_def ctx_cancelled_def)

text \<open>What one repetition does: nothing more in a cancelled context, else one more call.\<close>

lemma retry_from_step:
  "retry_from h m mx (Suc n) d e c =
     (let c1 = after_sleep d c; c2 = c1\<lparr>app := after_calls h m 1 (app c)\<rparr>
      in if ctx_cancelled c1 then (Inl ctx_Err, c1)
         else (case handler_error (call_result h m 0 (app c)) of
                 None \<Rightarrow> (Inr (), c2)
               | Some e' \<Rightarrow> (if errors_is e' errHandlerPanic then (Inl e', c2)
                            else retry_from h m mx n (next_delay mx d) e' c2)))"
  by (simp add: retry_from.simps(2) Let_def callHandlerSafe_run sleepWithContext_def modify_io_def then_io_def bind_io_def attempt_def
      gets_io_def throw_def ret_def split: option.split)

lemma retry_calls:
  assumes "retry_from h m mx n d e c = (r, c')"
  shows "\<exists>k \<le> n. app c' = after_calls h m k (app c)"
  using assms
proof (induction n arbitrary: d e c)
  case 0
  then show ?case by (auto simp: throw_def intro: exI [of _ 0])
next
  case (Suc n)
  let ?c1 = "after_sleep d c"
  let ?c2 = "?c1\<lparr>app := after_calls h m 1 (app c)\<rparr>"
  consider "c' = ?c1" | "c' = ?c2" | e' where "retry_from h m mx n (next_delay mx d) e' ?c2 = (r, c')"
    using Suc.prems unfolding retry_from_step Let_def
    by (auto split: if_splits option.splits)
  then show ?case
  proof cases
    case 1
    then show ?thesis by (auto intro: exI [of _ 0])
  next
    case 2
    then show ?thesis by (auto intro: exI [of _ 1])
  next
    case 3
    from Suc.IH [OF 3] obtain k where "k \<le> n" "app c' = after_calls h m k (after_calls h m 1 (app c))"
      by auto
    then have "Suc k \<le> Suc n" "app c' = after_calls h m (Suc k) (app c)"
      by (simp_all only: after_calls_first) (simp_all add: after_calls_first)
    then show ?thesis by blast
  qed
qed

lemma next_delay_le: "next_delay mx d \<le> mx"
  by (simp add: next_delay_def Let_def)

lemma retry_sleeps: "length (slept (snd (retry_from h m mx n d e c))) \<le> length (slept c) + n"
proof (induction n arbitrary: d e c)
  case 0
  then show ?case by (simp add: throw_def)
next
  case (Suc n)
  let ?c1 = "after_sleep d c"
  let ?c2 = "?c1\<lparr>app := after_calls h m 1 (app c)\<rparr>"
  have l: "length (slept ?c1) \<le> length (slept c) + 1"
    by (simp add: after_sleep_def)
  have "length (slept (snd (retry_from h m mx n (next_delay mx d) e' ?c2))) \<le> length (slept c) + Suc n" for e'
    using Suc.IH [of "next_delay mx d" e' ?c2] l by simp
  then show ?case
    using l unfolding retry_from_step Let_def by (auto split: option.split)
qed

text \<open>C34. A message is handled by at least one call of its handler and at most one more than the configured
  number of retries, with at most one sleep before each repetition: whatever the handler returns,
  panics included, and whenever its context is cancelled, the loop ends.\<close>

theorem retries_are_bounded:
  "\<exists>k. 1 \<le> k \<and> k \<le> nat (maxInt retryMax 0) + 1 \<and>
     app (snd (retryProcess h m retryMax base mx c)) = after_calls h m k (app c) \<and>
     length (slept (snd (retryProcess h m retryMax base mx c))) \<le> length (slept c) + nat (maxInt retryMax 0)"
proof -
  let ?n = "nat (maxInt retryMax 0)"
  let ?c1 = "c\<lparr>app := after_calls h m 1 (app c)\<rparr>"
  define c' where "c' = snd (retryProcess h m retryMax base mx c)"
  have "c' = ?c1 \<or> (\<exists>e. c' = snd (retry_from h m mx ?n base e ?c1))"
    unfolding c'_def retryProcess_def
    by (auto simp: callHandlerSafe_run attempt_def bind_io_def throw_def ret_def
        split: option.split)
  then show ?thesis
  proof
    assume "c' = ?c1"
    then show ?thesis by (auto simp flip: c'_def intro: exI [of _ 1])
  next
    assume "\<exists>e. c' = snd (retry_from h m mx ?n base e ?c1)"
    then obtain e where e: "c' = snd (retry_from h m mx ?n base e ?c1)" by blast
    obtain r where "retry_from h m mx ?n base e ?c1 = (r, c')" using e by (metis prod.collapse)
    from retry_calls [OF this] obtain k where "k \<le> ?n" "app c' = after_calls h m k (after_calls h m 1 (app c))"
      by auto
    then have "1 \<le> Suc k" "Suc k \<le> ?n + 1" "app c' = after_calls h m (Suc k) (app c)"
      by (simp_all only: after_calls_first) (simp_all add: after_calls_first)
    moreover have "length (slept c') \<le> length (slept c) + ?n"
      using retry_sleeps [of h m mx ?n base e ?c1] e by simp
    ultimately show ?thesis unfolding c'_def by blast
  qed
qed

lemma retry_from_until:
  assumes "ctx_left c = None" and "k < n"
    and "\<And>i. i < k \<Longrightarrow> repeatable (call_result h m i (app c))"
    and "\<not> repeatable (call_result h m k (app c)) \<or> Suc k = n"
  shows "retry_from h m mx n d e c =
    (case handler_error (call_result h m k (app c)) of None \<Rightarrow> Inr () | Some e \<Rightarrow> Inl e,
     c\<lparr>app := after_calls h m (Suc k) (app c), slept := slept c @ delays mx d (Suc k)\<rparr>)"
  using assms
proof (induction n arbitrary: k d e c)
  case 0
  then show ?case by simp
next
  case (Suc n)
  let ?c2 = "c\<lparr>slept := slept c @ [d], app := snd (h m (app c))\<rparr>"
  have step: "retry_from h m mx (Suc n) d e c =
      (case handler_error (call_result h m 0 (app c)) of
         None \<Rightarrow> (Inr (), ?c2)
       | Some e' \<Rightarrow> (if errors_is e' errHandlerPanic then (Inl e', ?c2)
                    else retry_from h m mx n (next_delay mx d) e' ?c2))"
    using Suc.prems(1) by (simp add: retry_from_step after_sleep_live ctx_cancelled_def Let_def)
  have fin: "?c2 = c\<lparr>app := snd (h m (app c)), slept := slept c @ [d]\<rparr>" by simp
  show ?case
  proof (cases k)
    case 0
    show ?thesis
      unfolding step using Suc.prems(4) 0
      by (cases "handler_error (call_result h m 0 (app c))")
        (auto simp: panic_is_not_repeatable throw_def)
  next
    case (Suc j)
    have "repeatable (call_result h m 0 (app c))" using Suc.prems(3) [of 0] Suc by simp
    then obtain e0 where e0: "handler_error (call_result h m 0 (app c)) = Some e0" "\<not> errors_is e0 errHandlerPanic"
      by (auto simp: panic_is_not_repeatable)
    have "retry_from h m mx n (next_delay mx d) e0 ?c2 =
      (case handler_error (call_result h m j (app ?c2)) of None \<Rightarrow> Inr () | Some e \<Rightarrow> Inl e,
       ?c2\<lparr>app := after_calls h m (Suc j) (app ?c2), slept := slept ?c2 @ delays mx (next_delay mx d) (Suc j)\<rparr>)"
    proof (rule Suc.IH)
      show "ctx_left ?c2 = None" using Suc.prems(1) by simp
      show "j < n" using Suc.prems(2) Suc by simp
      show "repeatable (call_result h m i (app ?c2))" if "i < j" for i
        using Suc.prems(3) [of "Suc i"] that Suc by (simp add: call_result_first)
      show "\<not> repeatable (call_result h m j (app ?c2)) \<or> Suc j = n"
        using Suc.prems(4) Suc by (simp add: call_result_first)
    qed
    then show ?thesis
      unfolding step using e0 Suc by (simp add: call_result_first after_calls_first [of h m "Suc j"])
  qed
qed

lemma retryProcess_first:
  assumes "repeatable (call_result h m 0 (app c))"
    and "handler_error (call_result h m 0 (app c)) = Some e"
  shows "retryProcess h m retryMax base mx c =
    retry_from h m mx (nat (maxInt retryMax 0)) base e (c\<lparr>app := after_calls h m 1 (app c)\<rparr>)"
  using assms by (auto simp: retryProcess_def callHandlerSafe_run attempt_def bind_io_def panic_is_not_repeatable)

lemma retry_until:
  assumes live: "ctx_left c = None" and k: "k \<le> nat (maxInt retryMax 0)"
    and rep: "\<And>i. i < k \<Longrightarrow> repeatable (call_result h m i (app c))"
    and stop: "\<not> repeatable (call_result h m k (app c)) \<or> k = nat (maxInt retryMax 0)"
  shows "retryProcess h m retryMax base mx c =
    (case handler_error (call_result h m k (app c)) of None \<Rightarrow> Inr () | Some e \<Rightarrow> Inl e,
     c\<lparr>app := after_calls h m (Suc k) (app c), slept := slept c @ delays mx base k\<rparr>)"
proof (cases k)
  case 0
  then show ?thesis
    using stop by (auto simp: retryProcess_def callHandlerSafe_run attempt_def bind_io_def ret_def throw_def
        panic_is_not_repeatable split: option.split)
next
  case (Suc j)
  let ?n = "nat (maxInt retryMax 0)"
  let ?c1 = "c\<lparr>app := after_calls h m 1 (app c)\<rparr>"
  have r0: "repeatable (call_result h m 0 (app c))" using rep Suc by simp
  then obtain e0 where e0: "handler_error (call_result h m 0 (app c)) = Some e0"
    by (auto simp: panic_is_not_repeatable)
  have "retry_from h m mx ?n base e0 ?c1 =
    (case handler_error (call_result h m j (app ?c1)) of None \<Rightarrow> Inr () | Some e \<Rightarrow> Inl e,
     ?c1\<lparr>app := after_calls h m (Suc j) (app ?c1), slept := slept ?c1 @ delays mx base (Suc j)\<rparr>)"
  proof (rule retry_from_until)
    show "ctx_left ?c1 = None" using live by simp
    show "j < ?n" using k Suc by simp
    show "repeatable (call_result h m i (app ?c1))" if "i < j" for i
      using rep [of "Suc i"] that Suc by (simp add: call_result_first)
    show "\<not> repeatable (call_result h m j (app ?c1)) \<or> Suc j = ?n"
      using stop Suc by (simp add: call_result_first)
  qed
  then show ?thesis
    using retryProcess_first [OF r0 e0] Suc by (simp add: call_result_first after_calls_first [of h m "Suc j"])
qed

text \<open>In a context that is not cancelled the handler is called until its first success: when the calls before
  the \<open>k\<close>-th return errors and the \<open>k\<close>-th, within the configured number of retries, returns none, the
  message is handled, the handler's state is that after these calls, and the worker has slept the
  backoff delays between them. When every call within the limit returns an error, the last error is
  returned.\<close>

theorem retries_stop_at_first_success:
  assumes "ctx_left c = None" and "k \<le> nat (maxInt retryMax 0)"
    and "list_all (\<lambda>i. repeatable (call_result h m i (app c))) [0..<k]"
    and "call_result h m k (app c) = Returned None \<or>
      k = nat (maxInt retryMax 0) \<and> call_result h m k (app c) = Returned (Some e)"
  shows "retryProcess h m retryMax base mx c =
    (if call_result h m k (app c) = Returned None then Inr () else Inl e,
     c\<lparr>app := after_calls h m (Suc k) (app c), slept := slept c @ delays mx base k\<rparr>)"
proof -
  have "retryProcess h m retryMax base mx c =
    (case handler_error (call_result h m k (app c)) of None \<Rightarrow> Inr () | Some e \<Rightarrow> Inl e,
     c\<lparr>app := after_calls h m (Suc k) (app c), slept := slept c @ delays mx base k\<rparr>)"
    using assms by (intro retry_until) (auto simp: list_all_iff repeatable_def)
  then show ?thesis using assms(4) by (auto simp: handler_error_def)
qed

text \<open>A handler that fails twice and then succeeds.\<close>

definition third_time :: "(string, nat) handler" where
  "third_time m n = (Returned (if n < 2 then Some (Fault m) else None), n + 1)"

theorem retries_stop_at_first_success_witness:
  "retryProcess third_time ''m'' 5 second (3 * second) \<lparr>app = 0, ctx_left = None, slept = []\<rparr> =
     (Inr (), \<lparr>app = 3, ctx_left = None, slept = [second, 2 * second]\<rparr>)"
proof -
  let ?c = "\<lparr>app = 0, ctx_left = None, slept = []\<rparr> :: nat worker"
  have r: "call_result third_time ''m'' k 0 = Returned (if k < 2 then Some (Fault ''m'') else None)
      \<and> after_calls third_time ''m'' k 0 = k" for k
    by (induction k) (auto simp: call_result_def third_time_def after_calls.simps)
  have "retryProcess third_time ''m'' 5 second (3 * second) ?c =
    (if call_result third_time ''m'' 2 (app ?c) = Returned None then Inr () else Inl ctx_Err,
     ?c\<lparr>app := after_calls third_time ''m'' (Suc 2) (app ?c), slept := slept ?c @ delays (3 * second) second 2\<rparr>)"
    by (rule retries_stop_at_first_success) (use r in \<open>auto simp: maxInt_def repeatable_def list_all_iff less_2_cases_iff upt_rec\<close>)
  moreover have "delays (3 * second) second 2 = [second, 2 * second]"
    by (simp add: numeral_2_eq_2 next_delay_def second_def wrap64_def Let_def)
  ultimately show ?thesis using r by simp
qed

lemma next_delay_doubles:
  "0 < d \<Longrightarrow> d \<le> mx \<Longrightarrow> mx \<le> 2 ^ 62 - 1 \<Longrightarrow> next_delay mx d = min mx (2 * d)"
  by (simp add: next_delay_def Let_def in_int64_def min_def)

text \<open>The backoff: with delays of at most half the range of a duration, the delay before repetition \<open>k\<close>
  is the base delay doubled \<open>k\<close> times, cut at the maximum, so it never decreases, never exceeds the
  maximum and never wraps around.\<close>

theorem backoff_doubles_up_to_the_maximum:
  assumes "0 < base" and "base \<le> mx" and "mx \<le> 2 ^ 62 - 1" and "k < n"
  shows "delays mx base n ! k = min mx (base * 2 ^ k)"
  using assms
proof (induction n arbitrary: base k)
  case 0
  then show ?case by simp
next
  case (Suc n)
  show ?case
  proof (cases k)
    case 0
    then show ?thesis using Suc.prems by simp
  next
    case (Suc j)
    have nd: "next_delay mx base = min mx (2 * base)"
      using Suc.prems by (intro next_delay_doubles)
    then have "delays mx (next_delay mx base) n ! j = min mx (min mx (2 * base) * 2 ^ j)"
      using Suc.IH [of "next_delay mx base" j] Suc.prems Suc by simp
    also have "\<dots> = min mx (base * 2 ^ Suc j)"
    proof (cases "mx \<le> 2 * base")
      case True
      have "mx * 1 \<le> mx * 2 ^ j" and "2 * base * 1 \<le> 2 * base * 2 ^ j"
        using Suc.prems by (auto intro!: mult_left_mono)
      with True show ?thesis by (auto simp: min_def mult.assoc mult.left_commute)
    next
      case False
      then show ?thesis by (simp add: min_def mult_ac)
    qed
    finally show ?thesis using Suc by simp
  qed
qed

theorem backoff_doubles_up_to_the_maximum_witness:
  "delays (16 * second) second 6 ! 5 = min (16 * second) (second * 2 ^ 5)"
  by (rule backoff_doubles_up_to_the_maximum) (simp_all add: second_def)

text \<open>A message counts as handled only when one of the calls returned no error.\<close>

lemma retry_from_success:
  assumes "retry_from h m mx n d e c = (Inr x, c')"
  shows "\<exists>k < n. call_result h m k (app c) = Returned None \<and> app c' = after_calls h m (Suc k) (app c)"
  using assms
proof (induction n arbitrary: d e c)
  case 0
  then show ?case by simp
next
  case (Suc n)
  let ?c2 = "after_sleep d c\<lparr>app := after_calls h m 1 (app c)\<rparr>"
  consider "handler_error (call_result h m 0 (app c)) = None" "c' = ?c2"
    | e' where "retry_from h m mx n (next_delay mx d) e' ?c2 = (Inr x, c')"
    using Suc.prems unfolding retry_from_step Let_def by (auto split: if_splits option.splits)
  then show ?case
  proof cases
    case 1
    then have "call_result h m 0 (app c) = Returned None"
      by (auto simp: handler_error_def split: handler_result.splits)
    then show ?thesis using 1(2) by (auto intro!: exI [of _ 0])
  next
    case 2
    from Suc.IH [OF 2] obtain k where "k < n" "call_result h m k (app ?c2) = Returned None"
      "app c' = after_calls h m (Suc k) (app ?c2)" by blast
    then have "Suc k < Suc n \<and> call_result h m (Suc k) (app c) = Returned None \<and>
        app c' = after_calls h m (Suc (Suc k)) (app c)"
      by (simp add: call_result_first after_calls_first [of h m "Suc k"])
    then show ?thesis by blast
  qed
qed

lemma retryProcess_success:
  assumes "retryProcess h m retryMax base mx c = (Inr x, c')"
  shows "\<exists>k \<le> nat (maxInt retryMax 0). call_result h m k (app c) = Returned None \<and> app c' = after_calls h m (Suc k) (app c)"
proof -
  let ?c1 = "c\<lparr>app := after_calls h m 1 (app c)\<rparr>"
  consider "handler_error (call_result h m 0 (app c)) = None" "c' = ?c1"
    | e where "retry_from h m mx (nat (maxInt retryMax 0)) base e ?c1 = (Inr x, c')"
    using assms by (auto simp: retryProcess_def callHandlerSafe_run attempt_def bind_io_def ret_def throw_def
        split: option.splits if_splits)
  then show ?thesis
  proof cases
    case 1
    then have "call_result h m 0 (app c) = Returned None"
      by (auto simp: handler_error_def split: handler_result.splits)
    then show ?thesis using 1(2) by (auto intro!: exI [of _ 0])
  next
    case 2
    from retry_from_success [OF 2] obtain k where "k < nat (maxInt retryMax 0)"
      "call_result h m k (app ?c1) = Returned None" "app c' = after_calls h m (Suc k) (app ?c1)" by blast
    then have "Suc k \<le> nat (maxInt retryMax 0) \<and> call_result h m (Suc k) (app c) = Returned None \<and>
        app c' = after_calls h m (Suc (Suc k)) (app c)"
      by (simp add: call_result_first after_calls_first [of h m "Suc k"])
    then show ?thesis by blast
  qed
qed

section \<open>What the loop leaves alone\<close>

text \<open>Only the fields of the worker change, nothing a record adds to them.\<close>

definition same_rest :: "('w, 'z) worker_scheme \<Rightarrow> ('w, 'z) worker_scheme \<Rightarrow> bool" where
  "same_rest c c' \<longleftrightarrow> worker.more c' = worker.more c"

interpretation rest: two_state same_rest
  by unfold_locales (auto simp: same_rest_def)

lemma rest_callHandlerSafe: "evolves same_rest (callHandlerSafe h m)"
  by (simp add: evolves_def same_rest_def callHandlerSafe_def split: prod.split)

lemma rest_sleepWithContext: "evolves same_rest (sleepWithContext d)"
  by (simp add: evolves_def same_rest_def sleepWithContext_def modify_io_def after_sleep_def)

lemma rest_retry_from: "evolves same_rest (retry_from h m mx n d e)"
  by (induction n arbitrary: d e)
    (auto simp: retry_from.simps intro!: rest.ev_rules rest_sleepWithContext rest_callHandlerSafe)

lemma rest_retryProcess: "evolves same_rest (retryProcess h m retryMax base mx)"
  unfolding retryProcess_def by (intro rest.ev_rules rest_callHandlerSafe rest_retry_from)

end
