(* ===== verification/Consumer.thy ===== *)
theory Consumer
  imports Retry
begin

text \<open>
  Consumption of the event log (\<open>internal/mq/kafka_consumer.go\<close>,
  \<open>internal/mq/consumer_progress.go\<close>): the stores of the consumed offsets, the handling of one
  message with its retries, its dead letters and the duplicates it skips, the assignment of
  partitions to instances, and the readers with their workers and crashes as a step relation.
\<close>

section \<open>Stores of the progress\<close>

text \<open>
  The interface \<open>ConsumerProgressStore\<close> as a record of its functions over a state of the store.
  \<open>Commit\<close> takes the topic, the partition, the next offset, the event and whether to write at once.
\<close>

record 's progress_ops =
  op_Get :: "string \<Rightarrow> int \<Rightarrow> ('s, int option) io"
  op_Commit :: "string \<Rightarrow> int \<Rightarrow> int \<Rightarrow> string \<Rightarrow> bool \<Rightarrow> ('s, unit) io"
  op_Seen :: "string \<Rightarrow> ('s, bool) io"
  op_Flush :: "('s, unit) io"

subsection \<open>The file\<close>

text \<open>
  The map in memory and its copy on disk; each write of the file can fail and then leaves the old
  file (it is written aside and renamed).
\<close>

record file_progress =
  fp_mem :: "string \<rightharpoonup> int"
  fp_disk :: "string \<rightharpoonup> int"
  fp_faults :: "bool list"

definition offsetKey :: "string \<Rightarrow> int \<Rightarrow> string" where
  "offsetKey topic part = topic @ ''/'' @ show_int part"

definition file_write :: "(file_progress, 'a) io \<Rightarrow> (file_progress, 'a) io" where
  "file_write m s = (case fp_faults s of
      [] \<Rightarrow> m s
    | b # bs \<Rightarrow> (if b then (Inl (Fault ''write''), s\<lparr>fp_faults := bs\<rparr>) else m (s\<lparr>fp_faults := bs\<rparr>)))"

definition offset_set :: "string \<Rightarrow> int \<Rightarrow> int \<Rightarrow> file_progress \<Rightarrow> file_progress" where
  "offset_set topic part off s =
     (let k = offsetKey topic part in
      if (case fp_mem s k of None \<Rightarrow> True | Some old \<Rightarrow> old < off)
      then s\<lparr>fp_mem := (fp_mem s)(k \<mapsto> off)\<rparr> else s)"

definition file_flush :: "(file_progress, unit) io" where
  "file_flush = file_write (modify_io (\<lambda>s. s\<lparr>fp_disk := fp_mem s\<rparr>))"

definition file_Get :: "string \<Rightarrow> int \<Rightarrow> (file_progress, int option) io" where
  "file_Get topic part = gets_io (\<lambda>s. fp_mem s (offsetKey topic part))"

definition file_Commit :: "string \<Rightarrow> int \<Rightarrow> int \<Rightarrow> string \<Rightarrow> bool \<Rightarrow> (file_progress, unit) io" where
  "file_Commit topic part off eventID sync =
     then_io (modify_io (offset_set topic part off)) (if sync then file_flush else ret ())"

definition file_Seen :: "string \<Rightarrow> (file_progress, bool) io" where
  "file_Seen eventID = ret False"

definition file_ops :: "file_progress progress_ops" where
  "file_ops = \<lparr>op_Get = file_Get, op_Commit = file_Commit, op_Seen = file_Seen, op_Flush = file_flush\<rparr>"

text \<open>A new process reads the file it finds.\<close>

definition file_load :: "file_progress \<Rightarrow> file_progress" where
  "file_load s = s\<lparr>fp_mem := fp_disk s\<rparr>"

subsection \<open>The table\<close>

record progress_row =
  cp_topic :: string
  cp_partition :: int
  cp_offset :: int

record dedup_row =
  cd_event :: string
  cd_topic :: string
  cd_partition :: int
  cd_offset :: int

record sql_progress =
  sp_rows :: "progress_row list"
  sp_dedups :: "dedup_row list"
  sp_faults :: "bool list"

definition sql_call :: "(sql_progress, 'a) io \<Rightarrow> (sql_progress, 'a) io" where
  "sql_call m s = (case sp_faults s of
      [] \<Rightarrow> m s
    | b # bs \<Rightarrow> (if b then (Inl (Fault ''sql''), s\<lparr>sp_faults := bs\<rparr>) else m (s\<lparr>sp_faults := bs\<rparr>)))"

definition sql_transaction :: "(sql_progress, 'a) io \<Rightarrow> (sql_progress, 'a) io" where
  "sql_transaction body s =
     (let back = (\<lambda>s'. s'\<lparr>sp_rows := sp_rows s, sp_dedups := sp_dedups s\<rparr>) in
      case body s of
        (Inl e, s') \<Rightarrow> (Inl e, back s')
      | (Inr x, s') \<Rightarrow> (case sql_call (ret ()) s' of
            (Inl e, s'') \<Rightarrow> (Inl e, back s'')
          | (Inr _, s'') \<Rightarrow> (Inr x, s'')))"

definition is_progress_of :: "string \<Rightarrow> int \<Rightarrow> progress_row \<Rightarrow> bool" where
  "is_progress_of topic part r \<longleftrightarrow> cp_topic r = topic \<and> cp_partition r = part"

definition progress_row_of :: "string \<Rightarrow> int \<Rightarrow> sql_progress \<Rightarrow> progress_row option" where
  "progress_row_of topic part s = find (is_progress_of topic part) (sp_rows s)"

text \<open>\<open>Save\<close>: the row with this primary key is replaced, or inserted when there is none.\<close>

definition save_progress :: "string \<Rightarrow> int \<Rightarrow> int \<Rightarrow> sql_progress \<Rightarrow> sql_progress" where
  "save_progress topic part off s =
     (let r = \<lparr>cp_topic = topic, cp_partition = part, cp_offset = off\<rparr> in
      s\<lparr>sp_rows := (if progress_row_of topic part s = None then sp_rows s @ [r]
                    else update_where (is_progress_of topic part) (\<lambda>_. r) (sp_rows s))\<rparr>)"

definition mark_consumed :: "string \<Rightarrow> string \<Rightarrow> int \<Rightarrow> int \<Rightarrow> sql_progress \<Rightarrow> sql_progress" where
  "mark_consumed eventID topic part off s =
     (if eventID \<in> cd_event ` set (sp_dedups s) then s
      else s\<lparr>sp_dedups := sp_dedups s @ [\<lparr>cd_event = eventID, cd_topic = topic, cd_partition = part, cd_offset = off\<rparr>]\<rparr>)"

definition sql_Get :: "string \<Rightarrow> int \<Rightarrow> (sql_progress, int option) io" where
  "sql_Get topic part = sql_call (gets_io (\<lambda>s. map_option cp_offset (progress_row_of topic part s)))"

definition sql_Commit :: "string \<Rightarrow> int \<Rightarrow> int \<Rightarrow> string \<Rightarrow> bool \<Rightarrow> (sql_progress, unit) io" where
  "sql_Commit topic part off eventID sync =
     sql_transaction
       (bind_io (sql_call (gets_io (progress_row_of topic part))) (\<lambda>row.
        then_io (when_io (case row of None \<Rightarrow> True | Some r \<Rightarrow> cp_offset r < off)
                   (sql_call (modify_io (save_progress topic part off))))
                (when_io (eventID \<noteq> [])
                   (sql_call (modify_io (mark_consumed eventID topic part off))))))"

definition sql_Seen :: "string \<Rightarrow> (sql_progress, bool) io" where
  "sql_Seen eventID =
     (if eventID = [] then ret False
      else sql_call (gets_io (\<lambda>s. eventID \<in> cd_event ` set (sp_dedups s))))"

definition sql_Flush :: "(sql_progress, unit) io" where
  "sql_Flush = ret ()"

definition sql_ops :: "sql_progress progress_ops" where
  "sql_ops = \<lparr>op_Get = sql_Get, op_Commit = sql_Commit, op_Seen = sql_Seen, op_Flush = sql_Flush\<rparr>"

section \<open>The consumer\<close>

text \<open>
  A record of the log. Its value is JSON: either it does not decode, or it is a message with its
  event id (empty when it has none).
\<close>

datatype 'm body = Garbage string | Event string 'm

record 'm kafka_message =
  km_topic :: string
  km_partition :: int
  km_offset :: int
  km_body :: "'m body"

text \<open>The configuration of a consumer: its part of \<open>KafkaConsumerConfig\<close>.\<close>

record consumer_config =
  cc_retry_max :: int
  cc_retry_base :: duration
  cc_retry_limit :: duration
  cc_ordered :: bool
  cc_dlq_path :: string
  cc_instances :: int
  cc_instance :: int
  cc_latest :: bool

text \<open>
  The consumer extends the worker that calls the handler: the store, the dead-letter file of each
  topic, the gauge of its length, and the faults of the file system.
\<close>

record ('m, 'w, 's) consumer = "'w worker" +
  store :: 's
  dlq_file :: "string \<Rightarrow> ('m kafka_message \<times> gerr) list"
  dlq_backlog :: "string \<Rightarrow> int"
  file_faults :: "bool list"

datatype consume_result = ResultProcessed | ResultDedupSkipped | ResultDLQ

definition in_store :: "('s, 'a) io \<Rightarrow> (('m, 'w, 's) consumer, 'a) io" where
  "in_store f c = (case f (store c) of (r, s) \<Rightarrow> (r, c\<lparr>store := s\<rparr>))"

definition file_call :: "string \<Rightarrow> (('m, 'w, 's) consumer, 'a) io \<Rightarrow> (('m, 'w, 's) consumer, 'a) io" where
  "file_call name f c = (case file_faults c of
      [] \<Rightarrow> f c
    | b # bs \<Rightarrow> (if b then (Inl (Fault name), c\<lparr>file_faults := bs\<rparr>) else f (c\<lparr>file_faults := bs\<rparr>)))"

definition unmarshal :: "'m body \<Rightarrow> gerr + string \<times> 'm" where
  "unmarshal b = (case b of Garbage s \<Rightarrow> Inl (Fault s) | Event i m \<Rightarrow> Inr (i, m))"

text \<open>Opening and writing the file can fail; the failure is logged only.\<close>

definition appendDLQ :: "consumer_config \<Rightarrow> 'm kafka_message \<Rightarrow> gerr \<Rightarrow> (('m, 'w, 's) consumer, unit) io" where
  "appendDLQ cc m cause =
     (if cc_dlq_path cc = [] then ret ()
      else best_effort
        (then_io (file_call ''open'' (ret ()))
          (file_call ''write''
            (modify_io (\<lambda>c. c\<lparr>dlq_file := (dlq_file c)(km_topic m := dlq_file c (km_topic m) @ [(m, cause)]),
               dlq_backlog := (dlq_backlog c)(km_topic m := dlq_backlog c (km_topic m) + 1)\<rparr>)))))"

definition commitOffset :: "'s progress_ops \<Rightarrow> consumer_config \<Rightarrow> 'm kafka_message \<Rightarrow> string \<Rightarrow> (('m, 'w, 's) consumer, unit) io" where
  "commitOffset ops cc m eventID =
     best_effort (in_store (op_Commit ops (km_topic m) (km_partition m) (km_offset m + 1) eventID (cc_ordered cc)))"

text \<open>\<open>process\<close>: whether the message went to the dead letters.\<close>

definition process :: "consumer_config \<Rightarrow> ('m, 'w) handler \<Rightarrow> 'm kafka_message \<Rightarrow> 'm \<Rightarrow> (('m, 'w, 's) consumer, bool) io" where
  "process cc h m msg =
     bind_io (attempt (retryProcess h msg (cc_retry_max cc) (orDuration (cc_retry_base cc) second)
                         (orDuration (cc_retry_limit cc) (16 * second)))) (\<lambda>r.
       case r of
         Inr x \<Rightarrow> ret False
       | Inl e \<Rightarrow> then_io (appendDLQ cc m e) (ret True))"

text \<open>
  \<open>handle\<close> in two parts, because a crash can fall between them: \<open>deliver\<close> decodes the message,
  looks its event up and calls the handler; then the offset is committed. The result is the label
  under which the message is counted.
\<close>

definition deliver :: "'s progress_ops \<Rightarrow> consumer_config \<Rightarrow> ('m, 'w) handler \<Rightarrow> 'm kafka_message \<Rightarrow>
    (('m, 'w, 's) consumer, consume_result) io" where
  "deliver ops cc h m =
     (case unmarshal (km_body m) of
        Inl e \<Rightarrow> then_io (appendDLQ cc m e) (ret ResultDLQ)
      | Inr (i, msg) \<Rightarrow>
          bind_io (if i = [] then ret (Inr False) else attempt (in_store (op_Seen ops i))) (\<lambda>seen.
            if seen = Inr True then ret ResultDedupSkipped
            else bind_io (process cc h m msg) (\<lambda>dlqed.
                 ret (if dlqed then ResultDLQ else ResultProcessed))))"

definition event_id_of :: "'m body \<Rightarrow> string" where
  "event_id_of b = (case b of Garbage s \<Rightarrow> [] | Event i m \<Rightarrow> i)"

definition handle :: "'s progress_ops \<Rightarrow> consumer_config \<Rightarrow> ('m, 'w) handler \<Rightarrow> 'm kafka_message \<Rightarrow>
    (('m, 'w, 's) consumer, consume_result) io" where
  "handle ops cc h m =
     bind_io (deliver ops cc h m) (\<lambda>res.
     then_io (commitOffset ops cc m (event_id_of (km_body m))) (ret res))"

section \<open>Partitions of an instance\<close>

definition assignPartitions :: "consumer_config \<Rightarrow> int list \<Rightarrow> int list" where
  "assignPartitions cc parts =
     (let ic = cc_instances cc; i = cc_instance cc in
      if ic \<le> 1 then parts
      else if i < 0 \<or> ic \<le> i then parts
      else filter (\<lambda>p. go_rem p ic = i) parts)"

text \<open>The delay before the next fetch after consecutive failures.\<close>

primrec double_until :: "duration \<Rightarrow> nat \<Rightarrow> duration \<Rightarrow> duration" where
  "double_until mx 0 b = b"
| "double_until mx (Suc n) b = (if b < mx then double_until mx n (wrap64 (b * 2)) else b)"

definition fetch_backoff :: "consumer_config \<Rightarrow> nat \<Rightarrow> duration" where
  "fetch_backoff cc fails =
     (let base = orDuration (cc_retry_base cc) second; mx = orDuration (cc_retry_limit cc) (16 * second);
          b = double_until mx (fails - 1) base
      in if mx < b then mx else b)"

definition clampLag :: "int \<Rightarrow> int" where
  "clampLag lag = (if lag < 0 then 0 else lag)"

section \<open>Readers, workers and crashes\<close>

text \<open>
  The log holds the records of each partition from offset 0 on. A reader fetches them in order; in
  ordered mode it handles one before it fetches the next, else every fetched record goes to a
  worker and the workers finish in any order. \<open>inflight\<close> holds the fetched records, with the
  result when the handler is done and the offset not yet committed; \<open>delivered\<close> is the history of
  the deliveries. A restart forgets everything but the files and tables and leaves the handler's
  state as it finds it; the readers start at the recorded offset, and where none is recorded or the
  store does not answer at the first one, or, with \<open>start_from_latest\<close>, at the end that the partition has
  then (the log given here is the one of all times).
\<close>

type_synonym 'm event_log = "string \<Rightarrow> int \<Rightarrow> 'm body list"

record ('m, 'w, 's) session =
  con :: "('m, 'w, 's) consumer"
  position :: "string \<Rightarrow> int \<Rightarrow> nat"
  inflight :: "('m kafka_message \<times> consume_result option) list"
  delivered :: "('m kafka_message \<times> consume_result) list"

definition record_at :: "'m event_log \<Rightarrow> string \<Rightarrow> int \<Rightarrow> nat \<Rightarrow> 'm kafka_message" where
  "record_at log t p n = \<lparr>km_topic = t, km_partition = p, km_offset = int n, km_body = log t p ! n\<rparr>"

definition in_partition :: "string \<Rightarrow> int \<Rightarrow> 'm kafka_message \<Rightarrow> bool" where
  "in_partition t p m \<longleftrightarrow> km_topic m = t \<and> km_partition m = p"

definition readers_start :: "'s progress_ops \<Rightarrow> consumer_config \<Rightarrow> 'm event_log \<Rightarrow> 's \<Rightarrow> (string \<Rightarrow> int \<Rightarrow> nat) \<Rightarrow> bool" where
  "readers_start ops cc log st ps \<longleftrightarrow>
     (\<forall>t p. (if cc_latest cc then ps t p \<le> length (log t p) else ps t p = 0) \<or>
        (\<exists>st'. op_Get ops t p st = (Inr (Some (int (ps t p))), st')))"

inductive session_step :: "'s progress_ops \<Rightarrow> ('s \<Rightarrow> 's) \<Rightarrow> consumer_config \<Rightarrow> ('m, 'w) handler \<Rightarrow> 'm event_log \<Rightarrow>
    ('m, 'w, 's) session \<Rightarrow> ('m, 'w, 's) session \<Rightarrow> bool"
  for ops :: "'s progress_ops" and reload :: "'s \<Rightarrow> 's" and cc :: consumer_config
    and h :: "('m, 'w) handler" and log :: "'m event_log" where
  fetch: "n = position s t p \<Longrightarrow> n < length (log t p) \<Longrightarrow>
    (cc_ordered cc \<longrightarrow> \<not> list_ex (\<lambda>(m, r). in_partition t p m) (inflight s)) \<Longrightarrow>
    session_step ops reload cc h log s
      (s\<lparr>position := (position s)(t := (position s t)(p := Suc n)), inflight := inflight s @ [(record_at log t p n, None)]\<rparr>)"
| deliver: "inflight s = xs @ (m, None) # ys \<Longrightarrow> deliver ops cc h m (con s) = (Inr res, c') \<Longrightarrow>
    session_step ops reload cc h log s
      (s\<lparr>con := c', inflight := xs @ (m, Some res) # ys, delivered := delivered s @ [(m, res)]\<rparr>)"
| commit: "inflight s = xs @ (m, Some res) # ys \<Longrightarrow>
    commitOffset ops cc m (event_id_of (km_body m)) (con s) = (r, c') \<Longrightarrow>
    session_step ops reload cc h log s (s\<lparr>con := c', inflight := xs @ ys\<rparr>)"
| flush: "op_Flush ops (store (con s)) = (r, st') \<Longrightarrow>
    session_step ops reload cc h log s (s\<lparr>con := (con s)\<lparr>store := st'\<rparr>\<rparr>)"
| cancel: "session_step ops reload cc h log s (s\<lparr>con := (con s)\<lparr>ctx_left := n\<rparr>\<rparr>)"
| restart: "st' = reload (store (con s)) \<Longrightarrow> readers_start ops cc log st' ps \<Longrightarrow>
    session_step ops reload cc h log s
      (s\<lparr>con := (con s)\<lparr>store := st', app := a, ctx_left := None\<rparr>, inflight := [], position := ps\<rparr>)"

definition session_start :: "('m, 'w, 's) consumer \<Rightarrow> (string \<Rightarrow> int \<Rightarrow> nat) \<Rightarrow> ('m, 'w, 's) session" where
  "session_start c ps = \<lparr>con = c, position = ps, inflight = [], delivered = []\<rparr>"

inductive session_reachable :: "'s progress_ops \<Rightarrow> ('s \<Rightarrow> 's) \<Rightarrow> consumer_config \<Rightarrow> ('m, 'w) handler \<Rightarrow> 'm event_log \<Rightarrow>
    ('m, 'w, 's) consumer \<Rightarrow> ('m, 'w, 's) session \<Rightarrow> bool"
  for ops :: "'s progress_ops" and reload :: "'s \<Rightarrow> 's" and cc :: consumer_config
    and h :: "('m, 'w) handler" and log :: "'m event_log" and c0 :: "('m, 'w, 's) consumer" where
  start: "readers_start ops cc log (store c0) ps \<Longrightarrow> session_reachable ops reload cc h log c0 (session_start c0 ps)"
| step: "session_reachable ops reload cc h log c0 s \<Longrightarrow> session_step ops reload cc h log s s' \<Longrightarrow>
    session_reachable ops reload cc h log c0 s'"

end
