(* ===== verification/ConsumerProperties.thy ===== *)
theory ConsumerProperties
  imports Consumer "HOL-Library.Multiset"
begin

text \<open>
  Properties of the consumer: the contract of a progress store and its two implementations, that
  progress never goes back and does not depend on the order in which workers finish, that an
  ordered consumer loses no message in a crash, where the concurrent mode does, and what becomes
  of duplicates and of messages whose handler fails.
\<close>

section \<open>The contract of a progress store\<close>

definition behind :: "int option \<Rightarrow> int option \<Rightarrow> bool" where
  "behind a b = (case a of None \<Rightarrow> True | Some x \<Rightarrow> (case b of None \<Rightarrow> False | Some y \<Rightarrow> x \<le> y))"

definition advance :: "string \<Rightarrow> int \<Rightarrow> int \<Rightarrow> (string \<Rightarrow> int \<Rightarrow> int option) \<Rightarrow> string \<Rightarrow> int \<Rightarrow> int option" where
  "advance t p off f = (\<lambda>t' p'. if t' = t \<and> p' = p
     then Some (case f t p of None \<Rightarrow> off | Some old \<Rightarrow> max old off) else f t' p')"

lemma behind_refl [simp]: "behind a a"
  by (simp add: behind_def split: option.split)

lemma behind_trans: "behind a b \<Longrightarrow> behind b c \<Longrightarrow> behind a c"
  by (auto simp: behind_def split: option.splits)

lemma behind_None [simp]: "behind None b"
  by (simp add: behind_def)

lemma behind_Some [simp]: "behind (Some x) (Some y) \<longleftrightarrow> x \<le> y"
  by (simp add: behind_def)

lemma behind_advance: "behind (f t' p') (advance t p off f t' p')"
  by (auto simp: behind_def advance_def split: option.split)

lemma advance_commute: "advance t p off (advance t' p' off' f) = advance t' p' off' (advance t p off f)"
  by (auto simp: advance_def fun_eq_iff max.left_commute max.commute max.assoc split: option.split)

lemma store_retryProcess [simp]: "store (snd (retryProcess h m n b x c)) = store c"
  using rest_retryProcess [of h m n b x] unfolding evolves_def same_rest_def
  by (metis consumer.select_convs(1) consumer.surjective worker.select_convs(4))

lemma store_appendDLQ [simp]: "store (snd (appendDLQ cc m e c)) = store c"
  by (auto simp: appendDLQ_def io_defs file_call_def split: list.split)

locale progress_store =
  fixes ops :: "'s progress_ops"
    and pos :: "'s \<Rightarrow> string \<Rightarrow> int \<Rightarrow> int option"
    and reload :: "'s \<Rightarrow> 's"
    and ok :: "'s \<Rightarrow> bool"
  assumes get_law: "ok s \<Longrightarrow> op_Get ops t p s = (r, s') \<Longrightarrow> ok s' \<and> pos s' = pos s \<and> (\<forall>x. r = Inr x \<longrightarrow> x = pos s t p)"
    and seen_law: "ok s \<Longrightarrow> op_Seen ops ev s = (q, s') \<Longrightarrow> ok s' \<and> pos s' = pos s"
    and flush_law: "ok s \<Longrightarrow> op_Flush ops s = (u, s') \<Longrightarrow> ok s' \<and> pos s' = pos s"
    and commit_law: "ok s \<Longrightarrow> op_Commit ops t p off ev sync s = (u, s') \<Longrightarrow>
      ok s' \<and> (pos s' = pos s \<or> pos s' = advance t p off (pos s))"
    and commit_done: "ok s \<Longrightarrow> op_Commit ops t p off ev sync s = (Inr x, s') \<Longrightarrow> pos s' = advance t p off (pos s)"
    and reload_law: "ok s \<Longrightarrow> ok (reload s) \<and> behind (pos (reload s) t p) (pos s t p)"
begin

text \<open>The store after a part of the work on a message, whatever its outcome.\<close>

lemma in_store_seen:
  assumes "ok (store c)" and "in_store (op_Seen ops ev) c = (r, c')"
  shows "ok (store c') \<and> pos (store c') = pos (store c)"
  using assms seen_law by (fastforce simp: in_store_def split: prod.splits)

lemma deliver_keeps_progress:
  fixes c c' :: "('m, 'w, 's) consumer"
  assumes ok: "ok (store c)" and d: "deliver ops cc h m c = (r, c')"
  shows "ok (store c') \<and> pos (store c') = pos (store c)"
proof -
  define R :: "('m, 'w, 's) consumer \<Rightarrow> ('m, 'w, 's) consumer \<Rightarrow> bool"
    where "R = (\<lambda>a b. ok (store a) \<longrightarrow> ok (store b) \<and> pos (store b) = pos (store a))"
  have rel: "two_state R" by unfold_locales (auto simp: R_def)
  note rules = two_state.ev_rules [OF rel]
  have same: "evolves R f" if "\<And>a. store (snd (f a)) = store a" for f :: "(('m, 'w, 's) consumer, 'b) io"
    using that by (simp add: evolves_def R_def)
  have prims: "evolves R (appendDLQ cc m e)" "evolves R (retryProcess h msg n b x)" for e msg n b x
    by (auto intro: same)
  have "evolves R (in_store (op_Seen ops ev))" for ev
    unfolding evolves_def R_def using in_store_seen by (metis prod.collapse)
  then have "evolves R (deliver ops cc h m)"
    unfolding deliver_def process_def by (auto intro!: rules prims split: sum.split prod.split)
  then show ?thesis using d ok by (auto simp: R_def dest: evolvesD)
qed

lemma commitOffset_progress:
  assumes "ok (store c)" and "commitOffset ops cc m ev c = (r, c')"
  shows "ok (store c') \<and> (pos (store c') = pos (store c) \<or>
    pos (store c') = advance (km_topic m) (km_partition m) (km_offset m + 1) (pos (store c)))"
proof -
  obtain u s' where "op_Commit ops (km_topic m) (km_partition m) (km_offset m + 1) ev (cc_ordered cc) (store c) = (u, s')"
    by (metis prod.exhaust)
  moreover from commit_law [OF assms(1) this] have "ok s' \<and> (pos s' = pos (store c) \<or>
      pos s' = advance (km_topic m) (km_partition m) (km_offset m + 1) (pos (store c)))" .
  ultimately show ?thesis using assms(2) by (auto simp: commitOffset_def best_effort_def in_store_def)
qed

end

section \<open>The two stores\<close>

lemma offsetKey_inject [simp]: "offsetKey t p = offsetKey t' p' \<longleftrightarrow> t = t' \<and> p = p'"
proof
  have no_slash: "CHR ''/'' \<notin> set (show_int i)" for i
    using show_nat_digits [of "CHR ''/''"] by (auto simp: show_int_def)
  assume "offsetKey t p = offsetKey t' p'"
  then have "rev (offsetKey t p) = rev (offsetKey t' p')" by simp
  then have eq: "rev (show_int p) @ CHR ''/'' # rev t = rev (show_int p') @ CHR ''/'' # rev t'"
    by (simp only: offsetKey_def rev_append) simp
  then have "takeWhile (\<lambda>c. c \<noteq> CHR ''/'') (rev (show_int p) @ CHR ''/'' # rev t) =
    takeWhile (\<lambda>c. c \<noteq> CHR ''/'') (rev (show_int p') @ CHR ''/'' # rev t')" by simp
  moreover have "takeWhile (\<lambda>c. c \<noteq> CHR ''/'') (rev (show_int i) @ CHR ''/'' # u) = rev (show_int i)" for i u
    using no_slash [of i] by (subst takeWhile_append2) auto
  ultimately have "rev (show_int p) = rev (show_int p')" by metis
  with eq have "rev (show_int p) = rev (show_int p')" "rev t = rev t'" by simp_all
  then show "t = t' \<and> p = p'" by simp
qed simp

definition file_pos :: "file_progress \<Rightarrow> string \<Rightarrow> int \<Rightarrow> int option" where
  "file_pos s t p = fp_mem s (offsetKey t p)"

definition file_ok :: "file_progress \<Rightarrow> bool" where
  "file_ok s \<longleftrightarrow> (\<forall>k. behind (fp_disk s k) (fp_mem s k))"

lemma offset_set_advances: "file_pos (offset_set t p off s) = advance t p off (file_pos s)"
  by (auto simp: fun_eq_iff file_pos_def offset_set_def advance_def Let_def split: option.split)

lemma offset_set_ok: "file_ok s \<Longrightarrow> file_ok (offset_set t p off s)"
  by (auto simp: file_ok_def offset_set_def Let_def split: option.splits)
    (metis behind_Some behind_trans less_imp_le behind_def option.case_eq_if option.simps(4))+

lemma file_flush_law: "file_flush s = (u, s') \<Longrightarrow> file_ok s \<Longrightarrow> file_ok s' \<and> fp_mem s' = fp_mem s"
  by (auto simp: file_flush_def file_write_def modify_io_def file_ok_def split: list.splits if_splits)

interpretation file_store: progress_store file_ops file_pos file_load file_ok
proof
  fix s s' :: file_progress and t p r q u x off ev sync
  assume ok: "file_ok s"
  show "op_Get file_ops t p s = (r, s') \<Longrightarrow> file_ok s' \<and> file_pos s' = file_pos s \<and> (\<forall>x. r = Inr x \<longrightarrow> x = file_pos s t p)"
    using ok by (auto simp: file_ops_def file_Get_def gets_io_def file_pos_def)
  show "op_Seen file_ops ev s = (q, s') \<Longrightarrow> file_ok s' \<and> file_pos s' = file_pos s"
    using ok by (auto simp: file_ops_def file_Seen_def ret_def)
  show "op_Flush file_ops s = (u, s') \<Longrightarrow> file_ok s' \<and> file_pos s' = file_pos s"
    using ok file_flush_law by (force simp: file_ops_def file_pos_def)
  have commit: "op_Commit file_ops t p off ev sync s = (u, s') \<Longrightarrow> file_ok s' \<and> file_pos s' = advance t p off (file_pos s)" for u
    using ok file_flush_law [of "offset_set t p off s" u s']
    by (auto simp: file_ops_def file_Commit_def then_io_def bind_io_def modify_io_def ret_def
        offset_set_ok offset_set_advances [symmetric] file_pos_def fun_eq_iff split: if_splits)
  then show "op_Commit file_ops t p off ev sync s = (u, s') \<Longrightarrow>
      file_ok s' \<and> (file_pos s' = file_pos s \<or> file_pos s' = advance t p off (file_pos s))" by blast
  show "op_Commit file_ops t p off ev sync s = (Inr x, s') \<Longrightarrow> file_pos s' = advance t p off (file_pos s)"
    using commit by blast
  show "file_ok (file_load s) \<and> behind (file_pos (file_load s) t p) (file_pos s t p)"
    using ok by (auto simp: file_load_def file_ok_def file_pos_def)
qed

definition sql_pos :: "sql_progress \<Rightarrow> string \<Rightarrow> int \<Rightarrow> int option" where
  "sql_pos s t p = map_option cp_offset (progress_row_of t p s)"

lemma is_progress_row [simp]:
  "is_progress_of t' p' \<lparr>cp_topic = t, cp_partition = p, cp_offset = off\<rparr> \<longleftrightarrow> t' = t \<and> p' = p"
  by (auto simp: is_progress_of_def)

lemma same_progress_row: "is_progress_of t p r \<Longrightarrow> is_progress_of t' p' r \<longleftrightarrow> t' = t \<and> p' = p"
  by (auto simp: is_progress_of_def)

lemma find_update_row:
  "find (is_progress_of t' p') (update_where (is_progress_of t p) (\<lambda>_. \<lparr>cp_topic = t, cp_partition = p, cp_offset = off\<rparr>) rows) =
     (if t' = t \<and> p' = p then map_option (\<lambda>_. \<lparr>cp_topic = t, cp_partition = p, cp_offset = off\<rparr>) (find (is_progress_of t p) rows)
      else find (is_progress_of t' p') rows)"
  by (induction rows) (auto simp: update_where_def same_progress_row)

lemma find_snoc: "find P (xs @ [x]) = (case find P xs of Some y \<Rightarrow> Some y | None \<Rightarrow> if P x then Some x else None)"
  by (induction xs) auto

lemma save_progress_row:
  "progress_row_of t' p' (save_progress t p off s) =
     (if t' = t \<and> p' = p then Some \<lparr>cp_topic = t, cp_partition = p, cp_offset = off\<rparr> else progress_row_of t' p' s)"
  by (auto simp: save_progress_def progress_row_of_def Let_def find_update_row find_snoc split: option.split)

lemma mark_consumed_rows [simp]: "sp_rows (mark_consumed ev t p off s) = sp_rows s"
  by (simp add: mark_consumed_def)

lemma sql_pos_rows: "sp_rows s' = sp_rows s \<Longrightarrow> sql_pos s' = sql_pos s"
  by (simp add: fun_eq_iff sql_pos_def progress_row_of_def)

lemma sql_call_cases:
  "sql_call m s = (r, s') \<Longrightarrow>
    r = Inl (Fault ''sql'') \<and> sp_rows s' = sp_rows s \<and> sp_dedups s' = sp_dedups s \<or>
    (\<exists>bs. m (s\<lparr>sp_faults := bs\<rparr>) = (r, s'))"
proof (cases "sp_faults s")
  case Nil
  assume "sql_call m s = (r, s')"
  moreover have "s\<lparr>sp_faults := sp_faults s\<rparr> = s" by simp
  ultimately have "m (s\<lparr>sp_faults := sp_faults s\<rparr>) = (r, s')" using Nil by (simp only: sql_call_def list.case)
  then show ?thesis by blast
qed (auto simp: sql_call_def split: if_splits)

lemma sql_save_pos: "(case progress_row_of t p s of None \<Rightarrow> True | Some r \<Rightarrow> cp_offset r < off) \<Longrightarrow>
   sql_pos (save_progress t p off s) = advance t p off (sql_pos s)"
  by (auto simp: fun_eq_iff sql_pos_def save_progress_row advance_def split: option.split)

lemma sql_transaction_fails: "sql_transaction m s = (Inl e, s') \<Longrightarrow> sp_rows s' = sp_rows s \<and> sp_dedups s' = sp_dedups s"
  by (auto simp: sql_transaction_def Let_def split: prod.splits sum.splits)

lemma sql_transaction_done:
  "sql_transaction m s = (Inr x, s') \<Longrightarrow> \<exists>s1. m s = (Inr x, s1) \<and> sp_rows s' = sp_rows s1 \<and> sp_dedups s' = sp_dedups s1"
  by (auto simp: sql_transaction_def Let_def ret_def sql_call_def split: prod.splits sum.splits list.splits if_splits)

lemma sql_modify_done:
  "sql_call (modify_io f) s = (Inr u, s') \<Longrightarrow> \<exists>bs. s' = f (s\<lparr>sp_faults := bs\<rparr>)"
  using sql_call_cases [of "modify_io f" s "Inr u" s'] by (auto simp: modify_io_def)

lemma sql_gets_done:
  "sql_call (gets_io f) s = (Inr v, s') \<Longrightarrow> \<exists>bs. s' = s\<lparr>sp_faults := bs\<rparr> \<and> v = f (s\<lparr>sp_faults := bs\<rparr>)"
  using sql_call_cases [of "gets_io f" s "Inr v" s'] by (auto simp: gets_io_def)

lemma row_frame [simp]:
  "progress_row_of t p (s\<lparr>sp_faults := bs\<rparr>) = progress_row_of t p s"
  "progress_row_of t p (mark_consumed ev t' p' off s) = progress_row_of t p s"
  "sql_pos (s\<lparr>sp_faults := bs\<rparr>) = sql_pos s"
  "sql_pos (mark_consumed ev t' p' off s) = sql_pos s"
  by (simp_all add: progress_row_of_def fun_eq_iff sql_pos_def)

lemma mark_dedups: "cd_event ` set (sp_dedups (mark_consumed ev t p off s)) = insert ev (cd_event ` set (sp_dedups s))"
  by (auto simp: mark_consumed_def)

text \<open>A commit that succeeds advances the row and marks the event; one that fails changes nothing.\<close>

lemma sql_commit_done:
  assumes "sql_Commit t p off ev sync s = (Inr x, s')"
  shows "sql_pos s' = advance t p off (sql_pos s)"
    and "cd_event ` set (sp_dedups s') = cd_event ` set (sp_dedups s) \<union> (if ev = [] then {} else {ev})"
proof -
  obtain s1 where body: "bind_io (sql_call (gets_io (progress_row_of t p))) (\<lambda>row.
        then_io (when_io (case row of None \<Rightarrow> True | Some r \<Rightarrow> cp_offset r < off)
                   (sql_call (modify_io (save_progress t p off))))
                (when_io (ev \<noteq> [])
                   (sql_call (modify_io (mark_consumed ev t p off))))) s = (Inr x, s1)"
    and s': "sp_rows s' = sp_rows s1" "sp_dedups s' = sp_dedups s1"
    using sql_transaction_done [OF assms [unfolded sql_Commit_def]] by blast
  obtain s2 s3 bs u where row: "s2 = s\<lparr>sp_faults := bs\<rparr>"
    and save: "when_io (case progress_row_of t p s of None \<Rightarrow> True | Some r \<Rightarrow> cp_offset r < off)
        (sql_call (modify_io (save_progress t p off))) s2 = (Inr u, s3)"
    and mark: "when_io (ev \<noteq> []) (sql_call (modify_io (mark_consumed ev t p off))) s3 = (Inr x, s1)"
  proof -
    from body obtain v w where "sql_call (gets_io (progress_row_of t p)) s = (Inr v, w)"
      and rest: "then_io (when_io (case v of None \<Rightarrow> True | Some r \<Rightarrow> cp_offset r < off)
                   (sql_call (modify_io (save_progress t p off))))
                (when_io (ev \<noteq> []) (sql_call (modify_io (mark_consumed ev t p off)))) w = (Inr x, s1)"
      unfolding bind_io_Inr by blast
    then obtain bs where "w = s\<lparr>sp_faults := bs\<rparr>" "v = progress_row_of t p s"
      using sql_gets_done by fastforce
    then show thesis using rest that unfolding then_io_Inr by blast
  qed
  have p2: "sql_pos s2 = sql_pos s" and d2: "sp_dedups s2 = sp_dedups s"
    using row by simp_all
  have s3: "sql_pos s3 = advance t p off (sql_pos s) \<and> sp_dedups s3 = sp_dedups s"
  proof (cases "case progress_row_of t p s of None \<Rightarrow> True | Some r \<Rightarrow> cp_offset r < off")
    case True
    then obtain bs' where s3: "s3 = save_progress t p off (s2\<lparr>sp_faults := bs'\<rparr>)"
      using save by (auto simp: when_io_def dest!: sql_modify_done)
    have "sql_pos s3 = advance t p off (sql_pos (s2\<lparr>sp_faults := bs'\<rparr>))"
      unfolding s3 using True row by (intro sql_save_pos) simp
    then show ?thesis using p2 d2 s3 by (simp add: save_progress_def Let_def)
  next
    case False
    then obtain r where r: "progress_row_of t p s = Some r" "off \<le> cp_offset r"
      by (cases "progress_row_of t p s") auto
    then have "s3 = s2" using save by (simp add: when_io_def ret_def)
    moreover have "advance t p off (sql_pos s) = sql_pos s"
      using r by (auto simp: fun_eq_iff advance_def sql_pos_def)
    ultimately show ?thesis using p2 d2 by simp
  qed
  have "sql_pos s1 = sql_pos s3 \<and> cd_event ` set (sp_dedups s1) = cd_event ` set (sp_dedups s3) \<union> (if ev = [] then {} else {ev})"
  proof (cases "ev = []")
    case True
    then show ?thesis using mark by (simp add: when_io_def ret_def)
  next
    case False
    then obtain bs' where "s1 = mark_consumed ev t p off (s3\<lparr>sp_faults := bs'\<rparr>)"
      using mark by (auto simp: when_io_def dest!: sql_modify_done)
    then show ?thesis using False by (simp add: mark_dedups)
  qed
  then show "sql_pos s' = advance t p off (sql_pos s)"
    and "cd_event ` set (sp_dedups s') = cd_event ` set (sp_dedups s) \<union> (if ev = [] then {} else {ev})"
    using s3 s' sql_pos_rows [of s' s1] by simp_all
qed

interpretation sql_store: progress_store sql_ops sql_pos "\<lambda>s. s" "\<lambda>s. True"
proof
  fix s s' :: sql_progress and t p r q u x off ev sync
  show "op_Get sql_ops t p s = (r, s') \<Longrightarrow> True \<and> sql_pos s' = sql_pos s \<and> (\<forall>x. r = Inr x \<longrightarrow> x = sql_pos s t p)"
    by (auto simp: sql_ops_def sql_Get_def gets_io_def sql_pos_def dest!: sql_call_cases intro: sql_pos_rows)
  show "op_Seen sql_ops ev s = (q, s') \<Longrightarrow> True \<and> sql_pos s' = sql_pos s"
    by (auto simp: sql_ops_def sql_Seen_def ret_def gets_io_def dest!: sql_call_cases intro: sql_pos_rows split: if_splits)
  show "op_Flush sql_ops s = (u, s') \<Longrightarrow> True \<and> sql_pos s' = sql_pos s"
    by (auto simp: sql_ops_def sql_Flush_def ret_def)
  show commits: "op_Commit sql_ops t p off ev sync s = (Inr x, s') \<Longrightarrow> sql_pos s' = advance t p off (sql_pos s)" for x
    by (simp add: sql_ops_def sql_commit_done)
  show "op_Commit sql_ops t p off ev sync s = (u, s') \<Longrightarrow>
      True \<and> (sql_pos s' = sql_pos s \<or> sql_pos s' = advance t p off (sql_pos s))"
    by (cases u) (auto simp: sql_ops_def sql_commit_done sql_Commit_def intro!: sql_pos_rows dest: sql_transaction_fails)
  show "True \<and> behind (sql_pos s t p) (sql_pos s t p)" by simp
qed

section \<open>Where a restart resumes\<close>

definition delivered_at :: "'m event_log \<Rightarrow> ('m, 'w, 's) session \<Rightarrow> string \<Rightarrow> int \<Rightarrow> nat \<Rightarrow> bool" where
  "delivered_at log s t p n \<longleftrightarrow> record_at log t p n \<in> fst ` set (delivered s)"

definition place :: "'m kafka_message \<times> 'r \<Rightarrow> string \<times> int" where
  "place x = (km_topic (fst x), km_partition (fst x))"

lemma record_at_simps [simp]:
  "km_topic (record_at log t p n) = t" "km_partition (record_at log t p n) = p"
  "km_offset (record_at log t p n) = int n" "km_body (record_at log t p n) = log t p ! n"
  by (simp_all add: record_at_def)

lemma record_at_inject [simp]: "record_at log t p n = record_at log t' p' n' \<longleftrightarrow> t = t' \<and> p = p' \<and> n = n'"
  by (auto simp: record_at_def)

text \<open>The record that the reader of its partition fetched last.\<close>

definition fetched_last :: "'m event_log \<Rightarrow> (string \<Rightarrow> int \<Rightarrow> nat) \<Rightarrow> 'm kafka_message \<Rightarrow> bool" where
  "fetched_last log ps m \<longleftrightarrow>
     m = record_at log (km_topic m) (km_partition m) (ps (km_topic m) (km_partition m) - 1) \<and>
     0 < ps (km_topic m) (km_partition m)"

lemma fetched_last_offset:
  "fetched_last log ps m \<Longrightarrow> km_offset m + 1 = int (ps (km_topic m) (km_partition m))"
  unfolding fetched_last_def by (metis Suc_diff_1 of_nat_Suc add.commute record_at_simps(3))

lemma fetched_last_record: "fetched_last log ps (record_at log t p n) \<longleftrightarrow> ps t p = Suc n"
  by (auto simp: fetched_last_def)

text \<open>
  The state of an ordered session: what lies below the recorded offset is delivered, what lies below
  the reader's position is delivered or being delivered, and at most one record of a partition is in
  flight, the one fetched last.
\<close>

context progress_store
begin

definition in_order :: "'m event_log \<Rightarrow> ('m, 'w, 's) session \<Rightarrow> bool" where
  "in_order log s \<longleftrightarrow>
     ok (store (con s)) \<and> distinct (map place (inflight s)) \<and>
     (\<forall>(m, r) \<in> set (inflight s). fetched_last log (position s) m) \<and>
     (\<forall>t p n off. pos (store (con s)) t p = Some off \<and> int n < off \<longrightarrow> delivered_at log s t p n) \<and>
     (\<forall>t p n. n < position s t p \<longrightarrow> delivered_at log s t p n \<or> (record_at log t p n, None) \<in> set (inflight s))"

lemma in_orderI:
  assumes "ok (store (con s))" and "distinct (map place (inflight s))"
    and "\<And>m r. (m, r) \<in> set (inflight s) \<Longrightarrow> fetched_last log (position s) m"
    and "\<And>t p n off. pos (store (con s)) t p = Some off \<Longrightarrow> int n < off \<Longrightarrow> delivered_at log s t p n"
    and "\<And>t p n. n < position s t p \<Longrightarrow> delivered_at log s t p n \<or> (record_at log t p n, None) \<in> set (inflight s)"
  shows "in_order log s"
  using assms unfolding in_order_def by blast

lemma in_orderD:
  assumes "in_order log s"
  shows "ok (store (con s))" and "distinct (map place (inflight s))"
    and "(m, r) \<in> set (inflight s) \<Longrightarrow> fetched_last log (position s) m"
    and "pos (store (con s)) t p = Some off \<Longrightarrow> int n < off \<Longrightarrow> delivered_at log s t p n"
    and "n < position s t p \<Longrightarrow> delivered_at log s t p n \<or> (record_at log t p n, None) \<in> set (inflight s)"
  using assms unfolding in_order_def by blast+

lemma in_order_fetch:
  assumes inv: "in_order log s" and free: "\<not> list_ex (\<lambda>(m, r). in_partition t p m) (inflight s)"
  shows "in_order log (s\<lparr>position := (position s)(t := (position s t)(p := Suc (position s t p))),
    inflight := inflight s @ [(record_at log t p (position s t p), None)]\<rparr>)"
    (is "in_order log ?s'")
proof (rule in_orderI)
  have other: "(t, p) \<noteq> place x" if "x \<in> set (inflight s)" for x
    using free that by (cases x) (auto simp: list_ex_iff in_partition_def place_def)
  show "ok (store (con ?s'))" using in_orderD(1) [OF inv] by simp
  show "distinct (map place (inflight ?s'))"
    using in_orderD(2) [OF inv] other by (auto simp: place_def)
  show "fetched_last log (position ?s') m" if "(m, r) \<in> set (inflight ?s')" for m r
    using that in_orderD(3) [OF inv, of m r] other [of "(m, r)"]
    by (auto simp: fetched_last_record fetched_last_def place_def)
  show "delivered_at log ?s' t' p' n" if "pos (store (con ?s')) t' p' = Some off" "int n < off" for t' p' n off
    using that in_orderD(4) [OF inv, of t' p' off n] by (simp add: delivered_at_def)
  show "delivered_at log ?s' t' p' n \<or> (record_at log t' p' n, None) \<in> set (inflight ?s')"
    if "n < position ?s' t' p'" for t' p' n
    using that in_orderD(5) [OF inv, of n t' p'] by (auto simp: delivered_at_def less_Suc_eq split: if_splits)
qed

lemma in_order_deliver:
  assumes inv: "in_order log s" and fl: "inflight s = xs @ (m, None) # ys"
    and d: "deliver ops cc h m (con s) = (r, c')"
  shows "in_order log (s\<lparr>con := c', inflight := xs @ (m, Some res) # ys, delivered := delivered s @ [(m, res)]\<rparr>)"
    (is "in_order log ?s'")
proof (rule in_orderI)
  have st: "ok (store c')" "pos (store c') = pos (store (con s))"
    using deliver_keeps_progress [OF in_orderD(1) [OF inv] d] by simp_all
  show "ok (store (con ?s'))" using st by simp
  show "distinct (map place (inflight ?s'))" using in_orderD(2) [OF inv] fl by (simp add: place_def)
  show "fetched_last log (position ?s') m'" if "(m', r') \<in> set (inflight ?s')" for m' r'
    using that in_orderD(3) [OF inv, of m'] fl by auto
  show "delivered_at log ?s' t p n" if "pos (store (con ?s')) t p = Some off" "int n < off" for t p n off
    using that in_orderD(4) [OF inv, of t p off n] st by (auto simp: delivered_at_def)
  show "delivered_at log ?s' t p n \<or> (record_at log t p n, None) \<in> set (inflight ?s')"
    if "n < position ?s' t p" for t p n
    using that in_orderD(5) [OF inv, of n t p] fl by (auto simp: delivered_at_def)
qed

lemma in_order_commit:
  assumes inv: "in_order log s" and fl: "inflight s = xs @ (m, Some res) # ys"
    and d: "commitOffset ops cc m ev (con s) = (r, c')"
  shows "in_order log (s\<lparr>con := c', inflight := xs @ ys\<rparr>)"
    (is "in_order log ?s'")
proof (rule in_orderI)
  have st: "ok (store c')" "pos (store c') = pos (store (con s)) \<or>
      pos (store c') = advance (km_topic m) (km_partition m) (km_offset m + 1) (pos (store (con s)))"
    using commitOffset_progress [OF in_orderD(1) [OF inv] d] by simp_all
  have m: "fetched_last log (position s) m"
    using in_orderD(3) [OF inv, of m] fl by auto
  have "place (m, Some res) \<notin> place ` set (xs @ ys)"
    using in_orderD(2) [OF inv] fl by auto
  then have other: "\<not> (km_topic m' = km_topic m \<and> km_partition m' = km_partition m)"
    if "(m', r') \<in> set (xs @ ys)" for m' r'
    using that by (force simp: place_def)
  have below: "delivered_at log s (km_topic m) (km_partition m) n" if "int n < km_offset m + 1" for n
    using that in_orderD(5) [OF inv, of n "km_topic m" "km_partition m"] fetched_last_offset [OF m] fl
      other [of "record_at log (km_topic m) (km_partition m) n" None] by auto
  show "ok (store (con ?s'))" using st by simp
  show "distinct (map place (inflight ?s'))" using in_orderD(2) [OF inv] fl by simp
  show "fetched_last log (position ?s') m'" if "(m', r') \<in> set (inflight ?s')" for m' r'
    using that in_orderD(3) [OF inv, of m' r'] fl by auto
  show "delivered_at log ?s' t p n" if off: "pos (store (con ?s')) t p = Some off" "int n < off" for t p n off
  proof -
    have "delivered_at log s t p n"
      using off st(2) below [of n] in_orderD(4) [OF inv, of t p _ n]
      by (auto simp: advance_def less_max_iff_disj split: if_splits option.splits)
    then show ?thesis by (simp add: delivered_at_def)
  qed
  show "delivered_at log ?s' t p n \<or> (record_at log t p n, None) \<in> set (inflight ?s')"
    if "n < position ?s' t p" for t p n
    using that in_orderD(5) [OF inv, of n t p] fl by (auto simp: delivered_at_def)
qed

lemma in_order_restart:
  assumes inv: "in_order log s" and rs: "readers_start ops cc log (reload (store (con s))) ps" and first: "\<not> cc_latest cc"
  shows "in_order log (s\<lparr>con := (con s)\<lparr>store := reload (store (con s)), app := a, ctx_left := None\<rparr>, inflight := [], position := ps\<rparr>)"
    (is "in_order log ?s'")
proof (rule in_orderI)
  let ?st = "reload (store (con s))"
  have re: "ok ?st" "behind (pos ?st t p) (pos (store (con s)) t p)" for t p
    using reload_law [OF in_orderD(1) [OF inv]] by simp_all
  have pos: "ps t p = 0 \<or> pos ?st t p = Some (int (ps t p))" for t p
    using rs first get_law [OF re(1)] unfolding readers_start_def by fastforce
  have below: "delivered_at log ?s' t p n" if "pos ?st t p = Some off" "int n < off" for t p n off
  proof -
    from re(2) [of t p] that obtain off' where "pos (store (con s)) t p = Some off'" "off \<le> off'"
      by (auto simp: behind_def split: option.splits)
    then have "delivered_at log s t p n" using that in_orderD(4) [OF inv] by fastforce
    then show ?thesis by (simp add: delivered_at_def)
  qed
  show "ok (store (con ?s'))" using re by simp
  show "distinct (map place (inflight ?s'))" by simp
  show "fetched_last log (position ?s') m" if "(m, r) \<in> set (inflight ?s')" for m r
    using that by simp
  show "delivered_at log ?s' t p n" if "pos (store (con ?s')) t p = Some off" "int n < off" for t p n off
    using that below by simp
  show "delivered_at log ?s' t p n \<or> (record_at log t p n, None) \<in> set (inflight ?s')"
    if "n < position ?s' t p" for t p n
    using that pos [of t p] below by fastforce
qed

lemma in_order_flush:
  assumes inv: "in_order log s" and f: "op_Flush ops (store (con s)) = (r, st')"
  shows "in_order log (s\<lparr>con := (con s)\<lparr>store := st'\<rparr>\<rparr>)"
  using in_orderD [OF inv] flush_law [OF _ f] by (intro in_orderI) (auto simp: delivered_at_def)

lemma in_order_step:
  assumes "session_step ops reload cc h log s s'" and "cc_ordered cc" and "\<not> cc_latest cc" and "in_order log s"
  shows "in_order log s'"
  using assms
proof (induction rule: session_step.induct)
  case (cancel s n)
  then show ?case using in_orderD [OF cancel.prems(3)] by (intro in_orderI) (auto simp: delivered_at_def)
qed (auto intro: in_order_fetch in_order_deliver in_order_commit in_order_flush in_order_restart)

lemma in_order_reachable:
  assumes "session_reachable ops reload cc h log c0 s" and "cc_ordered cc" and "\<not> cc_latest cc"
    and "ok (store c0)" and "\<And>t p. pos (store c0) t p = None"
  shows "in_order log s"
  using assms(1)
proof induction
  case (start ps)
  have "ps t p = 0" for t p
    using start assms(3,5) get_law [OF assms(4)] unfolding readers_start_def by fastforce
  then show ?case using assms by (intro in_orderI) (auto simp: session_start_def)
next
  case (step s s')
  then show ?case using in_order_step assms(2,3) by blast
qed

end

section \<open>Crashes\<close>

text \<open>C11. An ordered consumer that starts from the first record (without \<open>start_from_latest\<close>) loses no message: in
  every run from an empty progress file, with any handler, any interleaving of partitions, failed writes of the file,
  cancelled contexts and crashes at any point, each record below an offset that a restarted process would resume
  from has been delivered, that is decoded and given to the handler, skipped as a duplicate, or found undecodable.\<close>

theorem ordered_consumer_loses_nothing:
  assumes "session_reachable file_ops file_load cc h log c0 s" and "cc_ordered cc" and "\<not> cc_latest cc"
    and "fp_mem (store c0) = Map.empty" and "fp_disk (store c0) = Map.empty"
    and "file_pos (file_load (store (con s))) t p = Some off" and "int n < off"
  shows "delivered_at log s t p n"
proof -
  have "file_store.in_order log s"
    using assms(1-5) by (intro file_store.in_order_reachable) (auto simp: file_ok_def file_pos_def)
  note inv = file_store.in_orderD [OF this]
  have "behind (Some off) (file_pos (store (con s)) t p)"
    using file_store.reload_law [OF inv(1), of t p] assms(6) by simp
  then obtain off' where "file_pos (store (con s)) t p = Some off'" "off \<le> off'"
    by (auto simp: behind_def split: option.splits)
  then show ?thesis using inv(4) assms(7) by fastforce
qed

definition quiet_consumer :: "'s \<Rightarrow> (string, nat, 's) consumer" where
  "quiet_consumer st = \<lparr>app = 0, ctx_left = None, slept = [], store = st, dlq_file = (\<lambda>_. []), dlq_backlog = (\<lambda>_. 0), file_faults = []\<rparr>"

definition empty_file :: file_progress where
  "empty_file = \<lparr>fp_mem = Map.empty, fp_disk = Map.empty, fp_faults = []\<rparr>"

definition sample_config :: "bool \<Rightarrow> consumer_config" where
  "sample_config ordered = \<lparr>cc_retry_max = 0, cc_retry_base = 0, cc_retry_limit = 0, cc_ordered = ordered,
     cc_dlq_path = ''dlq'', cc_instances = 1, cc_instance = 0, cc_latest = False\<rparr>"

definition counting :: "(string, nat) handler" where
  "counting m n = (Returned None, Suc n)"

definition two_records :: "string event_log" where
  "two_records t p = (if t = ''t'' \<and> p = 0 then [Event ''a'' ''x'', Event ''b'' ''y''] else [])"

definition delivered_here :: "nat \<Rightarrow> (string, nat, file_progress) session \<Rightarrow> bool" where
  "delivered_here n s = delivered_at two_records s ''t'' 0 n"

lemma deliver_sample:
  "deliver file_ops (sample_config b) counting (record_at two_records ''t'' 0 n) c =
     (Inr ResultProcessed, c\<lparr>app := Suc (app c)\<rparr>)" if "n < 2"
proof -
  have "two_records ''t'' 0 ! n \<in> {Event ''a'' ''x'', Event ''b'' ''y''}"
    using that by (auto simp: two_records_def less_2_cases_iff)
  then show ?thesis
    by (auto simp: deliver_def unmarshal_def file_ops_def file_Seen_def in_store_def process_def retryProcess_def
        callHandlerSafe_def counting_def handler_error_def io_defs sample_config_def)
qed

text \<open>The commit of the record at offset \<open>n\<close>, in memory and, in ordered mode, on disk.\<close>

definition after_commit :: "nat \<Rightarrow> bool \<Rightarrow> file_progress \<Rightarrow> file_progress" where
  "after_commit n b st = (let st' = offset_set ''t'' 0 (int n + 1) st in if b then st'\<lparr>fp_disk := fp_mem st'\<rparr> else st')"

lemma commit_sample:
  "fp_faults (store c) = [] \<Longrightarrow>
   commitOffset file_ops (sample_config b) (record_at two_records ''t'' 0 n) ev c =
     (Inr (), c\<lparr>store := after_commit n b (store c)\<rparr>)"
  by (auto simp: commitOffset_def best_effort_def in_store_def file_ops_def file_Commit_def file_flush_def file_write_def
      sample_config_def then_io_def bind_io_def modify_io_def ret_def after_commit_def offset_set_def Let_def
      split: list.split option.split)

text \<open>Steps of a session over the two records, from a state given by its parts.\<close>

definition sample_session :: "file_progress \<Rightarrow> nat \<Rightarrow> nat \<Rightarrow> (string kafka_message \<times> consume_result option) list \<Rightarrow>
    (string kafka_message \<times> consume_result) list \<Rightarrow> (string, nat, file_progress) session" where
  "sample_session st calls n fl dl = \<lparr>con = (quiet_consumer st)\<lparr>app := calls\<rparr>,
     position = (\<lambda>_ _. 0)(''t'' := (\<lambda>_. 0)(0 := n)), inflight = fl, delivered = dl\<rparr>"

abbreviation sample_record :: "nat \<Rightarrow> string kafka_message" where
  "sample_record n \<equiv> record_at two_records ''t'' 0 n"

abbreviation sample_step :: "bool \<Rightarrow> (string, nat, file_progress) session \<Rightarrow> (string, nat, file_progress) session \<Rightarrow> bool" where
  "sample_step b \<equiv> session_step file_ops file_load (sample_config b) counting two_records"

abbreviation sample_reachable :: "bool \<Rightarrow> (string, nat, file_progress) session \<Rightarrow> bool" where
  "sample_reachable b \<equiv> session_reachable file_ops file_load (sample_config b) counting two_records (quiet_consumer empty_file)"

lemma sample_fetch:
  assumes "n < 2" and "b \<longrightarrow> fl = []"
  shows "sample_step b (sample_session st calls n fl dl) (sample_session st calls (Suc n) (fl @ [(sample_record n, None)]) dl)"
proof -
  have "sample_step b (sample_session st calls n fl dl)
    ((sample_session st calls n fl dl)\<lparr>position := (position (sample_session st calls n fl dl))
        (''t'' := (position (sample_session st calls n fl dl) ''t'')(0 := Suc n)),
      inflight := inflight (sample_session st calls n fl dl) @ [(sample_record n, None)]\<rparr>)"
    using assms by (intro session_step.fetch) (auto simp: sample_session_def two_records_def sample_config_def)
  then show ?thesis by (simp add: sample_session_def)
qed

lemma sample_deliver:
  assumes "n < 2"
  shows "sample_step b (sample_session st calls p (xs @ (sample_record n, None) # ys) dl)
    (sample_session st (Suc calls) p (xs @ (sample_record n, Some ResultProcessed) # ys) (dl @ [(sample_record n, ResultProcessed)]))"
proof -
  let ?s = "sample_session st calls p (xs @ (sample_record n, None) # ys) dl"
  have "deliver file_ops (sample_config b) counting (sample_record n) (con ?s) = (Inr ResultProcessed, (con ?s)\<lparr>app := Suc calls\<rparr>)"
    by (simp add: deliver_sample assms sample_session_def)
  from session_step.deliver [OF _ this, of xs ys file_load two_records] show ?thesis
    by (simp add: sample_session_def)
qed

lemma sample_commit:
  assumes "fp_faults st = []"
  shows "sample_step b (sample_session st calls p (xs @ (sample_record n, Some ResultProcessed) # ys) dl)
    (sample_session (after_commit n b st) calls p (xs @ ys) dl)"
proof -
  let ?s = "sample_session st calls p (xs @ (sample_record n, Some ResultProcessed) # ys) dl"
  have "commitOffset file_ops (sample_config b) (sample_record n) (event_id_of (km_body (sample_record n))) (con ?s) =
      (Inr (), (con ?s)\<lparr>store := after_commit n b st\<rparr>)"
    using assms by (subst commit_sample) (simp_all add: sample_session_def quiet_consumer_def)
  from session_step.commit [OF _ this, of xs ResultProcessed ys] show ?thesis
    by (simp add: sample_session_def quiet_consumer_def)
qed

lemma sample_begin: "sample_reachable b (sample_session empty_file 0 0 [] [])"
  using session_reachable.start [of file_ops "sample_config b" two_records "quiet_consumer empty_file" "\<lambda>_ _. 0" file_load counting]
  by (simp add: readers_start_def sample_config_def session_start_def sample_session_def quiet_consumer_def fun_upd_def)

theorem ordered_consumer_loses_nothing_witness:
  "\<exists>s. sample_reachable True s \<and> file_pos (file_load (store (con s))) ''t'' 0 = Some 1 \<and> delivered_here 0 s"
proof -
  let ?st = "after_commit 0 True empty_file"
  let ?s = "sample_session ?st 1 1 [] [(sample_record 0, ResultProcessed)]"
  have "sample_reachable True (sample_session empty_file 0 1 ([] @ (sample_record 0, None) # []) [])"
    using session_reachable.step [OF sample_begin sample_fetch [of 0 True "[]"]] by simp
  from session_reachable.step [OF this sample_deliver]
  have "sample_reachable True (sample_session empty_file 1 1 ([] @ (sample_record 0, Some ResultProcessed) # []) [(sample_record 0, ResultProcessed)])"
    by simp
  from session_reachable.step [OF this sample_commit] have r: "sample_reachable True ?s"
    by (simp add: empty_file_def)
  have p: "file_pos (file_load (store (con ?s))) ''t'' 0 = Some 1"
    by (simp add: sample_session_def quiet_consumer_def after_commit_def empty_file_def offset_set_def file_pos_def
        file_load_def Let_def)
  have "delivered_at two_records ?s ''t'' 0 0"
    by (rule ordered_consumer_loses_nothing [OF r _ _ _ _ p])
      (simp_all add: sample_config_def quiet_consumer_def empty_file_def)
  then show ?thesis using r p unfolding delivered_here_def by blast
qed

text \<open>With \<open>start_from_latest\<close> a crash before the first commit loses what was fetched: nothing is recorded, so the next
  process starts at the end again, behind a record that was given to no handler.\<close>

theorem latest_start_loses_a_fetched_record:
  "\<exists>s. session_reachable file_ops file_load ((sample_config True)\<lparr>cc_latest := True\<rparr>) counting two_records (quiet_consumer empty_file) s \<and>
     position s ''t'' 0 = 1 \<and> inflight s = [] \<and> \<not> delivered_here 0 s"
proof -
  let ?cc = "(sample_config True)\<lparr>cc_latest := True\<rparr>" and ?at = "\<lambda>n. (\<lambda>_ _. 0 :: nat)(''t'' := (\<lambda>_. 0)(0 := n :: nat))"
  have rs: "readers_start file_ops ?cc two_records st (?at n)" if "n < 2" for st n
    using that by (auto simp: readers_start_def two_records_def)
  let ?s = "session_start (quiet_consumer empty_file) (?at 0) :: (string, nat, file_progress) session"
  let ?s1 = "?s\<lparr>position := (position ?s)(''t'' := (position ?s ''t'')(0 := Suc 0)), inflight := inflight ?s @ [(sample_record 0, None)]\<rparr>"
  have "session_reachable file_ops file_load ?cc counting two_records (quiet_consumer empty_file) ?s"
    by (rule session_reachable.start [OF rs]) simp
  then have "session_reachable file_ops file_load ?cc counting two_records (quiet_consumer empty_file) ?s1"
    by (rule session_reachable.step) (rule session_step.fetch; simp add: session_start_def two_records_def)
  then have "session_reachable file_ops file_load ?cc counting two_records (quiet_consumer empty_file)
      (?s1\<lparr>con := (con ?s1)\<lparr>store := file_load (store (con ?s1)), app := 0, ctx_left := None\<rparr>, inflight := [], position := ?at 1\<rparr>)"
    by (rule session_reachable.step) (rule session_step.restart [OF refl rs]; simp)
  then show ?thesis
    by (intro exI conjI, assumption) (simp_all add: delivered_here_def delivered_at_def session_start_def)
qed

text \<open>Without ordered commits a crash loses messages: a worker that finishes a later record moves the offset
  past an earlier one whose handler is still running; when the offset is written and the process
  restarts, the earlier record lies below the position of its reader and was never delivered.\<close>

theorem concurrent_commit_loses_message:
  "\<exists>s. sample_reachable False s \<and> position s ''t'' 0 = 2 \<and> inflight s = [] \<and>
     file_pos (file_load (store (con s))) ''t'' 0 = Some 2 \<and> \<not> delivered_here 0 s"
proof -
  let ?st = "after_commit 1 False empty_file"
  let ?dl = "[(sample_record 1, ResultProcessed)]"
  have "sample_reachable False (sample_session empty_file 0 1 [(sample_record 0, None)] [])"
    using session_reachable.step [OF sample_begin sample_fetch [of 0 False "[]"]] by simp
  from session_reachable.step [OF this sample_fetch]
  have "sample_reachable False (sample_session empty_file 0 2 ([(sample_record 0, None)] @ (sample_record 1, None) # []) [])"
    by (simp add: numeral_2_eq_2)
  from session_reachable.step [OF this sample_deliver]
  have "sample_reachable False (sample_session empty_file 1 2 ([(sample_record 0, None)] @ (sample_record 1, Some ResultProcessed) # []) ?dl)"
    by simp
  from session_reachable.step [OF this sample_commit]
  have "sample_reachable False (sample_session ?st 1 2 [(sample_record 0, None)] ?dl)" (is "sample_reachable False ?s1")
    by (simp add: empty_file_def)
  moreover have "op_Flush file_ops (store (con ?s1)) = (Inr (), ?st\<lparr>fp_disk := fp_mem ?st\<rparr>)"
    by (simp add: file_ops_def file_flush_def file_write_def sample_session_def quiet_consumer_def after_commit_def
        offset_set_def empty_file_def modify_io_def Let_def)
  ultimately have r2: "sample_reachable False (?s1\<lparr>con := (con ?s1)\<lparr>store := ?st\<lparr>fp_disk := fp_mem ?st\<rparr>\<rparr>\<rparr>)" (is "sample_reachable False ?s2")
    by (blast intro: session_reachable.step session_step.flush)
  let ?st3 = "file_load (store (con ?s2))"
  have pos: "file_pos ?st3 ''t'' 0 = Some 2"
    by (simp add: sample_session_def quiet_consumer_def after_commit_def empty_file_def offset_set_def file_pos_def
        file_load_def Let_def)
  have rs: "readers_start file_ops (sample_config False) two_records ?st3 ((\<lambda>_ _. 0)(''t'' := (\<lambda>_. 0)(0 := 2)))"
    using pos by (auto simp: readers_start_def file_ops_def file_Get_def gets_io_def file_pos_def)
  have "sample_reachable False (?s2\<lparr>con := (con ?s2)\<lparr>store := ?st3, app := 0, ctx_left := None\<rparr>, inflight := [],
      position := (\<lambda>_ _. 0)(''t'' := (\<lambda>_. 0)(0 := 2))\<rparr>)" (is "sample_reachable False ?s3")
    by (rule session_reachable.step [OF r2], rule session_step.restart [OF _ rs]) simp
  moreover have "\<not> delivered_here 0 ?s3"
    by (simp add: delivered_here_def delivered_at_def sample_session_def)
  moreover have "file_pos (file_load (store (con ?s3))) ''t'' 0 = Some 2"
    using pos by (simp add: file_load_def)
  ultimately show ?thesis by (intro exI [of _ ?s3]) simp
qed

section \<open>The order of the workers\<close>

lemma commit_all_progress:
  "\<not> cc_ordered cc \<Longrightarrow>
   file_pos (store (snd (for_io ms (\<lambda>m. commitOffset file_ops cc m ev) c))) =
     fold (\<lambda>m. advance (km_topic m) (km_partition m) (km_offset m + 1)) ms (file_pos (store c))"
proof (induction ms arbitrary: c)
  case Nil
  then show ?case by (simp add: ret_def)
next
  case (Cons m ms)
  have "commitOffset file_ops cc m ev c = (Inr (), c\<lparr>store := offset_set (km_topic m) (km_partition m) (km_offset m + 1) (store c)\<rparr>)"
    using Cons.prems by (simp add: commitOffset_def best_effort_def in_store_def file_ops_def file_Commit_def
        then_io_def bind_io_def modify_io_def ret_def)
  then show ?case
    using Cons.IH [OF Cons.prems] by (simp add: then_io_def bind_io_def offset_set_advances)
qed

text \<open>C36. The workers of the concurrent mode may finish in any order: the recorded offsets after committing the
  same records in two orders are the same, because an offset only grows.\<close>

theorem commits_in_any_order_agree:
  assumes "\<not> cc_ordered cc" and "mset ms' = mset ms"
  shows "file_pos (store (snd (for_io ms' (\<lambda>m. commitOffset file_ops cc m ev) c))) =
    file_pos (store (snd (for_io ms (\<lambda>m. commitOffset file_ops cc m ev) c)))"
proof -
  have "fold (\<lambda>m. advance (km_topic m) (km_partition m) (km_offset m + 1)) ms' =
      fold (\<lambda>m. advance (km_topic m) (km_partition m) (km_offset m + 1)) ms"
    using assms(2) by (intro fold_multiset_equiv) (auto simp: fun_eq_iff advance_commute)
  then show ?thesis using assms(1) by (simp add: commit_all_progress)
qed

theorem commits_in_any_order_agree_witness:
  "file_pos (store (snd (for_io [sample_record 1, sample_record 0]
       (\<lambda>m. commitOffset file_ops (sample_config False) m []) (quiet_consumer empty_file)))) =
   file_pos (store (snd (for_io [sample_record 0, sample_record 1]
       (\<lambda>m. commitOffset file_ops (sample_config False) m []) (quiet_consumer empty_file))))"
  by (rule commits_in_any_order_agree) (simp_all add: sample_config_def)

section \<open>What becomes of a message\<close>

lemma app_appendDLQ [simp]: "app (snd (appendDLQ cc m e c)) = app c"
  by (auto simp: appendDLQ_def io_defs file_call_def split: list.split)

lemma appendDLQ_writes:
  "cc_dlq_path cc \<noteq> [] \<Longrightarrow> file_faults c = [] \<Longrightarrow>
   appendDLQ cc m e c = (Inr (), c\<lparr>dlq_file := (dlq_file c)(km_topic m := dlq_file c (km_topic m) @ [(m, e)]),
     dlq_backlog := (dlq_backlog c)(km_topic m := dlq_backlog c (km_topic m) + 1)\<rparr>)"
  by (simp add: appendDLQ_def io_defs file_call_def)

lemma retryProcess_more:
  fixes c :: "('m, 'w, 's) consumer"
  assumes "retryProcess h m n b x c = (r, c')"
  shows "store c' = store c \<and> dlq_file c' = dlq_file c \<and> file_faults c' = file_faults c"
  using rest_retryProcess [of h m n b x] assms unfolding evolves_def same_rest_def
  by (metis consumer.select_convs(1,2,4) consumer.surjective worker.select_convs(4) snd_conv)

text \<open>What \<open>process\<close> does: it reports success only after a call that returned no error, and else the message is
  in the file of dead letters.\<close>

lemma process_outcome:
  fixes c :: "('m, 'w, 's) consumer"
  assumes "process cc h m msg c = (Inr dlqed, c')"
  shows "store c' = store c"
    and "\<not> dlqed \<Longrightarrow> \<exists>k \<le> nat (maxInt (cc_retry_max cc) 0).
      call_result h msg k (app c) = Returned None \<and> app c' = after_calls h msg (Suc k) (app c)"
    and "dlqed \<Longrightarrow> cc_dlq_path cc \<noteq> [] \<Longrightarrow> file_faults c = [] \<Longrightarrow>
      \<exists>e. dlq_file c' (km_topic m) = dlq_file c (km_topic m) @ [(m, e)]"
proof -
  let ?retry = "retryProcess h msg (cc_retry_max cc) (orDuration (cc_retry_base cc) second)
    (orDuration (cc_retry_limit cc) (16 * second))"
  obtain r c1 where r: "?retry c = (r, c1)" by fastforce
  note more = retryProcess_more [OF r]
  consider x where "r = Inr x" "dlqed = False" "c' = c1"
    | e where "r = Inl e" "dlqed = True" "c' = snd (appendDLQ cc m e c1)"
    using assms r by (cases r) (auto simp: process_def bind_io_def attempt_def then_io_def ret_def
        split: prod.splits sum.splits)
  note cs = this
  show "store c' = store c" using more by (cases rule: cs) auto
  show "\<exists>k \<le> nat (maxInt (cc_retry_max cc) 0).
      call_result h msg k (app c) = Returned None \<and> app c' = after_calls h msg (Suc k) (app c)" if "\<not> dlqed"
    using that r by (cases rule: cs) (auto dest: retryProcess_success)
  show "\<exists>e. dlq_file c' (km_topic m) = dlq_file c (km_topic m) @ [(m, e)]"
    if "dlqed" "cc_dlq_path cc \<noteq> []" "file_faults c = []"
    using that more by (cases rule: cs) (auto simp: appendDLQ_writes)
qed

lemma handle_unfold:
  "handle ops cc h m c = (case deliver ops cc h m c of
      (Inl e, c1) \<Rightarrow> (Inl e, c1)
    | (Inr res, c1) \<Rightarrow> (Inr res, snd (commitOffset ops cc m (event_id_of (km_body m)) c1)))"
  by (auto simp: handle_def bind_io_def then_io_def commitOffset_def best_effort_def ret_def
      split: prod.splits sum.splits)

lemma fst_handle: "fst (handle ops cc h m c) = fst (deliver ops cc h m c)"
  by (simp add: handle_unfold split: prod.split sum.split)

lemma commitOffset_more [simp]:
  "app (snd (commitOffset ops cc m ev c)) = app c" "dlq_file (snd (commitOffset ops cc m ev c)) = dlq_file c"
  by (simp_all add: commitOffset_def best_effort_def in_store_def split: prod.split)

definition consumed_events :: "sql_progress \<Rightarrow> string set" where
  "consumed_events s = cd_event ` set (sp_dedups s)"

definition seen_event :: "string \<Rightarrow> sql_progress \<Rightarrow> bool" where
  "seen_event i s \<longleftrightarrow> i \<in> consumed_events s"

text \<open>Whether the dead letters of a topic hold a message.\<close>

definition dead_lettered :: "'m kafka_message \<Rightarrow> ('m, 'w, 's) consumer \<Rightarrow> bool" where
  "dead_lettered m c \<longleftrightarrow> m \<in> fst ` set (dlq_file c (km_topic m))"

text \<open>Whether the handler, called at most as often as configured, returned no error at its last call.\<close>

definition handler_succeeded :: "consumer_config \<Rightarrow> ('m, 'w) handler \<Rightarrow> 'm \<Rightarrow> 'w \<Rightarrow> 'w \<Rightarrow> bool" where
  "handler_succeeded cc h msg a a' \<longleftrightarrow>
     (\<exists>k \<le> nat (maxInt (cc_retry_max cc) 0). call_result h msg k a = Returned None \<and> a' = after_calls h msg (Suc k) a)"

lemma sql_seen_cases:
  assumes "in_store (op_Seen sql_ops i) c = (r, c1)"
  shows "app c1 = app c \<and> dlq_file c1 = dlq_file c \<and> file_faults c1 = file_faults c \<and>
    sp_dedups (store c1) = sp_dedups (store c) \<and> (r = Inr True \<longrightarrow> seen_event i (store c))"
  using assms
  by (auto simp: in_store_def sql_ops_def sql_Seen_def sql_call_def gets_io_def ret_def seen_event_def consumed_events_def
      split: prod.splits list.splits if_splits)

text \<open>No message disappears while dead letters can be written: a message counted as processed was handled by
  a call that returned no error, one counted as dead is in the file of its topic, and one counted
  as a duplicate has an event that the table of consumed events holds and leaves the state of the
  handler alone.\<close>

theorem every_message_has_an_outcome:
  assumes "handle sql_ops cc h m c = (Inr res, c')" and "km_body m = Event i msg"
    and "cc_dlq_path cc \<noteq> []" and "file_faults c = []"
  shows "case res of
      ResultProcessed \<Rightarrow> handler_succeeded cc h msg (app c) (app c')
    | ResultDLQ \<Rightarrow> dead_lettered m c'
    | ResultDedupSkipped \<Rightarrow> seen_event i (store c) \<and> app c' = app c"
proof -
  obtain c1 where d: "deliver sql_ops cc h m c = (Inr res, c1)"
    and c': "app c' = app c1" "dlq_file c' = dlq_file c1"
    using assms(1) by (auto simp: handle_unfold split: prod.splits sum.splits)
  let ?look = "if i = [] then ret (Inr False) else attempt (in_store (op_Seen sql_ops i))"
  obtain seen c2 where look: "?look c = (Inr seen, c2)"
    and c2: "app c2 = app c" "file_faults c2 = []" "seen = Inr True \<longrightarrow> seen_event i (store c)"
  proof -
    obtain r c2 where "in_store (op_Seen sql_ops i) c = (r, c2)" by fastforce
    from this sql_seen_cases [OF this] assms(4) show thesis
      using that [of "if i = [] then Inr False else r" "if i = [] then c else c2"]
      by (auto simp: attempt_def ret_def split: if_splits)
  qed
  show ?thesis
  proof (cases "seen = Inr True")
    case True
    then have "res = ResultDedupSkipped" "c1 = c2"
      using d look assms(2) by (auto simp: deliver_def unmarshal_def bind_io_def ret_def split: if_splits)
    then show ?thesis using True c2 c' by simp
  next
    case False
    then obtain dlqed where p: "process cc h m msg c2 = (Inr dlqed, c1)"
      and res: "res = (if dlqed then ResultDLQ else ResultProcessed)"
      using d look assms(2)
      by (auto simp: deliver_def unmarshal_def bind_io_def ret_def split: if_splits prod.splits sum.splits)
    show ?thesis
      using process_outcome [OF p] c2 c' assms(3) res
      by (cases dlqed) (force simp: handler_succeeded_def dead_lettered_def)+
  qed
qed

definition empty_table :: sql_progress where
  "empty_table = \<lparr>sp_rows = [], sp_dedups = [], sp_faults = []\<rparr>"

lemma first_record [simp]: "two_records ''t'' 0 ! 0 = Event ''a'' ''x''"
  by (simp add: two_records_def)

lemmas deliver_run = fst_handle deliver_def unmarshal_def in_store_def sql_ops_def file_ops_def sql_Seen_def sql_call_def
  file_Seen_def process_def retryProcess_def callHandlerSafe_def handler_error_def appendDLQ_def file_call_def
  sample_config_def quiet_consumer_def empty_table_def empty_file_def io_defs maxInt_def

theorem every_message_has_an_outcome_witness:
  "handler_succeeded (sample_config False) counting ''x'' 0
     (app (snd (handle sql_ops (sample_config False) counting (record_at two_records ''t'' 0 0) (quiet_consumer empty_table))))"
proof -
  let ?m = "record_at two_records ''t'' 0 0"
  let ?c' = "snd (handle sql_ops (sample_config False) counting ?m (quiet_consumer empty_table))"
  have b: "km_body ?m = Event ''a'' ''x''" by simp
  have "fst (handle sql_ops (sample_config False) counting ?m (quiet_consumer empty_table)) = Inr ResultProcessed"
    by (simp add: deliver_run counting_def)
  then have "handle sql_ops (sample_config False) counting ?m (quiet_consumer empty_table) = (Inr ResultProcessed, ?c')"
    by (simp add: prod_eq_iff)
  from every_message_has_an_outcome [OF this b] show ?thesis
    by (simp add: sample_config_def quiet_consumer_def)
qed

text \<open>The table of consumed events after a message whose offset was committed.\<close>

lemma deliver_keeps_dedups:
  fixes c :: "('m, 'w, sql_progress) consumer"
  assumes "deliver sql_ops cc h m c = (r, c')"
  shows "sp_dedups (store c') = sp_dedups (store c) \<and> (sp_faults (store c) = [] \<longrightarrow> sp_faults (store c') = [])"
proof -
  define R :: "('m, 'w, sql_progress) consumer \<Rightarrow> ('m, 'w, sql_progress) consumer \<Rightarrow> bool"
    where "R = (\<lambda>a b. sp_dedups (store b) = sp_dedups (store a) \<and> (sp_faults (store a) = [] \<longrightarrow> sp_faults (store b) = []))"
  have rel: "two_state R" by unfold_locales (auto simp: R_def)
  note rules = two_state.ev_rules [OF rel]
  have same: "evolves R f" if "\<And>a. store (snd (f a)) = store a" for f :: "(('m, 'w, sql_progress) consumer, 'b) io"
    using that by (simp add: evolves_def R_def)
  have prims: "evolves R (appendDLQ cc m e)" "evolves R (retryProcess h msg n b x)" for e msg n b x
    by (auto intro: same)
  have "evolves R (in_store (op_Seen sql_ops ev))" for ev
    by (auto simp: evolves_def R_def in_store_def sql_ops_def sql_Seen_def sql_call_def gets_io_def ret_def
        split: list.split)
  then have "evolves R (deliver sql_ops cc h m)"
    unfolding deliver_def process_def by (auto intro!: rules prims split: sum.split prod.split)
  then show ?thesis using assms evolvesD [of R "deliver sql_ops cc h m" c r c'] by (simp add: R_def)
qed

lemma sql_commit_quiet:
  assumes "sp_faults s = []"
  shows "\<exists>s'. sql_Commit t p off ev sync s = (Inr (), s') \<and> sp_faults s' = []"
  using assms by (auto simp: sql_Commit_def sql_transaction_def sql_call_def io_defs save_progress_def mark_consumed_def
      Let_def split: option.split)

text \<open>A seen event is skipped, whatever the handler.\<close>

lemma seen_event_is_skipped:
  assumes "km_body m = Event i msg" and "i \<noteq> []" and "seen_event i (store c)" and "sp_faults (store c) = []"
  shows "fst (handle sql_ops cc h m c) = Inr ResultDedupSkipped \<and> app (snd (handle sql_ops cc h m c)) = app c \<and>
    dlq_file (snd (handle sql_ops cc h m c)) = dlq_file c"
proof -
  have "deliver sql_ops cc h m c = (Inr ResultDedupSkipped, c)"
    using assms by (simp add: deliver_def unmarshal_def in_store_def sql_ops_def sql_Seen_def sql_call_def
        seen_event_def consumed_events_def io_defs)
  then show ?thesis by (simp add: handle_unfold)
qed

lemma handled_event_is_seen:
  assumes "km_body m = Event i msg" and "i \<noteq> []" and "sp_faults (store c) = []"
    and "handle sql_ops cc h m c = (r, c')"
  shows "seen_event i (store c') \<and> sp_faults (store c') = []"
proof -
  obtain q c1 where d: "deliver sql_ops cc h m c = (q, c1)" by fastforce
  have f: "sp_faults (store c1) = []" using deliver_keeps_dedups [OF d] assms(3) by simp
  have "\<exists>res. q = Inr res"
    using d assms(1) by (auto simp: deliver_def unmarshal_def process_def bind_io_def attempt_def ret_def then_io_def
        appendDLQ_def best_effort_def split: prod.splits sum.splits if_splits)
  then have c': "c' = snd (commitOffset sql_ops cc m i c1)"
    using d assms(1,4) by (auto simp: handle_unfold event_id_of_def)
  obtain s' where "sql_Commit (km_topic m) (km_partition m) (km_offset m + 1) i (cc_ordered cc) (store c1) = (Inr (), s')"
    and s': "sp_faults s' = []"
    using sql_commit_quiet [OF f] by blast
  then show ?thesis
    using c' assms(2) sql_commit_done(2) [of "km_topic m" "km_partition m" "km_offset m + 1" i "cc_ordered cc" "store c1" "()" s']
    by (auto simp: commitOffset_def best_effort_def in_store_def sql_ops_def seen_event_def consumed_events_def)
qed

text \<open>With the table of consumed events a second record of an event, on whatever partition, is skipped and
  leaves the state of the handler and the dead letters alone. This holds whatever became of the
  first: an event whose handler failed every time, and which lies among the dead letters, is never
  given to the handler again either.\<close>

theorem second_record_of_an_event_is_skipped:
  assumes "km_body m = Event i msg" and "km_body m' = Event i msg'" and "i \<noteq> []" and "sp_faults (store c) = []"
    and "handle sql_ops cc h m c = (r, c')"
  shows "fst (handle sql_ops cc h m' c') = Inr ResultDedupSkipped \<and> app (snd (handle sql_ops cc h m' c')) = app c' \<and>
    dlq_file (snd (handle sql_ops cc h m' c')) = dlq_file c'"
  using assms by (intro seen_event_is_skipped) (auto dest: handled_event_is_seen)

definition failing :: "(string, nat) handler" where
  "failing m n = (Returned (Some (Fault m)), n + 1)"

theorem second_record_of_an_event_is_skipped_witness:
  "fst (handle sql_ops (sample_config False) failing (record_at two_records ''t'' 0 0) (quiet_consumer empty_table)) = Inr ResultDLQ
   \<and> fst (handle sql_ops (sample_config False) failing (record_at two_records ''t'' 0 0)
       (snd (handle sql_ops (sample_config False) failing (record_at two_records ''t'' 0 0) (quiet_consumer empty_table))))
     = Inr ResultDedupSkipped"
proof -
  let ?m = "record_at two_records ''t'' 0 0"
  let ?h = "handle sql_ops (sample_config False) failing ?m (quiet_consumer empty_table)"
  have b: "km_body ?m = Event ''a'' ''x''" by simp
  have "fst (handle sql_ops (sample_config False) failing ?m (snd ?h)) = Inr ResultDedupSkipped"
    using second_record_of_an_event_is_skipped [OF b b, of "quiet_consumer empty_table" "sample_config False" failing "fst ?h" "snd ?h"]
    by (simp add: quiet_consumer_def empty_table_def)
  moreover have "fst ?h = Inr ResultDLQ"
    by (simp add: deliver_run failing_def)
  ultimately show ?thesis by simp
qed

text \<open>Without a path for dead letters a message whose handler fails at every call is counted as a dead letter,
  but is kept nowhere, and its offset is committed: after the next restart it is not read again.\<close>

theorem failed_message_without_dlq_path_is_lost:
  assumes "cc_dlq_path cc = []" and "\<not> cc_ordered cc" and "km_body m = Event i msg"
    and "handle file_ops cc h m c = (Inr ResultDLQ, c')"
  shows "dlq_file c' = dlq_file c" and "\<exists>off. file_pos (store c') (km_topic m) (km_partition m) = Some off \<and> km_offset m < off"
proof -
  obtain c1 where d: "deliver file_ops cc h m c = (Inr ResultDLQ, c1)"
    and c': "c' = snd (commitOffset file_ops cc m i c1)"
    using assms(3,4) by (auto simp: handle_unfold event_id_of_def split: prod.splits sum.splits)
  have "dlq_file c1 = dlq_file c"
    using d assms(1,3)
    by (auto simp: deliver_def unmarshal_def process_def appendDLQ_def file_ops_def file_Seen_def in_store_def
        bind_io_def attempt_def then_io_def ret_def dest: retryProcess_more split: prod.splits sum.splits if_splits)
  then show "dlq_file c' = dlq_file c" using c' by simp
  have "file_pos (store c') = advance (km_topic m) (km_partition m) (km_offset m + 1) (file_pos (store c1))"
    using c' assms(2) by (simp add: commitOffset_def best_effort_def in_store_def file_ops_def file_Commit_def
        then_io_def bind_io_def modify_io_def ret_def offset_set_advances)
  then show "\<exists>off. file_pos (store c') (km_topic m) (km_partition m) = Some off \<and> km_offset m < off"
    by (auto simp: advance_def split: option.split)
qed

theorem failed_message_without_dlq_path_is_lost_witness:
  "dlq_file (snd (handle file_ops ((sample_config False)\<lparr>cc_dlq_path := []\<rparr>) failing (record_at two_records ''t'' 0 0)
     (quiet_consumer empty_file))) = (\<lambda>_. [])"
proof -
  let ?m = "record_at two_records ''t'' 0 0"
  let ?cc = "(sample_config False)\<lparr>cc_dlq_path := []\<rparr>"
  let ?h = "handle file_ops ?cc failing ?m (quiet_consumer empty_file)"
  have b: "km_body ?m = Event ''a'' ''x''" by simp
  have "fst ?h = Inr ResultDLQ"
    by (simp add: deliver_run failing_def)
  then have "?h = (Inr ResultDLQ, snd ?h)" by (simp add: prod_eq_iff)
  from failed_message_without_dlq_path_is_lost(1) [OF _ _ b this] show ?thesis
    by (simp add: sample_config_def quiet_consumer_def)
qed

section \<open>Several instances\<close>

text \<open>With as many instances as configured, numbered from 0, every partition is consumed by exactly one of them.\<close>

lemma one_instance_each:
  assumes "1 < cc_instances cc" and "p \<in> set parts" and "0 \<le> p"
  shows "\<exists>!i. 0 \<le> i \<and> i < cc_instances cc \<and> p \<in> set (assignPartitions (cc\<lparr>cc_instance := i\<rparr>) parts)"
proof (rule ex1I [of _ "p mod cc_instances cc"])
  show "0 \<le> p mod cc_instances cc \<and> p mod cc_instances cc < cc_instances cc \<and>
      p \<in> set (assignPartitions (cc\<lparr>cc_instance := p mod cc_instances cc\<rparr>) parts)"
    using assms by (simp add: assignPartitions_def Let_def go_rem_nonneg)
next
  fix i
  assume "0 \<le> i \<and> i < cc_instances cc \<and> p \<in> set (assignPartitions (cc\<lparr>cc_instance := i\<rparr>) parts)"
  then show "i = p mod cc_instances cc"
    using assms by (auto simp: assignPartitions_def Let_def go_rem_nonneg split: if_splits)
qed

end
