(* ===== verification/Producer.thy ===== *)
theory Producer
  imports World
begin

text \<open>
  Sending of events (\<open>internal/mq/producer_base.go\<close>, \<open>internal/mq/kafka.go\<close>, \<open>internal/mq/dlq.go\<close>,
  \<open>internal/mq/topics.go\<close>): the queue, the overflow workers, the circuit breaker, the local files of
  dead letters and their replay. The breaker (\<open>gobreaker\<close>) and the broker are external: a schedule
  says what each attempt to write gives and what the breaker answers when it is asked for its
  state. A message is a value of any type, \<open>json.Marshal\<close> of it succeeds.
\<close>

section \<open>Topics\<close>

definition resolveTopic :: "(string \<rightharpoonup> string) \<Rightarrow> string \<Rightarrow> string" where
  "resolveTopic topics ty = (case topics ty of Some t \<Rightarrow> if t \<noteq> [] then t else ''events'' | None \<Rightarrow> ''events'')"

record topics_config =
  tc_user :: string
  tc_idle :: string
  tc_task :: string
  tc_shop :: string
  tc_points :: string
  tc_cache :: string

definition eventTopicsMap :: "topics_config \<Rightarrow> (string \<rightharpoonup> string)" where
  "eventTopicsMap src = [''idle.settled'' \<mapsto> tc_idle src, ''user.registered'' \<mapsto> tc_user src,
     ''user.logged_in'' \<mapsto> tc_user src, ''task.completed'' \<mapsto> tc_task src, ''shop.redeemed'' \<mapsto> tc_shop src,
     ''user.points.adjust'' \<mapsto> tc_points src, ''cache.invalidate'' \<mapsto> tc_cache src]"

definition overlayTopics :: "topics_config \<Rightarrow> topics_config \<Rightarrow> topics_config" where
  "overlayTopics base ov =
     (let pick = (\<lambda>f. if f ov \<noteq> [] then f ov else f base) in
      \<lparr>tc_user = pick tc_user, tc_idle = pick tc_idle, tc_task = pick tc_task, tc_shop = pick tc_shop,
       tc_points = pick tc_points, tc_cache = pick tc_cache\<rparr>)"

text \<open>The kind of queue is given lower-case and trimmed; the two special ones have topics of their own.\<close>

definition topicMapOf :: "string \<Rightarrow> topics_config \<Rightarrow> topics_config \<Rightarrow> topics_config \<Rightarrow> (string \<rightharpoonup> string)" where
  "topicMapOf kind kafka rocket rabbit =
     eventTopicsMap (if kind = ''rocketmq'' then overlayTopics kafka rocket
       else if kind = ''rabbitmq'' then overlayTopics kafka rabbit else kafka)"

primrec first_occurrences :: "string list \<Rightarrow> string list \<Rightarrow> string list" where
  "first_occurrences seen [] = []"
| "first_occurrences seen (t # ts) =
     (if t = [] \<or> t \<in> set seen then first_occurrences seen ts else t # first_occurrences (t # seen) ts)"

definition ConsumerTopics :: "(string \<rightharpoonup> string) \<Rightarrow> string list" where
  "ConsumerTopics m = first_occurrences []
     [resolveTopic m ''idle.settled'', resolveTopic m ''shop.redeemed'', resolveTopic m ''task.completed'',
      resolveTopic m ''user.points.adjust'']"

section \<open>Dead letters\<close>

text \<open>
  A line of a file: a letter with its message, the error and the time, or a line that does not decode
  to one. \<open>line_bytes\<close> is the length of a line, a parameter.
\<close>

datatype 'm dlq_line = Letter 'm gerr instant | Broken string

text \<open>
  The files of each topic: the main file, the snapshot \<open>.replaying\<close> and the \<open>.corrupt\<close> one. The
  schedule of faults is that of the file system; \<open>dq_dropped\<close> is what was refused because its file
  had reached the limit.
\<close>

record 'm dlq_store =
  dq_enabled :: bool
  dq_path :: string
  dq_max :: int
  dq_batch :: int
  dq_now :: instant
  dq_main :: "string \<rightharpoonup> 'm dlq_line list"
  dq_snap :: "string \<rightharpoonup> 'm dlq_line list"
  dq_corrupt :: "string \<rightharpoonup> 'm dlq_line list"
  dq_backlog :: int
  dq_dropped :: "'m list"
  dq_faults :: "bool list"

definition defaultDLQMaxBytes :: int where "defaultDLQMaxBytes = 256 * 2 ^ 20"
definition defaultReplayBatchMax :: int where "defaultReplayBatchMax = 1000"
definition maxDLQLineBytes :: int where "maxDLQLineBytes = 8 * 2 ^ 20"

definition newDLQStore :: "bool \<Rightarrow> string \<Rightarrow> 'm dlq_store" where
  "newDLQStore enabled path = \<lparr>dq_enabled = enabled, dq_path = path, dq_max = defaultDLQMaxBytes,
     dq_batch = defaultReplayBatchMax, dq_now = 0, dq_main = Map.empty, dq_snap = Map.empty, dq_corrupt = Map.empty,
     dq_backlog = 0, dq_dropped = [], dq_faults = []\<rparr>"

definition dq_call :: "string \<Rightarrow> (('m, 'z) dlq_store_scheme, 'a) io \<Rightarrow> (('m, 'z) dlq_store_scheme, 'a) io" where
  "dq_call name f s = (case dq_faults s of
      [] \<Rightarrow> f s
    | b # bs \<Rightarrow> (if b then (Inl (Fault name), s\<lparr>dq_faults := bs\<rparr>) else f (s\<lparr>dq_faults := bs\<rparr>)))"

definition lines_of :: "('l list) option \<Rightarrow> 'l list" where
  "lines_of f = (case f of None \<Rightarrow> [] | Some ls \<Rightarrow> ls)"

definition file_bytes :: "('m dlq_line \<Rightarrow> int) \<Rightarrow> 'm dlq_line list \<Rightarrow> int" where
  "file_bytes line_bytes ls = sum_list (map (\<lambda>l. line_bytes l + 1) ls)"

text \<open>Opening the main file creates it; writing appends to it.\<close>

definition open_main :: "string \<Rightarrow> (('m, 'z) dlq_store_scheme, unit) io" where
  "open_main t = dq_call ''open'' (modify_io (\<lambda>s. s\<lparr>dq_main := (dq_main s)(t \<mapsto> lines_of (dq_main s t))\<rparr>))"

definition write_main :: "string \<Rightarrow> 'm dlq_line list \<Rightarrow> (('m, 'z) dlq_store_scheme, unit) io" where
  "write_main t ls = dq_call ''write'' (modify_io (\<lambda>s. s\<lparr>dq_main := (dq_main s)(t \<mapsto> lines_of (dq_main s t) @ ls)\<rparr>))"

definition dlq_append :: "('m dlq_line \<Rightarrow> int) \<Rightarrow> string \<Rightarrow> 'm \<Rightarrow> gerr \<Rightarrow> (('m, 'z) dlq_store_scheme, unit) io" where
  "dlq_append line_bytes t msg err =
     bind_io (gets_io (\<lambda>s. s)) (\<lambda>s0.
       if \<not> dq_enabled s0 \<or> dq_path s0 = [] then ret ()
       else let line = Letter msg err (dq_now s0) in
         bind_io (if 0 < dq_max s0 then attempt (dq_call ''stat'' (gets_io (\<lambda>s. dq_main s t))) else ret (Inr None)) (\<lambda>stat.
           case stat of
             Inr (Some ls) \<Rightarrow>
               (if dq_max s0 < file_bytes line_bytes ls + line_bytes line + 1
                then modify_io (\<lambda>s. s\<lparr>dq_dropped := dq_dropped s @ [msg]\<rparr>)
                else best_effort (then_io (open_main t) (then_io (write_main t [line])
                       (modify_io (\<lambda>s. s\<lparr>dq_backlog := dq_backlog s + 1\<rparr>)))))
           | _ \<Rightarrow> best_effort (then_io (open_main t) (then_io (write_main t [line])
                       (modify_io (\<lambda>s. s\<lparr>dq_backlog := dq_backlog s + 1\<rparr>))))))"

text \<open>
  \<open>recoverLeftovers\<close>: the snapshots of a process that ended during a replay go back to their main
  files; \<open>names\<close> are the topics in the order in which the directory lists their files.
\<close>

definition recover_one :: "string \<Rightarrow> (('m, 'z) dlq_store_scheme, unit) io" where
  "recover_one t =
     bind_io (attempt (dq_call ''read'' (gets_io (\<lambda>s. lines_of (dq_snap s t))))) (\<lambda>r.
       case r of
         Inl e \<Rightarrow> ret ()
       | Inr ls \<Rightarrow>
           then_io (best_effort (then_io (open_main t) (write_main t ls)))
             (best_effort (dq_call ''remove'' (modify_io (\<lambda>s. s\<lparr>dq_snap := (dq_snap s)(t := None)\<rparr>)))))"

definition recoverLeftovers :: "string list \<Rightarrow> (('m, 'z) dlq_store_scheme, unit) io" where
  "recoverLeftovers names =
     bind_io (gets_io (\<lambda>s. filter (\<lambda>t. dq_snap s t \<noteq> None) names)) (\<lambda>ts. for_io ts recover_one)"

definition write_line :: "string \<Rightarrow> 'm dlq_line \<Rightarrow> (('m, 'z) dlq_store_scheme, unit) io" where
  "write_line t l = write_main t [l]"

definition writeBack :: "string \<Rightarrow> 'm dlq_line list \<Rightarrow> (('m, 'z) dlq_store_scheme, unit) io" where
  "writeBack t ls = best_effort (then_io (open_main t) (for_io ls (write_line t)))"

text \<open>
  The loop over the lines of a snapshot: the failed lines, the number of recovered ones and whether a
  line was too long for the scanner, which ends the loop.
\<close>

primrec drain_lines :: "('m dlq_line \<Rightarrow> int) \<Rightarrow> ('m \<Rightarrow> (('m, 'z) dlq_store_scheme, unit) io) \<Rightarrow> 'm dlq_line list \<Rightarrow>
    'm dlq_line list \<Rightarrow> int \<Rightarrow> bool \<Rightarrow> (('m, 'z) dlq_store_scheme, 'm dlq_line list \<times> int \<times> bool) io" where
  "drain_lines line_bytes relay [] failed recovered stop = ret (failed, recovered, False)"
| "drain_lines line_bytes relay (l # ls) failed recovered stop =
     (if maxDLQLineBytes \<le> line_bytes l then ret (failed, recovered, True)
      else bind_io (gets_io dq_batch) (\<lambda>batch.
        if stop \<or> (0 < batch \<and> batch \<le> recovered) then drain_lines line_bytes relay ls (failed @ [l]) recovered stop
        else (case l of
            Broken b \<Rightarrow> drain_lines line_bytes relay ls (failed @ [l]) recovered stop
          | Letter msg e t \<Rightarrow>
              bind_io (attempt (relay msg)) (\<lambda>r.
                case r of
                  Inl err \<Rightarrow> drain_lines line_bytes relay ls (failed @ [l]) recovered True
                | Inr x \<Rightarrow> then_io (modify_io (\<lambda>s. s\<lparr>dq_backlog := dq_backlog s - 1\<rparr>))
                    (drain_lines line_bytes relay ls failed (recovered + 1) stop)))))"

definition drainSnapshot :: "('m dlq_line \<Rightarrow> int) \<Rightarrow> ('m \<Rightarrow> (('m, 'z) dlq_store_scheme, unit) io) \<Rightarrow> string \<Rightarrow>
    (('m, 'z) dlq_store_scheme, unit) io" where
  "drainSnapshot line_bytes relay t =
     bind_io (attempt (dq_call ''open'' (gets_io (\<lambda>s. lines_of (dq_snap s t))))) (\<lambda>r.
       case r of
         Inl e \<Rightarrow> ret ()
       | Inr ls \<Rightarrow>
           bind_io (drain_lines line_bytes relay ls [] 0 False) (\<lambda>(failed, recovered, scanErr).
             then_io (when_io (failed \<noteq> []) (writeBack t failed))
               (if scanErr
                then best_effort (dq_call ''rename''
                  (modify_io (\<lambda>s. s\<lparr>dq_corrupt := (dq_corrupt s)(t := dq_snap s t), dq_snap := (dq_snap s)(t := None)\<rparr>)))
                else best_effort (dq_call ''remove'' (modify_io (\<lambda>s. s\<lparr>dq_snap := (dq_snap s)(t := None)\<rparr>))))))"

definition replayFile :: "('m dlq_line \<Rightarrow> int) \<Rightarrow> ('m \<Rightarrow> (('m, 'z) dlq_store_scheme, unit) io) \<Rightarrow> string \<Rightarrow>
    (('m, 'z) dlq_store_scheme, unit) io" where
  "replayFile line_bytes relay t =
     bind_io (attempt (dq_call ''stat'' (gets_io (\<lambda>s. dq_main s t)))) (\<lambda>r.
       case r of
         Inr (Some ls) \<Rightarrow>
           bind_io (attempt (dq_call ''rename''
               (modify_io (\<lambda>s. s\<lparr>dq_snap := (dq_snap s)(t := dq_main s t), dq_main := (dq_main s)(t := None)\<rparr>)))) (\<lambda>r.
             case r of Inl e \<Rightarrow> ret () | Inr x \<Rightarrow> drainSnapshot line_bytes relay t)
       | _ \<Rightarrow> ret ())"

definition replayAll :: "('m dlq_line \<Rightarrow> int) \<Rightarrow> ('m \<Rightarrow> (('m, 'z) dlq_store_scheme, unit) io) \<Rightarrow> string list \<Rightarrow>
    (('m, 'z) dlq_store_scheme, unit) io" where
  "replayAll line_bytes relay names =
     bind_io (gets_io (\<lambda>s. dq_enabled s \<and> dq_path s \<noteq> [])) (\<lambda>on.
       if \<not> on then ret ()
       else then_io (recoverLeftovers names)
         (bind_io (gets_io (\<lambda>s. filter (\<lambda>t. dq_main s t \<noteq> None) names)) (\<lambda>ts.
            for_io ts (replayFile line_bytes relay))))"

section \<open>The producer\<close>

text \<open>
  What an attempt to write through the breaker gives: the broker acknowledges, the write fails, or
  the breaker does not let it through. \<open>sent\<close> is what the broker acknowledged; \<open>overflow\<close> are the
  messages of the overflow workers; \<open>breaker_says\<close> answers whether the breaker is open.
\<close>

datatype send_outcome = Acked | Refused | Blocked

record 'm producer = "'m dlq_store" +
  queue :: "'m list"
  queue_size :: nat
  overflow :: "'m list"
  overflow_max :: nat
  sent :: "'m list"
  outcomes :: "send_outcome list"
  breaker_says :: "bool list"

definition errBreakerOpen :: gerr where "errBreakerOpen = Sentinel ''kafka producer: circuit breaker open''"
definition errProducerOverflow :: gerr where
  "errProducerOverflow = Sentinel ''mq producer: queue full and overflow workers saturated''"

text \<open>\<open>breaker.Execute(WriteMessages)\<close>: with no schedule left, writes succeed.\<close>

definition breaker_write :: "'m \<Rightarrow> ('m producer, unit) io" where
  "breaker_write msg s = (case outcomes s of
      [] \<Rightarrow> (Inr (), s\<lparr>sent := sent s @ [msg]\<rparr>)
    | Acked # os \<Rightarrow> (Inr (), s\<lparr>sent := sent s @ [msg], outcomes := os\<rparr>)
    | Refused # os \<Rightarrow> (Inl (Fault ''write messages''), s\<lparr>outcomes := os\<rparr>)
    | Blocked # os \<Rightarrow> (Inl errBreakerOpen, s\<lparr>outcomes := os\<rparr>))"

definition breaker_is_open :: "('m producer, bool) io" where
  "breaker_is_open s = (case breaker_says s of [] \<Rightarrow> (Inr False, s) | b # bs \<Rightarrow> (Inr b, s\<lparr>breaker_says := bs\<rparr>))"

text \<open>The types of the events are given by \<open>ty\<close>, the topics by the map of the configuration.\<close>

record 'm routing =
  rt_topics :: "string \<rightharpoonup> string"
  rt_type :: "'m \<Rightarrow> string"
  rt_bytes :: "'m dlq_line \<Rightarrow> int"

definition topicFor :: "'m routing \<Rightarrow> 'm \<Rightarrow> string" where
  "topicFor rt msg = resolveTopic (rt_topics rt) (rt_type rt msg)"

definition sendOne :: "'m routing \<Rightarrow> 'm \<Rightarrow> ('m producer, unit) io" where
  "sendOne rt msg =
     bind_io (attempt (breaker_write msg)) (\<lambda>r.
       case r of
         Inr x \<Rightarrow> ret ()
       | Inl e \<Rightarrow> (if e = errBreakerOpen then throw errBreakerOpen
                  else dlq_append (rt_bytes rt) (topicFor rt msg) msg e))"

definition isBreakerOpen :: "gerr \<Rightarrow> bool" where
  "isBreakerOpen e \<longleftrightarrow> e = errBreakerOpen"

definition fallbackToDLQ :: "'m routing \<Rightarrow> 'm \<Rightarrow> gerr \<Rightarrow> ('m producer, unit) io" where
  "fallbackToDLQ rt msg e = dlq_append (rt_bytes rt) (topicFor rt msg) msg e"

definition requeue :: "'m routing \<Rightarrow> 'm \<Rightarrow> ('m producer, unit) io" where
  "requeue rt msg =
     bind_io breaker_is_open (\<lambda>open.
       if open then fallbackToDLQ rt msg errBreakerOpen
       else bind_io (gets_io (\<lambda>s. length (queue s) < queue_size s)) (\<lambda>room.
         if room then modify_io (\<lambda>s. s\<lparr>queue := queue s @ [msg]\<rparr>)
         else fallbackToDLQ rt msg errProducerOverflow))"

definition processMessage :: "'m routing \<Rightarrow> 'm \<Rightarrow> ('m producer, unit) io" where
  "processMessage rt msg =
     bind_io (attempt (sendOne rt msg)) (\<lambda>r.
       case r of Inr x \<Rightarrow> ret () | Inl e \<Rightarrow> when_io (isBreakerOpen e) (requeue rt msg))"

definition drainMessage :: "'m routing \<Rightarrow> 'm \<Rightarrow> ('m producer, unit) io" where
  "drainMessage rt msg =
     bind_io (attempt (sendOne rt msg)) (\<lambda>r.
       case r of Inr x \<Rightarrow> ret () | Inl e \<Rightarrow> when_io (isBreakerOpen e) (fallbackToDLQ rt msg e))"

text \<open>\<open>Send\<close>: into the queue, else to an overflow worker, else to the dead letters.\<close>

definition Send :: "'m routing \<Rightarrow> 'm \<Rightarrow> ('m producer, unit) io" where
  "Send rt msg =
     bind_io (gets_io (\<lambda>s. length (queue s) < queue_size s)) (\<lambda>room.
       if room then modify_io (\<lambda>s. s\<lparr>queue := queue s @ [msg]\<rparr>)
       else bind_io (gets_io (\<lambda>s. length (overflow s) < overflow_max s)) (\<lambda>worker.
         if worker then modify_io (\<lambda>s. s\<lparr>overflow := overflow s @ [msg]\<rparr>)
         else dlq_append (rt_bytes rt) (topicFor rt msg) msg errProducerOverflow))"

definition SendBatch :: "'m routing \<Rightarrow> 'm list \<Rightarrow> ('m producer, unit) io" where
  "SendBatch rt msgs = for_io msgs (Send rt)"

definition SendSync :: "'m \<Rightarrow> ('m producer, unit) io" where
  "SendSync msg = breaker_write msg"

definition relay :: "'m \<Rightarrow> ('m producer, unit) io" where
  "relay msg = breaker_write msg"

text \<open>One round of \<open>loop\<close>, and the work of one overflow worker, the \<open>i\<close>-th.\<close>

definition loop_round :: "'m routing \<Rightarrow> ('m producer, unit) io" where
  "loop_round rt =
     bind_io (gets_io queue) (\<lambda>q. case q of
         [] \<Rightarrow> ret ()
       | msg # rest \<Rightarrow> then_io (modify_io (\<lambda>s. s\<lparr>queue := rest\<rparr>)) (processMessage rt msg))"

definition overflow_worker :: "'m routing \<Rightarrow> nat \<Rightarrow> ('m producer, unit) io" where
  "overflow_worker rt i =
     bind_io (gets_io overflow) (\<lambda>os.
       if length os \<le> i then ret ()
       else then_io (modify_io (\<lambda>s. s\<lparr>overflow := take i os @ drop (Suc i) os\<rparr>)) (drainMessage rt (os ! i)))"

text \<open>The end of \<open>loop\<close>: up to 200 messages are sent, the rest goes to the dead letters.\<close>

primrec move_to_dlq :: "'m routing \<Rightarrow> 'm list \<Rightarrow> ('m producer, unit) io" where
  "move_to_dlq rt [] = ret ()"
| "move_to_dlq rt (msg # ms) =
     then_io (modify_io (\<lambda>s. s\<lparr>queue := ms\<rparr>))
       (then_io (dlq_append (rt_bytes rt) (topicFor rt msg) msg errProducerOverflow) (move_to_dlq rt ms))"

definition drainToDLQ :: "'m routing \<Rightarrow> ('m producer, unit) io" where
  "drainToDLQ rt = bind_io (gets_io queue) (move_to_dlq rt)"

definition drain_one :: "'m routing \<Rightarrow> 'm \<Rightarrow> ('m producer, unit) io" where
  "drain_one rt msg =
     bind_io (attempt (sendOne rt msg)) (\<lambda>r. case r of Inr x \<Rightarrow> ret () | Inl e \<Rightarrow> fallbackToDLQ rt msg e)"

primrec drain_queue :: "'m routing \<Rightarrow> nat \<Rightarrow> ('m producer, unit) io" where
  "drain_queue rt 0 = drainToDLQ rt"
| "drain_queue rt (Suc budget) =
     bind_io (gets_io queue) (\<lambda>q. case q of
         [] \<Rightarrow> ret ()
       | msg # rest \<Rightarrow>
           then_io (modify_io (\<lambda>s. s\<lparr>queue := rest\<rparr>))
             (then_io (drain_one rt msg) (drain_queue rt budget)))"

definition drainBudget :: nat where "drainBudget = 200"

definition loop_close :: "'m routing \<Rightarrow> ('m producer, unit) io" where
  "loop_close rt = drain_queue rt drainBudget"

section \<open>What may happen\<close>

text \<open>
  The steps of a producer in any order: \<open>Send\<close> by the handlers, a round of \<open>loop\<close>, an overflow worker, a
  round of \<open>replayLoop\<close> and the end of \<open>loop\<close>. The list holds the messages \<open>Send\<close> was called with.
  Each step runs as a whole; \<open>names\<close> are the topics of the files.
\<close>

inductive producer_runs :: "'m routing \<Rightarrow> string list \<Rightarrow> 'm producer \<Rightarrow> 'm list \<Rightarrow> 'm producer \<Rightarrow> bool"
  for rt :: "'m routing" and names :: "string list" and s0 :: "'m producer" where
  starts: "producer_runs rt names s0 [] s0"
| sends: "producer_runs rt names s0 ms s \<Longrightarrow> producer_runs rt names s0 (msg # ms) (snd (Send rt msg s))"
| loops: "producer_runs rt names s0 ms s \<Longrightarrow> producer_runs rt names s0 ms (snd (loop_round rt s))"
| works: "producer_runs rt names s0 ms s \<Longrightarrow> producer_runs rt names s0 ms (snd (overflow_worker rt i s))"
| replays: "producer_runs rt names s0 ms s \<Longrightarrow> producer_runs rt names s0 ms (snd (replayAll (rt_bytes rt) relay names s))"
| closes: "producer_runs rt names s0 ms s \<Longrightarrow> producer_runs rt names s0 ms (snd (loop_close rt s))"

end
