(* ===== verification/ProducerProperties.thy ===== *)
theory ProducerProperties
  imports Producer "HOL-Library.Multiset"
begin

text \<open>
  Properties of the producer: every accepted message is accounted for, closing empties the queue, a
  crash during a replay loses no dead letter, failures of the file system during a recovery or a
  write-back do, and consumers subscribe to the topics the producers write to.
\<close>

section \<open>Accounting of messages\<close>

definition letter_msgs :: "'m dlq_line list \<Rightarrow> 'm list" where
  "letter_msgs ls = concat (map (\<lambda>l. case l of Letter m e t \<Rightarrow> [m] | Broken b \<Rightarrow> []) ls)"

lemma letter_msgs_simps [simp]:
  "letter_msgs [] = []" "letter_msgs (Letter m e t # ls) = m # letter_msgs ls"
  "letter_msgs (Broken b # ls) = letter_msgs ls" "letter_msgs (xs @ ys) = letter_msgs xs @ letter_msgs ys"
  by (simp_all add: letter_msgs_def)

lemma lines_of_simps [simp]: "lines_of None = []" "lines_of (Some ls) = ls"
  by (simp_all add: lines_of_def)

definition letters_in :: "string list \<Rightarrow> (string \<rightharpoonup> 'm dlq_line list) \<Rightarrow> 'm multiset" where
  "letters_in names f = (\<Sum>t \<in> set names. mset (letter_msgs (lines_of (f t))))"

lemma letters_in_update:
  assumes "t \<in> set names"
  shows "letters_in names (f(t := x)) + mset (letter_msgs (lines_of (f t))) =
    letters_in names f + mset (letter_msgs (lines_of x))"
proof -
  have "letters_in names g = mset (letter_msgs (lines_of (g t))) + (\<Sum>u \<in> set names - {t}. mset (letter_msgs (lines_of (g u))))"
    for g :: "string \<rightharpoonup> 'a dlq_line list"
    unfolding letters_in_def using assms by (intro sum.remove) auto
  from this [of f] this [of "f(t := x)"] show ?thesis by (simp add: add_ac)
qed

text \<open>Where the messages are that the producer has accepted.\<close>

definition accounted :: "string list \<Rightarrow> 'm producer \<Rightarrow> 'm multiset" where
  "accounted names s = mset (sent s) + mset (queue s) + mset (overflow s) + mset (dq_dropped s) +
     letters_in names (dq_main s) + letters_in names (dq_snap s)"

text \<open>
  A store of dead letters that is switched on, with a file system that works, lines the scanner can
  read and no snapshot left.
\<close>

definition lines_fit :: "('m dlq_line \<Rightarrow> int) \<Rightarrow> 'm dlq_line list \<Rightarrow> bool" where
  "lines_fit bytes ls \<longleftrightarrow> list_all (\<lambda>l. bytes l < maxDLQLineBytes) ls"

definition working :: "'m routing \<Rightarrow> 'm producer \<Rightarrow> bool" where
  "working rt s \<longleftrightarrow> dq_enabled s \<and> dq_path s \<noteq> [] \<and> dq_faults s = [] \<and> dq_snap s = Map.empty \<and>
     (\<forall>t. lines_fit (rt_bytes rt) (lines_of (dq_main s t)))"

definition routed :: "'m routing \<Rightarrow> string list \<Rightarrow> bool" where
  "routed rt names \<longleftrightarrow> (\<forall>msg. topicFor rt msg \<in> set names) \<and> (\<forall>msg e t. rt_bytes rt (Letter msg e t) < maxDLQLineBytes)"

text \<open>An operation that keeps the store working and accounts for the messages \<open>ms\<close> more.\<close>

definition accounts :: "'m routing \<Rightarrow> string list \<Rightarrow> 'm multiset \<Rightarrow> 'm producer \<Rightarrow> 'm producer \<Rightarrow> bool" where
  "accounts rt names ms s s' \<longleftrightarrow> working rt s' \<and> accounted names s' = accounted names s + ms"

lemma accounts_trans:
  "accounts rt names a s s' \<Longrightarrow> accounts rt names b s' s'' \<Longrightarrow> accounts rt names (a + b) s s''"
  by (simp add: accounts_def add_ac)

lemma dq_call_quiet [simp]: "dq_faults s = [] \<Longrightarrow> dq_call name f s = f s"
  by (simp add: dq_call_def)

lemma append_run:
  assumes "working rt s"
  shows "\<exists>s'. dlq_append (rt_bytes rt) t msg e s = (Inr (), s') \<and>
    (s' = s\<lparr>dq_dropped := dq_dropped s @ [msg]\<rparr> \<or>
     s' = s\<lparr>dq_main := (dq_main s)(t \<mapsto> lines_of (dq_main s t) @ [Letter msg e (dq_now s)]), dq_backlog := dq_backlog s + 1\<rparr>)"
  using assms by (auto simp: dlq_append_def working_def io_defs open_main_def write_main_def Let_def lines_of_def
      split: option.split)

lemma append_accounts:
  assumes w: "working rt s" and r: "routed rt names" and t: "t \<in> set names"
  shows "\<exists>s'. dlq_append (rt_bytes rt) t msg e s = (Inr (), s') \<and> accounts rt names {#msg#} s s' \<and>
    queue s' = queue s \<and> overflow s' = overflow s"
proof -
  obtain s' where a: "dlq_append (rt_bytes rt) t msg e s = (Inr (), s')"
    and s': "s' = s\<lparr>dq_dropped := dq_dropped s @ [msg]\<rparr> \<or>
     s' = s\<lparr>dq_main := (dq_main s)(t \<mapsto> lines_of (dq_main s t) @ [Letter msg e (dq_now s)]), dq_backlog := dq_backlog s + 1\<rparr>"
    using append_run [OF w] by blast
  have "accounts rt names {#msg#} s s'"
    using s'
  proof
    assume "s' = s\<lparr>dq_dropped := dq_dropped s @ [msg]\<rparr>"
    then show ?thesis using w by (simp add: accounts_def working_def accounted_def)
  next
    let ?x = "Some (lines_of (dq_main s t) @ [Letter msg e (dq_now s)])"
    assume s': "s' = s\<lparr>dq_main := (dq_main s)(t := ?x), dq_backlog := dq_backlog s + 1\<rparr>"
    have "letters_in names ((dq_main s)(t := ?x)) + mset (letter_msgs (lines_of (dq_main s t))) =
      letters_in names (dq_main s) + {#msg#} + mset (letter_msgs (lines_of (dq_main s t)))"
      using letters_in_update [OF t, of "dq_main s" ?x] by (simp add: add_ac)
    then have "letters_in names ((dq_main s)(t := ?x)) = letters_in names (dq_main s) + {#msg#}"
      by (simp only: add_right_cancel)
    then show ?thesis using w r s' by (simp add: accounts_def working_def accounted_def lines_fit_def routed_def)
  qed
  then show ?thesis using a s' by auto
qed

text \<open>\<open>accounts\<close> together with an untouched queue and overflow pool.\<close>

definition hands_over :: "'m routing \<Rightarrow> string list \<Rightarrow> 'm multiset \<Rightarrow> 'm producer \<Rightarrow> 'm producer \<Rightarrow> bool" where
  "hands_over rt names ms s s' \<longleftrightarrow> accounts rt names ms s s' \<and> queue s' = queue s \<and> overflow s' = overflow s"

lemma hands_over_trans:
  "hands_over rt names a s s' \<Longrightarrow> hands_over rt names b s' s'' \<Longrightarrow> hands_over rt names (a + b) s s''"
  unfolding hands_over_def using accounts_trans by fastforce

lemma breaker_write_run:
  assumes "working rt s"
  shows "\<exists>r s'. breaker_write msg s = (r, s') \<and> queue s' = queue s \<and> overflow s' = overflow s \<and>
    (r = Inr () \<and> accounts rt names {#msg#} s s' \<or> (\<exists>e. r = Inl e \<and> accounts rt names {#} s s'))"
  using assms by (cases "outcomes s")
    (auto simp: breaker_write_def accounts_def working_def accounted_def split: send_outcome.split)

lemma fallback_run:
  assumes "working rt s" and "routed rt names"
  shows "\<exists>s'. fallbackToDLQ rt msg e s = (Inr (), s') \<and> hands_over rt names {#msg#} s s'"
  using append_accounts [OF assms, of "topicFor rt msg"] assms(2)
  by (auto simp: fallbackToDLQ_def routed_def hands_over_def)

lemma sendOne_run:
  assumes w: "working rt s" and r: "routed rt names"
  shows "\<exists>s'. sendOne rt msg s = (Inr (), s') \<and> hands_over rt names {#msg#} s s' \<or>
    sendOne rt msg s = (Inl errBreakerOpen, s') \<and> hands_over rt names {#} s s'"
proof -
  obtain q s1 where b: "breaker_write msg s = (q, s1)" "queue s1 = queue s" "overflow s1 = overflow s"
    and c: "q = Inr () \<and> accounts rt names {#msg#} s s1 \<or> (\<exists>e. q = Inl e \<and> accounts rt names {#} s s1)"
    using breaker_write_run [OF w, of msg names] by (elim exE conjE) (rule that)
  consider "q = Inr ()" "accounts rt names {#msg#} s s1" | e where "q = Inl e" "accounts rt names {#} s s1" using c by blast
  then show ?thesis
  proof cases
    case 1
    then show ?thesis using b by (auto simp: sendOne_def attempt_def bind_io_def ret_def hands_over_def)
  next
    case 2
    then have w1: "working rt s1" and h1: "hands_over rt names {#} s s1"
      using b by (auto simp: accounts_def hands_over_def)
    obtain s2 where "fallbackToDLQ rt msg e s1 = (Inr (), s2)" "hands_over rt names {#msg#} s1 s2"
      using fallback_run [OF w1 r] by blast
    moreover from this(2) have "hands_over rt names {#msg#} s s2"
      using hands_over_trans [OF h1, of "{#msg#}" s2] by simp
    ultimately show ?thesis
      using 2 b h1 by (cases "e = errBreakerOpen") (simp_all add: sendOne_def attempt_def bind_io_def throw_def fallbackToDLQ_def)
  qed
qed

lemma requeue_accounts:
  assumes w: "working rt s" and r: "routed rt names"
  shows "accounts rt names {#msg#} s (snd (requeue rt msg s))"
proof -
  obtain b s1 where b: "breaker_is_open s = (Inr b, s1)" and a1: "accounts rt names {#} s s1" and q: "queue s1 = queue s"
  proof (cases "breaker_says s")
    case Nil
    then show thesis using w by (intro that [of False s]) (simp_all add: breaker_is_open_def accounts_def)
  next
    case (Cons b bs)
    then show thesis using w
      by (intro that [of b "s\<lparr>breaker_says := bs\<rparr>"]) (simp_all add: breaker_is_open_def accounts_def working_def accounted_def)
  qed
  have w1: "working rt s1" using a1 by (simp add: accounts_def)
  have fb: "accounts rt names {#msg#} s (snd (fallbackToDLQ rt msg e s1))" for e
  proof -
    obtain s2 where f: "fallbackToDLQ rt msg e s1 = (Inr (), s2)" "hands_over rt names {#msg#} s1 s2"
      using fallback_run [OF w1 r] by blast
    then have "accounts rt names ({#} + {#msg#}) s s2"
      unfolding hands_over_def by (blast intro: accounts_trans [OF a1])
    then show ?thesis using f by simp
  qed
  have "accounted names (s1\<lparr>queue := queue s1 @ [msg]\<rparr>) = accounted names s1 + {#msg#}"
    by (simp add: accounted_def)
  moreover have "working rt (s1\<lparr>queue := queue s1 @ [msg]\<rparr>)" using w1 by (simp add: working_def)
  ultimately have put: "accounts rt names {#msg#} s (s1\<lparr>queue := queue s1 @ [msg]\<rparr>)"
    using a1 by (simp add: accounts_def)
  show ?thesis
    unfolding requeue_def bind_io_step [where m = breaker_is_open, OF b]
    using fb put by (simp add: bind_io_def gets_io_def modify_io_def)
qed

lemma processMessage_accounts:
  assumes w: "working rt s" and r: "routed rt names"
  shows "accounts rt names {#msg#} s (snd (processMessage rt msg s))"
proof -
  obtain s1 where "sendOne rt msg s = (Inr (), s1) \<and> hands_over rt names {#msg#} s s1 \<or>
    sendOne rt msg s = (Inl errBreakerOpen, s1) \<and> hands_over rt names {#} s s1"
    using sendOne_run [OF w r] by blast
  then show ?thesis
  proof
    assume "sendOne rt msg s = (Inr (), s1) \<and> hands_over rt names {#msg#} s s1"
    then show ?thesis by (simp add: processMessage_def attempt_def bind_io_def ret_def hands_over_def)
  next
    assume h: "sendOne rt msg s = (Inl errBreakerOpen, s1) \<and> hands_over rt names {#} s s1"
    then have "working rt s1" by (simp add: hands_over_def accounts_def)
    from requeue_accounts [OF this r] h show ?thesis
      using accounts_trans [of rt names "{#}" s s1 "{#msg#}"]
      by (simp add: processMessage_def attempt_def bind_io_def when_io_def isBreakerOpen_def hands_over_def)
  qed
qed

lemma drainMessage_run:
  assumes w: "working rt s" and r: "routed rt names"
  shows "hands_over rt names {#msg#} s (snd (drainMessage rt msg s))"
proof -
  obtain s1 where "sendOne rt msg s = (Inr (), s1) \<and> hands_over rt names {#msg#} s s1 \<or>
    sendOne rt msg s = (Inl errBreakerOpen, s1) \<and> hands_over rt names {#} s s1"
    using sendOne_run [OF w r] by blast
  then show ?thesis
  proof
    assume "sendOne rt msg s = (Inr (), s1) \<and> hands_over rt names {#msg#} s s1"
    then show ?thesis by (simp add: drainMessage_def attempt_def bind_io_def ret_def)
  next
    assume h: "sendOne rt msg s = (Inl errBreakerOpen, s1) \<and> hands_over rt names {#} s s1"
    then have "working rt s1" by (simp add: hands_over_def accounts_def)
    from fallback_run [OF this r, of msg errBreakerOpen] h show ?thesis
      using hands_over_trans [of rt names "{#}" s s1 "{#msg#}"]
      by (auto simp: drainMessage_def attempt_def bind_io_def when_io_def isBreakerOpen_def)
  qed
qed

lemma Send_accounts:
  assumes w: "working rt s" and r: "routed rt names"
  shows "accounts rt names {#msg#} s (snd (Send rt msg s))"
proof -
  have put: "accounts rt names {#msg#} s (s\<lparr>queue := queue s @ [msg]\<rparr>)" "accounts rt names {#msg#} s (s\<lparr>overflow := overflow s @ [msg]\<rparr>)"
    using w by (simp_all add: accounts_def working_def accounted_def)
  have "accounts rt names {#msg#} s (snd (dlq_append (rt_bytes rt) (topicFor rt msg) msg errProducerOverflow s))"
    using append_accounts [OF w r, of "topicFor rt msg" msg errProducerOverflow] r by (auto simp: routed_def)
  with put show ?thesis by (simp add: Send_def bind_io_def gets_io_def modify_io_def)
qed

text \<open>Taking a message out of the queue or the pool is made up for by what is done with it.\<close>

lemma taken_accounts:
  assumes "accounts rt names {#msg#} s1 s2" and "working rt s1 = working rt s" and "accounted names s1 + {#msg#} = accounted names s"
  shows "accounts rt names {#} s s2"
  using assms by (simp add: accounts_def)

lemma loop_round_accounts:
  assumes w: "working rt s" and r: "routed rt names"
  shows "accounts rt names {#} s (snd (loop_round rt s))"
proof (cases "queue s")
  case Nil
  then show ?thesis using w by (simp add: loop_round_def bind_io_def gets_io_def ret_def accounts_def)
next
  case (Cons msg rest)
  let ?s1 = "s\<lparr>queue := rest\<rparr>"
  have "working rt ?s1" using w by (simp add: working_def)
  from processMessage_accounts [OF this r] have "accounts rt names {#msg#} ?s1 (snd (processMessage rt msg ?s1))" .
  then have "accounts rt names {#} s (snd (processMessage rt msg ?s1))"
    by (rule taken_accounts) (simp_all add: working_def accounted_def Cons)
  then show ?thesis by (simp add: loop_round_def bind_io_def gets_io_def then_io_def modify_io_def Cons)
qed

lemma overflow_worker_accounts:
  assumes w: "working rt s" and r: "routed rt names"
  shows "accounts rt names {#} s (snd (overflow_worker rt i s))"
proof (cases "length (overflow s) \<le> i")
  case True
  then show ?thesis using w by (simp add: overflow_worker_def bind_io_def gets_io_def ret_def accounts_def)
next
  case False
  let ?os = "overflow s"
  let ?s1 = "s\<lparr>overflow := take i ?os @ drop (Suc i) ?os\<rparr>"
  have "working rt ?s1" using w by (simp add: working_def)
  from drainMessage_run [OF this r] have "accounts rt names {#?os ! i#} ?s1 (snd (drainMessage rt (?os ! i) ?s1))"
    by (simp add: hands_over_def)
  moreover have "mset (take i ?os @ ?os ! i # drop (Suc i) ?os) = mset ?os"
    using False by (subst id_take_nth_drop [of i ?os, symmetric]) simp_all
  ultimately have "accounts rt names {#} s (snd (drainMessage rt (?os ! i) ?s1))"
    by (intro taken_accounts [where msg = "?os ! i" and ?s1.0 = ?s1]) (simp_all add: working_def accounted_def)
  then show ?thesis using False by (simp add: overflow_worker_def bind_io_def gets_io_def then_io_def modify_io_def)
qed

lemma move_to_dlq_accounts:
  assumes "working rt s" and r: "routed rt names" and "queue s = ms"
  shows "accounts rt names {#} s (snd (move_to_dlq rt ms s)) \<and> queue (snd (move_to_dlq rt ms s)) = []"
  using assms(1,3)
proof (induction ms arbitrary: s)
  case Nil
  then show ?case by (simp add: ret_def accounts_def)
next
  case (Cons msg ms)
  let ?s1 = "s\<lparr>queue := ms\<rparr>"
  have w1: "working rt ?s1" using Cons.prems by (simp add: working_def)
  have t: "topicFor rt msg \<in> set names" using r by (simp add: routed_def)
  obtain s2 where a: "dlq_append (rt_bytes rt) (topicFor rt msg) msg errProducerOverflow ?s1 = (Inr (), s2)"
    and h: "accounts rt names {#msg#} ?s1 s2" "queue s2 = ms"
    using append_accounts [OF w1 r t, of msg errProducerOverflow] by auto
  have "accounts rt names {#} s s2"
    using h(1) by (rule taken_accounts) (use Cons.prems in \<open>simp_all add: working_def accounted_def\<close>)
  moreover have "working rt s2" using h by (simp add: accounts_def)
  note Cons.IH [OF this h(2)]
  ultimately show ?case
    using a accounts_trans [of rt names "{#}" s s2 "{#}"] by (simp add: then_io_def bind_io_def modify_io_def)
qed

lemma drain_one_run:
  assumes w: "working rt s" and r: "routed rt names"
  shows "\<exists>s'. drain_one rt msg s = (Inr (), s') \<and> hands_over rt names {#msg#} s s'"
proof -
  obtain s1 where "sendOne rt msg s = (Inr (), s1) \<and> hands_over rt names {#msg#} s s1 \<or>
    sendOne rt msg s = (Inl errBreakerOpen, s1) \<and> hands_over rt names {#} s s1"
    using sendOne_run [OF w r] by blast
  then show ?thesis
  proof
    assume "sendOne rt msg s = (Inr (), s1) \<and> hands_over rt names {#msg#} s s1"
    then show ?thesis by (auto simp: drain_one_def attempt_def bind_io_def ret_def)
  next
    assume h: "sendOne rt msg s = (Inl errBreakerOpen, s1) \<and> hands_over rt names {#} s s1"
    then have "working rt s1" by (simp add: hands_over_def accounts_def)
    from fallback_run [OF this r, of msg errBreakerOpen] h show ?thesis
      using hands_over_trans [of rt names "{#}" s s1 "{#msg#}"]
      by (auto simp: drain_one_def attempt_def bind_io_def)
  qed
qed

lemma drain_queue_accounts:
  assumes "working rt s" and r: "routed rt names"
  shows "accounts rt names {#} s (snd (drain_queue rt n s))"
  using assms(1)
proof (induction n arbitrary: s)
  case 0
  then show ?case
    using move_to_dlq_accounts [OF 0 r refl] by (simp add: drainToDLQ_def bind_io_def gets_io_def)
next
  case (Suc n)
  show ?case
  proof (cases "queue s")
    case Nil
    then show ?thesis using Suc.prems by (simp add: bind_io_def gets_io_def ret_def accounts_def)
  next
    case (Cons msg rest)
    let ?s1 = "s\<lparr>queue := rest\<rparr>"
    have w1: "working rt ?s1" using Suc.prems by (simp add: working_def)
    obtain s2 where s2: "drain_one rt msg ?s1 = (Inr (), s2)" "hands_over rt names {#msg#} ?s1 s2"
      using drain_one_run [OF w1 r] by blast
    have a2: "accounts rt names {#} s s2"
      using s2(2) Suc.prems unfolding hands_over_def
      by (intro taken_accounts [of rt names msg ?s1]) (simp_all add: working_def accounted_def Cons)
    then have "accounts rt names {#} s2 (snd (drain_queue rt n s2))"
      by (intro Suc.IH) (simp add: accounts_def)
    with a2 have "accounts rt names {#} s (snd (drain_queue rt n s2))"
      using accounts_trans [of rt names "{#}" s s2 "{#}"] by simp
    moreover have "drain_queue rt (Suc n) s = drain_queue rt n s2"
      using s2(1) by (simp add: Cons io_defs)
    ultimately show ?thesis by (simp only:)
  qed
qed


section \<open>Replaying\<close>

text \<open>
  The kept lines of a snapshot together with what is sent: relaying moves a message from the first to
  the second and touches nothing else of the state.
\<close>

definition drains :: "'m producer \<Rightarrow> 'm dlq_line list \<Rightarrow> 'm producer \<Rightarrow> 'm dlq_line list \<Rightarrow> bool" where
  "drains s kept s' kept' \<longleftrightarrow> (\<exists>so os bl. s' = s\<lparr>sent := so, outcomes := os, dq_backlog := bl\<rparr> \<and>
     mset so + mset (letter_msgs kept') = mset (sent s) + mset (letter_msgs kept)) \<and> set kept' \<subseteq> set kept"

lemma drains_refl: "drains s kept s kept"
  unfolding drains_def by (intro conjI exI [of _ "sent s"] exI [of _ "outcomes s"] exI [of _ "dq_backlog s"]) simp_all

lemma drains_trans:
  assumes "drains s k s1 k1" and "drains s1 k1 s2 k2"
  shows "drains s k s2 k2"
proof -
  obtain so os bl where 1: "s1 = s\<lparr>sent := so, outcomes := os, dq_backlog := bl\<rparr>"
    "mset so + mset (letter_msgs k1) = mset (sent s) + mset (letter_msgs k)" "set k1 \<subseteq> set k"
    using assms(1) unfolding drains_def by (elim exE conjE) (rule that)
  obtain so' os' bl' where 2: "s2 = s1\<lparr>sent := so', outcomes := os', dq_backlog := bl'\<rparr>"
    "mset so' + mset (letter_msgs k2) = mset (sent s1) + mset (letter_msgs k1)" "set k2 \<subseteq> set k1"
    using assms(2) unfolding drains_def by (elim exE conjE) (rule that)
  have "s2 = s\<lparr>sent := so', outcomes := os', dq_backlog := bl'\<rparr>" using 1(1) 2(1) by simp
  moreover have "mset so' + mset (letter_msgs k2) = mset (sent s) + mset (letter_msgs k)" using 1(1,2) 2(2) by simp
  ultimately show ?thesis unfolding drains_def using 1(3) 2(3) by blast
qed

lemma relay_drains:
  fixes s :: "'m producer"
  shows "(\<exists>s'. relay msg s = (Inr (), s') \<and>
      drains s (failed @ Letter msg e t # ls) (s'\<lparr>dq_backlog := dq_backlog s' - 1\<rparr>) (failed @ ls)) \<or>
    (\<exists>s' err. relay msg s = (Inl err, s') \<and> drains s (failed @ Letter msg e t # ls) s' (failed @ Letter msg e t # ls))"
proof -
  have sent: "drains s (failed @ Letter msg e t # ls) (s\<lparr>sent := sent s @ [msg], outcomes := os, dq_backlog := bl\<rparr>) (failed @ ls)"
    for os bl
    unfolding drains_def by (intro conjI exI [of _ "sent s @ [msg]"] exI [of _ os] exI [of _ bl]) auto
  have sent0: "drains s (failed @ Letter msg e t # ls) (s\<lparr>sent := sent s @ [msg], dq_backlog := bl\<rparr>) (failed @ ls)" for bl
    unfolding drains_def by (intro conjI exI [of _ "sent s @ [msg]"] exI [of _ "outcomes s"] exI [of _ bl]) auto
  have held: "drains s k (s\<lparr>outcomes := os\<rparr>) k" for os and k :: "'m dlq_line list"
    unfolding drains_def by (intro conjI exI [of _ "sent s"] exI [of _ os] exI [of _ "dq_backlog s"]) simp_all
  show ?thesis
    using sent0 [where bl = "dq_backlog s - 1"]
      sent [where os = "tl (outcomes s)" and bl = "dq_backlog s - 1"]
      held [where k = "failed @ Letter msg e t # ls" and os = "tl (outcomes s)"]
    by (cases "outcomes s") (auto simp: relay_def breaker_write_def split: send_outcome.split)
qed

lemma drain_lines_run:
  assumes "lines_fit bytes ls"
  shows "\<exists>s' kept rec'. drain_lines bytes relay ls failed rec stop s = (Inr (kept, rec', False), s') \<and>
    drains s (failed @ ls) s' kept"
  using assms
proof (induction ls arbitrary: failed rec stop s)
  case Nil
  then show ?case using drains_refl [of s failed] by (simp add: ret_def)
next
  case (Cons l ls)
  have fit: "\<not> maxDLQLineBytes \<le> bytes l" "lines_fit bytes ls" using Cons.prems by (simp_all add: lines_fit_def)
  note IH = Cons.IH [OF fit(2)]
  have kept: "\<exists>s' kept rec'. drain_lines bytes relay ls (failed @ [l]) rec st s1 = (Inr (kept, rec', False), s') \<and>
      drains s (failed @ l # ls) s' kept" if "drains s (failed @ l # ls) s1 (failed @ l # ls)" for st s1
  proof -
    obtain s' kept rec' where "drain_lines bytes relay ls (failed @ [l]) rec st s1 = (Inr (kept, rec', False), s')"
      "drains s1 ((failed @ [l]) @ ls) s' kept" using IH [of "failed @ [l]" rec st s1] by blast
    then show ?thesis using drains_trans [OF that] by simp
  qed
  note keep = kept [OF drains_refl]
  show ?case
  proof (cases "stop \<or> (0 < dq_batch s \<and> dq_batch s \<le> rec)")
    case True
    then show ?thesis using keep [of stop] fit(1) by (simp add: bind_io_step [where m = "gets_io dq_batch"] gets_io_def)
  next
    case go: False
    show ?thesis
    proof (cases l)
      case (Broken b)
      then show ?thesis using keep [of stop] fit(1) go by (simp add: bind_io_step [where m = "gets_io dq_batch"] gets_io_def)
    next
      case (Letter msg e t)
      from relay_drains [of msg s failed e t ls] show ?thesis
      proof (elim disjE exE conjE)
        fix s1
        assume r: "relay msg s = (Inr (), s1)"
          and d: "drains s (failed @ Letter msg e t # ls) (s1\<lparr>dq_backlog := dq_backlog s1 - 1\<rparr>) (failed @ ls)"
        obtain s' kept rec' where "drain_lines bytes relay ls failed (rec + 1) stop (s1\<lparr>dq_backlog := dq_backlog s1 - 1\<rparr>) =
            (Inr (kept, rec', False), s')" "drains (s1\<lparr>dq_backlog := dq_backlog s1 - 1\<rparr>) (failed @ ls) s' kept"
          using IH [of failed "rec + 1" stop "s1\<lparr>dq_backlog := dq_backlog s1 - 1\<rparr>"] by blast
        then show ?thesis using drains_trans [OF d] r fit(1) go Letter
          by (auto simp: bind_io_def gets_io_def attempt_def then_io_def modify_io_def)
      next
        fix s1 err
        assume r: "relay msg s = (Inl err, s1)" and d: "drains s (failed @ Letter msg e t # ls) s1 (failed @ Letter msg e t # ls)"
        show ?thesis using kept [of s1 True] d r fit(1) go Letter
          by (auto simp: bind_io_def gets_io_def attempt_def)
      qed
    qed
  qed
qed

text \<open>Writing back the kept lines, and one file as a whole.\<close>

lemma write_lines_run:
  fixes s :: "'m producer"
  assumes "dq_faults s = []" and "dq_main s t = Some ws"
  shows "for_io ls (write_line t) s = (Inr (), s\<lparr>dq_main := (dq_main s)(t \<mapsto> ws @ ls)\<rparr>)"
  using assms
proof (induction ls arbitrary: s ws)
  case Nil
  then have "(dq_main s)(t \<mapsto> ws) = dq_main s" by (intro map_upd_triv)
  then show ?case by (simp add: ret_def)
next
  case (Cons l ls)
  let ?s1 = "s\<lparr>dq_main := (dq_main s)(t \<mapsto> ws @ [l])\<rparr>"
  have "write_line t l s = (Inr (), ?s1)"
    using Cons.prems by (simp add: write_line_def write_main_def modify_io_def)
  moreover have "for_io ls (write_line t) ?s1 = (Inr (), s\<lparr>dq_main := (dq_main s)(t \<mapsto> ws @ l # ls)\<rparr>)"
    using Cons.IH [of ?s1 "ws @ [l]"] Cons.prems by (simp add: fun_upd_def cong: if_cong)
  ultimately show ?case by (simp add: then_io_def bind_io_def fun_upd_def)
qed

lemma writeBack_run:
  fixes s :: "'m producer"
  assumes "dq_faults s = []"
  shows "writeBack t ls s = (Inr (), s\<lparr>dq_main := (dq_main s)(t \<mapsto> lines_of (dq_main s t) @ ls)\<rparr>)"
proof -
  let ?s1 = "s\<lparr>dq_main := (dq_main s)(t \<mapsto> lines_of (dq_main s t))\<rparr>"
  have "open_main t s = (Inr (), ?s1)" using assms by (simp add: open_main_def modify_io_def)
  moreover have "for_io ls (write_line t) ?s1 = (Inr (), s\<lparr>dq_main := (dq_main s)(t \<mapsto> lines_of (dq_main s t) @ ls)\<rparr>)"
    using write_lines_run [of ?s1 t "lines_of (dq_main s t)" ls] assms by simp
  ultimately show ?thesis by (simp add: writeBack_def best_effort_def then_io_def bind_io_def)
qed

lemma lines_fit_subset: "lines_fit bytes ls \<Longrightarrow> set ks \<subseteq> set ls \<Longrightarrow> lines_fit bytes ks"
  by (auto simp: lines_fit_def list_all_iff)

lemma letters_in_empty [simp]: "letters_in names Map.empty = {#}"
  by (simp add: letters_in_def)

lemma exchanged:
  fixes a :: "'x multiset"
  assumes "a + k = b + l" and "c + l = d + k"
  shows "a + c = b + d"
proof -
  have "(a + c) + (k + l) = (a + k) + (c + l)" by (simp only: add_ac)
  also have "\<dots> = (b + l) + (d + k)" by (simp only: assms)
  also have "\<dots> = (b + d) + (k + l)" by (simp only: add_ac)
  finally show ?thesis by (simp only: add_right_cancel)
qed

lemma replayFile_accounts:
  fixes s :: "'m producer"
  assumes w: "working rt s" and t: "t \<in> set names"
  shows "\<exists>s'. replayFile (rt_bytes rt) relay t s = (Inr (), s') \<and> accounts rt names {#} s s'"
proof (cases "dq_main s t")
  case None
  then show ?thesis using w by (intro exI [of _ s]) (simp add: replayFile_def bind_io_def attempt_def gets_io_def ret_def working_def accounts_def)
next
  case (Some ls)
  let ?s1 = "s\<lparr>dq_snap := (dq_snap s)(t \<mapsto> ls), dq_main := (dq_main s)(t := None)\<rparr>"
  have nf: "dq_faults s = []" and sn: "dq_snap s = Map.empty" and fit: "lines_fit (rt_bytes rt) ls"
    using w Some unfolding working_def by (blast, blast, metis lines_of_simps(2))
  obtain s2 kept rec' where d: "drain_lines (rt_bytes rt) relay ls [] 0 False ?s1 = (Inr (kept, rec', False), s2)"
    and k: "drains ?s1 ls s2 kept" using drain_lines_run [OF fit, of "[]" 0 False ?s1] by auto
  obtain so os bl where s2: "s2 = ?s1\<lparr>sent := so, outcomes := os, dq_backlog := bl\<rparr>"
    and so: "mset so + mset (letter_msgs kept) = mset (sent s) + mset (letter_msgs ls)" and sub: "set kept \<subseteq> set ls"
    using k unfolding drains_def by (elim exE conjE) simp
  define new where "new = (if kept = [] then None else Some kept)"
  define s4 where "s4 = s\<lparr>dq_main := (dq_main s)(t := new), sent := so, outcomes := os, dq_backlog := bl\<rparr>"
  have "when_io (kept \<noteq> []) (writeBack t kept) s2 = (Inr (), s2\<lparr>dq_main := (dq_main s)(t := new)\<rparr>)"
    using writeBack_run [of s2 t kept] s2 nf by (auto simp: when_io_def ret_def new_def)
  moreover have "best_effort (dq_call ''remove'' (modify_io (\<lambda>s. s\<lparr>dq_snap := (dq_snap s)(t := None)\<rparr>)))
      (s2\<lparr>dq_main := (dq_main s)(t := new)\<rparr>) = (Inr (), s4)"
    using s2 nf sn by (simp add: best_effort_def modify_io_def s4_def)
  ultimately have "drainSnapshot (rt_bytes rt) relay t ?s1 = (Inr (), s4)"
    using nf d by (simp add: drainSnapshot_def bind_io_def attempt_def gets_io_def then_io_def)
  then have run: "replayFile (rt_bytes rt) relay t s = (Inr (), s4)"
    using nf Some by (simp add: replayFile_def bind_io_def attempt_def gets_io_def modify_io_def)
  have "working rt s4"
    using w lines_fit_subset [OF fit sub] by (auto simp: working_def s4_def new_def lines_fit_def)
  moreover have "letters_in names ((dq_main s)(t := new)) + mset (letter_msgs ls) =
      letters_in names (dq_main s) + mset (letter_msgs kept)"
    using letters_in_update [OF t, of "dq_main s" new] Some by (auto simp: new_def)
  note exchanged [OF so this]
  then have "accounted names s4 = accounted names s" by (simp add: accounted_def s4_def add_ac)
  ultimately show ?thesis using run by (auto simp: accounts_def)
qed

text \<open>The files one after the other; before them the snapshots an ended process has left.\<close>

lemma replayFiles_account:
  fixes s :: "'m producer"
  assumes "working rt s" and "set ts \<subseteq> set names"
  shows "\<exists>s'. for_io ts (replayFile (rt_bytes rt) relay) s = (Inr (), s') \<and> accounts rt names {#} s s'"
  using assms
proof (induction ts arbitrary: s)
  case Nil
  then show ?case by (simp add: ret_def accounts_def)
next
  case (Cons t ts)
  obtain s1 where 1: "replayFile (rt_bytes rt) relay t s = (Inr (), s1)" "accounts rt names {#} s s1"
    using replayFile_accounts [OF Cons.prems(1), of t names] Cons.prems(2) by auto
  then obtain s2 where "for_io ts (replayFile (rt_bytes rt) relay) s1 = (Inr (), s2)" "accounts rt names {#} s1 s2"
    using Cons.IH [of s1] Cons.prems(2) by (auto simp: accounts_def)
  with 1 accounts_trans [OF 1(2) this(2)] show ?case by (simp add: then_io_def bind_io_def)
qed

definition readable :: "'m routing \<Rightarrow> 'm producer \<Rightarrow> bool" where
  "readable rt s \<longleftrightarrow> dq_enabled s \<and> dq_path s \<noteq> [] \<and> dq_faults s = [] \<and>
     (\<forall>t. lines_fit (rt_bytes rt) (lines_of (dq_main s t)) \<and> lines_fit (rt_bytes rt) (lines_of (dq_snap s t)))"

definition snapshots :: "'m producer \<Rightarrow> string set" where
  "snapshots s = dom (dq_snap s)"

lemma lines_fit_Nil: "lines_fit bytes []"
  by (simp add: lines_fit_def)

lemma lines_fit_append: "lines_fit bytes (xs @ ys) \<longleftrightarrow> lines_fit bytes xs \<and> lines_fit bytes ys"
  by (simp add: lines_fit_def)

lemma recover_one_run:
  fixes s :: "'m producer"
  assumes "readable rt s" and t: "t \<in> set names"
  shows "\<exists>s'. recover_one t s = (Inr (), s') \<and> readable rt s' \<and> accounted names s' = accounted names s \<and>
    snapshots s' = snapshots s - {t}"
proof -
  let ?ls = "lines_of (dq_snap s t)" and ?ws = "lines_of (dq_main s t)"
  let ?main = "(dq_main s)(t \<mapsto> ?ws @ ?ls)" and ?snap = "(dq_snap s)(t := None)"
  let ?s' = "s\<lparr>dq_main := ?main, dq_snap := ?snap\<rparr>"
  have nf: "dq_faults s = []" using assms(1) by (simp add: readable_def)
  have "recover_one t s = (Inr (), ?s')"
    using nf by (simp add: recover_one_def open_main_def write_main_def io_defs fun_upd_def cong: if_cong)
  moreover have "readable rt ?s'" using assms(1) by (simp add: readable_def lines_fit_append lines_fit_Nil)
  moreover have "letters_in names ?main + letters_in names ?snap = letters_in names (dq_main s) + letters_in names (dq_snap s)"
    using letters_in_update [OF t, of "dq_main s" "Some (?ws @ ?ls)"] letters_in_update [OF t, of "dq_snap s" None]
    by (simp add: add_ac)
  then have "accounted names ?s' = accounted names s" by (simp add: accounted_def add_ac)
  moreover have "snapshots ?s' = snapshots s - {t}" by (auto simp: snapshots_def)
  ultimately show ?thesis by blast
qed

lemma recover_all_run:
  fixes s :: "'m producer"
  assumes "readable rt s" and "set ts \<subseteq> set names"
  shows "\<exists>s'. for_io ts recover_one s = (Inr (), s') \<and> readable rt s' \<and> accounted names s' = accounted names s \<and>
    snapshots s' = snapshots s - set ts"
  using assms
proof (induction ts arbitrary: s)
  case Nil
  then show ?case by (simp add: ret_def)
next
  case (Cons t ts)
  obtain s1 where 1: "recover_one t s = (Inr (), s1)" "readable rt s1" "accounted names s1 = accounted names s"
    "snapshots s1 = snapshots s - {t}"
    using recover_one_run [OF Cons.prems(1), of t names] Cons.prems(2) by auto
  from Cons.IH [OF 1(2)] Cons.prems(2) 1 show ?case by (auto simp: then_io_def bind_io_def)
qed

lemma replayAll_run:
  fixes s :: "'m producer"
  assumes r: "readable rt s" and n: "snapshots s \<subseteq> set names"
  shows "working rt (snd (replayAll (rt_bytes rt) relay names s)) \<and>
    accounted names (snd (replayAll (rt_bytes rt) relay names s)) = accounted names s"
proof -
  let ?ts = "filter (\<lambda>t. dq_snap s t \<noteq> None) names"
  obtain s1 where 1: "for_io ?ts recover_one s = (Inr (), s1)" "readable rt s1" "accounted names s1 = accounted names s"
    "snapshots s1 = snapshots s - set ?ts" using recover_all_run [OF r, of ?ts names] by auto
  have "snapshots s1 = {}" using 1(4) n by (auto simp: snapshots_def)
  then have w: "working rt s1" using 1(2) by (simp add: working_def readable_def snapshots_def)
  obtain s2 where "for_io (filter (\<lambda>t. dq_main s1 t \<noteq> None) names) (replayFile (rt_bytes rt) relay) s1 = (Inr (), s2)"
    "accounts rt names {#} s1 s2"
    using replayFiles_account [OF w, of "filter (\<lambda>t. dq_main s1 t \<noteq> None) names" names] by auto
  then show ?thesis
    using 1 r by (simp add: replayAll_def recoverLeftovers_def bind_io_def then_io_def gets_io_def readable_def accounts_def)
qed

lemma runs_account:
  assumes "producer_runs rt names s0 ms s" and "routed rt names" and "working rt s0"
  shows "accounts rt names (mset ms) s0 s"
  using assms(1)
proof induction
  case starts
  then show ?case using assms(3) by (simp add: accounts_def)
next
  case (sends ms s msg)
  then show ?case using accounts_trans [OF sends.IH Send_accounts [OF _ assms(2), of s msg]] by (simp add: accounts_def)
next
  case (loops ms s)
  then show ?case using accounts_trans [OF loops.IH loop_round_accounts [OF _ assms(2), of s]] by (simp add: accounts_def)
next
  case (works ms s i)
  then show ?case using accounts_trans [OF works.IH overflow_worker_accounts [OF _ assms(2), of s i]] by (simp add: accounts_def)
next
  case (replays ms s)
  then show ?case using replayAll_run [of rt s names] by (simp add: accounts_def working_def readable_def snapshots_def lines_fit_def)
next
  case (closes ms s)
  then show ?case using accounts_trans [OF closes.IH drain_queue_accounts [OF _ assms(2), of s drainBudget]]
    by (simp add: accounts_def loop_close_def)
qed

section \<open>Claims\<close>

text \<open>C12. With a working store of dead letters (enabled, no call of the file system failing, every message fitting
a line, no snapshot of a replay left over at the start; \<open>working\<close>) and topics among those listed, a producer that starts empty accounts for all its messages: every message
handed to \<open>Send\<close> is acknowledged by the broker, still in the queue or at an overflow worker, kept in a file of
dead letters, or was refused because its file had reached its limit: whatever the broker and the breaker
answer and in whatever order rounds of the loop, workers, replays and the closing follow one another, no
message is lost otherwise and none is sent twice. Without such a store the code loses messages.\<close>

theorem sent_messages_are_accounted_for:
  assumes "producer_runs rt names s0 ms s" and "routed rt names" and "working rt s0"
    and "accounted names s0 = {#}"
  shows "mset (sent s) + mset (queue s) + mset (overflow s) + mset (dq_dropped s) + letters_in names (dq_main s) = mset ms"
  using runs_account [OF assms(1-3)] assms(4) by (auto simp: accounts_def accounted_def working_def)

definition small_routing :: "nat routing" where
  "small_routing = \<lparr>rt_topics = Map.empty, rt_type = (\<lambda>m. ''idle.settled''), rt_bytes = (\<lambda>l. 10)\<rparr>"

definition small_producer :: "nat producer" where
  "small_producer = \<lparr>dq_enabled = True, dq_path = ''dlq'', dq_max = 10, dq_batch = 1000, dq_now = 0, dq_main = Map.empty,
     dq_snap = Map.empty, dq_corrupt = Map.empty, dq_backlog = 0, dq_dropped = [], dq_faults = [],
     queue = [], queue_size = 1, overflow = [], overflow_max = 1, sent = [], outcomes = [Blocked, Acked], breaker_says = [True]\<rparr>"

lemma small_routing_routed: "routed small_routing [''events'']"
  by (simp add: routed_def small_routing_def topicFor_def resolveTopic_def maxDLQLineBytes_def)

lemma small_producer_working: "working small_routing small_producer"
  by (simp add: working_def small_producer_def small_routing_def lines_fit_def)

lemma small_producer_new: "accounted names small_producer = {#}"
  by (simp add: accounted_def small_producer_def)

definition small_run :: "nat producer" where
  "small_run = snd (replayAll (rt_bytes small_routing) relay [''events''] (snd (loop_round small_routing
     (snd (Send small_routing 2 (snd (Send small_routing 1 small_producer)))))))"

lemma small_run_runs: "producer_runs small_routing [''events''] small_producer [2, 1] small_run"
  unfolding small_run_def by (intro producer_runs.intros)

theorem sent_messages_are_accounted_for_witness:
  "mset (sent small_run) + mset (queue small_run) + mset (overflow small_run) + mset (dq_dropped small_run) +
     letters_in [''events''] (dq_main small_run) = mset [2, 1]"
  by (rule sent_messages_are_accounted_for [OF small_run_runs small_routing_routed small_producer_working small_producer_new])

lemma dlq_append_always:
  fixes s :: "'m producer"
  shows "\<exists>s'. dlq_append bytes t msg e s = (Inr (), s') \<and> queue s' = queue s"
proof -
  have call: "queue (snd (dq_call name f s)) = queue s" if "\<And>s. queue (snd (f s)) = queue s"
    for name and f :: "('m producer, 'a) io" and s
    using that by (simp add: dq_call_def split: list.split)
  have o: "queue (snd (open_main t s)) = queue s" and w: "queue (snd (write_main t ls s)) = queue s" for ls and s :: "'m producer"
    by (simp_all add: open_main_def write_main_def call modify_io_def)
  have put: "\<exists>s'. best_effort (then_io (open_main t) (then_io (write_main t ls) (modify_io (\<lambda>s. s\<lparr>dq_backlog := dq_backlog s + 1\<rparr>)))) s =
      (Inr (), s') \<and> queue s' = queue s" for ls and s :: "'m producer"
    using o [of s] w [of ls "snd (open_main t s)"]
    by (auto simp: best_effort_def then_io_def bind_io_def modify_io_def split: prod.splits sum.splits)
  show ?thesis
  proof (cases "dq_enabled s \<and> dq_path s \<noteq> []")
    case False
    then show ?thesis by (auto simp: dlq_append_def bind_io_def gets_io_def ret_def)
  next
    case True
    let ?stat = "if 0 < dq_max s then attempt (dq_call ''stat'' (gets_io (\<lambda>s. dq_main s t))) else ret (Inr None)"
    obtain st s1 where st: "?stat s = (Inr st, s1)" "queue s1 = queue s"
    proof (cases "0 < dq_max s")
      case True
      then show thesis
        using call [of "gets_io (\<lambda>s. dq_main s t)" "''stat''" s]
        by (intro that [of "fst (dq_call ''stat'' (gets_io (\<lambda>s. dq_main s t)) s)" "snd (dq_call ''stat'' (gets_io (\<lambda>s. dq_main s t)) s)"])
          (simp_all add: attempt_def gets_io_def split: prod.split)
    next
      case False
      then show thesis by (intro that [of "Inr None" s]) (simp_all add: ret_def)
    qed
    show ?thesis
      using True st put [of "[Letter msg e (dq_now s)]" s1]
      by (auto simp: dlq_append_def Let_def bind_io_def gets_io_def modify_io_def split: sum.splits option.splits)
  qed
qed

lemma drain_one_always:
  fixes s :: "'m producer"
  shows "\<exists>s'. drain_one rt msg s = (Inr (), s') \<and> queue s' = queue s"
proof -
  have "queue (snd (breaker_write msg s)) = queue s"
    by (simp add: breaker_write_def split: list.split send_outcome.split)
  then obtain r s1 where b: "breaker_write msg s = (r, s1)" "queue s1 = queue s"
    by (metis prod.collapse)
  obtain s2 where a: "dlq_append (rt_bytes rt) (topicFor rt msg) msg e s1 = (Inr (), s2 e)" "queue (s2 e) = queue s" for e
    using dlq_append_always [of "rt_bytes rt" "topicFor rt msg" msg _ s1] b(2) by metis
  show ?thesis using a(1,2) b
    by (cases r) (auto simp: drain_one_def sendOne_def fallbackToDLQ_def attempt_def bind_io_def ret_def throw_def)
qed

lemma move_to_dlq_empties:
  fixes s :: "'m producer"
  assumes "queue s = ms"
  shows "\<exists>s'. move_to_dlq rt ms s = (Inr (), s') \<and> queue s' = []"
  using assms
proof (induction ms arbitrary: s)
  case Nil
  then show ?case by (simp add: ret_def)
next
  case (Cons msg ms)
  obtain s1 where "dlq_append (rt_bytes rt) (topicFor rt msg) msg errProducerOverflow (s\<lparr>queue := ms\<rparr>) = (Inr (), s1)" "queue s1 = ms"
    using dlq_append_always [of "rt_bytes rt" "topicFor rt msg" msg errProducerOverflow "s\<lparr>queue := ms\<rparr>"] by auto
  then show ?case using Cons.IH [of s1] by (auto simp: then_io_def bind_io_def modify_io_def)
qed

lemma drain_queue_empties:
  fixes s :: "'m producer"
  shows "\<exists>s'. drain_queue rt n s = (Inr (), s') \<and> queue s' = []"
proof (induction n arbitrary: s)
  case 0
  then show ?case using move_to_dlq_empties [OF refl, of rt s] by (simp add: drainToDLQ_def bind_io_def gets_io_def)
next
  case (Suc n)
  show ?case
  proof (cases "queue s")
    case Nil
    then show ?thesis by (simp add: bind_io_def gets_io_def ret_def)
  next
    case (Cons msg rest)
    obtain s1 where "drain_one rt msg (s\<lparr>queue := rest\<rparr>) = (Inr (), s1)"
      using drain_one_always [of rt msg "s\<lparr>queue := rest\<rparr>"] by auto
    then show ?thesis using Suc [of s1] Cons by (auto simp: io_defs)
  qed
qed

text \<open>Closing a producer always ends with an empty queue and no error, whatever the broker, the
breaker and the file system do: at most 200 messages are tried, the others go straight to the dead
letters.\<close>

theorem closing_empties_the_queue:
  "fst (loop_close rt s) = Inr () \<and> queue (snd (loop_close rt s)) = []"
  using drain_queue_empties [of rt drainBudget s] by (auto simp: loop_close_def)

text \<open>A replay first takes back what a process that ended in the middle of an earlier replay has
left in its snapshots, and from then on nothing is left in a snapshot: every letter of the files and
snapshots is afterwards sent or in a main file.\<close>

theorem replay_recovers_leftover_snapshots:
  assumes "readable rt s" and "snapshots s \<subseteq> set names"
  shows "snapshots (snd (replayAll (rt_bytes rt) relay names s)) = {} \<and>
    accounted names (snd (replayAll (rt_bytes rt) relay names s)) = accounted names s"
  using replayAll_run [OF assms] by (auto simp: snapshots_def working_def)

definition crashed_producer :: "nat producer" where
  "crashed_producer = small_producer\<lparr>dq_snap := [''events'' \<mapsto> [Letter 1 errBreakerOpen 0, Broken ''x'']],
     dq_main := [''events'' \<mapsto> [Letter 2 errBreakerOpen 0]]\<rparr>"

theorem replay_recovers_leftover_snapshots_witness:
  "snapshots (snd (replayAll (\<lambda>l. 10) relay [''events''] crashed_producer)) = {} \<and>
   accounted [''events''] (snd (replayAll (\<lambda>l. 10) relay [''events''] crashed_producer)) = accounted [''events''] crashed_producer"
proof -
  have "readable small_routing crashed_producer"
    by (simp add: readable_def crashed_producer_def small_producer_def small_routing_def lines_fit_def maxDLQLineBytes_def lines_of_def)
  moreover have "snapshots crashed_producer \<subseteq> set [''events'']"
    by (simp add: snapshots_def crashed_producer_def)
  ultimately show ?thesis
    using replay_recovers_leftover_snapshots [of small_routing crashed_producer "[''events'']"] by (simp add: small_routing_def)
qed

text \<open>When the main file of a topic cannot be opened during a recovery, its snapshot is removed
all the same and the letters in it are gone.\<close>

theorem recovery_without_main_file_loses_snapshot:
  assumes "dq_faults s = [False, True]" and "dq_snap s t = Some ls"
  shows "recover_one t s = (Inr (), s\<lparr>dq_snap := (dq_snap s)(t := None), dq_faults := []\<rparr>)"
  using assms by (simp add: recover_one_def open_main_def dq_call_def io_defs)

theorem recovery_without_main_file_loses_snapshot_witness:
  "recover_one ''events'' (crashed_producer\<lparr>dq_faults := [False, True]\<rparr>) =
     (Inr (), crashed_producer\<lparr>dq_snap := (dq_snap crashed_producer)(''events'' := None), dq_faults := []\<rparr>)"
  using recovery_without_main_file_loses_snapshot [of "crashed_producer\<lparr>dq_faults := [False, True]\<rparr>" "''events''"
      "[Letter 1 errBreakerOpen 0, Broken ''x'']"]
  by (simp add: crashed_producer_def)

section \<open>Topics of producers and consumers\<close>

lemma resolveTopic_not_empty: "resolveTopic m ty \<noteq> []"
  by (simp add: resolveTopic_def split: option.split)

lemma first_occurrences_set: "[] \<notin> set ts \<Longrightarrow> set (first_occurrences seen ts) = set ts - set seen"
  by (induction ts arbitrary: seen) auto

lemma first_occurrences_new: "x \<in> set (first_occurrences seen ts) \<Longrightarrow> x \<notin> set seen"
proof (induction ts arbitrary: seen)
  case (Cons t ts)
  then show ?case using Cons.IH [of seen] Cons.IH [of "t # seen"] by (auto split: if_splits)
qed simp

lemma first_occurrences_distinct: "distinct (first_occurrences seen ts)"
proof (induction ts arbitrary: seen)
  case (Cons t ts)
  then show ?case using first_occurrences_new [of t "t # seen" ts] by auto
qed simp

definition consumed_types :: "string list" where
  "consumed_types = [''idle.settled'', ''shop.redeemed'', ''task.completed'', ''user.points.adjust'']"

text \<open>The consumers subscribe, once each, to exactly the topics the producers write the consumed
events to, whatever the kind of the queue and its configuration say; a type without a topic of its
own is written to and read from the common one.\<close>

theorem consumers_read_where_producers_write:
  "distinct (ConsumerTopics m) \<and> set (ConsumerTopics m) = resolveTopic m ` set consumed_types"
proof -
  have "[] \<notin> set (map (resolveTopic m) consumed_types)" using resolveTopic_not_empty [of m] by (auto simp: image_iff) metis
  moreover have "ConsumerTopics m = first_occurrences [] (map (resolveTopic m) consumed_types)"
    by (simp add: ConsumerTopics_def consumed_types_def)
  ultimately show ?thesis using first_occurrences_set first_occurrences_distinct by simp
qed

end
