(* ===== verification/EventFlow.thy ===== *)
theory EventFlow
  imports TaskProperties ConsumerProperties
begin

text \<open>
  The consumption of events end to end (the handler in \<open>internal/bootstrap/app.go\<close>): the Kafka
  consumer of theory \<open>Consumer\<close> calls the task service and the points applier. Records are
  redelivered after crashes and repeated after failures; an event counts once all the same.
\<close>

section \<open>The handler\<close>

text \<open>The payload of a message is decoded by the service it goes to: as progress fields or as an adjustment.\<close>

record bus_message =
  bm_type :: string
  bm_id :: string
  bm_fields :: "event_fields option"
  bm_adjust :: "points_outbox option"

definition EventUserPointsAdjust :: string where
  "EventUserPointsAdjust = ''user.points.adjust''"

definition progress_message :: "bus_message \<Rightarrow> event_message" where
  "progress_message m = \<lparr>em_type = bm_type m, em_id = bm_id m, em_payload = bm_fields m\<rparr>"

definition handlerFn :: "bus_message \<Rightarrow> (world, unit) io" where
  "handlerFn m =
     (if bm_type m = EventIdleSettled \<or> bm_type m = EventShopRedeemed
      then ApplyEventProgress (Some (progress_message m))
      else if bm_type m = EventUserPointsAdjust
      then (case bm_adjust m of
              None \<Rightarrow> throw (Sentinel ''decode payload'')
            | Some r \<Rightarrow> ApplyPointsAdjust (PointsAdjust r))
      else ret ())"

text \<open>The handler as the consumer calls it; it returns its error and does not panic.\<close>

definition event_handler :: "(bus_message, world) handler" where
  "event_handler m w =
     (case handlerFn m w of
        (Inl e, w') \<Rightarrow> (Returned (Some e), w')
      | (Inr _, w') \<Rightarrow> (Returned None, w'))"

section \<open>How much the counters grow\<close>

text \<open>\<open>raised A rows rows'\<close>: no counter falls, that of user \<open>u\<close> and task \<open>i\<close> grows by at most \<open>A u i\<close> in every period.\<close>

definition raised :: "(string \<Rightarrow> int \<Rightarrow> int) \<Rightarrow> task_progress list \<Rightarrow> task_progress list \<Rightarrow> bool" where
  "raised A rows rows' \<longleftrightarrow>
     (\<forall>u i p. tally u i p rows \<le> tally u i p rows' \<and> tally u i p rows' \<le> tally u i p rows + A u i)"

lemma raised_refl: "(\<And>u i. 0 \<le> A u i) \<Longrightarrow> raised A rows rows"
  by (simp add: raised_def)

lemma raised_trans:
  assumes "raised A r1 r2" and "raised B r2 r3"
  shows "raised (\<lambda>u i. A u i + B u i) r1 r3"
  unfolding raised_def
proof (intro allI)
  fix u i p
  show "tally u i p r1 \<le> tally u i p r3 \<and> tally u i p r3 \<le> tally u i p r1 + (A u i + B u i)"
    using assms [unfolded raised_def, rule_format, of u i p] by linarith
qed

lemma raised_mono: "raised A r1 r2 \<Longrightarrow> (\<And>u i. A u i \<le> B u i) \<Longrightarrow> raised B r1 r2"
  unfolding raised_def by (meson add_left_mono order_trans)

definition of_task :: "string \<Rightarrow> int \<Rightarrow> int \<Rightarrow> string \<Rightarrow> int \<Rightarrow> int" where
  "of_task u j delta v i = (if v = u \<and> i = j then delta else 0)"

lemma raised_ensure: "raised (\<lambda>_ _. 0) rows (ensure_progress u j p rows)"
  by (auto simp: raised_def tally_def row_of_ensure new_progress_def)

lemma raised_bump:
  fixes t :: task
  assumes "0 < delta"
  shows "raised (of_task u (tk_id t) delta) rows (bump lr u t p delta t0 rows)"
  using assms by (auto simp: raised_def of_task_def tally_bump)

lemma raised_add:
  fixes t :: task
  assumes "0 < delta"
  shows "raised (of_task u (tk_id t) delta) (ensure_progress u (tk_id t) p rows)
    (update_where (unclaimed_key u (tk_id t) p) (add_progress lr (tk_target t) delta t0) (ensure_progress u (tk_id t) p rows))"
proof -
  let ?e = "ensure_progress u (tk_id t) p rows"
  have "ensure_progress u (tk_id t) p ?e = ?e" by (simp add: ensure_progress_def has_progress_def new_progress_def progress_key_def)
  then show ?thesis using raised_bump [OF assms, of u t ?e lr p t0] by (simp add: bump_def)
qed

section \<open>A database that does not undo transactions on its own\<close>

text \<open>No failure is reported as a deadlock, or the database is not MySQL.\<close>

definition deadlock_free :: "world \<Rightarrow> bool" where
  "deadlock_free w \<longleftrightarrow> \<not> mysql w \<or> (\<forall>name. \<not> isDeadlock w (Fault name))"

definition kind_of_db :: "world \<Rightarrow> bool \<times> (string \<Rightarrow> string)" where
  "kind_of_db w = (mysql w, fault_text w)"

lemma deadlock_free_kind: "kind_of_db w' = kind_of_db w \<Longrightarrow> deadlock_free w' = deadlock_free w"
  by (simp add: deadlock_free_def kind_of_db_def isDeadlock_def)

text \<open>A write that fails has changed nothing; inside a transaction MySQL could undo more, on a deadlock only.\<close>

lemma db_write_run:
  assumes "db_write name f w = (r, w')"
  shows "kind_of_db w' = kind_of_db w \<and> (\<forall>e. r = Inl e \<longrightarrow> e = Fault name \<and> db w' = db w) \<and>
    (\<forall>x. r = Inr x \<longrightarrow> (\<exists>fs. (x, db w') = f (w\<lparr>faults := fs\<rparr>) (db w)))"
proof (cases "faults w")
  case Nil
  then have same: "w\<lparr>faults := []\<rparr> = w" by simp
  have "\<exists>fs. (x, d) = f (w\<lparr>faults := fs\<rparr>) (db w)" if "f w (db w) = (x, d)" for x d
    by (intro exI [of _ "[]"]) (simp only: same that)
  then show ?thesis using assms Nil by (auto simp: db_write_def ext_def kind_of_db_def split: prod.splits)
next
  case (Cons b bs)
  then show ?thesis using assms
    by (auto simp: db_write_def ext_def kind_of_db_def split: prod.splits if_splits intro!: exI [of _ bs])
qed

interpretation kind: quiet_relation "\<lambda>w w'. kind_of_db w' = kind_of_db w"
  by unfold_locales (auto simp: kind_of_db_def durable_def)

lemma kind_db_write: "evolves (\<lambda>w w'. kind_of_db w' = kind_of_db w) (db_write name f)"
  by (rule evolvesI) (metis db_write_run prod.collapse)

lemma kind_statement:
  assumes "evolves (\<lambda>w w'. kind_of_db w' = kind_of_db w) m"
  shows "evolves (\<lambda>w w'. kind_of_db w' = kind_of_db w) (mysql_statement tx m)"
proof (rule evolvesI)
  fix w
  have "kind_of_db (snd (m w)) = kind_of_db w" using assms by (simp add: evolves_def)
  then show "kind_of_db (snd (mysql_statement tx m w)) = kind_of_db w"
    by (auto simp: mysql_statement_def kind_of_db_def split: prod.splits sum.splits option.splits)
qed

lemma kind_retry:
  "evolves (\<lambda>w w'. kind_of_db w' = kind_of_db w) m \<Longrightarrow>
   evolves (\<lambda>w w'. kind_of_db w' = kind_of_db w) (retry_deadlocks m ks prev)"
  by (induction ks arbitrary: prev)
    (auto intro!: kind.ev_rules kind.ev_quiet_modify split: option.splits)

lemma kind_event_tx: "evolves (\<lambda>w w'. kind_of_db w' = kind_of_db w) (event_tx tx src ev u delta keys)"
  unfolding event_tx_def Mark_def FindByKeys_def task_read_def incr_task_def IncrProgress_def incrProgressOnce_def
  by (intro kind.ev_quiet_world kind_retry kind_statement kind_db_write)

lemma statement_run:
  assumes "mysql_statement tx (db_write name f) w = (r, w')" and "deadlock_free w"
  shows "kind_of_db w' = kind_of_db w \<and> (\<forall>e. r = Inl e \<longrightarrow> db w' = db w) \<and>
    (\<forall>x. r = Inr x \<longrightarrow> (\<exists>fs. (x, db w') = f (w\<lparr>faults := fs\<rparr>) (db w)))"
proof -
  obtain q v where q: "db_write name f w = (q, v)" by fastforce
  note run = db_write_run [OF q]
  have "\<not> (mysql v \<and> isDeadlock v (Fault name))"
    using assms(2) deadlock_free_kind [of v w] run by (auto simp: deadlock_free_def)
  then have "w' = v \<and> r = q" using assms(1) q run
    by (auto simp: mysql_statement_def split: sum.splits if_splits)
  then show ?thesis using run by blast
qed

text \<open>One attempt at a task, the attempts together, and all tasks of an event.\<close>

definition only_raises :: "(string \<Rightarrow> int \<Rightarrow> int) \<Rightarrow> world \<Rightarrow> world \<Rightarrow> bool" where
  "only_raises A w w' \<longleftrightarrow> kind_of_db w' = kind_of_db w \<and> tasks (db w') = tasks (db w) \<and>
     event_dedups (db w') = event_dedups (db w) \<and> raised A (task_progresses (db w)) (task_progresses (db w'))"

lemma only_raises_trans:
  "only_raises A u v \<Longrightarrow> only_raises B v w \<Longrightarrow> only_raises (\<lambda>x i. A x i + B x i) u w"
  by (auto simp: only_raises_def intro: raised_trans)

lemma incrProgressOnce_raises:
  fixes t :: task
  assumes "incrProgressOnce tx u t p delta w = (r, w')" and "deadlock_free w" and "0 < delta"
  shows "(\<forall>e. r = Inl e \<longrightarrow> only_raises (\<lambda>_ _. 0) w w') \<and>
    (\<forall>x. r = Inr x \<longrightarrow> only_raises (of_task u (tk_id t) delta) w w')"
proof -
  let ?rows = "task_progresses (db w)"
  obtain q v where 1: "mysql_statement tx (db_write ''progress insert'' (\<lambda>w d. ((),
      d\<lparr>task_progresses := ensure_progress u (tk_id t) p (task_progresses d)\<rparr>))) w = (q, v)" by fastforce
  note s1 = statement_run [OF 1 assms(2)]
  show ?thesis
  proof (cases q)
    case (Inl e)
    then have "w' = v \<and> r = Inl e" using assms(1) 1 by (simp add: incrProgressOnce_def then_io_def bind_io_def)
    then show ?thesis using s1 Inl raised_refl by (simp add: only_raises_def)
  next
    case (Inr y)
    then have v: "db v = (db w)\<lparr>task_progresses := ensure_progress u (tk_id t) p ?rows\<rparr>" "kind_of_db v = kind_of_db w"
      using s1 by auto
    have 2: "mysql_statement tx (db_write ''progress add'' (\<lambda>w d. ((),
        d\<lparr>task_progresses := update_where (unclaimed_key u (tk_id t) p)
          (add_progress (mysql w) (tk_target t) delta (now w)) (task_progresses d)\<rparr>))) v = (r, w')"
      using assms(1) 1 Inr by (simp add: incrProgressOnce_def then_io_def bind_io_def)
    have "deadlock_free v" using assms(2) deadlock_free_kind [OF v(2)] by simp
    note s2 = statement_run [OF 2 this]
    have e: "only_raises (\<lambda>_ _. 0) w v" using v raised_ensure by (simp add: only_raises_def)
    show ?thesis
    proof (cases r)
      case (Inl e')
      then show ?thesis using s2 e v by (simp add: only_raises_def)
    next
      case (Inr z)
      then obtain fs where w': "db w' = (db v)\<lparr>task_progresses := update_where (unclaimed_key u (tk_id t) p)
          (add_progress (mysql (v\<lparr>faults := fs\<rparr>)) (tk_target t) delta (now (v\<lparr>faults := fs\<rparr>))) (task_progresses (db v))\<rparr>"
        using s2 by auto
      have "only_raises (of_task u (tk_id t) delta) v w'"
        using w' s2 v(1) raised_add [OF assms(3), of u t p ?rows] by (simp add: only_raises_def)
      then show ?thesis using only_raises_trans [OF e] Inr by fastforce
    qed
  qed
qed

lemma retry_raises:
  assumes once: "\<And>w r w'. m w = (r, w') \<Longrightarrow> deadlock_free w \<Longrightarrow>
      (\<forall>e. r = Inl e \<longrightarrow> only_raises (\<lambda>_ _. 0) w w') \<and> (\<forall>x. r = Inr x \<longrightarrow> only_raises A w w')"
    and "\<And>x i. 0 \<le> A x i"
  shows "retry_deadlocks m ks prev w = (r, w') \<Longrightarrow> deadlock_free w \<Longrightarrow> only_raises A w w'"
proof (induction ks arbitrary: prev w)
  case Nil
  then have "w' = w" by (auto simp: ret_def throw_def split: option.splits)
  then show ?case using raised_refl assms(2) by (simp add: only_raises_def)
next
  case (Cons k ks)
  define w1 where "w1 = (if k > 0 then w\<lparr>now := now w + int k * (50 * millisecond)\<rparr> else w)"
  have w1: "kind_of_db w1 = kind_of_db w" "db w1 = db w" by (simp_all add: w1_def kind_of_db_def)
  have d1: "deadlock_free w1" using Cons.prems(2) deadlock_free_kind [OF w1(1)] by simp
  obtain q v where q: "m w1 = (q, v)" by fastforce
  have run: "retry_deadlocks m (k # ks) prev w = (case q of Inr x \<Rightarrow> (Inr (), v)
      | Inl e \<Rightarrow> (if isDeadlock v e then retry_deadlocks m ks (Some e) v else (Inl e, v)))"
    using q by (auto simp: w1_def then_io_def when_io_def bind_io_def modify_io_def ret_def attempt_def gets_io_def throw_def
        split: sum.split)
  note o = once [OF q d1]
  have from_w: "only_raises B w v'" if "only_raises B w1 v'" for B v'
    using that w1 by (simp add: only_raises_def)
  show ?case
  proof (cases q)
    case (Inr x)
    then show ?thesis using o run Cons.prems(1) from_w by simp
  next
    case (Inl e)
    then have v: "only_raises (\<lambda>_ _. 0) w v" using o from_w by blast
    then have dv: "deadlock_free v" using Cons.prems(2) deadlock_free_kind [of v w] by (simp add: only_raises_def)
    show ?thesis
    proof (cases "isDeadlock v e")
      case True
      then have "only_raises A v w'" using Cons.IH [of "Some e" v] dv run Inl Cons.prems(1) by simp
      then show ?thesis using only_raises_trans [OF v] by fastforce
    next
      case False
      then have "w' = v" using run Inl Cons.prems(1) by simp
      then show ?thesis using v assms(2) by (auto simp: only_raises_def intro: raised_mono)
    qed
  qed
qed

lemma incr_task_raises:
  fixes t :: task
  assumes "incr_task tx u delta t w = (r, w')" and "deadlock_free w" and "0 < delta"
  shows "only_raises (of_task u (tk_id t) delta) w w'"
proof -
  let ?p = "GetCurrentPeriod (tk_type t) w"
  obtain q where q: "retry_deadlocks (incrProgressOnce tx u t ?p delta) [0, 1, 2] None w = (q, w')"
    using assms(1,3) by (auto simp: incr_task_def IncrProgress_def bind_io_def gets_io_def wrap_err_def
        split: prod.splits sum.splits)
  show ?thesis
  proof (rule retry_raises [OF _ _ q assms(2)])
    show "0 \<le> of_task u (tk_id t) delta x i" for x i using assms(3) by (simp add: of_task_def)
  qed (rule incrProgressOnce_raises [OF _ _ assms(3)])
qed

definition of_tasks :: "string \<Rightarrow> task list \<Rightarrow> int \<Rightarrow> string \<Rightarrow> int \<Rightarrow> int" where
  "of_tasks u ts delta v i = (if v = u \<and> i \<in> tk_id ` set ts then delta else 0)"

lemma incr_tasks_raise:
  assumes "for_io ts (incr_task tx u delta) w = (r, w')" and "deadlock_free w" and "0 < delta" and "distinct (map tk_id ts)"
  shows "only_raises (of_tasks u ts delta) w w'"
  using assms(1,2,4)
proof (induction ts arbitrary: w)
  case Nil
  then show ?case using raised_refl by (simp add: ret_def only_raises_def of_tasks_def)
next
  case (Cons t ts)
  obtain q v where q: "incr_task tx u delta t w = (q, v)" by fastforce
  note o = incr_task_raises [OF q Cons.prems(2) assms(3)]
  have up: "only_raises B w x \<Longrightarrow> (\<And>a i. B a i \<le> of_tasks u (t # ts) delta a i) \<Longrightarrow> only_raises (of_tasks u (t # ts) delta) w x"
    for B x unfolding only_raises_def using raised_mono by blast
  show ?case
  proof (cases q)
    case (Inl e)
    then have w': "w' = v" using Cons.prems(1) q by (simp add: then_io_def bind_io_def)
    show ?thesis unfolding w' using o by (rule up) (use assms(3) in \<open>auto simp: of_task_def of_tasks_def\<close>)
  next
    case (Inr x)
    then have "for_io ts (incr_task tx u delta) v = (r, w')" using Cons.prems(1) q by (simp add: then_io_def bind_io_def)
    moreover have "deadlock_free v" using o Cons.prems(2) deadlock_free_kind [of v w] by (simp add: only_raises_def)
    ultimately have "only_raises (of_tasks u ts delta) v w'" using Cons.IH Cons.prems(3) by simp
    from only_raises_trans [OF o this] show ?thesis
      by (rule up) (use Cons.prems(3) assms(3) in \<open>auto simp: of_task_def of_tasks_def\<close>)
  qed
qed

section \<open>A delivery counts an event at most once\<close>

text \<open>
  The events and what each of them adds for whom: \<open>amount ev\<close> is the user and the amount. Two
  states are related when the tasks are the same and there are events, not marked before and
  marked now, such that each counter has grown by at most the amounts of those of its user.
\<close>

definition marks :: "business_db \<Rightarrow> string set" where
  "marks d = ed_event ` set (event_dedups d)"

definition worth :: "(string \<Rightarrow> string \<times> int) \<Rightarrow> string set \<Rightarrow> string \<Rightarrow> int" where
  "worth amount evs u = (\<Sum>ev \<in> evs. if fst (amount ev) = u then snd (amount ev) else 0)"

definition counted_between :: "(string \<Rightarrow> string \<times> int) \<Rightarrow> business_db \<Rightarrow> business_db \<Rightarrow> bool" where
  "counted_between amount d d' \<longleftrightarrow> tasks d' = tasks d \<and> marks d \<subseteq> marks d' \<and>
     raised (\<lambda>u i. worth amount (marks d' - marks d) u) (task_progresses d) (task_progresses d')"

lemma finite_marks: "finite (marks d)"
  by (simp add: marks_def)

lemma counted_refl: "task_progresses d' = task_progresses d \<Longrightarrow> tasks d' = tasks d \<Longrightarrow> event_dedups d' = event_dedups d \<Longrightarrow>
  counted_between amount d d'"
  by (simp add: counted_between_def marks_def raised_def worth_def)

lemma counted_trans:
  assumes "counted_between amount a b" and "counted_between amount b c"
  shows "counted_between amount a c"
proof -
  have sub: "marks a \<subseteq> marks b" "marks b \<subseteq> marks c" using assms by (simp_all add: counted_between_def)
  then have "marks c - marks a = (marks b - marks a) \<union> (marks c - marks b)" by blast
  then have "worth amount (marks c - marks a) u = worth amount (marks b - marks a) u + worth amount (marks c - marks b) u" for u
    unfolding worth_def by (simp add: finite_marks sum.union_disjoint Diff_Int_distrib2)
  then show ?thesis using assms sub by (auto simp: counted_between_def intro: raised_trans)
qed

definition counts_once :: "(string \<Rightarrow> string \<times> int) \<Rightarrow> world \<Rightarrow> world \<Rightarrow> bool" where
  "counts_once amount w w' \<longleftrightarrow>
     (deadlock_free w \<and> distinct (map tk_id (tasks (db w))) \<longrightarrow>
      kind_of_db w' = kind_of_db w \<and> counted_between amount (db w) (db w'))"

interpretation once: quiet_relation "counts_once amount" for amount
proof
  show "counts_once amount w w" for w by (simp add: counts_once_def counted_refl)
  show "counts_once amount u v \<Longrightarrow> counts_once amount v w \<Longrightarrow> counts_once amount u w" for u v w
    unfolding counts_once_def using deadlock_free_kind [of v u] counted_trans
    by (metis counted_between_def)
  show "durable w' = durable w \<Longrightarrow> counts_once amount w w'" for w w'
    by (simp add: counts_once_def durable_def kind_of_db_def counted_refl)
qed

lemma Mark_run:
  assumes "Mark ev src w = (r, w')" and "ev \<noteq> []"
  shows "kind_of_db w' = kind_of_db w \<and> tasks (db w') = tasks (db w) \<and> task_progresses (db w') = task_progresses (db w) \<and>
    (if r = Inr True then ev \<notin> marks (db w) \<and> marks (db w') = insert ev (marks (db w)) else db w' = db w)"
  using assms
  by (auto simp: Mark_def db_write_def ext_def kind_of_db_def marks_def list_ex_iff split: list.splits if_splits)

lemma event_tx_counts:
  assumes run: "event_tx (Some d0) src ev u delta keys w = (Inr (), w')" and "deadlock_free w" and "ev \<noteq> []" and "0 < delta"
    and "distinct (map tk_id (tasks (db w)))" and "amount ev = (u, delta)"
  shows "kind_of_db w' = kind_of_db w \<and> ev \<in> marks (db w') \<and> counted_between amount (db w) (db w')"
proof -
  obtain r v where m: "Mark ev src w = (r, v)" by fastforce
  note mk = Mark_run [OF m assms(3)]
  consider "r = Inr False" "w' = v" | "r = Inr True" using run m
    by (cases r) (auto simp: event_tx_def bind_io_def wrap_err_def ret_def split: if_splits)
  then show ?thesis
  proof cases
    case 1
    then have "ev \<in> marks (db w)" using m assms(3)
      by (auto simp: Mark_def db_write_def ext_def marks_def list_ex_iff split: list.splits if_splits)
    then show ?thesis using 1 mk by (simp add: counted_refl)
  next
    case 2
    obtain ts v' where f: "FindByKeys (Some d0) keys v = (Inr ts, v')"
      and go: "for_io ts (incr_task (Some d0) u delta) v' = (Inr (), w')"
      using run m 2 by (auto simp: event_tx_def bind_io_def wrap_err_def split: prod.splits sum.splits)
    have same: "db v' = db v \<and> kind_of_db v' = kind_of_db v"
      using f by (auto simp: FindByKeys_def task_read_def ext_def gets_io_def ret_def kind_of_db_def
          split: list.splits if_splits)
    have "distinct (map tk_id ts)"
      using FindByKeys_tx [OF f] assms(5) mk by (auto intro: distinct_map_filter)
    then have o: "only_raises (of_tasks u ts delta) v' w'"
      using incr_tasks_raise [OF go _ assms(4)] assms(2) deadlock_free_kind [of v' w] same mk by simp
    have "marks (db w') = insert ev (marks (db w))" using o mk 2 same by (simp add: only_raises_def marks_def)
    moreover from this have "marks (db w') - marks (db w) = {ev}" using mk 2 by auto
    then have "worth amount (marks (db w') - marks (db w)) x = (if x = u then delta else 0)" for x
      using assms(6) by (simp add: worth_def)
    then have "raised (\<lambda>x i. worth amount (marks (db w') - marks (db w)) x) (task_progresses (db v')) (task_progresses (db w'))"
      using o assms(4) by (auto simp: only_raises_def of_tasks_def elim!: raised_mono)
    ultimately show ?thesis using o mk same 2 by (auto simp: counted_between_def only_raises_def)
  qed
qed

lemma Apply_counts:
  assumes run: "ApplyEventProgress (Some msg) w = (r, w')"
    and ok: "deadlock_free w" "distinct (map tk_id (tasks (db w)))"
    and am: "\<And>ev u delta keys. event_progress msg = Inr (Some (ev, u, delta, keys)) \<Longrightarrow> amount ev = (u, delta)"
  shows "kind_of_db w' = kind_of_db w \<and> counted_between amount (db w) (db w') \<and>
    (\<forall>ev u delta keys. r = Inr () \<and> event_progress msg = Inr (Some (ev, u, delta, keys)) \<longrightarrow> ev \<in> marks (db w'))"
proof (cases "\<exists>ev u delta keys. event_progress msg = Inr (Some (ev, u, delta, keys))")
  case False
  then have "w' = w" using run
    by (auto simp: ApplyEventProgress_def ret_def throw_def split: sum.splits option.splits)
  then show ?thesis using False by (simp add: counted_refl)
next
  case True
  then obtain ev u delta keys where m: "event_progress msg = Inr (Some (ev, u, delta, keys))" by blast
  have t: "transaction (event_tx (Some (db w)) (em_type msg) ev u delta keys) w = (r, w')"
    using run by (simp add: ApplyEventProgress_def m bind_io_def gets_io_def)
  obtain q v where v: "event_tx (Some (db w)) (em_type msg) ev u delta keys w = (q, v)" by fastforce
  have k: "kind_of_db v = kind_of_db w" using kind_event_tx v by (rule evolvesD)
  show ?thesis
  proof (cases r)
    case (Inl e)
    then have "db w' = db w" "kind_of_db w' = kind_of_db v"
      using t v transaction_fails [of _ w e w']
      by (auto simp: transaction_def ext_def ret_def kind_of_db_def split: sum.splits list.splits if_splits)
    then show ?thesis using k Inl by (simp add: counted_refl)
  next
    case (Inr x)
    then have q: "q = Inr ()" "db w' = db v" "kind_of_db w' = kind_of_db v" using t v
      by (auto simp: transaction_def ext_def ret_def kind_of_db_def split: sum.splits list.splits if_splits)
    have "0 < delta" using event_keys_counted [OF m] by simp
    from event_tx_counts [of "db w" "em_type msg" ev u delta keys w v amount, OF v [unfolded q(1)] ok(1) event_id_nonempty [OF m]
        this ok(2) am [OF m]] show ?thesis using q m by auto
  qed
qed

text \<open>An adjustment of points touches neither the tasks nor the progress nor the marks.\<close>

definition leaves_progress :: "world \<Rightarrow> world \<Rightarrow> bool" where
  "leaves_progress w w' \<longleftrightarrow> kind_of_db w' = kind_of_db w \<and> tasks (db w') = tasks (db w) \<and>
     task_progresses (db w') = task_progresses (db w) \<and> event_dedups (db w') = event_dedups (db w)"

interpretation leaves: quiet_relation leaves_progress
  by unfold_locales (auto simp: leaves_progress_def kind_of_db_def durable_def)

lemma leaves_tryApply: "evolves leaves_progress (tryApply e u d)"
proof -
  have users: "evolves leaves_progress (user_write name f)" for name and f :: "user list \<Rightarrow> (gerr + 'a) \<times> user list"
    unfolding user_write_def
    by (intro leaves.ev_ext evolvesI) (simp add: leaves_progress_def kind_of_db_def split: prod.split)
  have outbox: "evolves leaves_progress (db_write name (\<lambda>w d. (f w d, d\<lparr>outbox_rows := g w d\<rparr>)))" for name g
    and f :: "world \<Rightarrow> business_db \<Rightarrow> 'a"
    unfolding db_write_def by (intro leaves.ev_ext evolvesI) (simp add: leaves_progress_def kind_of_db_def)
  show ?thesis
    unfolding tryApply_def Claim_def MarkDone_def Requeue_def UpdatePoints_def
    by (intro leaves.ev_quiet_world leaves.ev_invalidateUser users outbox)
qed

lemma handlerFn_counts:
  assumes run: "handlerFn m w = (r, w')"
    and ok: "deadlock_free w" "distinct (map tk_id (tasks (db w)))"
    and am: "\<And>ev u delta keys. event_progress (progress_message m) = Inr (Some (ev, u, delta, keys)) \<Longrightarrow> amount ev = (u, delta)"
  shows "kind_of_db w' = kind_of_db w \<and> counted_between amount (db w) (db w') \<and>
    (\<forall>ev u delta keys. r = Inr () \<and> event_progress (progress_message m) = Inr (Some (ev, u, delta, keys)) \<longrightarrow> ev \<in> marks (db w'))"
proof (cases "bm_type m = EventIdleSettled \<or> bm_type m = EventShopRedeemed")
  case True
  then show ?thesis using Apply_counts [OF _ ok am] run by (simp add: handlerFn_def)
next
  case False
  then have none: "event_progress (progress_message m) = Inr None"
    by (simp add: event_progress_def progress_message_def)
  have "evolves leaves_progress (handlerFn m)"
    using False leaves_tryApply unfolding handlerFn_def ApplyPointsAdjust_def apply_row_def
    by (auto intro!: leaves.ev_quiet_world split: option.split)
  then have "leaves_progress w w'" using run by (rule evolvesD)
  then show ?thesis using none by (simp add: leaves_progress_def counted_refl)
qed

section \<open>Deliveries, repetitions and crashes\<close>

text \<open>Messages that stand for the same event say the same of it.\<close>

definition says :: "(string \<Rightarrow> string \<times> int) \<Rightarrow> bus_message \<Rightarrow> bool" where
  "says amount m \<longleftrightarrow> (case event_progress (progress_message m) of
      Inr (Some (ev, u, delta, keys)) \<Rightarrow> amount ev = (u, delta) | _ \<Rightarrow> True)"

lemma saysD: "says amount m \<Longrightarrow> event_progress (progress_message m) = Inr (Some (ev, u, delta, keys)) \<Longrightarrow> amount ev = (u, delta)"
  by (simp add: says_def)

lemma call_counts:
  assumes "event_handler m w = (r, w')" and "says amount m"
  shows "counts_once amount w w'"
proof -
  obtain q where "handlerFn m w = (q, w')"
    using assms(1) by (auto simp: event_handler_def split: prod.splits sum.splits)
  from handlerFn_counts [OF this _ _ saysD [OF assms(2)]] show ?thesis by (simp add: counts_once_def)
qed

lemma calls_count: "says amount m \<Longrightarrow> counts_once amount w (after_calls event_handler m k w)"
proof (induction k)
  case (Suc k)
  have "counts_once amount (after_calls event_handler m k w) (after_calls event_handler m (Suc k) w)"
    unfolding after_calls.simps(2) by (rule call_counts [OF prod.collapse [symmetric] Suc.prems])
  then show ?case using Suc once.step_trans by blast
qed (simp add: once.step_refl)

lemma handle_counts:
  fixes c c' :: "(bus_message, world, 's) consumer"
  assumes run: "handle ops cc event_handler m c = (r, c')" and body: "km_body m = Event i msg" and says: "says amount msg"
  shows "counts_once amount (app c) (app c')"
proof -
  define R :: "(bus_message, world, 's) consumer \<Rightarrow> (bus_message, world, 's) consumer \<Rightarrow> bool"
    where "R = (\<lambda>a b. counts_once amount (app a) (app b))"
  have rel: "two_state R" unfolding R_def by unfold_locales (auto intro: once.step_refl once.step_trans)
  note rules = two_state.ev_rules [OF rel]
  have same: "evolves R f" if "\<And>a. app (snd (f a)) = app a" for f :: "((bus_message, world, 's) consumer, 'b) io"
    using that by (simp add: evolves_def R_def once.step_refl)
  have call: "evolves R (callHandlerSafe event_handler msg)"
    by (rule evolvesI) (auto simp: callHandlerSafe_def R_def split: prod.split intro: call_counts [OF _ says])
  have repeat: "evolves R (retry_from event_handler msg mx n d e)" for mx n d e
  proof (induction n arbitrary: d e)
    case (Suc n)
    then show ?case unfolding retry_from.simps(2)
      by (intro rules call) (auto intro!: same simp: sleepWithContext_def modify_io_def)
  qed (simp add: rules)
  have retry: "evolves R (retryProcess event_handler msg n b x)" for n b x
    unfolding retryProcess_def by (intro rules call repeat)
  have store: "evolves R (in_store f)" for f :: "('s, 'b) io"
    by (rule same) (simp add: in_store_def split: prod.split)
  have "evolves R (process cc event_handler m msg)"
    unfolding process_def by (intro rules retry) (simp add: same)
  then have "evolves R (deliver ops cc event_handler m)"
    unfolding deliver_def body unmarshal_def by (auto intro!: rules store)
  then have "evolves R (handle ops cc event_handler m)"
    unfolding handle_def by (intro rules) (simp_all add: same)
  then show ?thesis using run by (auto simp: R_def dest: evolvesD)
qed

text \<open>
  A run: messages of \<open>M\<close> are handled by any consumer, a process may die after some calls of the
  handler and before the offset is committed, and anything else may happen that leaves the
  tasks, the marks and the counters alone.
\<close>

inductive event_flow :: "'s progress_ops \<Rightarrow> bus_message set \<Rightarrow> world \<Rightarrow> world \<Rightarrow> bool"
  for ops :: "'s progress_ops" and M :: "bus_message set" where
  none: "event_flow ops M w w"
| delivery: "event_flow ops M u (app c) \<Longrightarrow> km_body m = Event i msg \<Longrightarrow> msg \<in> M \<Longrightarrow>
    handle ops cc event_handler m c = (r, c') \<Longrightarrow> event_flow ops M u (app c')"
| crash: "event_flow ops M u v \<Longrightarrow> msg \<in> M \<Longrightarrow> event_flow ops M u (after_calls event_handler msg k v)"
| other: "event_flow ops M u v \<Longrightarrow> kind_of_db w = kind_of_db v \<Longrightarrow> tasks (db w) = tasks (db v) \<Longrightarrow>
    event_dedups (db w) = event_dedups (db v) \<Longrightarrow>
    (\<And>x i p. tally x i p (task_progresses (db w)) = tally x i p (task_progresses (db v))) \<Longrightarrow> event_flow ops M u w"

lemma flow_counts:
  assumes "event_flow ops M w w'" and "\<And>m. m \<in> M \<Longrightarrow> says amount m"
  shows "counts_once amount w w'"
  using assms(1)
proof induction
  case (none w)
  then show ?case by (rule once.step_refl)
next
  case (delivery u c m i msg cc r c')
  then show ?case using handle_counts [OF delivery.hyps(4,2) assms(2) [OF delivery.hyps(3)]] once.step_trans by blast
next
  case (crash u v msg k)
  then show ?case using calls_count assms(2) once.step_trans by blast
next
  case (other u v w)
  then have "counts_once amount v w"
    by (simp add: counts_once_def counted_between_def marks_def raised_def worth_def)
  then show ?case using other.IH once.step_trans by blast
qed

text \<open>C5. While the database reports no deadlock (or is not MySQL), nothing cleans up the marks of consumed
events, and the ids of tasks are distinct, events count at most once: whatever is redelivered, repeated after failures or cut off by crashes,
whichever other calls fail, each counter of a task has in the end grown by at most the amounts of the events
of its user that are marked now and were not before, one amount for each event, and no counter has fallen.
A deadlock on MySQL and a cleanup of the marks each lead to double counting; neither is among the steps of
\<open>event_flow\<close>, from a state that is \<open>deadlock_free\<close>.\<close>

theorem events_count_at_most_once:
  assumes "event_flow ops M w w'" and "\<forall>m \<in> M. says amount m"
    and "deadlock_free w" and "distinct (map tk_id (tasks (db w)))"
  shows "tally u i p (task_progresses (db w)) \<le> tally u i p (task_progresses (db w')) \<and>
    tally u i p (task_progresses (db w')) \<le>
      tally u i p (task_progresses (db w)) + worth amount (marks (db w') - marks (db w)) u"
  using flow_counts [OF assms(1), of amount] assms(2-4) by (auto simp: counts_once_def counted_between_def raised_def)

lemma deliver_processed:
  assumes "deliver ops cc h m c = (Inr ResultProcessed, c1)" and "km_body m = Event i msg"
  shows "\<exists>c2. process cc h m msg c2 = (Inr False, c1) \<and> app c2 = app c"
proof -
  let ?look = "if i = [] then ret (Inr False) else attempt (in_store (op_Seen ops i))"
  obtain seen c2 where look: "?look c = (Inr seen, c2)" and c2: "app c2 = app c"
  proof (cases "i = []")
    case True
    then show thesis by (intro that [of "Inr False" c]) (simp_all add: ret_def)
  next
    case False
    then show thesis
      by (intro that [of "fst (op_Seen ops i (store c))" "c\<lparr>store := snd (op_Seen ops i (store c))\<rparr>"])
        (simp_all add: attempt_def in_store_def split: prod.split)
  qed
  have "deliver ops cc h m c = (if seen = Inr True then (Inr ResultDedupSkipped, c2)
      else bind_io (process cc h m msg) (\<lambda>dlqed. ret (if dlqed then ResultDLQ else ResultProcessed)) c2)"
    using look assms(2) by (simp add: deliver_def unmarshal_def bind_io_def ret_def)
  then show ?thesis using assms(1) c2
    by (auto simp: bind_io_def ret_def split: if_splits prod.splits sum.splits)
qed

text \<open>A message that the consumer counts as processed has its event marked as counted.\<close>

theorem processed_event_is_marked:
  assumes "handle ops cc event_handler m c = (Inr ResultProcessed, c')" and "km_body m = Event i msg"
    and "event_progress (progress_message msg) = Inr (Some (ev, u, delta, keys))"
    and "deadlock_free (app c)" and "distinct (map tk_id (tasks (db (app c))))"
  shows "ev \<in> marks (db (app c'))"
proof -
  define amount where "amount = (\<lambda>e :: string. (u, delta))"
  have says: "says amount msg" using assms(3) by (simp add: says_def amount_def)
  obtain res c1 where r: "deliver ops cc event_handler m c = (res, c1)" by (cases "deliver ops cc event_handler m c")
  then have d: "deliver ops cc event_handler m c = (Inr ResultProcessed, c1)" "app c' = app c1"
    using assms(1) by (cases res; auto simp: handle_unfold)+
  obtain c2 where p: "process cc event_handler m msg c2 = (Inr False, c1)" and c2: "app c2 = app c"
    using deliver_processed [OF d(1) assms(2)] by blast
  obtain k where k: "call_result event_handler msg k (app c) = Returned None" "app c1 = after_calls event_handler msg (Suc k) (app c)"
    using process_outcome(2) [OF p] c2 by auto
  let ?v = "after_calls event_handler msg k (app c)"
  have "counts_once amount (app c) ?v" by (rule calls_count [OF says])
  then have "kind_of_db ?v = kind_of_db (app c)" "tasks (db ?v) = tasks (db (app c))"
    using assms(4,5) by (simp_all add: counts_once_def counted_between_def)
  then have v: "deadlock_free ?v" "distinct (map tk_id (tasks (db ?v)))"
    using assms(4,5) deadlock_free_kind [of ?v "app c"] by simp_all
  obtain q where q: "handlerFn msg ?v = (q, app c1)" "q = Inr ()"
    using k by (auto simp: call_result_def after_calls.simps(2) event_handler_def split: prod.splits sum.splits)
  from handlerFn_counts [OF q(1) v saysD [OF says]] q(2) assms(3) d(2) show ?thesis by auto
qed

section \<open>Examples\<close>

definition bus_redeemed :: bus_message where
  "bus_redeemed = \<lparr>bm_type = EventShopRedeemed, bm_id = em_id redeemed_msg, bm_fields = em_payload redeemed_msg, bm_adjust = None\<rparr>"

definition bus_record :: "bus_message kafka_message" where
  "bus_record = \<lparr>km_topic = ''shop'', km_partition = 0, km_offset = 3, km_body = Event ''shop:7'' bus_redeemed\<rparr>"

definition bus_consumer :: "world \<Rightarrow> (bus_message, world, file_progress) consumer" where
  "bus_consumer w = \<lparr>app = w, ctx_left = None, slept = [], store = empty_file, dlq_file = (\<lambda>_. []), dlq_backlog = (\<lambda>_. 0), file_faults = []\<rparr>"

definition counted_then_crashed :: world where
  "counted_then_crashed = after_calls event_handler bus_redeemed 1 sample_task_world"

definition redelivered :: world where
  "redelivered = app (snd (handle file_ops (sample_config True) event_handler bus_record (bus_consumer counted_then_crashed)))"

lemma redelivered_flow: "event_flow file_ops {bus_redeemed} sample_task_world redelivered"
  unfolding redelivered_def
proof (rule event_flow.delivery [OF _ _ _ prod.collapse [symmetric]])
  show "event_flow file_ops {bus_redeemed} sample_task_world (app (bus_consumer counted_then_crashed))"
    unfolding bus_consumer_def counted_then_crashed_def consumer.simps worker.simps
    by (rule event_flow.crash [OF event_flow.none]) simp
qed (simp_all add: bus_record_def)

lemma redeemed_progress: "event_progress (progress_message bus_redeemed) =
  Inr (Some (''shop:7'', ''u1'', 1, [TaskKeyDailyRedeem1, TaskKeyWeeklyRedeem3, TaskKeyAchieveRedeem100]))"
  by code_simp

theorem events_count_at_most_once_witness:
  "tally ''u1'' 7 Lifetime (task_progresses (db redelivered)) \<le> tally ''u1'' 7 Lifetime (task_progresses (db sample_task_world)) +
     worth (\<lambda>ev. (''u1'', 1)) (marks (db redelivered) - marks (db sample_task_world)) ''u1''"
proof -
  have "says (\<lambda>ev. (''u1'', 1)) bus_redeemed" by (simp add: says_def redeemed_progress)
  moreover have "deadlock_free sample_task_world" by (simp add: deadlock_free_def sample_task_world_def empty_world_def)
  moreover have "distinct (map tk_id (tasks (db sample_task_world)))" by code_simp
  ultimately show ?thesis using events_count_at_most_once [OF redelivered_flow, of "\<lambda>ev. (''u1'', 1)"] by simp
qed

theorem processed_event_is_marked_witness:
  "''shop:7'' \<in> marks (db (app (snd (handle file_ops (sample_config True) event_handler bus_record (bus_consumer sample_task_world)))))"
proof -
  let ?c = "bus_consumer sample_task_world"
  have "fst (event_handler bus_redeemed sample_task_world) = Returned None" by code_simp
  then obtain w1 where "event_handler bus_redeemed sample_task_world = (Returned None, w1)" by (metis prod.collapse)
  then have "fst (handle file_ops (sample_config True) event_handler bus_record ?c) = Inr ResultProcessed"
    by (simp add: deliver_run bus_record_def bus_consumer_def)
  then have h: "handle file_ops (sample_config True) event_handler bus_record ?c =
      (Inr ResultProcessed, snd (handle file_ops (sample_config True) event_handler bus_record ?c))" by (simp add: prod_eq_iff)
  have "deadlock_free (app ?c)" by (simp add: bus_consumer_def deadlock_free_def sample_task_world_def empty_world_def)
  moreover have "distinct (map tk_id (tasks (db (app ?c))))" unfolding bus_consumer_def consumer.simps worker.simps by code_simp
  ultimately show ?thesis
    using processed_event_is_marked [OF h _ redeemed_progress] by (simp add: bus_record_def)
qed

end
