(* ===== verification/Subscription.thy ===== *)
theory Subscription
  imports ConsumerProperties Producer GoText
begin

text \<open>
  How a consumer is set up: the choice of the queue (\<open>internal/mq/factory.go\<close>), the subscription of
  the Kafka consumer with its readers and their refresh, the count of its dead letters
  (\<open>internal/mq/kafka_consumer.go\<close>), and the queue inside the process (\<open>internal/mq/memory.go\<close>).
\<close>

section \<open>The kind of queue\<close>

text \<open>The part of \<open>MQConfig\<close> that decides; addresses are given as strings.\<close>

record mq_config =
  mq_type :: string
  mq_brokers :: "string list"
  mq_rabbit_url :: string
  mq_endpoints :: "string list"
  mq_group :: string
  mq_kafka_group :: string
  mq_kafka_mode :: string
  mq_kafka_retry :: "int \<times> duration \<times> duration"
  mq_retry :: "int \<times> duration \<times> duration"
  mq_concurrency :: int

datatype queue_kind = Kafka | RabbitMQ | RocketMQ | Memory | Nop

definition kind_word :: "mq_config \<Rightarrow> string" where
  "kind_word cfg = ToLower (TrimSpace (mq_type cfg))"

definition NewProducer :: "mq_config \<Rightarrow> queue_kind" where
  "NewProducer cfg =
     (if kind_word cfg = ''kafka'' then (if mq_brokers cfg = [] then Nop else Kafka)
      else if kind_word cfg = ''rabbitmq'' then (if mq_rabbit_url cfg = [] then Nop else RabbitMQ)
      else if kind_word cfg = ''rocketmq'' then (if mq_endpoints cfg = [] then Nop else RocketMQ)
      else if kind_word cfg = ''memory'' then Memory
      else Nop)"

text \<open>A Kafka consumer refuses the mode of consumer groups.\<close>

definition NewKafkaConsumer :: "mq_config \<Rightarrow> gerr + queue_kind" where
  "NewKafkaConsumer cfg =
     (if mq_brokers cfg = [] then Inl (Sentinel ''kafka: empty brokers'')
      else if ToLower (mq_kafka_mode cfg) = ''group'' then Inl (Sentinel ''kafka: consumer.mode=group is unsupported'')
      else Inr Kafka)"

definition NewConsumer :: "mq_config \<Rightarrow> gerr + queue_kind" where
  "NewConsumer cfg =
     (if kind_word cfg = ''kafka'' then (if mq_brokers cfg = [] then Inr Nop else NewKafkaConsumer cfg)
      else if kind_word cfg = ''rabbitmq'' then Inr (if mq_rabbit_url cfg = [] then Nop else RabbitMQ)
      else if kind_word cfg = ''rocketmq'' then Inr (if mq_endpoints cfg = [] then Nop else RocketMQ)
      else if kind_word cfg = ''memory'' then Inr Memory
      else Inr Nop)"

definition IsEnabled :: "mq_config \<Rightarrow> bool" where
  "IsEnabled cfg \<longleftrightarrow>
     (if kind_word cfg = ''kafka'' then mq_brokers cfg \<noteq> []
      else if kind_word cfg = ''rabbitmq'' then mq_rabbit_url cfg \<noteq> []
      else if kind_word cfg = ''rocketmq'' then mq_endpoints cfg \<noteq> []
      else kind_word cfg = ''memory'')"

definition DescribeConfig :: "mq_config \<Rightarrow> string" where
  "DescribeConfig cfg = (let t = kind_word cfg in
     if t = ''kafka'' then (if mq_brokers cfg = [] then ''disabled: mq.type=kafka but mq.kafka.brokers empty'' else ''enabled (kafka)'')
     else if t = ''rabbitmq'' then (if mq_rabbit_url cfg = [] then ''disabled: mq.type=rabbitmq but mq.rabbitmq.url empty'' else ''enabled (rabbitmq)'')
     else if t = ''rocketmq'' then (if mq_endpoints cfg = [] then ''disabled: mq.type=rocketmq but mq.rocketmq.endpoints empty'' else ''enabled (rocketmq)'')
     else if t = ''memory'' then ''enabled (memory, in-process)''
     else if t = ''none'' \<or> t = [] then ''disabled (mq.type=none)''
     else ''disabled: unknown mq.type='' @ CHR 0x22 # t @ [CHR 0x22])"

definition consumerGroup :: "mq_config \<Rightarrow> string" where
  "consumerGroup cfg =
     (if mq_group cfg \<noteq> [] then mq_group cfg
      else if mq_kafka_group cfg \<noteq> [] then mq_kafka_group cfg
      else ''hc-framework-consumer'')"

definition consumerRetryOf :: "mq_config \<Rightarrow> int \<times> duration \<times> duration" where
  "consumerRetryOf cfg =
     (if EqualFold (TrimSpace (mq_type cfg)) ''kafka'' then mq_kafka_retry cfg
      else case (if mq_retry cfg = (0, 0, 0) then mq_kafka_retry cfg else mq_retry cfg) of
        (n, base, mx) \<Rightarrow> (if n = 0 then 5 else n, if base = 0 then second else base, if mx = 0 then 16 * second else mx))"

section \<open>Subscribing\<close>

text \<open>
  The partitions of a topic: each broker is asked until one answers. \<open>ask\<close> gives the answer of a
  broker, an error when it cannot be reached or the topic cannot be read.
\<close>

primrec partitions_from :: "(string \<Rightarrow> gerr + int list) \<Rightarrow> string list \<Rightarrow> gerr option \<Rightarrow> gerr + int list" where
  "partitions_from ask [] lastErr =
     Inl (case lastErr of Some e \<Rightarrow> e | None \<Rightarrow> Sentinel ''kafka: no brokers configured'')"
| "partitions_from ask (b # bs) lastErr =
     (case ask b of Inr ps \<Rightarrow> Inr ps | Inl e \<Rightarrow> partitions_from ask bs (Some e))"

definition partitions_of :: "(string \<Rightarrow> string \<Rightarrow> gerr + int list) \<Rightarrow> string list \<Rightarrow> string \<Rightarrow> gerr + int list" where
  "partitions_of ask brokers topic = partitions_from (\<lambda>b. ask b topic) brokers None"

text \<open>The readers, in the order in which they were started; \<open>active\<close> holds their keys.\<close>

type_synonym readers = "(string \<times> int) list"

definition active :: "readers \<Rightarrow> string set" where
  "active rs = (\<lambda>(t, p). offsetKey t p) ` set rs"

definition spawnReader :: "string \<Rightarrow> int \<Rightarrow> readers \<Rightarrow> readers" where
  "spawnReader topic p rs = (if offsetKey topic p \<in> active rs then rs else rs @ [(topic, p)])"

primrec spawn_all :: "string \<Rightarrow> int list \<Rightarrow> readers \<Rightarrow> readers" where
  "spawn_all topic [] rs = rs"
| "spawn_all topic (p # ps) rs = spawn_all topic ps (spawnReader topic p rs)"

text \<open>The loop over the topics: the readers and the errors of the topics that were skipped.\<close>

primrec subscribe_topics :: "consumer_config \<Rightarrow> bool \<Rightarrow> (string \<Rightarrow> gerr + int list) \<Rightarrow> string list \<Rightarrow> readers \<Rightarrow> gerr list \<Rightarrow>
    gerr + readers \<times> gerr list" where
  "subscribe_topics cc strict fetch [] rs errs = Inr (rs, errs)"
| "subscribe_topics cc strict fetch (t # ts) rs errs =
     (case fetch t of
        Inl e \<Rightarrow> (if strict then Inl (Wrap ''kafka: read partitions for topic'' e)
                  else subscribe_topics cc strict fetch ts rs (errs @ [Wrap t e]))
      | Inr parts \<Rightarrow> subscribe_topics cc strict fetch ts (spawn_all t (assignPartitions cc parts) rs) errs)"

text \<open>
  The directories of the dead letters and of the offsets may fail to be made; with an injected store
  of the progress no directory of offsets is made (\<open>None\<close>). Of the joined errors of all topics the
  first is kept.
\<close>

record subscription =
  sb_strict :: bool
  sb_dlq_dir :: "gerr option"
  sb_offset_dir :: "gerr option"
  sb_workers :: int

definition Subscribe :: "consumer_config \<Rightarrow> subscription \<Rightarrow> (string \<Rightarrow> gerr + int list) \<Rightarrow> string list \<Rightarrow> gerr + readers" where
  "Subscribe cc sb fetch topics =
     (if topics = [] then Inl (Sentinel ''kafka: empty topics'')
      else case (if cc_dlq_path cc = [] then None else sb_dlq_dir sb) of
        Some e \<Rightarrow> Inl (Wrap ''kafka: mkdir consumer dlq'' e)
      | None \<Rightarrow>
      (case sb_offset_dir sb of
        Some e \<Rightarrow> Inl (Wrap ''kafka: mkdir offset store'' e)
      | None \<Rightarrow>
      (case subscribe_topics cc (sb_strict sb) fetch topics [] [] of
        Inl e \<Rightarrow> Inl e
      | Inr (rs, errs) \<Rightarrow>
          (if rs \<noteq> [] then Inr rs
           else if errs \<noteq> [] then Inl (Wrap ''kafka: all topics failed partition fetch'' (hd errs))
           else Inl (Sentinel ''kafka: no partitions assigned to this instance'')))))"

text \<open>A round of the refresh: a topic that cannot be queried is skipped.\<close>

primrec refresh :: "consumer_config \<Rightarrow> (string \<Rightarrow> gerr + int list) \<Rightarrow> string list \<Rightarrow> readers \<Rightarrow> readers" where
  "refresh cc fetch [] rs = rs"
| "refresh cc fetch (t # ts) rs =
     refresh cc fetch ts (case fetch t of Inl e \<Rightarrow> rs | Inr parts \<Rightarrow> spawn_all t (assignPartitions cc parts) rs)"

definition poolSize :: "subscription \<Rightarrow> int" where
  "poolSize sb = maxInt (sb_workers sb) 8"

section \<open>The count of dead letters\<close>

text \<open>
  A file of the directory: its name and its lines (\<open>None\<close>: it cannot be opened). A line longer than
  the scanner's buffer ends the count with an error.
\<close>

definition countJSONLLines :: "string list option \<Rightarrow> gerr + int" where
  "countJSONLLines f = (case f of
      None \<Rightarrow> Inl (Fault ''open'')
    | Some ls \<Rightarrow>
        (if list_all (\<lambda>l. int (length l) < 8 * 2 ^ 20) ls
         then Inr (int (length (filter (\<lambda>l. TrimSpace l \<noteq> []) ls)))
         else Inl (Sentinel ''bufio.Scanner: token too long'')))"

definition dlq_suffix :: "string \<Rightarrow> string" where
  "dlq_suffix sfx = (if sfx = [] then ''.dlq'' else sfx) @ ''.jsonl''"

primrec initDLQBacklog :: "string \<Rightarrow> (string \<times> string list option) list \<Rightarrow> (string \<Rightarrow> int) \<Rightarrow> string \<Rightarrow> int" where
  "initDLQBacklog sfx [] b = b"
| "initDLQBacklog sfx (f # fs) b =
     (let base = fst f; topic = TrimSuffix base (dlq_suffix sfx) in
      initDLQBacklog sfx fs
        (if topic = [] \<or> topic = base then b
         else case countJSONLLines (snd f) of Inl e \<Rightarrow> b | Inr n \<Rightarrow> b(topic := n)))"

section \<open>The queue inside the process\<close>

text \<open>
  A queue for each topic that somebody subscribed to. \<open>dropped\<close> is what the metric counts: messages
  that found their queue full; \<open>unheard\<close> those whose topic nobody subscribed to. \<open>taken\<close> are the
  messages handed to the goroutines of a topic, in the order in which they were taken.
\<close>

record 'm memory_broker =
  queues :: "string \<rightharpoonup> 'm list"
  dropped :: "'m list"
  unheard :: "'m list"
  taken :: "string \<Rightarrow> 'm list"

definition newMemoryBroker :: "'m memory_broker" where
  "newMemoryBroker = \<lparr>queues = Map.empty, dropped = [], unheard = [], taken = (\<lambda>_. [])\<rparr>"

definition memoryCapacity :: nat where "memoryCapacity = 1024"

definition ensureTopic :: "string \<Rightarrow> 'm memory_broker \<Rightarrow> 'm memory_broker" where
  "ensureTopic t b = (case queues b t of Some q \<Rightarrow> b | None \<Rightarrow> b\<lparr>queues := (queues b)(t \<mapsto> [])\<rparr>)"

definition publish_memory :: "string \<Rightarrow> 'm \<Rightarrow> 'm memory_broker \<Rightarrow> 'm memory_broker" where
  "publish_memory t msg b =
     (case queues b t of
        None \<Rightarrow> b\<lparr>unheard := unheard b @ [msg]\<rparr>
      | Some q \<Rightarrow> (if length q < memoryCapacity then b\<lparr>queues := (queues b)(t \<mapsto> q @ [msg])\<rparr>
                  else b\<lparr>dropped := dropped b @ [msg]\<rparr>))"

definition memory_Send :: "(string \<rightharpoonup> string) \<Rightarrow> ('m \<Rightarrow> string) \<Rightarrow> 'm \<Rightarrow> 'm memory_broker \<Rightarrow> 'm memory_broker" where
  "memory_Send topics ty msg b = publish_memory (resolveTopic topics (ty msg)) msg b"

definition consumerConcurrencyOf :: "mq_config \<Rightarrow> int" where
  "consumerConcurrencyOf cfg = maxInt (mq_concurrency cfg) 1"

primrec memory_Subscribe :: "string list \<Rightarrow> 'm memory_broker \<Rightarrow> 'm memory_broker" where
  "memory_Subscribe [] b = b"
| "memory_Subscribe (t # ts) b = memory_Subscribe ts (ensureTopic t b)"

text \<open>A goroutine takes the next message of its topic and calls the handler with retries; a failure is final.\<close>

definition take_memory :: "string \<Rightarrow> 'm memory_broker \<Rightarrow> 'm option \<times> 'm memory_broker" where
  "take_memory t b = (case queues b t of
      Some (msg # rest) \<Rightarrow> (Some msg, b\<lparr>queues := (queues b)(t \<mapsto> rest), taken := (taken b)(t := taken b t @ [msg])\<rparr>)
    | _ \<Rightarrow> (None, b))"

definition memory_handle :: "mq_config \<Rightarrow> ('m, 'w) handler \<Rightarrow> 'm \<Rightarrow> (('w, 'z) worker_scheme, consume_result) io" where
  "memory_handle cfg h msg =
     (case consumerRetryOf cfg of (n, base, mx) \<Rightarrow>
        bind_io (attempt (retryProcess h msg n base mx)) (\<lambda>r.
          ret (case r of Inl e \<Rightarrow> ResultDLQ | Inr x \<Rightarrow> ResultProcessed)))"

inductive memory_run :: "(string \<times> 'm) list \<Rightarrow> 'm memory_broker \<Rightarrow> bool" where
  new: "memory_run [] newMemoryBroker"
| subscribe: "memory_run ms b \<Longrightarrow> memory_run ms (memory_Subscribe ts b)"
| send: "memory_run ms b \<Longrightarrow> memory_run ((t, msg) # ms) (publish_memory t msg b)"
| take: "memory_run ms b \<Longrightarrow> memory_run ms (snd (take_memory t b))"

section \<open>Readers\<close>

lemma active_iff: "offsetKey t p \<in> active rs \<longleftrightarrow> (t, p) \<in> set rs"
  by (auto simp: active_def)

lemma spawn_all_readers:
  "set (spawn_all t ps rs) = set rs \<union> Pair t ` set ps"
  "distinct rs \<Longrightarrow> distinct (spawn_all t ps rs)"
  by (induction ps arbitrary: rs; force simp: spawnReader_def active_iff)+

lemma spawn_extends: "\<exists>new. spawn_all t ps rs = rs @ new"
proof (induction ps arbitrary: rs)
  case (Cons p ps)
  obtain new where "spawnReader t p rs = rs @ new" by (cases "offsetKey t p \<in> active rs") (auto simp: spawnReader_def)
  then show ?case using Cons [of "rs @ new"] by auto
qed simp

definition assigned :: "consumer_config \<Rightarrow> (string \<Rightarrow> gerr + int list) \<Rightarrow> string set \<Rightarrow> (string \<times> int) set" where
  "assigned cc fetch ts = {(t, p). t \<in> ts \<and> (\<exists>ps. fetch t = Inr ps \<and> p \<in> set (assignPartitions cc ps))}"

lemma assigned_Cons:
  "assigned cc fetch (insert t ts) =
     (case fetch t of Inl e \<Rightarrow> {} | Inr ps \<Rightarrow> Pair t ` set (assignPartitions cc ps)) \<union> assigned cc fetch ts"
  by (auto simp: assigned_def split: sum.split)

lemma subscribe_topics_readers:
  assumes "subscribe_topics cc strict fetch ts rs errs = Inr (rs', errs')" and "distinct rs"
  shows "distinct rs' \<and> set rs' = set rs \<union> assigned cc fetch (set ts)"
  using assms
proof (induction ts arbitrary: rs errs)
  case Nil
  then show ?case by (simp add: assigned_def)
next
  case (Cons t ts)
  show ?case
  proof (cases "fetch t")
    case (Inl e)
    then show ?thesis using Cons by (auto simp: assigned_Cons split: if_splits)
  next
    case (Inr ps)
    then show ?thesis using Cons spawn_all_readers by (fastforce simp: assigned_Cons)
  qed
qed

lemma refresh_set: "set (refresh cc fetch ts rs) = set rs \<union> assigned cc fetch (set ts)"
proof (induction ts arbitrary: rs)
  case (Cons t ts)
  then show ?case by (auto simp: assigned_Cons spawn_all_readers(1) split: sum.split)
qed (simp add: assigned_def)

lemma refresh_distinct: "distinct rs \<Longrightarrow> distinct (refresh cc fetch ts rs)"
  by (induction ts arbitrary: rs) (auto simp: spawn_all_readers(2) split: sum.split)

lemma refresh_extends: "\<exists>new. refresh cc fetch ts rs = rs @ new"
proof (induction ts arbitrary: rs)
  case (Cons t ts)
  obtain new where "(case fetch t of Inl e \<Rightarrow> rs | Inr parts \<Rightarrow> spawn_all t (assignPartitions cc parts) rs) = rs @ new"
  proof (cases "fetch t")
    case (Inr ps)
    then show thesis using spawn_extends [of t "assignPartitions cc ps" rs] that by auto
  qed (use that [of "[]"] in simp)
  then show ?case using Cons [of "rs @ new"] by auto
qed simp

section \<open>Claims\<close>

text \<open>C26. A subscription that succeeds has exactly one reader for each partition the instance is assigned
of each topic that could be queried, and each round of the refresh keeps the readers that run and
adds exactly one for each partition that has appeared since.\<close>

theorem readers_are_the_assigned_partitions:
  assumes "Subscribe cc sb fetch topics = Inr rs"
  shows "distinct rs \<and> set rs = assigned cc fetch (set topics) \<and>
    (\<exists>new. refresh cc fetch' topics rs = rs @ new) \<and> distinct (refresh cc fetch' topics rs) \<and>
    set (refresh cc fetch' topics rs) = set rs \<union> assigned cc fetch' (set topics)"
proof -
  obtain errs where "subscribe_topics cc (sb_strict sb) fetch topics [] [] = Inr (rs, errs)"
    using assms by (auto simp: Subscribe_def split: if_splits option.splits sum.splits)
  from subscribe_topics_readers [OF this] have "distinct rs" "set rs = assigned cc fetch (set topics)" by simp_all
  then show ?thesis using refresh_set refresh_distinct refresh_extends by blast
qed

definition two_topics :: "string \<Rightarrow> gerr + int list" where
  "two_topics t = (if t = ''a'' then Inr [0, 1, 2] else if t = ''b'' then Inr [0] else Inl (Fault ''dial''))"

definition lenient :: subscription where
  "lenient = \<lparr>sb_strict = False, sb_dlq_dir = None, sb_offset_dir = None, sb_workers = 4\<rparr>"

theorem readers_are_the_assigned_partitions_witness:
  "set (refresh (sample_config False) two_topics [''a'', ''c'', ''b''] [(''a'', 0), (''a'', 1), (''a'', 2), (''b'', 0)]) =
     set [(''a'', 0), (''a'', 1), (''a'', 2), (''b'', 0)] \<union> assigned (sample_config False) two_topics (set [''a'', ''c'', ''b''])"
proof -
  have "Subscribe (sample_config False) lenient two_topics [''a'', ''c'', ''b''] = Inr [(''a'', 0), (''a'', 1), (''a'', 2), (''b'', 0)]"
    by (simp add: Subscribe_def lenient_def two_topics_def assignPartitions_def sample_config_def Let_def spawnReader_def active_iff)
  from readers_are_the_assigned_partitions [OF this] show ?thesis by blast
qed

text \<open>The readers of an instance; a subscription that fails has none.\<close>

definition readers_of :: "gerr + readers \<Rightarrow> readers" where
  "readers_of r = (case r of Inl e \<Rightarrow> [] | Inr rs \<Rightarrow> rs)"

lemma lenient_topics:
  "\<exists>rs' errs'. subscribe_topics cc False fetch ts rs errs = Inr (rs', errs')"
  by (induction ts arbitrary: rs errs) (auto split: sum.split)

lemma readers_of_lenient:
  assumes "\<not> sb_strict sb" and "sb_dlq_dir sb = None" and "sb_offset_dir sb = None" and "topics \<noteq> []"
  shows "set (readers_of (Subscribe cc sb fetch topics)) = assigned cc fetch (set topics)"
proof -
  obtain rs errs where s: "subscribe_topics cc False fetch topics [] [] = Inr (rs, errs)"
    using lenient_topics by blast
  then have "set rs = assigned cc fetch (set topics)" using subscribe_topics_readers by fastforce
  then show ?thesis using s assms by (auto simp: Subscribe_def readers_of_def)
qed

text \<open>Instances that are numbered from 0 up to the configured number of them share the log: every
partition of every topic is read by exactly one instance.\<close>

theorem instances_cover_the_log:
  assumes "1 < cc_instances cc" and "topic \<in> set topics" and "fetch topic = Inr parts" and "p \<in> set parts" and "0 \<le> p"
    and "\<not> sb_strict sb" and "sb_dlq_dir sb = None" and "sb_offset_dir sb = None"
  shows "\<exists>!i. 0 \<le> i \<and> i < cc_instances cc \<and>
    (topic, p) \<in> set (readers_of (Subscribe (cc\<lparr>cc_instance := i\<rparr>) sb fetch topics))"
proof -
  have "topics \<noteq> []" using assms(2) by auto
  then have r: "(topic, p) \<in> set (readers_of (Subscribe (cc\<lparr>cc_instance := i\<rparr>) sb fetch topics)) \<longleftrightarrow>
      p \<in> set (assignPartitions (cc\<lparr>cc_instance := i\<rparr>) parts)" for i
    using readers_of_lenient [OF assms(6-8)] assms(2,3) by (simp add: assigned_def)
  show ?thesis unfolding r using one_instance_each [OF assms(1,4,5)] .
qed

theorem instances_cover_the_log_witness:
  "\<exists>!i. 0 \<le> i \<and> i < 3 \<and>
     (''a'', 2) \<in> set (readers_of (Subscribe ((sample_config False)\<lparr>cc_instances := 3, cc_instance := i\<rparr>) lenient two_topics [''a'', ''c'']))"
  using instances_cover_the_log [of "(sample_config False)\<lparr>cc_instances := 3\<rparr>" "''a''" "[''a'', ''c'']" two_topics "[0, 1, 2]" 2 lenient]
  by (simp add: two_topics_def lenient_def)

text \<open>A queue that the configuration enables is a real one, for producers and consumers alike, and one
it does not enable is the empty one; when a consumer can be made it is of the producer's kind.\<close>

theorem enabled_queues_are_real:
  "(IsEnabled cfg \<longleftrightarrow> NewProducer cfg \<noteq> Nop) \<and>
   (case NewConsumer cfg of Inr k \<Rightarrow> k = NewProducer cfg | Inl e \<Rightarrow> IsEnabled cfg)"
  by (simp add: IsEnabled_def NewProducer_def NewConsumer_def NewKafkaConsumer_def)

text \<open>Outside Kafka a consumer always repeats with a number, a delay and a maximum that are not zero;
what is configured is used as it stands.\<close>

theorem retries_have_defaults:
  assumes "\<not> EqualFold (TrimSpace (mq_type cfg)) ''kafka''"
  shows "case consumerRetryOf cfg of (n, base, mx) \<Rightarrow> n \<noteq> 0 \<and> base \<noteq> 0 \<and> mx \<noteq> 0 \<and>
    (fst (mq_retry cfg) \<noteq> 0 \<longrightarrow> n = fst (mq_retry cfg))"
  using assms by (auto simp: consumerRetryOf_def second_def split: prod.split)

definition memory_config :: mq_config where
  "memory_config = \<lparr>mq_type = '' Memory'', mq_brokers = [], mq_rabbit_url = [], mq_endpoints = [], mq_group = [], mq_kafka_group = [],
     mq_kafka_mode = [], mq_kafka_retry = (0, 0, 0), mq_retry = (0, second, 0), mq_concurrency = 0\<rparr>"

theorem retries_have_defaults_witness:
  "fst (consumerRetryOf memory_config) \<noteq> 0"
proof -
  have "\<not> EqualFold (TrimSpace (mq_type memory_config)) ''kafka''" by code_simp
  from retries_have_defaults [OF this] show ?thesis by (simp split: prod.splits)
qed

section \<open>Dead letters and their count\<close>

text \<open>The directory of the dead letters of the topics \<open>ts\<close>: one line for each letter.\<close>

definition letters_dir :: "string \<Rightarrow> (string \<Rightarrow> ('m kafka_message \<times> gerr) list) \<Rightarrow> ('m kafka_message \<times> gerr \<Rightarrow> string) \<Rightarrow>
    string list \<Rightarrow> (string \<times> string list option) list" where
  "letters_dir sfx dlq line ts = map (\<lambda>t. (t @ dlq_suffix sfx, Some (map line (dlq t)))) ts"

definition is_line :: "('x \<Rightarrow> string) \<Rightarrow> bool" where
  "is_line line \<longleftrightarrow> (\<forall>x. TrimSpace (line x) \<noteq> [] \<and> int (length (line x)) < 8 * 2 ^ 20)"

lemma backlog_of_dir:
  assumes "is_line line" and "[] \<notin> set ts"
  shows "initDLQBacklog sfx (letters_dir sfx dlq line ts) b t = (if t \<in> set ts then int (length (dlq t)) else b t)"
  using assms(2)
proof (induction ts arbitrary: b)
  case Nil
  then show ?case by (simp add: letters_dir_def)
next
  case (Cons u ts)
  have "countJSONLLines (Some (map line (dlq u))) = Inr (int (length (dlq u)))"
  proof -
    have "TrimSpace (line x) \<noteq> []" "int (length (line x)) < 8 * 2 ^ 20" for x
      using assms(1) unfolding is_line_def by blast+
    then have "filter (\<lambda>l. TrimSpace l \<noteq> []) (map line (dlq u)) = map line (dlq u)"
      and "list_all (\<lambda>l. int (length l) < 8 * 2 ^ 20) (map line (dlq u))"
      by (simp_all only: filter_map comp_def list_all_iff) auto
    then show ?thesis by (simp only: countJSONLLines_def option.case if_True length_map)
  qed
  moreover have "dlq_suffix sfx \<noteq> []" by (simp add: dlq_suffix_def)
  moreover have "u \<noteq> []" "[] \<notin> set ts" using Cons.prems by auto
  ultimately show ?case using Cons.IH by (simp add: letters_dir_def Let_def)
qed

definition gauge_exact :: "('m, 'w, 's) consumer \<Rightarrow> bool" where
  "gauge_exact c \<longleftrightarrow> (\<forall>t. dlq_backlog c t = int (length (dlq_file c t)))"

definition keeps_gauge :: "('m, 'w, 's) consumer \<Rightarrow> ('m, 'w, 's) consumer \<Rightarrow> bool" where
  "keeps_gauge c c' \<longleftrightarrow> (gauge_exact c \<longrightarrow> gauge_exact c')"

interpretation gauge: two_state keeps_gauge
  by unfold_locales (auto simp: keeps_gauge_def)

lemma gauge_same:
  assumes "\<And>c. dlq_backlog (snd (m c)) = dlq_backlog c \<and> dlq_file (snd (m c)) = dlq_file c"
  shows "evolves keeps_gauge m"
  using assms by (simp add: evolves_def keeps_gauge_def gauge_exact_def)

lemma gauge_appendDLQ: "evolves keeps_gauge (appendDLQ cc m e :: (('m, 'w, 's) consumer, unit) io)"
proof -
  have call: "evolves keeps_gauge (file_call name f)" if f: "evolves keeps_gauge f" for name and f :: "(('m, 'w, 's) consumer, 'a) io"
  proof (rule evolvesI)
    fix c :: "('m, 'w, 's) consumer"
    have "keeps_gauge c (snd (f c))" "keeps_gauge (c\<lparr>file_faults := bs\<rparr>) (snd (f (c\<lparr>file_faults := bs\<rparr>)))" for bs
      using f by (simp_all add: evolves_def)
    then show "keeps_gauge c (snd (file_call name f c))"
      by (auto simp: file_call_def keeps_gauge_def gauge_exact_def split: list.split)
  qed
  have add: "evolves keeps_gauge (modify_io (\<lambda>c. c\<lparr>dlq_file := (dlq_file c)(t := dlq_file c t @ [x]),
      dlq_backlog := (dlq_backlog c)(t := dlq_backlog c t + 1)\<rparr>) :: (('m, 'w, 's) consumer, unit) io)"
    for t and x :: "'m kafka_message \<times> gerr"
    by (auto simp: evolves_def modify_io_def keeps_gauge_def gauge_exact_def)
  show ?thesis unfolding appendDLQ_def by (intro gauge.ev_rules call add)
qed

lemma gauge_retry: "evolves keeps_gauge (retryProcess h msg n b x)"
proof -
  have call: "evolves keeps_gauge (callHandlerSafe h msg)"
    by (rule gauge_same) (simp add: callHandlerSafe_def split: prod.split)
  have sleep: "evolves keeps_gauge (sleepWithContext d)" for d
    by (rule gauge_same) (simp add: sleepWithContext_def modify_io_def after_sleep_def)
  have "evolves keeps_gauge (retry_from h msg mx k d e)" for mx k d e
    by (induction k arbitrary: d e) (auto simp: retry_from.simps(2) intro!: gauge.ev_rules call sleep)
  then show ?thesis unfolding retryProcess_def by (intro gauge.ev_rules call)
qed

lemma gauge_handle:
  "evolves keeps_gauge (handle ops cc h m :: (('m, 'w, 's) consumer, consume_result) io)"
proof -
  have store: "evolves keeps_gauge (in_store f :: (('m, 'w, 's) consumer, 'a) io)" for f :: "('s, 'a) io"
    by (rule gauge_same) (simp add: in_store_def split: prod.split)
  show ?thesis
    unfolding handle_def deliver_def process_def commitOffset_def
    by (intro gauge.ev_rules store gauge_appendDLQ gauge_retry)
qed

text \<open>The gauge of dead letters always shows the length of the file of its topic: the count at the
start takes it over from the files, and handling a message, whatever becomes of it and whichever
writes fail, keeps it.\<close>

theorem dead_letter_gauge_is_exact:
  assumes "is_line line" and "[] \<notin> set ts" and "\<forall>t. t \<notin> set ts \<longrightarrow> dlq_file c t = []"
  shows "gauge_exact (snd (handle ops cc h m
    (c\<lparr>dlq_backlog := initDLQBacklog sfx (letters_dir sfx (dlq_file c) line ts) (\<lambda>_. 0)\<rparr>)))"
proof -
  let ?c = "c\<lparr>dlq_backlog := initDLQBacklog sfx (letters_dir sfx (dlq_file c) line ts) (\<lambda>_. 0)\<rparr>"
  have "gauge_exact ?c" using assms(3) by (simp add: gauge_exact_def backlog_of_dir [OF assms(1,2)])
  then show ?thesis using gauge_handle [of ops cc h m] by (simp add: evolves_def keeps_gauge_def)
qed

theorem dead_letter_gauge_is_exact_witness:
  "gauge_exact (snd (handle file_ops (sample_config True) counting (record_at two_records ''t'' 0 0)
     ((quiet_consumer empty_file)\<lparr>dlq_backlog := initDLQBacklog [] (letters_dir [] (dlq_file (quiet_consumer empty_file)) (\<lambda>x. ''x'') [''t'']) (\<lambda>_. 0)\<rparr>)))"
proof -
  have "is_line (\<lambda>x :: string kafka_message \<times> gerr. ''x'')"
    by (simp add: is_line_def TrimSpace_def is_space_def)
  from dead_letter_gauge_is_exact [OF this, of "[''t'']" "quiet_consumer empty_file" file_ops "sample_config True" counting
      "record_at two_records ''t'' 0 0" "[]"] show ?thesis
    by (simp add: quiet_consumer_def)
qed

section \<open>The queue inside the process delivers in order, at most once\<close>

definition sent_to :: "string \<Rightarrow> (string \<times> 'm) list \<Rightarrow> 'm list" where
  "sent_to t ms = map snd (filter (\<lambda>x. fst x = t) (rev ms))"

definition waiting :: "string \<Rightarrow> 'm memory_broker \<Rightarrow> 'm list" where
  "waiting t b = (case queues b t of None \<Rightarrow> [] | Some q \<Rightarrow> q)"

lemma sent_to_Cons [simp]: "sent_to t ((u, msg) # ms) = sent_to t ms @ (if u = t then [msg] else [])"
  by (simp add: sent_to_def)

lemma subscribe_memory_keeps:
  "waiting t (memory_Subscribe ts b) = waiting t b \<and> taken (memory_Subscribe ts b) = taken b"
  by (induction ts arbitrary: b) (auto simp: ensureTopic_def waiting_def split: option.split)

text \<open>The queue inside the process hands out each message at most once and in the order in which the
messages of its topic were sent, and never holds more than 1024 of a topic, however sends,
subscriptions and the goroutines of the topics interleave.\<close>

theorem memory_queue_is_ordered:
  assumes "memory_run ms b"
  shows "subseq (taken b t @ waiting t b) (sent_to t ms) \<and> length (waiting t b) \<le> memoryCapacity"
  using assms
proof induction
  case new
  then show ?case by (simp add: newMemoryBroker_def waiting_def sent_to_def)
next
  case (subscribe ms b ts)
  then show ?case by (simp add: subscribe_memory_keeps)
next
  case (send ms b u msg)
  then show ?case
    by (auto simp: publish_memory_def waiting_def split: option.split intro: list_emb_append_mono
        simp flip: append_assoc)
next
  case (take ms b u)
  then show ?case
    by (auto simp: take_memory_def waiting_def split: option.split list.split)
qed

theorem memory_queue_is_ordered_witness:
  "subseq (taken (snd (take_memory ''t'' (publish_memory ''t'' 2 (publish_memory ''t'' (1 :: nat) (memory_Subscribe [''t''] newMemoryBroker))))) ''t'' @
      waiting ''t'' (snd (take_memory ''t'' (publish_memory ''t'' 2 (publish_memory ''t'' 1 (memory_Subscribe [''t''] newMemoryBroker))))))
     [1, 2]"
proof -
  have "memory_run [(''t'', 2), (''t'', 1)]
      (snd (take_memory ''t'' (publish_memory ''t'' 2 (publish_memory ''t'' (1 :: nat) (memory_Subscribe [''t''] newMemoryBroker)))))"
    by (intro memory_run.intros)
  from memory_queue_is_ordered [OF this, of "''t''"] show ?thesis by (simp add: sent_to_def)
qed

end
