(* ===== verification/GoInts.thy ===== *)
theory GoInts
  imports Prelude GoText
begin

text \<open>
  Decimal numbers as the package \<open>strconv\<close> writes and reads them: \<open>Itoa\<close>, \<open>Atoi\<close> and \<open>ParseInt\<close> in
  base 10 with 64 bits. Reading gives an error for a text that is not a number or out of range.
\<close>

fun digits :: "nat \<Rightarrow> string" where
  "digits n = (if n < 10 then [char_of (48 + n)] else digits (n div 10) @ [char_of (48 + n mod 10)])"

declare digits.simps [simp del]

definition Itoa :: "int \<Rightarrow> string" where
  "Itoa n = (if n < 0 then CHR ''-'' # digits (nat (- n)) else digits (nat n))"

definition is_digit :: "char \<Rightarrow> bool" where
  "is_digit c = between 48 57 c"

definition number_of :: "string \<Rightarrow> nat" where
  "number_of s = foldl (\<lambda>n c. 10 * n + (of_char c - 48)) 0 s"

definition unsigned :: "string \<Rightarrow> nat option" where
  "unsigned s = (if s \<noteq> [] \<and> list_all is_digit s then Some (number_of s) else None)"

definition Atoi :: "string \<Rightarrow> gerr + int" where
  "Atoi s =
     (let (neg, t) = (case s of [] \<Rightarrow> (False, []) | c # r \<Rightarrow> if c = CHR ''-'' then (True, r) else if c = CHR ''+'' then (False, r) else (False, s))
      in case unsigned t of
           None \<Rightarrow> Inl (Sentinel ''invalid syntax'')
         | Some n \<Rightarrow> (let v = (if neg then - int n else int n) in
             if in_int64 v then Inr v else Inl (Sentinel ''value out of range'')))"

lemma number_of_append [simp]: "number_of (s @ [c]) = 10 * number_of s + (of_char c - 48)"
  by (simp add: number_of_def)

lemma is_digit_char: "n < 10 \<Longrightarrow> is_digit (char_of (48 + n :: nat))"
  by (simp add: is_digit_def between_def)

lemma digits_read: "digits n \<noteq> [] \<and> list_all is_digit (digits n) \<and> number_of (digits n) = n"
proof (induction n rule: digits.induct)
  case (1 n)
  show ?case
  proof (cases "n < 10")
    case True
    then show ?thesis by (simp add: digits.simps [of n] is_digit_char number_of_def)
  next
    case False
    then show ?thesis using 1 by (simp add: digits.simps [of n] is_digit_char)
  qed
qed

lemma sign_is_no_digit: "list_all is_digit (c # s) \<Longrightarrow> c \<noteq> CHR ''-'' \<and> c \<noteq> CHR ''+''"
  by (auto simp: is_digit_def between_def)

lemma Atoi_Itoa: "in_int64 n \<Longrightarrow> Atoi (Itoa n) = Inr n"
proof (cases "n < 0")
  case True
  then show "in_int64 n \<Longrightarrow> ?thesis" using digits_read [of "nat (- n)"] by (simp add: Atoi_def Itoa_def unsigned_def)
next
  case False
  obtain c r where cr: "digits (nat n) = c # r" using digits_read [of "nat n"] by (cases "digits (nat n)") auto
  then have "c \<noteq> CHR ''-'' \<and> c \<noteq> CHR ''+''" using digits_read [of "nat n"] sign_is_no_digit [of c r] by simp
  then show "in_int64 n \<Longrightarrow> ?thesis" using digits_read [of "nat n"] False cr by (simp add: Atoi_def Itoa_def unsigned_def)
qed

text \<open>What is read lies in the range, so no number that a client sends overflows.\<close>

lemma Atoi_range: "Atoi s = Inr n \<Longrightarrow> in_int64 n"
  by (auto simp: Atoi_def Let_def split: prod.splits option.splits if_splits)

end
