(* ===== verification/Http.thy ===== *)
theory Http
  imports Token GoInts
begin

text \<open>
  Requests, answers and the handler chain of the HTTP server: \<open>pkg/response/response.go\<close> and the
  middlewares of \<open>internal/middleware\<close> that keep no state (\<open>timeout.go\<close>, \<open>admin.go\<close>, \<open>cors.go\<close>,
  \<open>auth.go\<close>, the recovery of \<open>trace.go\<close>). The router and the writer of answers are those of gin.
\<close>

section \<open>Running programs\<close>

lemma run_gets: "bind_io (gets_io f) k x = k (f x) x"
  by (simp add: bind_io_def gets_io_def)

lemma run_modify: "then_io (modify_io f) m x = m (f x)"
  by (simp add: then_io_def bind_io_def modify_io_def)

lemma run_then: "fst (m x) = Inr u \<Longrightarrow> then_io m k x = k (snd (m x))"
  by (cases "m x") (simp add: then_io_def bind_io_def)

lemma run_ret: "then_io (ret u) m = m"
  by (simp add: then_io_def)

lemma run_assoc: "then_io (then_io a b) c = then_io a (then_io b c)"
  by (simp add: then_io_def bind_io_assoc)

lemmas run_simps = run_gets run_modify run_ret run_assoc bind_io_ret

section \<open>An exchange\<close>

text \<open>
  \<open>rq_header\<close> is empty for a header that is missing, \<open>rq_param\<close> for a parameter of the path that is;
  \<open>rq_body\<close> gives the fields of a JSON object, \<open>None\<close> for any other body; \<open>rq_gone\<close> is the instant at which
  the client went away.
\<close>

datatype json = JNull | JString string | JInt int | JOther

record request =
  rq_method :: string
  rq_path :: string
  rq_route :: string
  rq_ip :: string
  rq_header :: "string \<Rightarrow> string"
  rq_query :: "string \<Rightarrow> string option"
  rq_param :: "string \<Rightarrow> string"
  rq_body :: "(string \<rightharpoonup> json) option"
  rq_gone :: "instant option"

text \<open>A body: the code, the custom message (\<open>None\<close>: the message of the code) and the data.\<close>

record 'd body =
  bd_code :: int
  bd_message :: "string option"
  bd_data :: "'d option"

text \<open>
  The state of an exchange. The status is fixed by the first write; what is written later is
  appended to the answer. \<open>user_id\<close> is the key of that name in gin's context, empty when unset.
\<close>

record 'd exchange =
  req :: request
  status :: int
  written :: bool
  bodies :: "'d body list"
  headers :: "(string \<times> string) list"
  aborted :: bool
  user_id :: string
  clock :: instant

text \<open>A handler that panics ends with an error; a middleware gets the handlers that follow it.\<close>

type_synonym ('d, 'z) app = "(('d, 'z) exchange_scheme, unit) io"
type_synonym ('d, 'z) middleware = "('d, 'z) app \<Rightarrow> ('d, 'z) app"

definition fresh_exchange :: "request \<Rightarrow> instant \<Rightarrow> 'd exchange" where
  "fresh_exchange rq t = \<lparr>req = rq, status = 200, written = False, bodies = [], headers = [],
     aborted = False, user_id = [], clock = t\<rparr>"

section \<open>Writing answers\<close>

definition write_header :: "int \<Rightarrow> ('d, 'z) app" where
  "write_header n = modify_io (\<lambda>x. if written x then x else x\<lparr>status := n\<rparr>)"

definition JSON :: "int \<Rightarrow> 'd body \<Rightarrow> ('d, 'z) app" where
  "JSON n b = then_io (write_header n) (modify_io (\<lambda>x. x\<lparr>written := True, bodies := bodies x @ [b]\<rparr>))"

definition Abort :: "('d, 'z) app" where
  "Abort = modify_io (\<lambda>x. x\<lparr>aborted := True\<rparr>)"

definition AbortWithStatus :: "int \<Rightarrow> ('d, 'z) app" where
  "AbortWithStatus n = then_io (write_header n) (then_io (modify_io (\<lambda>x. x\<lparr>written := True\<rparr>)) Abort)"

definition Header :: "string \<Rightarrow> string \<Rightarrow> ('d, 'z) app" where
  "Header k v = modify_io (\<lambda>x. x\<lparr>headers := filter (\<lambda>h. fst h \<noteq> k) (headers x) @ [(k, v)]\<rparr>)"

definition resolveMsg :: "string option \<Rightarrow> string option" where
  "resolveMsg m = (case m of Some s \<Rightarrow> if s \<noteq> [] then Some s else None | None \<Rightarrow> None)"

definition Success :: "'d \<Rightarrow> ('d, 'z) app" where
  "Success d = JSON 200 \<lparr>bd_code = 0, bd_message = None, bd_data = Some d\<rparr>"

definition Error :: "int \<Rightarrow> string option \<Rightarrow> ('d, 'z) app" where
  "Error n m = JSON 200 \<lparr>bd_code = n, bd_message = resolveMsg m, bd_data = None\<rparr>"

definition ErrorWithHTTPStatus :: "int \<Rightarrow> int \<Rightarrow> string option \<Rightarrow> ('d, 'z) app" where
  "ErrorWithHTTPStatus s n m = JSON s \<lparr>bd_code = n, bd_message = resolveMsg m, bd_data = None\<rparr>"

definition RateLimited :: "int \<Rightarrow> ('d, 'z) app" where
  "RateLimited retryAfter = then_io (Header ''Retry-After'' (Itoa retryAfter)) (ErrorWithHTTPStatus 429 10601 None)"

definition ServiceUnavailable :: "int \<Rightarrow> ('d, 'z) app" where
  "ServiceUnavailable n = ErrorWithHTTPStatus 503 n None"

definition BadRequest :: "string \<Rightarrow> ('d, 'z) app" where
  "BadRequest m = ErrorWithHTTPStatus 400 10001 (Some m)"

definition Unauthorized :: "int \<Rightarrow> ('d, 'z) app" where
  "Unauthorized n = ErrorWithHTTPStatus 401 n None"

definition Forbidden :: "int \<Rightarrow> ('d, 'z) app" where
  "Forbidden n = ErrorWithHTTPStatus 403 n None"

lemma aborted_answer [simp]: "aborted (snd (then_io (ErrorWithHTTPStatus n c m) Abort x))"
  by (simp add: ErrorWithHTTPStatus_def JSON_def write_header_def Abort_def then_io_def bind_io_def modify_io_def)

lemma aborted_error [simp]: "aborted (snd (then_io (Error c m) Abort x))"
  by (simp add: Error_def JSON_def write_header_def Abort_def then_io_def bind_io_def modify_io_def)

section \<open>Middlewares without state\<close>

definition Recovery :: "('d, 'z) middleware" where
  "Recovery next =
     bind_io (attempt next) (\<lambda>r.
       case r of
         Inr u \<Rightarrow> ret ()
       | Inl e \<Rightarrow> then_io Abort (JSON 500 \<lparr>bd_code = 10003, bd_message = Some ''internal server error'', bd_data = None\<rparr>))"

definition defaultRequestTimeout :: duration where
  "defaultRequestTimeout = 10 * second"

text \<open>\<open>ctx.Err() == context.DeadlineExceeded\<close>: the deadline is over and the client had not gone before it.\<close>

definition deadline_exceeded :: "instant \<Rightarrow> ('d, 'z) exchange_scheme \<Rightarrow> bool" where
  "deadline_exceeded t x \<longleftrightarrow> t \<le> clock x \<and> (case rq_gone (req x) of None \<Rightarrow> True | Some g \<Rightarrow> t \<le> g)"

definition Timeout :: "duration \<Rightarrow> ('d, 'z) middleware" where
  "Timeout limit next =
     (let d = (if limit \<le> 0 then defaultRequestTimeout else limit) in
      bind_io (gets_io (\<lambda>x. clock x + d)) (\<lambda>deadline.
      then_io next
      (bind_io (gets_io (\<lambda>x. deadline_exceeded deadline x \<and> \<not> written x)) (\<lambda>late.
        when_io late (ErrorWithHTTPStatus 504 10004 None)))))"

definition AdminToken :: "string \<Rightarrow> ('d, 'z) middleware" where
  "AdminToken token next =
     (if token = [] then then_io (Forbidden 10103) Abort
      else bind_io (gets_io (\<lambda>x. rq_header (req x) ''X-Admin-Token'')) (\<lambda>h.
        if h \<noteq> token then then_io (Forbidden 10103) Abort else next))"

definition CORS :: "string list \<Rightarrow> ('d, 'z) middleware" where
  "CORS origins next =
     bind_io (gets_io (\<lambda>x. (rq_header (req x) ''Origin'', rq_method (req x)))) (\<lambda>(origin, verb).
       if origin = [] then next
       else if \<not> list_ex (\<lambda>a. a = ''*'' \<or> a = origin) origins then AbortWithStatus 403
       else then_io (Header ''Access-Control-Allow-Origin'' origin)
           (then_io (Header ''Access-Control-Allow-Methods'' ''GET,POST,PUT,DELETE,OPTIONS'')
           (then_io (Header ''Access-Control-Allow-Headers'' ''Authorization,Content-Type,X-Trace-Id'')
           (then_io (Header ''Access-Control-Expose-Headers''
               ''X-Trace-Id,X-RateLimit-Limit,X-RateLimit-Remaining,X-RateLimit-Reset'')
           (then_io (Header ''Access-Control-Max-Age'' ''3600'')
           (then_io (Header ''Content-Security-Policy'' (''default-src '' @ CHR 0x27 # ''self'' @ [CHR 0x27]))
           (if verb = ''OPTIONS'' then AbortWithStatus 204 else next)))))))"

text \<open>
  The authentication of theory \<open>Token\<close> in the chain: a rejected request is answered and ended, else
  the user is put in the context. \<open>check\<close> runs it on the state that holds the blacklist.
\<close>

definition AuthMW :: "(string \<Rightarrow> (('d, 'z) exchange_scheme, auth_outcome) io) \<Rightarrow> ('d, 'z) middleware" where
  "AuthMW check next =
     bind_io (gets_io (\<lambda>x. rq_header (req x) ''Authorization'')) (\<lambda>h.
     bind_io (check h) (\<lambda>outcome.
       case outcome of
         Rejected n \<Rightarrow> then_io (Unauthorized n) Abort
       | Anonymous \<Rightarrow> then_io (modify_io (\<lambda>x. x\<lparr>user_id := ''anonymous''\<rparr>)) next
       | Authenticated s \<Rightarrow> then_io (modify_io (\<lambda>x. x\<lparr>user_id := se_user s\<rparr>)) next))"

end
