(* ===== verification/Admission.thy ===== *)
theory Admission
  imports Http "HOL-Library.Multiset"
begin

text \<open>
  The two bounds on the load of a process: connections at the listener
  (\<open>internal/bootstrap/connlimit.go\<close>) and requests in flight (\<open>internal/middleware/concurrency.go\<close>).
  Both are gates in the sense of one contract, from which the bounds follow for every interleaving.
\<close>

section \<open>Gates\<close>

text \<open>Entering gives the new state, or \<open>None\<close> when it is refused. \<open>gate_run\<close> collects who is inside.\<close>

inductive gate_run :: "('k \<Rightarrow> 's \<Rightarrow> 's option) \<Rightarrow> ('k \<Rightarrow> 's \<Rightarrow> 's) \<Rightarrow> 's \<Rightarrow> 'k multiset \<Rightarrow> 's \<Rightarrow> bool"
  for enter leave s0 where
  start: "gate_run enter leave s0 {#} s0"
| enter: "gate_run enter leave s0 M s \<Longrightarrow> enter k s = Some s' \<Longrightarrow> gate_run enter leave s0 (add_mset k M) s'"
| leave: "gate_run enter leave s0 M s \<Longrightarrow> k \<in># M \<Longrightarrow> gate_run enter leave s0 (M - {#k#}) (leave k s)"

locale gate =
  fixes enter :: "'k \<Rightarrow> 's \<Rightarrow> 's option" and leave :: "'k \<Rightarrow> 's \<Rightarrow> 's" and s0 :: 's
    and rep :: "'s \<Rightarrow> 'k multiset \<Rightarrow> bool" and allowed :: "'k multiset \<Rightarrow> bool"
  assumes rep_start: "rep s0 {#}"
    and rep_enter: "rep s M \<Longrightarrow> enter k s = Some s' \<Longrightarrow> rep s' (add_mset k M)"
    and enter_iff: "rep s M \<Longrightarrow> enter k s = None \<longleftrightarrow> \<not> allowed (add_mset k M)"
    and rep_leave: "rep s M \<Longrightarrow> k \<in># M \<Longrightarrow> rep (leave k s) (M - {#k#})"
    and allowed_empty: "allowed {#}"
    and allowed_less: "allowed (add_mset k M) \<Longrightarrow> allowed M"
begin

lemma run_rep: "gate_run enter leave s0 M s \<Longrightarrow> rep s M"
  by (induction rule: gate_run.induct) (auto intro: rep_start rep_enter rep_leave)

lemma run_allowed: "gate_run enter leave s0 M s \<Longrightarrow> allowed M"
proof (induction rule: gate_run.induct)
  case (enter M s k s')
  then show ?case using enter_iff [OF run_rep [OF enter.hyps(1)], of k] by simp
next
  case (leave M s k)
  then show ?case using allowed_less [of k "M - {#k#}"] by simp
qed (rule allowed_empty)

lemma run_admits: "gate_run enter leave s0 M s \<Longrightarrow> enter k s \<noteq> None \<longleftrightarrow> allowed (add_mset k M)"
  by (metis enter_iff run_rep)

end

section \<open>Connections\<close>

text \<open>
  \<open>held\<close> is the filling of the channel that bounds all connections (unused when there is no bound),
  \<open>per_ip\<close> the connections of an address.
\<close>

record conn_listener =
  max_conns :: int
  max_per_ip :: int
  held :: int
  per_ip :: "string \<rightharpoonup> int"

definition newConnLimitListener :: "int \<Rightarrow> int \<Rightarrow> conn_listener" where
  "newConnLimitListener m n = \<lparr>max_conns = m, max_per_ip = n, held = 0, per_ip = Map.empty\<rparr>"

text \<open>\<open>net.SplitHostPort\<close>: the host of \<open>host:port\<close> or \<open>[host]:port\<close>, if the text has such a form.\<close>

definition SplitHost :: "string \<Rightarrow> string option" where
  "SplitHost s =
     (let port = takeWhile (\<lambda>c. c \<noteq> CHR '':'') (rev s); front = drop (Suc (length port)) (rev s); before = rev front in
      if CHR '':'' \<notin> set s then None
      else if s \<noteq> [] \<and> hd s = CHR ''['' then
        (let host = takeWhile (\<lambda>c. c \<noteq> CHR '']'') (tl s) in
         if before = CHR ''['' # host @ [CHR '']''] \<and> CHR ''['' \<notin> set (host @ port) \<and> CHR '']'' \<notin> set port then Some host else None)
      else if CHR '':'' \<in> set before \<or> CHR ''['' \<in> set s \<or> CHR '']'' \<in> set s then None
      else Some before)"

definition clientIP :: "string option \<Rightarrow> string" where
  "clientIP addr = (case addr of None \<Rightarrow> [] | Some s \<Rightarrow> (case SplitHost s of None \<Rightarrow> s | Some h \<Rightarrow> h))"

definition conns_of :: "conn_listener \<Rightarrow> string \<Rightarrow> int" where
  "conns_of l ip = (case per_ip l ip of None \<Rightarrow> 0 | Some n \<Rightarrow> n)"

text \<open>The checks of a new connection: whether it stays, and the counts.\<close>

definition admit_conn :: "string \<Rightarrow> conn_listener \<Rightarrow> bool \<times> conn_listener" where
  "admit_conn ip l =
     (if max_conns l > 0 \<and> \<not> held l < max_conns l then (False, l)
      else let l1 = (if max_conns l > 0 then l\<lparr>held := held l + 1\<rparr> else l) in
      if max_per_ip l > 0 then
        (if conns_of l1 ip \<ge> max_per_ip l
         then (False, if max_conns l > 0 then l1\<lparr>held := held l1 - 1\<rparr> else l1)
         else (True, l1\<lparr>per_ip := (per_ip l1)(ip \<mapsto> conns_of l1 ip + 1)\<rparr>))
      else (True, l1))"

text \<open>The loop: connections beyond a bound are closed until one stays or the listener fails.\<close>

primrec Accept :: "string option list \<Rightarrow> conn_listener \<Rightarrow> string list \<times> (gerr + string \<times> string option list) \<times> conn_listener" where
  "Accept [] l = ([], Inl (Fault ''accept''), l)"
| "Accept (a # as) l =
     (case admit_conn (clientIP a) l of
        (True, l') \<Rightarrow> ([], Inr (clientIP a, as), l')
      | (False, l') \<Rightarrow> (case Accept as l' of (refused, r) \<Rightarrow> (clientIP a # refused, r)))"

definition release_conn :: "string \<Rightarrow> conn_listener \<Rightarrow> conn_listener" where
  "release_conn ip l =
     (let l1 = (if max_per_ip l > 0 then
         (let n = conns_of l ip - 1 in
          if n \<le> 0 then l\<lparr>per_ip := (per_ip l)(ip := None)\<rparr> else l\<lparr>per_ip := (per_ip l)(ip \<mapsto> n)\<rparr>) else l)
      in if max_conns l > 0 then l1\<lparr>held := held l1 - 1\<rparr> else l1)"

record tracked_conn =
  tc_ip :: string
  tc_once :: bool

definition Close :: "tracked_conn \<Rightarrow> conn_listener \<Rightarrow> tracked_conn \<times> conn_listener" where
  "Close c l = (if tc_once c then (c, l) else (c\<lparr>tc_once := True\<rparr>, release_conn (tc_ip c) l))"

text \<open>Connections come and go; each may be closed any number of times.\<close>

inductive listener_run :: "conn_listener \<Rightarrow> tracked_conn list \<Rightarrow> conn_listener \<Rightarrow> bool" for l0 where
  start: "listener_run l0 [] l0"
| accept: "listener_run l0 cs l \<Longrightarrow> admit_conn ip l = (True, l') \<Longrightarrow> listener_run l0 (cs @ [\<lparr>tc_ip = ip, tc_once = False\<rparr>]) l'"
| refuse: "listener_run l0 cs l \<Longrightarrow> admit_conn ip l = (False, l') \<Longrightarrow> listener_run l0 cs l'"
| close: "listener_run l0 cs l \<Longrightarrow> i < length cs \<Longrightarrow> Close (cs ! i) l = (c, l') \<Longrightarrow> listener_run l0 (cs[i := c]) l'"

section \<open>Requests in flight\<close>

text \<open>The operations of the weighted semaphore of \<open>golang.org/x/sync\<close>, of weight one.\<close>

record 'm sem_ops =
  NewWeighted :: "int \<Rightarrow> 'm"
  TryAcquire :: "'m \<Rightarrow> bool \<times> 'm"
  Release :: "'m \<Rightarrow> 'm"

text \<open>What the library documents, with the units taken: a unit is given out while one is left.\<close>

definition weighted :: "'m sem_ops \<Rightarrow> ('m \<Rightarrow> int \<times> int) \<Rightarrow> bool" where
  "weighted ops taken \<longleftrightarrow>
     (\<forall>n. taken (NewWeighted ops n) = (0, n)) \<and>
     (\<forall>m. fst (TryAcquire ops m) = (fst (taken m) < snd (taken m)) \<and>
        taken (snd (TryAcquire ops m)) = (if fst (taken m) < snd (taken m) then (fst (taken m) + 1, snd (taken m)) else taken m)) \<and>
     (\<forall>m. taken (Release ops m) = (fst (taken m) - 1, snd (taken m)))"

record ('d, 'm) gated = "'d exchange" +
  sem :: "'m option"
  inflight :: int

definition getConcurrencyLimiter :: "'m sem_ops \<Rightarrow> int \<Rightarrow> 'm option" where
  "getConcurrencyLimiter ops limit = (if limit > 0 then Some (NewWeighted ops limit) else None)"

definition isConcurrencyExempt :: "string \<Rightarrow> bool" where
  "isConcurrencyExempt path \<longleftrightarrow>
     path = ''/health'' \<or> path = ''/ready'' \<or>
     (length path \<ge> 8 \<and> take 8 path = ''/metrics'') \<or>
     (length path \<ge> 7 \<and> take 7 path = ''/debug/'') \<or>
     (length path \<ge> 9 \<and> take 9 path = ''/swagger'')"

definition try_acquire :: "'m sem_ops \<Rightarrow> 'm \<Rightarrow> (('d, 'm, 'z) gated_scheme, bool) io" where
  "try_acquire ops m = bind_io (gets_io (\<lambda>_. TryAcquire ops m)) (\<lambda>(ok, m').
     then_io (modify_io (\<lambda>x. x\<lparr>sem := Some m'\<rparr>)) (ret ok))"

definition ConcurrencyLimit :: "'m sem_ops \<Rightarrow> (('d, 'm, 'z) gated_scheme, unit) io \<Rightarrow> (('d, 'm, 'z) gated_scheme, unit) io" where
  "ConcurrencyLimit ops next =
     bind_io (gets_io (\<lambda>x. (rq_path (req x), sem x))) (\<lambda>(path, s).
       if isConcurrencyExempt path then next
       else case s of
         None \<Rightarrow> next
       | Some m \<Rightarrow>
           bind_io (try_acquire ops m) (\<lambda>ok.
             if \<not> ok then then_io (ServiceUnavailable 10005) Abort
             else finally_io
               (then_io (modify_io (\<lambda>x. x\<lparr>inflight := inflight x + 1\<rparr>)) next)
               (modify_io (\<lambda>x. x\<lparr>inflight := inflight x - 1, sem := map_option (Release ops) (sem x)\<rparr>))))"

section \<open>The gates of the code\<close>

definition enter_conn :: "string \<Rightarrow> conn_listener \<Rightarrow> conn_listener option" where
  "enter_conn ip l = (case admit_conn ip l of (ok, l') \<Rightarrow> if ok then Some l' else None)"

definition conns_allowed :: "int \<Rightarrow> int \<Rightarrow> string multiset \<Rightarrow> bool" where
  "conns_allowed m n M \<longleftrightarrow> (0 < m \<longrightarrow> int (size M) \<le> m) \<and> (0 < n \<longrightarrow> (\<forall>ip. int (count M ip) \<le> n))"

definition counts_conns :: "int \<Rightarrow> int \<Rightarrow> conn_listener \<Rightarrow> string multiset \<Rightarrow> bool" where
  "counts_conns m n l M \<longleftrightarrow> max_conns l = m \<and> max_per_ip l = n \<and> conns_allowed m n M \<and>
     (0 < m \<longrightarrow> held l = int (size M)) \<and>
     (0 < n \<longrightarrow> (\<forall>ip. per_ip l ip = (if ip \<in># M then Some (int (count M ip)) else None)))"

lemma conns_of_counts: "counts_conns m n l M \<Longrightarrow> 0 < n \<Longrightarrow> conns_of l ip = int (count M ip)"
  by (auto simp: counts_conns_def conns_of_def not_in_iff)

lemma admit_conn_refused: "admit_conn ip l = (False, l') \<Longrightarrow> l' = l"
  by (auto simp: admit_conn_def Let_def split: if_splits)

lemma conns_allowed_mono:
  assumes "conns_allowed m n M" and "N \<subseteq># M"
  shows "conns_allowed m n N"
proof -
  have "size N \<le> size M" "\<And>ip. count N ip \<le> count M ip"
    using assms(2) by (simp_all add: size_mset_mono mset_subset_eq_count)
  then show ?thesis using assms(1) unfolding conns_allowed_def by (meson le_trans of_nat_mono order_trans)
qed

lemma allowed_add:
  assumes "conns_allowed m n M"
  shows "conns_allowed m n (add_mset ip M) \<longleftrightarrow> (0 < m \<longrightarrow> int (size M) < m) \<and> (0 < n \<longrightarrow> int (count M ip) < n)"
  using assms by (auto simp: conns_allowed_def)

lemma admit_conn_iff:
  assumes "counts_conns m n l M"
  shows "fst (admit_conn ip l) \<longleftrightarrow> conns_allowed m n (add_mset ip M)"
proof -
  have "conns_of (l\<lparr>held := h\<rparr>) ip = conns_of l ip" for h by (simp add: conns_of_def)
  then show ?thesis using assms conns_of_counts [OF assms, of ip]
    by (auto simp: counts_conns_def allowed_add admit_conn_def Let_def)
qed

lemma admit_conn_counts:
  assumes "counts_conns m n l M" and "admit_conn ip l = (True, l')"
  shows "counts_conns m n l' (add_mset ip M)"
proof -
  have c: "conns_of (l\<lparr>held := h\<rparr>) ip = conns_of l ip" for h by (simp add: conns_of_def)
  have "conns_allowed m n (add_mset ip M)" using admit_conn_iff [OF assms(1), of ip] assms(2) by simp
  then show ?thesis using assms conns_of_counts [OF assms(1), of ip]
    by (auto simp: counts_conns_def admit_conn_def Let_def c split: if_splits)
qed

lemma release_conn_counts:
  assumes "counts_conns m n l M" and "ip \<in># M"
  shows "counts_conns m n (release_conn ip l) (M - {#ip#})"
proof -
  have "0 < count M ip" and "int (size M - Suc 0) = int (size M) - 1" using assms(2) by (simp, cases M) auto
  moreover have "conns_allowed m n (M - {#ip#})"
    using assms(1) conns_allowed_mono [of m n M] by (simp add: counts_conns_def)
  ultimately show ?thesis using assms conns_of_counts [OF assms(1), of ip]
    by (auto simp: counts_conns_def release_conn_def Let_def size_Diff_singleton in_diff_count)
qed

interpretation conns: gate enter_conn release_conn "newConnLimitListener m n" "counts_conns m n" "conns_allowed m n"
proof unfold_locales
  show "counts_conns m n (newConnLimitListener m n) {#}"
    by (simp add: counts_conns_def newConnLimitListener_def conns_allowed_def)
  show "conns_allowed m n {#}" by (simp add: conns_allowed_def)
  show "conns_allowed m n (add_mset k M) \<Longrightarrow> conns_allowed m n M" for k M
    using conns_allowed_mono [of m n "add_mset k M" M] by simp
  show "counts_conns m n s M \<Longrightarrow> (enter_conn k s = None) = (\<not> conns_allowed m n (add_mset k M))" for s M k
    using admit_conn_iff [of m n s M k] by (auto simp: enter_conn_def split: prod.splits)
qed (auto simp: enter_conn_def admit_conn_counts release_conn_counts split: prod.splits if_splits)

section \<open>The requests' gate\<close>

definition enter_sem :: "'m sem_ops \<Rightarrow> unit \<Rightarrow> 'm \<Rightarrow> 'm option" where
  "enter_sem ops k m = (case TryAcquire ops m of (ok, m') \<Rightarrow> if ok then Some m' else None)"

definition leave_sem :: "'m sem_ops \<Rightarrow> unit \<Rightarrow> 'm \<Rightarrow> 'm" where
  "leave_sem ops k m = Release ops m"

lemma sem_gate:
  assumes "weighted ops taken" and "0 \<le> n"
  shows "gate (enter_sem ops) (leave_sem ops) (NewWeighted ops n) (\<lambda>m M. taken m = (int (size M), n)) (\<lambda>M. int (size M) \<le> n)"
proof unfold_locales
  fix m and M :: "unit multiset" and k m'
  assume t: "taken m = (int (size M), n)"
  have took: "fst (TryAcquire ops m) = (int (size M) < n)"
    "taken (snd (TryAcquire ops m)) = (if int (size M) < n then (int (size M) + 1, n) else taken m)"
    "taken (Release ops m) = (int (size M) - 1, n)"
    using assms(1) t unfolding weighted_def by auto
  show "enter_sem ops k m = Some m' \<Longrightarrow> taken m' = (int (size (add_mset k M)), n)"
    using took by (auto simp: enter_sem_def split: prod.splits if_splits)
  show "enter_sem ops k m = None \<longleftrightarrow> \<not> int (size (add_mset k M)) \<le> n"
    using took by (auto simp: enter_sem_def split: prod.splits)
  show "taken (leave_sem ops k m) = (int (size (M - {#k#})), n)" if "k \<in># M"
    using took that by (cases M) (auto simp: leave_sem_def)
qed (use assms in \<open>auto simp: weighted_def\<close>)

text \<open>A semaphore that is a pair of numbers.\<close>

definition number_sem :: "(int \<times> int) sem_ops" where
  "number_sem = \<lparr>NewWeighted = Pair 0, TryAcquire = (\<lambda>(c, n). if c < n then (True, c + 1, n) else (False, c, n)),
     Release = (\<lambda>(c, n). (c - 1, n))\<rparr>"

lemma number_sem_weighted: "weighted number_sem (\<lambda>x. x)"
  by (simp add: weighted_def number_sem_def split: prod.split)

section \<open>Claims\<close>

definition live_conns :: "tracked_conn list \<Rightarrow> string multiset" where
  "live_conns cs = image_mset tc_ip (filter_mset (\<lambda>c. \<not> tc_once c) (mset cs))"

lemma listener_is_gate:
  assumes "listener_run (newConnLimitListener m n) cs l"
  shows "gate_run enter_conn release_conn (newConnLimitListener m n) (live_conns cs) l"
  using assms
proof induction
  case start
  then show ?case by (simp add: live_conns_def gate_run.start)
next
  case (accept cs l ip l')
  then show ?case using gate_run.enter [OF accept.IH, of ip l'] by (simp add: live_conns_def enter_conn_def)
next
  case (refuse cs l ip l')
  then show ?case using admit_conn_refused by blast
next
  case (close cs l i c l')
  show ?case
  proof (cases "tc_once (cs ! i)")
    case True
    then have "c = cs ! i" "l' = l" using close.hyps by (auto simp: Close_def)
    then show ?thesis using close.IH by simp
  next
    case False
    have "mset cs = add_mset (cs ! i) (mset cs - {#cs ! i#})" using close.hyps by simp
    moreover have "mset (cs[i := c]) = add_mset c (mset cs - {#cs ! i#})" using close.hyps by (simp add: mset_update)
    moreover have "c = (cs ! i)\<lparr>tc_once := True\<rparr>" "l' = release_conn (tc_ip (cs ! i)) l"
      using close.hyps False by (auto simp: Close_def)
    ultimately have "live_conns cs = add_mset (tc_ip (cs ! i)) (live_conns (cs[i := c]))"
      using False unfolding live_conns_def by (metis (no_types, lifting) filter_mset_add_mset image_mset_add_mset
          tracked_conn.select_convs(2) tracked_conn.surjective tracked_conn.update_convs(2))
    then show ?thesis using gate_run.leave [OF close.IH, of "tc_ip (cs ! i)"] \<open>l' = _\<close> by simp
  qed
qed

text \<open>C32. However connections come, are refused and are closed, also several times each, at most the
configured number of them is open, at most the configured number of one address, the counts are
those of the open connections, and a new one is refused only when a bound is reached.\<close>

theorem connections_are_bounded:
  assumes "listener_run (newConnLimitListener m n) cs l"
  shows "conns_allowed m n (live_conns cs) \<and> (0 < m \<longrightarrow> held l = int (size (live_conns cs))) \<and>
    (fst (admit_conn ip l) \<longleftrightarrow> conns_allowed m n (add_mset ip (live_conns cs)))"
  using conns.run_rep [OF listener_is_gate [OF assms]] admit_conn_iff [of m n l "live_conns cs" ip] by (simp add: counts_conns_def)

theorem connections_are_bounded_witness:
  "\<not> fst (admit_conn ''a'' (snd (admit_conn ''b'' (snd (admit_conn ''a'' (newConnLimitListener 5 1))))))"
proof -
  note admitted = admit_conn_def newConnLimitListener_def conns_of_def
  have "listener_run (newConnLimitListener 5 1) ([] @ [\<lparr>tc_ip = ''a'', tc_once = False\<rparr>]) (snd (admit_conn ''a'' (newConnLimitListener 5 1)))"
    by (rule listener_run.accept [OF listener_run.start]) (simp add: admitted)
  then have "listener_run (newConnLimitListener 5 1) (([] @ [\<lparr>tc_ip = ''a'', tc_once = False\<rparr>]) @ [\<lparr>tc_ip = ''b'', tc_once = False\<rparr>])
      (snd (admit_conn ''b'' (snd (admit_conn ''a'' (newConnLimitListener 5 1)))))"
    by (rule listener_run.accept) (simp add: admitted)
  from connections_are_bounded [OF this, of "''a''"] show ?thesis
    by (simp add: live_conns_def conns_allowed_def)
qed

text \<open>With the semaphore the library documents, at most the configured number of requests is in
flight however they come and go, and a request is refused exactly when that many are.\<close>

theorem requests_in_flight_are_bounded:
  assumes "weighted ops taken" and "getConcurrencyLimiter ops limit = Some m0"
    and "gate_run (enter_sem ops) (leave_sem ops) m0 M m"
  shows "int (size M) \<le> limit \<and> (enter_sem ops () m = None \<longleftrightarrow> int (size M) = limit)"
proof -
  have l: "0 < limit" "m0 = NewWeighted ops limit" using assms(2) by (simp_all add: getConcurrencyLimiter_def split: if_splits)
  have g: "gate (enter_sem ops) (leave_sem ops) (NewWeighted ops limit) (\<lambda>m M. taken m = (int (size M), limit)) (\<lambda>M. int (size M) \<le> limit)"
    using sem_gate [OF assms(1)] l by simp
  show ?thesis using gate.run_allowed [OF g, of M m] gate.run_admits [OF g, of M m "()"] assms(3) l by auto
qed

theorem requests_in_flight_are_bounded_witness:
  "enter_sem number_sem () (1, 1) = None"
proof -
  have "gate_run (enter_sem number_sem) (leave_sem number_sem) (NewWeighted number_sem 1) {#()#} (1, 1)"
    by (rule gate_run.enter [OF gate_run.start]) code_simp
  moreover have "getConcurrencyLimiter number_sem 1 = Some (NewWeighted number_sem 1)" by code_simp
  ultimately show ?thesis using requests_in_flight_are_bounded [OF number_sem_weighted, of 1] by fastforce
qed

lemma ConcurrencyLimit_run:
  assumes "sem x = Some m" and "\<not> isConcurrencyExempt (rq_path (req x))"
  shows "ConcurrencyLimit ops next x = (case TryAcquire ops m of
    (True, m') \<Rightarrow> (case next (x\<lparr>sem := Some m', inflight := inflight x + 1\<rparr>) of
       (r, y) \<Rightarrow> (r, y\<lparr>inflight := inflight y - 1, sem := map_option (Release ops) (sem y)\<rparr>))
  | (False, m') \<Rightarrow> (Inr (), snd (Abort (snd (ServiceUnavailable 10005 (x\<lparr>sem := Some m'\<rparr>))))))"
  using assms
  by (auto simp: ConcurrencyLimit_def try_acquire_def finally_io_def then_io_def bind_io_def gets_io_def modify_io_def ret_def
      Abort_def ServiceUnavailable_def ErrorWithHTTPStatus_def JSON_def write_header_def split: prod.splits)

text \<open>A request that gets a place gives exactly one back when its handlers end, also by a panic and
whatever other requests did meanwhile, and one that gets none is answered 503 without running them.\<close>

theorem places_are_given_back:
  assumes "sem x = Some m" and "\<not> isConcurrencyExempt (rq_path (req x))"
  shows "if fst (TryAcquire ops m)
    then sem (snd (ConcurrencyLimit ops next x)) =
      map_option (Release ops) (sem (snd (next (x\<lparr>sem := Some (snd (TryAcquire ops m)), inflight := inflight x + 1\<rparr>))))
    else aborted (snd (ConcurrencyLimit ops next x)) \<and>
      (\<forall>next'. ConcurrencyLimit ops next x = ConcurrencyLimit ops next' x) \<and>
      (\<not> written x \<longrightarrow> status (snd (ConcurrencyLimit ops next x)) = 503)"
  using assms
  by (auto simp: ConcurrencyLimit_run Abort_def ServiceUnavailable_def ErrorWithHTTPStatus_def JSON_def write_header_def
      modify_io_def then_io_def bind_io_def split: prod.splits)

text \<open>No path of the API documentation is exempt: the prefix that is compared with \<open>/swagger\<close> is one
character longer than it.\<close>

theorem documentation_is_never_exempt:
  assumes "HasPrefix path ''/swagger''"
  shows "\<not> isConcurrencyExempt path"
proof -
  have t: "take 8 path = ''/swagger''" using assms by (simp add: HasPrefix_def eval_nat_numeral)
  have "take 9 path \<noteq> ''/swagger''" if "9 \<le> length path"
  proof
    assume "take 9 path = ''/swagger''"
    then have "length (take 9 path) = 8" by simp
    then show False using that by simp
  qed
  moreover have "take 7 path \<noteq> ''/debug/''"
  proof -
    have "take 7 path = take 7 (take 8 path)" by simp
    also have "\<dots> = ''/swagge''" unfolding t by simp
    finally show ?thesis by simp
  qed
  moreover have "path \<noteq> ''/health''" "path \<noteq> ''/ready''" using t by auto
  ultimately show ?thesis using t by (auto simp: isConcurrencyExempt_def)
qed

theorem documentation_is_never_exempt_witness: "\<not> isConcurrencyExempt ''/swagger/index.html''"
  by (rule documentation_is_never_exempt) code_simp

end
