(* ===== verification/Breaker.thy ===== *)
theory Breaker
  imports Admission Complex_Main
begin

text \<open>
  The circuit breakers of the routes and the global degradation they switch on
  (\<open>internal/middleware/circuitbreaker.go\<close>, \<open>internal/degrade/degrade.go\<close>). The breaker itself is that of
  \<open>gobreaker\<close>; its operations are a parameter.
\<close>

section \<open>Global degradation\<close>

record degradation =
  openCount :: int
  degraded :: bool

definition OnBreakerOpen :: "degradation \<Rightarrow> degradation" where
  "OnBreakerOpen g = (let n = openCount g + 1 in
     if n = 1 then \<lparr>openCount = n, degraded = True\<rparr> else g\<lparr>openCount := n\<rparr>)"

definition OnBreakerClosed :: "degradation \<Rightarrow> degradation" where
  "OnBreakerClosed g = (let n = openCount g - 1 in
     if n = 0 then \<lparr>openCount = n, degraded = False\<rparr> else g\<lparr>openCount := n\<rparr>)"

definition IsActive :: "degradation \<Rightarrow> bool" where
  "IsActive g = degraded g"

section \<open>Breakers\<close>

datatype breaker_state = StateClosed | StateHalfOpen | StateOpen

type_synonym transition = "breaker_state \<times> breaker_state"

record cb_config =
  cb_enabled :: bool
  FailureThreshold :: real
  HalfOpenMaxRequests :: int
  cb_interval :: duration
  cb_timeout :: duration

record settings =
  MaxRequests :: int
  Interval :: duration
  OpenTimeout :: duration
  ReadyToTrip :: "int \<Rightarrow> int \<Rightarrow> bool"

text \<open>
  The library's operations at an instant; each also gives the changes of state it reports. \<open>cb_before\<close>
  refuses a call with an error, \<open>cb_after\<close> takes in whether it succeeded.
\<close>

record 'b breaker_ops =
  NewCircuitBreaker :: "settings \<Rightarrow> 'b"
  cb_State :: "instant \<Rightarrow> 'b \<Rightarrow> breaker_state \<times> 'b \<times> transition list"
  cb_before :: "instant \<Rightarrow> 'b \<Rightarrow> gerr option \<times> 'b \<times> transition list"
  cb_after :: "bool \<Rightarrow> instant \<Rightarrow> 'b \<Rightarrow> 'b \<times> transition list"

definition ready_to_trip :: "cb_config \<Rightarrow> int \<Rightarrow> int \<Rightarrow> bool" where
  "ready_to_trip cfg requests failures \<longleftrightarrow>
     requests \<ge> 5 \<and> real_of_int failures / real_of_int requests \<ge> FailureThreshold cfg"

definition breaker_settings :: "cb_config \<Rightarrow> settings" where
  "breaker_settings cfg = \<lparr>MaxRequests = HalfOpenMaxRequests cfg mod 2 ^ 32, Interval = cb_interval cfg,
     OpenTimeout = cb_timeout cfg, ReadyToTrip = ready_to_trip cfg\<rparr>"

definition OnStateChange :: "transition \<Rightarrow> degradation \<Rightarrow> degradation" where
  "OnStateChange t g = (case snd t of
      StateOpen \<Rightarrow> OnBreakerOpen g
    | StateHalfOpen \<Rightarrow> g
    | StateClosed \<Rightarrow> OnBreakerClosed g)"

text \<open>
  The manager. Breakers are objects: \<open>objects\<close> are all that were ever made, \<open>routes\<close> the one of a route.
  A configuration is a pointer and what it points to; \<open>live_cfg\<close> is what the configuration manager has.
\<close>

record ('d, 'm, 'b) guarded = "('d, 'm) gated" +
  objects :: "'b list"
  routes :: "string \<rightharpoonup> nat"
  cb_current :: cb_config
  cb_last :: nat
  live_cfg :: "nat \<times> cb_config"
  degrade :: degradation

definition cb_sync :: "(('d, 'm, 'b, 'z) guarded_scheme, unit) io" where
  "cb_sync = modify_io (\<lambda>x.
     if cb_last x = fst (live_cfg x) then x
     else x\<lparr>routes := Map.empty, cb_current := snd (live_cfg x), cb_last := fst (live_cfg x)\<rparr>)"

definition getOrCreate :: "'b breaker_ops \<Rightarrow> string \<Rightarrow> (('d, 'm, 'b, 'z) guarded_scheme, nat) io" where
  "getOrCreate ops route =
     then_io cb_sync
     (bind_io (gets_io (\<lambda>x. routes x route)) (\<lambda>found.
       case found of
         Some i \<Rightarrow> ret i
       | None \<Rightarrow> bind_io (gets_io (\<lambda>x. length (objects x))) (\<lambda>i.
           then_io (modify_io (\<lambda>x. x\<lparr>objects := objects x @ [NewCircuitBreaker ops (breaker_settings (cb_current x))],
               routes := (routes x)(route \<mapsto> i)\<rparr>)) (ret i))))"

text \<open>A call of the library on the \<open>i\<close>-th breaker: its changes of state are reported.\<close>

definition on_breaker :: "nat \<Rightarrow> (instant \<Rightarrow> 'b \<Rightarrow> 'a \<times> 'b \<times> transition list) \<Rightarrow> (('d, 'm, 'b, 'z) guarded_scheme, 'a) io" where
  "on_breaker i f =
     bind_io (gets_io (\<lambda>x. f (clock x) (objects x ! i))) (\<lambda>(r, b, ts).
       then_io (modify_io (\<lambda>x. x\<lparr>objects := (objects x)[i := b], degrade := fold OnStateChange ts (degrade x)\<rparr>)) (ret r))"

text \<open>\<open>Execute\<close>: a call that is let in runs and its result is counted, a panic as a failure.\<close>

definition Execute :: "'b breaker_ops \<Rightarrow> nat \<Rightarrow> (('d, 'm, 'b, 'z) guarded_scheme, bool) io \<Rightarrow>
    (('d, 'm, 'b, 'z) guarded_scheme, bool) io" where
  "Execute ops i call =
     bind_io (on_breaker i (cb_before ops)) (\<lambda>refused.
       case refused of
         Some e \<Rightarrow> ret False
       | None \<Rightarrow> bind_io (attempt call) (\<lambda>r.
           case r of
             Inl e \<Rightarrow> then_io (on_breaker i (\<lambda>t b. ((), cb_after ops False t b))) (throw e)
           | Inr ok \<Rightarrow> then_io (on_breaker i (\<lambda>t b. ((), cb_after ops ok t b))) (ret ok)))"

definition cb_route :: "request \<Rightarrow> string" where
  "cb_route rq = (if rq_route rq = [] then rq_path rq else rq_route rq)"

text \<open>The request behind its breaker: an open breaker answers at once, a failed call is answered once more.\<close>

definition behind_breaker :: "'b breaker_ops \<Rightarrow> nat \<Rightarrow> string \<Rightarrow> (('d, 'm, 'b, 'z) guarded_scheme, unit) io \<Rightarrow>
    (('d, 'm, 'b, 'z) guarded_scheme, unit) io" where
  "behind_breaker ops i route next =
     bind_io (on_breaker i (cb_State ops)) (\<lambda>st.
       if st = StateOpen
       then then_io (ErrorWithHTTPStatus 503 10602 (Some (''circuit breaker open for '' @ route))) Abort
       else
         bind_io (Execute ops i (then_io next (gets_io (\<lambda>x. status x < 500)))) (\<lambda>ok.
         bind_io (gets_io aborted) (\<lambda>ab.
           when_io (\<not> ok \<and> \<not> ab)
             (then_io (ErrorWithHTTPStatus 503 10602 (Some ''service temporarily unavailable'')) Abort))))"

definition CircuitBreaker :: "'b breaker_ops \<Rightarrow> (('d, 'm, 'b, 'z) guarded_scheme, unit) io \<Rightarrow>
    (('d, 'm, 'b, 'z) guarded_scheme, unit) io" where
  "CircuitBreaker ops next =
     bind_io (gets_io (\<lambda>x. (cb_enabled (snd (live_cfg x)), cb_route (req x)))) (\<lambda>(enabled, route).
       if \<not> enabled then next
       else bind_io (getOrCreate ops route) (\<lambda>i. behind_breaker ops i route next))"

section \<open>What the library reports\<close>

definition legal :: "transition \<Rightarrow> bool" where
  "legal t \<longleftrightarrow> t \<in> {(StateClosed, StateOpen), (StateOpen, StateHalfOpen), (StateHalfOpen, StateOpen), (StateHalfOpen, StateClosed)}"

primrec legal_path :: "breaker_state \<Rightarrow> transition list \<Rightarrow> breaker_state \<Rightarrow> bool" where
  "legal_path a [] b \<longleftrightarrow> a = b"
| "legal_path a (t # ts) b \<longleftrightarrow> fst t = a \<and> legal t \<and> legal_path (snd t) ts b"

text \<open>A new breaker is closed, and the changes that an operation reports lead from its state to the next.\<close>

definition reports :: "'b breaker_ops \<Rightarrow> ('b \<Rightarrow> breaker_state) \<Rightarrow> bool" where
  "reports ops st \<longleftrightarrow>
     (\<forall>c. st (NewCircuitBreaker ops c) = StateClosed) \<and>
     (\<forall>t b. legal_path (st b) (snd (snd (cb_State ops t b))) (st (fst (snd (cb_State ops t b))))) \<and>
     (\<forall>t b. legal_path (st b) (snd (snd (cb_before ops t b))) (st (fst (snd (cb_before ops t b))))) \<and>
     (\<forall>ok t b. legal_path (st b) (snd (cb_after ops ok t b)) (st (fst (cb_after ops ok t b))))"

section \<open>The count of open breakers\<close>

definition counted :: "nat \<Rightarrow> degradation \<Rightarrow> bool" where
  "counted k g \<longleftrightarrow> int k \<le> openCount g \<and> (degraded g \<longleftrightarrow> 0 < openCount g)"

definition weight :: "breaker_state \<Rightarrow> nat" where
  "weight a = (if a = StateClosed then 0 else 1)"

lemma counted_change: "legal t \<Longrightarrow> counted (k + weight (fst t)) g \<Longrightarrow> counted (k + weight (snd t)) (OnStateChange t g)"
  by (auto simp: legal_def counted_def weight_def OnStateChange_def OnBreakerOpen_def OnBreakerClosed_def Let_def)

lemma counted_path: "legal_path a ts b \<Longrightarrow> counted (k + weight a) g \<Longrightarrow> counted (k + weight b) (fold OnStateChange ts g)"
proof (induction ts arbitrary: a g)
  case (Cons t ts)
  then have "counted (k + weight (snd t)) (OnStateChange t g)" using counted_change [of t k g] by simp
  then show ?case using Cons.IH [of "snd t"] Cons.prems by simp
qed simp

definition open_objects :: "('b \<Rightarrow> breaker_state) \<Rightarrow> 'b list \<Rightarrow> nat" where
  "open_objects st bs = (\<Sum>b\<leftarrow>bs. weight (st b))"

lemma open_objects_update:
  assumes "i < length bs"
  shows "open_objects st (bs[i := b]) + weight (st (bs ! i)) = open_objects st bs + weight (st b)"
proof -
  have "mset bs = add_mset (bs ! i) (mset bs - {#bs ! i#})" using assms by simp
  then have "open_objects st bs = weight (st (bs ! i)) + (\<Sum>b\<in>#mset bs - {#bs ! i#}. weight (st b))"
    unfolding open_objects_def by (metis (no_types) mset_map sum_mset_sum_list sum_mset.insert image_mset_add_mset)
  moreover have "open_objects st (bs[i := b]) = weight (st b) + (\<Sum>b\<in>#mset bs - {#bs ! i#}. weight (st b))"
    using assms unfolding open_objects_def
    by (metis (no_types) mset_map mset_update sum_mset_sum_list sum_mset.insert image_mset_add_mset)
  ultimately show ?thesis by simp
qed

definition breakers_ok :: "('b \<Rightarrow> breaker_state) \<Rightarrow> ('d, 'm, 'b, 'z) guarded_scheme \<Rightarrow> bool" where
  "breakers_ok st x \<longleftrightarrow> counted (open_objects st (objects x)) (degrade x) \<and>
     (\<forall>r i. routes x r = Some i \<longrightarrow> i < length (objects x))"

text \<open>The first \<open>n\<close> breakers go on existing, and the invariant is kept.\<close>

definition keeps_breakers :: "('b \<Rightarrow> breaker_state) \<Rightarrow> nat \<Rightarrow> ('d, 'm, 'b, 'z) guarded_scheme \<Rightarrow> ('d, 'm, 'b, 'z) guarded_scheme \<Rightarrow> bool" where
  "keeps_breakers st n x y \<longleftrightarrow> (n \<le> length (objects x) \<and> breakers_ok st x \<longrightarrow> n \<le> length (objects y) \<and> breakers_ok st y)"

interpretation breakers: two_state "keeps_breakers st n"
  by unfold_locales (auto simp: keeps_breakers_def)

lemma on_breaker_keeps:
  fixes f :: "instant \<Rightarrow> 'b \<Rightarrow> 'a \<times> 'b \<times> transition list"
  assumes "\<And>t b. legal_path (st b) (snd (snd (f t b))) (st (fst (snd (f t b))))" and "i < n"
  shows "evolves (keeps_breakers st n) (on_breaker i f :: (('d, 'm, 'b, 'z) guarded_scheme, 'a) io)"
proof (rule evolvesI)
  fix x :: "('d, 'm, 'b, 'z) guarded_scheme"
  obtain r b ts where f: "f (clock x) (objects x ! i) = (r, b, ts)" by (metis prod.collapse)
  have p: "legal_path (st (objects x ! i)) ts (st b)" using assms(1) [of "objects x ! i" "clock x"] f by simp
  show "keeps_breakers st n x (snd (on_breaker i f x))"
    unfolding keeps_breakers_def
  proof (intro impI, elim conjE)
    assume n: "n \<le> length (objects x)" and ok: "breakers_ok st x"
    then have i: "i < length (objects x)" using assms(2) by simp
    let ?k = "open_objects st (objects x) - weight (st (objects x ! i))"
    have w: "weight (st (objects x ! i)) \<le> open_objects st (objects x)"
      unfolding open_objects_def by (rule member_le_sum_list) (use i in auto)
    then have "counted (?k + weight (st (objects x ! i))) (degrade x)" using ok by (simp add: breakers_ok_def)
    from counted_path [OF p this] have "counted (open_objects st ((objects x)[i := b])) (fold OnStateChange ts (degrade x))"
      using open_objects_update [OF i, of st b] w by (metis Nat.add_diff_assoc2 add_diff_cancel_right')
    then show "n \<le> length (objects (snd (on_breaker i f x))) \<and> breakers_ok st (snd (on_breaker i f x))"
      using ok n i f by (simp add: on_breaker_def breakers_ok_def then_io_def bind_io_def gets_io_def modify_io_def ret_def)
  qed
qed

lemma breakers_same:
  assumes "\<And>x. objects (snd (m x)) = objects x \<and> routes (snd (m x)) = routes x \<and> degrade (snd (m x)) = degrade x"
  shows "evolves (keeps_breakers st n) m"
  using assms by (simp add: evolves_def keeps_breakers_def breakers_ok_def)

lemma breakers_answer: "evolves (keeps_breakers st k) (ErrorWithHTTPStatus n c m)" "evolves (keeps_breakers st k) Abort"
  by (rule breakers_same; simp add: ErrorWithHTTPStatus_def JSON_def write_header_def Abort_def then_io_def bind_io_def modify_io_def)+

lemma getOrCreate_makes:
  assumes "getOrCreate ops route x = (r, y)" and "reports ops st" and "breakers_ok st x"
  shows "\<exists>i. r = Inr i \<and> i < length (objects y) \<and> breakers_ok st y"
proof -
  have "weight (st (NewCircuitBreaker ops c)) = 0" for c using assms(2) by (simp add: reports_def weight_def)
  then show ?thesis using assms
    by (fastforce simp: getOrCreate_def cb_sync_def then_io_def bind_io_def gets_io_def modify_io_def ret_def breakers_ok_def
        open_objects_def split: if_splits option.splits)
qed

section \<open>Claims\<close>

lemma behind_breaker_keeps:
  assumes "reports ops st" and follow: "evolves (keeps_breakers st (Suc i)) next"
  shows "evolves (keeps_breakers st (Suc i)) (behind_breaker ops i route next)"
proof -
  have s: "evolves (keeps_breakers st (Suc i)) (on_breaker i (cb_State ops))"
    "evolves (keeps_breakers st (Suc i)) (on_breaker i (cb_before ops))"
    "evolves (keeps_breakers st (Suc i)) (on_breaker i (\<lambda>t b. ((), cb_after ops ok t b)))" for ok
    using assms(1) by (auto intro!: on_breaker_keeps simp: reports_def)
  have w: "evolves (keeps_breakers st (Suc i)) (when_io c m)" if "evolves (keeps_breakers st (Suc i)) m" for c m
    using that by (auto simp: when_io_def intro: breakers.ev_ret)
  show ?thesis unfolding behind_breaker_def Execute_def by (intro breakers.ev_rules s w breakers_answer follow)
qed

lemma CircuitBreaker_keeps:
  assumes "reports ops st" and "\<And>n. evolves (keeps_breakers st n) next" and "breakers_ok st x"
  shows "breakers_ok st (snd (CircuitBreaker ops next x))"
proof (cases "cb_enabled (snd (live_cfg x))")
  case False
  have "keeps_breakers st 0 x (snd (next x))" using assms(2) by (simp add: evolves_def)
  then show ?thesis using assms(3) False by (simp add: CircuitBreaker_def bind_io_def gets_io_def keeps_breakers_def)
next
  case True
  obtain i y where g: "getOrCreate ops (cb_route (req x)) x = (Inr i, y)" and i: "i < length (objects y)" and y: "breakers_ok st y"
    using getOrCreate_makes [OF _ assms(1,3)] by (metis prod.exhaust_sel)
  show ?thesis
    using behind_breaker_keeps [OF assms(1) assms(2) [of "Suc i"], where route = "cb_route (req x)"] True g i y
    by (simp add: CircuitBreaker_def bind_io_def gets_io_def evolves_def keeps_breakers_def)
qed

text \<open>While a breaker of the process is open or half open, the process is degraded: the middleware keeps
this, whatever its handlers do that keeps it, with a library that reports its changes of state.\<close>

theorem open_breaker_degrades:
  assumes "reports ops st" and "\<And>n. evolves (keeps_breakers st n) next" and "breakers_ok st x"
  shows "breakers_ok st (snd (CircuitBreaker ops next x)) \<and>
    (list_ex (\<lambda>b. st b \<noteq> StateClosed) (objects (snd (CircuitBreaker ops next x))) \<longrightarrow>
      IsActive (degrade (snd (CircuitBreaker ops next x))))"
proof -
  let ?y = "snd (CircuitBreaker ops next x)"
  have ok: "breakers_ok st ?y" by (rule CircuitBreaker_keeps [OF assms])
  have "0 < open_objects st bs" if "list_ex (\<lambda>b. st b \<noteq> StateClosed) bs" for bs
    using that by (induction bs) (auto simp: open_objects_def weight_def)
  then show ?thesis using ok unfolding breakers_ok_def counted_def IsActive_def by fastforce
qed

text \<open>A library whose breakers trip at the first failure and try again from the instant 100 on.\<close>

definition simple_ops :: "breaker_state breaker_ops" where
  "simple_ops = \<lparr>NewCircuitBreaker = (\<lambda>_. StateClosed),
     cb_State = (\<lambda>t b. if b = StateOpen \<and> 100 \<le> t then (StateHalfOpen, StateHalfOpen, [(StateOpen, StateHalfOpen)]) else (b, b, [])),
     cb_before = (\<lambda>t b. if b = StateOpen then (Some (Sentinel ''circuit breaker is open''), b, []) else (None, b, [])),
     cb_after = (\<lambda>ok t b. if b = StateClosed \<and> \<not> ok then (StateOpen, [(StateClosed, StateOpen)])
        else if b = StateHalfOpen then (if ok then (StateClosed, [(StateHalfOpen, StateClosed)]) else (StateOpen, [(StateHalfOpen, StateOpen)]))
        else (b, []))\<rparr>"

lemma simple_reports: "reports simple_ops (\<lambda>b. b)"
  by (auto simp: reports_def simple_ops_def legal_def)

definition sample_request :: request where
  "sample_request = \<lparr>rq_method = ''POST'', rq_path = ''/api/v1/auth/login'', rq_route = ''/api/v1/auth/login'', rq_ip = ''10.0.0.1'',
     rq_header = (\<lambda>_. []), rq_query = Map.empty, rq_param = (\<lambda>_. []), rq_body = None, rq_gone = None\<rparr>"

definition sample_cb :: cb_config where
  "sample_cb = \<lparr>cb_enabled = True, FailureThreshold = 1 / 2, HalfOpenMaxRequests = 3, cb_interval = 60 * second, cb_timeout = 30 * second\<rparr>"

definition sample_site :: "instant \<Rightarrow> breaker_state \<Rightarrow> (string, unit, breaker_state) guarded" where
  "sample_site t b = \<lparr>req = sample_request, status = 200, written = False, bodies = [], headers = [],
     aborted = False, user_id = [], clock = t, sem = None, inflight = 0,
     objects = [b], routes = [''/api/v1/auth/login'' \<mapsto> 0], cb_current = sample_cb, cb_last = 0, live_cfg = (0, sample_cb),
     degrade = \<lparr>openCount = (if b = StateClosed then 0 else 1), degraded = (b \<noteq> StateClosed)\<rparr>\<rparr>"

text \<open>A handler that answers 503, as \<open>Login\<close> does when the process is busy hashing.\<close>

definition busy_handler :: "('d, 'z) app" where
  "busy_handler = ServiceUnavailable 10005"

lemma breakers_answer_status:
  "evolves (keeps_breakers st k) busy_handler"
  unfolding busy_handler_def ServiceUnavailable_def by (rule breakers_answer)

theorem open_breaker_degrades_witness:
  "IsActive (degrade (snd (CircuitBreaker simple_ops busy_handler (sample_site 0 StateClosed))))"
proof -
  have "breakers_ok (\<lambda>b. b) (sample_site 0 StateClosed)"
    by (simp add: breakers_ok_def sample_site_def counted_def open_objects_def weight_def)
  from open_breaker_degrades [OF simple_reports breakers_answer_status this]
  have "list_ex (\<lambda>b. b \<noteq> StateClosed) (objects (snd (CircuitBreaker simple_ops busy_handler (sample_site 0 StateClosed)))) \<Longrightarrow> ?thesis" by blast
  moreover have "objects (snd (CircuitBreaker simple_ops busy_handler (sample_site 0 StateClosed))) = [StateOpen]" by code_simp
  ultimately show ?thesis by simp
qed

text \<open>The history of all breakers ever made: their states, the number of trials that failed and the counters.\<close>

inductive breaker_history :: "breaker_state list \<Rightarrow> nat \<Rightarrow> degradation \<Rightarrow> bool" where
  none: "breaker_history [] 0 \<lparr>openCount = 0, degraded = False\<rparr>"
| made: "breaker_history sts r g \<Longrightarrow> breaker_history (sts @ [StateClosed]) r g"
| change: "breaker_history sts r g \<Longrightarrow> i < length sts \<Longrightarrow> legal (sts ! i, s) \<Longrightarrow>
    breaker_history (sts[i := s]) (if sts ! i = StateHalfOpen \<and> s = StateOpen then r + 1 else r) (OnStateChange (sts ! i, s) g)"

lemma change_count:
  assumes "legal (a, b)" and "openCount g = int (k + weight a + r)" and "degraded g \<longleftrightarrow> 0 < openCount g"
  shows "openCount (OnStateChange (a, b) g) = int (k + weight b + (if a = StateHalfOpen \<and> b = StateOpen then r + 1 else r)) \<and>
    (degraded (OnStateChange (a, b) g) \<longleftrightarrow> 0 < openCount (OnStateChange (a, b) g))"
  using assms
  by (auto simp: legal_def weight_def OnStateChange_def OnBreakerOpen_def OnBreakerClosed_def Let_def)

text \<open>The process is degraded while a breaker is not closed, and for ever once a trial of a half open
breaker has failed: that opening is counted a second time, and the closing takes back one.\<close>

theorem failed_trials_degrade_for_ever:
  assumes "breaker_history sts r g"
  shows "openCount g = int (open_objects (\<lambda>b. b) sts + r) \<and>
    (IsActive g \<longleftrightarrow> list_ex (\<lambda>b. b \<noteq> StateClosed) sts \<or> 0 < r)"
proof -
  have "openCount g = int (open_objects (\<lambda>b. b) sts + r) \<and> (degraded g \<longleftrightarrow> 0 < openCount g)"
    using assms
  proof induction
    case (change sts r g i s)
    let ?k = "open_objects (\<lambda>b. b) sts - weight (sts ! i)"
    have "weight (sts ! i) \<le> open_objects (\<lambda>b. b) sts"
      unfolding open_objects_def by (rule member_le_sum_list) (use change.hyps in auto)
    then have "openCount g = int (?k + weight (sts ! i) + r)" "open_objects (\<lambda>b. b) (sts[i := s]) = ?k + weight s"
      using change.IH open_objects_update [OF change.hyps(2), of "\<lambda>b. b" s] by simp_all
    then show ?case using change_count [OF change.hyps(3)] change.IH by metis
  qed (simp_all add: open_objects_def weight_def)
  moreover have "0 < open_objects (\<lambda>b. b) bs \<longleftrightarrow> list_ex (\<lambda>b. b \<noteq> StateClosed) bs" for bs
    by (induction bs) (auto simp: open_objects_def weight_def)
  ultimately show ?thesis unfolding IsActive_def by (metis add_gr_0 of_nat_0_less_iff)
qed

theorem failed_trials_degrade_for_ever_witness:
  "IsActive (fold OnStateChange [(StateClosed, StateOpen), (StateOpen, StateHalfOpen), (StateHalfOpen, StateOpen),
     (StateOpen, StateHalfOpen), (StateHalfOpen, StateClosed)] \<lparr>openCount = 0, degraded = False\<rparr>)"
proof -
  have h: "breaker_history [StateClosed] 0 \<lparr>openCount = 0, degraded = False\<rparr>"
    using breaker_history.made [OF breaker_history.none] by simp
  note c = breaker_history.change [where i = 0 and sts = "[x]" for x, simplified]
  have "breaker_history [StateClosed] 1 (fold OnStateChange [(StateClosed, StateOpen), (StateOpen, StateHalfOpen), (StateHalfOpen, StateOpen),
     (StateOpen, StateHalfOpen), (StateHalfOpen, StateClosed)] \<lparr>openCount = 0, degraded = False\<rparr>)"
    using c [OF c [OF c [OF c [OF c [OF h, of StateOpen], of StateHalfOpen], of StateOpen], of StateHalfOpen], of StateClosed]
    by (simp add: legal_def)
  from failed_trials_degrade_for_ever [OF this] show ?thesis by simp
qed

section \<open>What a request is answered\<close>

lemma on_breaker_run:
  "on_breaker i f x = (Inr (fst (f (clock x) (objects x ! i))),
     x\<lparr>objects := (objects x)[i := fst (snd (f (clock x) (objects x ! i)))],
       degrade := fold OnStateChange (snd (snd (f (clock x) (objects x ! i)))) (degrade x)\<rparr>)"
  by (simp add: on_breaker_def then_io_def bind_io_def gets_io_def modify_io_def ret_def split: prod.split)

text \<open>The state in which the handlers of a request that its breaker lets through begin.\<close>

definition let_in :: "'b breaker_ops \<Rightarrow> nat \<Rightarrow> ('d, 'm, 'b, 'z) guarded_scheme \<Rightarrow> (gerr option \<times> ('d, 'm, 'b, 'z) guarded_scheme)" where
  "let_in ops i y = (let y1 = snd (on_breaker i (cb_State ops) y) in
     (fst (cb_before ops (clock y1) (objects y1 ! i)), snd (on_breaker i (cb_before ops) y1)))"

lemma behind_breaker_in:
  assumes "fst (cb_State ops (clock y) (objects y ! i)) \<noteq> StateOpen" and "let_in ops i y = (None, y2)" and "next y2 = (Inr (), z)"
  shows "behind_breaker ops i route next y =
    (let z2 = snd (on_breaker i (\<lambda>t b. ((), cb_after ops (status z < 500) t b)) z) in
     if status z < 500 \<or> aborted z then (Inr (), z2)
     else then_io (ErrorWithHTTPStatus 503 10602 (Some ''service temporarily unavailable'')) Abort z2)"
  using assms
  by (auto simp: behind_breaker_def Execute_def let_in_def Let_def on_breaker_run bind_io_def then_io_def gets_io_def attempt_def
      ret_def when_io_def split: prod.splits)

text \<open>A request at an open breaker is answered 503 without running its handlers.\<close>

theorem open_breaker_refuses:
  assumes "cb_enabled (snd (live_cfg x))" and "getOrCreate ops (cb_route (req x)) x = (Inr i, y)"
    and "fst (cb_State ops (clock y) (objects y ! i)) = StateOpen"
  shows "CircuitBreaker ops next x = CircuitBreaker ops next' x \<and> aborted (snd (CircuitBreaker ops next x)) \<and>
    bodies (snd (CircuitBreaker ops next x)) = bodies y @
      [\<lparr>bd_code = 10602, bd_message = Some (''circuit breaker open for '' @ cb_route (req x)), bd_data = None\<rparr>]"
  using assms
  by (simp add: CircuitBreaker_def behind_breaker_def on_breaker_run bind_io_def then_io_def gets_io_def ErrorWithHTTPStatus_def
      JSON_def write_header_def Abort_def modify_io_def resolveMsg_def)

theorem open_breaker_refuses_witness:
  "aborted (snd (CircuitBreaker simple_ops busy_handler (sample_site 5 StateOpen)))"
proof -
  have "getOrCreate simple_ops (cb_route (req (sample_site 5 StateOpen))) (sample_site 5 StateOpen) = (Inr 0, sample_site 5 StateOpen)"
    by (simp add: getOrCreate_def cb_sync_def sample_site_def cb_route_def sample_request_def then_io_def bind_io_def gets_io_def modify_io_def ret_def)
  then show ?thesis using open_breaker_refuses [of "sample_site 5 StateOpen" simple_ops 0 "sample_site 5 StateOpen" busy_handler busy_handler]
    by (simp add: sample_site_def sample_cb_def simple_ops_def)
qed

text \<open>When the handlers answer 500 or more without aborting, a second body is appended to the answer,
under the first status; an answer below 500 is left as it is and counts as a success of the breaker.\<close>

theorem failed_answer_gets_a_second_body:
  assumes "cb_enabled (snd (live_cfg x))" and "getOrCreate ops (cb_route (req x)) x = (Inr i, y)"
    and "fst (cb_State ops (clock y) (objects y ! i)) \<noteq> StateOpen" and "let_in ops i y = (None, y2)"
    and "next y2 = (Inr (), z)" and "written z"
  shows "status (snd (CircuitBreaker ops next x)) = status z \<and>
    bodies (snd (CircuitBreaker ops next x)) = bodies z @
      (if 500 \<le> status z \<and> \<not> aborted z
       then [\<lparr>bd_code = 10602, bd_message = Some ''service temporarily unavailable'', bd_data = None\<rparr>] else []) \<and>
    (status z < 500 \<longrightarrow> snd (CircuitBreaker ops next x) = snd (on_breaker i (\<lambda>t b. ((), cb_after ops True t b)) z))"
  using assms behind_breaker_in [of ops y i y2 "next" z "cb_route (req x)"]
  by (auto simp: CircuitBreaker_def on_breaker_run bind_io_def then_io_def gets_io_def ErrorWithHTTPStatus_def
      JSON_def write_header_def Abort_def modify_io_def resolveMsg_def Let_def)

theorem failed_answer_gets_a_second_body_witness:
  "map bd_code (bodies (snd (CircuitBreaker simple_ops busy_handler (sample_site 5 StateClosed)))) = [10005, 10602]"
proof -
  let ?x = "sample_site 5 StateClosed"
  have g: "getOrCreate simple_ops (cb_route (req ?x)) ?x = (Inr 0, ?x)"
    by (simp add: getOrCreate_def cb_sync_def sample_site_def cb_route_def sample_request_def then_io_def bind_io_def gets_io_def modify_io_def ret_def)
  have l: "let_in simple_ops 0 ?x = (None, ?x)" by (simp add: let_in_def on_breaker_run simple_ops_def sample_site_def)
  obtain z where z: "busy_handler ?x = (Inr (), z)" "written z" "status z = 503" "\<not> aborted z" "map bd_code (bodies z) = [10005]"
    by (simp add: busy_handler_def ServiceUnavailable_def ErrorWithHTTPStatus_def JSON_def write_header_def then_io_def bind_io_def
        modify_io_def sample_site_def)
  have "fst (cb_State simple_ops (clock ?x) (objects ?x ! 0)) \<noteq> StateOpen" by (simp add: simple_ops_def sample_site_def)
  moreover have "cb_enabled (snd (live_cfg ?x))" by (simp add: sample_site_def sample_cb_def)
  ultimately show ?thesis using failed_answer_gets_a_second_body [of ?x simple_ops 0 ?x ?x busy_handler z] g l z by simp
qed

end
