(* ===== verification/RateLimits.thy ===== *)
theory RateLimits
  imports Breaker
begin

text \<open>
  Limits on how often a client may ask: the sliding windows of registration and login
  (\<open>internal/middleware/security.go\<close>), the captcha that they trigger (\<open>captcha.go\<close>) and the token buckets of
  all requests (\<open>ratelimit.go\<close>). The token bucket is that of \<open>golang.org/x/time/rate\<close>, a parameter, as is
  the verification of a captcha.
\<close>

section \<open>Sliding windows\<close>

text \<open>The instants recorded for each key, oldest first.\<close>

type_synonym window = "string \<Rightarrow> instant list"

definition expire :: "instant \<Rightarrow> instant list \<Rightarrow> instant list" where
  "expire cutoff ts = dropWhile (\<lambda>t. t < cutoff) ts"

definition newSlidingWindow :: window where
  "newSlidingWindow = (\<lambda>_. [])"

definition sw_record :: "string \<Rightarrow> instant \<Rightarrow> window \<Rightarrow> window" where
  "sw_record key t w = w(key := expire (t - minute) (w key) @ [t])"

definition sw_count :: "string \<Rightarrow> instant \<Rightarrow> window \<Rightarrow> int" where
  "sw_count key t w = int (length (filter (\<lambda>s. t - minute < s) (w key)))"

definition sw_cleanup :: "instant \<Rightarrow> window \<Rightarrow> window" where
  "sw_cleanup t w = (\<lambda>k. expire (t - 5 * minute) (w k))"

section \<open>State\<close>

record quota =
  q_enabled :: bool
  q_rate :: int
  q_burst :: int

record rl_config =
  rl_enabled :: bool
  rl_whitelist :: "string list"
  rl_exempt_paths :: "string list"
  rl_global :: quota
  rl_per_user :: quota
  rl_per_ip :: quota

record captcha_config =
  ca_type :: string
  ca_email_per_minute :: int
  ca_ip_per_minute :: int
  ca_whitelist_ttl :: duration

text \<open>
  The limiter keeps the configuration it was built from; \<open>live_rl\<close> is the one the manager has now. A bucket
  comes with the instant it was last used at. \<open>sec_per_minute\<close> are the limits of \<open>security.ip_limit\<close>.
\<close>

record ('d, 'm, 'b, 't) limited = "('d, 'm, 'b) guarded" +
  sec_windows :: "string \<Rightarrow> window"
  sec_per_minute :: "string \<Rightarrow> int"
  email_window :: window
  ip_window :: window
  captcha_white :: "string \<rightharpoonup> instant"
  live_rl :: "nat \<times> rl_config"
  rl_last :: nat
  rl_current :: rl_config
  rl_white :: "string list"
  rl_exempt :: "string list"
  global_bucket :: "'t option"
  user_buckets :: "string \<rightharpoonup> 't \<times> instant"
  ip_buckets :: "string \<rightharpoonup> 't \<times> instant"

section \<open>Registration and login\<close>

definition securityWhitelisted :: "string \<Rightarrow> rl_config \<Rightarrow> bool" where
  "securityWhitelisted ip cfg = list_ex (\<lambda>a. a = ip) (rl_whitelist cfg)"

definition sec_limit :: "string \<Rightarrow> ('d, 'm, 'b, 't, 'z) limited_scheme \<Rightarrow> int" where
  "sec_limit kind x = (if kind = ''register'' \<or> kind = ''login'' then sec_per_minute x kind else 0)"

definition SecurityIPLimit :: "string \<Rightarrow> (('d, 'm, 'b, 't, 'z) limited_scheme, unit) io \<Rightarrow> (('d, 'm, 'b, 't, 'z) limited_scheme, unit) io" where
  "SecurityIPLimit kind next x =
     (let ip = rq_ip (req x); limit = sec_limit kind x in
      if securityWhitelisted ip (snd (live_rl x)) \<or> limit \<le> 0 then next x
      else if sw_count ip (clock x) (sec_windows x kind) \<ge> limit then then_io (RateLimited 1) Abort x
      else next (x\<lparr>sec_windows := (sec_windows x)(kind := sw_record ip (clock x) (sec_windows x kind))\<rparr>))"

section \<open>Captcha\<close>

text \<open>The verification of a token for an address; it exists for the known types of captcha.\<close>

definition captcha_provider :: "captcha_config \<Rightarrow> (string \<Rightarrow> string \<Rightarrow> gerr + bool) \<Rightarrow> (string \<Rightarrow> string \<Rightarrow> gerr + bool) option" where
  "captcha_provider cfg verify =
     (if ca_type cfg \<in> {''tencent'', ''turnstile'', ''recaptcha'', ''hcaptcha''} then Some verify else None)"

definition isWhitelisted :: "string \<Rightarrow> ('d, 'm, 'b, 't, 'z) limited_scheme \<Rightarrow> bool" where
  "isWhitelisted key x = (case captcha_white x key of None \<Rightarrow> False | Some e \<Rightarrow> \<not> e < clock x)"

definition addWhitelist :: "captcha_config \<Rightarrow> string \<Rightarrow> (('d, 'm, 'b, 't, 'z) limited_scheme, unit) io" where
  "addWhitelist cfg key = modify_io (\<lambda>x. x\<lparr>captcha_white := (captcha_white x)(key \<mapsto> clock x + ca_whitelist_ttl cfg)\<rparr>)"

definition cleanWhitelist :: "(('d, 'm, 'b, 't, 'z) limited_scheme, unit) io" where
  "cleanWhitelist = modify_io (\<lambda>x. x\<lparr>captcha_white :=
     (\<lambda>k. case captcha_white x k of None \<Rightarrow> None | Some e \<Rightarrow> if e < clock x then None else Some e)\<rparr>)"

definition needCaptcha :: "captcha_config \<Rightarrow> string \<Rightarrow> string \<Rightarrow> ('d, 'm, 'b, 't, 'z) limited_scheme \<Rightarrow> bool" where
  "needCaptcha cfg email ip x \<longleftrightarrow>
     (email \<noteq> [] \<and> ca_email_per_minute cfg > 0 \<and> sw_count email (clock x) (email_window x) \<ge> ca_email_per_minute cfg) \<or>
     (ip \<noteq> [] \<and> ca_ip_per_minute cfg > 0 \<and> sw_count ip (clock x) (ip_window x) \<ge> ca_ip_per_minute cfg)"

definition recordAttempt :: "string \<Rightarrow> string \<Rightarrow> (('d, 'm, 'b, 't, 'z) limited_scheme, unit) io" where
  "recordAttempt email ip = modify_io (\<lambda>x. x\<lparr>
     email_window := (if email \<noteq> [] then sw_record email (clock x) (email_window x) else email_window x),
     ip_window := (if ip \<noteq> [] then sw_record ip (clock x) (ip_window x) else ip_window x)\<rparr>)"

definition extractRequestJSONField :: "request \<Rightarrow> string \<Rightarrow> string" where
  "extractRequestJSONField rq f = (case rq_body rq of
      None \<Rightarrow> []
    | Some m \<Rightarrow> (case m f of Some (JString v) \<Rightarrow> v | _ \<Rightarrow> []))"

definition extractCaptchaToken :: "request \<Rightarrow> string" where
  "extractCaptchaToken rq = (if rq_header rq ''X-Captcha-Token'' \<noteq> [] then rq_header rq ''X-Captcha-Token''
     else extractRequestJSONField rq ''captcha_token'')"

definition extractEmail :: "request \<Rightarrow> string" where
  "extractEmail rq = (let e = extractRequestJSONField rq ''email'' in if e = [] then [] else TrimSpace (ToLower e))"

definition whitelist_key :: "request \<Rightarrow> string" where
  "whitelist_key rq = extractEmail rq @ ''|'' @ rq_ip rq"

text \<open>A method of a missing provider panics.\<close>

definition Captcha :: "captcha_config \<Rightarrow> (string \<Rightarrow> string \<Rightarrow> gerr + bool) \<Rightarrow> (gerr \<Rightarrow> string) \<Rightarrow>
    (('d, 'm, 'b, 't, 'z) limited_scheme, unit) io \<Rightarrow> (('d, 'm, 'b, 't, 'z) limited_scheme, unit) io" where
  "Captcha cfg verify text next =
     (if ca_type cfg = ''none'' \<or> ca_type cfg = [] then next
      else
        bind_io (gets_io req) (\<lambda>rq.
        then_io (recordAttempt (extractEmail rq) (rq_ip rq))
        (bind_io (gets_io (\<lambda>x. needCaptcha cfg (extractEmail rq) (rq_ip rq) x)) (\<lambda>needed.
         bind_io (gets_io (isWhitelisted (whitelist_key rq))) (\<lambda>white.
          if \<not> needed \<or> white then next
          else if extractCaptchaToken rq = [] then then_io (Error 10205 None) Abort
          else case captcha_provider cfg verify of
            None \<Rightarrow> throw (Sentinel ''nil pointer dereference'')
          | Some verify' \<Rightarrow>
              (case verify' (extractCaptchaToken rq) (rq_ip rq) of
                 Inl e \<Rightarrow> then_io (Error 10603 (Some (text e))) Abort
               | Inr False \<Rightarrow> then_io (Error 10603 None) Abort
               | Inr True \<Rightarrow> then_io (addWhitelist cfg (whitelist_key rq)) next))))))"

section \<open>Token buckets\<close>

text \<open>The operations of the bucket: a new one, the taking of a token at an instant, its rate and its filling.\<close>

record 't bucket_ops =
  NewLimiter :: "int \<Rightarrow> int \<Rightarrow> 't"
  Allow :: "instant \<Rightarrow> 't \<Rightarrow> bool \<times> 't"
  Limit :: "'t \<Rightarrow> real"
  Tokens :: "instant \<Rightarrow> 't \<Rightarrow> real"

definition new_global :: "'t bucket_ops \<Rightarrow> rl_config \<Rightarrow> 't option" where
  "new_global ops cfg =
     (if q_enabled (rl_global cfg) then Some (NewLimiter ops (q_rate (rl_global cfg)) (q_burst (rl_global cfg))) else None)"

text \<open>A new configuration replaces the lists and the global bucket; the others keep their parameters.\<close>

definition rl_sync :: "'t bucket_ops \<Rightarrow> (('d, 'm, 'b, 't, 'z) limited_scheme, unit) io" where
  "rl_sync ops = modify_io (\<lambda>x.
     if rl_last x = fst (live_rl x) then x
     else let cfg = snd (live_rl x) in
       x\<lparr>rl_white := rl_whitelist cfg, rl_exempt := rl_exempt_paths cfg, global_bucket := new_global ops cfg,
         rl_current := cfg, rl_last := fst (live_rl x)\<rparr>)"

definition isExemptPath :: "string list \<Rightarrow> string \<Rightarrow> bool" where
  "isExemptPath ps path = list_ex (\<lambda>p. p \<noteq> [] \<and> HasPrefix path p) ps"

definition stale :: "instant \<Rightarrow> 't \<times> instant \<Rightarrow> bool" where
  "stale t b = (t - snd b > 10 * minute)"

definition drop_stale :: "instant \<Rightarrow> (string \<rightharpoonup> 't \<times> instant) \<Rightarrow> string \<rightharpoonup> 't \<times> instant" where
  "drop_stale t m = (\<lambda>k. case m k of None \<Rightarrow> None | Some b \<Rightarrow> if stale t b then None else Some b)"

definition rl_cleanup :: "(('d, 'm, 'b, 't, 'z) limited_scheme, unit) io" where
  "rl_cleanup = modify_io (\<lambda>x. x\<lparr>user_buckets := drop_stale (clock x) (user_buckets x),
     ip_buckets := drop_stale (clock x) (ip_buckets x)\<rparr>)"

definition checkPerKey :: "'t bucket_ops \<Rightarrow> quota \<Rightarrow> instant \<Rightarrow> string \<Rightarrow> (string \<rightharpoonup> 't \<times> instant) \<Rightarrow> bool \<times> (string \<rightharpoonup> 't \<times> instant)" where
  "checkPerKey ops q t key m =
     (let b = (case m key of Some (b, seen) \<Rightarrow> b | None \<Rightarrow> NewLimiter ops (q_rate q) (q_burst q)) in
      case Allow ops t b of (ok, b') \<Rightarrow> (ok, m(key \<mapsto> (b', t))))"

definition setRateLimitHeaders :: "'t bucket_ops \<Rightarrow> 't option \<Rightarrow> (('d, 'm, 'b, 't, 'z) limited_scheme, unit) io" where
  "setRateLimitHeaders ops tb = (case tb of
      None \<Rightarrow> ret ()
    | Some b \<Rightarrow> bind_io (gets_io clock) (\<lambda>t.
        let reset = (if Limit ops b > 0 then t + \<lfloor>real_of_int second / Limit ops b\<rfloor> else t + second) in
        then_io (Header ''X-RateLimit-Limit'' (Itoa \<lfloor>Limit ops b\<rfloor>))
        (then_io (Header ''X-RateLimit-Remaining'' (Itoa \<lfloor>Tokens ops t b\<rfloor>))
        (Header ''X-RateLimit-Reset'' (Itoa (unix_seconds reset))))))"

definition activeBucket :: "string \<Rightarrow> string \<Rightarrow> ('d, 'm, 'b, 't, 'z) limited_scheme \<Rightarrow> 't option" where
  "activeBucket user ip x =
     (if q_enabled (rl_per_user (rl_current x)) \<and> user \<noteq> [] \<and> user_buckets x user \<noteq> None
      then map_option fst (user_buckets x user)
      else if q_enabled (rl_per_ip (rl_current x)) \<and> ip_buckets x ip \<noteq> None
      then map_option fst (ip_buckets x ip)
      else global_bucket x)"

text \<open>The three checks; a check that is switched off lets everything pass.\<close>

definition take_global :: "'t bucket_ops \<Rightarrow> (('d, 'm, 'b, 't, 'z) limited_scheme, bool) io" where
  "take_global ops = bind_io (gets_io (\<lambda>x. (global_bucket x, clock x))) (\<lambda>(g, t).
     case g of
       None \<Rightarrow> ret True
     | Some b \<Rightarrow> (case Allow ops t b of (ok, b') \<Rightarrow> then_io (modify_io (\<lambda>x. x\<lparr>global_bucket := Some b'\<rparr>)) (ret ok)))"

definition checkPerUser :: "'t bucket_ops \<Rightarrow> string \<Rightarrow> (('d, 'm, 'b, 't, 'z) limited_scheme, bool) io" where
  "checkPerUser ops user = bind_io (gets_io (\<lambda>x. checkPerKey ops (rl_per_user (rl_current x)) (clock x) user (user_buckets x)))
     (\<lambda>(ok, m). then_io (modify_io (\<lambda>x. x\<lparr>user_buckets := m\<rparr>)) (ret ok))"

definition checkPerIP :: "'t bucket_ops \<Rightarrow> string \<Rightarrow> (('d, 'm, 'b, 't, 'z) limited_scheme, bool) io" where
  "checkPerIP ops ip = bind_io (gets_io (\<lambda>x. checkPerKey ops (rl_per_ip (rl_current x)) (clock x) ip (ip_buckets x)))
     (\<lambda>(ok, m). then_io (modify_io (\<lambda>x. x\<lparr>ip_buckets := m\<rparr>)) (ret ok))"

definition limit_user :: "'t bucket_ops \<Rightarrow> string \<Rightarrow> (('d, 'm, 'b, 't, 'z) limited_scheme, bool) io" where
  "limit_user ops user = bind_io (gets_io (\<lambda>x. q_enabled (rl_per_user (rl_current x)) \<and> user \<noteq> []))
     (\<lambda>on. if on then checkPerUser ops user else ret True)"

definition limit_ip :: "'t bucket_ops \<Rightarrow> string \<Rightarrow> (('d, 'm, 'b, 't, 'z) limited_scheme, bool) io" where
  "limit_ip ops ip = bind_io (gets_io (\<lambda>x. q_enabled (rl_per_ip (rl_current x))))
     (\<lambda>on. if on then checkPerIP ops ip else ret True)"

definition rl_reject :: "'t bucket_ops \<Rightarrow> ('x \<Rightarrow> 't option) \<Rightarrow> (('d, 'm, 'b, 't, 'z) limited_scheme \<Rightarrow> 'x) \<Rightarrow>
    (('d, 'm, 'b, 't, 'z) limited_scheme, unit) io" where
  "rl_reject ops bucket f = bind_io (gets_io (\<lambda>x. bucket (f x))) (\<lambda>b.
     then_io (setRateLimitHeaders ops b) (then_io (RateLimited 1) Abort))"

definition RateLimit :: "'t bucket_ops \<Rightarrow> (('d, 'm, 'b, 't, 'z) limited_scheme, unit) io \<Rightarrow> (('d, 'm, 'b, 't, 'z) limited_scheme, unit) io" where
  "RateLimit ops next =
     bind_io (gets_io (\<lambda>x. rl_enabled (snd (live_rl x)))) (\<lambda>enabled.
     if \<not> enabled then next
     else then_io (rl_sync ops)
       (bind_io (gets_io (\<lambda>x. (rq_ip (req x), user_id x))) (\<lambda>(ip, user).
        bind_io (gets_io (\<lambda>x. ip \<in> set (rl_white x) \<or> (user \<noteq> [] \<and> user \<in> set (rl_white x)) \<or>
            isExemptPath (rl_exempt x) (rq_path (req x)))) (\<lambda>free.
        if free then next
        else bind_io (take_global ops) (\<lambda>ok.
          if \<not> ok then rl_reject ops (\<lambda>b. b) global_bucket
          else bind_io (limit_user ops user) (\<lambda>ok.
            if \<not> ok then rl_reject ops (\<lambda>m. map_option fst (m user)) user_buckets
            else bind_io (limit_ip ops ip) (\<lambda>ok.
              if \<not> ok then rl_reject ops (\<lambda>m. map_option fst (m ip)) ip_buckets
              else bind_io (gets_io (activeBucket user ip)) (\<lambda>tb.
                then_io (setRateLimitHeaders ops tb) next))))))))"

section \<open>What a window lets pass\<close>

text \<open>
  Requests of all addresses at one window. The middleware counts and records in two critical sections, so other
  requests, rounds of the cleanup and time come between: \<open>p\<close> is the number of requests of an address that were
  found below the limit and are not recorded yet, of which there are at most \<open>m\<close> at a time, and \<open>h\<close> the instants at
  which its requests were recorded and passed.
\<close>

inductive window_run :: "int \<Rightarrow> nat \<Rightarrow> (string \<Rightarrow> instant list) \<Rightarrow> (string \<Rightarrow> nat) \<Rightarrow> window \<Rightarrow> instant \<Rightarrow> bool" for limit m where
  start: "window_run limit m (\<lambda>_. []) (\<lambda>_. 0) newSlidingWindow t"
| wait: "window_run limit m h p w t \<Longrightarrow> t \<le> t' \<Longrightarrow> window_run limit m h p w t'"
| count: "window_run limit m h p w t \<Longrightarrow> \<not> sw_count ip t w \<ge> limit \<Longrightarrow> p ip < m \<Longrightarrow> window_run limit m h (p(ip := Suc (p ip))) w t"
| pass: "window_run limit m h p w t \<Longrightarrow> p ip = Suc n \<Longrightarrow> window_run limit m (h(ip := h ip @ [t])) (p(ip := n)) (sw_record ip t w) t"
| cleanup: "window_run limit m h p w t \<Longrightarrow> window_run limit m h p (sw_cleanup t w) t"

abbreviation since :: "instant \<Rightarrow> instant list \<Rightarrow> instant list" where
  "since c ts \<equiv> filter (\<lambda>s. c < s) ts"

lemma since_expire: "c \<le> d \<Longrightarrow> since d (expire c ts) = since d ts"
  unfolding expire_def by (induction ts) auto

lemma since_later: "c \<le> d \<Longrightarrow> since d (since c ts) = since d ts"
  by (induction ts) auto

lemma window_keeps:
  assumes "window_run limit m h p w t"
  shows "since (t - minute) (w ip) = since (t - minute) (h ip) \<and> (\<forall>s \<in> set (h ip). s \<le> t)"
  using assms
proof (induction arbitrary: ip)
  case (start t)
  then show ?case by (simp add: newSlidingWindow_def)
next
  case (wait h p w t t')
  have "since (t' - minute) (since (t - minute) (w ip)) = since (t' - minute) (since (t - minute) (h ip))"
    using wait.IH [of ip] by presburger
  then have "since (t' - minute) (w ip) = since (t' - minute) (h ip)"
    using since_later [of "t - minute" "t' - minute"] wait.hyps(2) by simp
  then show ?case using wait.IH [of ip] wait.hyps(2) by (metis order_trans)
next
  case (pass h p w t k n)
  then show ?case by (auto simp: sw_record_def since_expire minute_def second_def)
next
  case (cleanup h p w t)
  then show ?case by (simp add: sw_cleanup_def since_expire minute_def second_def)
qed

text \<open>The instants that passed in a minute after \<open>x\<close>.\<close>

definition in_minute :: "instant \<Rightarrow> instant list \<Rightarrow> int" where
  "in_minute x ts = int (length (filter (\<lambda>s. x < s \<and> s \<le> x + minute) ts))"

lemma in_minute_snoc: "in_minute x (ts @ [t]) = in_minute x ts + (if x < t \<and> t \<le> x + minute then 1 else 0)"
  by (simp add: in_minute_def)

lemma in_minute_since:
  assumes "t \<le> x + minute"
  shows "in_minute x ts \<le> int (length (since (t - minute) ts))"
  using assms unfolding in_minute_def by (induction ts) auto

text \<open>Those that wait to be recorded still fall into a minute that is not over.\<close>

lemma window_bound:
  assumes "window_run limit m h p w t" and "0 < limit" and "0 < m"
  shows "p ip \<le> m \<and> in_minute x (h ip) + (if t \<le> x + minute then int (p ip) else 0) < limit + int m"
  using assms
proof (induction arbitrary: ip x)
  case (start t)
  then show ?case by (simp add: in_minute_def)
next
  case (wait h p w t t')
  show ?case using wait.IH [OF wait.prems, of ip x] wait.hyps(2) by (simp split: if_splits)
next
  case (count h p w t k)
  show ?case
  proof (cases "ip = k \<and> t \<le> x + minute")
    case True
    have "int (length (since (t - minute) (h k))) < limit"
      using count.hyps(2) window_keeps [OF count.hyps(1), of k] by (simp add: sw_count_def)
    then show ?thesis using True in_minute_since [of t x "h k"] count.hyps(3) by simp
  next
    case False
    then show ?thesis using count.IH [OF count.prems, of ip x] count.hyps(3) by (cases "ip = k") (simp_all split: if_splits)
  qed
next
  case (pass h p w t k n)
  show ?case using pass.IH [OF pass.prems, of ip x] pass.hyps(2) by (cases "ip = k") (simp_all add: in_minute_snoc split: if_splits)
next
  case (cleanup h p w t)
  then show ?case by blast
qed

text \<open>C31. While at most \<open>m\<close> requests of an address to registration or login are between their count and their record at
a time, at most the configured number plus \<open>m - 1\<close> of them pass in any minute, wherever it begins, however other
addresses and the cleanup interleave; requests that come one after the other keep the limit exactly.\<close>

theorem window_bounds_requests:
  assumes "window_run limit m h p w t" and "0 < limit" and "0 < m"
  shows "in_minute x (h ip) \<le> limit + int m - 1"
  using window_bound [OF assms, of ip x] by (auto split: if_splits)

text \<open>Two requests that count before either is recorded pass a limit of one: the bound is reached.\<close>

theorem window_bounds_requests_witness:
  "in_minute 0 [1, 2] \<le> 2 \<and> in_minute 0 [1, 2] = (2 :: int)"
proof -
  let ?w = "sw_record ''a'' 2 (sw_record ''a'' 1 newSlidingWindow)"
  have 0: "window_run 1 2 (\<lambda>_. []) ((\<lambda>_. 0)(''a'' := Suc 0)) newSlidingWindow 1"
    using window_run.count [OF window_run.start [of 1 2 1], of "''a''"] by (simp add: sw_count_def newSlidingWindow_def)
  have 1: "window_run 1 2 (\<lambda>_. []) ((\<lambda>_. 0)(''a'' := Suc (Suc 0))) newSlidingWindow 1"
    using window_run.count [OF 0, of "''a''"] by (simp add: sw_count_def newSlidingWindow_def)
  have 2: "window_run 1 2 ((\<lambda>_. [])(''a'' := [1])) ((\<lambda>_. 0)(''a'' := Suc 0)) (sw_record ''a'' 1 newSlidingWindow) 2"
    using window_run.wait [OF window_run.pass [OF 1, of "''a''" "Suc 0"], of 2] by simp
  have "window_run 1 2 ((\<lambda>_. [])(''a'' := [1, 2])) ((\<lambda>_. 0)(''a'' := 0)) ?w 2"
    using window_run.pass [OF 2, of "''a''" 0] by simp
  from window_bounds_requests [OF this, of 0 "''a''"] show ?thesis by (simp add: in_minute_def minute_def second_def)
qed

text \<open>A passing request does in the middleware what a step of the run does.\<close>

lemma SecurityIPLimit_step:
  assumes "\<not> securityWhitelisted (rq_ip (req x)) (snd (live_rl x))" and "0 < sec_limit kind x"
  shows "SecurityIPLimit kind next x =
    (if sw_count (rq_ip (req x)) (clock x) (sec_windows x kind) \<ge> sec_limit kind x then then_io (RateLimited 1) Abort x
     else next (x\<lparr>sec_windows := (sec_windows x)(kind := sw_record (rq_ip (req x)) (clock x) (sec_windows x kind))\<rparr>))"
  using assms by (simp add: SecurityIPLimit_def Let_def)

section \<open>The captcha\<close>

text \<open>A request is let through when its counts, with itself, stay below the thresholds, when the client was
  let through before, or when its token is verified.\<close>

definition captcha_passes :: "captcha_config \<Rightarrow> (string \<Rightarrow> string \<Rightarrow> gerr + bool) \<Rightarrow> ('d, 'm, 'b, 't, 'z) limited_scheme \<Rightarrow> bool" where
  "captcha_passes cfg verify x \<longleftrightarrow>
     (let rq = req x; y = snd (recordAttempt (extractEmail rq) (rq_ip rq) x) in
      \<not> needCaptcha cfg (extractEmail rq) (rq_ip rq) y \<or> isWhitelisted (whitelist_key rq) x \<or>
      (extractCaptchaToken rq \<noteq> [] \<and> verify (extractCaptchaToken rq) (rq_ip rq) = Inr True))"

lemma recordAttempt_state [simp]:
  "captcha_white (snd (recordAttempt e i x)) = captcha_white x" "clock (snd (recordAttempt e i x)) = clock x"
  "req (snd (recordAttempt e i x)) = req x" "fst (recordAttempt e i x) = Inr ()"
  by (simp_all add: recordAttempt_def modify_io_def)

text \<open>With a known type of captcha, a request is handled exactly when its counts stay below the
thresholds, when its client is on the list of the verified, or when its token is verified; otherwise
it is ended, whatever the handlers would do. A client that is verified stays on the list for the
configured time.\<close>

theorem captcha_decides:
  assumes "ca_type cfg \<in> {''tencent'', ''turnstile'', ''recaptcha'', ''hcaptcha''}"
  shows "(captcha_passes cfg verify x \<longrightarrow> (\<exists>y. Captcha cfg verify txt next x = next y \<and> req y = req x)) \<and>
    (\<not> captcha_passes cfg verify x \<longrightarrow> aborted (snd (Captcha cfg verify txt next x)) \<and>
       Captcha cfg verify txt next x = Captcha cfg verify txt next' x) \<and>
    (isWhitelisted k (snd (addWhitelist cfg k x)) \<longleftrightarrow> 0 \<le> ca_whitelist_ttl cfg)"
proof -
  obtain y where y: "recordAttempt (extractEmail (req x)) (rq_ip (req x)) x = (Inr (), y)" "req y = req x"
    "captcha_white y = captcha_white x" "clock y = clock x"
    using recordAttempt_state [of "extractEmail (req x)" "rq_ip (req x)" x] by (metis prod.collapse)
  have t: "ca_type cfg \<noteq> ''none''" "ca_type cfg \<noteq> []" "captcha_provider cfg verify = Some verify"
    using assms by (auto simp: captcha_provider_def)
  have w: "isWhitelisted k' y = isWhitelisted k' x" for k' using y by (simp add: isWhitelisted_def split: option.split)
  have run: "Captcha cfg verify txt n x =
      (if \<not> needCaptcha cfg (extractEmail (req x)) (rq_ip (req x)) y \<or> isWhitelisted (whitelist_key (req x)) y then n y
       else if extractCaptchaToken (req x) = [] then then_io (Error 10205 None) Abort y
       else case verify (extractCaptchaToken (req x)) (rq_ip (req x)) of
           Inl e \<Rightarrow> then_io (Error 10603 (Some (txt e))) Abort y
         | Inr False \<Rightarrow> then_io (Error 10603 None) Abort y
         | Inr True \<Rightarrow> n (y\<lparr>captcha_white := (captcha_white y)(whitelist_key (req x) \<mapsto> clock y + ca_whitelist_ttl cfg)\<rparr>))" for n
    using t y(1,2)
    by (simp add: Captcha_def run_simps run_then addWhitelist_def snd_conv [of _ y] split: sum.split bool.split)
  have "captcha_passes cfg verify x \<longleftrightarrow> \<not> needCaptcha cfg (extractEmail (req x)) (rq_ip (req x)) y \<or> isWhitelisted (whitelist_key (req x)) y \<or>
      (extractCaptchaToken (req x) \<noteq> [] \<and> verify (extractCaptchaToken (req x)) (rq_ip (req x)) = Inr True)"
    using y w by (simp add: captcha_passes_def Let_def)
  moreover have "isWhitelisted k (snd (addWhitelist cfg k x)) \<longleftrightarrow> 0 \<le> ca_whitelist_ttl cfg"
    by (simp add: addWhitelist_def modify_io_def isWhitelisted_def not_less)
  moreover have "req (y\<lparr>captcha_white := m\<rparr>) = req x" for m using y by simp
  ultimately show ?thesis unfolding run using y(2)
    by (auto split: sum.split bool.split)
qed

definition captcha_cfg :: captcha_config where
  "captcha_cfg = \<lparr>ca_type = ''turnstile'', ca_email_per_minute = 1, ca_ip_per_minute = 0, ca_whitelist_ttl = 30 * minute\<rparr>"

definition open_quota :: quota where
  "open_quota = \<lparr>q_enabled = True, q_rate = 1, q_burst = 2\<rparr>"

definition sample_rl :: rl_config where
  "sample_rl = \<lparr>rl_enabled = True, rl_whitelist = [''127.0.0.1''], rl_exempt_paths = [''/api/v1/idle/heartbeat''],
     rl_global = open_quota, rl_per_user = open_quota, rl_per_ip = open_quota\<rparr>"

definition login_request :: request where
  "login_request = sample_request\<lparr>rq_body := Some [''email'' \<mapsto> JString ''A@b.c'']\<rparr>"

text \<open>A process with one token left in the global bucket; a bucket is the number of its tokens.\<close>

definition count_ops :: "int bucket_ops" where
  "count_ops = \<lparr>NewLimiter = (\<lambda>r b. b), Allow = (\<lambda>t b. if b > 0 then (True, b - 1) else (False, b)), Limit = (\<lambda>b. 1), Tokens = (\<lambda>t. real_of_int)\<rparr>"

definition sample_limited :: "request \<Rightarrow> int option \<Rightarrow> (string, unit, breaker_state, int) limited" where
  "sample_limited rq g = \<lparr>req = rq, status = 200, written = False, bodies = [], headers = [],
     aborted = False, user_id = [], clock = 10, sem = None, inflight = 0,
     objects = [], routes = Map.empty, cb_current = sample_cb, cb_last = 0, live_cfg = (0, sample_cb), degrade = \<lparr>openCount = 0, degraded = False\<rparr>,
     sec_windows = (\<lambda>_. newSlidingWindow), sec_per_minute = (\<lambda>_. 5), email_window = newSlidingWindow, ip_window = newSlidingWindow,
     captcha_white = Map.empty, live_rl = (0, sample_rl), rl_last = 0, rl_current = sample_rl,
     rl_white = rl_whitelist sample_rl, rl_exempt = rl_exempt_paths sample_rl, global_bucket = g, user_buckets = Map.empty,
     ip_buckets = [''10.0.0.1'' \<mapsto> (0, 5)]\<rparr>"

theorem captcha_decides_witness:
  "aborted (snd (Captcha captcha_cfg (\<lambda>_ _. Inr True) (\<lambda>_. []) (ret ()) (sample_limited login_request None)))"
proof -
  let ?x = "sample_limited login_request None"
  have "\<not> captcha_passes captcha_cfg (\<lambda>_ _. Inr True) ?x"
    by (simp add: captcha_passes_def Let_def sample_limited_def login_request_def sample_request_def extractEmail_def extractRequestJSONField_def
        TrimSpace_def ToLower_def lower_def is_space_def recordAttempt_def modify_io_def needCaptcha_def captcha_cfg_def sw_count_def
        sw_record_def newSlidingWindow_def expire_def minute_def second_def isWhitelisted_def extractCaptchaToken_def)
  then show ?thesis using captcha_decides [of captcha_cfg] by (fastforce simp: captcha_cfg_def)
qed

section \<open>The token buckets\<close>

lemma setRateLimitHeaders_run: "\<exists>h. setRateLimitHeaders ops tb x = (Inr (), x\<lparr>headers := h\<rparr>)"
proof (cases tb)
  case None
  then have "setRateLimitHeaders ops tb x = (Inr (), x\<lparr>headers := headers x\<rparr>)" by (simp add: setRateLimitHeaders_def ret_def)
  then show ?thesis ..
next
  case (Some b)
  show ?thesis unfolding Some setRateLimitHeaders_def option.case Header_def Let_def
    by (simp add: run_simps) (auto simp: modify_io_def)
qed

text \<open>The synchronised limiter, whether a request is free of limits, and the three verdicts.\<close>

definition synced :: "'t bucket_ops \<Rightarrow> ('d, 'm, 'b, 't, 'z) limited_scheme \<Rightarrow> ('d, 'm, 'b, 't, 'z) limited_scheme" where
  "synced ops x = snd (rl_sync ops x)"

definition rl_free :: "('d, 'm, 'b, 't, 'z) limited_scheme \<Rightarrow> bool" where
  "rl_free y \<longleftrightarrow> rq_ip (req y) \<in> set (rl_white y) \<or> (user_id y \<noteq> [] \<and> user_id y \<in> set (rl_white y)) \<or>
     isExemptPath (rl_exempt y) (rq_path (req y))"

definition global_ok :: "'t bucket_ops \<Rightarrow> ('d, 'm, 'b, 't, 'z) limited_scheme \<Rightarrow> bool" where
  "global_ok ops y = (case global_bucket y of None \<Rightarrow> True | Some b \<Rightarrow> fst (Allow ops (clock y) b))"

definition user_ok :: "'t bucket_ops \<Rightarrow> ('d, 'm, 'b, 't, 'z) limited_scheme \<Rightarrow> bool" where
  "user_ok ops y \<longleftrightarrow> (q_enabled (rl_per_user (rl_current y)) \<and> user_id y \<noteq> [] \<longrightarrow>
     fst (checkPerKey ops (rl_per_user (rl_current y)) (clock y) (user_id y) (user_buckets y)))"

definition ip_ok :: "'t bucket_ops \<Rightarrow> ('d, 'm, 'b, 't, 'z) limited_scheme \<Rightarrow> bool" where
  "ip_ok ops y \<longleftrightarrow> (q_enabled (rl_per_ip (rl_current y)) \<longrightarrow>
     fst (checkPerKey ops (rl_per_ip (rl_current y)) (clock y) (rq_ip (req y)) (ip_buckets y)))"

text \<open>The limiter after the checks a request got to.\<close>

definition after_global :: "'t bucket_ops \<Rightarrow> ('d, 'm, 'b, 't, 'z) limited_scheme \<Rightarrow> ('d, 'm, 'b, 't, 'z) limited_scheme" where
  "after_global ops y = snd (take_global ops y)"

definition after_user :: "'t bucket_ops \<Rightarrow> ('d, 'm, 'b, 't, 'z) limited_scheme \<Rightarrow> ('d, 'm, 'b, 't, 'z) limited_scheme" where
  "after_user ops y = (if q_enabled (rl_per_user (rl_current y)) \<and> user_id y \<noteq> [] then snd (checkPerUser ops (user_id y) y) else y)"

definition after_ip :: "'t bucket_ops \<Rightarrow> ('d, 'm, 'b, 't, 'z) limited_scheme \<Rightarrow> ('d, 'm, 'b, 't, 'z) limited_scheme" where
  "after_ip ops y = (if q_enabled (rl_per_ip (rl_current y)) then snd (checkPerIP ops (rq_ip (req y)) y) else y)"

text \<open>Everything but the buckets and the headers is kept by the checks.\<close>

definition same_request :: "('d, 'm, 'b, 't, 'z) limited_scheme \<Rightarrow> ('d, 'm, 'b, 't, 'z) limited_scheme \<Rightarrow> bool" where
  "same_request x y \<longleftrightarrow> req y = req x \<and> user_id y = user_id x \<and> clock y = clock x \<and> written y = written x \<and> status y = status x \<and>
     bodies y = bodies x \<and> aborted y = aborted x \<and> objects y = objects x \<and> routes y = routes x \<and> degrade y = degrade x"

lemma take_global_run: "take_global ops y = (Inr (global_ok ops y), after_global ops y)"
  by (auto simp: after_global_def take_global_def global_ok_def run_simps ret_def split: option.splits prod.splits)

lemma after_global_same: "same_request y (after_global ops y) \<and> user_buckets (after_global ops y) = user_buckets y \<and>
    ip_buckets (after_global ops y) = ip_buckets y \<and> rl_current (after_global ops y) = rl_current y"
  by (auto simp: after_global_def take_global_def run_simps ret_def same_request_def split: option.splits prod.splits)

lemma checkPerUser_run:
  "checkPerUser ops k y = (Inr (fst (checkPerKey ops (rl_per_user (rl_current y)) (clock y) k (user_buckets y))), snd (checkPerUser ops k y))"
  by (auto simp: checkPerUser_def run_simps ret_def split: prod.splits)

lemma checkPerIP_run:
  "checkPerIP ops k y = (Inr (fst (checkPerKey ops (rl_per_ip (rl_current y)) (clock y) k (ip_buckets y))), snd (checkPerIP ops k y))"
  by (auto simp: checkPerIP_def run_simps ret_def split: prod.splits)

lemma after_user_same: "same_request y (after_user ops y) \<and> global_bucket (after_user ops y) = global_bucket y \<and>
    ip_buckets (after_user ops y) = ip_buckets y \<and> rl_current (after_user ops y) = rl_current y"
  by (auto simp: after_user_def checkPerUser_def run_simps ret_def same_request_def split: prod.splits)

lemma after_ip_same: "same_request y (after_ip ops y) \<and> global_bucket (after_ip ops y) = global_bucket y \<and>
    user_buckets (after_ip ops y) = user_buckets y"
  by (auto simp: after_ip_def checkPerIP_def run_simps ret_def same_request_def split: prod.splits)

lemma synced_same: "same_request x (synced ops x)" "rl_sync ops x = (Inr (), synced ops x)"
  by (auto simp: synced_def rl_sync_def modify_io_def same_request_def Let_def)

lemma reject_run:
  "rl_reject ops bucket f x = (Inr (), snd (rl_reject ops bucket f x)) \<and> aborted (snd (rl_reject ops bucket f x)) \<and>
   (\<not> written x \<longrightarrow> status (snd (rl_reject ops bucket f x)) = 429) \<and>
   global_bucket (snd (rl_reject ops bucket f x)) = global_bucket x"
proof -
  obtain h where "setRateLimitHeaders ops (bucket (f x)) x = (Inr (), x\<lparr>headers := h\<rparr>)" using setRateLimitHeaders_run by blast
  then show ?thesis
    by (simp add: rl_reject_def run_simps run_then RateLimited_def ErrorWithHTTPStatus_def JSON_def write_header_def Header_def Abort_def)
      (simp add: modify_io_def)
qed

text \<open>A request that is not free of limits is handled exactly when the global bucket, that of its user and
that of its address each give a token; otherwise it is answered 429 without its handlers, and a
request that its address makes fail has used up a global token all the same.\<close>

theorem rate_limit_decides:
  assumes "rl_enabled (snd (live_rl x))" and "\<not> rl_free (synced ops x)"
  shows "(global_ok ops (synced ops x) \<and> user_ok ops (synced ops x) \<and> ip_ok ops (synced ops x) \<longrightarrow>
      (\<exists>h. RateLimit ops next x = next ((after_ip ops (after_user ops (after_global ops (synced ops x))))\<lparr>headers := h\<rparr>))) \<and>
    (\<not> (global_ok ops (synced ops x) \<and> user_ok ops (synced ops x) \<and> ip_ok ops (synced ops x)) \<longrightarrow>
      RateLimit ops next x = RateLimit ops next' x \<and> aborted (snd (RateLimit ops next x)) \<and>
      (\<not> written x \<longrightarrow> status (snd (RateLimit ops next x)) = 429) \<and>
      global_bucket (snd (RateLimit ops next x)) = global_bucket (after_global ops (synced ops x)))"
proof -
  define y where "y = synced ops x"
  define g where "g = after_global ops y"
  define u where "u = after_user ops g"
  define i where "i = after_ip ops u"
  have keep: "same_request y g" "user_buckets g = user_buckets y" "ip_buckets g = ip_buckets y" "rl_current g = rl_current y"
    "same_request g u" "global_bucket u = global_bucket g" "ip_buckets u = ip_buckets g" "rl_current u = rl_current g"
    "same_request u i" "global_bucket i = global_bucket u" "same_request x y"
    using after_global_same [of y ops] after_user_same [of g ops] after_ip_same [of u ops] synced_same(1) [of x ops]
    unfolding g_def u_def i_def y_def by auto
  obtain h where h: "setRateLimitHeaders ops (activeBucket (user_id i) (rq_ip (req i)) i) i = (Inr (), i\<lparr>headers := h\<rparr>)"
    using setRateLimitHeaders_run by blast
  have ids: "user_id g = user_id y" "user_id u = user_id y" "user_id i = user_id y" "req g = req y" "req u = req y" "req i = req y"
    "written i = written x" "written u = written x" "written g = written x" "clock g = clock y" "clock u = clock y"
    using keep by (auto simp: same_request_def)
  have G: "take_global ops y = (Inr (global_ok ops y), g)" unfolding g_def by (rule take_global_run)
  have U: "limit_user ops (user_id y) g = (Inr (user_ok ops y), u)"
    using keep ids checkPerUser_run [of ops "user_id y" g] by (auto simp: limit_user_def run_gets user_ok_def u_def after_user_def ret_def)
  have I: "limit_ip ops (rq_ip (req y)) u = (Inr (ip_ok ops y), i)"
    using keep ids checkPerIP_run [of ops "rq_ip (req y)" u] by (auto simp: limit_ip_def run_gets ip_ok_def i_def after_ip_def ret_def)
  have run: "RateLimit ops n x =
      (if \<not> global_ok ops y then rl_reject ops (\<lambda>b. b) global_bucket g
       else if \<not> user_ok ops y then rl_reject ops (\<lambda>m. map_option fst (m (user_id y))) user_buckets u
       else if \<not> ip_ok ops y then rl_reject ops (\<lambda>m. map_option fst (m (rq_ip (req y)))) ip_buckets i
       else n (i\<lparr>headers := h\<rparr>))" for n
    using assms(1) assms(2) [folded y_def] h ids
    by (auto simp add: RateLimit_def run_gets run_then synced_same(2) y_def [symmetric] rl_free_def
        bind_io_step [where m = "take_global ops", OF G] bind_io_step [where m = "limit_user ops (user_id y)", OF U]
        bind_io_step [where m = "limit_ip ops (rq_ip (req y))", OF I])
  show ?thesis
    using run reject_run [of ops "\<lambda>b. b" global_bucket g] reject_run [of ops "\<lambda>m. map_option fst (m (user_id y))" user_buckets u]
      reject_run [of ops "\<lambda>m. map_option fst (m (rq_ip (req y)))" ip_buckets i] ids keep(6,10)
    unfolding y_def [symmetric] g_def [symmetric] u_def [symmetric] i_def [symmetric] by auto
qed

text \<open>An address whose bucket is empty: the request is refused and the global bucket has lost a token.\<close>

theorem rate_limit_decides_witness:
  "global_bucket (snd (RateLimit count_ops (ret ()) (sample_limited sample_request (Some 7)))) = Some 6"
proof -
  let ?x = "sample_limited sample_request (Some 7)"
  have s: "synced count_ops ?x = ?x" by (simp add: synced_def rl_sync_def modify_io_def sample_limited_def)
  have "\<not> rl_free ?x"
    by (simp add: rl_free_def sample_limited_def sample_rl_def sample_request_def isExemptPath_def HasPrefix_def)
  moreover have "\<not> ip_ok count_ops ?x"
    by (simp add: ip_ok_def sample_limited_def sample_rl_def sample_request_def open_quota_def checkPerKey_def count_ops_def)
  moreover have "global_bucket (after_global count_ops ?x) = Some 6"
    by (simp add: after_global_def take_global_def run_simps sample_limited_def count_ops_def ret_def)
  moreover have "rl_enabled (snd (live_rl ?x))" by (simp add: sample_limited_def sample_rl_def)
  ultimately show ?thesis using rate_limit_decides [of ?x count_ops "ret ()" "ret ()"] s by simp
qed

end
