(* ===== verification/Handlers.thy ===== *)
theory Handlers
  imports RateLimits AuthService IdleService TaskService ShopService
begin

text \<open>
  The handlers of \<open>internal/handler\<close>: each takes its input from the request, calls one operation of a
  service and answers with its result or with the code of its error. A JSON number that is no 64-bit
  integer does not bind; \<open>time.Time\<close> values of the administration's input are bound by a parameter.
\<close>

section \<open>The site\<close>

text \<open>The state of the services behind the middlewares.\<close>

record ('d, 'm, 'b, 't) site = "('d, 'm, 'b, 't) limited" +
  backend :: world

text \<open>The data of an answer.\<close>

datatype payload =
    UserData user
  | Tokens "user option" string string
  | Note string
  | Balance string int
  | IdleData idle_record
  | IdleState idle_state
  | IdleHistory "idle_record list" string bool
  | Alive
  | TaskItems "(task \<times> task_progress option) list"
  | TaskStates "progress_info list"
  | Reward task int
  | OrderData redeem_order
  | OrderHistory "redeem_order list" string bool
  | ItemList "shop_item list" string bool
  | FlashList "flash_activity list"
  | FlashData flash_activity
  | Done string int

type_synonym ('m, 'b, 't, 'z) handler_io = "((payload, 'm, 'b, 't, 'z) site_scheme, unit) io"

definition in_backend :: "(world, 'a) io \<Rightarrow> (('d, 'm, 'b, 't, 'z) site_scheme, 'a) io" where
  "in_backend m x = (case m (backend x) of (r, w) \<Rightarrow> (r, x\<lparr>backend := w\<rparr>))"

text \<open>\<open>v, err := svc.Op(...)\<close> with both outcomes handled, and the answer with \<open>err.Error()\<close>.\<close>

definition call_service :: "(world, 'a) io \<Rightarrow> (gerr \<Rightarrow> ('m, 'b, 't, 'z) handler_io) \<Rightarrow> ('a \<Rightarrow> ('m, 'b, 't, 'z) handler_io) \<Rightarrow>
    ('m, 'b, 't, 'z) handler_io" where
  "call_service m failed got =
     bind_io (attempt (in_backend m)) (\<lambda>r. case r of Inl e \<Rightarrow> failed e | Inr v \<Rightarrow> got v)"

definition with_text :: "gerr \<Rightarrow> (string \<Rightarrow> ('m, 'b, 't, 'z) handler_io) \<Rightarrow> ('m, 'b, 't, 'z) handler_io" where
  "with_text e k = bind_io (gets_io (\<lambda>x. error_text (fault_text (backend x)) e)) k"

definition Error_of :: "int \<Rightarrow> gerr \<Rightarrow> ('m, 'b, 't, 'z) handler_io" where
  "Error_of n e = with_text e (\<lambda>s. Error n (Some s))"

section \<open>Input\<close>

definition anonymousUser :: string where
  "anonymousUser = ''anonymous''"

definition requireUser :: "(string \<Rightarrow> ('m, 'b, 't, 'z) handler_io) \<Rightarrow> ('m, 'b, 't, 'z) handler_io" where
  "requireUser k = bind_io (gets_io user_id) (\<lambda>u. if u = [] \<or> u = anonymousUser then Unauthorized 10102 else k u)"

text \<open>\<open>ShouldBindJSON\<close>: strings and integers of an object, absent ones being zero.\<close>

definition bind_object :: "('a \<Rightarrow> ('m, 'b, 't, 'z) handler_io) \<Rightarrow> ((string \<rightharpoonup> json) \<Rightarrow> 'a option) \<Rightarrow> ('m, 'b, 't, 'z) handler_io \<Rightarrow>
    ('m, 'b, 't, 'z) handler_io" where
  "bind_object k f bad = bind_io (gets_io (\<lambda>x. case rq_body (req x) of None \<Rightarrow> None | Some m \<Rightarrow> f m))
     (\<lambda>v. case v of None \<Rightarrow> bad | Some a \<Rightarrow> k a)"

definition text_field :: "string \<Rightarrow> (string \<rightharpoonup> json) \<Rightarrow> string option" where
  "text_field f m = (case m f of None \<Rightarrow> Some [] | Some JNull \<Rightarrow> Some [] | Some (JString s) \<Rightarrow> Some s | _ \<Rightarrow> None)"

definition int_field :: "string \<Rightarrow> (string \<rightharpoonup> json) \<Rightarrow> int option" where
  "int_field f m = (case m f of None \<Rightarrow> Some 0 | Some JNull \<Rightarrow> Some 0 | Some (JInt n) \<Rightarrow> if in_int64 n then Some n else None | _ \<Rightarrow> None)"

definition required :: "string option \<Rightarrow> string option" where
  "required v = (case v of Some s \<Rightarrow> if s \<noteq> [] then Some s else None | None \<Rightarrow> None)"

definition both :: "'a option \<Rightarrow> 'b option \<Rightarrow> ('a \<times> 'b) option" where
  "both a b = (case (a, b) of (Some x, Some y) \<Rightarrow> Some (x, y) | _ \<Rightarrow> None)"

text \<open>The cursor of a list: 0 when absent, a bad request when it is no number; and its limit.\<close>

definition query_cursor :: "(int \<Rightarrow> ('m, 'b, 't, 'z) handler_io) \<Rightarrow> ('m, 'b, 't, 'z) handler_io" where
  "query_cursor k = bind_io (gets_io (\<lambda>x. rq_query (req x) ''cursor'')) (\<lambda>c.
     let s = (case c of None \<Rightarrow> [] | Some s \<Rightarrow> s) in
     case Atoi s of
       Inr n \<Rightarrow> k n
     | Inl e \<Rightarrow> if s \<noteq> [] then BadRequest ''invalid cursor'' else k 0)"

definition query_limit :: "(int \<Rightarrow> ('m, 'b, 't, 'z) handler_io) \<Rightarrow> ('m, 'b, 't, 'z) handler_io" where
  "query_limit k = bind_io (gets_io (\<lambda>x. rq_query (req x) ''limit'')) (\<lambda>c.
     k (case c of None \<Rightarrow> 20 | Some s \<Rightarrow> (case Atoi s of Inr n \<Rightarrow> n | Inl e \<Rightarrow> 20)))"

definition param_id :: "string \<Rightarrow> (int \<Rightarrow> ('m, 'b, 't, 'z) handler_io) \<Rightarrow> ('m, 'b, 't, 'z) handler_io" where
  "param_id bad k = bind_io (gets_io (\<lambda>x. rq_param (req x) ''id'')) (\<lambda>s.
     case Atoi s of Inr n \<Rightarrow> k n | Inl e \<Rightarrow> BadRequest bad)"

section \<open>Accounts\<close>

definition AuthHandler_Register :: "auth_env \<Rightarrow> ('m, 'b, 't, 'z) handler_io" where
  "AuthHandler_Register env = bind_object (\<lambda>((email, password), nickname).
     call_service (Register env email password nickname)
       (\<lambda>e. if e = ErrEmailRegistered then Error 10201 None
            else if e = ErrServerBusy then ServiceUnavailable 10005
            else Error_of 10003 e)
       (\<lambda>usr. call_service (IssueTokens env usr) (Error_of 10003)
         (\<lambda>r. Success (Tokens (Some usr) (lr_access r) (lr_refresh r)))))
     (\<lambda>m. both (both (text_field ''email'' m) (text_field ''password'' m)) (text_field ''nickname'' m))
     (BadRequest ''invalid request body'')"

definition AuthHandler_Login :: "auth_env \<Rightarrow> ('m, 'b, 't, 'z) handler_io" where
  "AuthHandler_Login env = bind_object (\<lambda>(email, password).
     call_service (Login env email password)
       (\<lambda>e. if e = ErrInvalidCredentials then Error 10202 None
            else if e = ErrAccountLocked then Error 10203 None
            else if e = ErrServerBusy then ServiceUnavailable 10005
            else Error_of 10003 e)
       (\<lambda>r. Success (Tokens (Some (lr_user r)) (lr_access r) (lr_refresh r))))
     (\<lambda>m. both (text_field ''email'' m) (text_field ''password'' m))
     (BadRequest ''invalid request body'')"

definition AuthHandler_ChangePassword :: "auth_env \<Rightarrow> ('m, 'b, 't, 'z) handler_io" where
  "AuthHandler_ChangePassword env = requireUser (\<lambda>u. bind_object (\<lambda>(old, new).
     call_service (ChangePassword env u old new)
       (\<lambda>e. if e = ErrInvalidCredentials then Error 10202 (Some ''old password incorrect'')
            else if e = ErrServerBusy then ServiceUnavailable 10005
            else Error_of 10003 e)
       (\<lambda>_. Success (Note ''password changed'')))
     (\<lambda>m. both (text_field ''old_password'' m) (text_field ''new_password'' m))
     (BadRequest ''invalid request body''))"

definition AuthHandler_GoogleOAuth :: "auth_env \<Rightarrow> ('m, 'b, 't, 'z) handler_io" where
  "AuthHandler_GoogleOAuth env = bind_object (\<lambda>code.
     call_service (GoogleOAuthCode env code)
       (\<lambda>e. if errors_is e ''google oauth failed'' then Error 10704 (Some ''google oauth failed'') else Error_of 10003 e)
       (\<lambda>r. Success (Tokens (Some (lr_user r)) (lr_access r) (lr_refresh r))))
     (\<lambda>m. required (text_field ''code'' m))
     (BadRequest ''code is required'')"

definition AuthHandler_RefreshToken :: "auth_env \<Rightarrow> ('m, 'b, 't, 'z) handler_io" where
  "AuthHandler_RefreshToken env = bind_object (\<lambda>tok.
     call_service (RefreshToken env tok) (\<lambda>e. if e = nil_dereference then throw e else Unauthorized 10102)
       (\<lambda>r. Success (Tokens None (lr_access r) (lr_refresh r))))
     (\<lambda>m. required (text_field ''refresh_token'' m))
     (BadRequest ''refresh_token is required'')"

section \<open>Users\<close>

definition find_user :: "(user \<Rightarrow> ('m, 'b, 't, 'z) handler_io) \<Rightarrow> string \<Rightarrow> ('m, 'b, 't, 'z) handler_io" where
  "find_user k u = call_service (FindByID u) (Error_of 10701)
     (\<lambda>found. case found of None \<Rightarrow> Error 10002 (Some ''user not found'') | Some usr \<Rightarrow> k usr)"

definition GetProfile :: "('m, 'b, 't, 'z) handler_io" where
  "GetProfile = requireUser (find_user (\<lambda>usr. Success (UserData usr)))"

definition renamed :: "string \<Rightarrow> user \<Rightarrow> user" where
  "renamed s usr = (if s \<noteq> [] then usr\<lparr>us_username := s\<rparr> else usr)"

definition pictured :: "string \<Rightarrow> user \<Rightarrow> user" where
  "pictured s usr = (if s \<noteq> [] then usr\<lparr>us_avatar := s\<rparr> else usr)"

definition UpdateProfile :: "('m, 'b, 't, 'z) handler_io" where
  "UpdateProfile = requireUser (find_user (\<lambda>usr. bind_object (\<lambda>(nickname, avatar).
     if length nickname > 50 then BadRequest ''nickname too long (max 50 characters)''
     else if length avatar > 500 then BadRequest ''avatar url too long (max 500 characters)''
     else let usr' = pictured avatar (renamed nickname usr) in
       call_service (user_Update usr') (Error_of 10701) (\<lambda>_. Success (UserData usr')))
     (\<lambda>m. both (text_field ''nickname'' m) (text_field ''avatar'' m))
     (BadRequest ''invalid request body'')))"

definition GetPoints :: "('m, 'b, 't, 'z) handler_io" where
  "GetPoints = requireUser (find_user (\<lambda>usr. Success (Balance (us_id usr) (us_points usr))))"

section \<open>Idle sessions\<close>

definition bind_device :: "(string \<Rightarrow> ('m, 'b, 't, 'z) handler_io) \<Rightarrow> ('m, 'b, 't, 'z) handler_io" where
  "bind_device k = bind_object k (\<lambda>m. required (text_field ''device_id'' m)) (BadRequest ''device_id is required'')"

definition not_idle :: "gerr \<Rightarrow> ('m, 'b, 't, 'z) handler_io" where
  "not_idle e = (if e = ErrNotIdle then Error 10402 None else Error_of 10003 e)"

definition IdleHandler_Start :: "idle_config \<Rightarrow> ('m, 'b, 't, 'z) handler_io" where
  "IdleHandler_Start cfg = requireUser (\<lambda>u. bind_device (\<lambda>d.
     call_service (idle_Start cfg u d)
       (\<lambda>e. if e = Sentinel ''ErrMaxDevices'' then Error 10003 (Some ''maximum active devices reached'') else Error_of 10003 e)
       (\<lambda>r. Success (IdleData r))))"

definition IdleHandler_Heartbeat :: "idle_config \<Rightarrow> ('m, 'b, 't, 'z) handler_io" where
  "IdleHandler_Heartbeat cfg = requireUser (\<lambda>u. bind_device (\<lambda>d.
     call_service (idle_Heartbeat cfg u d) not_idle (\<lambda>_. Success Alive)))"

definition IdleHandler_Stop :: "idle_config \<Rightarrow> ('m, 'b, 't, 'z) handler_io" where
  "IdleHandler_Stop cfg = requireUser (\<lambda>u. call_service (idle_Stop cfg u) not_idle (\<lambda>r. Success (IdleData r)))"

definition IdleHandler_StopDevice :: "idle_config \<Rightarrow> ('m, 'b, 't, 'z) handler_io" where
  "IdleHandler_StopDevice cfg = requireUser (\<lambda>u. bind_device (\<lambda>d.
     call_service (idle_StopDevice cfg u d) not_idle (\<lambda>r. Success (IdleData r))))"

definition IdleHandler_Status :: "idle_config \<Rightarrow> ('m, 'b, 't, 'z) handler_io" where
  "IdleHandler_Status cfg = requireUser (\<lambda>u. call_service (idle_Status cfg u) (Error_of 10003) (\<lambda>s. Success (IdleState s)))"

definition IdleHandler_Records :: "('m, 'b, 't, 'z) handler_io" where
  "IdleHandler_Records = requireUser (\<lambda>u. query_cursor (\<lambda>c. query_limit (\<lambda>n.
     call_service (idle_Records u c n) (Error_of 10701) (\<lambda>(rs, nxt, more). Success (IdleHistory rs (Itoa nxt) more)))))"

section \<open>Tasks\<close>

definition TaskHandler_List :: "(period list \<Rightarrow> period list) \<Rightarrow> (period_rows \<Rightarrow> period_rows) \<Rightarrow> ('m, 'b, 't, 'z) handler_io" where
  "TaskHandler_List ord ord' = requireUser (\<lambda>u. call_service (task_List ord ord' u) (Error_of 10701) (\<lambda>ts. Success (TaskItems ts)))"

definition TaskHandler_Progress :: "(period list \<Rightarrow> period list) \<Rightarrow> (period_rows \<Rightarrow> period_rows) \<Rightarrow> ('m, 'b, 't, 'z) handler_io" where
  "TaskHandler_Progress ord ord' = requireUser (\<lambda>u. call_service (task_Progress ord ord' u) (Error_of 10701) (\<lambda>ps. Success (TaskStates ps)))"

definition TaskHandler_Claim :: "bool \<Rightarrow> ('m, 'b, 't, 'z) handler_io" where
  "TaskHandler_Claim points_on = requireUser (\<lambda>u. param_id ''invalid task id'' (\<lambda>i.
     call_service (task_Claim points_on u i)
       (\<lambda>e. if e = ErrTaskNotFound then Error 10002 (Some ''task not found'')
            else if e = ErrTaskNotCompleted then Error 10501 None
            else if e = ErrTaskClaimed then Error 10502 None
            else Error_of 10003 e)
       (\<lambda>t. Success (Reward t (tk_reward t)))))"

end
