(* ===== verification/ShopHandler.thy ===== *)
theory ShopHandler
  imports Handlers
begin

text \<open>
  The handlers of the shop (\<open>internal/handler/shop_handler.go\<close>): items, redemption, flash sales with their
  administration, orders.
\<close>

definition ShopHandler_Items :: "('m, 'b, 't, 'z) handler_io" where
  "ShopHandler_Items = requireUser (\<lambda>u. query_cursor (\<lambda>c. query_limit (\<lambda>n.
     bind_io (gets_io (\<lambda>x. case rq_query (req x) ''category'' of None \<Rightarrow> [] | Some s \<Rightarrow> s)) (\<lambda>category.
     call_service (Items c n category) (Error_of 10701) (\<lambda>(rs, nxt, more). Success (ItemList rs (Itoa nxt) more))))))"

text \<open>A request that another one of the user holds up is told to come again.\<close>

definition redeem_concurrent :: "('m, 'b, 't, 'z) handler_io" where
  "redeem_concurrent = then_io (Header ''Retry-After'' ''1'') (Error 10310 (Some ''concurrent redeem in progress, please retry later''))"

definition redeem_failed :: "gerr \<Rightarrow> ('m, 'b, 't, 'z) handler_io" where
  "redeem_failed e =
     (if e = ErrItemNotFound then Error 10303 None
      else if e = ErrStockInsufficient then Error 10302 None
      else if e = ErrRedeemSoldOutPeak then Error 10311 None
      else if e = ErrPointsInsufficient then Error 10301 None
      else if e = ErrUserNotFound then Error 10002 (Some ''user not found'')
      else if e = ErrRedeemConcurrent then redeem_concurrent
      else Error_of 10003 e)"

definition ShopHandler_Redeem :: "bool \<Rightarrow> ('m, 'b, 't, 'z) handler_io" where
  "ShopHandler_Redeem points_on = requireUser (\<lambda>u. bind_object (\<lambda>(item, quantity).
     call_service (Redeem points_on u item quantity) redeem_failed (\<lambda>order. Success (OrderData order)))
     (\<lambda>m. both (int_field ''item_id'' m) (int_field ''quantity'' m))
     (BadRequest ''invalid request body''))"

definition ShopHandler_FlashActivities :: "('m, 'b, 't, 'z) handler_io" where
  "ShopHandler_FlashActivities = requireUser (\<lambda>u. query_limit (\<lambda>n.
     call_service (FlashActivities n) (Error_of 10701) (\<lambda>acts. Success (FlashList acts))))"

text \<open>\<open>late\<close> is \<open>errors.Is(err, context.DeadlineExceeded)\<close>; the message begins with a text in UTF-8.\<close>

definition late_prefix :: string where
  "late_prefix = map char_of [230, 138, 162, 232, 180, 173, 229, 164, 132, 231, 144, 134, 232, 182, 133, 230, 151, 182,
     239, 188, 140, 232, 175, 183, 231, 168, 141, 229, 144, 142, 233, 135, 141, 232, 175, 149, 58, 32 :: nat]"

definition flash_failed :: "(gerr \<Rightarrow> bool) \<Rightarrow> gerr \<Rightarrow> ('m, 'b, 't, 'z) handler_io" where
  "flash_failed late e =
     (if late e then with_text e (\<lambda>s. Error 10309 (Some (late_prefix @ s)))
      else if e = ErrFlashSaleNotFound then Error 10002 (Some ''flash sale activity not found'')
      else if e = ErrFlashSaleNotStarted then Error 10305 None
      else if e = ErrFlashSaleEnded then Error 10306 None
      else if e = ErrFlashSaleSoldOut then Error 10307 None
      else if e = ErrFlashSaleUserLimit then Error 10308 None
      else if e = ErrItemNotFound then Error 10303 None
      else if e = ErrPointsInsufficient then Error 10301 None
      else if e = ErrUserNotFound then Error 10002 (Some ''user not found'')
      else if e = ErrRedeemConcurrent then redeem_concurrent
      else Error_of 10003 e)"

definition ShopHandler_FlashRedeem :: "bool \<Rightarrow> (gerr \<Rightarrow> bool) \<Rightarrow> ('m, 'b, 't, 'z) handler_io" where
  "ShopHandler_FlashRedeem points_on late = requireUser (\<lambda>u. bind_object (\<lambda>i.
     call_service (FlashRedeem points_on u i) (flash_failed late) (\<lambda>order. Success (OrderData order)))
     (\<lambda>m. case int_field ''activity_id'' m of Some i \<Rightarrow> if i \<le> 0 then None else Some i | None \<Rightarrow> None)
     (BadRequest ''invalid request body''))"

section \<open>Administration\<close>

definition positive_id :: "string \<Rightarrow> (int \<Rightarrow> ('m, 'b, 't, 'z) handler_io) \<Rightarrow> ('m, 'b, 't, 'z) handler_io" where
  "positive_id bad k = param_id bad (\<lambda>i. if i \<le> 0 then BadRequest bad else k i)"

definition not_found_or :: "(gerr \<Rightarrow> ('m, 'b, 't, 'z) handler_io) \<Rightarrow> gerr \<Rightarrow> ('m, 'b, 't, 'z) handler_io" where
  "not_found_or k e = (if e = ErrFlashSaleNotFound then Error 10002 (Some ''flash sale activity not found'') else k e)"

definition bad_input :: "gerr \<Rightarrow> ('m, 'b, 't, 'z) handler_io" where
  "bad_input e = with_text e BadRequest"

definition ShopHandler_ListFlashActivities :: "('m, 'b, 't, 'z) handler_io" where
  "ShopHandler_ListFlashActivities =
     bind_io (gets_io (\<lambda>x. case rq_query (req x) ''limit'' of None \<Rightarrow> 50 | Some s \<Rightarrow>
        (case Atoi s of Inr n \<Rightarrow> if n \<le> 0 then 50 else n | Inl e \<Rightarrow> 50))) (\<lambda>n.
     call_service (ListFlashActivities n) (Error_of 10701) (\<lambda>acts. Success (FlashList acts)))"

definition ShopHandler_FlashActivityDetail :: "('m, 'b, 't, 'z) handler_io" where
  "ShopHandler_FlashActivityDetail = positive_id ''invalid activity id'' (\<lambda>i.
     call_service (FlashActivityDetail i) (not_found_or (Error_of 10701)) (\<lambda>a. Success (FlashData a)))"

text \<open>\<open>parse\<close> binds the administrator's input.\<close>

definition bind_flash :: "(request \<Rightarrow> flash_input option) \<Rightarrow> (flash_input \<Rightarrow> ('m, 'b, 't, 'z) handler_io) \<Rightarrow> ('m, 'b, 't, 'z) handler_io" where
  "bind_flash parse k = bind_io (gets_io (\<lambda>x. parse (req x)))
     (\<lambda>v. case v of None \<Rightarrow> BadRequest ''invalid request body'' | Some i \<Rightarrow> k i)"

definition ShopHandler_CreateFlashActivity :: "(request \<Rightarrow> flash_input option) \<Rightarrow> ('m, 'b, 't, 'z) handler_io" where
  "ShopHandler_CreateFlashActivity parse = bind_flash parse (\<lambda>inp.
     call_service (CreateFlashActivity (Some inp)) bad_input (\<lambda>a. Success (FlashData a)))"

definition ShopHandler_UpdateFlashActivity :: "(request \<Rightarrow> flash_input option) \<Rightarrow> ('m, 'b, 't, 'z) handler_io" where
  "ShopHandler_UpdateFlashActivity parse = positive_id ''invalid activity id'' (\<lambda>i. bind_flash parse (\<lambda>inp.
     call_service (UpdateFlashActivity i inp) (not_found_or bad_input) (\<lambda>a. Success (FlashData a))))"

definition ShopHandler_EndFlashActivity :: "('m, 'b, 't, 'z) handler_io" where
  "ShopHandler_EndFlashActivity = positive_id ''invalid activity id'' (\<lambda>i.
     call_service (EndFlashActivity i) (not_found_or (Error_of 10701)) (\<lambda>a. Success (FlashData a)))"

definition ShopHandler_WarmupFlashSale :: "('m, 'b, 't, 'z) handler_io" where
  "ShopHandler_WarmupFlashSale = positive_id ''invalid activity id'' (\<lambda>i.
     call_service (WarmupFlashSale i) (Error_of 10701) (\<lambda>_. Success (Done ''warmed'' i)))"

definition ShopHandler_SyncFlashSaleStock :: "('m, 'b, 't, 'z) handler_io" where
  "ShopHandler_SyncFlashSaleStock = positive_id ''invalid activity id'' (\<lambda>i.
     call_service (SyncFlashSaleStock i) (Error_of 10701) (\<lambda>_. Success (Done ''synced'' i)))"

definition ShopHandler_ReconcileItemStock :: "('m, 'b, 't, 'z) handler_io" where
  "ShopHandler_ReconcileItemStock = positive_id ''invalid item id'' (\<lambda>i.
     call_service (ReconcileItemRedeemStock i) (Error_of 10701) (\<lambda>_. Success (Done ''synced'' i)))"

section \<open>Orders\<close>

definition ShopHandler_Orders :: "('m, 'b, 't, 'z) handler_io" where
  "ShopHandler_Orders = requireUser (\<lambda>u. query_cursor (\<lambda>c. query_limit (\<lambda>n.
     call_service (Orders u c n) (Error_of 10701) (\<lambda>(rs, nxt, more). Success (OrderHistory rs (Itoa nxt) more)))))"

definition ShopHandler_OrderDetail :: "('m, 'b, 't, 'z) handler_io" where
  "ShopHandler_OrderDetail = requireUser (\<lambda>u. param_id ''invalid order id'' (\<lambda>i.
     call_service (OrderDetail i)
       (\<lambda>e. if e = ErrOrderNotFound then Error 10002 (Some ''order not found'') else Error_of 10701 e)
       (\<lambda>order. if or_user order \<noteq> u then Forbidden 10103 else Success (OrderData order))))"

end
