(* ===== verification/HandlerProperties.thy ===== *)
theory HandlerProperties
  imports ShopHandler AuthProperties
begin

text \<open>
  What the handlers have in common: each answers exactly once, requests without a user change nothing,
  orders are private; and what the profile handler does to an account.
\<close>

section \<open>Answering once\<close>

text \<open>\<open>answers S h\<close>: \<open>h\<close> returns after writing exactly one body, under a status in \<open>S\<close>.\<close>

definition answers :: "int set \<Rightarrow> (('d, 'z) exchange_scheme, unit) io \<Rightarrow> bool" where
  "answers S h \<longleftrightarrow> (\<forall>x. \<exists>b y. h x = (Inr (), y) \<and> bodies y = bodies x @ [b] \<and> written y \<and>
     (if written x then status y = status x else status y \<in> S) \<and> aborted y = aborted x)"

text \<open>The same at one request \<open>x\<close>.\<close>

definition answers_at :: "int set \<Rightarrow> (('d, 'z) exchange_scheme, unit) io \<Rightarrow> ('d, 'z) exchange_scheme \<Rightarrow> bool" where
  "answers_at S h x \<longleftrightarrow> (\<exists>b y. h x = (Inr (), y) \<and> bodies y = bodies x @ [b] \<and> written y \<and>
     (if written x then status y = status x else status y \<in> S) \<and> aborted y = aborted x)"

lemma answers_everywhere: "answers S h \<longleftrightarrow> (\<forall>x. answers_at S h x)"
  by (simp add: answers_def answers_at_def)

lemma answers_JSON: "n \<in> S \<Longrightarrow> answers S (JSON n b)"
  by (simp add: answers_def JSON_def write_header_def run_simps) (simp add: modify_io_def)

lemma answers_step:
  assumes "answers S h" and "m x = h y" and "bodies y = bodies x" and "written y = written x" and "status y = status x" and "aborted y = aborted x"
  shows "\<exists>b z. m x = (Inr (), z) \<and> bodies z = bodies x @ [b] \<and> written z \<and>
     (if written x then status z = status x else status z \<in> S) \<and> aborted z = aborted x"
  using assms unfolding answers_def by metis

lemma answers_header: "answers S h \<Longrightarrow> answers S (then_io (Header k v) h)"
  unfolding answers_def [of S "then_io (Header k v) h"]
  by (rule allI, rule_tac y = "x\<lparr>headers := filter (\<lambda>h. fst h \<noteq> k) (headers x) @ [(k, v)]\<rparr>" in answers_step) (simp_all add: Header_def run_simps)

lemma answers_gets: "(\<And>v. answers S (k v)) \<Longrightarrow> answers S (bind_io (gets_io f) k)"
  by (simp add: answers_def run_gets)

lemma answers_call:
  fixes failed :: "gerr \<Rightarrow> ('m, 'b, 't, 'z) handler_io"
  assumes "\<And>e. answers S (failed e)" and "\<And>v. answers S (got v)"
  shows "answers S (call_service m failed got)"
  unfolding answers_def
proof
  fix x :: "(payload, 'm, 'b, 't, 'z) site_scheme"
  obtain r w where "m (backend x) = (r, w)" by fastforce
  then have "call_service m failed got x = (case r of Inl e \<Rightarrow> failed e | Inr v \<Rightarrow> got v) (x\<lparr>backend := w\<rparr>)"
    by (simp add: call_service_def bind_io_def attempt_def in_backend_def split: sum.split)
  then show "\<exists>b y. call_service m failed got x = (Inr (), y) \<and> bodies y = bodies x @ [b] \<and> written y \<and>
     (if written x then status y = status x else status y \<in> S) \<and> aborted y = aborted x"
    by (rule answers_step [rotated]) (use assms in \<open>auto split: sum.split\<close>)
qed

lemma answers_text: "(\<And>s. answers S (k s)) \<Longrightarrow> answers S (with_text e k)"
  unfolding with_text_def by (rule answers_gets)

lemma answers_replies:
  "200 \<in> S \<Longrightarrow> answers S (Success d)" "200 \<in> S \<Longrightarrow> answers S (Error n m)" "200 \<in> S \<Longrightarrow> answers S (Error_of n e)"
  "400 \<in> S \<Longrightarrow> answers S (BadRequest s)" "401 \<in> S \<Longrightarrow> answers S (Unauthorized n)" "403 \<in> S \<Longrightarrow> answers S (Forbidden n)"
  "503 \<in> S \<Longrightarrow> answers S (ServiceUnavailable n)"
  unfolding Success_def Error_def Error_of_def BadRequest_def Unauthorized_def Forbidden_def ServiceUnavailable_def ErrorWithHTTPStatus_def
  by (intro answers_text answers_JSON; assumption)+

lemma answers_if: "answers S h \<Longrightarrow> answers S h' \<Longrightarrow> answers S (if c then h else h')"
  by simp

lemma answers_input:
  "401 \<in> S \<Longrightarrow> (\<And>u. answers S (k u)) \<Longrightarrow> answers S (requireUser k)"
  "(\<And>v. answers S (kv v)) \<Longrightarrow> answers S bad \<Longrightarrow> answers S (bind_object kv f bad)"
  "400 \<in> S \<Longrightarrow> (\<And>n. answers S (kn n)) \<Longrightarrow> answers S (query_cursor kn)"
  "(\<And>n. answers S (kn n)) \<Longrightarrow> answers S (query_limit kn)"
  "400 \<in> S \<Longrightarrow> (\<And>n. answers S (kn n)) \<Longrightarrow> answers S (param_id s kn)"
  unfolding requireUser_def bind_object_def query_cursor_def query_limit_def param_id_def Let_def
  by (intro answers_gets answers_if; auto intro: answers_gets answers_replies split: option.split sum.split)+

lemmas answers_rules = answers_replies answers_input answers_call answers_if answers_header answers_text answers_gets

text \<open>The handlers behind the authentication, and those of the administration.\<close>

definition user_handlers :: "bool \<Rightarrow> idle_config \<Rightarrow> (period list \<Rightarrow> period list) \<Rightarrow> (period_rows \<Rightarrow> period_rows) \<Rightarrow> (gerr \<Rightarrow> bool) \<Rightarrow>
    ('m, 'b, 't, 'z) handler_io list" where
  "user_handlers points_on cfg ord ord' late =
     [GetProfile, UpdateProfile, GetPoints,
      IdleHandler_Start cfg, IdleHandler_Heartbeat cfg, IdleHandler_Stop cfg, IdleHandler_StopDevice cfg, IdleHandler_Status cfg, IdleHandler_Records,
      TaskHandler_List ord ord', TaskHandler_Progress ord ord', TaskHandler_Claim points_on,
      ShopHandler_Items, ShopHandler_Redeem points_on, ShopHandler_Orders, ShopHandler_OrderDetail,
      ShopHandler_FlashActivities, ShopHandler_FlashRedeem points_on late]"

definition account_handlers :: "auth_env \<Rightarrow> ('m, 'b, 't, 'z) handler_io list" where
  "account_handlers env =
     [AuthHandler_Register env, AuthHandler_Login env, AuthHandler_GoogleOAuth env, AuthHandler_ChangePassword env]"

definition admin_handlers :: "(request \<Rightarrow> flash_input option) \<Rightarrow> ('m, 'b, 't, 'z) handler_io list" where
  "admin_handlers parse =
     [ShopHandler_ListFlashActivities, ShopHandler_FlashActivityDetail, ShopHandler_CreateFlashActivity parse, ShopHandler_UpdateFlashActivity parse,
      ShopHandler_EndFlashActivity, ShopHandler_WarmupFlashSale, ShopHandler_SyncFlashSaleStock, ShopHandler_ReconcileItemStock]"

lemma answers_find_user: "200 \<in> S \<Longrightarrow> (\<And>usr. answers S (k usr)) \<Longrightarrow> answers S (find_user k u)"
  unfolding find_user_def by (intro answers_rules; auto intro: answers_rules split: option.split)

lemma answers_user:
  fixes h :: "('m, 'b, 't, 'z) handler_io"
  assumes "h \<in> set (user_handlers points_on cfg ord ord' late)"
  shows "answers {200, 400, 401, 403} h"
proof -
  note intros = answers_rules answers_find_user
  have "answers {200, 400, 401, 403} (GetProfile :: ('m, 'b, 't, 'z) handler_io)" "answers {200, 400, 401, 403} (GetPoints :: ('m, 'b, 't, 'z) handler_io)"
    "answers {200, 400, 401, 403} (UpdateProfile :: ('m, 'b, 't, 'z) handler_io)"
    unfolding GetProfile_def GetPoints_def UpdateProfile_def Let_def by (intro intros; auto intro!: intros)+
  moreover have "answers {200, 400, 401, 403} (not_idle e :: ('m, 'b, 't, 'z) handler_io)" for e
    unfolding not_idle_def by (intro intros) auto
  moreover have "answers {200, 400, 401, 403} (redeem_failed e :: ('m, 'b, 't, 'z) handler_io)"
    "answers {200, 400, 401, 403} (flash_failed late e :: ('m, 'b, 't, 'z) handler_io)" for e
    unfolding redeem_failed_def flash_failed_def redeem_concurrent_def by (intro intros; simp)+
  ultimately show ?thesis using assms
    unfolding user_handlers_def list.set IdleHandler_Start_def IdleHandler_Heartbeat_def IdleHandler_Stop_def IdleHandler_StopDevice_def
      IdleHandler_Status_def IdleHandler_Records_def TaskHandler_List_def TaskHandler_Progress_def TaskHandler_Claim_def
      ShopHandler_Items_def ShopHandler_Redeem_def ShopHandler_Orders_def ShopHandler_OrderDetail_def ShopHandler_FlashActivities_def
      ShopHandler_FlashRedeem_def bind_device_def
    by (elim insertE emptyE; simp only:; intro intros; auto intro!: intros)
qed

lemma answers_account:
  fixes h :: "('m, 'b, 't, 'z) handler_io"
  assumes "h \<in> set (account_handlers env)"
  shows "answers {200, 400, 401, 503} h"
  using assms
  unfolding account_handlers_def list.set AuthHandler_Register_def AuthHandler_Login_def AuthHandler_ChangePassword_def
    AuthHandler_GoogleOAuth_def
  by (elim insertE emptyE; simp only:; intro answers_rules; auto intro!: answers_rules)

lemma answers_admin:
  fixes h :: "('m, 'b, 't, 'z) handler_io"
  assumes "h \<in> set (admin_handlers parse)"
  shows "answers {200, 400} h"
proof -
  have ids: "(\<And>n. answers {200, 400} (k n)) \<Longrightarrow> answers {200, 400} (positive_id s k)" for s and k :: "int \<Rightarrow> ('m, 'b, 't, 'z) handler_io"
    unfolding positive_id_def by (intro answers_rules) auto
  have bad: "answers {200, 400} (bad_input e :: ('m, 'b, 't, 'z) handler_io)" for e
    unfolding bad_input_def by (intro answers_rules) simp
  have missing: "(\<And>e. answers {200, 400} (k e)) \<Longrightarrow> answers {200, 400} (not_found_or k e)" for k :: "gerr \<Rightarrow> ('m, 'b, 't, 'z) handler_io" and e
    unfolding not_found_or_def by (intro answers_rules) auto
  have input: "(\<And>i. answers {200, 400} (k i)) \<Longrightarrow> answers {200, 400} (bind_flash parse k)" for k :: "flash_input \<Rightarrow> ('m, 'b, 't, 'z) handler_io"
    unfolding bind_flash_def by (rule answers_gets) (auto intro: answers_rules split: option.split)
  show ?thesis using assms
    unfolding admin_handlers_def list.set ShopHandler_ListFlashActivities_def ShopHandler_FlashActivityDetail_def
      ShopHandler_CreateFlashActivity_def ShopHandler_UpdateFlashActivity_def ShopHandler_EndFlashActivity_def
      ShopHandler_WarmupFlashSale_def ShopHandler_SyncFlashSaleStock_def ShopHandler_ReconcileItemStock_def
    by (elim insertE emptyE; simp only:; intro ids input missing bad answers_rules; auto intro!: missing bad answers_rules)
qed

text \<open>A refresh request with a valid token that has no expiry: its handler may panic instead of answering, before
it has written anything.\<close>

definition lacks_expiry :: "auth_env \<Rightarrow> ('d, 'm, 'b, 't, 'z) site_scheme \<Rightarrow> bool" where
  "lacks_expiry env x \<longleftrightarrow> (case rq_body (req x) of None \<Rightarrow> False | Some m \<Rightarrow>
     (case required (text_field ''refresh_token'' m) of None \<Rightarrow> False | Some tok \<Rightarrow>
       (case jwtValidate (ae_lib env) (ae_jwt env) (now (backend x)) tok of Inl e \<Rightarrow> False | Inr c \<Rightarrow> cl_expires c = None)))"

definition panics_at :: "(('d, 'z) exchange_scheme, unit) io \<Rightarrow> ('d, 'z) exchange_scheme \<Rightarrow> bool" where
  "panics_at h x \<longleftrightarrow> (\<exists>e y. h x = (Inl e, y) \<and> bodies y = bodies x \<and> written y = written x)"

lemma answers_call_at:
  fixes failed :: "gerr \<Rightarrow> ('m, 'b, 't, 'z) handler_io"
  assumes "m (backend x) = (r, w)" and "\<And>e. r = Inl e \<Longrightarrow> answers S (failed e)" and "\<And>v. answers S (got v)"
  shows "answers_at S (call_service m failed got) x"
proof -
  have "call_service m failed got x = (case r of Inl e \<Rightarrow> failed e | Inr v \<Rightarrow> got v) (x\<lparr>backend := w\<rparr>)"
    using assms(1) by (simp add: call_service_def bind_io_def attempt_def in_backend_def split: sum.split)
  then show ?thesis unfolding answers_at_def
    by (rule answers_step [rotated]) (use assms(2,3) in \<open>auto split: sum.split\<close>)
qed

lemma refresh_panics_without_expiry:
  assumes "RefreshToken env tok w = (Inl nil_dereference, w')"
  shows "\<exists>c. jwtValidate (ae_lib env) (ae_jwt env) (now w) tok = Inr c \<and> cl_expires c = None"
proof -
  obtain c where c: "jwtValidate (ae_lib env) (ae_jwt env) (now w) tok = Inr c"
    using assms by (auto simp: RefreshToken_def bind_io_def gets_io_def throw_def ErrTokenInvalid_def nil_dereference_def split: sum.splits)
  have "cl_expires c = None"
  proof (rule ccontr)
    assume "cl_expires c \<noteq> None"
    then have b: "\<exists>w2. blacklist_refresh env c w1 = (Inr (), w2)" for w1
      by (auto simp: blacklist_refresh_def io_defs time_now_def)
    have i: "fst (IssueTokens env usr w1) \<noteq> Inl nil_dereference" for usr w1
      by (auto simp: IssueTokens_def lift_result_def nil_dereference_def time_now_def io_defs split: sum.splits prod.splits)
    have f: "fst (wrap_err s m w1) \<noteq> Inl nil_dereference" for s and m :: "(world, user option) io" and w1
      by (auto simp: wrap_err_def nil_dereference_def split: prod.split sum.split)
    obtain r w1 where r: "wrap_err ''find user'' (FindByID (cl_user c)) w = (r, w1)" by fastforce
    show False
    proof (cases r)
      case (Inl e)
      then show False using assms c r f [of "''find user''" "FindByID (cl_user c)" w] by (simp add: RefreshToken_def bind_io_def gets_io_def)
    next
      case (Inr found)
      obtain w2 where w2: "blacklist_refresh env c w1 = (Inr (), w2)" using b by blast
      show False
      proof (cases found)
        case None
        then show False
          using assms c r Inr by (simp add: RefreshToken_def bind_io_def gets_io_def throw_def ErrTokenInvalid_def nil_dereference_def)
      next
        case (Some usr)
        then have "IssueTokens env usr w2 = (Inl nil_dereference, w')"
          using assms c r Inr w2 by (simp add: RefreshToken_def bind_io_def then_io_def gets_io_def)
        then show False using i [of usr w2] by simp
      qed
    qed
  qed
  with c show ?thesis by blast
qed

lemma answers_refresh:
  fixes x :: "(payload, 'm, 'b, 't, 'z) site_scheme"
  shows "if lacks_expiry env x then answers_at {200, 400, 401} (AuthHandler_RefreshToken env) x \<or> panics_at (AuthHandler_RefreshToken env) x
    else answers_at {200, 400, 401} (AuthHandler_RefreshToken env) x"
proof -
  let ?h = "AuthHandler_RefreshToken env"
  let ?f = "case rq_body (req x) of None \<Rightarrow> None | Some m \<Rightarrow> required (text_field ''refresh_token'' m)"
  let ?bad = "BadRequest ''refresh_token is required'' :: ('m, 'b, 't, 'z) handler_io"
  let ?failed = "(\<lambda>e. if e = nil_dereference then throw e else Unauthorized 10102) :: gerr \<Rightarrow> ('m, 'b, 't, 'z) handler_io"
  let ?got = "(\<lambda>r. Success (Tokens None (lr_access r) (lr_refresh r))) :: login_result \<Rightarrow> ('m, 'b, 't, 'z) handler_io"
  have run: "?h x = (case ?f of None \<Rightarrow> ?bad | Some tok \<Rightarrow> call_service (RefreshToken env tok) ?failed ?got) x"
    by (simp add: AuthHandler_RefreshToken_def bind_object_def run_gets)
  show ?thesis
  proof (cases ?f)
    case None
    have "answers {200, 400, 401} ?bad" by (intro answers_rules) simp
    then show ?thesis using run None by (simp add: answers_everywhere answers_at_def)
  next
    case (Some tok)
    obtain r w where r: "RefreshToken env tok (backend x) = (r, w)" by fastforce
    have got: "answers {200, 400, 401} (?got v)" for v by (intro answers_rules) simp
    have failed: "answers {200, 400, 401} (?failed e)" if "e \<noteq> nil_dereference" for e
    proof -
      have "answers {200, 400, 401} (Unauthorized 10102 :: ('m, 'b, 't, 'z) handler_io)" by (intro answers_rules) simp
      with that show ?thesis by simp
    qed
    have h: "?h x = call_service (RefreshToken env tok) ?failed ?got x" using run Some by simp
    show ?thesis
    proof (cases "r = Inl nil_dereference")
      case True
      then have "lacks_expiry env x"
        using refresh_panics_without_expiry [of env tok "backend x" w] r Some by (auto simp: lacks_expiry_def split: option.splits)
      moreover have "panics_at ?h x"
        unfolding panics_at_def h using r True
        by (simp add: call_service_def bind_io_def attempt_def in_backend_def throw_def)
      ultimately show ?thesis by simp
    next
      case False
      then have "answers_at {200, 400, 401} (call_service (RefreshToken env tok) ?failed ?got) x"
        by (intro answers_call_at [where m = "RefreshToken env tok" and x = x, OF r] failed got) auto
      then show ?thesis using h by (simp add: answers_at_def)
    qed
  qed
qed

section \<open>Claims\<close>

text \<open>C30. Whatever the services return and whichever of their calls fail, every handler ends without a panic after
writing exactly one body: under status 200, 400, 401 or 403 behind the authentication, under 503 besides when the
process is busy hashing. Only the exchange of a refresh token may panic, having written nothing, and only
for a valid token without an expiry.\<close>

theorem every_handler_answers_once:
  "list_all (answers {200, 400, 401, 403}) (user_handlers points_on cfg ord ord' late) \<and>
   list_all (answers {200, 400, 401, 503}) (account_handlers env) \<and>
   (if lacks_expiry env x then answers_at {200, 400, 401} (AuthHandler_RefreshToken env) x \<or> panics_at (AuthHandler_RefreshToken env) x
    else answers_at {200, 400, 401} (AuthHandler_RefreshToken env) x) \<and>
   list_all (answers {200, 400}) (admin_handlers parse)"
  unfolding list_all_iff using answers_user answers_account answers_refresh answers_admin by blast


text \<open>A request without a user, or with the one of an unchecked token, is answered 401 by every handler
behind the authentication and reaches no service.\<close>

theorem anonymous_requests_reach_no_service:
  assumes "h \<in> set (user_handlers points_on cfg ord ord' late) \<or> h = AuthHandler_ChangePassword env"
    and "user_id x = [] \<or> user_id x = ''anonymous''"
  shows "h x = Unauthorized 10102 x \<and> backend (snd (h x)) = backend x"
proof -
  have "requireUser k x = Unauthorized 10102 x" for k using assms(2) by (auto simp: requireUser_def run_gets anonymousUser_def)
  moreover have "\<exists>k. h = requireUser k"
    using assms(1)
    unfolding user_handlers_def list.set GetProfile_def UpdateProfile_def GetPoints_def IdleHandler_Start_def IdleHandler_Heartbeat_def
      IdleHandler_Stop_def IdleHandler_StopDevice_def IdleHandler_Status_def IdleHandler_Records_def TaskHandler_List_def TaskHandler_Progress_def
      TaskHandler_Claim_def ShopHandler_Items_def ShopHandler_Redeem_def ShopHandler_Orders_def ShopHandler_OrderDetail_def
      ShopHandler_FlashActivities_def ShopHandler_FlashRedeem_def AuthHandler_ChangePassword_def
    by (elim disjE insertE emptyE) blast+
  ultimately have "h x = Unauthorized 10102 x" by blast
  then show ?thesis
    by (simp add: Unauthorized_def ErrorWithHTTPStatus_def JSON_def write_header_def run_simps) (simp add: modify_io_def)
qed

text \<open>The order shown to a client is its own: no request gets the data of another user's order.\<close>

theorem orders_are_private:
  assumes "ShopHandler_OrderDetail x = (Inr (), y)" and "bodies y = bodies x @ [b]" and "bd_data b = Some d"
  shows "\<exists>order. d = OrderData order \<and> or_user order = user_id x \<and> user_id x \<noteq> []"
proof -
  note reply = Success_def Error_def Error_of_def with_text_def BadRequest_def Unauthorized_def Forbidden_def ErrorWithHTTPStatus_def
    JSON_def write_header_def
  show ?thesis
    using assms
    by (auto simp: ShopHandler_OrderDetail_def requireUser_def param_id_def call_service_def in_backend_def attempt_def reply run_simps
        modify_io_def bind_io_def [of "attempt _"] split: if_splits sum.splits prod.splits)
qed

lemma call_service_run: "call_service m failed got x =
    (case m (backend x) of (Inl e, w) \<Rightarrow> failed e (x\<lparr>backend := w\<rparr>) | (Inr v, w) \<Rightarrow> got v (x\<lparr>backend := w\<rparr>))"
  by (simp add: call_service_def bind_io_def attempt_def in_backend_def split: prod.split sum.split)

lemma backend_answer: "backend (snd (Error_of n e x)) = backend x" "backend (snd (Success d x)) = backend x"
  by (simp_all add: Error_of_def with_text_def Error_def Success_def JSON_def write_header_def run_simps) (simp_all add: modify_io_def)

text \<open>A change of name or picture writes the whole copy that was read back over the account.\<close>

theorem profile_change_writes_back_the_copy:
  assumes "user_id x = u" and "u \<noteq> []" and "u \<noteq> ''anonymous''" and "FindByID u (backend x) = (Inr (Some usr), w1)" and "us_id usr = u"
    and "rq_body (req x) = Some m" and "text_field ''nickname'' m = Some nick" and "text_field ''avatar'' m = Some pic"
    and "length nick \<le> 50" and "length pic \<le> 500"
    and "faults w1 = []" and "0 \<le> us_points usr" and "\<exists>v \<in> set (users w1). us_id v = u"
    and "\<not> (\<exists>v \<in> set (users w1). us_id v \<noteq> u \<and> user_conflict (pictured pic (renamed nick usr)) v)"
  shows "users (backend (snd (UpdateProfile x))) = update_where (\<lambda>v. us_id v = u) (\<lambda>_. pictured pic (renamed nick usr)) (users (backend x))"
proof -
  let ?u = "pictured pic (renamed nick usr)" and ?up = "update_where (\<lambda>v. us_id v = u) (\<lambda>_. pictured pic (renamed nick usr))"
  have u: "us_id ?u = u" "us_points ?u = us_points usr" using assms(5) by (simp_all add: pictured_def renamed_def)
  have save: "user_save ?u w1 = (Inr (), w1\<lparr>users := ?up (users w1)\<rparr>)"
    using assms(11-14) u by (simp add: user_save_def user_write_def)
  obtain r v where inv: "invalidateUser (us_id ?u) (us_email ?u) (w1\<lparr>users := ?up (users w1)\<rparr>) = (r, v)" by fastforce
  have v: "users v = ?up (users w1)" using evolvesD [OF same_users.ev_invalidateUser inv] by simp
  have up: "user_Update ?u w1 = (r, v)" using save inv u by (cases r) (simp_all add: user_Update_def then_io_def bind_io_def)
  have w1: "users w1 = users (backend x)" using evolvesD [OF same_users.ev_user_finds(1) assms(4)] by simp
  have "UpdateProfile x = (case r of Inl e \<Rightarrow> Error_of 10701 e | Inr z \<Rightarrow> Success (UserData ?u)) (x\<lparr>backend := v\<rparr>)"
    using assms(1-4,6-10) up
    by (simp add: UpdateProfile_def requireUser_def anonymousUser_def find_user_def bind_object_def run_gets call_service_run both_def Let_def
        split: sum.split)
  then show ?thesis using v w1 by (auto simp: backend_answer split: sum.splits)
qed

text \<open>C18. A change of name or picture loses the password, and whatever was earned or spent since the account was
cached. Where the in-process cache still holds the copy \<open>old\<close> of the account, no call fails, the row exists and no
other account has its email or Google id, every row of the user ends up as that copy with the new name
and picture: with an empty password hash and with the copy's balance, whatever the account had.\<close>

theorem profile_change_loses_the_password:
  assumes "user_id x = u" and "u \<noteq> []" and "u \<noteq> ''anonymous''" and "us_id old = u" and "0 \<le> us_points old"
    and "cache_on (backend x)" and "l1_get (backend x) (userCacheKeyByID u) = Some (json_of (Some (CUser old)))"
    and "rq_body (req x) = Some m" and "text_field ''nickname'' m = Some nick" and "text_field ''avatar'' m = Some pic"
    and "length nick \<le> 50" and "length pic \<le> 500"
    and "faults (backend x) = []" and "\<exists>v \<in> set (users (backend x)). us_id v = u"
    and "\<not> (\<exists>v \<in> set (users (backend x)). us_id v \<noteq> u \<and> user_conflict (pictured pic (renamed nick old)) v)"
  shows "users (backend (snd (UpdateProfile x))) =
      map (\<lambda>v. if us_id v = u then (pictured pic (renamed nick old))\<lparr>us_password_hash := []\<rparr> else v) (users (backend x)) \<and>
    list_all (\<lambda>v. if us_id v = u then us_password_hash v = [] \<and> us_points v = us_points old else v \<in> set (users (backend x)))
      (users (backend (snd (UpdateProfile x))))"
proof -
  let ?copy = "old\<lparr>us_password_hash := []\<rparr>" and ?new = "(pictured pic (renamed nick old))\<lparr>us_password_hash := []\<rparr>"
  have new: "pictured pic (renamed nick ?copy) = ?new" by (simp add: pictured_def renamed_def)
  have "FindByID u (backend x) = (Inr (Some ?copy), backend x)"
    using assms(6,7) by (simp add: FindByID_def cached_first_user_def cache_get_def decode_user_def io_defs)
  from profile_change_writes_back_the_copy [OF assms(1-3) this _ assms(8-13) _ assms(14)]
  have "users (backend (snd (UpdateProfile x))) = update_where (\<lambda>v. us_id v = u) (\<lambda>_. ?new) (users (backend x))"
    using assms(4,5,15) unfolding new by (simp add: user_conflict_def)
  then have run: "users (backend (snd (UpdateProfile x))) = map (\<lambda>v. if us_id v = u then ?new else v) (users (backend x))"
    by (simp add: update_where_def)
  moreover have "us_id ?new = u" "us_points ?new = us_points old" using assms(4) by (simp_all add: pictured_def renamed_def)
  ultimately show ?thesis by (auto simp: list_all_iff)
qed

section \<open>Examples\<close>

definition web :: "string \<Rightarrow> request \<Rightarrow> world \<Rightarrow> (payload, unit, breaker_state, int) site" where
  "web u rq w = \<lparr>req = rq, status = 200, written = False, bodies = [], headers = [],
     aborted = False, user_id = u, clock = 10, sem = None, inflight = 0,
     objects = [StateClosed], routes = [''/api/v1/auth/login'' \<mapsto> 0], cb_current = sample_cb, cb_last = 0, live_cfg = (0, sample_cb),
     degrade = \<lparr>openCount = 0, degraded = False\<rparr>,
     sec_windows = (\<lambda>_. newSlidingWindow), sec_per_minute = (\<lambda>_. 5), email_window = newSlidingWindow, ip_window = newSlidingWindow,
     captcha_white = Map.empty, live_rl = (0, sample_rl), rl_last = 0, rl_current = sample_rl,
     rl_white = [], rl_exempt = [], global_bucket = Some 3, user_buckets = Map.empty, ip_buckets = Map.empty, backend = w\<rparr>"

lemma web_simps [simp]: "user_id (web u rq w) = u" "backend (web u rq w) = w" "req (web u rq w) = rq"
  by (simp_all add: web_def)

definition sample_idle :: idle_config where
  "sample_idle = \<lparr>ic_timeout = 60 * second, ic_heartbeat_interval = 30 * second, ic_points_per_minute = 1, ic_daily_limit = 100,
     ic_max_devices = 3, ic_max_settle = 10, ic_set_shards = 4, ic_persist = False, ic_points_on = True\<rparr>"

definition rename_request :: request where
  "rename_request = sample_request\<lparr>rq_body := Some [''nickname'' \<mapsto> JString ''bob'']\<rparr>"

text \<open>The account after its profile was shown once and then renamed.\<close>

definition shown_world :: world where
  "shown_world = snd (FindByID ''u1'' (auth_world\<lparr>cache_on := True\<rparr>))"

theorem profile_change_writes_back_the_copy_witness:
  "map us_password_hash (users (backend (snd (UpdateProfile (web ''u1'' rename_request shown_world))))) = [[]]"
proof -
  let ?copy = "alice\<lparr>us_password_hash := []\<rparr>" and ?x = "web ''u1'' rename_request shown_world"
  have f: "fst (FindByID ''u1'' shown_world) = Inr (Some ?copy)" by code_simp
  have u: "faults (snd (FindByID ''u1'' shown_world)) = []" "users (snd (FindByID ''u1'' shown_world)) = [alice]" "users shown_world = [alice]"
    by code_simp+
  have "users (backend (snd (UpdateProfile ?x))) =
      update_where (\<lambda>v. us_id v = ''u1'') (\<lambda>_. pictured [] (renamed ''bob'' ?copy)) (users (backend ?x))"
  proof (rule profile_change_writes_back_the_copy)
    show "FindByID ''u1'' (backend ?x) = (Inr (Some ?copy), snd (FindByID ''u1'' shown_world))" using f by (simp add: web_def prod_eq_iff)
    show "rq_body (req ?x) = Some [''nickname'' \<mapsto> JString ''bob'']" by (simp add: web_def rename_request_def)
  qed (use u in \<open>simp_all add: alice_def new_user_def web_def text_field_def\<close>)
  then show ?thesis using u by (simp add: update_where_def web_def alice_def new_user_def pictured_def renamed_def)
qed

text \<open>The same when the account has earned three points since.\<close>

definition paid_world :: world where
  "paid_world = shown_world\<lparr>users := [alice\<lparr>us_points := 3\<rparr>]\<rparr>"

theorem profile_change_loses_the_password_witness:
  "map (\<lambda>v. (us_password_hash v, us_points v)) (users (backend (snd (UpdateProfile (web ''u1'' rename_request paid_world))))) = [([], 0)]"
proof -
  let ?x = "web ''u1'' rename_request paid_world"
  have w: "cache_on paid_world" "faults paid_world = []" "users paid_world = [alice\<lparr>us_points := 3\<rparr>]"
    "l1_get paid_world (userCacheKeyByID ''u1'') = Some (json_of (Some (CUser alice)))" by code_simp+
  have "users (backend (snd (UpdateProfile ?x))) =
      map (\<lambda>v. if us_id v = ''u1'' then (pictured [] (renamed ''bob'' alice))\<lparr>us_password_hash := []\<rparr> else v) (users (backend ?x))"
  proof (rule profile_change_loses_the_password [THEN conjunct1])
    show "rq_body (req ?x) = Some [''nickname'' \<mapsto> JString ''bob'']" by (simp add: rename_request_def)
  qed (use w in \<open>simp_all add: alice_def new_user_def text_field_def\<close>)
  then show ?thesis using w by (simp add: alice_def new_user_def pictured_def renamed_def)
qed


theorem anonymous_requests_reach_no_service_witness:
  "backend (snd (UpdateProfile (web ''anonymous'' rename_request auth_world))) = auth_world"
proof -
  have "backend (snd (UpdateProfile (web ''anonymous'' rename_request auth_world))) = backend (web ''anonymous'' rename_request auth_world)"
    by (rule anonymous_requests_reach_no_service [THEN conjunct2, of _ True sample_idle id id "\<lambda>_. False" sample_env])
      (simp_all add: user_handlers_def)
  then show ?thesis by (simp only: web_simps)
qed

text \<open>A user who asks for an order of another one.\<close>

definition order_world :: world where
  "order_world = auth_world\<lparr>db := (db auth_world)\<lparr>redeem_orders := [\<lparr>or_id = 7, or_user = ''u1'', or_item = 1, or_item_name = ''cup'', or_points = 5,
     or_status = ''completed'', or_activity = 0, or_created = 0\<rparr>]\<rparr>\<rparr>"

definition order_request :: request where
  "order_request = sample_request\<lparr>rq_param := (\<lambda>_. ''7'')\<rparr>"

theorem orders_are_private_witness:
  "\<exists>order. bd_data (hd (bodies (snd (ShopHandler_OrderDetail (web ''u1'' order_request order_world))))) = Some (OrderData order) \<and> or_user order = ''u1''"
proof -
  let ?x = "web ''u1'' order_request order_world"
  obtain b y where y: "ShopHandler_OrderDetail ?x = (Inr (), y)" "bodies y = bodies ?x @ [b]"
    using answers_user [of ShopHandler_OrderDetail True sample_idle id id "\<lambda>_. False"] unfolding answers_def user_handlers_def by fastforce
  have "map (\<lambda>b. bd_data b \<noteq> None) (bodies (snd (ShopHandler_OrderDetail ?x))) = [True]" by code_simp
  then obtain d where d: "bd_data b = Some d" using y by (auto simp: web_def)
  from orders_are_private [OF y d] show ?thesis using y d by (auto simp: web_def)
qed

end
