(* ===== verification/Router.thy ===== *)
theory Router
  imports HandlerProperties
begin

text \<open>
  The routes of the API (\<open>internal/router/router.go\<close>): which middlewares a request passes and in which
  order. Tracing, metrics and the request log only observe and are left out, as are the websocket,
  the health checks and the description of the captcha.
\<close>

record ('m, 'b, 't) deployment =
  dp_sem :: "'m sem_ops"
  dp_breakers :: "'b breaker_ops"
  dp_buckets :: "'t bucket_ops"
  dp_timeout :: duration
  dp_origins :: "string list"
  dp_admin_token :: string
  dp_captcha :: captcha_config
  dp_verify :: "string \<Rightarrow> string \<Rightarrow> gerr + bool"
  dp_text :: "gerr \<Rightarrow> string"
  dp_validator :: validator
  dp_checker :: bool
  dp_blacklist :: bool
  dp_auth :: auth_env
  dp_idle :: idle_config
  dp_points :: bool
  dp_periods :: "period list \<Rightarrow> period list"
  dp_rows :: "period_rows \<Rightarrow> period_rows"
  dp_late :: "gerr \<Rightarrow> bool"
  dp_flash :: "request \<Rightarrow> flash_input option"

datatype public_route = PostRegister | PostLogin | PostGoogle | PostRefresh

datatype user_route =
    PutPassword | GetUserProfile | PutUserProfile | GetUserPoints
  | PostIdleStart | PostIdleHeartbeat | PostIdleStop | PostIdleStopDevice | GetIdleStatus | GetIdleRecords
  | GetTasks | GetTaskProgress | PostTaskClaim
  | GetItems | PostRedeem | GetOrders | GetOrder | GetFlashActivities | PostFlashRedeem

datatype admin_route = AdminFlashList | AdminFlashDetail | AdminFlashCreate | AdminFlashUpdate | AdminFlashEnd | AdminFlashWarmup | AdminFlashSync | AdminReconcile

datatype route = Public public_route | Protected user_route | Admin admin_route

type_synonym ('m, 'b, 't) served = "('m, 'b, 't, unit) handler_io"

definition user_handler :: "('m, 'b, 't) deployment \<Rightarrow> user_route \<Rightarrow> ('m, 'b, 't) served" where
  "user_handler dp r = (case r of
      PutPassword \<Rightarrow> AuthHandler_ChangePassword (dp_auth dp)
    | GetUserProfile \<Rightarrow> GetProfile
    | PutUserProfile \<Rightarrow> UpdateProfile
    | GetUserPoints \<Rightarrow> GetPoints
    | PostIdleStart \<Rightarrow> IdleHandler_Start (dp_idle dp)
    | PostIdleHeartbeat \<Rightarrow> IdleHandler_Heartbeat (dp_idle dp)
    | PostIdleStop \<Rightarrow> IdleHandler_Stop (dp_idle dp)
    | PostIdleStopDevice \<Rightarrow> IdleHandler_StopDevice (dp_idle dp)
    | GetIdleStatus \<Rightarrow> IdleHandler_Status (dp_idle dp)
    | GetIdleRecords \<Rightarrow> IdleHandler_Records
    | GetTasks \<Rightarrow> TaskHandler_List (dp_periods dp) (dp_rows dp)
    | GetTaskProgress \<Rightarrow> TaskHandler_Progress (dp_periods dp) (dp_rows dp)
    | PostTaskClaim \<Rightarrow> TaskHandler_Claim (dp_points dp)
    | GetItems \<Rightarrow> ShopHandler_Items
    | PostRedeem \<Rightarrow> ShopHandler_Redeem (dp_points dp)
    | GetOrders \<Rightarrow> ShopHandler_Orders
    | GetOrder \<Rightarrow> ShopHandler_OrderDetail
    | GetFlashActivities \<Rightarrow> ShopHandler_FlashActivities
    | PostFlashRedeem \<Rightarrow> ShopHandler_FlashRedeem (dp_points dp) (dp_late dp))"

definition admin_handler :: "('m, 'b, 't) deployment \<Rightarrow> admin_route \<Rightarrow> ('m, 'b, 't) served" where
  "admin_handler dp r = (case r of
      AdminFlashList \<Rightarrow> ShopHandler_ListFlashActivities
    | AdminFlashDetail \<Rightarrow> ShopHandler_FlashActivityDetail
    | AdminFlashCreate \<Rightarrow> ShopHandler_CreateFlashActivity (dp_flash dp)
    | AdminFlashUpdate \<Rightarrow> ShopHandler_UpdateFlashActivity (dp_flash dp)
    | AdminFlashEnd \<Rightarrow> ShopHandler_EndFlashActivity
    | AdminFlashWarmup \<Rightarrow> ShopHandler_WarmupFlashSale
    | AdminFlashSync \<Rightarrow> ShopHandler_SyncFlashSaleStock
    | AdminReconcile \<Rightarrow> ShopHandler_ReconcileItemStock)"

text \<open>Registration and login pass the window of their kind and the captcha besides.\<close>

definition public_chain :: "('m, 'b, 't) deployment \<Rightarrow> public_route \<Rightarrow> ('m, 'b, 't) served" where
  "public_chain dp r = (case r of
      PostRegister \<Rightarrow> SecurityIPLimit ''register'' (Captcha (dp_captcha dp) (dp_verify dp) (dp_text dp) (AuthHandler_Register (dp_auth dp)))
    | PostLogin \<Rightarrow> SecurityIPLimit ''login'' (Captcha (dp_captcha dp) (dp_verify dp) (dp_text dp) (AuthHandler_Login (dp_auth dp)))
    | PostGoogle \<Rightarrow> AuthHandler_GoogleOAuth (dp_auth dp)
    | PostRefresh \<Rightarrow> AuthHandler_RefreshToken (dp_auth dp))"

definition authenticate :: "('m, 'b, 't) deployment \<Rightarrow> ('m, 'b, 't) served \<Rightarrow> ('m, 'b, 't) served" where
  "authenticate dp = AuthMW (\<lambda>h. in_backend (Auth (dp_validator dp) (dp_checker dp) (dp_blacklist dp) h))"

definition api_group :: "('m, 'b, 't) deployment \<Rightarrow> route \<Rightarrow> ('m, 'b, 't) served" where
  "api_group dp r = (case r of
      Public p \<Rightarrow> CircuitBreaker (dp_breakers dp) (public_chain dp p)
    | Protected u \<Rightarrow> authenticate dp (CircuitBreaker (dp_breakers dp) (user_handler dp u))
    | Admin a \<Rightarrow> AdminToken (dp_admin_token dp) (admin_handler dp a))"

definition global_chain :: "('m, 'b, 't) deployment \<Rightarrow> ('m, 'b, 't) served \<Rightarrow> ('m, 'b, 't) served" where
  "global_chain dp next = Recovery (Timeout (dp_timeout dp) (CORS (dp_origins dp) (ConcurrencyLimit (dp_sem dp) next)))"

definition serve :: "('m, 'b, 't) deployment \<Rightarrow> route \<Rightarrow> ('m, 'b, 't) served" where
  "serve dp r = global_chain dp (RateLimit (dp_buckets dp) (api_group dp r))"

section \<open>Every request is answered\<close>

text \<open>Steps that neither write nor abort, as a relation on exchanges.\<close>

definition steady :: "('d, 'z) exchange_scheme \<Rightarrow> ('d, 'z) exchange_scheme \<Rightarrow> bool" where
  "steady x y \<longleftrightarrow> written y = written x \<and> aborted y = aborted x"

interpretation steady: two_state steady
  by unfold_locales (auto simp: steady_def)

lemma steady_modify: "(\<And>x. written (f x) = written x \<and> aborted (f x) = aborted x) \<Longrightarrow> evolves steady (modify_io f)"
  by (simp add: evolves_def modify_io_def steady_def)

text \<open>\<open>replies h\<close>: a request that was not ended before is answered unless \<open>h\<close> panics; nothing unwrites an answer.\<close>

definition replies :: "(('d, 'z) exchange_scheme, unit) io \<Rightarrow> bool" where
  "replies h \<longleftrightarrow> (\<forall>x. (\<not> aborted x \<longrightarrow> (\<forall>u y. h x = (Inr u, y) \<longrightarrow> written y)) \<and> (written x \<longrightarrow> written (snd (h x))))"

lemma answers_reply: "answers S h \<Longrightarrow> replies h"
  unfolding answers_def replies_def by (metis (no_types, lifting) Pair_inject snd_conv)

lemma replies_JSON: "replies (JSON n b)"
  by (simp add: replies_def JSON_def write_header_def run_simps) (simp add: modify_io_def)

lemma replies_bind:
  assumes "evolves steady m" and "\<And>r. replies (k r)"
  shows "replies (bind_io m k)"
  unfolding replies_def
proof
  fix x
  obtain r y where m: "m x = (r, y)" by fastforce
  have "steady x y" using m by (rule evolvesD [OF assms(1)])
  then have s: "written y = written x" "aborted y = aborted x" by (simp_all add: steady_def)
  show "(\<not> aborted x \<longrightarrow> (\<forall>u y. bind_io m k x = (Inr u, y) \<longrightarrow> written y)) \<and> (written x \<longrightarrow> written (snd (bind_io m k x)))"
    using assms(2) s m by (cases r) (auto simp: bind_io_def replies_def)
qed

lemma replies_then: "evolves steady m \<Longrightarrow> replies h \<Longrightarrow> replies (then_io m h)"
  unfolding then_io_def by (rule replies_bind)

lemma replies_gets: "(\<And>v. replies (k v)) \<Longrightarrow> replies (bind_io (gets_io f) k)"
  by (rule replies_bind [OF steady.ev_gets])

lemma replies_if: "(c \<Longrightarrow> replies h) \<Longrightarrow> (\<not> c \<Longrightarrow> replies h') \<Longrightarrow> replies (if c then h else h')"
  by simp

lemma replies_after:
  assumes "replies h" and "\<And>x. written x \<Longrightarrow> written (snd (m x))"
  shows "replies (then_io h m)"
  using assms unfolding replies_def then_io_def bind_io_def by (fastforce split: prod.splits sum.splits)

lemma replies_answer: "replies (ErrorWithHTTPStatus n c m)" "replies (RateLimited k)" "replies (Error c m)" "replies (Forbidden c)" "replies (Unauthorized c)"
  "replies (ServiceUnavailable c)"
  unfolding ErrorWithHTTPStatus_def RateLimited_def Error_def Forbidden_def Unauthorized_def ServiceUnavailable_def Header_def
  by (intro replies_then steady_modify replies_JSON; simp)+

lemma written_Abort: "written x \<Longrightarrow> written (snd (Abort x))"
  by (simp add: Abort_def modify_io_def)

lemma replies_ended: "replies h \<Longrightarrow> replies (then_io h Abort)"
  by (rule replies_after) (simp_all add: written_Abort)

lemma replies_status: "replies (AbortWithStatus n)"
  by (simp add: replies_def AbortWithStatus_def write_header_def Abort_def run_simps) (simp add: modify_io_def)

lemma Timeout_replies: "replies h \<Longrightarrow> replies (Timeout d h)"
  unfolding Timeout_def Let_def
  by (intro replies_gets replies_after)
    (auto simp: gets_io_def when_io_def ret_def ErrorWithHTTPStatus_def JSON_def write_header_def then_io_def bind_io_def modify_io_def)

lemma CORS_replies: "replies h \<Longrightarrow> replies (CORS origins h)"
  unfolding CORS_def Header_def
  by (rule replies_gets) (auto intro!: replies_then steady_modify replies_status split: prod.split)

lemma AdminToken_replies: "replies h \<Longrightarrow> replies (AdminToken token h)"
  unfolding AdminToken_def by (intro replies_if replies_gets replies_ended replies_answer)

lemma AuthMW_replies: "(\<And>t. evolves steady (check t)) \<Longrightarrow> replies h \<Longrightarrow> replies (AuthMW check h)"
  unfolding AuthMW_def
  by (intro replies_gets replies_bind [where m = "check _"]) (auto intro!: replies_ended replies_answer replies_then steady_modify split: auth_outcome.split)

lemma replies_finally: "replies g \<Longrightarrow> (\<And>x. written (f x) = written x) \<Longrightarrow> replies (finally_io g (modify_io f))"
  by (auto simp: replies_def finally_io_def modify_io_def split: prod.splits)

lemma ConcurrencyLimit_replies:
  assumes "replies h"
  shows "replies (ConcurrencyLimit ops h)"
  using assms unfolding ConcurrencyLimit_def try_acquire_def
  by (intro replies_gets) (auto intro!: replies_finally replies_gets replies_if replies_bind replies_then replies_ended replies_answer steady_modify
        steady.ev_rules split: option.split prod.split)


lemma written_after: "(\<And>x. written (f x) = written x) \<Longrightarrow> written x \<Longrightarrow> written (snd (modify_io f x))"
  by (simp add: modify_io_def)

lemma setRateLimitHeaders_steady: "evolves steady (setRateLimitHeaders ops tb)"
  unfolding evolves_def using setRateLimitHeaders_run [of ops tb] by (metis steady_def exchange.select_convs(3,6) exchange.surjective exchange.update_convs(5) snd_conv)

lemma reject_replies: "replies (rl_reject ops b f)"
  unfolding rl_reject_def by (intro replies_gets replies_then setRateLimitHeaders_steady replies_ended replies_answer)

lemma RateLimit_replies:
  assumes "replies h"
  shows "replies (RateLimit ops h)"
proof -
  have take: "evolves steady (take_global ops)" "evolves steady (limit_user ops u)" "evolves steady (limit_ip ops ip)" "evolves steady (rl_sync ops)" for u ip
    unfolding take_global_def limit_user_def limit_ip_def checkPerUser_def checkPerIP_def rl_sync_def
    by (auto intro!: steady.ev_rules steady_modify simp: Let_def split: option.split prod.split if_splits)
  show ?thesis
    unfolding RateLimit_def
    by (intro replies_gets replies_if assms replies_then replies_bind take; auto intro!: replies_gets replies_if assms replies_then replies_bind take reject_replies setRateLimitHeaders_steady split: prod.split)
qed

lemma replies_at:
  assumes "replies h" and "m x = h y" and "steady x y"
  shows "(\<not> aborted x \<longrightarrow> (\<forall>u z. m x = (Inr u, z) \<longrightarrow> written z)) \<and> (written x \<longrightarrow> written (snd (m x)))"
  using assms unfolding replies_def steady_def by metis

lemma SecurityIPLimit_replies:
  fixes h :: "(('d, 'm, 'b, 't, 'z) limited_scheme, unit) io"
  assumes "replies h"
  shows "replies (SecurityIPLimit kind h)"
  unfolding replies_def [of "SecurityIPLimit kind h"]
proof
  fix x :: "('d, 'm, 'b, 't, 'z) limited_scheme"
  let ?x = "x\<lparr>sec_windows := (sec_windows x)(kind := sw_record (rq_ip (req x)) (clock x) (sec_windows x kind))\<rparr>"
  have "SecurityIPLimit kind h x = h x \<or> SecurityIPLimit kind h x = h ?x \<or> SecurityIPLimit kind h x = then_io (RateLimited 1) Abort x"
    by (simp add: SecurityIPLimit_def Let_def)
  then consider "SecurityIPLimit kind h x = h x" | "SecurityIPLimit kind h x = h ?x" | "SecurityIPLimit kind h x = then_io (RateLimited 1) Abort x"
    by blast
  then show "(\<not> aborted x \<longrightarrow> (\<forall>u z. SecurityIPLimit kind h x = (Inr u, z) \<longrightarrow> written z)) \<and>
      (written x \<longrightarrow> written (snd (SecurityIPLimit kind h x)))"
  proof cases
    case 1 show ?thesis by (rule replies_at [OF assms, of "SecurityIPLimit kind h" x x]) (simp_all add: 1 steady_def)
  next
    case 2 show ?thesis by (rule replies_at [OF assms, of "SecurityIPLimit kind h" x "?x"]) (simp_all add: 2 steady_def)
  next
    case 3 show ?thesis by (rule replies_at [OF replies_ended [OF replies_answer(2)], of "SecurityIPLimit kind h" x 1 x]) (simp_all add: 3 steady_def)
  qed
qed

lemma Captcha_replies:
  assumes "replies h"
  shows "replies (Captcha cfg verify text h)"
proof -
  have "replies (throw e)" for e by (simp add: replies_def throw_def)
  then show ?thesis unfolding Captcha_def recordAttempt_def addWhitelist_def
    by (intro replies_if replies_gets replies_then steady_modify replies_ended replies_answer assms; auto intro!: assms replies_then steady_modify replies_ended replies_answer split: option.split sum.split bool.split)
qed


lemma on_breaker_steady: "evolves steady (on_breaker i f)"
  unfolding on_breaker_def by (auto intro!: steady.ev_rules steady_modify split: prod.split)

lemma getOrCreate_steady: "evolves steady (getOrCreate ops r)"
  unfolding getOrCreate_def cb_sync_def by (auto intro!: steady.ev_rules steady_modify split: option.split if_splits)

text \<open>What a call behind a breaker leaves: an answer, or a refusal with the exchange as it was.\<close>

lemma Execute_written:
  fixes h :: "(('d, 'm, 'b, 'z) guarded_scheme, unit) io"
  assumes "replies h" and "Execute ops i (then_io h (gets_io f)) x = (r, y)"
  shows "(written x \<longrightarrow> written y) \<and> (\<not> aborted x \<longrightarrow> (case r of Inl e \<Rightarrow> True | Inr ok \<Rightarrow> written y \<or> (\<not> ok \<and> \<not> aborted y)))"
proof -
  obtain a x1 where before: "on_breaker i (cb_before ops) x = (a, x1)" by fastforce
  then have x1: "written x1 = written x" "aborted x1 = aborted x"
    using evolvesD [OF on_breaker_steady] by (fastforce simp: steady_def)+
  obtain c x2 where call: "h x1 = (c, x2)" by fastforce
  have after: "\<exists>z. on_breaker i g x2 = (Inr (), z) \<and> written z = written x2" for g :: "instant \<Rightarrow> 'b \<Rightarrow> unit \<times> 'b \<times> transition list"
    by (simp add: on_breaker_def bind_io_def gets_io_def then_io_def modify_io_def ret_def split: prod.split)
  have "written x1 \<longrightarrow> written x2" "\<not> aborted x1 \<Longrightarrow> c = Inr () \<Longrightarrow> written x2"
    using assms(1) call unfolding replies_def by (metis snd_conv)+
  then show ?thesis using assms(2) before x1 call
      after [of "\<lambda>t b. ((), cb_after ops False t b)"] after [of "\<lambda>t b. ((), cb_after ops (f x2) t b)"]
    by (auto simp: Execute_def then_io_def bind_io_def attempt_def gets_io_def ret_def throw_def split: option.splits sum.splits)
qed

lemma breaker_answer_replies:
  fixes h :: "(('d, 'm, 'b, 'z) guarded_scheme, unit) io"
  assumes "replies h"
  shows "replies (bind_io (Execute ops i (then_io h (gets_io f))) (\<lambda>ok. bind_io (gets_io aborted) (\<lambda>ab.
      when_io (\<not> ok \<and> \<not> ab) (then_io (ErrorWithHTTPStatus n c m) Abort))))" (is "replies ?m")
  unfolding replies_def
proof
  fix x :: "('d, 'm, 'b, 'z) guarded_scheme"
  obtain r y where e: "Execute ops i (then_io h (gets_io f)) x = (r, y)" by fastforce
  have "replies (then_io (ErrorWithHTTPStatus n c m) Abort :: (('d, 'm, 'b, 'z) guarded_scheme, unit) io)"
    by (rule replies_ended [OF replies_answer(1)])
  then show "(\<not> aborted x \<longrightarrow> (\<forall>u z. ?m x = (Inr u, z) \<longrightarrow> written z)) \<and> (written x \<longrightarrow> written (snd (?m x)))"
    using Execute_written [OF assms e] e
    by (cases r) (auto simp: bind_io_def gets_io_def when_io_def ret_def replies_def)
qed

lemma CircuitBreaker_replies: "replies h \<Longrightarrow> replies (CircuitBreaker ops h)"
  unfolding CircuitBreaker_def behind_breaker_def
  by (intro replies_gets)
    (auto intro!: replies_bind [OF getOrCreate_steady] replies_bind [OF on_breaker_steady] breaker_answer_replies replies_ended replies_answer)


lemma user_handler_listed:
  "user_handler dp u \<in> set (user_handlers (dp_points dp) (dp_idle dp) (dp_periods dp) (dp_rows dp) (dp_late dp)) \<or>
   user_handler dp u = AuthHandler_ChangePassword (dp_auth dp)"
  by (cases u) (simp_all add: user_handler_def user_handlers_def)

lemma admin_handler_listed: "admin_handler dp a \<in> set (admin_handlers (dp_flash dp))"
  by (cases a) (simp_all add: admin_handler_def admin_handlers_def)

text \<open>The exchange of a refresh token may panic, having written nothing: recovery answers for it.\<close>

lemma refresh_replies: "replies (AuthHandler_RefreshToken env :: ('m, 'b, 't) served)"
  unfolding replies_def
proof
  fix x :: "(payload, 'm, 'b, 't) site"
  let ?h = "AuthHandler_RefreshToken env"
  consider "answers_at {200, 400, 401} ?h x" | "panics_at ?h x"
    using answers_refresh [of env x] by (auto split: if_splits)
  then show "(\<not> aborted x \<longrightarrow> (\<forall>u y. ?h x = (Inr u, y) \<longrightarrow> written y)) \<and> (written x \<longrightarrow> written (snd (?h x)))"
    by cases (auto simp: answers_at_def panics_at_def)
qed

lemma api_group_replies: "replies (api_group dp r)"
proof (cases r)
  case (Public p)
  have "replies (h :: ('a, 'b, 'c) served)" if "h \<in> set (account_handlers (dp_auth dp))" for h
    using answers_account [OF that] by (rule answers_reply)
  then have "replies (public_chain dp p)"
    by (cases p) (simp_all add: public_chain_def account_handlers_def SecurityIPLimit_replies Captcha_replies refresh_replies)
  then show ?thesis by (simp add: api_group_def Public CircuitBreaker_replies)
next
  case (Protected u)
  have "replies (user_handler dp u)"
    using user_handler_listed [of dp u]
  proof
    assume "user_handler dp u = AuthHandler_ChangePassword (dp_auth dp)"
    moreover have "AuthHandler_ChangePassword (dp_auth dp) \<in> set (account_handlers (dp_auth dp))" by (simp add: account_handlers_def)
    ultimately show ?thesis by (metis answers_account answers_reply)
  qed (rule answers_reply [OF answers_user])
  moreover have "evolves steady (in_backend m :: ((payload, 'a, 'b, 'c) site, 'd) io)" for m :: "(world, 'd) io"
    by (auto simp: evolves_def in_backend_def steady_def split: prod.split)
  ultimately show ?thesis by (auto simp: api_group_def Protected authenticate_def intro!: AuthMW_replies CircuitBreaker_replies)
next
  case (Admin a)
  show ?thesis by (simp add: api_group_def Admin AdminToken_replies answers_reply [OF answers_admin [OF admin_handler_listed]])
qed

text \<open>C16. Every request is answered: whatever the middlewares decide, whichever services fail and even when a
handler panics, the chain returns and an answer has been written.\<close>

theorem every_request_is_answered:
  assumes "\<not> aborted x"
  shows "\<exists>y. serve dp r x = (Inr (), y) \<and> written y"
proof -
  let ?h = "Timeout (dp_timeout dp) (CORS (dp_origins dp) (ConcurrencyLimit (dp_sem dp) (RateLimit (dp_buckets dp) (api_group dp r))))"
  have "replies ?h" by (intro Timeout_replies CORS_replies ConcurrencyLimit_replies RateLimit_replies api_group_replies)
  moreover obtain c y where "?h x = (c, y)" by fastforce
  ultimately show ?thesis using assms
    by (cases c) (auto simp: serve_def global_chain_def Recovery_def replies_def bind_io_def attempt_def ret_def Abort_def JSON_def
        write_header_def then_io_def modify_io_def)
qed


section \<open>What a request leaves as it is\<close>

text \<open>
  A chain screens what \<open>obs\<close> observes from the requests with \<open>P\<close>: the steps before the screen keep both,
  as every answer and every header does.
\<close>

locale screen =
  fixes keep :: "(payload, 'm, 'b, 't) site \<Rightarrow> (payload, 'm, 'b, 't) site \<Rightarrow> bool"
    and obs :: "(payload, 'm, 'b, 't) site \<Rightarrow> 'o"
    and P :: "(payload, 'm, 'b, 't) site \<Rightarrow> bool"
  assumes keep_trans: "keep x y \<Longrightarrow> keep y z \<Longrightarrow> keep x z"
    and keep_obs: "keep x y \<Longrightarrow> obs y = obs x"
    and keep_P: "keep x y \<Longrightarrow> P x \<Longrightarrow> P y"
    and keep_answer: "req y = req x \<Longrightarrow> user_id y = user_id x \<Longrightarrow> user_buckets y = user_buckets x \<Longrightarrow> backend y = backend x \<Longrightarrow> keep x y"
begin

definition screens :: "((payload, 'm, 'b, 't) site, 'a) io \<Rightarrow> bool" where
  "screens h \<longleftrightarrow> (\<forall>x. P x \<longrightarrow> obs (snd (h x)) = obs x)"

lemma two: "two_state keep"
  by unfold_locales (auto intro: keep_answer keep_trans)

lemmas keep_rules = two_state.ev_rules [OF two]

lemma keep_modify:
  "(\<And>x. req (f x) = req x \<and> user_id (f x) = user_id x \<and> user_buckets (f x) = user_buckets x \<and> backend (f x) = backend x) \<Longrightarrow> evolves keep (modify_io f)"
  by (simp add: evolves_def modify_io_def keep_answer)

lemma keep_run: "evolves keep m \<Longrightarrow> keep x (snd (m x))"
  by (erule evolvesD [where r = "fst (m x)"]) simp

lemma screens_keep: "evolves keep h \<Longrightarrow> screens h"
  unfolding screens_def by (metis keep_run keep_obs)

lemma screens_bind:
  assumes "evolves keep m" and "\<And>r. screens (k r)"
  shows "screens (bind_io m k)"
  unfolding screens_def
proof (intro allI impI)
  fix x assume "P x"
  obtain r y where m: "m x = (r, y)" by fastforce
  then have q: "keep x y" by (rule evolvesD [OF assms(1)])
  then have "obs (snd (k v y)) = obs x" for v
    using assms(2) keep_P [OF q \<open>P x\<close>] keep_obs [OF q] by (simp add: screens_def)
  then show "obs (snd (bind_io m k x)) = obs x" using m keep_obs [OF q] by (cases r) (auto simp: bind_io_def)
qed

lemma screens_then: "evolves keep m \<Longrightarrow> screens h \<Longrightarrow> screens (then_io m h)"
  unfolding then_io_def by (rule screens_bind)

lemma screens_gets: "(\<And>v. screens (k v)) \<Longrightarrow> screens (bind_io (gets_io f) k)"
  by (rule screens_bind [OF two_state.ev_gets [OF two]])

lemma screens_after:
  assumes "screens h" and "\<And>r. evolves keep (k r)"
  shows "screens (bind_io h k)"
  unfolding screens_def
proof (intro allI impI)
  fix x assume "P x"
  obtain r y where m: "h x = (r, y)" by fastforce
  then have q: "obs y = obs x" using assms(1) \<open>P x\<close> by (metis screens_def snd_conv)
  have "obs (snd (k v y)) = obs y" for v using keep_obs [OF keep_run [OF assms(2)]] .
  then show "obs (snd (bind_io h k x)) = obs x" using m q by (cases r) (auto simp: bind_io_def)
qed

lemma screens_then_after: "screens h \<Longrightarrow> evolves keep m \<Longrightarrow> screens (then_io h m)"
  unfolding then_io_def by (rule screens_after)

lemma screens_attempt: "screens h \<Longrightarrow> screens (attempt h)"
  by (auto simp: screens_def attempt_def split: prod.split)

lemma screens_finally:
  assumes "screens h" and "evolves keep m"
  shows "screens (finally_io h m)"
  unfolding screens_def
proof (intro allI impI)
  fix x assume "P x"
  obtain r y where h: "h x = (r, y)" by fastforce
  obtain r' z where m: "m y = (r', z)" by fastforce
  have "obs y = obs x" using assms(1) \<open>P x\<close> h by (metis screens_def snd_conv)
  moreover have "obs z = obs y" using m by (rule keep_obs [OF evolvesD [OF assms(2)]])
  ultimately show "obs (snd (finally_io h m x)) = obs x" using h m by (auto simp: finally_io_def split: sum.split)
qed

lemma keep_answers: "evolves keep (ErrorWithHTTPStatus n c m)" "evolves keep (JSON n b)" "evolves keep (RateLimited k)" "evolves keep (Forbidden c)"
  "evolves keep (Unauthorized c)" "evolves keep (Header k' v)" "evolves keep Abort" "evolves keep (AbortWithStatus n)" "evolves keep (ServiceUnavailable c)"
  unfolding ServiceUnavailable_def ErrorWithHTTPStatus_def RateLimited_def Forbidden_def Unauthorized_def JSON_def write_header_def Header_def Abort_def AbortWithStatus_def
  by (intro keep_rules keep_modify; simp)+

text \<open>The middlewares that every request passes.\<close>

lemma screens_chain:
  assumes "screens h"
  shows "screens (global_chain dp h)"
proof -
  have c: "screens (ConcurrencyLimit (dp_sem dp) h)"
    unfolding ConcurrencyLimit_def try_acquire_def
    by (auto intro!: assms screens_gets screens_bind screens_finally screens_then keep_rules keep_modify
        screens_keep [where h = "then_io (ServiceUnavailable _) _"] keep_answers split: option.split prod.split)
  have "screens (CORS (dp_origins dp) (ConcurrencyLimit (dp_sem dp) h))"
    unfolding CORS_def by (auto intro!: c screens_gets screens_then screens_keep [OF keep_answers(8)] keep_answers split: prod.split)
  then show ?thesis
    unfolding global_chain_def Recovery_def Timeout_def Let_def
    by (auto intro!: screens_after screens_attempt screens_gets screens_then_after keep_rules keep_answers split: sum.split)
qed

end

section \<open>Nothing is done without credentials\<close>

definition quiet :: "(payload, 'm, 'b, 't) site \<Rightarrow> (payload, 'm, 'b, 't) site \<Rightarrow> bool" where
  "quiet x y \<longleftrightarrow> req y = req x \<and> backend y = backend x"

definition lacks_credentials :: "('m, 'b, 't) deployment \<Rightarrow> route \<Rightarrow> request \<Rightarrow> world \<Rightarrow> bool" where
  "lacks_credentials dp r rq w = (case r of
      Public p \<Rightarrow> False
    | Protected u \<Rightarrow> rq_header rq ''Authorization'' = [] \<or>
        (case dp_validator dp of None \<Rightarrow> False | Some v \<Rightarrow> isl (v (now w) (bearer (rq_header rq ''Authorization''))))
    | Admin a \<Rightarrow> dp_admin_token dp = [] \<or> rq_header rq ''X-Admin-Token'' \<noteq> dp_admin_token dp)"

lemma Auth_rejects:
  assumes "header = [] \<or> (\<exists>v e. dp_validator dp = Some v \<and> v (now w) (bearer header) = Inl e)"
  shows "\<exists>n. Auth (dp_validator dp) on off header w = (Inr (Rejected n), w)"
  using assms by (cases "header = []") (auto simp: Auth_def ret_def bind_io_def gets_io_def)

interpretation services: screen quiet backend "\<lambda>x. lacks_credentials dp r (req x) (backend x)" for dp r
  by unfold_locales (auto simp: quiet_def)

abbreviation refused :: "('m, 'b, 't) deployment \<Rightarrow> route \<Rightarrow> ('m, 'b, 't) served \<Rightarrow> bool" where
  "refused dp r \<equiv> screen.screens backend (\<lambda>x. lacks_credentials dp r (req x) (backend x))"

lemma quiet_modify: "(\<And>x. req (f x) = req x \<and> backend (f x) = backend x) \<Longrightarrow> evolves quiet (modify_io f)"
  by (simp add: evolves_def modify_io_def quiet_def)

lemma quiet_limits: "evolves quiet (take_global ops)" "evolves quiet (limit_user ops u)" "evolves quiet (limit_ip ops ip)" "evolves quiet (rl_sync ops)"
    "evolves quiet (setRateLimitHeaders ops tb)"
  unfolding take_global_def limit_user_def limit_ip_def checkPerUser_def checkPerIP_def rl_sync_def setRateLimitHeaders_def
  by (auto intro!: services.keep_rules quiet_modify services.keep_answers simp: Let_def split: option.split prod.split if_splits)

lemma quiet_reject: "evolves quiet (rl_reject ops b f)"
  unfolding rl_reject_def by (intro services.keep_rules quiet_limits services.keep_answers)

lemma RateLimit_screens: "refused dp r h \<Longrightarrow> refused dp r (RateLimit ops h)"
  unfolding RateLimit_def
  by (intro services.screens_gets)
    (auto intro!: services.screens_gets services.screens_then services.screens_bind [OF quiet_limits(1)] services.screens_bind [OF quiet_limits(2)]
       services.screens_bind [OF quiet_limits(3)] quiet_limits services.screens_keep [OF quiet_reject] split: prod.split)

lemma end_run:
  fixes x :: "(payload, 'm, 'b, 't) site"
  shows "quiet x (snd (then_io (Unauthorized n) Abort x))" "quiet x (snd (then_io (Forbidden n) Abort x))"
  by (intro services.keep_run services.keep_rules services.keep_answers)+

lemma group_screens: "refused dp r (api_group dp r)"
proof -
  show ?thesis
  proof (cases r)
    case (Protected u)
    have "quiet x (snd (authenticate dp h x))" if "lacks_credentials dp r (req x) (backend x)" for x and h :: "('a, 'b, 'c) served"
    proof -
      have "rq_header (req x) ''Authorization'' = [] \<or>
          (\<exists>v e. dp_validator dp = Some v \<and> v (now (backend x)) (bearer (rq_header (req x) ''Authorization'')) = Inl e)"
        using that by (auto simp: lacks_credentials_def Protected isl_def split: option.splits)
      then obtain n where "Auth (dp_validator dp) (dp_checker dp) (dp_blacklist dp) (rq_header (req x) ''Authorization'') (backend x) = (Inr (Rejected n), backend x)"
        using Auth_rejects by blast
      then have "authenticate dp h x = then_io (Unauthorized n) Abort x"
        by (simp add: authenticate_def AuthMW_def bind_io_def gets_io_def in_backend_def)
      then show ?thesis by (simp add: end_run)
    qed
    then show ?thesis by (simp add: services.screens_def api_group_def Protected quiet_def)
  next
    case (Admin a)
    have "quiet x (snd (AdminToken (dp_admin_token dp) h x))" if "lacks_credentials dp r (req x) (backend x)" for x and h :: "('a, 'b, 'c) served"
      using that by (auto simp: lacks_credentials_def Admin AdminToken_def run_gets end_run)
    then show ?thesis by (simp add: services.screens_def api_group_def Admin quiet_def)
  next
    case (Public p)
    then show ?thesis unfolding services.screens_def by (simp add: lacks_credentials_def)
  qed
qed

text \<open>C15. A request without credentials changes nothing in the services: on a route behind the authentication
one without a header or with a token the validator refuses, on a route of the administration one without
the configured token, and everybody when no token is configured.\<close>

theorem protected_routes_need_credentials:
  assumes "lacks_credentials dp r (req x) (backend x)"
  shows "backend (snd (serve dp r x)) = backend x"
proof -
  have "refused dp r (serve dp r)"
    unfolding serve_def by (intro services.screens_chain RateLimit_screens group_screens)
  then show ?thesis using assms by (simp add: services.screens_def quiet_def)
qed


section \<open>The limits per user\<close>

definition same_user :: "(payload, 'm, 'b, 't) site \<Rightarrow> (payload, 'm, 'b, 't) site \<Rightarrow> bool" where
  "same_user x y \<longleftrightarrow> user_id y = user_id x \<and> user_buckets y = user_buckets x"

interpretation buckets: screen same_user user_buckets "\<lambda>x. user_id x = []"
  by unfold_locales (auto simp: same_user_def)

text \<open>Behind the limits the user may be set.\<close>

definition same_buckets :: "(payload, 'm, 'b, 't) site \<Rightarrow> (payload, 'm, 'b, 't) site \<Rightarrow> bool" where
  "same_buckets x y \<longleftrightarrow> user_buckets y = user_buckets x"

interpretation later: screen same_buckets user_buckets "\<lambda>x. True"
  by unfold_locales (auto simp: same_buckets_def)

lemma later_modify: "(\<And>x. user_buckets (f x) = user_buckets x) \<Longrightarrow> evolves same_buckets (modify_io f)"
  by (simp add: evolves_def modify_io_def same_buckets_def)

lemma later_backend: "evolves same_buckets (in_backend m)"
  by (auto simp: evolves_def in_backend_def same_buckets_def split: prod.split)

lemma later_call: "(\<And>e. evolves same_buckets (failed e)) \<Longrightarrow> (\<And>v. evolves same_buckets (got v)) \<Longrightarrow> evolves same_buckets (call_service m failed got)"
  unfolding call_service_def by (auto intro!: later.keep_rules later_backend split: sum.split)

lemma later_replies: "evolves same_buckets (Success d)" "evolves same_buckets (Error n m)" "evolves same_buckets (Error_of n e)"
   "evolves same_buckets (BadRequest s)"
  unfolding Success_def Error_def Error_of_def BadRequest_def with_text_def by (intro later.keep_rules later.keep_answers)+

lemma later_input:
  "(\<And>u. evolves same_buckets (k u)) \<Longrightarrow> evolves same_buckets (requireUser k)"
  "(\<And>v. evolves same_buckets (kv v)) \<Longrightarrow> evolves same_buckets bad \<Longrightarrow> evolves same_buckets (bind_object kv f bad)"
  "(\<And>n. evolves same_buckets (kn n)) \<Longrightarrow> evolves same_buckets (query_cursor kn)"
  "(\<And>n. evolves same_buckets (kn n)) \<Longrightarrow> evolves same_buckets (query_limit kn)"
  "(\<And>n. evolves same_buckets (kn n)) \<Longrightarrow> evolves same_buckets (param_id s kn)"
  "(\<And>t. evolves same_buckets (kt t)) \<Longrightarrow> evolves same_buckets (with_text e kt)"
  unfolding requireUser_def bind_object_def query_cursor_def query_limit_def param_id_def with_text_def Let_def
  by (auto intro!: later.keep_rules later.keep_answers later_replies split: option.split sum.split)

lemmas later_rules = later_replies later_call later_input later.keep_rules later.keep_answers

lemma user_handler_later: "evolves same_buckets (user_handler dp u)"
proof -
  have find: "(\<And>usr. evolves same_buckets (k usr)) \<Longrightarrow> evolves same_buckets (find_user k u)" for k :: "user \<Rightarrow> ('m, 'b, 't) served" and u
    unfolding find_user_def by (intro later_rules; auto intro!: later_rules split: option.split)
  have failed: "evolves same_buckets (not_idle e :: ('m, 'b, 't) served)" "evolves same_buckets (redeem_failed e :: ('m, 'b, 't) served)"
    "evolves same_buckets (flash_failed late e :: ('m, 'b, 't) served)" for e late
    unfolding not_idle_def redeem_failed_def flash_failed_def redeem_concurrent_def by (auto intro!: later_rules)
  show ?thesis
    unfolding user_handler_def GetProfile_def GetPoints_def UpdateProfile_def IdleHandler_Start_def IdleHandler_Heartbeat_def IdleHandler_Stop_def IdleHandler_StopDevice_def
      IdleHandler_Status_def IdleHandler_Records_def TaskHandler_List_def TaskHandler_Progress_def TaskHandler_Claim_def
      ShopHandler_Items_def ShopHandler_Redeem_def ShopHandler_Orders_def ShopHandler_OrderDetail_def ShopHandler_FlashActivities_def
      ShopHandler_FlashRedeem_def bind_device_def AuthHandler_ChangePassword_def Let_def
    by (cases u) (auto intro!: later_rules find failed)
qed


lemma admin_handler_later: "evolves same_buckets (admin_handler dp a)"
proof -
  have ids: "(\<And>n. evolves same_buckets (k n)) \<Longrightarrow> evolves same_buckets (positive_id s k)" for s and k :: "int \<Rightarrow> ('m, 'b, 't) served"
    unfolding positive_id_def by (auto intro!: later_rules)
  have bad: "evolves same_buckets (bad_input e :: ('m, 'b, 't) served)" for e
    unfolding bad_input_def by (intro later_rules)
  have missing: "(\<And>e. evolves same_buckets (k e)) \<Longrightarrow> evolves same_buckets (not_found_or k e)" for k :: "gerr \<Rightarrow> ('m, 'b, 't) served" and e
    unfolding not_found_or_def by (auto intro!: later_rules)
  have input: "(\<And>i. evolves same_buckets (k i)) \<Longrightarrow> evolves same_buckets (bind_flash parse k)" for parse and k :: "flash_input \<Rightarrow> ('m, 'b, 't) served"
    unfolding bind_flash_def by (auto intro!: later_rules split: option.split)
  show ?thesis
    unfolding admin_handler_def ShopHandler_ListFlashActivities_def ShopHandler_FlashActivityDetail_def
      ShopHandler_CreateFlashActivity_def ShopHandler_UpdateFlashActivity_def ShopHandler_EndFlashActivity_def
      ShopHandler_WarmupFlashSale_def ShopHandler_SyncFlashSaleStock_def ShopHandler_ReconcileItemStock_def
    by (cases a) (auto intro!: ids input missing bad later_rules)
qed

lemma SecurityIPLimit_later:
  assumes "evolves same_buckets h"
  shows "evolves same_buckets (SecurityIPLimit kind h)"
proof -
  have "same_buckets x (snd (h x))" "same_buckets x (snd (then_io (RateLimited 1) Abort x))" for x
    by (intro later.keep_run assms later_rules)+
  then show ?thesis by (auto simp: evolves_def SecurityIPLimit_def Let_def same_buckets_def split: if_splits)
qed

lemma public_chain_later: "evolves same_buckets (public_chain dp p)"
proof -
  have captcha: "evolves same_buckets (Captcha cfg v t h)" if "evolves same_buckets h" for cfg v t and h :: "('m, 'b, 't) served"
    unfolding Captcha_def recordAttempt_def addWhitelist_def
    by (auto intro!: that later_rules later_modify split: option.split sum.split bool.split)
  show ?thesis
    unfolding public_chain_def AuthHandler_Register_def AuthHandler_Login_def AuthHandler_GoogleOAuth_def AuthHandler_RefreshToken_def
    by (cases p) (auto intro!: captcha SecurityIPLimit_later later_rules)
qed

lemma CircuitBreaker_later: "evolves same_buckets h \<Longrightarrow> evolves same_buckets (CircuitBreaker ops h)"
  unfolding CircuitBreaker_def getOrCreate_def cb_sync_def behind_breaker_def Execute_def on_breaker_def
  by (auto intro!: later_rules later_modify split: option.split sum.split prod.split if_splits)

lemma api_group_later:
  fixes dp :: "('m, 'b, 't) deployment"
  shows "evolves same_buckets (api_group dp r)"
proof -
  have auth: "evolves same_buckets (authenticate dp h)" if "evolves same_buckets h" for h :: "('m, 'b, 't) served"
    unfolding authenticate_def AuthMW_def by (auto intro!: that later_rules later_backend later_modify split: auth_outcome.split)
  have admin: "evolves same_buckets (AdminToken t h)" if "evolves same_buckets h" for t and h :: "('m, 'b, 't) served"
    unfolding AdminToken_def by (auto intro!: that later_rules)
  show ?thesis
    by (cases r) (auto simp: api_group_def intro!: auth admin CircuitBreaker_later public_chain_later user_handler_later admin_handler_later)
qed


lemma later_screens: "evolves same_buckets h \<Longrightarrow> buckets.screens h"
  unfolding buckets.screens_def by (metis later.keep_run same_buckets_def)

lemma anonymous_screens:
  assumes "\<And>ip. evolves same_buckets (F (ip, []))"
  shows "buckets.screens (bind_io (gets_io (\<lambda>x. (rq_ip (req x), user_id x))) F)"
proof -
  have "user_buckets (snd (F (ip, []) x)) = user_buckets x" for ip x using later.keep_run [OF assms] by (metis same_buckets_def)
  then show ?thesis by (simp add: buckets.screens_def run_gets)
qed

lemma limit_nobody: "limit_user ops [] = ret True"
  by (simp add: limit_user_def run_gets fun_eq_iff)

lemma later_limits: "evolves same_buckets (take_global ops)" "evolves same_buckets (limit_ip ops ip)" "evolves same_buckets (setRateLimitHeaders ops tb)"
    "evolves same_buckets (rl_reject ops bk f)"
proof -
  show s: "evolves same_buckets (setRateLimitHeaders ops tb)" for tb
    unfolding setRateLimitHeaders_def by (auto intro!: later_rules simp: Let_def split: option.split)
  show "evolves same_buckets (rl_reject ops bk f)" unfolding rl_reject_def by (intro later_rules s)
  show "evolves same_buckets (take_global ops)" "evolves same_buckets (limit_ip ops ip)"
    unfolding take_global_def limit_ip_def checkPerIP_def
    by (auto intro!: later_rules later_modify split: option.split prod.split)
qed

lemma RateLimit_screens_users:
  fixes h :: "('m, 'b, 't) served"
  assumes "evolves same_buckets h"
  shows "buckets.screens (RateLimit ops h)"
proof -
  have "evolves same_user (rl_sync ops :: ('m, 'b, 't) served)"
    unfolding rl_sync_def by (auto simp: evolves_def modify_io_def same_user_def Let_def)
  note sync = this
  have either: "buckets.screens a \<Longrightarrow> buckets.screens b \<Longrightarrow> buckets.screens (if c then a else b)" for a b :: "('m, 'b, 't) served" and c
    by simp
  show ?thesis unfolding RateLimit_def
    by (rule buckets.screens_gets, rule either, rule later_screens [OF assms], rule buckets.screens_then [OF sync], rule anonymous_screens)
      (auto intro!: later_rules later_limits assms simp: limit_nobody)
qed

text \<open>The limits per user limit nobody: they run before the authentication has put the user in the context,
so a request takes no token from any user's bucket and makes none.\<close>

theorem user_limits_are_never_used:
  assumes "user_id x = []"
  shows "user_buckets (snd (serve dp r x)) = user_buckets x"
proof -
  have "buckets.screens (serve dp r)"
    unfolding serve_def by (intro buckets.screens_chain RateLimit_screens_users api_group_later)
  then show ?thesis using assms by (simp add: buckets.screens_def)
qed


section \<open>Examples\<close>

definition sample_dp :: "(unit, breaker_state, int) deployment" where
  "sample_dp = \<lparr>dp_sem = \<lparr>sem_ops.NewWeighted = (\<lambda>_. ()), TryAcquire = Pair True, sem_ops.Release = id\<rparr>,
     dp_breakers = simple_ops, dp_buckets = count_ops, dp_timeout = 0, dp_origins = [], dp_admin_token = ''secret'',
     dp_captcha = captcha_cfg, dp_verify = (\<lambda>_ _. Inr True), dp_text = (\<lambda>_. []), dp_validator = None, dp_checker = False, dp_blacklist = False,
     dp_auth = sample_env, dp_idle = sample_idle, dp_points = True, dp_periods = id, dp_rows = id, dp_late = (\<lambda>_. False), dp_flash = (\<lambda>_. None)\<rparr>"

theorem every_request_is_answered_witness:
  "\<exists>y. serve sample_dp (Protected GetItems) (web [] sample_request auth_world) = (Inr (), y) \<and> written y"
  by (rule every_request_is_answered) (simp add: web_def)

theorem protected_routes_need_credentials_witness:
  "backend (snd (serve sample_dp (Admin AdminFlashEnd) (web [] sample_request auth_world))) = auth_world"
  using protected_routes_need_credentials [of sample_dp "Admin AdminFlashEnd" "web [] sample_request auth_world"]
  by (simp add: lacks_credentials_def sample_dp_def sample_request_def)

theorem user_limits_are_never_used_witness:
  "user_buckets (snd (serve sample_dp (Protected GetItems) (web [] sample_request auth_world))) = Map.empty"
  using user_limits_are_never_used [of "web [] sample_request auth_world" sample_dp "Protected GetItems"]
  by (simp add: web_def)

end
