(* ===== verification/Scheduler.thy ===== *)
theory Scheduler
  imports GoInts
begin

text \<open>
  The scheduler (\<open>internal/scheduler/scheduler.go\<close>): interval jobs, jobs that run once per period, and
  the reading of the minute of a cron expression. A tick of a job may come at any time; what else
  happens to the state between two ticks is an event of its own.
\<close>

section \<open>Jobs\<close>

text \<open>
  \<open>'s\<close> is what jobs work on, \<open>'k\<close> the mark of a period. A job that ends with an error has panicked.
  \<open>lastKey\<close> is \<open>None\<close> until the goroutine of a period job has begun.
\<close>

datatype ('s, 'k) job_kind = Interval duration | Period duration "'s \<Rightarrow> 'k"

record ('s, 'k) scheduledJob =
  jb_name :: string
  jb_kind :: "('s, 'k) job_kind"
  jb_fn :: "('s, unit) io"
  lastKey :: "'k option"

text \<open>
  \<open>jobs\<close> are the registered jobs, \<open>running\<close> the copies of the goroutines; \<open>panics\<close> is what the hook was
  told. \<open>history\<close> is a ghost: the goroutines that ran their job, with the mark of the period.
\<close>

record ('s, 'k) scheduler =
  jobs :: "('s, 'k) scheduledJob list"
  running :: "('s, 'k) scheduledJob list"
  stopped :: bool
  panics :: "string list"
  site :: 's
  history :: "(nat \<times> 'k option) list"

definition New :: "'s \<Rightarrow> ('s, 'k) scheduler" where
  "New s = \<lparr>jobs = [], running = [], stopped = False, panics = [], site = s, history = []\<rparr>"

definition AddIntervalJob :: "string \<Rightarrow> duration \<Rightarrow> ('s, unit) io \<Rightarrow> ('s, 'k) scheduler \<Rightarrow> ('s, 'k) scheduler" where
  "AddIntervalJob name interval fn s =
     s\<lparr>jobs := jobs s @ [\<lparr>jb_name = name, jb_kind = Interval interval, jb_fn = fn, lastKey = None\<rparr>]\<rparr>"

definition AddPeriodJob :: "string \<Rightarrow> duration \<Rightarrow> ('s \<Rightarrow> 'k) \<Rightarrow> ('s, unit) io \<Rightarrow> ('s, 'k) scheduler \<Rightarrow> ('s, 'k) scheduler" where
  "AddPeriodJob name poll key fn s =
     s\<lparr>jobs := jobs s @ [\<lparr>jb_name = name, jb_kind = Period poll key, jb_fn = fn, lastKey = None\<rparr>]\<rparr>"

definition Start :: "('s, 'k) scheduler \<Rightarrow> ('s, 'k) scheduler" where
  "Start s = s\<lparr>running := running s @ jobs s\<rparr>"

text \<open>The interval of the ticker of a goroutine; without one the goroutine ends at once.\<close>

definition ticker :: "('s, 'k) scheduledJob \<Rightarrow> duration option" where
  "ticker j = (case jb_kind j of
      Interval d \<Rightarrow> (if d \<le> 0 then None else Some d)
    | Period poll key \<Rightarrow> Some (if poll \<le> 0 then minute else poll))"

definition exec :: "nat \<Rightarrow> ('s, 'k) scheduledJob \<Rightarrow> ('s, 'k) scheduler \<Rightarrow> ('s, 'k) scheduler" where
  "exec i j s =
     (let s1 = s\<lparr>history := history s @ [(i, lastKey j)]\<rparr> in
      case jb_fn j (site s) of
        (Inl e, w) \<Rightarrow> s1\<lparr>site := w, panics := panics s @ [jb_name j]\<rparr>
      | (Inr u, w) \<Rightarrow> s1\<lparr>site := w\<rparr>)"

text \<open>The begin of a goroutine, and a tick at it.\<close>

definition begin_job :: "nat \<Rightarrow> ('s, 'k) scheduler \<Rightarrow> ('s, 'k) scheduler" where
  "begin_job i s = (case jb_kind (running s ! i) of
      Interval d \<Rightarrow> s
    | Period poll key \<Rightarrow> s\<lparr>running := (running s)[i := (running s ! i)\<lparr>lastKey := Some (key (site s))\<rparr>]\<rparr>)"

definition tick_job :: "nat \<Rightarrow> ('s, 'k) scheduler \<Rightarrow> ('s, 'k) scheduler" where
  "tick_job i s =
     (let j = running s ! i in
      if ticker j = None then s
      else case jb_kind j of
        Interval d \<Rightarrow> exec i j s
      | Period poll key \<Rightarrow>
          (case lastKey j of
             None \<Rightarrow> s
           | Some k \<Rightarrow>
               let cur = key (site s) in
               let j' = j\<lparr>lastKey := Some cur\<rparr> in
               if cur \<noteq> k then exec i j' (s\<lparr>running := (running s)[i := j']\<rparr>) else s))"

definition Stop :: "('s, 'k) scheduler \<Rightarrow> ('s, 'k) scheduler" where
  "Stop s = s\<lparr>stopped := True\<rparr>"

datatype 's event = Begin nat | Tick nat | Change "'s \<Rightarrow> 's" | Halt

text \<open>A goroutine begins once; when the scheduler has stopped there are no goroutines any more.\<close>

definition handle_event :: "'s event \<Rightarrow> ('s, 'k) scheduler \<Rightarrow> ('s, 'k) scheduler" where
  "handle_event ev s = (case ev of
      Begin i \<Rightarrow> (if stopped s \<or> length (running s) \<le> i \<or> lastKey (running s ! i) \<noteq> None then s else begin_job i s)
    | Tick i \<Rightarrow> (if stopped s \<or> length (running s) \<le> i then s else tick_job i s)
    | Change f \<Rightarrow> s\<lparr>site := f (site s)\<rparr>
    | Halt \<Rightarrow> Stop s)"

definition run_events :: "'s event list \<Rightarrow> ('s, 'k) scheduler \<Rightarrow> ('s, 'k) scheduler" where
  "run_events evs s = fold handle_event evs s"

section \<open>The minute of a cron expression\<close>

lemma dropWhile_shorter: "length (dropWhile P s) \<le> length s"
  by (induction s) auto

text \<open>\<open>strings.Fields\<close>.\<close>

function Fields :: "string \<Rightarrow> string list" where
  "Fields s = (let t = dropWhile is_space s in
     if t = [] then [] else takeWhile (\<lambda>c. \<not> is_space c) t # Fields (dropWhile (\<lambda>c. \<not> is_space c) t))"
  by pat_completeness auto

termination
proof (relation "measure length")
  fix s t :: string
  assume t: "t = dropWhile is_space s" "t \<noteq> []"
  then have "\<not> is_space (hd t)" by (simp add: hd_dropWhile)
  then have "length (dropWhile (\<lambda>c. \<not> is_space c) t) < length t"
    using t(2) by (cases t) (auto simp: le_imp_less_Suc dropWhile_shorter)
  moreover have "length t \<le> length s" by (simp add: t(1) dropWhile_shorter)
  ultimately show "(dropWhile (\<lambda>c. \<not> is_space c) t, s) \<in> measure length" by simp
qed simp

declare Fields.simps [simp del]

text \<open>
  \<open>fmt.Sscan\<close> of an integer reads the longest number at the start, in the notation of Go: a prefix
  gives the base, a leading zero means octal, and underscores may separate digits.
\<close>

definition base_chars :: "nat \<Rightarrow> char \<Rightarrow> bool" where
  "base_chars b c \<longleftrightarrow> c = CHR ''_'' \<or> between 48 (48 + min b 10 - 1) c \<or> (b = 16 \<and> (between 97 102 c \<or> between 65 70 c))"

definition scanBasePrefix :: "string \<Rightarrow> (nat \<times> bool) \<times> string \<times> string" where
  "scanBasePrefix s =
     (if s = [] \<or> hd s \<noteq> CHR ''0'' then ((10, False), [], s)
      else let t = tl s in
        if t \<noteq> [] \<and> lower (hd t) = CHR ''b'' then ((2, True), take 2 s, tl t)
        else if t \<noteq> [] \<and> lower (hd t) = CHR ''o'' then ((8, True), take 2 s, tl t)
        else if t \<noteq> [] \<and> lower (hd t) = CHR ''x'' then ((16, True), take 2 s, tl t)
        else ((8, True), ''0'', t))"

text \<open>\<open>strconv.ParseInt\<close> with base 0.\<close>

definition digit_value :: "char \<Rightarrow> nat option" where
  "digit_value c =
     (if between 48 57 c then Some (of_char c - 48)
      else if between 97 122 (lower c) then Some (of_char (lower c) - 87)
      else None)"

fun parse_digits :: "nat \<Rightarrow> nat \<Rightarrow> string \<Rightarrow> nat option" where
  "parse_digits b n [] = Some n"
| "parse_digits b n (c # s) =
     (if c = CHR ''_'' then parse_digits b n s
      else case digit_value c of
        None \<Rightarrow> None
      | Some d \<Rightarrow> if d < b then parse_digits b (n * b + d) s else None)"

definition base_prefix :: "string \<Rightarrow> nat \<times> string" where
  "base_prefix s =
     (if s = [] \<or> hd s \<noteq> CHR ''0'' then (10, s)
      else if length s \<ge> 3 \<and> lower (s ! 1) = CHR ''b'' then (2, drop 2 s)
      else if length s \<ge> 3 \<and> lower (s ! 1) = CHR ''o'' then (8, drop 2 s)
      else if length s \<ge> 3 \<and> lower (s ! 1) = CHR ''x'' then (16, drop 2 s)
      else (8, tl s))"

fun underscores_between :: "bool \<Rightarrow> char \<Rightarrow> string \<Rightarrow> bool" where
  "underscores_between hex saw [] \<longleftrightarrow> saw \<noteq> CHR ''_''"
| "underscores_between hex saw (c # s) \<longleftrightarrow>
     (if between 48 57 c \<or> (hex \<and> between 97 102 (lower c)) then underscores_between hex CHR ''0'' s
      else if c = CHR ''_'' then saw = CHR ''0'' \<and> underscores_between hex c s
      else saw \<noteq> CHR ''_'' \<and> underscores_between hex CHR ''!'' s)"

definition underscoreOK :: "string \<Rightarrow> bool" where
  "underscoreOK s =
     (if length s \<ge> 2 \<and> hd s = CHR ''0'' \<and> lower (s ! 1) \<in> {CHR ''b'', CHR ''o'', CHR ''x''}
      then underscores_between (lower (s ! 1) = CHR ''x'') CHR ''0'' (drop 2 s)
      else underscores_between False CHR ''^'' s)"

definition ParseUint :: "string \<Rightarrow> nat option" where
  "ParseUint s =
     (if s = [] then None
      else case base_prefix s of (b, t) \<Rightarrow>
        (case parse_digits b 0 t of
           None \<Rightarrow> None
         | Some n \<Rightarrow> if CHR ''_'' \<in> set t \<and> \<not> underscoreOK s then None else Some n))"

definition ParseInt :: "string \<Rightarrow> int option" where
  "ParseInt s =
     (let neg = (s \<noteq> [] \<and> hd s = CHR ''-''); t = (if s \<noteq> [] \<and> hd s \<in> {CHR ''+'', CHR ''-''} then tl s else s) in
      case ParseUint t of
        None \<Rightarrow> None
      | Some n \<Rightarrow> let i = (if neg then - int n else int n) in if in_int64 i then Some i else None)"

definition Sscan :: "string \<Rightarrow> int option" where
  "Sscan s0 =
     (let s = dropWhile is_space s0;
          sign = (if s \<noteq> [] \<and> hd s \<in> {CHR ''+'', CHR ''-''} then [hd s] else []) in
      case scanBasePrefix (drop (length sign) s) of ((b, have), pre, rest) \<Rightarrow>
        let ds = takeWhile (base_chars b) rest in
        if \<not> have \<and> ds = [] then None else ParseInt (sign @ pre @ ds))"

text \<open>The product of durations wraps.\<close>

definition ParseCronMinute :: "string \<Rightarrow> duration \<times> bool" where
  "ParseCronMinute expr0 =
     (let expr = TrimSpace expr0 in
      if expr = [] then (0, False)
      else let fields = Fields expr in
        if length fields < 1 then (0, False)
        else let m = fields ! 0 in
          if m = ''*'' then (minute, True)
          else if HasPrefix m ''*/''
          then (case Sscan (TrimPrefix m ''*/'') of
                  Some n \<Rightarrow> if n > 0 then (wrap64 (n * minute), True) else (0, False)
                | None \<Rightarrow> (0, False))
          else (case Sscan m of
                  Some n \<Rightarrow> if n \<ge> 0 then (60 * minute, True) else (0, False)
                | None \<Rightarrow> (0, False)))"


section \<open>A job that panics\<close>

definition calm_job :: "('s, 'k) scheduledJob \<Rightarrow> ('s, 'k) scheduledJob" where
  "calm_job j = j\<lparr>jb_fn := (\<lambda>w. (Inr (), snd (jb_fn j w)))\<rparr>"

definition calm :: "('s, 'k) scheduler \<Rightarrow> ('s, 'k) scheduler" where
  "calm s = s\<lparr>running := map calm_job (running s), panics := []\<rparr>"

lemma calm_job_fields [simp]: "jb_kind (calm_job j) = jb_kind j" "lastKey (calm_job j) = lastKey j" "ticker (calm_job j) = ticker j"
    "calm_job (j\<lparr>lastKey := k\<rparr>) = (calm_job j)\<lparr>lastKey := k\<rparr>"
  by (simp_all add: calm_job_def ticker_def)

lemma calm_exec: "calm (exec i j s) = exec i (calm_job j) (calm s)"
  by (simp add: calm_def exec_def calm_job_def Let_def split: prod.split sum.split)

lemma calm_fields [simp]: "running (calm s) = map calm_job (running s)" "site (calm s) = site s" "stopped (calm s) = stopped s"
    "calm (s\<lparr>running := js\<rparr>) = (calm s)\<lparr>running := map calm_job js\<rparr>"
  by (simp_all add: calm_def)

lemma calm_tick: "i < length (running s) \<Longrightarrow> calm (tick_job i s) = tick_job i (calm s)"
  by (cases "jb_kind (running s ! i)"; cases "lastKey (running s ! i)")
    (simp_all add: tick_job_def ticker_def Let_def calm_exec map_update)

lemma calm_event: "calm (handle_event ev s) = handle_event ev (calm s)"
proof (cases ev)
  case (Tick i)
  then show ?thesis by (simp add: handle_event_def calm_tick)
next
  case (Begin i)
  then show ?thesis by (auto simp: handle_event_def begin_job_def map_update split: job_kind.split)
qed (simp_all add: handle_event_def calm_def Stop_def)

lemma calm_events: "calm (run_events evs s) = run_events evs (calm s)"
  by (induction evs arbitrary: s) (simp_all add: run_events_def calm_event)

text \<open>A job that panics costs nothing but the rest of its own run: which jobs run at which ticks and what they
do to the state is as if every panicking job had returned where it panicked.\<close>

theorem panics_stay_in_their_job:
  "site (run_events evs s) = site (run_events evs (calm s)) \<and>
   history (run_events evs s) = history (run_events evs (calm s)) \<and> panics (run_events evs (calm s)) = []"
proof -
  have "site (calm u) = site u" "history (calm u) = history u" "panics (calm u) = []" for u :: "('s, 'k) scheduler"
    by (simp_all add: calm_def)
  then show ?thesis using calm_events [of evs s] by metis
qed

section \<open>Once per period\<close>

text \<open>The marks that the goroutine of a period job sees at its ticks, and those it ran the job for.\<close>

definition sees :: "nat \<Rightarrow> 's event \<Rightarrow> ('s, 'k) scheduler \<Rightarrow> 'k list" where
  "sees i ev s = (case ev of
      Tick j \<Rightarrow> (if j = i \<and> \<not> stopped s \<and> i < length (running s)
                 then (case jb_kind (running s ! i) of Interval d \<Rightarrow> [] | Period poll key \<Rightarrow> [key (site s)]) else [])
    | _ \<Rightarrow> [])"

fun keys_seen :: "nat \<Rightarrow> 's event list \<Rightarrow> ('s, 'k) scheduler \<Rightarrow> 'k list" where
  "keys_seen i [] s = []"
| "keys_seen i (ev # evs) s = sees i ev s @ keys_seen i evs (handle_event ev s)"

definition runs_of :: "nat \<Rightarrow> ('s, 'k) scheduler \<Rightarrow> 'k list" where
  "runs_of i s = List.map_filter (\<lambda>(j, k). if j = i then k else None) (history s)"

lemma exec_frame [simp]: "running (exec i j s) = running s" "stopped (exec i j s) = stopped s"
    "history (exec i j s) = history s @ [(i, lastKey j)]"
  by (simp_all add: exec_def Let_def split: prod.split sum.split)

lemma remdups_adj_again: "remdups_adj (x # x # xs) = remdups_adj (x # xs)"
  by simp

text \<open>One event: the goroutine goes on with the last mark it saw, and ran the job when that is a new one.\<close>

lemma event_runs:
  assumes "i < length (running s)" and "jb_kind (running s ! i) = Period poll key" and "lastKey (running s ! i) = Some k"
  shows "let s' = handle_event ev s; k' = last (k # sees i ev s) in
    i < length (running s') \<and> jb_kind (running s' ! i) = Period poll key \<and> lastKey (running s' ! i) = Some k' \<and>
    runs_of i s' = runs_of i s @ (if k' = k then [] else [k'])"
proof (cases ev)
  case (Tick j)
  show ?thesis
  proof (cases "j = i")
    case True
    then show ?thesis using assms
      by (auto simp: Tick sees_def handle_event_def tick_job_def ticker_def Let_def runs_of_def List.map_filter_def)
  next
    case False
    then show ?thesis using assms
      by (auto simp: Tick sees_def handle_event_def tick_job_def Let_def runs_of_def List.map_filter_def split: job_kind.split option.split)
  qed
next
  case (Begin j)
  then show ?thesis using assms
    by (cases "j = i") (auto simp: sees_def handle_event_def begin_job_def runs_of_def Let_def split: job_kind.split)
qed (use assms in \<open>simp_all add: sees_def handle_event_def Stop_def runs_of_def Let_def\<close>)

lemma period_runs:
  assumes "i < length (running s)" and "jb_kind (running s ! i) = Period poll key" and "lastKey (running s ! i) = Some k"
  shows "runs_of i (run_events evs s) = runs_of i s @ tl (remdups_adj (k # keys_seen i evs s))"
  using assms
proof (induction evs arbitrary: s k)
  case Nil
  then show ?case by (simp add: run_events_def)
next
  case (Cons ev evs)
  let ?s = "handle_event ev s" and ?k = "last (k # sees i ev s)"
  have step: "i < length (running ?s)" "jb_kind (running ?s ! i) = Period poll key" "lastKey (running ?s ! i) = Some ?k"
    "runs_of i ?s = runs_of i s @ (if ?k = k then [] else [?k])"
    using event_runs [OF Cons.prems, of ev] by (simp_all add: Let_def)
  have "runs_of i (run_events evs ?s) = runs_of i ?s @ tl (remdups_adj (?k # keys_seen i evs ?s))" by (rule Cons.IH [OF step(1-3)])
  moreover have "sees i ev s = [] \<or> (\<exists>c. sees i ev s = [c])"
    by (auto simp: sees_def split: event.split job_kind.split)
  ultimately show ?case using step(4) by (auto simp: run_events_def remdups_adj_Cons split: list.split)
qed


text \<open>C33. A job of a period runs exactly once for every change of the period: at its first tick in the new one, for
every period in which it has a tick, and never in the one it was started in.\<close>

theorem period_job_runs_once_per_period:
  assumes "i < length (running s)" and "jb_kind (running s ! i) = Period poll key" and "lastKey (running s ! i) = Some k"
  shows "runs_of i (run_events evs s) = runs_of i s @ tl (remdups_adj (k # keys_seen i evs s))"
  using assms by (rule period_runs)

text \<open>When marks grow, as those of days and weeks do, no period has two runs.\<close>

lemma growing_marks_distinct:
  fixes f :: "'k \<Rightarrow> int"
  assumes "sorted (map f (k # ks))" and "inj f"
  shows "distinct (remdups_adj (k # ks))"
  using assms
proof (induction ks arbitrary: k)
  case (Cons c ks)
  show ?case
  proof (cases "k = c")
    case False
    then have "f k < f c" using Cons.prems by (auto simp: inj_def order.order_iff_strict)
    then have "k \<notin> set (c # ks)" using Cons.prems(1) by fastforce
    then show ?thesis using Cons False by simp
  qed (use Cons in simp)
qed simp

section \<open>Examples\<close>

text \<open>A job of a period that panics, on a state that is a clock.\<close>

definition sample_sched :: "(int, int) scheduler" where
  "sample_sched = handle_event (Begin 0) (Start (AddPeriodJob ''daily'' 0 (\<lambda>t. t div 24) (\<lambda>t. (Inl (Sentinel ''panic''), t)) (New 10)))"

theorem period_job_runs_once_per_period_witness:
  "runs_of 0 (run_events [Tick 0, Change ((+) 20), Tick 0, Tick 0, Change ((+) 48), Tick 0] sample_sched) = [1, 3 :: int]"
  using period_job_runs_once_per_period [of 0 sample_sched 0 "\<lambda>t. t div 24" 0 "[Tick 0, Change ((+) 20), Tick 0, Tick 0, Change ((+) 48), Tick 0]"]
  by (simp add: sample_sched_def handle_event_def begin_job_def Start_def AddPeriodJob_def New_def runs_of_def List.map_filter_def sees_def
      tick_job_def ticker_def exec_def Let_def)

section \<open>Cron minutes\<close>

lemma Fields_word:
  assumes "s \<noteq> []" and "list_all (\<lambda>c. \<not> is_space c) s"
  shows "Fields s = [s]"
proof -
  have "dropWhile is_space s = s" using assms by (cases s) simp_all
  moreover have "takeWhile (\<lambda>c. \<not> is_space c) s = s" "dropWhile (\<lambda>c. \<not> is_space c) s = []"
    using assms(2) by (simp_all add: list_all_iff takeWhile_eq_all_conv dropWhile_eq_Nil_conv)
  moreover have "Fields [] = []" by (subst Fields.simps) simp
  ultimately show ?thesis using assms(1) by (subst Fields.simps) (simp add: Let_def del: dropWhile_eq_Nil_conv)
qed

lemma TrimSpace_word:
  assumes "list_all (\<lambda>c. \<not> is_space c) s"
  shows "TrimSpace s = s"
proof -
  have "dropWhile is_space t = t" if "list_all (\<lambda>c. \<not> is_space c) t" for t using that by (cases t) simp_all
  then show ?thesis using assms by (simp add: TrimSpace_def)
qed

text \<open>Digits are read back.\<close>

lemma digit_char: "is_digit c \<Longrightarrow> \<not> is_space c \<and> c \<noteq> CHR ''_'' \<and> digit_value c = Some (of_char c - 48) \<and> of_char c - 48 < (10 :: nat) \<and> base_chars 10 c"
  by (auto simp: is_digit_def is_space_def digit_value_def base_chars_def between_def Let_def)

lemma parse_digits_decimal: "list_all is_digit s \<Longrightarrow> parse_digits 10 n s = Some (foldl (\<lambda>n c. 10 * n + (of_char c - 48)) n s)"
  by (induction s arbitrary: n) (simp_all add: digit_char mult.commute)

lemma digits_lead: "0 < n \<Longrightarrow> hd (digits n) \<noteq> CHR ''0''"
proof (induction n rule: digits.induct)
  case (1 n)
  show ?case
  proof (cases "n < 10")
    case True
    have "char_of (48 + n) \<noteq> CHR ''0''"
    proof
      assume "char_of (48 + n) = CHR ''0''"
      then have "(of_char (char_of (48 + n) :: char) :: nat) = of_char (CHR ''0'')" by simp
      then show False using True 1(2) by simp
    qed
    then show ?thesis using True by (simp add: digits.simps [of n])
  next
    case False
    then show ?thesis using 1 digits_read [of "n div 10"] by (simp add: digits.simps [of n])
  qed
qed


lemma Sscan_digits:
  assumes "0 < n" and "in_int64 (int n)"
  shows "Sscan (digits n) = Some (int n)"
proof -
  let ?s = "digits n"
  have ds: "?s \<noteq> []" "list_all is_digit ?s" "number_of ?s = n" using digits_read [of n] by simp_all
  then have hd: "hd ?s \<notin> {CHR ''+'', CHR ''-''}" "\<not> is_space (hd ?s)"
    using sign_is_no_digit [of "hd ?s" "tl ?s"] digit_char [of "hd ?s"] by (cases ?s; auto)+
  have all: "takeWhile (base_chars 10) ?s = ?s" "CHR ''_'' \<notin> set ?s"
    using ds(2) digit_char by (auto simp: takeWhile_eq_all_conv list_all_iff)
  have "ParseUint ?s = Some n"
    using ds parse_digits_decimal [OF ds(2), of 0] digits_lead [OF assms(1)] all(2)
    by (simp add: ParseUint_def base_prefix_def number_of_def)
  then have "ParseInt ?s = Some (int n)" using hd(1) assms(2) by (simp add: ParseInt_def Let_def)
  moreover have "dropWhile is_space ?s = ?s" using hd(2) by (cases ?s) simp_all
  ultimately show ?thesis
    using ds(1) hd(1) digits_lead [OF assms(1)] all(1) by (simp add: Sscan_def scanBasePrefix_def Let_def del: takeWhile_eq_all_conv)
qed

text \<open>A step in minutes is read as it was written, and a fixed minute stands for an hour.\<close>

theorem cron_minutes_are_read:
  assumes "0 < n" and "in_int64 n"
  shows "ParseCronMinute (''*/'' @ Itoa n) = (wrap64 (n * minute), True) \<and> ParseCronMinute (Itoa n) = (60 * minute, True)"
proof
  let ?s = "digits (nat n)"
  have i: "Itoa n = ?s" using assms(1) by (simp add: Itoa_def)
  have ds: "?s \<noteq> []" "list_all is_digit ?s" using digits_read [of "nat n"] by simp_all
  then have w: "list_all (\<lambda>c. \<not> is_space c) ?s" by (auto simp: list_all_iff dest: digit_char)
  moreover have "\<not> is_space CHR ''*''" "\<not> is_space CHR ''/''" by (simp_all add: is_space_def)
  ultimately have f: "TrimSpace (''*/'' @ ?s) = ''*/'' @ ?s" "Fields (''*/'' @ ?s) = [''*/'' @ ?s]" "TrimSpace ?s = ?s" "Fields ?s = [?s]"
    using ds(1) by (simp_all add: TrimSpace_word Fields_word)
  have s: "Sscan ?s = Some n" using Sscan_digits [of "nat n"] assms by simp
  have no: "hd ?s \<noteq> CHR ''*''" using ds by (cases ?s) (auto simp: is_digit_def between_def)
  show "ParseCronMinute (''*/'' @ Itoa n) = (wrap64 (n * minute), True)"
    using f(1,2) s assms(1) ds(1) by (simp add: i ParseCronMinute_def Let_def HasPrefix_def TrimPrefix_def)
  show "ParseCronMinute (Itoa n) = (60 * minute, True)"
    using f(3,4) s assms(1) ds(1) no by (cases ?s) (auto simp: i ParseCronMinute_def Let_def HasPrefix_def)
qed

theorem cron_minutes_are_read_witness: "ParseCronMinute ''*/5'' = (5 * minute, True)"
proof -
  have "Itoa 5 = ''5''" by code_simp
  then show ?thesis using cron_minutes_are_read [of 5] by (simp add: in_int64_def minute_def second_def)
qed

end
