(* ===== verification/Jobs.thy ===== *)
theory Jobs
  imports Scheduler ShopService TaskService IdleService EventFlow ProducerProperties
begin

text \<open>
  The jobs a process registers (\<open>internal/bootstrap/app.go\<close>): the scan for silent sessions, the removal
  of old progress and of old marks, the daily totals and the warm-up of flash sales, each behind the
  gate that leaves it to the leader; and the interval of the scan (\<open>bootstrap.go\<close>).
\<close>

section \<open>A process\<close>

text \<open>\<open>pd_leader\<close> is \<open>None\<close> when there is no election; \<open>pd_failures\<close> counts failed jobs by name.\<close>

record pod =
  pd_world :: world
  pd_leader :: "elector option"
  pd_scan :: scan_state
  pd_failures :: "string list"

definition in_world :: "(world, 'a) io \<Rightarrow> (pod, 'a) io" where
  "in_world m p = (case m (pd_world p) of (r, w) \<Rightarrow> (r, p\<lparr>pd_world := w\<rparr>))"

definition leads :: "pod \<Rightarrow> bool" where
  "leads p = IsLeader (pd_leader p)"

definition idleTimeoutScan :: "idle_config \<Rightarrow> (pod, nat) io" where
  "idleTimeoutScan cfg =
     bind_io (gets_io (\<lambda>p. \<not> scanShardingEnabled (pd_scan p) \<and> \<not> leads p)) (\<lambda>skip.
       if skip then ret 0
       else bind_io (gets_io pd_scan) (\<lambda>st. in_world (ScanAndSettleTimeout cfg st)))"

definition if_leader :: "(world, nat) io \<Rightarrow> (pod, nat) io" where
  "if_leader m = bind_io (gets_io leads) (\<lambda>l. if \<not> l then ret 0 else in_world m)"

definition resetPeriodIfLeader :: "string \<Rightarrow> (pod, nat) io" where
  "resetPeriodIfLeader period = if_leader (ResetPeriod period)"

definition cleanupDedupIfLeader :: "duration \<Rightarrow> (pod, nat) io" where
  "cleanupDedupIfLeader older = if_leader (CleanupDedup older)"

definition warmupDueFlashSalesIfLeader :: "(pod, nat) io" where
  "warmupDueFlashSalesIfLeader = if_leader WarmupDueFlashSales"

section \<open>The jobs\<close>

text \<open>The closure around a job: a failure is counted and dropped.\<close>

definition counted_job :: "string \<Rightarrow> (pod, nat) io \<Rightarrow> (pod, unit) io" where
  "counted_job name m = bind_io (attempt m) (\<lambda>r. case r of
      Inl e \<Rightarrow> modify_io (\<lambda>p. p\<lparr>pd_failures := pd_failures p @ [name]\<rparr>)
    | Inr n \<Rightarrow> ret ())"

definition IdleScanInterval :: "string \<Rightarrow> duration \<Rightarrow> duration" where
  "IdleScanInterval check timeout =
     (let parsed = ParseCronMinute check;
          d0 = (if \<not> snd parsed \<or> fst parsed \<le> 0 then timeout else fst parsed);
          minI0 = go_div timeout 3;
          minI = (if minI0 < 15 * second then 15 * second else minI0);
          d1 = (if d0 < minI then minI else d0);
          maxI = wrap64 (timeout * 2)
      in if d1 > maxI then maxI else d1)"

definition daily_key :: "pod \<Rightarrow> period" where
  "daily_key p = GetCurrentPeriod ''daily'' (pd_world p)"

definition weekly_key :: "pod \<Rightarrow> period" where
  "weekly_key p = GetCurrentPeriod ''weekly'' (pd_world p)"

definition local_key :: "pod \<Rightarrow> period" where
  "local_key p = Day (local_day (pd_world p))"

text \<open>The backfill that is started besides; it runs once, at any time.\<close>

definition startup_backfill :: "pod \<Rightarrow> pod" where
  "startup_backfill p = snd (best_effort (in_world service_BackfillDailyPoints) p)"

definition initScheduler :: "idle_config \<Rightarrow> string \<Rightarrow> pod \<Rightarrow> (pod, period) scheduler" where
  "initScheduler cfg check p =
     Start
     (AddIntervalJob ''flash-sale-warmup'' (15 * second) (counted_job ''flash-sale-warmup'' warmupDueFlashSalesIfLeader)
     (AddIntervalJob ''event-dedup-cleanup'' (6 * hour) (counted_job ''event-dedup-cleanup'' (cleanupDedupIfLeader (7 * 24 * hour)))
     (AddPeriodJob ''idle-daily-points-backfill'' minute local_key
        (counted_job ''idle-daily-points-backfill'' (in_world service_BackfillDailyPoints))
     (AddPeriodJob ''weekly-task-reset'' minute weekly_key (counted_job ''weekly-task-reset'' (resetPeriodIfLeader ''weekly''))
     (AddPeriodJob ''daily-task-reset'' minute daily_key (counted_job ''daily-task-reset'' (resetPeriodIfLeader ''daily''))
     (AddIntervalJob ''idle-timeout-scan'' (IdleScanInterval check (ic_timeout cfg)) (counted_job ''idle-timeout-scan'' (idleTimeoutScan cfg))
       (New p)))))))"

section \<open>Claims\<close>

text \<open>The scan for silent sessions is never further apart than twice their timeout, and not closer than a third
of it or 15 seconds, as far as twice the timeout allows; whatever the expression says, and it runs
whenever there is a timeout.\<close>

theorem scan_interval_is_clamped:
  assumes "0 \<le> timeout" and "timeout < 2 ^ 62"
  shows "IdleScanInterval check timeout \<le> 2 * timeout \<and>
    min (2 * timeout) (max (timeout div 3) (15 * second)) \<le> IdleScanInterval check timeout \<and>
    (0 < IdleScanInterval check timeout \<longleftrightarrow> 0 < timeout)"
proof -
  have w: "wrap64 (timeout * 2) = 2 * timeout" using assms by (simp add: in_int64_def)
  have "go_div timeout 3 = timeout div 3" using assms(1) by (simp add: go_div_nonneg)
  then show ?thesis using assms(1) by (auto simp: IdleScanInterval_def Let_def w second_def)
qed

theorem scan_interval_is_clamped_witness: "0 < IdleScanInterval ''*/5'' (60 * second) \<and> IdleScanInterval ''*/5'' (60 * second) \<le> 120 * second"
  using scan_interval_is_clamped [of "60 * second" "''*/5''"] by (simp add: second_def)

lemma jobs_keep: "map jb_fn (running (handle_event ev s)) = map jb_fn (running s) \<and> map jb_kind (running (handle_event ev s)) = map jb_kind (running s)"
proof (cases ev)
  case (Tick i)
  then show ?thesis
    by (auto simp: handle_event_def tick_job_def Let_def map_update split: job_kind.split option.split intro!: list_update_same_conv [THEN iffD2])
next
  case (Begin i)
  then show ?thesis by (auto simp: handle_event_def begin_job_def map_update split: job_kind.split intro!: list_update_same_conv [THEN iffD2])
qed (simp_all add: handle_event_def Stop_def)


lemma jobs_kept: "map jb_fn (running (run_events evs s)) = map jb_fn (running s)" "map jb_kind (running (run_events evs s)) = map jb_kind (running s)"
proof -
  have "map jb_fn (running (run_events evs s)) = map jb_fn (running s) \<and> map jb_kind (running (run_events evs s)) = map jb_kind (running s)"
    unfolding run_events_def by (induction evs arbitrary: s) (simp_all add: jobs_keep)
  then show "map jb_fn (running (run_events evs s)) = map jb_fn (running s)" "map jb_kind (running (run_events evs s)) = map jb_kind (running s)"
    by simp_all
qed

lemma running_nth:
  assumes "s = run_events evs s0"
  shows "length (running s) = length (running s0)" and "i < length (running s0) \<Longrightarrow> jb_fn (running s ! i) = jb_fn (running s0 ! i)"
    and "i < length (running s0) \<Longrightarrow> jb_kind (running s ! i) = jb_kind (running s0 ! i)"
  using jobs_kept [of evs s0] assms by (metis length_map, metis length_map nth_map, metis length_map nth_map)

lemmas initial_jobs = initScheduler_def Start_def AddIntervalJob_def AddPeriodJob_def New_def

lemma follower_idles:
  assumes "\<not> leads p"
  shows "counted_job name (if_leader m) p = (Inr (), p)"
    and "\<not> scanShardingEnabled (pd_scan p) \<Longrightarrow> counted_job name (idleTimeoutScan cfg) p = (Inr (), p)"
  using assms by (simp_all add: counted_job_def if_leader_def idleTimeoutScan_def bind_io_def gets_io_def attempt_def ret_def)

lemma tick_calm:
  assumes "\<And>w. i < length (running s) \<Longrightarrow> w = site s \<Longrightarrow> jb_fn (running s ! i) w = (Inr (), w)"
  shows "site (handle_event (Tick i) s) = site s"
  using assms by (auto simp: handle_event_def tick_job_def exec_def Let_def split: job_kind.split option.split)

text \<open>A process that does not lead leaves everything to the leader: with the scan not divided between the
processes, no tick of any job but the one for the daily totals changes anything.\<close>

theorem followers_do_nothing:
  assumes "s = run_events evs (initScheduler cfg check p)" and "\<not> leads (site s)" and "\<not> scanShardingEnabled (pd_scan (site s))" and "i \<noteq> 3"
  shows "site (handle_event (Tick i) s) = site s"
proof (rule tick_calm)
  fix w assume i: "i < length (running s)" and w: "w = site s"
  let ?s0 = "initScheduler cfg check p"
  have l: "i < length (running ?s0)" using i running_nth(1) [OF assms(1)] by simp
  then have "i \<in> {0, 1, 2, 4, 5}" using assms(4) by (auto simp: initial_jobs)
  then have "jb_fn (running ?s0 ! i) w = (Inr (), w)"
    using assms(2,3) w
    by (auto simp: initial_jobs resetPeriodIfLeader_def cleanupDedupIfLeader_def warmupDueFlashSalesIfLeader_def follower_idles)
  then show "jb_fn (running s ! i) w = (Inr (), w)" using running_nth(2) [OF assms(1) l] by simp
qed

text \<open>A boundary that comes while a process does not lead is lost to it: the first tick in the new period counts
as its run and does nothing, and however often the process ticks and leads in that period later, the
progress of the past is not removed. When no process leads at the boundary, none removes it.\<close>

theorem boundary_without_leader_is_lost:
  assumes "s = run_events evs (initScheduler cfg check p)" and "i = 1 \<or> i = 2" and "\<not> leads (site s)"
    and "lastKey (running s ! i) = Some k" and "k' \<noteq> k" and "sees i (Tick i) s = [k']"
    and "set (keys_seen i later (handle_event (Tick i) s)) \<subseteq> {k'}"
  shows "site (handle_event (Tick i) s) = site s \<and> runs_of i (run_events (Tick i # later) s) = runs_of i s @ [k']"
proof
  let ?s0 = "initScheduler cfg check p"
  have l: "i < length (running ?s0)" using assms(2) by (auto simp: initial_jobs)
  have "jb_fn (running ?s0 ! i) w = (Inr (), w)" if "w = site s" for w
    using assms(2,3) that by (auto simp: initial_jobs resetPeriodIfLeader_def follower_idles)
  then show "site (handle_event (Tick i) s) = site s"
    using running_nth(2) [OF assms(1) l] by (intro tick_calm) simp
  obtain poll key where "jb_kind (running ?s0 ! i) = Period poll key" using assms(2) by (auto simp: initial_jobs)
  then have kind: "jb_kind (running s ! i) = Period poll key" using running_nth(3) [OF assms(1) l] by simp
  have "i < length (running s)" using l running_nth(1) [OF assms(1)] by simp
  then have "runs_of i (run_events (Tick i # later) s) = runs_of i s @ tl (remdups_adj (k # keys_seen i (Tick i # later) s))"
    using kind assms(4) by (rule period_runs)
  moreover have "remdups_adj (k' # ks) = [k']" if "set ks \<subseteq> {k'}" for ks :: "period list"
    using that by (induction ks) auto
  then have "remdups_adj (k # k' # keys_seen i later (handle_event (Tick i) s)) = [k, k']" using assms(5,7) by simp
  ultimately show "runs_of i (run_events (Tick i # later) s) = runs_of i s @ [k']" using assms(6) by simp
qed

definition sample_pod :: pod where
  "sample_pod = \<lparr>pd_world = empty_world, pd_leader = Some \<lparr>el_key = ''idle:leader'', el_ttl = 15 * second, el_renewal = 5 * second, el_leader = False\<rparr>,
     pd_scan = \<lparr>scanShardingEnabled = False, failoverEnabled = False, scanPodIndex = 0, scanPodTotal = 1, scanSetShards = 4, podSetShards = [], seenAlive = []\<rparr>,
     pd_failures = []\<rparr>"

definition next_day :: "pod \<Rightarrow> pod" where
  "next_day p = p\<lparr>pd_world := (pd_world p)\<lparr>now := now (pd_world p) + 24 * hour\<rparr>\<rparr>"

definition elected :: "pod \<Rightarrow> pod" where
  "elected p = p\<lparr>pd_leader := map_option (\<lambda>e. e\<lparr>el_leader := True\<rparr>) (pd_leader p)\<rparr>"

definition scan_cfg :: idle_config where
  "scan_cfg = \<lparr>ic_timeout = 60 * second, ic_heartbeat_interval = 30 * second, ic_points_per_minute = 1, ic_daily_limit = 100,
     ic_max_devices = 3, ic_max_settle = 10, ic_set_shards = 4, ic_persist = False, ic_points_on = True\<rparr>"

definition boundary :: "(pod, period) scheduler" where
  "boundary = run_events [Begin 1, Change next_day] (initScheduler scan_cfg ''*/5'' sample_pod)"

theorem followers_do_nothing_witness: "site (handle_event (Tick 0) boundary) = site boundary"
proof (rule followers_do_nothing)
  show "boundary = run_events [Begin 1, Change next_day] (initScheduler scan_cfg ''*/5'' sample_pod)" by (simp add: boundary_def)
  show "\<not> leads (site boundary)" by code_simp
  show "\<not> scanShardingEnabled (pd_scan (site boundary))" by code_simp
qed simp

theorem boundary_without_leader_is_lost_witness:
  "runs_of 1 (run_events [Tick 1, Change elected, Tick 1] boundary) = [Day 1]"
proof -
  have "sees 1 (Tick 1) boundary = [Day 1]" "lastKey (running boundary ! 1) = Some (Day 0)" "\<not> leads (site boundary)"
    "keys_seen 1 [Change elected, Tick 1] (handle_event (Tick 1) boundary) = [Day 1]" "runs_of 1 boundary = []"
    by code_simp+
  then show ?thesis
    using boundary_without_leader_is_lost [OF boundary_def, of 1 "Day 0" "Day 1" "[Change elected, Tick 1]"] by simp
qed

section \<open>Degraded writes\<close>

text \<open>What the queue gives to the handler for a message of the degraded cache (\<open>degradeSender\<close>).\<close>

definition invalidate_message :: "string \<Rightarrow> bus_message" where
  "invalidate_message i = \<lparr>bm_type = ''cache.invalidate'', bm_id = i, bm_fields = None, bm_adjust = None\<rparr>"

text \<open>A degraded write never reaches Redis when there is a queue: the write only sends a message, the consumers
do not subscribe to its topic unless another event shares it, and the handler drops it; the old value
stays in Redis.\<close>

theorem degraded_write_never_arrives:
  assumes "write_degraded w" and "publisher_on w"
    and "tc_cache c \<notin> {tc_idle c, tc_shop c, tc_task c, tc_points c, ''events''}"
  shows "redis (snd (cache_set key v ttl w)) = redis w \<and> fst (cache_set key v ttl w) = Inr () \<and>
    tc_cache c \<notin> set (ConsumerTopics (eventTopicsMap c)) \<and> handlerFn (invalidate_message i) w' = (Inr (), w')"
proof (intro conjI)
  have w: "write_degraded (l1_delete key w)" "publisher_on (l1_delete key w)" "redis (l1_delete key w) = redis w"
    using assms(1,2) by (simp_all add: l1_delete_def)
  have "cache_set key v ttl w = best_effort (publish (CacheInvalidate key)) (l1_delete key w)"
    using w(1,2) by (simp add: cache_set_def asyncWriteDegraded_def then_io_def bind_io_def modify_io_def gets_io_def)
  moreover have "redis (snd (publish m u)) = redis u" for m u
    by (auto simp: publish_def ext_def modify_io_def split: list.split)
  ultimately show "redis (snd (cache_set key v ttl w)) = redis w" "fst (cache_set key v ttl w) = Inr ()"
    using w(3) by (simp_all add: best_effort_def)
  show "tc_cache c \<notin> set (ConsumerTopics (eventTopicsMap c))"
    using assms(3) consumers_read_where_producers_write [of "eventTopicsMap c"]
    by (auto simp: resolveTopic_def eventTopicsMap_def consumed_types_def split: if_splits)
  show "handlerFn (invalidate_message i) w' = (Inr (), w')"
    by (simp add: handlerFn_def invalidate_message_def ret_def EventIdleSettled_def EventShopRedeemed_def EventUserPointsAdjust_def)
qed

theorem degraded_write_never_arrives_witness:
  "redis (snd (cache_set ''item:1'' None second (empty_world\<lparr>write_degraded := True, publisher_on := True\<rparr>))) = Map.empty"
  using degraded_write_never_arrives [of "empty_world\<lparr>write_degraded := True, publisher_on := True\<rparr>"
      "\<lparr>tc_user = ''u'', tc_idle = ''i'', tc_task = ''t'', tc_shop = ''s'', tc_points = ''p'', tc_cache = ''c''\<rparr>" "''item:1''" None second]
  by (simp add: empty_world_def)

end
