(* ===== verification/Bloom.thy ===== *)
theory Bloom
  imports Complex_Main Prelude "HOL-Library.Word"
begin

unbundle bit_operations_syntax

text \<open>
  The bloom filter on a bitmap of Redis (\<open>internal/cache/bloom.go\<close>). The two hashes are FNV-1a on 64
  bits, the positions wrap as words do. The sizes are computed in real numbers; the code rounds in
  \<open>float64\<close>.
\<close>

section \<open>Sizes\<close>

definition optimalBloomParams :: "int \<Rightarrow> real \<Rightarrow> int \<times> int" where
  "optimalBloomParams n0 p0 =
     (let n = (if n0 \<le> 0 then 1000000 else n0);
          p = (if p0 \<le> 0 \<or> p0 \<ge> 1 then 1 / 100 else p0);
          m = \<lceil>- real_of_int n * ln p / (ln 2 * ln 2)\<rceil>;
          k = \<lceil>real_of_int m / real_of_int n * ln 2\<rceil>
      in (m, if k < 1 then 1 else k))"

section \<open>Positions\<close>

text \<open>FNV-1a: each byte is mixed in, then the hash is multiplied with the prime.\<close>

definition fnv64a :: "8 word list \<Rightarrow> 64 word" where
  "fnv64a data = fold (\<lambda>b h. (h XOR ucast b) * 1099511628211) data 14695981039346656037"

definition fnvHash :: "8 word list \<Rightarrow> 64 word \<times> 64 word" where
  "fnvHash data = (fnv64a data, fnv64a (data @ [1]))"

record bloom =
  redisKey :: string
  bitSize :: int
  hashCount :: nat

definition NewRedisBloom :: "string \<Rightarrow> int \<Rightarrow> real \<Rightarrow> bloom" where
  "NewRedisBloom key n p = (case optimalBloomParams n p of (m, k) \<Rightarrow> \<lparr>redisKey = key, bitSize = m, hashCount = nat k\<rparr>)"

definition bytes_of :: "string \<Rightarrow> 8 word list" where
  "bytes_of s = map of_char s"

definition position :: "bloom \<Rightarrow> 64 word \<times> 64 word \<Rightarrow> nat \<Rightarrow> int" where
  "position b h i = sint ((fst h + of_nat i * snd h) mod word_of_int (bitSize b))"

definition hashPositions :: "bloom \<Rightarrow> 8 word list \<Rightarrow> int list" where
  "hashPositions b data = map (position b (fnvHash data)) [0..<hashCount b]"

section \<open>Commands\<close>

text \<open>
  The bitmaps, and what becomes of the next pipelines: \<open>Some k\<close> breaks off after \<open>k\<close> commands; when the
  list is used up none does. A command with an offset that Redis does not take fails alone; a
  pipeline fails when one of its commands did.
\<close>

record bitmaps =
  bits :: "string \<Rightarrow> int set"
  breaks :: "nat option list"

definition valid_offset :: "int \<Rightarrow> bool" where
  "valid_offset p \<longleftrightarrow> 0 \<le> p \<and> p < 2 ^ 32"

definition next_break :: "bitmaps \<Rightarrow> nat option" where
  "next_break s = (case breaks s of [] \<Rightarrow> None | x # xs \<Rightarrow> x)"

definition sent :: "nat option \<Rightarrow> 'a list \<Rightarrow> 'a list" where
  "sent br ps = (case br of None \<Rightarrow> ps | Some k \<Rightarrow> take k ps)"

definition pipeline_failed :: "nat option \<Rightarrow> int list \<Rightarrow> bool" where
  "pipeline_failed br ps \<longleftrightarrow> br \<noteq> None \<or> list_ex (\<lambda>p. \<not> valid_offset p) ps"

definition set_bits :: "string \<Rightarrow> int list \<Rightarrow> (bitmaps, unit) io" where
  "set_bits key ps s =
     (let br = next_break s;
          s1 = s\<lparr>breaks := tl (breaks s), bits := (bits s)(key := bits s key \<union> set (filter valid_offset (sent br ps)))\<rparr> in
      if pipeline_failed br ps then (Inl (Sentinel ''redis''), s1) else (Inr (), s1))"

definition get_bits :: "string \<Rightarrow> int list \<Rightarrow> (bitmaps, bool list) io" where
  "get_bits key ps s =
     (let br = next_break s; s1 = s\<lparr>breaks := tl (breaks s)\<rparr> in
      if pipeline_failed br ps then (Inl (Sentinel ''redis''), s1) else (Inr (map (\<lambda>p. p \<in> bits s key) ps), s1))"

section \<open>The filter\<close>

definition Add :: "bloom \<Rightarrow> string \<Rightarrow> (bitmaps, unit) io" where
  "Add b key = set_bits (redisKey b) (hashPositions b (bytes_of key))"

definition AddMulti :: "bloom \<Rightarrow> string list \<Rightarrow> (bitmaps, unit) io" where
  "AddMulti b ks = (if ks = [] then ret ()
     else set_bits (redisKey b) (concat (map (\<lambda>key. hashPositions b (bytes_of key)) ks)))"

definition Contains :: "bloom \<Rightarrow> string \<Rightarrow> (bitmaps, bool) io" where
  "Contains b key =
     bind_io (wrap_err ''bloom contains pipeline'' (get_bits (redisKey b) (hashPositions b (bytes_of key)))) (\<lambda>cmds.
       ret (list_all (\<lambda>bit. bit) cmds))"

text \<open>The published test vectors of the hash.\<close>

lemma fnv64a_vectors: "fnv64a [] = 0xcbf29ce484222325" "fnv64a (bytes_of ''a'') = 0xaf63dc4c8601ec8c"
    "fnv64a (bytes_of ''foobar'') = 0x85944171f73967e8"
  by code_simp+

section \<open>What the filter promises\<close>

datatype bloom_op = OpAdd string | OpAddMulti "string list" | OpContains string | OpOther "string" "int list"

definition bloom_step :: "bloom \<Rightarrow> bloom_op \<Rightarrow> bitmaps \<Rightarrow> bitmaps" where
  "bloom_step b op s = (case op of
      OpAdd k \<Rightarrow> snd (Add b k s)
    | OpAddMulti ks \<Rightarrow> snd (AddMulti b ks s)
    | OpContains k \<Rightarrow> snd (Contains b k s)
    | OpOther key ps \<Rightarrow> snd (set_bits key ps s))"

lemma set_bits_grow: "bits s key' \<subseteq> bits (snd (set_bits key ps s)) key'"
  by (auto simp: set_bits_def Let_def)

lemma set_bits_done: "set_bits key ps s = (Inr u, s') \<Longrightarrow> set ps \<subseteq> bits s' key"
  by (auto simp: set_bits_def Let_def pipeline_failed_def sent_def list_ex_iff split: if_splits)

lemma get_bits_same: "bits (snd (get_bits key ps s)) = bits s"
  by (simp add: get_bits_def Let_def)

lemma Contains_run: "Contains b k s =
    (case get_bits (redisKey b) (hashPositions b (bytes_of k)) s of
       (Inl e, s') \<Rightarrow> (fst (wrap_err ''bloom contains pipeline'' (throw e) s'), s')
     | (Inr cmds, s') \<Rightarrow> (Inr (list_all (\<lambda>bit. bit) cmds), s'))"
  by (auto simp: Contains_def bind_io_def ret_def throw_def wrap_err_def split: prod.split sum.split)

lemma bloom_step_grows: "bits s key \<subseteq> bits (bloom_step b op s) key"
proof -
  have "bits (snd (Contains b k s)) = bits s" for k
    using get_bits_same [of "redisKey b" "hashPositions b (bytes_of k)" s] by (auto simp: Contains_run split: prod.split sum.split)
  then show ?thesis
    using set_bits_grow by (cases op) (auto simp: bloom_step_def Add_def AddMulti_def ret_def)
qed

lemma bloom_steps_grow: "bits s key \<subseteq> bits (fold (bloom_step b) ops s) key"
  by (induction ops arbitrary: s) (use bloom_step_grows in fastforce)+

text \<open>C40. A key that was added is never denied: whatever is added and asked for afterwards and whichever pipelines
break off, \<open>Contains\<close> says yes or returns an error.\<close>

theorem added_key_is_never_denied:
  assumes "Add b k s = (Inr (), s1) \<or> (\<exists>ks. k \<in> set ks \<and> AddMulti b ks s = (Inr (), s1))"
  shows "fst (Contains b k (fold (bloom_step b) ops s1)) \<noteq> Inr False"
proof -
  have "set (hashPositions b (bytes_of k)) \<subseteq> bits s1 (redisKey b)"
    using assms set_bits_done by (fastforce simp: Add_def AddMulti_def split: if_splits)
  then have "set (hashPositions b (bytes_of k)) \<subseteq> bits (fold (bloom_step b) ops s1) (redisKey b)"
    using bloom_steps_grow by blast
  then show ?thesis
    by (auto simp: Contains_run get_bits_def Let_def list_all_iff wrap_err_def throw_def split: prod.splits sum.splits if_splits)
qed

definition small_bloom :: bloom where
  "small_bloom = \<lparr>redisKey = ''bloom'', bitSize = 1000, hashCount = 3\<rparr>"

theorem added_key_is_never_denied_witness:
  "fst (Contains small_bloom ''user:1'' (fold (bloom_step small_bloom) [OpAdd ''user:2'', OpContains ''user:3'']
     (snd (Add small_bloom ''user:1'' \<lparr>bits = (\<lambda>_. {}), breaks = [None, Some 1]\<rparr>)))) \<noteq> Inr False"
proof (rule added_key_is_never_denied)
  show "Add small_bloom ''user:1'' \<lparr>bits = (\<lambda>_. {}), breaks = [None, Some 1]\<rparr> =
      (Inr (), snd (Add small_bloom ''user:1'' \<lparr>bits = (\<lambda>_. {}), breaks = [None, Some 1]\<rparr>)) \<or>
    (\<exists>ks. ''user:1'' \<in> set ks \<and> AddMulti small_bloom ks \<lparr>bits = (\<lambda>_. {}), breaks = [None, Some 1]\<rparr> =
      (Inr (), snd (Add small_bloom ''user:1'' \<lparr>bits = (\<lambda>_. {}), breaks = [None, Some 1]\<rparr>)))"
  proof
    have "list_all valid_offset (hashPositions small_bloom (bytes_of ''user:1''))" by code_simp
    then show "Add small_bloom ''user:1'' \<lparr>bits = (\<lambda>_. {}), breaks = [None, Some 1]\<rparr> =
      (Inr (), snd (Add small_bloom ''user:1'' \<lparr>bits = (\<lambda>_. {}), breaks = [None, Some 1]\<rparr>))"
      by (auto simp: Add_def set_bits_def Let_def pipeline_failed_def next_break_def list_ex_iff list_all_iff)
  qed
qed

lemma bits_needed: "0 < x \<Longrightarrow> 0 < p \<Longrightarrow> p < 1 \<Longrightarrow> 0 < - x * ln p / (ln 2 * ln 2)" for x p :: real
  using mult_pos_neg [of x "ln p"] by (simp add: divide_neg_pos)

lemma params_positive: "optimalBloomParams n p = (m, k) \<Longrightarrow> 1 \<le> m \<and> 1 \<le> k"
  using bits_needed [of "real_of_int n" p] bits_needed [of "real_of_int n" "1 / 100"] bits_needed [of 1000000 p] bits_needed [of 1000000 "1 / 100"]
  by (auto simp: optimalBloomParams_def Let_def one_le_ceiling split: if_splits)

text \<open>The sizes computed for a filter are at least one, so no position divides by zero, and every position lies
inside the bitmap.\<close>

theorem positions_lie_in_the_bitmap:
  assumes "b = NewRedisBloom key n p" and "bitSize b < 2 ^ 63"
  shows "1 \<le> bitSize b \<and> 1 \<le> hashCount b \<and> length (hashPositions b data) = hashCount b \<and>
     list_all (\<lambda>pos. 0 \<le> pos \<and> pos < bitSize b) (hashPositions b data)"
proof -
  have m: "1 \<le> bitSize b" "1 \<le> hashCount b"
    using assms(1) params_positive [of n p "fst (optimalBloomParams n p)" "snd (optimalBloomParams n p)"]
    by (auto simp: NewRedisBloom_def split: prod.splits)
  moreover have "0 \<le> position b h i \<and> position b h i < bitSize b" for h i
  proof -
    let ?w = "word_of_int (bitSize b) :: 64 word" and ?x = "fst h + of_nat i * snd h"
    have w: "uint ?w = bitSize b" using m(1) assms(2) by (simp add: uint_word_of_int_eq take_bit_int_eq_self)
    have u: "uint (?x mod ?w) = uint ?x mod bitSize b" by (simp add: uint_mod_distrib w)
    then have lt: "uint (?x mod ?w) < bitSize b" "0 \<le> uint (?x mod ?w)" using m(1) by simp_all
    have "- (2 ^ 63) \<le> uint (?x mod ?w)" by (rule order_trans [OF _ lt(2)]) simp
    then have "sint (?x mod ?w) = uint (?x mod ?w)"
      using assms(2) lt(1) signed_take_bit_int_eq_self [of 63 "uint (?x mod ?w)"] by (simp add: sint_uint)
    then show ?thesis using lt by (simp add: position_def)
  qed
  ultimately show ?thesis using m by (simp add: hashPositions_def list_all_iff)
qed

text \<open>One element at a rate of a half: two bits and two hashes.\<close>

theorem positions_lie_in_the_bitmap_witness:
  "list_all (\<lambda>pos. 0 \<le> pos \<and> pos < bitSize (NewRedisBloom ''bloom'' 1 (1 / 2))) (hashPositions (NewRedisBloom ''bloom'' 1 (1 / 2)) [1, 2])"
proof -
  have "ln (1 / 2 :: real) = - ln 2" by (simp add: ln_div)
  then have "bitSize (NewRedisBloom ''bloom'' 1 (1 / 2)) = \<lceil>1 / ln 2 :: real\<rceil>"
    by (simp add: NewRedisBloom_def optimalBloomParams_def Let_def)
  moreover have "(1 / 2 :: real) \<le> ln 2" using ln_add_one_self_le_self2 [of 1] ln_ge_iff [of 2 "1 / 2 :: real"] exp_half_le2 by simp
  then have "1 / ln 2 \<le> (2 :: real)" by (simp add: field_simps)
  then have "\<lceil>1 / ln 2 :: real\<rceil> \<le> 2" by (simp add: ceiling_le_iff)
  ultimately show ?thesis using positions_lie_in_the_bitmap [of "NewRedisBloom ''bloom'' 1 (1 / 2)" "''bloom''" 1 "1 / 2" "[1, 2]"] by simp
qed

end
