(* ===== verification/HotKeys.thy ===== *)
theory HotKeys
  imports Complex_Main Prelude "HOL-Library.AList" "HOL-Library.Multiset"
begin

text \<open>
  The detector of hot keys (\<open>internal/cache/hotkey.go\<close>): accesses counted in one bucket per second, the
  buckets used in turn, and a snapshot of the most frequent keys. The calls of the operations come
  one after the other here.
\<close>

section \<open>State\<close>

record bucket =
  bk_counts :: "(string \<times> int) list"
  bk_sec :: int

record snapshot =
  sn_set :: "string list"
  sn_ranks :: "(string \<times> int) list"

record detector =
  bucketCount :: nat
  buckets :: "bucket list"
  windowSize :: duration
  topN :: int
  multiplier :: int
  computeInterval :: duration
  hotSet :: "snapshot option"
  lastCompute :: instant

definition NewHotKeyDetector :: "int \<Rightarrow> int \<Rightarrow> int \<Rightarrow> detector" where
  "NewHotKeyDetector windowSeconds n ttlMultiplier =
     (let bc = (if windowSeconds < 2 then 2 else nat windowSeconds) in
      \<lparr>bucketCount = bc, buckets = replicate bc \<lparr>bk_counts = [], bk_sec = -1\<rparr>, windowSize = wrap64 (windowSeconds * second),
       topN = n, multiplier = ttlMultiplier, computeInterval = 200 * millisecond, hotSet = None, lastCompute = 0\<rparr>)"

section \<open>Recording\<close>

definition slot :: "detector \<Rightarrow> int \<Rightarrow> nat" where
  "slot d sec = nat (sec mod int (bucketCount d))"

definition bucketFor :: "int \<Rightarrow> detector \<Rightarrow> detector" where
  "bucketFor sec d =
     (if bk_sec (buckets d ! slot d sec) \<noteq> sec
      then d\<lparr>buckets := (buckets d)[slot d sec := \<lparr>bk_counts = [], bk_sec = sec\<rparr>]\<rparr>
      else d)"

definition count_of :: "(string \<times> int) list \<Rightarrow> string \<Rightarrow> int" where
  "count_of m key = (case map_of m key of None \<Rightarrow> 0 | Some c \<Rightarrow> c)"

definition add_count :: "string \<Rightarrow> int \<Rightarrow> (string \<times> int) list \<Rightarrow> (string \<times> int) list" where
  "add_count key c m = AList.update key (count_of m key + c) m"

definition Record :: "int \<Rightarrow> string \<Rightarrow> detector \<Rightarrow> detector" where
  "Record sec key d =
     (let d1 = bucketFor sec d; i = slot d sec; b = buckets d1 ! i in
      d1\<lparr>buckets := (buckets d1)[i := b\<lparr>bk_counts := add_count key 1 (bk_counts b)\<rparr>]\<rparr>)"

section \<open>The snapshot\<close>

definition in_window :: "detector \<Rightarrow> int \<Rightarrow> bucket \<Rightarrow> bool" where
  "in_window d nowSec b = (let cutoff = nowSec - go_div (windowSize d) second - 1 in \<not> (bk_sec b < 0 \<or> bk_sec b < cutoff))"

definition window_counts :: "detector \<Rightarrow> int \<Rightarrow> (string \<times> int) list" where
  "window_counts d nowSec =
     fold (\<lambda>b m. if in_window d nowSec b then fold (\<lambda>(key, c). add_count key c) (bk_counts b) m else m) (buckets d) []"

text \<open>
  \<open>arrange\<close> is the order of a map's entries and of the unstable sort by count. A slice with a
  negative bound panics.
\<close>

definition computeHot :: "((string \<times> int) list \<Rightarrow> (string \<times> int) list) \<Rightarrow> instant \<Rightarrow> detector \<Rightarrow> detector option" where
  "computeHot arrange t d =
     (let all = arrange (window_counts d (t div second)) in
      if int (length all) > topN d \<and> topN d < 0 then None
      else let top = (if int (length all) > topN d then take (nat (topN d)) all else all) in
        Some (d\<lparr>hotSet := Some \<lparr>sn_set = map fst top, sn_ranks = top\<rparr>, lastCompute := t\<rparr>))"

definition fresh :: "instant \<Rightarrow> detector \<Rightarrow> bool" where
  "fresh t d \<longleftrightarrow> t - lastCompute d \<le> computeInterval d \<and> hotSet d \<noteq> None"

definition maybeCompute :: "((string \<times> int) list \<Rightarrow> (string \<times> int) list) \<Rightarrow> instant \<Rightarrow> detector \<Rightarrow> detector option" where
  "maybeCompute arrange t d = (if fresh t d then Some d else computeHot arrange t d)"

definition GetHotKeys :: "((string \<times> int) list \<Rightarrow> (string \<times> int) list) \<Rightarrow> instant \<Rightarrow> detector \<Rightarrow> ((string \<times> int) list \<times> detector) option" where
  "GetHotKeys arrange t d = (case maybeCompute arrange t d of
      None \<Rightarrow> None
    | Some d' \<Rightarrow> Some (case hotSet d' of None \<Rightarrow> [] | Some sn \<Rightarrow> sn_ranks sn, d'))"

definition IsHot :: "((string \<times> int) list \<Rightarrow> (string \<times> int) list) \<Rightarrow> instant \<Rightarrow> string \<Rightarrow> detector \<Rightarrow> (bool \<times> detector) option" where
  "IsHot arrange t key d = (case maybeCompute arrange t d of
      None \<Rightarrow> None
    | Some d' \<Rightarrow> Some (case hotSet d' of None \<Rightarrow> False | Some sn \<Rightarrow> key \<in> set (sn_set sn), d'))"

text \<open>\<open>r\<close> is the random number of the call, at least 0 and below 1; the conversion cuts towards zero.\<close>

definition to_duration :: "real \<Rightarrow> duration" where
  "to_duration x = (if x < 0 then \<lceil>x\<rceil> else \<lfloor>x\<rfloor>)"

definition HotTTL :: "real \<Rightarrow> detector \<Rightarrow> duration \<Rightarrow> duration" where
  "HotTTL r d baseTTL =
     (if multiplier d \<le> 1 then baseTTL
      else let multiplied = wrap64 (baseTTL * multiplier d);
               jitter = to_duration (real_of_int multiplied * (1 / 10) * (r * 2 - 1))
           in wrap64 (multiplied + jitter))"


section \<open>Counting\<close>

lemma count_of_add: "count_of (add_count k c m) key = count_of m key + (if key = k then c else 0)"
  by (simp add: count_of_def add_count_def update_conv')

lemma distinct_add: "distinct (map fst m) \<Longrightarrow> distinct (map fst (add_count k c m))"
  by (simp add: add_count_def distinct_update)

lemma count_of_absent: "k \<notin> fst ` set l \<Longrightarrow> count_of l k = 0"
  by (auto simp: count_of_def split: option.split dest: map_of_SomeD) (force dest: map_of_SomeD)

lemma count_of_merge:
  "distinct (map fst l) \<Longrightarrow> count_of (fold (\<lambda>(key, c). add_count key c) l m) key = count_of m key + count_of l key"
proof (induction l arbitrary: m)
  case (Cons e l)
  then show ?case by (cases e) (auto simp: count_of_add count_of_absent, simp_all add: count_of_def)
qed (simp add: count_of_def)

lemma window_total:
  assumes "list_all (\<lambda>b. distinct (map fst (bk_counts b))) bs"
  shows "count_of (fold (\<lambda>b m. if W b then fold (\<lambda>(key, c). add_count key c) (bk_counts b) m else m) bs m) key =
    count_of m key + sum_list (map (\<lambda>b. if W b then count_of (bk_counts b) key else 0) bs)"
  using assms by (induction bs arbitrary: m) (simp_all add: count_of_merge)

text \<open>How often \<open>key\<close> was recorded at seconds with \<open>P\<close>.\<close>

definition recorded :: "(int \<Rightarrow> bool) \<Rightarrow> string \<Rightarrow> (int \<times> string) list \<Rightarrow> int" where
  "recorded P key rs = int (length (filter (\<lambda>(s, k). k = key \<and> P s) rs))"

lemma recorded_Nil [simp]: "recorded P key [] = 0"
  by (simp add: recorded_def)

lemma recorded_mono: "(\<And>s. s \<in> fst ` set rs \<Longrightarrow> P s \<Longrightarrow> Q s) \<Longrightarrow> recorded P key rs \<le> recorded Q key rs"
  by (induction rs) (auto simp: recorded_def)

lemma recorded_snoc: "recorded P key (rs @ [(s, k)]) = recorded P key rs + (if k = key \<and> P s then 1 else 0)"
  by (simp add: recorded_def)

lemma recorded_sum:
  fixes S :: "nat \<Rightarrow> int"
  assumes "\<And>i. i < n \<Longrightarrow> W i \<Longrightarrow> sl (S i) = i"
  shows "(\<Sum>i<n. if W i then recorded (\<lambda>s. s = S i) key rs else 0) = recorded (\<lambda>s. sl s < n \<and> W (sl s) \<and> s = S (sl s)) key rs"
proof (induction rs rule: rev_induct)
  case (snoc e rs)
  obtain s k where e: "e = (s, k)" by fastforce
  have "(\<Sum>i<n. if W i \<and> k = key \<and> s = S i then 1 else 0 :: int) = (\<Sum>i<n. if i = sl s then (if W i \<and> k = key \<and> s = S i then 1 else 0) else 0)"
    using assms by (intro sum.cong) auto
  then have one: "(\<Sum>i<n. if W i \<and> k = key \<and> s = S i then 1 else 0 :: int) = (if sl s < n \<and> W (sl s) \<and> k = key \<and> s = S (sl s) then 1 else 0)"
    by simp
  have "(\<Sum>i<n. if W i then recorded (\<lambda>s. s = S i) key (rs @ [e]) else 0) =
      (\<Sum>i<n. (if W i then recorded (\<lambda>s. s = S i) key rs else 0) + (if W i \<and> k = key \<and> s = S i then 1 else 0))"
    by (intro sum.cong) (auto simp: e recorded_snoc)
  then show ?case by (auto simp: sum.distrib snoc.IH one e recorded_snoc)
qed (simp cong: if_cong)

section \<open>The buckets after a run\<close>

definition run_records :: "(int \<times> string) list \<Rightarrow> detector \<Rightarrow> detector" where
  "run_records rs d = fold (\<lambda>(s, k). Record s k) rs d"

definition bucket_ok :: "nat \<Rightarrow> (int \<times> string) list \<Rightarrow> nat \<Rightarrow> bucket \<Rightarrow> bool" where
  "bucket_ok n rs i b \<longleftrightarrow> distinct (map fst (bk_counts b)) \<and>
     (\<forall>key. count_of (bk_counts b) key = recorded (\<lambda>s. s = bk_sec b) key rs) \<and>
     (\<forall>s \<in> fst ` set rs. s mod int n = int i \<longrightarrow> s \<le> bk_sec b) \<and> (0 \<le> bk_sec b \<longrightarrow> bk_sec b mod int n = int i \<and> bk_sec b \<in> fst ` set rs)"

definition tracks :: "detector \<Rightarrow> (int \<times> string) list \<Rightarrow> bool" where
  "tracks d rs \<longleftrightarrow> 2 \<le> bucketCount d \<and> length (buckets d) = bucketCount d \<and>
     (\<forall>i < bucketCount d. bucket_ok (bucketCount d) rs i (buckets d ! i))"

lemma tracks_new: "tracks (NewHotKeyDetector w n m) []"
  by (auto simp: tracks_def NewHotKeyDetector_def bucket_ok_def count_of_def recorded_def Let_def)

lemma slot_less: "2 \<le> bucketCount d \<Longrightarrow> slot d s < bucketCount d \<and> int (slot d s) = s mod int (bucketCount d)"
  by (simp add: slot_def nat_less_iff)

lemma Record_tracks:
  assumes "tracks d rs" and "0 \<le> s" and "\<And>s'. s' \<in> fst ` set rs \<Longrightarrow> s' \<le> s"
  shows "tracks (Record s k d) (rs @ [(s, k)])"
proof -
  let ?n = "bucketCount d" and ?i = "slot d s"
  have n: "2 \<le> ?n" "length (buckets d) = ?n" and ok: "\<And>i. i < ?n \<Longrightarrow> bucket_ok ?n rs i (buckets d ! i)"
    using assms(1) by (auto simp: tracks_def)
  have i: "?i < ?n" "s mod int ?n = int ?i" using slot_less [OF n(1), of s] by simp_all
  have other: "bucket_ok ?n (rs @ [(s, k)]) j (buckets d ! j)" if "j < ?n" "j \<noteq> ?i" for j
  proof -
    have "bk_sec (buckets d ! j) \<noteq> s" using ok [OF that(1)] i(2) that(2) assms(2) by (auto simp: bucket_ok_def)
    then show ?thesis using ok [OF that(1)] i(2) that(2) by (auto simp: bucket_ok_def recorded_snoc)
  qed
  have none: "recorded (\<lambda>u. u = s) key rs = 0" if "bk_sec (buckets d ! ?i) \<noteq> s" for key
  proof -
    have "s \<notin> fst ` set rs"
    proof
      assume "s \<in> fst ` set rs"
      then have "s \<le> bk_sec (buckets d ! ?i)" using ok [OF i(1)] i(2) by (auto simp: bucket_ok_def)
      then have "bk_sec (buckets d ! ?i) \<in> fst ` set rs" using ok [OF i(1)] assms(2) by (auto simp: bucket_ok_def)
      then show False using assms(3) \<open>s \<le> bk_sec (buckets d ! ?i)\<close> that by fastforce
    qed
    then show ?thesis by (force simp: recorded_def filter_empty_conv)
  qed
  have same: "bucket_ok ?n (rs @ [(s, k)]) ?i (buckets (Record s k d) ! ?i)"
  proof (cases "bk_sec (buckets d ! ?i) = s")
    case True
    then have "buckets (Record s k d) ! ?i = (buckets d ! ?i)\<lparr>bk_counts := add_count k 1 (bk_counts (buckets d ! ?i))\<rparr>"
      using i(1) n(2) by (simp add: Record_def bucketFor_def Let_def)
    then show ?thesis using ok [OF i(1)] i(2) True
      by (simp add: bucket_ok_def recorded_snoc count_of_add distinct_add)
  next
    case False
    then have "buckets (Record s k d) ! ?i = \<lparr>bk_counts = add_count k 1 [], bk_sec = s\<rparr>"
      using i(1) n(2) by (simp add: Record_def bucketFor_def Let_def slot_def)
    then show ?thesis using none [OF False] i(2) assms(3)
      by (simp add: bucket_ok_def recorded_snoc count_of_add distinct_add count_of_def [of "[]"])
  qed
  have "bucketCount (Record s k d) = ?n" "length (buckets (Record s k d)) = ?n" "\<And>j. j \<noteq> ?i \<Longrightarrow> buckets (Record s k d) ! j = buckets d ! j"
    using n(2) by (auto simp: Record_def bucketFor_def Let_def slot_def)
  then show ?thesis using n(1) other same by (auto simp: tracks_def) (metis)
qed


lemma run_tracks:
  assumes "tracks d rs" and "sorted (map fst (rs @ rs'))" and "list_all (\<lambda>(s, k). 0 \<le> s) rs'"
  shows "tracks (run_records rs' d) (rs @ rs')"
  using assms
proof (induction rs' arbitrary: d rs)
  case (Cons e rs')
  obtain s k where e: "e = (s, k)" by fastforce
  have "tracks (Record s k d) (rs @ [e])"
    unfolding e using Cons.prems by (intro Record_tracks) (auto simp: e sorted_append)
  then show ?case using Cons.IH [of "Record s k d" "rs @ [e]"] Cons.prems by (simp add: run_records_def e)
qed (simp add: run_records_def)

lemma run_config: "bucketCount (run_records rs d) = bucketCount d \<and> windowSize (run_records rs d) = windowSize d"
proof (induction rs arbitrary: d)
  case (Cons e rs)
  then show ?case by (cases e) (simp add: run_records_def Record_def bucketFor_def Let_def)
qed (simp add: run_records_def)

text \<open>What a snapshot counts: the records whose second is the last one of their bucket and in the window.\<close>

lemma window_counts_are:
  assumes "tracks d rs"
  shows "count_of (window_counts d t) key =
    recorded (\<lambda>s. in_window d t (buckets d ! slot d s) \<and> s = bk_sec (buckets d ! slot d s)) key rs"
proof -
  let ?n = "bucketCount d" and ?b = "\<lambda>i. buckets d ! i"
  have n: "2 \<le> ?n" "length (buckets d) = ?n" and ok: "\<And>i. i < ?n \<Longrightarrow> bucket_ok ?n rs i (?b i)"
    using assms by (auto simp: tracks_def)
  have "list_all (\<lambda>b. distinct (map fst (bk_counts b))) (buckets d)"
    using ok n(2) by (auto simp: list_all_length bucket_ok_def)
  then have "count_of (window_counts d t) key = sum_list (map (\<lambda>b. if in_window d t b then count_of (bk_counts b) key else 0) (buckets d))"
    unfolding window_counts_def by (simp add: window_total) (simp add: count_of_def)
  also have "\<dots> = (\<Sum>i<?n. if in_window d t (?b i) then count_of (bk_counts (?b i)) key else 0)"
    by (simp add: sum_list_sum_nth n(2) atLeast0LessThan)
  also have "\<dots> = (\<Sum>i<?n. if in_window d t (?b i) then recorded (\<lambda>s. s = bk_sec (?b i)) key rs else 0)"
    using ok by (intro sum.cong) (auto simp: bucket_ok_def)
  also have "\<dots> = recorded (\<lambda>s. slot d s < ?n \<and> in_window d t (?b (slot d s)) \<and> s = bk_sec (?b (slot d s))) key rs"
    using ok by (intro recorded_sum) (auto simp: in_window_def bucket_ok_def slot_def Let_def)
  also have "\<dots> = recorded (\<lambda>s. in_window d t (?b (slot d s)) \<and> s = bk_sec (?b (slot d s))) key rs"
    using slot_less [OF n(1)] by simp
  finally show ?thesis .
qed

text \<open>The count of a key is that of its accesses in the window, give or take the two seconds before it: every
access of the last \<open>w\<close> seconds is counted, none older than \<open>w + 1\<close> seconds is.\<close>

theorem hot_counts_bracket_window:
  assumes "2 \<le> w" and "in_int64 (w * second)" and "sorted (map fst rs)" and "list_all (\<lambda>(s, k). 0 \<le> s \<and> s \<le> t) rs"
  shows "let c = count_of (window_counts (run_records rs (NewHotKeyDetector w n m)) t) key in
    recorded (\<lambda>s. t - w < s) key rs \<le> c \<and> c \<le> recorded (\<lambda>s. t - w - 1 \<le> s) key rs"
proof -
  let ?new = "NewHotKeyDetector w n m" and ?d = "run_records rs (NewHotKeyDetector w n m)"
  have "list_all (\<lambda>(s, k). 0 \<le> s) rs" using assms(4) by (auto simp: list_all_iff)
  then have tr: "tracks ?d rs" using run_tracks [OF tracks_new, of rs w n m] assms(3) by simp
  have bc: "int (bucketCount ?d) = w" "go_div (windowSize ?d) second = w"
    using assms(1,2) run_config [of rs ?new] by (simp_all add: NewHotKeyDetector_def Let_def go_div_nonneg second_def)
  have slots: "slot ?d s < bucketCount ?d" "s mod w = int (slot ?d s)" for s
    using slot_less [of ?d s] tr bc(1) by (auto simp: tracks_def)
  have b: "bucket_ok (bucketCount ?d) rs (slot ?d s) (buckets ?d ! slot ?d s)" for s
    using tr slots(1) by (auto simp: tracks_def)
  have "in_window ?d t (buckets ?d ! slot ?d s) \<and> s = bk_sec (buckets ?d ! slot ?d s)" if "s \<in> fst ` set rs" and "t - w < s" for s
  proof -
    let ?last = "bk_sec (buckets ?d ! slot ?d s)"
    have s: "0 \<le> s" "s \<le> ?last" using that(1) b [of s] slots(2) [of s] bc(1) assms(4) by (auto simp: bucket_ok_def list_all_iff)
    then have "?last mod w = s mod w" "?last \<in> fst ` set rs" using b [of s] slots(2) [of s] bc(1) by (auto simp: bucket_ok_def)
    then have "w dvd ?last - s" "?last \<le> t" using assms(4) by (auto simp: mod_eq_dvd_iff list_all_iff)
    then have "?last = s" using s(2) that(2) zdvd_not_zless [of "?last - s" w] by linarith
    then show ?thesis using s(1) that(2) bc(2) by (simp add: in_window_def)
  qed
  then show ?thesis
    unfolding Let_def window_counts_are [OF tr] using bc(2)
    by (auto intro!: recorded_mono simp: in_window_def Let_def)
qed

theorem hot_counts_bracket_window_witness:
  "3 \<le> count_of (window_counts (run_records [(5, ''k''), (8, ''k''), (9, ''k''), (9, ''j''), (10, ''k'')] (NewHotKeyDetector 5 10 2)) 10) ''k''"
  using hot_counts_bracket_window [of 5 "[(5, ''k''), (8, ''k''), (9, ''k''), (9, ''j''), (10, ''k'')]" 10 10 2 "''k''"]
  by (simp add: recorded_def in_int64_def second_def Let_def)

section \<open>The snapshot holds the most frequent keys\<close>

text \<open>The order of a sort by count: any permutation that falls in the counts.\<close>

definition sorts_by_count :: "((string \<times> int) list \<Rightarrow> (string \<times> int) list) \<Rightarrow> bool" where
  "sorts_by_count arrange \<longleftrightarrow> (\<forall>m. mset (arrange m) = mset m \<and> sorted (rev (map snd (arrange m))))"

lemma counts_fall:
  fixes xs ys :: "(string \<times> int) list"
  assumes "sorted (rev (map snd (xs @ ys)))" and "(j, cj) \<in> set ys" and "(k, ck) \<in> set xs"
  shows "cj \<le> ck"
proof -
  have "cj \<in> set (rev (map snd ys))" "ck \<in> set (rev (map snd xs))" using assms(2,3) by force+
  then show ?thesis using assms(1) by (auto simp only: map_append rev_append sorted_append)
qed

text \<open>A snapshot has at most the configured number of keys, and no key outside it was accessed more often than
one inside.\<close>

theorem snapshot_holds_the_most_frequent:
  assumes "sorts_by_count arrange" and "0 \<le> topN d" and "computeHot arrange t d = Some d'"
  shows "\<exists>sn. hotSet d' = Some sn \<and> int (length (sn_set sn)) \<le> topN d \<and> set (sn_ranks sn) \<subseteq> set (window_counts d (t div second)) \<and>
    (\<forall>(j, cj) \<in> set (window_counts d (t div second)). \<forall>(k, ck) \<in> set (sn_ranks sn). j \<in> set (sn_set sn) \<or> cj \<le> ck)"
proof -
  let ?m = "window_counts d (t div second)"
  let ?all = "arrange ?m"
  let ?top = "if int (length ?all) > topN d then take (nat (topN d)) ?all else ?all"
  let ?rest = "if int (length ?all) > topN d then drop (nat (topN d)) ?all else []"
  have hot: "hotSet d' = Some \<lparr>sn_set = map fst ?top, sn_ranks = ?top\<rparr>"
    using assms(2,3) by (auto simp: computeHot_def Let_def split: if_splits)
  have all: "?all = ?top @ ?rest" by simp
  have sorted: "sorted (rev (map snd (?top @ ?rest)))" and set: "set ?m = set (?top @ ?rest)"
    using assms(1) all by (simp_all add: sorts_by_count_def mset_eq_setD [of ?all ?m, symmetric])
  have "\<forall>(j, cj) \<in> set ?m. \<forall>(k, ck) \<in> set ?top. j \<in> fst ` set ?top \<or> cj \<le> ck"
  proof (safe del: disjCI)
    fix j cj k ck assume "(j, cj) \<in> set ?m" and k: "(k, ck) \<in> set ?top"
    then have "(j, cj) \<in> set ?top \<or> (j, cj) \<in> set ?rest" unfolding set by (simp only: set_append Un_iff)
    then show "j \<in> fst ` set ?top \<or> cj \<le> ck"
    proof
      assume "(j, cj) \<in> set ?rest"
      then show ?thesis using counts_fall [OF sorted _ k] by blast
    qed force
  qed
  moreover have "int (length ?top) \<le> topN d" "set ?top \<subseteq> set ?m" using assms(2) set by (auto simp del: set_append dest: in_set_takeD)
  ultimately show ?thesis using hot by simp
qed

definition busy_detector :: detector where
  "busy_detector = run_records [(9, ''j''), (9, ''k''), (10, ''k'')] (NewHotKeyDetector 5 1 2)"

theorem snapshot_holds_the_most_frequent_witness:
  "\<exists>sn. hotSet (the (computeHot (\<lambda>m. rev (sort_key snd m)) (10 * second) busy_detector)) = Some sn \<and> int (length (sn_set sn)) \<le> 1"
proof -
  have "topN busy_detector = 1" by code_simp
  moreover have "sorts_by_count (\<lambda>m. rev (sort_key snd m))" by (simp add: sorts_by_count_def rev_map [symmetric])
  moreover have "computeHot (\<lambda>m. rev (sort_key snd m)) (10 * second) busy_detector =
      Some (the (computeHot (\<lambda>m. rev (sort_key snd m)) (10 * second) busy_detector))"
    using \<open>topN busy_detector = 1\<close> by (simp add: computeHot_def Let_def)
  ultimately show ?thesis using snapshot_holds_the_most_frequent [of "\<lambda>m. rev (sort_key snd m)" busy_detector "10 * second"] by fastforce
qed

section \<open>Times to live\<close>

lemma to_duration_bound: "10 * \<bar>x\<bar> \<le> real_of_int b \<Longrightarrow> 10 * \<bar>to_duration x\<bar> \<le> b"
proof -
  assume x: "10 * \<bar>x\<bar> \<le> real_of_int b"
  have "real_of_int \<bar>to_duration x\<bar> \<le> \<bar>x\<bar>"
  proof (cases "x < 0")
    case True
    then have "\<lceil>x\<rceil> \<le> 0" by (simp add: ceiling_le_iff)
    then show ?thesis using True by (simp add: to_duration_def)
  next
    case False
    then show ?thesis by (simp add: to_duration_def)
  qed
  then show ?thesis using x by linarith
qed

lemma tenth_bound: "0 \<le> q \<Longrightarrow> \<bar>x\<bar> \<le> 1 \<Longrightarrow> 10 * \<bar>q * (1 / 10) * x\<bar> \<le> q" for q x :: real
  using mult_left_mono [of "\<bar>x\<bar>" 1 q] by (simp add: abs_mult)

lemma small_in_int64:
  fixes p j :: int
  assumes "0 \<le> p" and "p < 2 ^ 62"
  shows "in_int64 p" and "10 * \<bar>j\<bar> \<le> p \<Longrightarrow> in_int64 (p + j)"
proof -
  show "in_int64 p" using assms by (simp add: in_int64_def)
  assume "10 * \<bar>j\<bar> \<le> p"
  then have "- p \<le> j \<and> j \<le> p" using assms(1) by arith
  then show "in_int64 (p + j)" using assms by (simp add: in_int64_def)
qed

text \<open>The time to live of a hot key is the multiple of the given one, up to a tenth more or less.\<close>

theorem hot_ttl_is_near_the_multiple:
  assumes "0 \<le> r" and "r < 1" and "1 < multiplier d" and "0 \<le> ttl" and "ttl * multiplier d < 2 ^ 62"
  shows "10 * \<bar>HotTTL r d ttl - ttl * multiplier d\<bar> \<le> ttl * multiplier d"
proof -
  let ?p = "ttl * multiplier d" and ?j = "to_duration (real_of_int (ttl * multiplier d) * (1 / 10) * (r * 2 - 1))"
  have p0: "0 \<le> ?p" using assms(3,4) by simp
  then have p: "0 \<le> ?p" "in_int64 ?p" using assms(5) small_in_int64(1) by blast+
  have "0 \<le> real_of_int ?p" "\<bar>r * 2 - 1\<bar> \<le> 1" using p(1) assms(1,2) by (simp_all only: of_int_0_le_iff)
  then have "10 * \<bar>real_of_int ?p * (1 / 10) * (r * 2 - 1)\<bar> \<le> real_of_int ?p" by (rule tenth_bound)
  then have j: "10 * \<bar>?j\<bar> \<le> ?p" by (rule to_duration_bound)
  then have "in_int64 (?p + ?j)" using small_in_int64(2) [OF p0 assms(5)] by blast
  then have "HotTTL r d ttl = ?p + ?j" using assms(3) p(2) by (simp add: HotTTL_def Let_def)
  then show ?thesis using j by simp
qed

theorem hot_ttl_is_near_the_multiple_witness: "10 * \<bar>HotTTL (1 / 4) busy_detector (60 * second) - 120 * second\<bar> \<le> 120 * second"
proof -
  have "multiplier busy_detector = 2" by code_simp
  then show ?thesis using hot_ttl_is_near_the_multiple [of "1 / 4" busy_detector "60 * second"] by (simp add: second_def)
qed

end
