(* ===== verification/LogStore.thy ===== *)
theory LogStore
  imports Prelude "HOL-Library.Sublist"
begin

text \<open>
  The tables of audit rows and of measurements (\<open>internal/model/log.go\<close>, \<open>monitor.go\<close>,
  \<open>internal/repository/log_repo.go\<close>, \<open>monitor_repo.go\<close>): inserts, one by one and in batches, and the
  queries over them. The store is a parameter of the service that writes to it; both repositories keep
  the contract it relies on.
\<close>

section \<open>Rows\<close>

text \<open>A detail is a JSON object: its members in the order of their names.\<close>

datatype detail_value = DText string | DFlag bool | DNumber int

type_synonym detail = "(string \<times> detail_value) list"

record audit_log =
  al_id :: int
  al_user :: string
  al_type :: string
  al_login_type :: string
  al_login_result :: string
  al_fail_reason :: string
  al_device :: string
  al_detail :: detail
  al_ip :: string
  al_agent :: string
  al_created :: instant

text \<open>A value is a \<open>float64\<close>; all that the code writes are whole numbers. Tags may be missing.\<close>

record monitor_metric =
  mm_id :: int
  mm_user :: string
  mm_type :: string
  mm_name :: string
  mm_value :: int
  mm_tags :: "detail option"
  mm_created :: instant

section \<open>A table\<close>

text \<open>
  Rows with the id the database gave them, the oldest first, and which of the next statements fail.
  A batch is one transaction. \<open>None\<close>: there is no database.
\<close>

record 'e tab =
  tb_rows :: "(int \<times> 'e) list"
  tb_next :: int
  tb_faults :: "bool list"

type_synonym 'e repo = "'e tab option"

definition insert_rows :: "'e list \<Rightarrow> 'e tab \<Rightarrow> (gerr + unit) \<times> 'e tab" where
  "insert_rows es t =
     (let t' = t\<lparr>tb_faults := tl (tb_faults t)\<rparr> in
      if tb_faults t \<noteq> [] \<and> hd (tb_faults t) then (Inl (Sentinel ''insert''), t')
      else (Inr (), t'\<lparr>tb_rows := tb_rows t @ zip (map (\<lambda>i. tb_next t + int i) [0..<length es]) es,
                      tb_next := tb_next t + int (length es)\<rparr>))"

definition on_table :: "string \<Rightarrow> ('e tab \<Rightarrow> (gerr + 'a) \<times> 'e tab) \<Rightarrow> ('e repo, 'a) io" where
  "on_table name f r = (case r of
      None \<Rightarrow> (Inl (Sentinel (name @ '': db not initialized'')), None)
    | Some t \<Rightarrow> (case f t of (x, t') \<Rightarrow> (x, Some t')))"

definition create_row :: "string \<Rightarrow> string \<Rightarrow> 'e option \<Rightarrow> ('e repo, unit) io" where
  "create_row name nil_text e = on_table name (\<lambda>t. case e of
      None \<Rightarrow> (Inl (Sentinel (name @ '': '' @ nil_text)), t)
    | Some x \<Rightarrow> insert_rows [x] t)"

definition create_batch :: "string \<Rightarrow> 'e option list \<Rightarrow> ('e repo, unit) io" where
  "create_batch name es = on_table name (\<lambda>t.
     let clean = List.map_filter (\<lambda>e. e) es in
     if clean = [] then (Inr (), t) else insert_rows clean t)"

definition LogRepo_Create :: "audit_log option \<Rightarrow> (audit_log repo, unit) io" where
  "LogRepo_Create = create_row ''log repo'' ''nil AuditLog passed to Create''"

definition LogRepo_CreateBatch :: "audit_log option list \<Rightarrow> (audit_log repo, unit) io" where
  "LogRepo_CreateBatch = create_batch ''log repo''"

definition MonitorRepo_Record :: "monitor_metric option \<Rightarrow> (monitor_metric repo, unit) io" where
  "MonitorRepo_Record = create_row ''monitor repo'' ''nil MonitorMetric passed to Record''"

definition MonitorRepo_RecordBatch :: "monitor_metric option list \<Rightarrow> (monitor_metric repo, unit) io" where
  "MonitorRepo_RecordBatch = create_batch ''monitor repo''"

section \<open>Queries\<close>

text \<open>Rows with one value of the sort column come in any order; here they keep that of the table.\<close>

definition limited_to :: "int \<Rightarrow> 'a list \<Rightarrow> 'a list" where
  "limited_to n xs = (if n < 0 then xs else take (nat n) xs)"

definition LogRepo_FindByUser :: "string \<Rightarrow> int \<Rightarrow> int \<Rightarrow> (audit_log repo, (int \<times> audit_log) list) io" where
  "LogRepo_FindByUser u cursor limit = on_table ''log repo'' (\<lambda>t.
     (Inr (limited_to (limit + 1) (rev (sort_key fst (filter (\<lambda>(i, e). al_user e = u \<and> i > cursor) (tb_rows t))))), t))"

definition LogRepo_FindByType :: "string \<Rightarrow> instant \<Rightarrow> instant \<Rightarrow> int \<Rightarrow> (audit_log repo, (int \<times> audit_log) list) io" where
  "LogRepo_FindByType ty a b limit = on_table ''log repo'' (\<lambda>t.
     (Inr (limited_to limit (rev (sort_key (\<lambda>(i, e). al_created e)
        (filter (\<lambda>(i, e). al_type e = ty \<and> a \<le> al_created e \<and> al_created e < b) (tb_rows t))))), t))"

definition LogRepo_CountByType :: "string \<Rightarrow> instant \<Rightarrow> instant \<Rightarrow> (audit_log repo, int) io" where
  "LogRepo_CountByType ty a b = on_table ''log repo'' (\<lambda>t.
     (Inr (int (length (filter (\<lambda>(i, e). al_type e = ty \<and> a \<le> al_created e \<and> al_created e < b) (tb_rows t)))), t))"

definition LogRepo_CountByTypeAndResult :: "string \<Rightarrow> string \<Rightarrow> instant \<Rightarrow> instant \<Rightarrow> (audit_log repo, int) io" where
  "LogRepo_CountByTypeAndResult ty result a b = on_table ''log repo'' (\<lambda>t.
     (Inr (int (length (filter (\<lambda>(i, e). al_type e = ty \<and> a \<le> al_created e \<and> al_created e < b \<and>
        (result \<noteq> [] \<longrightarrow> al_login_result e = result)) (tb_rows t)))), t))"

definition MonitorRepo_CountByType :: "string \<Rightarrow> instant \<Rightarrow> instant \<Rightarrow> (monitor_metric repo, int) io" where
  "MonitorRepo_CountByType ty a b = on_table ''monitor repo'' (\<lambda>t.
     (Inr (int (length (filter (\<lambda>(i, e). mm_type e = ty \<and> a \<le> mm_created e \<and> mm_created e < b) (tb_rows t)))), t))"

definition MonitorRepo_SumByType :: "string \<Rightarrow> instant \<Rightarrow> instant \<Rightarrow> (monitor_metric repo, int) io" where
  "MonitorRepo_SumByType ty a b = on_table ''monitor repo'' (\<lambda>t.
     (Inr (sum_list (map (\<lambda>(i, e). mm_value e)
        (filter (\<lambda>(i, e). mm_type e = ty \<and> a \<le> mm_created e \<and> mm_created e < b) (tb_rows t)))), t))"

definition MonitorRepo_FindByTimeRange :: "instant \<Rightarrow> instant \<Rightarrow> int \<Rightarrow> (monitor_metric repo, (int \<times> monitor_metric) list) io" where
  "MonitorRepo_FindByTimeRange a b limit = on_table ''monitor repo'' (\<lambda>t.
     (Inr (limited_to limit (rev (sort_key (\<lambda>(i, e). mm_created e)
        (filter (\<lambda>(i, e). a \<le> mm_created e \<and> mm_created e < b) (tb_rows t))))), t))"

section \<open>What a writer relies on\<close>

text \<open>
  A write that succeeds appends its rows in order, one that fails leaves the table as it is. \<open>rows\<close> reads
  the entries of the store.
\<close>

locale append_store =
  fixes write_one :: "'e \<Rightarrow> ('s, unit) io"
    and write_batch :: "'e list \<Rightarrow> ('s, unit) io"
    and rows :: "'s \<Rightarrow> 'e list"
  assumes one_appends: "write_one e s = (Inr u, s') \<Longrightarrow> rows s' = rows s @ [e]"
    and one_fails: "write_one e s = (Inl err, s') \<Longrightarrow> rows s' = rows s"
    and batch_appends: "write_batch es s = (Inr u, s') \<Longrightarrow> rows s' = rows s @ es"
    and batch_fails: "write_batch es s = (Inl err, s') \<Longrightarrow> rows s' = rows s"
begin

lemma batch_rows: "rows (snd (write_batch es s)) = rows s \<or> rows (snd (write_batch es s)) = rows s @ es"
  by (cases "write_batch es s"; cases "fst (write_batch es s)") (auto dest: batch_appends batch_fails)

lemma one_rows: "rows (snd (write_one e s)) = rows s \<or> rows (snd (write_one e s)) = rows s @ [e]"
  by (cases "write_one e s"; cases "fst (write_one e s)") (auto dest: one_appends one_fails)

lemma fold_one_rows: "\<exists>es'. subseq es' es \<and> rows (fold (\<lambda>e s. snd (write_one e s)) es s) = rows s @ es'"
proof (induction es arbitrary: s)
  case (Cons e es)
  from Cons.IH [of "snd (write_one e s)"] one_rows [of e s] show ?case by fastforce
qed simp

lemma fold_batch_rows:
  "\<exists>ws. subseq ws bs \<and> rows (fold (\<lambda>es s. snd (write_batch es s)) bs s) = rows s @ concat ws"
proof (induction bs arbitrary: s)
  case (Cons b bs)
  from Cons.IH [of "snd (write_batch b s)"] obtain ws
    where ws: "subseq ws bs" "rows (fold (\<lambda>es s. snd (write_batch es s)) bs (snd (write_batch b s))) = rows (snd (write_batch b s)) @ concat ws"
    by blast
  from batch_rows [of b s] show ?case
  proof
    assume "rows (snd (write_batch b s)) = rows s"
    with ws show ?thesis by (intro exI [of _ ws]) (simp add: list_emb_Cons)
  next
    assume "rows (snd (write_batch b s)) = rows s @ b"
    with ws show ?thesis by (intro exI [of _ "b # ws"]) simp
  qed
qed (auto intro: exI [of _ "[]"])

end

definition entries :: "'e repo \<Rightarrow> 'e list" where
  "entries r = (case r of None \<Rightarrow> [] | Some t \<Rightarrow> map snd (tb_rows t))"

lemma insert_rows_entries: "insert_rows es t = (x, t') \<Longrightarrow>
    map snd (tb_rows t') = (case x of Inl e \<Rightarrow> map snd (tb_rows t) | Inr u \<Rightarrow> map snd (tb_rows t) @ es)"
  by (auto simp: insert_rows_def Let_def split: if_splits)

lemma map_filter_some [simp]: "List.map_filter (\<lambda>e. e) (map Some es) = es"
  by (induction es) (simp_all add: List.map_filter_def)

lemma repo_stores:
  "append_store (\<lambda>e. create_row name nil_text (Some e)) (\<lambda>es. create_batch name (map Some es)) (entries :: 'e repo \<Rightarrow> 'e list)"
proof
  fix e :: 'e and es :: "'e list" and s s' :: "'e repo" and u err
  show "create_row name nil_text (Some e) s = (Inr u, s') \<Longrightarrow> entries s' = entries s @ [e]"
    "create_row name nil_text (Some e) s = (Inl err, s') \<Longrightarrow> entries s' = entries s"
    by (auto simp: create_row_def on_table_def entries_def dest: insert_rows_entries split: option.splits prod.splits)
  show "create_batch name (map Some es) s = (Inr u, s') \<Longrightarrow> entries s' = entries s @ es"
    "create_batch name (map Some es) s = (Inl err, s') \<Longrightarrow> entries s' = entries s"
    by (auto simp: create_batch_def on_table_def entries_def Let_def dest: insert_rows_entries split: option.splits prod.splits if_splits)
qed

interpretation log_repo: append_store "\<lambda>e. LogRepo_Create (Some e)" "\<lambda>es. LogRepo_CreateBatch (map Some es)" entries
  unfolding LogRepo_Create_def LogRepo_CreateBatch_def by (rule repo_stores)

interpretation monitor_repo: append_store "\<lambda>e. MonitorRepo_Record (Some e)" "\<lambda>es. MonitorRepo_RecordBatch (map Some es)" entries
  unfolding MonitorRepo_Record_def MonitorRepo_RecordBatch_def by (rule repo_stores)

end
