(* ===== verification/LogService.thy ===== *)
theory LogService
  imports LogStore
begin

text \<open>
  The service for audit rows and measurements (\<open>internal/service/common/log_service.go\<close>): callers put
  entries into bounded queues and never wait, two goroutines collect them into batches and write those.
  Its repositories are interfaces: here arguments, the ones of theory \<open>LogStore\<close> among others.
\<close>

section \<open>Queues and their writers\<close>

definition logBufferSize :: nat where "logBufferSize = 8192"
definition metricBufferSize :: nat where "metricBufferSize = 8192"
definition flushBatchSize :: nat where "flushBatchSize = 500"

text \<open>\<open>queued\<close> is the channel, \<open>collected\<close> the batch of the goroutine, \<open>ended\<close> says that it has returned.\<close>

record 'e collector =
  queued :: "'e list"
  collected :: "'e list"
  dropped :: int
  ended :: bool

definition new_collector :: "'e collector" where
  "new_collector = \<lparr>queued = [], collected = [], dropped = 0, ended = False\<rparr>"

definition offer :: "nat \<Rightarrow> 'e \<Rightarrow> 'e collector \<Rightarrow> 'e collector" where
  "offer cap e c = (if length (queued c) < cap then c\<lparr>queued := queued c @ [e]\<rparr> else c\<lparr>dropped := dropped c + 1\<rparr>)"

text \<open>A repository: rows one by one, and a batch when it has that operation. Errors are only logged.\<close>

record ('e, 's) row_writer =
  rw_one :: "'e \<Rightarrow> ('s, unit) io"
  rw_batch :: "('e list \<Rightarrow> ('s, unit) io) option"

definition flush_rows :: "('e, 's) row_writer option \<Rightarrow> 'e list \<Rightarrow> 's \<Rightarrow> 's" where
  "flush_rows repo es s = (case repo of
      None \<Rightarrow> s
    | Some rw \<Rightarrow> (case rw_batch rw of
        Some f \<Rightarrow> snd (f es s)
      | None \<Rightarrow> fold (\<lambda>e s. snd (rw_one rw e s)) es s))"

definition flush :: "('e, 's) row_writer option \<Rightarrow> 'e collector \<times> 's \<Rightarrow> 'e collector \<times> 's" where
  "flush repo = (\<lambda>(c, s). if collected c = [] then (c, s) else (c\<lparr>collected := []\<rparr>, flush_rows repo (collected c) s))"

definition collect :: "('e, 's) row_writer option \<Rightarrow> 'e \<Rightarrow> 'e collector \<times> 's \<Rightarrow> 'e collector \<times> 's" where
  "collect repo e = (\<lambda>(c, s).
     let c' = c\<lparr>collected := collected c @ [e]\<rparr> in
     if length (collected c') \<ge> flushBatchSize then flush repo (c', s) else (c', s))"

text \<open>The loop: an entry received, a tick of the timer, or the signal to stop, after which the queue is drained.\<close>

definition receive :: "('e, 's) row_writer option \<Rightarrow> 'e collector \<times> 's \<Rightarrow> 'e collector \<times> 's" where
  "receive repo = (\<lambda>(c, s). case queued c of [] \<Rightarrow> (c, s) | e # es \<Rightarrow> collect repo e (c\<lparr>queued := es\<rparr>, s))"

definition drain :: "('e, 's) row_writer option \<Rightarrow> 'e collector \<times> 's \<Rightarrow> 'e collector \<times> 's" where
  "drain repo = (\<lambda>(c, s). flush repo ((receive repo ^^ length (queued c)) (c, s)))"

datatype 'e loop_event = Offer 'e | Receive | TimerTick | StopSignal

definition loop_step :: "nat \<Rightarrow> ('e, 's) row_writer option \<Rightarrow> 'e loop_event \<Rightarrow> 'e collector \<times> 's \<Rightarrow> 'e collector \<times> 's" where
  "loop_step cap repo ev = (\<lambda>(c, s). case ev of
      Offer e \<Rightarrow> (offer cap e c, s)
    | Receive \<Rightarrow> (if ended c then (c, s) else receive repo (c, s))
    | TimerTick \<Rightarrow> (if ended c then (c, s) else flush repo (c, s))
    | StopSignal \<Rightarrow> (if ended c then (c, s) else (case drain repo (c, s) of (c', s') \<Rightarrow> (c'\<lparr>ended := True\<rparr>, s'))))"

definition run_loop :: "nat \<Rightarrow> ('e, 's) row_writer option \<Rightarrow> 'e loop_event list \<Rightarrow> 'e collector \<times> 's \<Rightarrow> 'e collector \<times> 's" where
  "run_loop cap repo evs cs = fold (loop_step cap repo) evs cs"

section \<open>The service\<close>

text \<open>\<open>idSeq\<close> is shared by both kinds of entries; the two flags say which repositories are there.\<close>

record log_service =
  ls_logs :: "audit_log collector"
  ls_metrics :: "monitor_metric collector"
  ls_has_logs :: bool
  ls_has_metrics :: bool
  idSeq :: int
  ls_now :: instant

definition NewLogService :: "bool \<Rightarrow> bool \<Rightarrow> int \<Rightarrow> instant \<Rightarrow> log_service" where
  "NewLogService has_logs has_metrics seq t =
     \<lparr>ls_logs = new_collector, ls_metrics = new_collector, ls_has_logs = has_logs, ls_has_metrics = has_metrics, idSeq = seq, ls_now = t\<rparr>"

record event_meta =
  me_user :: string
  me_ip :: string
  me_agent :: string

definition writeLog :: "string \<Rightarrow> event_meta \<Rightarrow> detail \<Rightarrow> string \<Rightarrow> string \<Rightarrow> string \<Rightarrow> string \<Rightarrow> log_service \<Rightarrow> log_service" where
  "writeLog eventType meta detail loginType loginResult failReason deviceInfo s =
     (if \<not> ls_has_logs s then s
      else let i = wrap64 (idSeq s + 1);
               entry = \<lparr>al_id = i, al_user = me_user meta, al_type = eventType, al_login_type = loginType,
                 al_login_result = loginResult, al_fail_reason = failReason, al_device = deviceInfo, al_detail = detail,
                 al_ip = me_ip meta, al_agent = me_agent meta, al_created = ls_now s\<rparr>
           in s\<lparr>idSeq := i, ls_logs := offer logBufferSize entry (ls_logs s)\<rparr>)"

definition writeMetric :: "string \<Rightarrow> string \<Rightarrow> string \<Rightarrow> int \<Rightarrow> detail option \<Rightarrow> log_service \<Rightarrow> log_service" where
  "writeMetric userID metricType metricName val tags s =
     (if \<not> ls_has_metrics s then s
      else let i = wrap64 (idSeq s + 1);
               metric = \<lparr>mm_id = i, mm_user = userID, mm_type = metricType, mm_name = metricName, mm_value = val,
                 mm_tags = tags, mm_created = ls_now s\<rparr>
           in s\<lparr>idSeq := i, ls_metrics := offer metricBufferSize metric (ls_metrics s)\<rparr>)"

definition LogRegister :: "event_meta \<Rightarrow> string \<Rightarrow> log_service \<Rightarrow> log_service" where
  "LogRegister meta email s =
     writeMetric (me_user meta) ''register'' ''register_count'' 1 None
     (writeLog ''register'' meta [(''email'', DText email)] [] [] [] [] s)"

definition LoginResultSuccess :: string where "LoginResultSuccess = ''success''"

definition LogLogin :: "event_meta \<Rightarrow> string \<Rightarrow> string \<Rightarrow> string \<Rightarrow> string \<Rightarrow> string \<Rightarrow> log_service \<Rightarrow> log_service" where
  "LogLogin meta loginType result email failReason deviceInfo s =
     (let counter = (if result \<noteq> LoginResultSuccess then ''login_fail_count'' else ''login_count'') in
      writeMetric (me_user meta) counter counter 1 None
      (writeLog ''login'' meta [(''email'', DText email), (''success'', DFlag (result = LoginResultSuccess))] loginType result failReason deviceInfo s))"

definition LogDeviceOnline :: "event_meta \<Rightarrow> string \<Rightarrow> log_service \<Rightarrow> log_service" where
  "LogDeviceOnline meta device s =
     writeMetric (me_user meta) ''device_online'' ''device_online_count'' 1 None
     (writeLog ''device_online'' meta [(''device_id'', DText device)] [] [] [] [] s)"

definition LogDeviceOffline :: "event_meta \<Rightarrow> string \<Rightarrow> log_service \<Rightarrow> log_service" where
  "LogDeviceOffline meta device s =
     writeMetric (me_user meta) ''device_offline'' ''device_offline_count'' 1 None
     (writeLog ''device_offline'' meta [(''device_id'', DText device)] [] [] [] [] s)"

definition LogTaskComplete :: "event_meta \<Rightarrow> int \<Rightarrow> string \<Rightarrow> int \<Rightarrow> log_service \<Rightarrow> log_service" where
  "LogTaskComplete meta taskID taskName rewardPoints s =
     writeMetric (me_user meta) ''task_complete'' ''task_reward_points'' rewardPoints None
     (writeMetric (me_user meta) ''task_complete'' ''task_complete_count'' 1 (Some [(''task_name'', DText taskName)])
     (writeLog ''task_complete'' meta
        [(''reward_points'', DNumber rewardPoints), (''task_id'', DNumber taskID), (''task_name'', DText taskName)] [] [] [] [] s))"

definition LogShopRedeem :: "event_meta \<Rightarrow> int \<Rightarrow> string \<Rightarrow> int \<Rightarrow> log_service \<Rightarrow> log_service" where
  "LogShopRedeem meta itemID itemName pointsSpent s =
     writeMetric (me_user meta) ''shop_redeem'' ''shop_redeem_points'' pointsSpent None
     (writeMetric (me_user meta) ''shop_redeem'' ''shop_redeem_count'' 1 (Some [(''item_name'', DText itemName)])
     (writeLog ''shop_redeem'' meta
        [(''item_id'', DNumber itemID), (''item_name'', DText itemName), (''points_spent'', DNumber pointsSpent)] [] [] [] [] s))"

text \<open>The steps of the two goroutines, and the stop of the service: both drain their queues.\<close>

definition log_step :: "(audit_log, 's) row_writer option \<Rightarrow> audit_log loop_event \<Rightarrow> log_service \<times> 's \<Rightarrow> log_service \<times> 's" where
  "log_step repo ev = (\<lambda>(sv, s). case loop_step logBufferSize repo ev (ls_logs sv, s) of (c, s') \<Rightarrow> (sv\<lparr>ls_logs := c\<rparr>, s'))"

definition metric_step :: "(monitor_metric, 's) row_writer option \<Rightarrow> monitor_metric loop_event \<Rightarrow> log_service \<times> 's \<Rightarrow> log_service \<times> 's" where
  "metric_step repo ev = (\<lambda>(sv, s). case loop_step metricBufferSize repo ev (ls_metrics sv, s) of (c, s') \<Rightarrow> (sv\<lparr>ls_metrics := c\<rparr>, s'))"

definition CloseService :: "(audit_log, 'a) row_writer option \<Rightarrow> (monitor_metric, 'b) row_writer option \<Rightarrow> log_service \<times> 'a \<times> 'b \<Rightarrow> log_service \<times> 'a \<times> 'b" where
  "CloseService lr mr = (\<lambda>(sv, a, b).
     case log_step lr StopSignal (sv, a) of (sv1, a1) \<Rightarrow>
       (case metric_step mr StopSignal (sv1, b) of (sv2, b1) \<Rightarrow> (sv2, a1, b1)))"

definition CountByType :: "(string \<Rightarrow> instant \<Rightarrow> instant \<Rightarrow> ('s, int) io) option \<Rightarrow> string \<Rightarrow> instant \<Rightarrow> instant \<Rightarrow> ('s, int) io" where
  "CountByType q ty a b = (case q of None \<Rightarrow> ret 0 | Some f \<Rightarrow> f ty a b)"

definition CountLogins :: "(string \<Rightarrow> string \<Rightarrow> instant \<Rightarrow> instant \<Rightarrow> ('s, int) io) option \<Rightarrow> string \<Rightarrow> instant \<Rightarrow> instant \<Rightarrow> ('s, int) io" where
  "CountLogins q result a b = (case q of None \<Rightarrow> ret 0 | Some f \<Rightarrow> f ''login'' result a b)"

definition MonitorSumByType :: "(string \<Rightarrow> instant \<Rightarrow> instant \<Rightarrow> ('s, int) io) option \<Rightarrow> string \<Rightarrow> instant \<Rightarrow> instant \<Rightarrow> ('s, int) io" where
  "MonitorSumByType q ty a b = (case q of None \<Rightarrow> ret 0 | Some f \<Rightarrow> f ty a b)"

section \<open>Every entry is accounted for\<close>

text \<open>
  Where the entries offered so far are: \<open>bs\<close> are the batches handed to the repository, the rest is in the
  batch of the goroutine or in the queue, in the order of their arrival, or it was dropped and counted.
\<close>

definition accounts :: "nat \<Rightarrow> ('e, 's) row_writer option \<Rightarrow> 's \<Rightarrow> 'e list \<Rightarrow> 'e list list \<Rightarrow> 'e collector \<times> 's \<Rightarrow> bool" where
  "accounts cap repo s0 offered bs = (\<lambda>(c, s).
     s = fold (flush_rows repo) bs s0 \<and> list_all (\<lambda>b. 1 \<le> length b \<and> length b \<le> flushBatchSize) bs \<and>
     subseq (concat bs @ collected c @ queued c) offered \<and>
     int (length offered) = int (length (concat bs @ collected c @ queued c)) + dropped c \<and>
     length (queued c) \<le> cap \<and> length (collected c) < flushBatchSize)"

definition offered :: "'e loop_event list \<Rightarrow> 'e list" where
  "offered evs = List.map_filter (\<lambda>ev. case ev of Offer e \<Rightarrow> Some e | _ \<Rightarrow> None) evs"

lemma offered_simps [simp]:
  "offered [] = []" "offered (xs @ ys) = offered xs @ offered ys"
  "offered [Offer e] = [e]" "offered [Receive] = []" "offered [TimerTick] = []" "offered [StopSignal] = []"
  by (simp_all add: offered_def List.map_filter_def)

lemma accounts_new: "accounts cap repo s0 [] [] (new_collector, s0)"
  by (simp add: accounts_def new_collector_def flushBatchSize_def)

lemma accounts_offer:
  assumes "accounts cap repo s0 os bs (c, s)"
  shows "accounts cap repo s0 (os @ [e]) bs (offer cap e c, s)"
proof (cases "length (queued c) < cap")
  case True
  have "subseq ((concat bs @ collected c @ queued c) @ [e]) (os @ [e])"
    using assms by (intro list_emb_append_mono) (simp_all add: accounts_def)
  with True assms show ?thesis by (simp add: accounts_def offer_def)
next
  case False
  have "subseq ((concat bs @ collected c @ queued c) @ []) (os @ [e])"
    using assms by (intro list_emb_append_mono) (simp_all add: accounts_def)
  with False assms show ?thesis by (simp add: accounts_def offer_def)
qed

lemma accounts_flush:
  assumes "accounts cap repo s0 os bs (c, s)"
  shows "\<exists>bs. accounts cap repo s0 os bs (flush repo (c, s))"
proof (cases "collected c = []")
  case True
  with assms show ?thesis by (auto simp: flush_def)
next
  case False
  then have "1 \<le> length (collected c)" by (cases "collected c") simp_all
  with assms False have "accounts cap repo s0 os (bs @ [collected c]) (flush repo (c, s))"
    by (simp add: accounts_def flush_def)
  then show ?thesis ..
qed

lemma accounts_receive:
  assumes "accounts cap repo s0 os bs (c, s)"
  shows "\<exists>bs. accounts cap repo s0 os bs (receive repo (c, s))"
proof (cases "queued c")
  case Nil
  with assms show ?thesis by (auto simp: receive_def)
next
  case (Cons e es)
  let ?c = "c\<lparr>queued := es, collected := collected c @ [e]\<rparr>"
  show ?thesis
  proof (cases "length (collected c) + 1 < flushBatchSize")
    case True
    with assms Cons have "accounts cap repo s0 os bs (receive repo (c, s))"
      by (simp add: receive_def collect_def Let_def accounts_def)
    then show ?thesis ..
  next
    case False
    with assms Cons have "accounts cap repo s0 os (bs @ [collected c @ [e]]) (receive repo (c, s))"
      by (simp add: receive_def collect_def flush_def Let_def accounts_def)
    then show ?thesis ..
  qed
qed

lemma accounts_receives:
  assumes "accounts cap repo s0 os bs cs"
  shows "\<exists>bs. accounts cap repo s0 os bs ((receive repo ^^ n) cs)"
proof (induction n)
  case 0
  with assms show ?case by auto
next
  case (Suc n)
  then show ?case using accounts_receive by (cases "(receive repo ^^ n) cs") fastforce
qed

lemma accounts_ended: "accounts cap repo s0 os bs (c\<lparr>ended := b\<rparr>, s) = accounts cap repo s0 os bs (c, s)"
  by (simp add: accounts_def)

lemma accounts_step:
  assumes "accounts cap repo s0 os bs (c, s)"
  shows "\<exists>bs. accounts cap repo s0 (os @ offered [ev]) bs (loop_step cap repo ev (c, s))"
proof (cases ev)
  case StopSignal
  obtain bs' where "accounts cap repo s0 os bs' ((receive repo ^^ length (queued c)) (c, s))"
    using accounts_receives [OF assms] by blast
  then obtain bs'' where "accounts cap repo s0 os bs'' (drain repo (c, s))"
    unfolding drain_def by (cases "(receive repo ^^ length (queued c)) (c, s)") (auto dest: accounts_flush)
  with assms StopSignal show ?thesis
    by (auto simp: loop_step_def accounts_ended split: prod.splits)
qed (use assms accounts_offer accounts_receive accounts_flush in \<open>fastforce simp: loop_step_def\<close>)+

lemma run_loop_accounts: "\<exists>bs. accounts cap repo s0 (offered evs) bs (run_loop cap repo evs (new_collector, s0))"
proof (induction evs rule: rev_induct)
  case Nil
  show ?case by (auto simp: run_loop_def intro: accounts_new)
next
  case (snoc ev evs)
  then obtain bs where "accounts cap repo s0 (offered evs) bs (run_loop cap repo evs (new_collector, s0))" by blast
  from accounts_step [of cap repo s0 "offered evs" bs _ _ ev] this show ?case
    by (cases "run_loop cap repo evs (new_collector, s0)") (simp add: run_loop_def)
qed

section \<open>A store that takes every batch\<close>

text \<open>
  \<open>up\<close> says that no write fails. Then the rows of the store, the batch and the queue stay one list while
  the goroutine works, and a drain moves all of it into the store.
\<close>

locale live_writer =
  fixes rw :: "('e, 's) row_writer"
    and up :: "'s \<Rightarrow> bool"
    and rows :: "'s \<Rightarrow> 'e list"
  assumes stays_up: "up s \<Longrightarrow> up (flush_rows (Some rw) es s)"
    and takes_all: "up s \<Longrightarrow> rows (flush_rows (Some rw) es s) = rows s @ es"
begin

definition whole :: "'e list \<Rightarrow> 'e collector \<times> 's \<Rightarrow> bool" where
  "whole es = (\<lambda>(c, s). up s \<and> rows s @ collected c @ queued c = es)"

lemma whole_flush: "whole es (c, s) \<Longrightarrow> whole es (flush (Some rw) (c, s)) \<and> collected (fst (flush (Some rw) (c, s))) = [] \<and>
    queued (fst (flush (Some rw) (c, s))) = queued c"
  by (auto simp: whole_def flush_def stays_up takes_all)

lemma whole_receive: "whole es (c, s) \<Longrightarrow> whole es (receive (Some rw) (c, s)) \<and> queued (fst (receive (Some rw) (c, s))) = tl (queued c)"
  by (auto simp: whole_def receive_def collect_def flush_def Let_def stays_up takes_all split: list.splits)

lemma whole_receives: "whole es cs \<Longrightarrow> whole es ((receive (Some rw) ^^ n) cs) \<and>
    queued (fst ((receive (Some rw) ^^ n) cs)) = drop n (queued (fst cs))"
proof (induction n)
  case (Suc n)
  then show ?case
    using whole_receive [of es "fst ((receive (Some rw) ^^ n) cs)" "snd ((receive (Some rw) ^^ n) cs)"]
    by (simp add: drop_Suc tl_drop)
qed simp

lemma drain_writes_all:
  assumes "up s" and "drain (Some rw) (c, s) = (c', s')"
  shows "up s' \<and> rows s' = rows s @ collected c @ queued c \<and> collected c' = [] \<and> queued c' = []"
proof -
  let ?cs = "(receive (Some rw) ^^ length (queued c)) (c, s)"
  have "whole (rows s @ collected c @ queued c) (c, s)" using assms(1) by (simp add: whole_def)
  then have "whole (rows s @ collected c @ queued c) ?cs" "queued (fst ?cs) = []"
    using whole_receives by force+
  then show ?thesis
    using assms(2) whole_flush [of "rows s @ collected c @ queued c" "fst ?cs" "snd ?cs"]
    by (auto simp: drain_def whole_def)
qed

lemma stop_writes_all:
  assumes "up s" and "\<not> ended c" and "loop_step cap (Some rw) StopSignal (c, s) = (c', s')"
  shows "up s' \<and> rows s' = rows s @ collected c @ queued c \<and> collected c' = [] \<and> queued c' = [] \<and> ended c'"
  using assms drain_writes_all [OF assms(1)] by (auto simp: loop_step_def split: prod.splits)

end

definition log_writer :: "(audit_log, audit_log repo) row_writer" where
  "log_writer = \<lparr>rw_one = (\<lambda>e. LogRepo_Create (Some e)), rw_batch = Some (\<lambda>es. LogRepo_CreateBatch (map Some es))\<rparr>"

definition monitor_writer :: "(monitor_metric, monitor_metric repo) row_writer" where
  "monitor_writer = \<lparr>rw_one = (\<lambda>e. MonitorRepo_Record (Some e)), rw_batch = Some (\<lambda>es. MonitorRepo_RecordBatch (map Some es))\<rparr>"

definition sound :: "'e repo \<Rightarrow> bool" where
  "sound r = (case r of None \<Rightarrow> False | Some t \<Rightarrow> tb_faults t = [])"

lemma create_batch_sound: "sound r \<Longrightarrow> sound (snd (create_batch name (map Some es) r)) \<and>
    entries (snd (create_batch name (map Some es) r)) = entries r @ es"
  by (auto simp: sound_def create_batch_def on_table_def insert_rows_def entries_def Let_def split: option.splits prod.splits if_splits)

interpretation live_logs: live_writer log_writer sound entries
  by unfold_locales (simp_all add: flush_rows_def log_writer_def LogRepo_CreateBatch_def create_batch_sound)

interpretation live_metrics: live_writer monitor_writer sound entries
  by unfold_locales (simp_all add: flush_rows_def monitor_writer_def MonitorRepo_RecordBatch_def create_batch_sound)

section \<open>What the tables hold\<close>

lemma flush_log_writer: "flush_rows (Some log_writer) = (\<lambda>es s. snd (LogRepo_CreateBatch (map Some es) s))"
  by (simp add: flush_rows_def log_writer_def fun_eq_iff)

text \<open>C22. Whatever the callers log, however the goroutine and its timer run, whichever batches the
  database refuses: the batches hold between one and 500 entries, the table gains whole batches in their
  order, and every entry offered is in a batch handed over, in the one being collected, in the queue of at
  most 8192, or counted as dropped, without a duplicate and without a change of order.\<close>

theorem audit_entries_are_accounted_for:
  "case run_loop logBufferSize (Some log_writer) evs (new_collector, r) of (c, r') \<Rightarrow>
     \<exists>bs ws. entries r' = entries r @ concat ws \<and> subseq ws bs \<and> list_all (\<lambda>b. 1 \<le> length b \<and> length b \<le> 500) bs \<and>
       subseq (concat bs @ collected c @ queued c) (offered evs) \<and>
       int (length (offered evs)) = int (length (concat bs)) + int (length (collected c)) + int (length (queued c)) + dropped c \<and>
       length (queued c) \<le> 8192 \<and> length (collected c) < 500"
proof -
  obtain c r' where run: "run_loop logBufferSize (Some log_writer) evs (new_collector, r) = (c, r')" by fastforce
  with run_loop_accounts [of logBufferSize "Some log_writer" r evs] obtain bs
    where bs: "accounts logBufferSize (Some log_writer) r (offered evs) bs (c, r')" by auto
  moreover obtain ws where "subseq ws bs" "entries r' = entries r @ concat ws"
    using bs log_repo.fold_batch_rows [of bs r] by (auto simp: accounts_def flush_log_writer)
  ultimately show ?thesis
    unfolding run prod.case accounts_def
    by - (rule exI [where x = bs], rule exI [where x = ws], simp add: logBufferSize_def flushBatchSize_def)
qed

text \<open>Closing the service while its databases work writes everything that was accepted, the entries
  still in the queues included, in their order, ends both goroutines, and a second close changes nothing.\<close>

theorem closing_writes_what_was_accepted:
  assumes "tb_faults t = []" and "tb_faults m = []" and "\<not> ended (ls_logs sv)" and "\<not> ended (ls_metrics sv)"
    and "CloseService (Some log_writer) (Some monitor_writer) (sv, Some t, Some m) = (sv', r, q)"
  shows "entries r = map snd (tb_rows t) @ collected (ls_logs sv) @ queued (ls_logs sv) \<and>
    entries q = map snd (tb_rows m) @ collected (ls_metrics sv) @ queued (ls_metrics sv) \<and>
    collected (ls_logs sv') = [] \<and> queued (ls_logs sv') = [] \<and> collected (ls_metrics sv') = [] \<and> queued (ls_metrics sv') = [] \<and>
    CloseService (Some log_writer) (Some monitor_writer) (sv', r, q) = (sv', r, q)"
proof -
  obtain c where c: "loop_step logBufferSize (Some log_writer) StopSignal (ls_logs sv, Some t) = (c, r)"
    and "\<exists>d. loop_step metricBufferSize (Some monitor_writer) StopSignal (ls_metrics sv, Some m) = (d, q) \<and>
      sv' = sv\<lparr>ls_logs := c, ls_metrics := d\<rparr>"
    using assms(5) by (auto simp: CloseService_def log_step_def metric_step_def split: prod.splits)
  then obtain d where d: "loop_step metricBufferSize (Some monitor_writer) StopSignal (ls_metrics sv, Some m) = (d, q)"
    and sv': "sv' = sv\<lparr>ls_logs := c, ls_metrics := d\<rparr>" by blast
  show ?thesis
    using live_logs.stop_writes_all [OF _ assms(3) c] live_metrics.stop_writes_all [OF _ assms(4) d] assms(1,2)
    by (simp add: sv' sound_def entries_def CloseService_def log_step_def metric_step_def loop_step_def)
qed

text \<open>A login while the service is up, and the close that follows it.\<close>

definition sample_login :: log_service where
  "sample_login = LogLogin \<lparr>me_user = ''u1'', me_ip = ''10.0.0.1'', me_agent = ''curl''\<rparr> ''password'' ''fail'' ''a@b.c'' ''password_wrong'' []
     (NewLogService True True 0 7)"

definition empty_tab :: "'e tab" where
  "empty_tab = \<lparr>tb_rows = [], tb_next = 1, tb_faults = []\<rparr>"

theorem closing_writes_what_was_accepted_witness:
  "case CloseService (Some log_writer) (Some monitor_writer) (sample_login, Some empty_tab, Some empty_tab) of (sv, r, q) \<Rightarrow>
     map al_fail_reason (entries r) = [''password_wrong''] \<and> map mm_type (entries q) = [''login_fail_count''] \<and> queued (ls_logs sv) = []"
proof -
  let ?x = "CloseService (Some log_writer) (Some monitor_writer) (sample_login, Some empty_tab, Some empty_tab)"
  have open_loops: "\<not> ended (ls_logs sample_login)" "\<not> ended (ls_metrics sample_login)"
    by (simp_all add: sample_login_def LogLogin_def Let_def writeLog_def writeMetric_def offer_def NewLogService_def new_collector_def)
  have held: "map al_fail_reason (collected (ls_logs sample_login) @ queued (ls_logs sample_login)) = [''password_wrong'']"
    "map mm_type (collected (ls_metrics sample_login) @ queued (ls_metrics sample_login)) = [''login_fail_count'']"
    by (simp_all add: sample_login_def LogLogin_def Let_def writeLog_def writeMetric_def offer_def NewLogService_def new_collector_def
        LoginResultSuccess_def logBufferSize_def metricBufferSize_def)
  show ?thesis
    using closing_writes_what_was_accepted [of empty_tab empty_tab sample_login "fst ?x" "fst (snd ?x)" "snd (snd ?x)"] open_loops held
    by (auto simp: empty_tab_def split: prod.splits)
qed

end
