(* ===== verification/Configuration.thy ===== *)
theory Configuration
  imports Token RateLimits Subscription
begin

text \<open>
  The configuration (\<open>internal/config/config.go\<close>) and its manager (\<open>internal/config/manager.go\<close>): the checks
  at start and at each reload, the defaults, the file watch with its delay, and what the accepted values
  mean for the parts that read them. Parsing YAML and the environment is the library's: an argument.
\<close>

section \<open>The configuration\<close>

text \<open>The values the checks and the defaults read; the parts other theories have are theirs.\<close>

record server_config =
  sv_port :: int
  sv_mode :: string
  sv_idle_timeout :: duration
  sv_max_header_bytes :: int
  sv_max_conns_per_ip :: int
  sv_max_conns :: int
  sv_concurrency_limit :: int

record driver_config =
  dr_driver :: string
  dr_mysql_master :: string

record db_config = driver_config +
  dr_postgres_master :: string

record database_config =
  db_business :: db_config
  db_user :: driver_config
  db_monitor :: driver_config
  db_log :: driver_config

record jwt_config =
  jc_algorithm :: string
  jc_signing_key :: string
  jc_issuer :: string
  jc_access_ttl :: duration
  jc_refresh_ttl :: duration

record producer_config =
  pc_queue_size :: int
  pc_max_overflow :: int

record idle_times =
  it_heartbeat :: duration
  it_timeout :: duration
  it_persist :: duration

text \<open>The fields of a consumer that direct reading has no use for.\<close>

record group_fields =
  gf_group :: string
  gf_auto_commit :: bool
  gf_max_poll :: int
  gf_batch_count :: int

record config =
  cf_server :: server_config
  cf_database :: database_config
  cf_jwt :: jwt_config
  cf_max_failures :: int
  cf_ratelimit :: rl_config
  cf_breaker :: cb_config
  cf_idle :: idle_times
  cf_mq :: mq_config
  cf_producer :: producer_config
  cf_consumer :: consumer_config
  cf_group :: group_fields

section \<open>Checks\<close>

definition or_sqlite :: "('a) driver_config_scheme \<Rightarrow> ('a) driver_config_scheme" where
  "or_sqlite d = (if dr_driver d = [] then d\<lparr>dr_driver := ''sqlite''\<rparr> else d)"

definition default_drivers :: "config \<Rightarrow> config" where
  "default_drivers c = c\<lparr>cf_database :=
     (let d = cf_database c in
      \<lparr>db_business = or_sqlite (db_business d), db_user = or_sqlite (db_user d),
       db_monitor = or_sqlite (db_monitor d), db_log = or_sqlite (db_log d)\<rparr>)\<rparr>"

text \<open>The checks in their order, each with the text of its error up to the values it prints.\<close>

definition server_checks :: "server_config \<Rightarrow> (bool \<times> string) list" where
  "server_checks s =
     [(sv_port s \<le> 0 \<or> sv_port s > 65535, ''server.port must be in (0, 65535]''),
      (sv_mode s = [], ''server.mode must not be empty''),
      (sv_max_header_bytes s < 0, ''server.max_header_bytes must be >= 0''),
      (sv_max_conns_per_ip s < 0, ''server.max_conns_per_ip must be >= 0''),
      (sv_max_conns s < 0, ''server.max_conns must be >= 0''),
      (sv_concurrency_limit s < 0, ''server.concurrency_limit must be >= 0'')]"

definition database_checks :: "database_config \<Rightarrow> (bool \<times> string) list" where
  "database_checks d =
     [(dr_driver (db_business d) \<notin> {''mysql'', ''postgres'', ''sqlite''}, ''database.business.driver must be one of mysql/postgres/sqlite''),
      (dr_driver (db_user d) \<notin> {''mongodb'', ''mysql'', ''sqlite''}, ''database.user.driver must be one of mongodb/mysql/sqlite''),
      (dr_driver (db_monitor d) \<notin> {''clickhouse'', ''mysql'', ''sqlite''}, ''database.monitor.driver must be one of clickhouse/mysql/sqlite''),
      (dr_driver (db_log d) \<notin> {''elasticsearch'', ''mysql'', ''sqlite''}, ''database.log.driver must be one of elasticsearch/mysql/sqlite''),
      (dr_driver (db_business d) = ''mysql'' \<and> dr_mysql_master (db_business d) = [], ''database.business.mysql.master must be set when driver=mysql''),
      (dr_driver (db_business d) = ''postgres'' \<and> dr_postgres_master (db_business d) = [], ''database.business.postgres.master must be set when driver=postgres''),
      (dr_driver (db_user d) = ''mysql'' \<and> dr_mysql_master (db_user d) = [], ''database.user.mysql.master must be set when driver=mysql''),
      (dr_driver (db_monitor d) = ''mysql'' \<and> dr_mysql_master (db_monitor d) = [], ''database.monitor.mysql.master must be set when driver=mysql''),
      (dr_driver (db_log d) = ''mysql'' \<and> dr_mysql_master (db_log d) = [], ''database.log.mysql.master must be set when driver=mysql'')]"

definition relation_checks :: "config \<Rightarrow> (bool \<times> string) list" where
  "relation_checks c =
     (let s = cf_server c; i = cf_idle c; cc = cf_consumer c in
     [(sv_idle_timeout s > 0 \<and> it_timeout i > 0 \<and> sv_idle_timeout s < it_timeout i, ''server.idle_timeout must be >= idle.timeout_threshold''),
      (jc_algorithm (cf_jwt c) = ''HS256'' \<and> jc_signing_key (cf_jwt c) = [], ''auth.jwt.signing_key must not be empty for HS256 algorithm''),
      (cf_max_failures c < 0, ''security.account_lock.max_failures must be >= 0''),
      (rl_enabled (cf_ratelimit c) \<and> q_rate (rl_global (cf_ratelimit c)) < 0, ''ratelimit.global.rate must be >= 0''),
      (cb_enabled (cf_breaker c) \<and> (FailureThreshold (cf_breaker c) < 0 \<or> FailureThreshold (cf_breaker c) > 1), ''circuit_breaker.failure_threshold must be in [0, 1]''),
      (it_timeout i > 0 \<and> it_heartbeat i > 0 \<and> it_timeout i < it_heartbeat i, ''idle.timeout_threshold must be >= heartbeat_interval''),
      (mq_type (cf_mq c) = ''kafka'' \<and> cc_instances cc > 1 \<and> (cc_instance cc < 0 \<or> cc_instance cc \<ge> cc_instances cc), ''mq.kafka.consumer.instance_id must be in [0, instance_count)'')])"

definition checks :: "config \<Rightarrow> (bool \<times> string) list" where
  "checks c = server_checks (cf_server c) @ database_checks (cf_database c) @ relation_checks c"

text \<open>The method fills in the drivers in place; an error leaves a configuration nobody uses.\<close>

definition Validate :: "config \<Rightarrow> gerr + config" where
  "Validate c = (let c' = default_drivers c in
     case find fst (checks c') of Some (_, m) \<Rightarrow> Inl (Sentinel m) | None \<Rightarrow> Inr c')"

definition CheckDeadConfig :: "group_fields \<Rightarrow> string list" where
  "CheckDeadConfig g =
     (if gf_group g \<noteq> [] then [''mq.kafka.consumer.group_id is ignored in no-group direct mode''] else []) @
     (if gf_auto_commit g then [''mq.kafka.consumer.enable_auto_commit=true is ignored in no-group direct mode''] else []) @
     (if gf_max_poll g > 0 then [''mq.kafka.consumer.max_poll_records is ignored in no-group direct mode''] else []) @
     (if gf_batch_count g > 0 then [''mq.kafka.consumer.batch_trigger_count is ignored in no-group direct mode''] else [])"

definition HeartbeatPersistIntervalOrDefault :: "idle_times \<Rightarrow> duration" where
  "HeartbeatPersistIntervalOrDefault i = (if it_persist i \<le> 0 then 10 * second else it_persist i)"

section \<open>Loading\<close>

text \<open>\<open>parse\<close> gives what viper reads from the file and the environment, or its error.\<close>

definition producer_defaults :: "producer_config \<Rightarrow> producer_config" where
  "producer_defaults p =
     \<lparr>pc_queue_size = (if pc_queue_size p \<le> 0 then 8192 else pc_queue_size p),
      pc_max_overflow = (if pc_max_overflow p \<le> 0 then 256 else pc_max_overflow p)\<rparr>"

definition loadFromFile :: "('d \<Rightarrow> gerr + config) \<Rightarrow> 'd \<Rightarrow> gerr + config" where
  "loadFromFile parse d = (case parse d of
      Inl e \<Rightarrow> Inl e
    | Inr c \<Rightarrow> Inr (c\<lparr>cf_producer := producer_defaults (cf_producer c)\<rparr>))"

definition LoadConfig :: "('d \<Rightarrow> gerr + config) \<Rightarrow> 'd \<Rightarrow> gerr + config" where
  "LoadConfig parse d = (case loadFromFile parse d of
      Inl e \<Rightarrow> Inl e
    | Inr c \<Rightarrow> (case Validate c of Inl e \<Rightarrow> Inl (Wrap ''config invalid'' e) | Inr c' \<Rightarrow> Inr c'))"

section \<open>The manager\<close>

text \<open>
  The file as it is now, the configuration in use, the version, the deadline of the timer that the file
  watch arms, and the clock.
\<close>

record 'd config_manager =
  mg_file :: 'd
  mg_current :: config
  mg_version :: int
  mg_timer :: "instant option"
  mg_closed :: bool
  mg_now :: instant

definition watchDebounce :: duration where "watchDebounce = 300 * millisecond"

text \<open>\<open>LoadManager\<close> parses on its own: it does not call \<open>loadFromFile\<close>.\<close>

definition LoadManager :: "('d \<Rightarrow> gerr + config) \<Rightarrow> 'd \<Rightarrow> instant \<Rightarrow> gerr + 'd config_manager" where
  "LoadManager parse d t = (case parse d of
      Inl e \<Rightarrow> Inl e
    | Inr c \<Rightarrow> (case Validate c of
        Inl e \<Rightarrow> Inl (Wrap ''config invalid'' e)
      | Inr c' \<Rightarrow> Inr \<lparr>mg_file = d, mg_current = c', mg_version = 0, mg_timer = None, mg_closed = False, mg_now = t\<rparr>))"

definition GetConfig :: "'d config_manager \<Rightarrow> config" where
  "GetConfig m = mg_current m"

definition Version :: "'d config_manager \<Rightarrow> int" where
  "Version m = mg_version m"

definition ReloadConfig :: "('d \<Rightarrow> gerr + config) \<Rightarrow> ('d config_manager, unit) io" where
  "ReloadConfig parse m = (case loadFromFile parse (mg_file m) of
      Inl e \<Rightarrow> (Inl (Wrap ''reload read config failed'' e), m)
    | Inr c \<Rightarrow> (case Validate c of
        Inl e \<Rightarrow> (Inl (Wrap ''reload config invalid, keep old'' e), m)
      | Inr c' \<Rightarrow> (Inr (), m\<lparr>mg_current := c', mg_version := mg_version m + 1\<rparr>)))"

definition scheduleWatchReload :: "'d config_manager \<Rightarrow> 'd config_manager" where
  "scheduleWatchReload m = (if mg_closed m then m else m\<lparr>mg_timer := Some (mg_now m + watchDebounce)\<rparr>)"

definition timer_fires :: "('d \<Rightarrow> gerr + config) \<Rightarrow> 'd config_manager \<Rightarrow> 'd config_manager" where
  "timer_fires parse m = (case mg_timer m of
      None \<Rightarrow> m
    | Some t \<Rightarrow>
        if mg_now m < t then m
        else let m' = m\<lparr>mg_timer := None\<rparr> in if mg_closed m then m' else snd (ReloadConfig parse m'))"

definition CloseManager :: "'d config_manager \<Rightarrow> 'd config_manager" where
  "CloseManager m = m\<lparr>mg_closed := True, mg_timer := None\<rparr>"

text \<open>
  What happens around it: the file is written, the watch reports an event, time passes, the timer runs at
  or after its deadline, and a reload comes by signal or over HTTP.
\<close>

datatype 'd manager_event = Saved 'd | FileEvent | Elapsed nat | TimerRuns | ReloadAsked | Closed

definition manager_step :: "('d \<Rightarrow> gerr + config) \<Rightarrow> 'd manager_event \<Rightarrow> 'd config_manager \<Rightarrow> 'd config_manager" where
  "manager_step parse ev m = (case ev of
      Saved d \<Rightarrow> m\<lparr>mg_file := d\<rparr>
    | FileEvent \<Rightarrow> scheduleWatchReload m
    | Elapsed n \<Rightarrow> m\<lparr>mg_now := mg_now m + int n\<rparr>
    | TimerRuns \<Rightarrow> timer_fires parse m
    | ReloadAsked \<Rightarrow> snd (ReloadConfig parse m)
    | Closed \<Rightarrow> CloseManager m)"

definition run_manager :: "('d \<Rightarrow> gerr + config) \<Rightarrow> 'd manager_event list \<Rightarrow> 'd config_manager \<Rightarrow> 'd config_manager" where
  "run_manager parse evs m = fold (manager_step parse) evs m"

section \<open>The readers of the configuration\<close>

text \<open>\<open>NewKafkaProducer\<close>: the length of its queue and the number of its overflow workers.\<close>

definition kafka_capacities :: "producer_config \<Rightarrow> int \<times> int" where
  "kafka_capacities p =
     (if pc_queue_size p \<le> 0 then 8192 else pc_queue_size p,
      if pc_max_overflow p < 0 then 256 else pc_max_overflow p)"

text \<open>\<open>loaded\<close> is what reading the key files gives.\<close>

definition initJWT :: "config \<Rightarrow> gerr + string \<times> string \<Rightarrow> gerr + jwt_manager" where
  "initJWT c loaded = (let j = cf_jwt c in
     NewManager (jc_algorithm j) (jc_signing_key j) loaded (jc_issuer j) (jc_access_ttl j) (jc_refresh_ttl j))"

section \<open>Accepted configurations\<close>

lemma or_sqlite_idem [simp]: "or_sqlite (or_sqlite d) = or_sqlite d"
  by (simp add: or_sqlite_def)

lemma default_drivers_idem [simp]: "default_drivers (default_drivers c) = default_drivers c"
  by (simp add: default_drivers_def Let_def)

lemma default_drivers_simps [simp]:
  "cf_server (default_drivers c) = cf_server c" "cf_mq (default_drivers c) = cf_mq c"
  "cf_producer (default_drivers c) = cf_producer c" "cf_consumer (default_drivers c) = cf_consumer c"
  "cf_idle (default_drivers c) = cf_idle c" "cf_jwt (default_drivers c) = cf_jwt c"
  by (simp_all add: default_drivers_def)

lemma Validate_Inr: "Validate c = Inr c' \<longleftrightarrow> c' = default_drivers c \<and> list_all (\<lambda>x. \<not> fst x) (checks c')"
  by (auto simp: Validate_def Let_def find_None_iff find_Some_iff list_all_iff split: option.splits)

lemma Validate_idem: "Validate c = Inr c' \<Longrightarrow> Validate c' = Inr c'"
  by (auto simp: Validate_Inr)

lemma Validate_checks:
  assumes "Validate c = Inr c'"
  shows "list_all (\<lambda>x. \<not> fst x) (server_checks (cf_server c'))" "list_all (\<lambda>x. \<not> fst x) (database_checks (cf_database c'))"
    "list_all (\<lambda>x. \<not> fst x) (relation_checks c')"
  using assms unfolding Validate_Inr checks_def list_all_append by blast+

text \<open>The values of an accepted configuration lie where the code that reads them expects them: the port, the
limits, the drivers with their addresses, the order of the timeouts, the threshold of the breakers.\<close>

theorem accepted_config_is_usable:
  assumes "Validate c = Inr c'"
  shows "0 < sv_port (cf_server c') \<and> sv_port (cf_server c') \<le> 65535 \<and> 0 \<le> sv_max_conns (cf_server c') \<and>
    0 \<le> sv_max_conns_per_ip (cf_server c') \<and> 0 \<le> sv_concurrency_limit (cf_server c') \<and>
    dr_driver (db_business (cf_database c')) \<in> {''mysql'', ''postgres'', ''sqlite''} \<and>
    (dr_driver (db_business (cf_database c')) = ''mysql'' \<longrightarrow> dr_mysql_master (db_business (cf_database c')) \<noteq> []) \<and>
    (0 < it_heartbeat (cf_idle c') \<and> 0 < it_timeout (cf_idle c') \<longrightarrow> it_heartbeat (cf_idle c') \<le> it_timeout (cf_idle c')) \<and>
    (0 < it_timeout (cf_idle c') \<and> 0 < sv_idle_timeout (cf_server c') \<longrightarrow> it_timeout (cf_idle c') \<le> sv_idle_timeout (cf_server c')) \<and>
    (cb_enabled (cf_breaker c') \<longrightarrow> 0 \<le> FailureThreshold (cf_breaker c') \<and> FailureThreshold (cf_breaker c') \<le> 1)"
proof -
  note cs = Validate_checks [OF assms]
  have "0 < sv_port (cf_server c') \<and> sv_port (cf_server c') \<le> 65535 \<and> 0 \<le> sv_max_conns (cf_server c') \<and>
      0 \<le> sv_max_conns_per_ip (cf_server c') \<and> 0 \<le> sv_concurrency_limit (cf_server c')"
    using cs(1) by (simp add: server_checks_def)
  moreover have "dr_driver (db_business (cf_database c')) \<in> {''mysql'', ''postgres'', ''sqlite''} \<and>
      (dr_driver (db_business (cf_database c')) = ''mysql'' \<longrightarrow> dr_mysql_master (db_business (cf_database c')) \<noteq> [])"
    using cs(2) unfolding database_checks_def list.pred_inject fst_conv by metis
  moreover have "(0 < it_heartbeat (cf_idle c') \<and> 0 < it_timeout (cf_idle c') \<longrightarrow> it_heartbeat (cf_idle c') \<le> it_timeout (cf_idle c')) \<and>
      (0 < it_timeout (cf_idle c') \<and> 0 < sv_idle_timeout (cf_server c') \<longrightarrow> it_timeout (cf_idle c') \<le> sv_idle_timeout (cf_server c'))"
    using cs(3) unfolding relation_checks_def Let_def list.pred_inject fst_conv by linarith
  moreover have "cb_enabled (cf_breaker c') \<longrightarrow> 0 \<le> FailureThreshold (cf_breaker c') \<and> FailureThreshold (cf_breaker c') \<le> 1"
    using cs(3) unfolding relation_checks_def Let_def list.pred_inject fst_conv by linarith
  ultimately show ?thesis by blast
qed

lemma accepted_instance_in_range:
  assumes "Validate c = Inr c'" and "mq_type (cf_mq c') = ''kafka''" and "1 < cc_instances (cf_consumer c')"
  shows "0 \<le> cc_instance (cf_consumer c') \<and> cc_instance (cf_consumer c') < cc_instances (cf_consumer c')"
  using Validate_checks(3) [OF assms(1)] assms(2,3) by (simp add: relation_checks_def Let_def)

text \<open>Two accepted configurations of one installation on Kafka with different instance numbers never
share a partition.\<close>

theorem accepted_instances_are_disjoint:
  assumes "Validate c = Inr c'" and "Validate d = Inr d'"
    and "mq_type (cf_mq c') = ''kafka''" and "mq_type (cf_mq d') = ''kafka''"
    and "cc_instances (cf_consumer c') = n" and "cc_instances (cf_consumer d') = n" and "1 < n"
    and "cc_instance (cf_consumer c') \<noteq> cc_instance (cf_consumer d')"
  shows "set (assignPartitions (cf_consumer c') parts) \<inter> set (assignPartitions (cf_consumer d') parts) = {}"
  using accepted_instance_in_range [OF assms(1,3)] accepted_instance_in_range [OF assms(2,4)] assms(5-8)
  by (auto simp: assignPartitions_def Let_def)

section \<open>The manager keeps an accepted configuration\<close>

definition saved :: "'d manager_event list \<Rightarrow> 'd list" where
  "saved evs = List.map_filter (\<lambda>ev. case ev of Saved d \<Rightarrow> Some d | _ \<Rightarrow> None) evs"

lemma saved_snoc: "saved (evs @ [ev]) = saved evs @ (case ev of Saved d \<Rightarrow> [d] | _ \<Rightarrow> [])"
  by (simp add: saved_def List.map_filter_def split: manager_event.splits)

text \<open>\<open>from_files\<close>: the configuration came out of one of the files.\<close>

definition from_files :: "('d \<Rightarrow> gerr + config) \<Rightarrow> 'd list \<Rightarrow> 'd config_manager \<Rightarrow> bool" where
  "from_files parse ds m \<longleftrightarrow> Validate (mg_current m) = Inr (mg_current m) \<and> mg_file m \<in> set ds \<and> 0 \<le> mg_version m \<and>
     (0 < mg_version m \<longrightarrow> (\<exists>d\<in>set ds. \<exists>c. loadFromFile parse d = Inr c \<and> Validate c = Inr (mg_current m)))"

lemma from_files_reload: "from_files parse ds m \<Longrightarrow> from_files parse ds (snd (ReloadConfig parse m))"
  by (auto simp: from_files_def ReloadConfig_def dest: Validate_idem split: sum.splits)

lemma from_files_step:
  assumes "from_files parse ds m"
  shows "from_files parse (ds @ (case ev of Saved d \<Rightarrow> [d] | _ \<Rightarrow> [])) (manager_step parse ev m)"
proof (cases ev)
  case (Saved d)
  with assms show ?thesis by (auto simp: manager_step_def from_files_def)
next
  case TimerRuns
  have "from_files parse ds (m\<lparr>mg_timer := None\<rparr>)" using assms by (simp add: from_files_def)
  then have "from_files parse ds (snd (ReloadConfig parse (m\<lparr>mg_timer := None\<rparr>)))" by (rule from_files_reload)
  with TimerRuns assms \<open>from_files parse ds (m\<lparr>mg_timer := None\<rparr>)\<close> show ?thesis
    by (simp add: manager_step_def timer_fires_def Let_def split: option.splits)
next
  case ReloadAsked
  with from_files_reload [OF assms] show ?thesis by (simp add: manager_step_def)
qed (use assms in \<open>simp_all add: manager_step_def from_files_def scheduleWatchReload_def CloseManager_def\<close>)

lemma run_manager_from_files: "from_files parse [mg_file m] m \<Longrightarrow> from_files parse (mg_file m # saved evs) (run_manager parse evs m)"
proof (induction evs rule: rev_induct)
  case (snoc ev evs)
  then show ?case
    using from_files_step [of parse "mg_file m # saved evs" "run_manager parse evs m" ev] by (simp add: saved_snoc run_manager_def)
qed (simp add: saved_def run_manager_def List.map_filter_def)

text \<open>C20. Once the process has started, the configuration in use is one that the checks accept, whatever is
written to the file, however reloads are asked for and fail; after a reload it is what some version of the
file says.\<close>

theorem current_config_is_accepted:
  assumes "LoadManager parse d t = Inr m"
  shows "Validate (GetConfig (run_manager parse evs m)) = Inr (GetConfig (run_manager parse evs m)) \<and>
    0 \<le> Version (run_manager parse evs m) \<and>
    (0 < Version (run_manager parse evs m) \<longrightarrow>
      (\<exists>d'\<in>set (d # saved evs). \<exists>c. loadFromFile parse d' = Inr c \<and> Validate c = Inr (GetConfig (run_manager parse evs m))))"
proof -
  have m: "mg_file m = d" "from_files parse [mg_file m] m"
    using assms by (auto simp: LoadManager_def from_files_def dest: Validate_idem split: sum.splits)
  from run_manager_from_files [OF m(2), of evs] m(1) show ?thesis
    by (simp add: from_files_def GetConfig_def Version_def)
qed

section \<open>A burst of file events\<close>

definition burst :: "nat list \<Rightarrow> 'd manager_event list" where
  "burst ns = concat (map (\<lambda>n. [FileEvent, Elapsed n, TimerRuns]) ns)"

lemma burst_waits:
  assumes "\<not> mg_closed m" and "list_all (\<lambda>n. int n < watchDebounce) ns"
  shows "\<exists>tm t. run_manager parse (burst ns) m = m\<lparr>mg_timer := tm, mg_now := t\<rparr>"
  using assms
proof (induction ns arbitrary: m)
  case Nil
  then show ?case by (intro exI [of _ "mg_timer m"] exI [of _ "mg_now m"]) (simp add: burst_def run_manager_def)
next
  case (Cons n ns)
  let ?m = "m\<lparr>mg_timer := Some (mg_now m + watchDebounce), mg_now := mg_now m + int n\<rparr>"
  have "run_manager parse (burst (n # ns)) m = run_manager parse (burst ns) ?m"
    using Cons.prems by (simp add: burst_def run_manager_def manager_step_def scheduleWatchReload_def timer_fires_def)
  with Cons show ?case using Cons.IH [of ?m] by auto
qed

text \<open>C21. A file that is written with any burst of events takes effect in exactly one reload, once the file has been
quiet for the delay; when it is not accepted the configuration and the version stay.\<close>

theorem saved_file_takes_effect:
  assumes "\<not> mg_closed m" and "list_all (\<lambda>n. int n < watchDebounce) ns" and "watchDebounce \<le> int n"
    and "run_manager parse (Saved d # burst ns @ [FileEvent, Elapsed n, TimerRuns]) m = m'"
  shows "(case LoadConfig parse d of
      Inl e \<Rightarrow> GetConfig m' = GetConfig m \<and> Version m' = Version m
    | Inr c \<Rightarrow> GetConfig m' = c \<and> Version m' = Version m + 1) \<and> mg_timer m' = None"
proof -
  obtain tm t where b: "run_manager parse (burst ns) (m\<lparr>mg_file := d\<rparr>) = m\<lparr>mg_file := d, mg_timer := tm, mg_now := t\<rparr>"
    using burst_waits [of "m\<lparr>mg_file := d\<rparr>" ns parse] assms(1,2) by auto
  have "m' = snd (ReloadConfig parse (m\<lparr>mg_file := d, mg_now := t + int n, mg_timer := None\<rparr>))"
    using assms(1,3) b unfolding assms(4) [symmetric]
    by (simp add: run_manager_def manager_step_def scheduleWatchReload_def timer_fires_def)
  then show ?thesis
    by (auto simp: ReloadConfig_def LoadConfig_def GetConfig_def Version_def split: sum.splits)
qed

section \<open>What the checks let through\<close>

definition local_config :: config where
  "local_config = \<lparr>
     cf_server = \<lparr>sv_port = 8080, sv_mode = ''debug'', sv_idle_timeout = 0, sv_max_header_bytes = 0, sv_max_conns_per_ip = 0,
       sv_max_conns = 0, sv_concurrency_limit = 0\<rparr>,
     cf_database = \<lparr>db_business = \<lparr>dr_driver = ''sqlite'', dr_mysql_master = [], dr_postgres_master = []\<rparr>,
       db_user = \<lparr>dr_driver = ''sqlite'', dr_mysql_master = []\<rparr>, db_monitor = \<lparr>dr_driver = ''sqlite'', dr_mysql_master = []\<rparr>,
       db_log = \<lparr>dr_driver = ''sqlite'', dr_mysql_master = []\<rparr>\<rparr>,
     cf_jwt = \<lparr>jc_algorithm = ''HS256'', jc_signing_key = ''secret'', jc_issuer = ''hc'', jc_access_ttl = hour, jc_refresh_ttl = hour\<rparr>,
     cf_max_failures = 5,
     cf_ratelimit = \<lparr>rl_enabled = False, rl_whitelist = [], rl_exempt_paths = [], rl_global = \<lparr>q_enabled = False, q_rate = 0, q_burst = 0\<rparr>,
       rl_per_user = \<lparr>q_enabled = False, q_rate = 0, q_burst = 0\<rparr>, rl_per_ip = \<lparr>q_enabled = False, q_rate = 0, q_burst = 0\<rparr>\<rparr>,
     cf_breaker = \<lparr>cb_enabled = False, FailureThreshold = 0, HalfOpenMaxRequests = 0, cb_interval = 0, cb_timeout = 0\<rparr>,
     cf_idle = \<lparr>it_heartbeat = 0, it_timeout = 0, it_persist = 0\<rparr>,
     cf_mq = \<lparr>mq_type = ''kafka'', mq_brokers = [''localhost:9092''], mq_rabbit_url = [], mq_endpoints = [], mq_group = [], mq_kafka_group = [],
       mq_kafka_mode = [], mq_kafka_retry = (0, 0, 0), mq_retry = (0, 0, 0), mq_concurrency = 0\<rparr>,
     cf_producer = \<lparr>pc_queue_size = 0, pc_max_overflow = 0\<rparr>,
     cf_consumer = \<lparr>cc_retry_max = 0, cc_retry_base = 0, cc_retry_limit = 0, cc_ordered = True, cc_dlq_path = [], cc_instances = 2, cc_instance = 1, cc_latest = False\<rparr>,
     cf_group = \<lparr>gf_group = [], gf_auto_commit = False, gf_max_poll = 0, gf_batch_count = 0\<rparr>\<rparr>"

lemma local_config_accepted: "Validate local_config = Inr local_config"
  by (simp add: Validate_def Let_def default_drivers_def or_sqlite_def local_config_def
      checks_def server_checks_def database_checks_def relation_checks_def)

text \<open>The check of the instance number compares the type of the queue letter by letter, the code that makes the
consumer does not: an accepted configuration may have a consumer on Kafka whose number is out of range, and
which reads all partitions, those of the other instances too.\<close>

theorem misspelled_kafka_reads_everything:
  "\<exists>c. Validate c = Inr c \<and> NewConsumer (cf_mq c) = Inr Kafka \<and> 1 < cc_instances (cf_consumer c) \<and>
     (\<forall>parts. assignPartitions (cf_consumer c) parts = parts)"
proof -
  let ?c = "local_config\<lparr>cf_mq := (cf_mq local_config)\<lparr>mq_type := ''Kafka''\<rparr>, cf_consumer := (cf_consumer local_config)\<lparr>cc_instance := 2\<rparr>\<rparr>"
  have "Validate ?c = Inr ?c"
    by (simp add: Validate_def Let_def default_drivers_def or_sqlite_def local_config_def
        checks_def server_checks_def database_checks_def relation_checks_def)
  moreover have "ToLower (TrimSpace ''Kafka'') = ''kafka''" by code_simp
  then have "NewConsumer (cf_mq ?c) = Inr Kafka"
    by (simp add: NewConsumer_def kind_word_def NewKafkaConsumer_def local_config_def ToLower_def)
  ultimately show ?thesis
    by (intro exI [of _ ?c]) (simp add: local_config_def assignPartitions_def)
qed

text \<open>Only the algorithm spelled HS256 needs a key, and every algorithm but RS256 signs with HMAC: an accepted
configuration may sign and check tokens with the empty key, which everybody knows.\<close>

theorem empty_key_is_accepted:
  "\<exists>c m. Validate c = Inr c \<and> initJWT c loaded = Inr m \<and> sign_method_of m = MethodHMAC \<and> sign_key_of m = HmacKey [] \<and>
     keyFunc m MethodHMAC = Inr (HmacKey [])"
proof -
  let ?c = "local_config\<lparr>cf_jwt := (cf_jwt local_config)\<lparr>jc_algorithm := [], jc_signing_key := []\<rparr>\<rparr>"
  have "Validate ?c = Inr ?c"
    by (simp add: Validate_def Let_def default_drivers_def or_sqlite_def local_config_def
        checks_def server_checks_def database_checks_def relation_checks_def)
  then show ?thesis
    by (intro exI [of _ ?c]) (simp add: local_config_def initJWT_def Let_def NewManager_def sign_method_of_def sign_key_of_def keyFunc_def)
qed

text \<open>A configuration that leaves out the number of overflow workers starts without any and after a reload
says 256, as only one of the two ways to read the file fills in the default.\<close>

theorem start_and_reload_differ:
  assumes "parse d = Inr c" and "Validate c = Inr c'" and "pc_max_overflow (cf_producer c) = 0"
  shows "\<exists>m. LoadManager parse d t = Inr m \<and> snd (kafka_capacities (cf_producer (GetConfig m))) = 0 \<and>
    snd (kafka_capacities (cf_producer (GetConfig (snd (ReloadConfig parse m))))) = 256"
proof -
  let ?c = "c\<lparr>cf_producer := producer_defaults (cf_producer c)\<rparr>"
  have same: "checks (default_drivers ?c) = checks (default_drivers c)" "cf_producer c' = cf_producer c"
    using assms(2) by (simp_all add: checks_def relation_checks_def default_drivers_def Validate_Inr Let_def)
  then have "Validate ?c = Inr (default_drivers ?c)"
    using assms(2) by (auto simp: Validate_Inr)
  then show ?thesis
    using assms same by (simp add: LoadManager_def GetConfig_def ReloadConfig_def loadFromFile_def kafka_capacities_def producer_defaults_def)
qed

section \<open>Witnesses\<close>

theorem start_and_reload_differ_witness:
  "\<exists>m. LoadManager (\<lambda>d. Inr d) local_config 0 = Inr m \<and> snd (kafka_capacities (cf_producer (GetConfig m))) = 0 \<and>
    snd (kafka_capacities (cf_producer (GetConfig (snd (ReloadConfig (\<lambda>d. Inr d) m))))) = 256"
  by (rule start_and_reload_differ [where c = local_config, OF _ local_config_accepted]) (simp_all add: local_config_def)

theorem accepted_config_is_usable_witness: "0 < sv_port (cf_server local_config)"
  using accepted_config_is_usable [OF local_config_accepted] by blast

theorem accepted_instances_are_disjoint_witness:
  "set (assignPartitions (cf_consumer local_config) [0, 1, 2]) \<inter>
   set (assignPartitions (cf_consumer (local_config\<lparr>cf_consumer := (cf_consumer local_config)\<lparr>cc_instance := 0\<rparr>\<rparr>)) [0, 1, 2]) = {}"
proof (rule accepted_instances_are_disjoint [where n = 2, OF local_config_accepted])
  let ?d = "local_config\<lparr>cf_consumer := (cf_consumer local_config)\<lparr>cc_instance := 0\<rparr>\<rparr>"
  show "Validate ?d = Inr ?d"
    by (simp add: Validate_def Let_def default_drivers_def or_sqlite_def local_config_def
        checks_def server_checks_def database_checks_def relation_checks_def)
qed (simp_all add: local_config_def)

text \<open>A start, then a file with the port 0 that the watch reports twice.\<close>

definition started :: "config config_manager" where
  "started = \<lparr>mg_file = local_config, mg_current = local_config, mg_version = 0, mg_timer = None, mg_closed = False, mg_now = 0\<rparr>"

lemma started_loads: "LoadManager (\<lambda>d. Inr d) local_config 0 = Inr started"
  by (simp add: LoadManager_def local_config_accepted started_def)

definition bad_port :: config where
  "bad_port = local_config\<lparr>cf_server := (cf_server local_config)\<lparr>sv_port := 0\<rparr>\<rparr>"

theorem current_config_is_accepted_witness:
  "Validate (GetConfig (run_manager (\<lambda>d. Inr d) [Saved bad_port, ReloadAsked] started)) =
   Inr (GetConfig (run_manager (\<lambda>d. Inr d) [Saved bad_port, ReloadAsked] started))"
  using current_config_is_accepted [OF started_loads, of "[Saved bad_port, ReloadAsked]"] by blast

theorem saved_file_takes_effect_witness:
  "GetConfig (run_manager (\<lambda>d. Inr d) (Saved bad_port # burst [1000] @ [FileEvent, Elapsed 400000000, TimerRuns]) started) = local_config"
proof -
  have "Validate (bad_port\<lparr>cf_producer := p\<rparr>) = Inl (Sentinel ''server.port must be in (0, 65535]'')" for p
    by (simp add: Validate_def Let_def checks_def server_checks_def bad_port_def local_config_def)
  then have "LoadConfig (\<lambda>d. Inr d) bad_port = Inl (Wrap ''config invalid'' (Sentinel ''server.port must be in (0, 65535]''))"
    by (simp add: LoadConfig_def loadFromFile_def)
  then show ?thesis
    using saved_file_takes_effect [OF _ _ _ refl, of started "[1000]" 400000000 "\<lambda>d. Inr d" bad_port]
    by (simp add: started_def watchDebounce_def millisecond_def GetConfig_def)
qed

end
