(* ===== verification/WebSocket.thy ===== *)
theory WebSocket
  imports Prelude "HOL-Library.Sublist"
begin

text \<open>
  The hub of the push connections (\<open>internal/handler/ws_handler.go\<close>): its channels, the buffer and the two
  goroutines of every connection, and the loop that serves the channels in an order of its own choice.
  The library's connections are reduced to what is read from them, what is written, and failures.
\<close>

section \<open>State\<close>

definition sendBufSize :: nat where "sendBufSize = 64"
definition channelSize :: nat where "channelSize = 256"

text \<open>The answer to a ping, a message, and the control frames of \<open>writePump\<close>: a ping of its ticker and the close.\<close>

datatype frame = Pong | Push string | KeepAlive | CloseFrame

text \<open>A connection: \<open>reading\<close> and \<open>writing\<close> say that its goroutines run, \<open>written\<close> is what the peer was sent.\<close>

record ws_client =
  wc_user :: string
  wc_send :: "frame list"
  wc_closed :: bool
  wc_topics :: "string set"
  reading :: bool
  writing :: bool
  written :: "frame list"

definition newWSClient :: "string \<Rightarrow> ws_client" where
  "newWSClient u = \<lparr>wc_user = u, wc_send = [], wc_closed = False, wc_topics = {}, reading = True, writing = True, written = []\<rparr>"

text \<open>
  Connections are numbered in the order of their upgrade, \<open>conns\<close> holds all of them. A panic in a goroutine
  ends the process: nothing happens after it. A user without connections has no entry in \<open>clients\<close>, here
  the empty list.
\<close>

record hub =
  conns :: "ws_client list"
  clients :: "string \<Rightarrow> nat list"
  register :: "nat list"
  unregister :: "nat list"
  broadcast :: "string list"
  stopped :: bool
  panicked :: bool

definition NewWebSocketHub :: hub where
  "NewWebSocketHub = \<lparr>conns = [], clients = (\<lambda>u. []), register = [], unregister = [], broadcast = [], stopped = False, panicked = False\<rparr>"

definition on_conn :: "nat \<Rightarrow> (ws_client \<Rightarrow> ws_client) \<Rightarrow> hub \<Rightarrow> hub" where
  "on_conn i f h = h\<lparr>conns := (conns h)[i := f (conns h ! i)]\<rparr>"

section \<open>Channels\<close>

text \<open>A send that does not wait: it panics on a closed channel and does nothing on a full one.\<close>

definition try_send :: "frame \<Rightarrow> nat \<Rightarrow> hub \<Rightarrow> hub" where
  "try_send x i h =
     (if wc_closed (conns h ! i) then h\<lparr>panicked := True\<rparr>
      else if length (wc_send (conns h ! i)) < sendBufSize then on_conn i (\<lambda>c. c\<lparr>wc_send := wc_send c @ [x]\<rparr>) h
      else h)"

definition close_send :: "nat \<Rightarrow> hub \<Rightarrow> hub" where
  "close_send i h = (if wc_closed (conns h ! i) then h\<lparr>panicked := True\<rparr> else on_conn i (\<lambda>c. c\<lparr>wc_closed := True\<rparr>) h)"

definition sendJSON :: "frame \<Rightarrow> nat \<Rightarrow> hub \<Rightarrow> hub" where
  "sendJSON = try_send"

section \<open>The hub\<close>

text \<open>\<open>Run\<close> walks the map of users in any order, here in that of the connections.\<close>

definition online :: "hub \<Rightarrow> nat list" where
  "online h = filter (\<lambda>i. i \<in> set (clients h (wc_user (conns h ! i)))) [0..<length (conns h)]"

definition removeClient :: "nat \<Rightarrow> hub \<Rightarrow> hub" where
  "removeClient i h = (let u = wc_user (conns h ! i) in
     close_send i (h\<lparr>clients := (clients h)(u := remove1 i (clients h u))\<rparr>))"

definition closeAll :: "hub \<Rightarrow> hub" where
  "closeAll h = (fold close_send (online h) h)\<lparr>clients := (\<lambda>u. [])\<rparr>"

definition SendToUser :: "string \<Rightarrow> string \<Rightarrow> hub \<Rightarrow> hub" where
  "SendToUser u msg h = fold (try_send (Push msg)) (clients h u) h"

definition Broadcast :: "string \<Rightarrow> hub \<Rightarrow> hub" where
  "Broadcast msg h = (if length (broadcast h) < channelSize then h\<lparr>broadcast := broadcast h @ [msg]\<rparr> else h)"

definition OnlineCount :: "hub \<Rightarrow> nat" where
  "OnlineCount h = length (online h)"

text \<open>The cases of the loop of \<open>Run\<close>; it takes from any channel that has something.\<close>

datatype hub_case = Done | Register | Unregister | SendBroadcast

definition hub_takes :: "hub_case \<Rightarrow> hub \<Rightarrow> hub" where
  "hub_takes k h =
     (if stopped h then h
      else (case k of
        Done \<Rightarrow> (closeAll h)\<lparr>stopped := True\<rparr>
      | Register \<Rightarrow> (case register h of
          [] \<Rightarrow> h
        | i # is \<Rightarrow> (let u = wc_user (conns h ! i) in h\<lparr>register := is, clients := (clients h)(u := clients h u @ [i])\<rparr>))
      | Unregister \<Rightarrow> (case unregister h of [] \<Rightarrow> h | i # is \<Rightarrow> removeClient i (h\<lparr>unregister := is\<rparr>))
      | SendBroadcast \<Rightarrow> (case broadcast h of
          [] \<Rightarrow> h
        | msg # ms \<Rightarrow> (let h' = h\<lparr>broadcast := ms\<rparr> in fold (try_send (Push msg)) (online h') h'))))"

section \<open>Connections\<close>

text \<open>\<open>None\<close>: the upgrade is refused, or it waits because the channel is full.\<close>

definition Upgrade :: "string \<Rightarrow> hub \<Rightarrow> hub option" where
  "Upgrade u h =
     (if u = [] \<or> u = ''anonymous'' then None
      else if length (register h) < channelSize
        then Some (h\<lparr>conns := conns h @ [newWSClient u], register := register h @ [length (conns h)]\<rparr>)
      else None)"

text \<open>What the peer sends: text that is no JSON object has no effect, like a type the code does not know.\<close>

datatype ws_message = Ping | Subscribe "string list" | Unknown

definition read_message :: "ws_message \<Rightarrow> nat \<Rightarrow> hub \<Rightarrow> hub" where
  "read_message msg i h = (case msg of
      Ping \<Rightarrow> sendJSON Pong i h
    | Subscribe ts \<Rightarrow> on_conn i (\<lambda>c. c\<lparr>wc_topics := wc_topics c \<union> set ts\<rparr>) h
    | Unknown \<Rightarrow> h)"

text \<open>The end of \<open>readPump\<close>: the send on the channel waits while it is full.\<close>

definition read_ends :: "nat \<Rightarrow> hub \<Rightarrow> hub" where
  "read_ends i h =
     (if length (unregister h) < channelSize then (on_conn i (\<lambda>c. c\<lparr>reading := False\<rparr>) h)\<lparr>unregister := unregister h @ [i]\<rparr> else h)"

text \<open>One round of \<open>writePump\<close>, for the buffer or for the ticker; \<open>ok\<close> says whether the write succeeds. After the
close frame, written or not, the goroutine ends.\<close>

definition write_message :: "bool \<Rightarrow> ws_client \<Rightarrow> ws_client" where
  "write_message ok c = (case wc_send c of
      x # xs \<Rightarrow> (if ok then c\<lparr>wc_send := xs, written := written c @ [x]\<rparr> else c\<lparr>wc_send := xs, writing := False\<rparr>)
    | [] \<Rightarrow> if wc_closed c then c\<lparr>written := written c @ (if ok then [CloseFrame] else []), writing := False\<rparr> else c)"

definition write_ping :: "bool \<Rightarrow> ws_client \<Rightarrow> ws_client" where
  "write_ping ok c = (if ok then c\<lparr>written := written c @ [KeepAlive]\<rparr> else c\<lparr>writing := False\<rparr>)"

section \<open>Runs\<close>

datatype ws_event =
    Connects string
  | Hub hub_case
  | Reads nat ws_message
  | ReadEnds nat
  | Writes nat bool
  | Ticks nat bool
  | ToUser string string
  | ToAll string

definition ws_step :: "ws_event \<Rightarrow> hub \<Rightarrow> hub" where
  "ws_step ev h =
     (if panicked h then h
      else (case ev of
        Connects u \<Rightarrow> (case Upgrade u h of None \<Rightarrow> h | Some h' \<Rightarrow> h')
      | Hub k \<Rightarrow> hub_takes k h
      | Reads i msg \<Rightarrow> (if i < length (conns h) \<and> reading (conns h ! i) then read_message msg i h else h)
      | ReadEnds i \<Rightarrow> (if i < length (conns h) \<and> reading (conns h ! i) then read_ends i h else h)
      | Writes i ok \<Rightarrow> (if i < length (conns h) \<and> writing (conns h ! i) then on_conn i (write_message ok) h else h)
      | Ticks i ok \<Rightarrow> (if i < length (conns h) \<and> writing (conns h ! i) then on_conn i (write_ping ok) h else h)
      | ToUser u msg \<Rightarrow> SendToUser u msg h
      | ToAll msg \<Rightarrow> Broadcast msg h))"

definition run_ws :: "ws_event list \<Rightarrow> hub \<Rightarrow> hub" where
  "run_ws evs h = fold ws_step evs h"

section \<open>Messages reach only their user\<close>

text \<open>The messages sent to a user and those sent to everybody.\<close>

fun sent_to :: "string \<Rightarrow> ws_event list \<Rightarrow> string set" where
  "sent_to u [] = {}"
| "sent_to u (ToUser v msg # evs) = (if u = v then insert msg (sent_to u evs) else sent_to u evs)"
| "sent_to u (ToAll msg # evs) = insert msg (sent_to u evs)"
| "sent_to u (ev # evs) = sent_to u evs"

fun sent_to_all :: "ws_event list \<Rightarrow> string set" where
  "sent_to_all [] = {}"
| "sent_to_all (ToAll msg # evs) = insert msg (sent_to_all evs)"
| "sent_to_all (ev # evs) = sent_to_all evs"

text \<open>
  \<open>A u\<close> are the messages the user \<open>u\<close> may be sent. What a connection was sent and what waits in its buffer is
  allowed for its user, and the lists of the hub hold the connections under their users.
\<close>

definition good :: "(string \<Rightarrow> string set) \<Rightarrow> ws_client \<Rightarrow> bool" where
  "good A c \<longleftrightarrow> set (written c @ wc_send c) \<subseteq> {Pong, KeepAlive, CloseFrame} \<union> Push ` A (wc_user c)"

definition sorted_in :: "hub \<Rightarrow> bool" where
  "sorted_in h \<longleftrightarrow> (\<forall>u. \<forall>i\<in>set (clients h u). i < length (conns h) \<and> wc_user (conns h ! i) = u) \<and>
     (\<forall>i\<in>set (register h) \<union> set (unregister h). i < length (conns h))"

definition delivers :: "(string \<Rightarrow> string set) \<Rightarrow> hub \<Rightarrow> bool" where
  "delivers A h \<longleftrightarrow> (\<forall>i<length (conns h). good A (conns h ! i)) \<and> sorted_in h \<and> (\<forall>m\<in>set (broadcast h). \<forall>u. m \<in> A u)"

definition users :: "hub \<Rightarrow> string list" where
  "users h = map wc_user (conns h)"

lemma users_nth: "i < length (conns h) \<Longrightarrow> users h ! i = wc_user (conns h ! i)"
  by (simp add: users_def)

lemma on_conn_simps [simp]:
  "clients (on_conn i f h) = clients h" "register (on_conn i f h) = register h" "unregister (on_conn i f h) = unregister h"
  "broadcast (on_conn i f h) = broadcast h" "stopped (on_conn i f h) = stopped h" "panicked (on_conn i f h) = panicked h"
  "length (conns (on_conn i f h)) = length (conns h)"
  "conns (on_conn i f h) = (conns h)[i := f (conns h ! i)]"
  by (simp_all add: on_conn_def)

lemma on_conn_delivers:
  assumes "delivers A h" and "\<And>c. wc_user (f c) = wc_user c" and "i < length (conns h) \<Longrightarrow> good A (conns h ! i) \<Longrightarrow> good A (f (conns h ! i))"
  shows "delivers A (on_conn i f h)"
proof -
  have "wc_user ((conns h)[i := f (conns h ! i)] ! j) = wc_user (conns h ! j)" if "j < length (conns h)" for j
    using that assms(2) by (cases "i = j") simp_all
  then have "sorted_in (on_conn i f h)" using assms(1) unfolding delivers_def sorted_in_def by simp
  then show ?thesis
    using assms(1,3) by (cases "i < length (conns h)") (auto simp: delivers_def nth_list_update list_update_beyond)
qed

definition frame_for :: "(string \<Rightarrow> string set) \<Rightarrow> string \<Rightarrow> frame \<Rightarrow> bool" where
  "frame_for A u x \<longleftrightarrow> x \<in> {Pong, KeepAlive, CloseFrame} \<union> Push ` A u"

lemma panicked_delivers: "delivers A h \<Longrightarrow> delivers A (h\<lparr>panicked := b\<rparr>)"
  by (simp add: delivers_def sorted_in_def)

lemma try_send_delivers:
  "delivers A h \<Longrightarrow> i < length (conns h) \<Longrightarrow> frame_for A (wc_user (conns h ! i)) x \<Longrightarrow> delivers A (try_send x i h)"
  unfolding try_send_def by (auto intro!: on_conn_delivers panicked_delivers simp: good_def frame_for_def)

lemma try_send_users [simp]: "users (try_send x i h) = users h" "length (conns (try_send x i h)) = length (conns h)"
  "clients (try_send x i h) = clients h" "register (try_send x i h) = register h" "unregister (try_send x i h) = unregister h"
  "broadcast (try_send x i h) = broadcast h" "stopped (try_send x i h) = stopped h"
  by (cases "i < length (conns h)"; simp add: try_send_def users_def map_update list_update_beyond list_update_same_conv)+

lemma fold_try_send_delivers:
  "delivers A h \<Longrightarrow> (\<forall>i\<in>set is. i < length (conns h) \<and> frame_for A (users h ! i) x) \<Longrightarrow> delivers A (fold (try_send x) is h)"
proof (induction "is" arbitrary: h)
  case (Cons i "is")
  have "delivers A (try_send x i h)"
    using Cons.prems users_nth [of i h] by (intro try_send_delivers) simp_all
  with Cons show ?case by simp
qed simp

lemma close_send_delivers: "delivers A h \<Longrightarrow> delivers A (close_send i h)"
  unfolding close_send_def by (auto intro!: on_conn_delivers panicked_delivers simp: good_def)

lemma fold_close_delivers: "delivers A h \<Longrightarrow> delivers A (fold close_send is h)"
  by (induction "is" arbitrary: h) (simp_all add: close_send_delivers)

lemma removeClient_delivers: "delivers A h \<Longrightarrow> delivers A (removeClient i h)"
  unfolding removeClient_def Let_def
  by (rule close_send_delivers) (auto simp: delivers_def sorted_in_def dest: notin_set_remove1 split: if_splits)

lemma hub_takes_delivers:
  assumes "delivers A h"
  shows "delivers A (hub_takes k h)"
proof (cases k)
  case Done
  have "delivers A (fold close_send (online h) h)" using assms by (rule fold_close_delivers)
  then show ?thesis using Done assms by (simp add: hub_takes_def closeAll_def delivers_def sorted_in_def)
next
  case Register
  then show ?thesis using assms by (auto simp: hub_takes_def delivers_def sorted_in_def Let_def split: list.splits)
next
  case Unregister
  have "delivers A (h\<lparr>unregister := is\<rparr>)" if "unregister h = i # is" for i "is"
    using assms that by (simp add: delivers_def sorted_in_def)
  then show ?thesis using Unregister assms by (auto simp: hub_takes_def intro!: removeClient_delivers split: list.splits)
next
  case SendBroadcast
  have "delivers A (fold (try_send (Push m)) (online (h\<lparr>broadcast := ms\<rparr>)) (h\<lparr>broadcast := ms\<rparr>))" if "broadcast h = m # ms" for m ms
    using assms that by (intro fold_try_send_delivers) (auto simp: delivers_def sorted_in_def online_def frame_for_def)
  then show ?thesis using SendBroadcast assms by (auto simp: hub_takes_def Let_def split: list.splits)
qed

definition allowed :: "(string \<Rightarrow> string set) \<Rightarrow> ws_event \<Rightarrow> bool" where
  "allowed A ev = (case ev of ToUser u m \<Rightarrow> m \<in> A u | ToAll m \<Rightarrow> (\<forall>u. m \<in> A u) | _ \<Rightarrow> True)"

lemma Upgrade_Some: "Upgrade u h = Some h' \<Longrightarrow>
    h' = h\<lparr>conns := conns h @ [newWSClient u], register := register h @ [length (conns h)]\<rparr>"
  by (auto simp: Upgrade_def split: if_splits)

lemma Upgrade_sorted:
  assumes "sorted_in h" and "Upgrade u h = Some h'"
  shows "sorted_in h'"
proof -
  have "i < length (conns h) \<and> wc_user (conns h ! i) = v" if "i \<in> set (clients h v)" for i v
    using assms(1) that unfolding sorted_in_def by blast
  moreover have "i < length (conns h)" if "i \<in> set (register h) \<union> set (unregister h)" for i
    using assms(1) that unfolding sorted_in_def by blast
  ultimately show ?thesis
    unfolding Upgrade_Some [OF assms(2)] sorted_in_def by (auto simp: nth_append less_SucI)
qed

lemma Upgrade_delivers: "delivers A h \<Longrightarrow> Upgrade u h = Some h' \<Longrightarrow> delivers A h'"
  using Upgrade_sorted [of h u h'] Upgrade_Some [of u h h']
  by (auto simp: delivers_def nth_append less_Suc_eq) (simp add: good_def newWSClient_def)

lemma write_message_good: "good A c \<Longrightarrow> good A (write_message ok c)" "good A c \<Longrightarrow> good A (write_ping ok c)"
proof -
  show "good A c \<Longrightarrow> good A (write_message ok c)" by (cases "wc_send c"; cases ok) (simp_all add: good_def write_message_def)
  show "good A c \<Longrightarrow> good A (write_ping ok c)" by (simp add: good_def write_ping_def)
qed

lemma ws_step_delivers:
  assumes "delivers A h" and "allowed A ev"
  shows "delivers A (ws_step ev h)"
proof (cases ev)
  case (Connects u)
  then show ?thesis using assms(1) by (auto simp: ws_step_def dest: Upgrade_delivers split: option.splits)
next
  case (Hub k)
  then show ?thesis using assms(1) by (simp add: ws_step_def hub_takes_delivers)
next
  case (Reads i msg)
  have "delivers A (read_message msg i h)" if "i < length (conns h)"
    using assms(1) that
    by (cases msg) (auto simp: read_message_def sendJSON_def frame_for_def good_def intro!: try_send_delivers on_conn_delivers)
  then show ?thesis using Reads assms(1) by (simp add: ws_step_def)
next
  case (ReadEnds i)
  have "delivers A (on_conn i (\<lambda>c. c\<lparr>reading := False\<rparr>) h)"
    using assms(1) by (intro on_conn_delivers) (simp_all add: good_def)
  then have "i < length (conns h) \<Longrightarrow> delivers A (read_ends i h)"
    using assms(1) by (auto simp: read_ends_def delivers_def sorted_in_def)
  then show ?thesis using ReadEnds assms(1) by (simp add: ws_step_def)
next
  case (Writes i ok)
  have "delivers A (on_conn i (write_message ok) h)"
    by (rule on_conn_delivers [OF assms(1) _ write_message_good(1)]) (simp_all add: write_message_def split: list.splits)
  then show ?thesis using Writes assms(1) by (simp add: ws_step_def)
next
  case (Ticks i ok)
  have "delivers A (on_conn i (write_ping ok) h)"
    by (rule on_conn_delivers [OF assms(1) _ write_message_good(2)]) (simp_all add: write_ping_def)
  then show ?thesis using Ticks assms(1) by (simp add: ws_step_def)
next
  case (ToUser u m)
  have "delivers A (SendToUser u m h)"
    using assms ToUser unfolding SendToUser_def
    by (intro fold_try_send_delivers) (auto simp: delivers_def sorted_in_def users_nth frame_for_def allowed_def)
  then show ?thesis using ToUser assms(1) by (simp add: ws_step_def)
next
  case (ToAll m)
  then show ?thesis using assms by (simp add: ws_step_def Broadcast_def delivers_def sorted_in_def allowed_def)
qed

lemma run_ws_delivers: "delivers A h \<Longrightarrow> list_all (allowed A) evs \<Longrightarrow> delivers A (run_ws evs h)"
  by (induction evs arbitrary: h) (simp_all add: run_ws_def ws_step_delivers)

lemma sent_to_allowed: "(\<And>u. sent_to u evs \<subseteq> A u) \<Longrightarrow> list_all (allowed A) evs"
proof (induction evs)
  case (Cons ev evs)
  have "sent_to u evs \<subseteq> sent_to u (ev # evs)" for u by (cases ev) auto
  moreover have "allowed A ev"
  proof (cases ev)
    case (ToUser u m)
    then show ?thesis using Cons.prems [of u] by (auto simp: allowed_def)
  next
    case (ToAll m)
    then have "m \<in> sent_to u (ev # evs)" for u by simp
    then show ?thesis using Cons.prems ToAll by (auto simp: allowed_def)
  qed (simp_all add: allowed_def)
  ultimately show ?case using Cons by (metis (no_types, lifting) list.pred_inject(2) subset_trans)
qed simp

section \<open>Answers to pings\<close>

definition pongs :: "ws_client \<Rightarrow> nat" where
  "pongs c = count_list (written c @ wc_send c) Pong"

definition pong_at :: "hub \<Rightarrow> nat \<Rightarrow> nat" where
  "pong_at h i = (if i < length (conns h) then pongs (conns h ! i) else 0)"

text \<open>No connection has more answers than before, and new ones have none.\<close>

definition no_more_pongs :: "hub \<Rightarrow> hub \<Rightarrow> bool" where
  "no_more_pongs h h' \<longleftrightarrow> (\<forall>i. pong_at h' i \<le> pong_at h i)"

lemma no_more_refl: "conns h' = conns h \<Longrightarrow> no_more_pongs h h'"
  by (simp add: no_more_pongs_def pong_at_def)

lemma pong_at_cong: "conns h' = conns h \<Longrightarrow> pong_at h' = pong_at h"
  by (simp add: fun_eq_iff pong_at_def)

lemma no_more_trans: "no_more_pongs h h1 \<Longrightarrow> no_more_pongs h1 h2 \<Longrightarrow> no_more_pongs h h2"
  unfolding no_more_pongs_def by (meson le_trans)

lemma pong_at_on_conn: "pong_at (on_conn i f h) j = (if j = i \<and> i < length (conns h) then pongs (f (conns h ! i)) else pong_at h j)"
  by (simp add: pong_at_def)

lemma no_more_on_conn: "(\<And>c. pongs (f c) \<le> pongs c) \<Longrightarrow> no_more_pongs h (on_conn i f h)"
  by (simp add: no_more_pongs_def pong_at_on_conn) (simp add: pong_at_def)

lemma no_more_fold: "(\<And>h i. no_more_pongs h (f i h)) \<Longrightarrow> no_more_pongs h (fold f is h)"
proof (induction "is" arbitrary: h)
  case (Cons i "is")
  then show ?case using no_more_trans [of h "f i h" "fold f is (f i h)"] by simp
qed (simp add: no_more_refl)

lemma no_more_push: "no_more_pongs h (try_send (Push m) i h)"
proof -
  have "no_more_pongs h (on_conn i (\<lambda>c. c\<lparr>wc_send := wc_send c @ [Push m]\<rparr>) h)" by (rule no_more_on_conn) (simp add: pongs_def)
  then show ?thesis unfolding try_send_def by (simp add: no_more_refl)
qed

lemma no_more_close: "no_more_pongs h (close_send i h)"
proof -
  have "no_more_pongs h (on_conn i (\<lambda>c. c\<lparr>wc_closed := True\<rparr>) h)" by (rule no_more_on_conn) (simp add: pongs_def)
  then show ?thesis unfolding close_send_def by (simp add: no_more_refl)
qed

lemma no_more_conns: "no_more_pongs h h1 \<Longrightarrow> conns h' = conns h \<Longrightarrow> conns h1' = conns h1 \<Longrightarrow> no_more_pongs h' h1'"
  using pong_at_cong [of h' h] pong_at_cong [of h1' h1] by (simp add: no_more_pongs_def)

lemma no_more_hub: "no_more_pongs h (hub_takes k h)"
proof -
  have "no_more_pongs h (closeAll h)"
    unfolding closeAll_def using no_more_fold [OF no_more_close] by (rule no_more_conns) simp_all
  moreover have "no_more_pongs h (removeClient i (h\<lparr>unregister := is\<rparr>))" for i "is"
    unfolding removeClient_def Let_def by (rule no_more_conns [OF no_more_close]) simp_all
  moreover have "no_more_pongs h (fold (try_send (Push m)) js (h\<lparr>broadcast := ms\<rparr>))" for m js ms
    by (rule no_more_conns [OF no_more_fold [OF no_more_push]]) simp_all
  moreover have "no_more_pongs h ((closeAll h)\<lparr>stopped := True\<rparr>)" using calculation(1) by (rule no_more_conns) simp_all
  ultimately show ?thesis
    by (cases k) (simp_all add: hub_takes_def Let_def no_more_refl split: list.split)
qed

lemma no_more_writes: "pongs (write_message ok c) \<le> pongs c" "pongs (write_ping ok c) \<le> pongs c"
proof -
  show "pongs (write_message ok c) \<le> pongs c" by (cases "wc_send c") (simp_all add: pongs_def write_message_def)
  show "pongs (write_ping ok c) \<le> pongs c" by (simp add: pongs_def write_ping_def)
qed

lemma no_more_upgrade: "Upgrade u h = Some h' \<Longrightarrow> no_more_pongs h h'"
  using Upgrade_Some [of u h h'] by (auto simp: no_more_pongs_def pong_at_def nth_append newWSClient_def pongs_def)

lemma no_more_read:
  assumes "msg \<noteq> Ping"
  shows "no_more_pongs h (read_message msg i h)"
proof -
  have "no_more_pongs h (on_conn i (\<lambda>c. c\<lparr>wc_topics := wc_topics c \<union> T\<rparr>) h)" for T by (rule no_more_on_conn) (simp add: pongs_def)
  then show ?thesis using assms by (cases msg) (simp_all add: read_message_def no_more_refl)
qed

lemma no_more_end: "no_more_pongs h (read_ends i h)"
proof -
  have "no_more_pongs h (on_conn i (\<lambda>c. c\<lparr>reading := False\<rparr>) h)" by (rule no_more_on_conn) (simp add: pongs_def)
  then have "no_more_pongs h ((on_conn i (\<lambda>c. c\<lparr>reading := False\<rparr>) h)\<lparr>unregister := unregister h @ [i]\<rparr>)"
    by (rule no_more_conns) simp_all
  then show ?thesis unfolding read_ends_def by (simp add: no_more_refl)
qed

lemma no_more_step: "(\<And>i. ev \<noteq> Reads i Ping) \<Longrightarrow> no_more_pongs h (ws_step ev h)"
proof (cases ev)
  case (Connects u)
  then show ?thesis using no_more_upgrade [of u h] by (simp add: ws_step_def no_more_refl split: option.split)
next
  case (Reads i msg)
  assume "\<And>i. ev \<noteq> Reads i Ping"
  then show ?thesis using Reads no_more_read [of msg h i] by (simp add: ws_step_def no_more_refl)
next
  case (ToUser u m)
  then show ?thesis by (simp add: ws_step_def SendToUser_def no_more_refl no_more_fold no_more_push)
qed (simp_all add: ws_step_def Broadcast_def no_more_refl no_more_hub no_more_end no_more_on_conn no_more_writes)

text \<open>The pings read from connection \<open>i\<close> in a run.\<close>

definition pings_of :: "nat \<Rightarrow> ws_event list \<Rightarrow> nat" where
  "pings_of i evs = length (filter (\<lambda>ev. ev = Reads i Ping) evs)"

definition answered :: "(nat \<Rightarrow> nat) \<Rightarrow> hub \<Rightarrow> bool" where
  "answered n h \<longleftrightarrow> (\<forall>i. pong_at h i \<le> n i)"

lemma ping_answered:
  assumes "answered n h"
  shows "answered (n(i := Suc (n i))) (try_send Pong i h)"
proof -
  have put: "pong_at (on_conn i (\<lambda>c. c\<lparr>wc_send := wc_send c @ [Pong]\<rparr>) h) j \<le> (if j = i then Suc (pong_at h i) else pong_at h j)" for j
    unfolding pong_at_on_conn by (simp add: pongs_def pong_at_def)
  have a: "pong_at (try_send Pong i h) j \<le> (if j = i then Suc (pong_at h i) else pong_at h j)" for j
    using put [of j] pong_at_cong [of "h\<lparr>panicked := True\<rparr>" h] unfolding try_send_def by auto
  have b: "pong_at h j \<le> n j" for j using assms unfolding answered_def by blast
  have "pong_at (try_send Pong i h) j \<le> (n(i := Suc (n i))) j" for j
    using a [of j] b [of j] by (cases "j = i") simp_all
  then show ?thesis unfolding answered_def by blast
qed

lemma step_answered:
  assumes "answered n h"
  shows "answered (\<lambda>i. n i + pings_of i [ev]) (ws_step ev h)"
proof (cases "\<exists>i. ev = Reads i Ping")
  case True
  then obtain i where ev: "ev = Reads i Ping" by blast
  have n: "(\<lambda>j. n j + pings_of j [ev]) = n(i := Suc (n i))" by (auto simp: ev pings_of_def)
  have "n j \<le> (n(i := Suc (n i))) j" for j by simp
  then have "answered (n(i := Suc (n i))) h" using assms unfolding answered_def by (meson le_trans)
  then show ?thesis unfolding n using ping_answered [OF assms, of i] by (simp add: ev ws_step_def read_message_def sendJSON_def)
next
  case False
  then have "no_more_pongs h (ws_step ev h)" by (intro no_more_step) blast
  with assms have "pong_at (ws_step ev h) i \<le> n i" for i unfolding answered_def no_more_pongs_def by (meson le_trans)
  then show ?thesis unfolding answered_def using trans_le_add1 by blast
qed

lemma run_answered: "answered n h \<Longrightarrow> answered (\<lambda>i. n i + pings_of i evs) (run_ws evs h)"
proof (induction evs arbitrary: n h)
  case (Cons ev evs)
  have "(\<lambda>i. n i + pings_of i (ev # evs)) = (\<lambda>i. n i + pings_of i [ev] + pings_of i evs)" by (simp add: pings_of_def fun_eq_iff)
  with Cons.IH [OF step_answered [OF Cons.prems, of ev]] show ?case by (simp only: run_ws_def fold_Cons comp_apply)
qed (simp add: run_ws_def pings_of_def)

text \<open>C27. Whatever happens, all that a connection is ever sent, or has waiting, are messages for its user or for everybody,
answers to pings, of which there are at most as many as pings were read from this very connection, and the
control frames of the protocol.\<close>

theorem messages_reach_only_their_user:
  "list_all (\<lambda>i. let c = conns (run_ws evs NewWebSocketHub) ! i in
      set (written c @ wc_send c) \<subseteq> {Pong, KeepAlive, CloseFrame} \<union> Push ` sent_to (wc_user c) evs \<and>
      count_list (written c @ wc_send c) Pong \<le> pings_of i evs)
    [0..<length (conns (run_ws evs NewWebSocketHub))]"
proof -
  have sent: "delivers (\<lambda>u. sent_to u evs) (run_ws evs NewWebSocketHub)"
    by (rule run_ws_delivers) (simp_all add: NewWebSocketHub_def delivers_def sorted_in_def sent_to_allowed)
  have "answered (\<lambda>i. 0 + pings_of i evs) (run_ws evs NewWebSocketHub)"
    by (rule run_answered) (simp add: answered_def pong_at_def NewWebSocketHub_def)
  then have "pongs (conns (run_ws evs NewWebSocketHub) ! i) \<le> pings_of i evs" if "i < length (conns (run_ws evs NewWebSocketHub))" for i
    using that unfolding answered_def pong_at_def by (metis add_0)
  with sent show ?thesis by (simp add: list_all_iff Let_def delivers_def good_def pongs_def)
qed

section \<open>When the hub keeps the order it never panics\<close>

text \<open>
  \<open>in_order\<close>: the process is not being stopped, and the loop does not take the end of a connection while
  its beginning still waits in the other channel.
\<close>

fun in_order :: "ws_event list \<Rightarrow> hub \<Rightarrow> bool" where
  "in_order [] h = True"
| "in_order (ev # evs) h \<longleftrightarrow> ev \<noteq> Hub Done \<and>
     \<not> (ev = Hub Unregister \<and> unregister h \<noteq> [] \<and> hd (unregister h) \<in> set (register h)) \<and> in_order evs (ws_step ev h)"

text \<open>A send channel is closed exactly when its connection is in no list of the hub, and never while its reader
runs or its end waits to be taken.\<close>

definition tracked :: "hub \<Rightarrow> bool" where
  "tracked h \<longleftrightarrow> (\<forall>i<length (conns h).
     wc_closed (conns h ! i) = (i \<notin> set (register h) \<and> i \<notin> set (clients h (wc_user (conns h ! i)))))"

definition held_open :: "hub \<Rightarrow> bool" where
  "held_open h \<longleftrightarrow> (\<forall>i<length (conns h). (reading (conns h ! i) \<longrightarrow> \<not> wc_closed (conns h ! i) \<and> i \<notin> set (unregister h)) \<and>
     (i \<in> set (unregister h) \<longrightarrow> \<not> wc_closed (conns h ! i)))"

definition live :: "hub \<Rightarrow> bool" where
  "live h \<longleftrightarrow> \<not> panicked h \<and> \<not> stopped h \<and> sorted_in h \<and> distinct (register h) \<and> distinct (unregister h) \<and>
     (\<forall>u. distinct (clients h u) \<and> set (clients h u) \<inter> set (register h) = {}) \<and> tracked h \<and> held_open h"

lemma live_dest:
  assumes "live h"
  shows "\<not> stopped h" "i \<in> set (clients h u) \<Longrightarrow> i < length (conns h)" "i \<in> set (clients h u) \<Longrightarrow> wc_user (conns h ! i) = u"
    "i \<in> set (register h) \<Longrightarrow> i < length (conns h)" "i \<in> set (unregister h) \<Longrightarrow> i < length (conns h)"
    "i \<in> set (clients h u) \<Longrightarrow> i \<notin> set (register h)"
    "i < length (conns h) \<Longrightarrow> reading (conns h ! i) \<Longrightarrow> \<not> wc_closed (conns h ! i)"
    "i < length (conns h) \<Longrightarrow> reading (conns h ! i) \<Longrightarrow> i \<notin> set (unregister h)"
    "i \<in> set (unregister h) \<Longrightarrow> \<not> wc_closed (conns h ! i)"
  using assms unfolding live_def sorted_in_def held_open_def by blast+

text \<open>Buffers do not matter for it.\<close>

definition shape :: "hub \<Rightarrow> (string \<times> bool \<times> bool) list" where
  "shape h = map (\<lambda>c. (wc_user c, wc_closed c, reading c)) (conns h)"

lemma live_shape:
  assumes "live h" and "shape h' = shape h" and "clients h' = clients h" and "register h' = register h"
    and "unregister h' = unregister h" and "stopped h' = stopped h" and "panicked h' = panicked h"
  shows "live h'"
proof -
  have l: "length (conns h') = length (conns h)" using assms(2) by (metis length_map shape_def)
  have n: "wc_user (conns h' ! i) = wc_user (conns h ! i)" "wc_closed (conns h' ! i) = wc_closed (conns h ! i)"
    "reading (conns h' ! i) = reading (conns h ! i)" if "i < length (conns h)" for i
    using arg_cong [OF assms(2), of "\<lambda>xs. xs ! i"] that l by (simp_all add: shape_def)
  have h: "tracked h" "held_open h" "sorted_in h" using assms(1) by (simp_all add: live_def)
  have "tracked h'" using h(1) by (simp add: tracked_def l n assms(3-7))
  moreover have "held_open h'" using h(2) by (simp add: held_open_def l n assms(3-7))
  moreover have "sorted_in h'" using h(3) unfolding sorted_in_def l assms(3-7) by (metis n(1))
  ultimately show ?thesis using assms(1) by (simp add: live_def assms(3-7))
qed

lemma on_conn_shape: "(\<And>c. wc_user (f c) = wc_user c \<and> wc_closed (f c) = wc_closed c \<and> reading (f c) = reading c) \<Longrightarrow> shape (on_conn i f h) = shape h"
  by (cases "i < length (conns h)") (simp_all add: shape_def map_update list_update_same_conv list_update_beyond)

lemma try_send_open:
  assumes "live h" and "i < length (conns h)" and "\<not> wc_closed (conns h ! i)"
  shows "live (try_send x i h) \<and> shape (try_send x i h) = shape h"
proof -
  have "shape (try_send x i h) = shape h" "panicked (try_send x i h) = panicked h"
    using assms(3) by (simp_all add: try_send_def on_conn_shape)
  with assms(1) show ?thesis by (auto intro: live_shape)
qed

lemma live_open: "live h \<Longrightarrow> i \<in> set (clients h u) \<Longrightarrow> i < length (conns h) \<and> \<not> wc_closed (conns h ! i)"
  unfolding live_def sorted_in_def tracked_def by metis

lemma fold_try_send_live: "live h \<Longrightarrow> (\<forall>i\<in>set is. \<exists>u. i \<in> set (clients h u)) \<Longrightarrow> live (fold (try_send x) is h)"
proof (induction "is" arbitrary: h)
  case (Cons i "is")
  then have "live (try_send x i h)" using live_open try_send_open by (metis list.set_intros(1))
  with Cons show ?case by simp
qed simp

lemma register_live:
  assumes "live h"
  shows "live (hub_takes Register h)"
proof (cases "register h")
  case Nil
  with assms show ?thesis by (simp add: hub_takes_def)
next
  case (Cons i "is")
  let ?u = "wc_user (conns h ! i)"
  let ?h = "h\<lparr>register := is, clients := (clients h)(?u := clients h ?u @ [i])\<rparr>"
  have i: "i < length (conns h)" "i \<notin> set is" "\<And>u. i \<notin> set (clients h u)"
    using assms Cons unfolding live_def sorted_in_def by auto
  have "sorted_in ?h" using assms Cons i(1) by (simp add: live_def sorted_in_def)
  moreover have "distinct (clients ?h u) \<and> set (clients ?h u) \<inter> set (register ?h) = {}" for u
    using assms Cons i by (auto simp: live_def)
  moreover have "(j \<notin> set (register ?h) \<and> j \<notin> set (clients ?h (wc_user (conns h ! j)))) =
      (j \<notin> set (register h) \<and> j \<notin> set (clients h (wc_user (conns h ! j))))" for j
    using Cons by auto
  then have "tracked ?h" using assms by (simp add: live_def tracked_def)
  moreover have "held_open ?h" using assms by (simp add: live_def held_open_def)
  ultimately have "live ?h" using assms Cons unfolding live_def by simp
  moreover have "hub_takes Register h = ?h" using assms Cons by (simp add: hub_takes_def live_def Let_def)
  ultimately show ?thesis by simp
qed

lemma removeClient_live:
  assumes "live h" and "unregister h = i # is" and "i \<notin> set (register h)"
  shows "live (removeClient i (h\<lparr>unregister := is\<rparr>))"
proof -
  let ?u = "wc_user (conns h ! i)"
  let ?c = "(conns h ! i)\<lparr>wc_closed := True\<rparr>"
  let ?h = "h\<lparr>unregister := is, clients := (clients h)(?u := remove1 i (clients h ?u)), conns := (conns h)[i := ?c]\<rparr>"
  have m: "i \<in> set (unregister h)" using assms(2) by simp
  have i: "i < length (conns h)" "\<not> wc_closed (conns h ! i)" "\<not> reading (conns h ! i)" "i \<notin> set is" "distinct is"
    using live_dest(5,9) [OF assms(1) m] live_dest(8) [OF assms(1), of i] m assms(1,2) by (auto simp: live_def)
  have d: "\<And>u. distinct (clients h u)" using assms(1) by (simp add: live_def)
  have c: "wc_user ((conns h)[i := ?c] ! j) = wc_user (conns h ! j)" for j
    using i(1) by (cases "i = j") auto
  have cl: "j \<in> set (clients ?h u) \<longleftrightarrow> j \<in> set (clients h u) \<and> (j \<noteq> i \<or> u \<noteq> ?u)" for j u
    using d by (simp add: set_remove1_eq)
  have "j < length (conns ?h) \<and> wc_user (conns ?h ! j) = u" if "j \<in> set (clients ?h u)" for j u
  proof -
    have j: "j \<in> set (clients h u)" using that cl [of j u] by blast
    show ?thesis using live_dest(2,3) [OF assms(1) j] c [of j] by simp
  qed
  then have "sorted_in ?h"
    using live_dest(4,5) [OF assms(1)] assms(2) unfolding sorted_in_def by auto
  moreover have "tracked ?h"
    using assms(1,3) i(1) cl unfolding live_def tracked_def by (simp add: c nth_list_update)
  moreover have "held_open ?h"
    using assms(1,2) i unfolding live_def held_open_def by (simp add: nth_list_update)
  moreover have "distinct (clients ?h u) \<and> set (clients ?h u) \<inter> set (register ?h) = {}" for u
    using assms(1) cl [of _ u] by (auto simp: live_def)
  ultimately have "live ?h" using assms(1) i(5) unfolding live_def by simp
  moreover have "removeClient i (h\<lparr>unregister := is\<rparr>) = ?h"
    using i by (simp add: removeClient_def Let_def close_send_def on_conn_def)
  ultimately show ?thesis by simp
qed

lemma Upgrade_live:
  assumes "live h" and "Upgrade u h = Some h'"
  shows "live h'"
proof -
  let ?n = "length (conns h)"
  have h': "conns h' = conns h @ [newWSClient u]" "register h' = register h @ [?n]" "clients h' = clients h"
    "unregister h' = unregister h" "stopped h' = stopped h" "panicked h' = panicked h"
    by (simp_all add: Upgrade_Some [OF assms(2)])
  have fresh: "?n \<notin> set (register h)" "?n \<notin> set (unregister h)" "\<And>v. ?n \<notin> set (clients h v)"
    using live_dest(2,4,5) [OF assms(1)] by blast+
  have "sorted_in h'" using Upgrade_sorted [OF _ assms(2)] assms(1) by (simp add: live_def)
  moreover have "tracked h'" unfolding tracked_def
  proof (intro allI impI)
    fix i assume "i < length (conns h')"
    then show "wc_closed (conns h' ! i) = (i \<notin> set (register h') \<and> i \<notin> set (clients h' (wc_user (conns h' ! i))))"
      using assms(1) fresh by (cases "i = ?n") (simp_all add: h' nth_append newWSClient_def live_def tracked_def)
  qed
  moreover have "held_open h'" unfolding held_open_def
  proof (intro allI impI)
    fix i assume "i < length (conns h')"
    then show "(reading (conns h' ! i) \<longrightarrow> \<not> wc_closed (conns h' ! i) \<and> i \<notin> set (unregister h')) \<and> (i \<in> set (unregister h') \<longrightarrow> \<not> wc_closed (conns h' ! i))"
      using assms(1) fresh by (cases "i = ?n") (simp_all add: h' nth_append newWSClient_def live_def held_open_def)
  qed
  ultimately show ?thesis using assms(1) fresh unfolding live_def h' by auto
qed

lemma reads_live:
  assumes "live h" and "i < length (conns h)" and "reading (conns h ! i)"
  shows "live (read_message msg i h)"
proof -
  have "\<not> wc_closed (conns h ! i)" using live_dest(7) [OF assms] .
  then show ?thesis
    using assms try_send_open [of h i Pong]
    by (cases msg) (auto simp: read_message_def sendJSON_def intro!: live_shape [OF assms(1)] on_conn_shape)
qed

lemma read_ends_live:
  assumes "live h" and "i < length (conns h)" and "reading (conns h ! i)"
  shows "live (read_ends i h)"
proof -
  let ?h = "(on_conn i (\<lambda>c. c\<lparr>reading := False\<rparr>) h)\<lparr>unregister := unregister h @ [i]\<rparr>"
  have i: "\<not> wc_closed (conns h ! i)" "i \<notin> set (unregister h)" using live_dest(7,8) [OF assms] .
  have c: "wc_user ((conns h)[i := (conns h ! i)\<lparr>reading := False\<rparr>] ! j) = wc_user (conns h ! j)"
    "wc_closed ((conns h)[i := (conns h ! i)\<lparr>reading := False\<rparr>] ! j) = wc_closed (conns h ! j)" for j
    using assms(2) by (cases "i = j"; auto)+
  have "tracked ?h" using assms(1) unfolding live_def tracked_def by (simp add: c)
  moreover have "held_open ?h" using assms(1,2) i unfolding live_def held_open_def by (simp add: nth_list_update)
  moreover have "sorted_in ?h" using assms(1,2) unfolding live_def sorted_in_def by (simp add: c)
  ultimately have "live ?h" using assms(1) i unfolding live_def by simp
  with assms(1) show ?thesis by (simp add: read_ends_def)
qed

lemma ws_step_live:
  assumes "live h" and "ev \<noteq> Hub Done" and "\<not> (ev = Hub Unregister \<and> unregister h \<noteq> [] \<and> hd (unregister h) \<in> set (register h))"
  shows "live (ws_step ev h)"
proof (cases ev)
  case (Hub k)
  show ?thesis
  proof (cases k)
    case Unregister
    then show ?thesis using Hub assms removeClient_live [OF assms(1)]
      by (auto simp: ws_step_def hub_takes_def split: list.splits)
  next
    case SendBroadcast
    have "live (fold (try_send (Push m)) (online (h\<lparr>broadcast := ms\<rparr>)) (h\<lparr>broadcast := ms\<rparr>))" for m ms
    proof (rule fold_try_send_live)
      show "live (h\<lparr>broadcast := ms\<rparr>)" by (rule live_shape [OF assms(1)]) (simp_all add: shape_def)
    qed (auto simp: online_def)
    then show ?thesis using Hub SendBroadcast assms(1) by (auto simp: ws_step_def hub_takes_def Let_def split: list.splits)
  qed (use Hub assms register_live in \<open>auto simp: ws_step_def\<close>)
next
  case (Writes i ok)
  have "live (on_conn i (write_message ok) h)"
    by (rule live_shape [OF assms(1)]) (simp_all add: on_conn_shape write_message_def split: list.splits)
  then show ?thesis using Writes assms(1) by (simp add: ws_step_def)
next
  case (Ticks i ok)
  have "live (on_conn i (write_ping ok) h)"
    by (rule live_shape [OF assms(1)]) (simp_all add: on_conn_shape write_ping_def)
  then show ?thesis using Ticks assms(1) by (simp add: ws_step_def)
next
  case (ToUser u m)
  then show ?thesis using assms(1) fold_try_send_live [OF assms(1), of "clients h u" "Push m"]
    by (auto simp: ws_step_def SendToUser_def)
next
  case (ToAll m)
  have "live (h\<lparr>broadcast := ms\<rparr>)" for ms by (rule live_shape [OF assms(1)]) (simp_all add: shape_def)
  then show ?thesis using ToAll assms(1) by (simp add: ws_step_def Broadcast_def)
qed (use assms(1) Upgrade_live reads_live read_ends_live in \<open>auto simp: ws_step_def split: option.splits\<close>)

lemma in_order_live: "live h \<Longrightarrow> in_order evs h \<Longrightarrow> live (run_ws evs h)"
proof (induction evs arbitrary: h)
  case (Cons ev evs)
  then have "live (ws_step ev h)" by (intro ws_step_live) auto
  with Cons show ?case by (simp add: run_ws_def)
qed (simp add: run_ws_def)

text \<open>C28. While the process is not stopped and the loop takes no end of a connection before its beginning, no goroutine
panics: every send channel is closed once, and nothing is sent on it afterwards.\<close>

theorem hub_in_order_never_panics:
  assumes "in_order evs NewWebSocketHub"
  shows "\<not> panicked (run_ws evs NewWebSocketHub)"
proof -
  have "live NewWebSocketHub" by (simp add: live_def tracked_def held_open_def sorted_in_def NewWebSocketHub_def)
  from in_order_live [OF this assms] show ?thesis by (simp add: live_def)
qed

section \<open>When it does not\<close>

lemmas run_defs = run_ws_def ws_step_def Upgrade_def NewWebSocketHub_def newWSClient_def channelSize_def sendBufSize_def
  read_ends_def on_conn_def hub_takes_def removeClient_def close_send_def Broadcast_def online_def try_send_def Let_def

theorem hub_in_order_never_panics_witness:
  "\<not> panicked (run_ws [Connects ''u'', Hub Register, ToUser ''u'' ''hi'', ReadEnds 0, Hub Unregister] NewWebSocketHub)"
  by (rule hub_in_order_never_panics) (simp add: run_defs SendToUser_def)

text \<open>A connection that ends at once: the loop finds its beginning and its end in two channels and may take the end
first. The connection then stays in the hub with a closed channel, and the next message for everybody ends
the process.\<close>

theorem early_end_crashes_the_process:
  "panicked (run_ws [Connects ''u'', ReadEnds 0, Hub Unregister, Hub Register, ToAll m, Hub SendBroadcast] NewWebSocketHub)"
  by (simp add: run_defs)

text \<open>A ping that is read after the hub was stopped ends the process, as the answer is sent on a closed channel.\<close>

theorem ping_after_stop_crashes_the_process:
  "panicked (run_ws [Connects ''u'', Hub Register, Hub Done, Reads 0 Ping] NewWebSocketHub)"
  by (simp add: run_defs closeAll_def read_message_def sendJSON_def)

end
