(* ===== verification/ReadWrite.thy ===== *)
theory ReadWrite
  imports GoInts "HOL-Library.Multiset" "HOL-Library.Word"
begin

text \<open>
  The division of reads and writes between a primary database and its replicas
  (\<open>internal/db/rw_db.go\<close>): the choice of a replica in turn, on a counter of 64 bits that wraps, and the rounds
  that take replicas out and in. Connections and their pings are arguments.
\<close>

section \<open>State\<close>

record 's rw_db =
  rw_slaves :: "'s list"
  slaveIdx :: "64 word"
  unhealthySet :: "'s set"

datatype 's conn = Master | Slave 's

definition NewRWDB :: "'s list \<Rightarrow> 's rw_db" where
  "NewRWDB ss = \<lparr>rw_slaves = ss, slaveIdx = 0, unhealthySet = {}\<rparr>"

definition CreateSingleRWDB :: "'s rw_db" where
  "CreateSingleRWDB = NewRWDB []"

text \<open>\<open>connect\<close> opens a connection to an address; a replica that cannot be reached is left out.\<close>

definition CreateRWDB :: "(string \<Rightarrow> gerr + 's) \<Rightarrow> string \<Rightarrow> string list \<Rightarrow> gerr + 's \<times> 's rw_db" where
  "CreateRWDB connect master addrs = (case connect master of
      Inl e \<Rightarrow> Inl (Wrap ''connect master'' e)
    | Inr m \<Rightarrow> Inr (m, NewRWDB (List.map_filter (\<lambda>a. case connect a of Inl e \<Rightarrow> None | Inr s \<Rightarrow> Some s) addrs)))"

section \<open>Reads and writes\<close>

definition healthy :: "'s rw_db \<Rightarrow> 's list" where
  "healthy rw = filter (\<lambda>s. s \<notin> unhealthySet rw) (rw_slaves rw)"

definition pickSlave :: "'s rw_db \<Rightarrow> 's option \<times> 's rw_db" where
  "pickSlave rw =
     (if healthy rw = [] then (None, rw)
      else let i = slaveIdx rw + 1 in (Some (healthy rw ! (unat i mod length (healthy rw))), rw\<lparr>slaveIdx := i\<rparr>))"

definition ReadConn :: "bool \<Rightarrow> 's rw_db \<Rightarrow> 's conn \<times> 's rw_db" where
  "ReadConn forced rw =
     (if forced \<or> rw_slaves rw = [] then (Master, rw)
      else (case pickSlave rw of (None, rw') \<Rightarrow> (Master, rw') | (Some s, rw') \<Rightarrow> (Slave s, rw')))"

definition WriteConn :: "'s rw_db \<Rightarrow> 's conn" where
  "WriteConn rw = Master"

section \<open>Health\<close>

text \<open>\<open>pings\<close> says which replicas answer.\<close>

definition pingAndUpdateSlaves :: "('s \<Rightarrow> bool) \<Rightarrow> 's rw_db \<Rightarrow> 's rw_db" where
  "pingAndUpdateSlaves pings rw = rw\<lparr>unhealthySet := set (filter (\<lambda>s. \<not> pings s) (rw_slaves rw))\<rparr>"

definition SlaveHealth :: "'s rw_db \<Rightarrow> bool list" where
  "SlaveHealth rw = map (\<lambda>s. s \<notin> unhealthySet rw) (rw_slaves rw)"

definition PingAll :: "bool \<Rightarrow> ('s \<Rightarrow> bool) \<Rightarrow> 's rw_db \<Rightarrow> gerr + unit" where
  "PingAll master_answers pings rw =
     (if \<not> master_answers then Inl (Sentinel ''master ping'')
      else (case find (\<lambda>i. \<not> pings (rw_slaves rw ! i)) [0..<length (rw_slaves rw)] of
        Some i \<Rightarrow> Inl (Sentinel (''slave['' @ Itoa (int i) @ ''] ping''))
      | None \<Rightarrow> Inr ()))"

text \<open>\<open>closes\<close> gives the error of closing a connection.\<close>

definition CloseAll :: "('s conn \<Rightarrow> gerr option) \<Rightarrow> 's rw_db \<Rightarrow> gerr list" where
  "CloseAll closes rw = List.map_filter closes (Master # map Slave (rw_slaves rw))"

section \<open>Runs\<close>

datatype 's rw_event = Reads bool | PingRound "'s \<Rightarrow> bool"

definition rw_step :: "'s rw_event \<Rightarrow> 's conn list \<times> 's rw_db \<Rightarrow> 's conn list \<times> 's rw_db" where
  "rw_step ev = (\<lambda>(cs, rw). case ev of
      Reads forced \<Rightarrow> (case ReadConn forced rw of (c, rw') \<Rightarrow> (cs @ [c], rw'))
    | PingRound pings \<Rightarrow> (cs, pingAndUpdateSlaves pings rw))"

definition run_rw :: "'s rw_event list \<Rightarrow> 's rw_db \<Rightarrow> 's conn list \<times> 's rw_db" where
  "run_rw evs rw = fold rw_step evs ([], rw)"

text \<open>Who answered in the last round; before the first one everybody counts as reachable.\<close>

definition last_round :: "'s rw_event list \<Rightarrow> 's \<Rightarrow> bool" where
  "last_round evs = fold (\<lambda>ev l. case ev of Reads b \<Rightarrow> l | PingRound pings \<Rightarrow> pings) evs (\<lambda>s. True)"

section \<open>The replica that is read\<close>

lemma healthy_simps [simp]: "set (healthy rw) \<subseteq> set (rw_slaves rw)" "healthy (rw\<lparr>slaveIdx := i\<rparr>) = healthy rw"
  by (auto simp: healthy_def)

lemma pickSlave_healthy:
  assumes "pickSlave rw = (Some s, rw')"
  shows "s \<in> set (healthy rw)"
proof -
  have "healthy rw \<noteq> []" and s: "s = healthy rw ! (unat (slaveIdx rw + 1) mod length (healthy rw))"
    using assms by (auto simp: pickSlave_def Let_def split: if_splits)
  then show ?thesis by simp
qed

lemma ReadConn_keeps: "rw_slaves (snd (ReadConn f rw)) = rw_slaves rw \<and> unhealthySet (snd (ReadConn f rw)) = unhealthySet rw"
  by (simp add: ReadConn_def pickSlave_def Let_def)

lemma last_round_snoc: "last_round (evs @ [Reads b]) = last_round evs" "last_round (evs @ [PingRound p]) = p"
  by (simp_all add: last_round_def)

lemma run_rw_unhealthy:
  "rw_slaves (snd (run_rw evs (NewRWDB ss))) = ss \<and> unhealthySet (snd (run_rw evs (NewRWDB ss))) = {s \<in> set ss. \<not> last_round evs s}"
proof (induction evs rule: rev_induct)
  case Nil
  show ?case by (simp add: run_rw_def NewRWDB_def last_round_def)
next
  case (snoc ev evs)
  obtain cs rw where r: "run_rw evs (NewRWDB ss) = (cs, rw)" by fastforce
  show ?case
  proof (cases ev)
    case (Reads b)
    have "snd (run_rw (evs @ [ev]) (NewRWDB ss)) = snd (ReadConn b rw)"
      using r Reads by (simp add: run_rw_def rw_step_def split: prod.splits)
    with snoc r Reads show ?thesis by (simp add: ReadConn_keeps last_round_snoc)
  next
    case (PingRound p)
    have "snd (run_rw (evs @ [ev]) (NewRWDB ss)) = pingAndUpdateSlaves p rw"
      using r PingRound by (simp add: run_rw_def rw_step_def)
    with snoc r PingRound show ?thesis by (auto simp: pingAndUpdateSlaves_def last_round_snoc)
  qed
qed

text \<open>After any reads and rounds, a read that must not be forced goes to a replica that answered in the last round, and
to the primary only when none did; a forced read and every write go to the primary.\<close>

theorem reads_go_to_reachable_replicas:
  "(case fst (ReadConn False (snd (run_rw evs (NewRWDB ss)))) of
      Slave s \<Rightarrow> s \<in> set ss \<and> last_round evs s
    | Master \<Rightarrow> filter (last_round evs) ss = []) \<and>
   fst (ReadConn True (snd (run_rw evs (NewRWDB ss)))) = Master \<and> WriteConn (snd (run_rw evs (NewRWDB ss))) = Master"
proof -
  let ?rw = "snd (run_rw evs (NewRWDB ss))"
  have h: "set (healthy ?rw) = {s \<in> set ss. last_round evs s}"
    using run_rw_unhealthy [of evs ss] by (auto simp: healthy_def)
  have "case fst (ReadConn False ?rw) of Slave s \<Rightarrow> s \<in> set (healthy ?rw) | Master \<Rightarrow> healthy ?rw = []"
  proof (cases "healthy ?rw = []")
    case True
    then show ?thesis by (simp add: ReadConn_def pickSlave_def)
  next
    case False
    then have "rw_slaves ?rw \<noteq> []" by (auto simp: healthy_def)
    with False show ?thesis
      using pickSlave_healthy [of ?rw] by (auto simp: ReadConn_def pickSlave_def Let_def)
  qed
  moreover have "healthy ?rw = filter (last_round evs) ss"
    using run_rw_unhealthy [of evs ss] by (auto simp: healthy_def intro: filter_cong)
  ultimately have "case fst (ReadConn False ?rw) of Slave s \<Rightarrow> s \<in> set ss \<and> last_round evs s | Master \<Rightarrow> filter (last_round evs) ss = []"
    using h by (auto split: conn.splits)
  then show ?thesis by (simp add: ReadConn_def [of True] WriteConn_def)
qed

section \<open>Replicas are read evenly\<close>

primrec picks :: "nat \<Rightarrow> 's rw_db \<Rightarrow> 's list" where
  "picks 0 rw = []"
| "picks (Suc n) rw = (case ReadConn False rw of (Slave s, rw') \<Rightarrow> s # picks n rw' | (Master, rw') \<Rightarrow> picks n rw')"

lemma ReadConn_in_turn:
  assumes "healthy rw \<noteq> []" and "unat (slaveIdx rw) + 1 < 2 ^ 64"
  shows "ReadConn False rw =
    (Slave (healthy rw ! ((unat (slaveIdx rw) + 1) mod length (healthy rw))), rw\<lparr>slaveIdx := slaveIdx rw + 1\<rparr>)"
    and "unat (slaveIdx rw + 1) = unat (slaveIdx rw) + 1"
proof -
  show u: "unat (slaveIdx rw + 1) = unat (slaveIdx rw) + 1"
    using assms(2) by (subst unat_add_lem [THEN iffD1]) simp_all
  have "rw_slaves rw \<noteq> []" using assms(1) by (auto simp: healthy_def)
  then show "ReadConn False rw =
    (Slave (healthy rw ! ((unat (slaveIdx rw) + 1) mod length (healthy rw))), rw\<lparr>slaveIdx := slaveIdx rw + 1\<rparr>)"
    using assms(1) u by (simp add: ReadConn_def pickSlave_def Let_def)
qed

lemma picks_in_turn:
  assumes "healthy rw \<noteq> []" and "unat (slaveIdx rw) + n < 2 ^ 64"
  shows "picks n rw = map (\<lambda>j. healthy rw ! ((unat (slaveIdx rw) + 1 + j) mod length (healthy rw))) [0..<n]"
  using assms
proof (induction n arbitrary: rw)
  case (Suc n)
  let ?rw = "rw\<lparr>slaveIdx := slaveIdx rw + 1\<rparr>"
  note r = ReadConn_in_turn [of rw, OF Suc.prems(1)]
  have "unat (slaveIdx rw) + 1 < 2 ^ 64" using Suc.prems(2) by simp
  note r = r [OF this]
  have "picks n ?rw = map (\<lambda>j. healthy rw ! ((unat (slaveIdx rw) + 1 + Suc j) mod length (healthy rw))) [0..<n]"
    using Suc.IH [of ?rw] Suc.prems r(2) by simp
  then show ?case using r(1) by (simp add: upt_conv_Cons map_Suc_upt [symmetric] del: upt_Suc)
qed simp

lemma mset_rotate: "mset (rotate n xs) = mset xs"
proof (induction n)
  case (Suc n)
  have "mset (rotate1 ys) = mset ys" for ys :: "'a list" by (cases ys) simp_all
  with Suc show ?case by simp
qed simp

lemma rotation_mset: "mset (map (\<lambda>j. xs ! ((a + j) mod length xs)) [0..<length xs]) = mset xs"
proof (cases "xs = []")
  case False
  have "map (\<lambda>j. xs ! ((a + j) mod length xs)) [0..<length xs] = rotate a xs"
    by (rule nth_equalityI) (simp_all add: nth_rotate add.commute)
  then show ?thesis by (simp add: mset_rotate del: mset_map)
qed simp

lemma turns_mset:
  "mset (map (\<lambda>j. xs ! ((a + j) mod length xs)) [0..<n * length xs]) = repeat_mset n (mset xs)"
proof (induction n)
  case (Suc n)
  have "[0..<Suc n * length xs] = [0..<n * length xs] @ map (\<lambda>j. n * length xs + j) [0..<length xs]"
    using map_add_upt [of "n * length xs" "length xs"] upt_add_eq_append [of 0 "n * length xs" "length xs"]
    by (simp add: add.commute)
  moreover have "xs ! ((a + (n * length xs + j)) mod length xs) = xs ! ((a + j) mod length xs)" for j
    by (metis add.assoc add.commute mod_mult_self2 mult.commute)
  ultimately show ?case using Suc rotation_mset [of xs a] by (simp add: comp_def)
qed simp

text \<open>As long as the health does not change and the counter does not wrap, n rounds of reads give every reachable
replica exactly n reads.\<close>

theorem replicas_are_read_evenly:
  assumes "healthy rw \<noteq> []" and "unat (slaveIdx rw) + n * length (healthy rw) < 2 ^ 64"
  shows "mset (picks (n * length (healthy rw)) rw) = repeat_mset n (mset (healthy rw))"
  using picks_in_turn [OF assms] turns_mset [of "healthy rw" "unat (slaveIdx rw) + 1" n] by simp

theorem replicas_are_read_evenly_witness:
  "mset (picks 6 (NewRWDB [''a'', ''b'', ''c''])) = {#''a'', ''a'', ''b'', ''b'', ''c'', ''c''#}"
proof -
  have h: "healthy (NewRWDB [''a'', ''b'', ''c'']) = [''a'', ''b'', ''c'']" "unat (slaveIdx (NewRWDB [''a'', ''b'', ''c''])) = 0"
    by (simp_all add: healthy_def NewRWDB_def)
  have "replicate_mset 2 x = {#x, x#}" for x :: string by (simp add: numeral_2_eq_2)
  then show ?thesis
    using replicas_are_read_evenly [of "NewRWDB [''a'', ''b'', ''c'']" 2] by (simp add: h)
qed

section \<open>Health checks\<close>

text \<open>After a round the reported health is what the pings said.\<close>

theorem health_is_the_last_round: "SlaveHealth (pingAndUpdateSlaves pings rw) = map pings (rw_slaves rw)"
  by (simp add: SlaveHealth_def pingAndUpdateSlaves_def)

text \<open>The check of the whole database fails as soon as one replica does not answer, although reads then
go to the others.\<close>

theorem one_replica_fails_the_check:
  assumes "s \<in> set (rw_slaves rw)" and "\<not> pings s"
  shows "\<exists>e. PingAll True pings rw = Inl e"
proof -
  obtain i where "i < length (rw_slaves rw)" "\<not> pings (rw_slaves rw ! i)" using assms by (metis in_set_conv_nth)
  then have "find (\<lambda>i. \<not> pings (rw_slaves rw ! i)) [0..<length (rw_slaves rw)] \<noteq> None"
    by (auto simp: find_None_iff)
  then show ?thesis by (auto simp: PingAll_def)
qed

theorem one_replica_fails_the_check_witness:
  "\<exists>e. PingAll True (\<lambda>s. s = ''a'') (NewRWDB [''a'', ''b'']) = Inl e"
  by (rule one_replica_fails_the_check [of "''b''"]) (simp_all add: NewRWDB_def)

end
