(* ===== verification/Tracing.thy ===== *)
theory Tracing
  imports GoText Complex_Main "HOL-Library.Multiset"
begin

text \<open>
  Traces (\<open>internal/trace/trace.go\<close>, \<open>otlp.go\<close>): spans with their parents, the decision which of them are
  exported, and the exporter with its queue. Identifiers are natural numbers, of 16 and 8 bytes, that the
  random source gives; the extraction of a header's \<open>traceparent\<close> is the library's: an argument.
\<close>

section \<open>Spans\<close>

datatype span_kind = SpanKindInternal | SpanKindServer | SpanKindClient | SpanKindProducer | SpanKindConsumer

datatype status_code = StatusCodeUnset | StatusCodeOK | StatusCodeError

definition kind_text :: "span_kind \<Rightarrow> string" where
  "kind_text k = (case k of SpanKindServer \<Rightarrow> ''server'' | SpanKindClient \<Rightarrow> ''client'' | SpanKindProducer \<Rightarrow> ''producer''
     | SpanKindConsumer \<Rightarrow> ''consumer'' | SpanKindInternal \<Rightarrow> ''internal'')"

definition status_text :: "status_code \<Rightarrow> string" where
  "status_text c = (case c of StatusCodeOK \<Rightarrow> ''OK'' | StatusCodeError \<Rightarrow> ''ERROR'' | StatusCodeUnset \<Rightarrow> ''UNSET'')"

definition spanKindToInt :: "string \<Rightarrow> int" where
  "spanKindToInt k = (if k = ''server'' then 2 else if k = ''client'' then 3 else if k = ''producer'' then 4
     else if k = ''consumer'' then 5 else 1)"

definition spanStatusToInt :: "string \<Rightarrow> int" where
  "spanStatusToInt s = (if s = ''OK'' then 1 else if s = ''ERROR'' then 2 else 0)"

record span_context =
  TraceID :: nat
  SpanID :: nat
  Sampled :: bool
  Remote :: bool

definition no_context :: span_context where
  "no_context = \<lparr>TraceID = 0, SpanID = 0, Sampled = False, Remote = False\<rparr>"

definition IsValid :: "span_context \<Rightarrow> bool" where
  "IsValid sc \<longleftrightarrow> TraceID sc \<noteq> 0 \<and> SpanID sc \<noteq> 0"

record span =
  sp_name :: string
  sp_kind :: span_kind
  sp_sc :: span_context
  sp_parent :: span_context
  sp_start :: instant
  sp_end :: instant
  sp_status :: status_code
  sp_desc :: string
  sp_err :: "string option"
  sp_attrs :: "string \<rightharpoonup> string"
  sp_ended :: bool

definition SetAttribute :: "string \<Rightarrow> string \<Rightarrow> span \<Rightarrow> span" where
  "SetAttribute k v s = s\<lparr>sp_attrs := (sp_attrs s)(k \<mapsto> v)\<rparr>"

definition SetStatus :: "status_code \<Rightarrow> string \<Rightarrow> span \<Rightarrow> span" where
  "SetStatus c desc s = s\<lparr>sp_status := c, sp_desc := desc\<rparr>"

definition RecordError :: "string option \<Rightarrow> span \<Rightarrow> span" where
  "RecordError e s = (case e of None \<Rightarrow> s | Some m \<Rightarrow> s\<lparr>sp_err := Some m, sp_status := StatusCodeError\<rparr>)"

definition ParentIDHex :: "span \<Rightarrow> nat option" where
  "ParentIDHex s = (if IsValid (sp_parent s) then Some (SpanID (sp_parent s)) else None)"

section \<open>Starting a span\<close>

datatype span_option = WithKind span_kind | WithAttributes "(string \<times> string) list"

definition apply_option :: "span_option \<Rightarrow> span \<Rightarrow> span" where
  "apply_option opt s = (case opt of
      WithKind k \<Rightarrow> s\<lparr>sp_kind := k\<rparr>
    | WithAttributes kvs \<Rightarrow> fold (\<lambda>(k, v). SetAttribute k v) kvs s)"

text \<open>Options and setters leave the identifiers alone.\<close>

lemma SetAttribute_keeps [simp]: "sp_sc (SetAttribute k v s) = sp_sc s" "sp_parent (SetAttribute k v s) = sp_parent s"
  "sp_ended (SetAttribute k v s) = sp_ended s" "sp_err (SetAttribute k v s) = sp_err s"
  by (simp_all add: SetAttribute_def)

lemma fold_SetAttribute_keeps [simp]: "sp_sc (fold (\<lambda>(k, v). SetAttribute k v) kvs s) = sp_sc s"
  "sp_parent (fold (\<lambda>(k, v). SetAttribute k v) kvs s) = sp_parent s" "sp_ended (fold (\<lambda>(k, v). SetAttribute k v) kvs s) = sp_ended s"
  by (induction kvs arbitrary: s) auto

lemma apply_option_keeps [simp]: "sp_sc (apply_option opt s) = sp_sc s" "sp_parent (apply_option opt s) = sp_parent s"
  "sp_ended (apply_option opt s) = sp_ended s"
  by (simp_all add: apply_option_def split: span_option.splits)

lemma options_keep [simp]: "sp_sc (fold apply_option opts s) = sp_sc s" "sp_parent (fold apply_option opts s) = sp_parent s"
  "sp_ended (fold apply_option opts s) = sp_ended s"
  by (induction opts arbitrary: s) simp_all

text \<open>What a context carries: the span of this process, and the identifiers that came with the request.\<close>

record trace_ctx =
  tc_span :: "span option"
  tc_remote :: "span_context option"

definition parent_context :: "trace_ctx \<Rightarrow> span_context" where
  "parent_context ctx = (case tc_span ctx of
      Some p \<Rightarrow> sp_sc p
    | None \<Rightarrow> (case tc_remote ctx of Some osc \<Rightarrow> if IsValid osc then osc else no_context | None \<Rightarrow> no_context))"

text \<open>\<open>trace\<close> and \<open>new\<close> are the random identifiers a root and a span get.\<close>

definition StartSpan :: "nat \<Rightarrow> nat \<Rightarrow> string \<Rightarrow> span_option list \<Rightarrow> instant \<Rightarrow> trace_ctx \<Rightarrow> trace_ctx \<times> span" where
  "StartSpan trace new name opts t ctx =
     (let psc = parent_context ctx;
          sc = \<lparr>TraceID = (if IsValid psc then TraceID psc else trace), SpanID = new, Sampled = True, Remote = False\<rparr>;
          s = fold apply_option opts \<lparr>sp_name = name, sp_kind = SpanKindInternal, sp_sc = sc, sp_parent = psc, sp_start = t, sp_end = 0,
                sp_status = StatusCodeUnset, sp_desc = [], sp_err = None, sp_attrs = Map.empty, sp_ended = False\<rparr>
      in (\<lparr>tc_span = Some s, tc_remote = Some sc\<rparr>, s))"

definition from_old_header :: "string \<Rightarrow> (string \<Rightarrow> nat option) \<Rightarrow> nat \<Rightarrow> trace_ctx \<Rightarrow> trace_ctx" where
  "from_old_header old from_hex new ctx =
     (if old = [] then ctx
      else (case from_hex old of
        Some tid \<Rightarrow> if tid \<noteq> 0 then ctx\<lparr>tc_remote := Some \<lparr>TraceID = tid, SpanID = new, Sampled = True, Remote = True\<rparr>\<rparr> else ctx
      | None \<Rightarrow> ctx))"

definition old_trace :: "nat \<Rightarrow> string \<Rightarrow> (string \<Rightarrow> nat option) \<Rightarrow> nat" where
  "old_trace fresh old from_hex = (case from_hex old of Some tid \<Rightarrow> if old \<noteq> [] \<and> tid \<noteq> 0 then tid else fresh | None \<Rightarrow> fresh)"

text \<open>A request's context: the \<open>traceparent\<close> the library reads, else the older header as a parent.\<close>

definition ExtractHTTPHeader :: "span_context option \<Rightarrow> string \<Rightarrow> (string \<Rightarrow> nat option) \<Rightarrow> nat \<Rightarrow> trace_ctx \<Rightarrow> trace_ctx" where
  "ExtractHTTPHeader traceparent old from_hex new ctx =
     (let extracted = (case traceparent of Some sc \<Rightarrow> if IsValid sc then ctx\<lparr>tc_remote := Some sc\<rparr> else ctx | None \<Rightarrow> ctx) in
      case tc_remote extracted of
        Some sc \<Rightarrow> if IsValid sc then extracted else from_old_header old from_hex new ctx
      | None \<Rightarrow> from_old_header old from_hex new ctx)"

text \<open>A request whose \<open>traceparent\<close> is valid continues its trace; one with the older header alone does as well, below a
parent of its own making; any other starts a trace.\<close>

lemma request_trace:
  assumes "tc_span ctx = None" and "tc_remote ctx = None" and "new \<noteq> 0"
  shows "TraceID (sp_sc (snd (StartSpan tid sid name opts t (ExtractHTTPHeader traceparent old from_hex new ctx)))) =
    (case traceparent of
       Some sc \<Rightarrow> if IsValid sc then TraceID sc else old_trace tid old from_hex
     | None \<Rightarrow> old_trace tid old from_hex)"
  using assms
  by (auto simp: StartSpan_def Let_def ExtractHTTPHeader_def from_old_header_def old_trace_def parent_context_def no_context_def IsValid_def split: option.splits)

section \<open>Which spans are exported\<close>

record sampler =
  sa_off :: bool
  sa_ratio :: real
  sa_errors :: bool

definition SetSampler :: "string \<Rightarrow> real \<Rightarrow> real \<Rightarrow> sampler" where
  "SetSampler kind rate error_rate =
     (let k = ToLower kind in
      if k = ''always_off'' then \<lparr>sa_off = True, sa_ratio = 0, sa_errors = False\<rparr>
      else if k = ''always_on'' then \<lparr>sa_off = False, sa_ratio = -1, sa_errors = False\<rparr>
      else \<lparr>sa_off = False, sa_ratio = rate, sa_errors = (error_rate \<ge> 1)\<rparr>)"

definition last_byte :: "nat \<Rightarrow> nat" where
  "last_byte tid = tid mod 256"

definition shouldExport :: "sampler \<Rightarrow> span_context \<Rightarrow> bool \<Rightarrow> bool" where
  "shouldExport s sc is_err \<longleftrightarrow>
     (if sa_off s then False
      else if is_err \<and> sa_errors s then True
      else if sa_ratio s < 0 then True
      else if \<not> IsValid sc then True
      else real (last_byte (TraceID sc)) / 255 < sa_ratio s)"

section \<open>The exporter\<close>

text \<open>What \<open>send\<close> makes of a span, without the fields it copies; \<open>0\<close> as the parent is sent as 16 zeros. The batches
  handed to it are \<open>ex_sent\<close>: whether the collector gets them is not looked at.\<close>

record otlp_span =
  os_trace :: nat
  os_span :: nat
  os_parent :: nat
  os_kind :: int
  os_status :: int

definition otlp_of :: "span \<Rightarrow> otlp_span" where
  "otlp_of s = \<lparr>os_trace = TraceID (sp_sc s), os_span = SpanID (sp_sc s), os_parent = SpanID (sp_parent s),
     os_kind = spanKindToInt (kind_text (sp_kind s)), os_status = spanStatusToInt (status_text (sp_status s))\<rparr>"

record exporter =
  ex_queue :: "span list"
  ex_batch :: "span list"
  ex_sent :: "otlp_span list list"
  ex_dropped :: int
  ex_stopped :: bool

definition queueCapacity :: nat where "queueCapacity = 2048"

definition NewOTLPHTTPExporter :: exporter where
  "NewOTLPHTTPExporter = \<lparr>ex_queue = [], ex_batch = [], ex_sent = [], ex_dropped = 0, ex_stopped = False\<rparr>"

definition Export :: "span \<Rightarrow> exporter \<Rightarrow> exporter" where
  "Export s e = (if length (ex_queue e) < queueCapacity then e\<lparr>ex_queue := ex_queue e @ [s]\<rparr> else e\<lparr>ex_dropped := ex_dropped e + 1\<rparr>)"

definition flush_spans :: "exporter \<Rightarrow> exporter" where
  "flush_spans e = (if ex_batch e = [] then e else e\<lparr>ex_sent := ex_sent e @ [map otlp_of (ex_batch e)], ex_batch := []\<rparr>)"

text \<open>The cases of \<open>worker\<close>: a span, a tick, and the stop, after which the queue goes into one batch.\<close>

definition take_span :: "nat \<Rightarrow> exporter \<Rightarrow> exporter" where
  "take_span bsize e = (case ex_queue e of
      [] \<Rightarrow> e
    | s # ss \<Rightarrow> (let e' = e\<lparr>ex_queue := ss, ex_batch := ex_batch e @ [s]\<rparr> in
        if length (ex_batch e') \<ge> bsize then flush_spans e' else e'))"

definition ShutdownExporter :: "exporter \<Rightarrow> exporter" where
  "ShutdownExporter e = (flush_spans (e\<lparr>ex_queue := [], ex_batch := ex_batch e @ ex_queue e\<rparr>))\<lparr>ex_stopped := True\<rparr>"

section \<open>The end of a span\<close>

definition EndSpan :: "sampler \<Rightarrow> instant \<Rightarrow> span \<times> exporter \<Rightarrow> span \<times> exporter" where
  "EndSpan sam t = (\<lambda>(s, e).
     if sp_ended s then (s, e)
     else let s' = s\<lparr>sp_ended := True, sp_end := t\<rparr> in
       (s', if shouldExport sam (sp_sc s') (sp_err s' \<noteq> None) then Export s' e else e))"

datatype span_change = Attribute string string | Status status_code string | Failed "string option"

definition change_span :: "span_change \<Rightarrow> span \<Rightarrow> span" where
  "change_span ch s = (case ch of Attribute k v \<Rightarrow> SetAttribute k v s | Status c d \<Rightarrow> SetStatus c d s | Failed e \<Rightarrow> RecordError e s)"

datatype span_event = Starts "nat option" nat nat string "span_option list" | Changes nat span_change | Ends nat | Takes | Tick | Stops | Passes nat

text \<open>
  A process: all its spans, numbered by their start, and the exporter. A span starts below another one of
  the process or below the context of a request, \<open>remote\<close>.
\<close>

record tracing =
  tr_spans :: "span list"
  tr_exporter :: exporter
  tr_now :: instant

definition trace_step :: "sampler \<Rightarrow> nat \<Rightarrow> span_context option \<Rightarrow> span_event \<Rightarrow> tracing \<Rightarrow> tracing" where
  "trace_step sam bsize remote ev p = (case ev of
      Starts below tid new name opts \<Rightarrow>
        (let ctx = (case below of
             Some i \<Rightarrow> if i < length (tr_spans p) then \<lparr>tc_span = Some (tr_spans p ! i), tc_remote = None\<rparr> else \<lparr>tc_span = None, tc_remote = remote\<rparr>
           | None \<Rightarrow> \<lparr>tc_span = None, tc_remote = remote\<rparr>)
         in p\<lparr>tr_spans := tr_spans p @ [snd (StartSpan tid new name opts (tr_now p) ctx)]\<rparr>)
    | Changes i f \<Rightarrow> (if i < length (tr_spans p) then p\<lparr>tr_spans := (tr_spans p)[i := change_span f (tr_spans p ! i)]\<rparr> else p)
    | Ends i \<Rightarrow> (if i < length (tr_spans p)
        then (case EndSpan sam (tr_now p) (tr_spans p ! i, tr_exporter p) of (s, e) \<Rightarrow> p\<lparr>tr_spans := (tr_spans p)[i := s], tr_exporter := e\<rparr>)
        else p)
    | Takes \<Rightarrow> (if ex_stopped (tr_exporter p) then p else p\<lparr>tr_exporter := take_span bsize (tr_exporter p)\<rparr>)
    | Tick \<Rightarrow> (if ex_stopped (tr_exporter p) then p else p\<lparr>tr_exporter := flush_spans (tr_exporter p)\<rparr>)
    | Stops \<Rightarrow> (if ex_stopped (tr_exporter p) then p else p\<lparr>tr_exporter := ShutdownExporter (tr_exporter p)\<rparr>)
    | Passes n \<Rightarrow> p\<lparr>tr_now := tr_now p + int n\<rparr>)"

definition run_trace :: "sampler \<Rightarrow> nat \<Rightarrow> span_context option \<Rightarrow> span_event list \<Rightarrow> tracing \<Rightarrow> tracing" where
  "run_trace sam bsize remote evs p = fold (trace_step sam bsize remote) evs p"

definition new_tracing :: tracing where
  "new_tracing = \<lparr>tr_spans = [], tr_exporter = NewOTLPHTTPExporter, tr_now = 0\<rparr>"

section \<open>One trace, one decision\<close>

lemma change_span_keeps [simp]: "sp_sc (change_span ch s) = sp_sc s" "sp_parent (change_span ch s) = sp_parent s"
  "sp_ended (change_span ch s) = sp_ended s"
  by (simp_all add: change_span_def SetStatus_def RecordError_def split: span_change.splits option.splits)

lemma EndSpan_keeps [simp]: "sp_sc (fst (EndSpan sam t (s, e))) = sp_sc s" "sp_parent (fst (EndSpan sam t (s, e))) = sp_parent s"
  by (simp_all add: EndSpan_def Let_def)

text \<open>A span has the trace of its parent.\<close>

definition inherits :: "span \<Rightarrow> bool" where
  "inherits s \<longleftrightarrow> (IsValid (sp_parent s) \<longrightarrow> TraceID (sp_sc s) = TraceID (sp_parent s)) \<and> Sampled (sp_sc s)"

lemma StartSpan_inherits: "inherits (snd (StartSpan tid new name opts t ctx)) \<and> \<not> sp_ended (snd (StartSpan tid new name opts t ctx))"
  by (simp add: StartSpan_def Let_def inherits_def)

lemma trace_step_inherits:
  assumes "list_all inherits (tr_spans p)"
  shows "list_all inherits (tr_spans (trace_step sam bsize remote ev p))"
proof -
  have u: "list_all inherits ((tr_spans p)[i := s])" if "sp_sc s = sp_sc (tr_spans p ! i)" "sp_parent s = sp_parent (tr_spans p ! i)" "i < length (tr_spans p)" for i s
    using assms that by (auto simp: list_all_length nth_list_update inherits_def)
  show ?thesis
  proof (cases ev)
    case (Ends i)
    then show ?thesis using assms u [of "fst (EndSpan sam (tr_now p) (tr_spans p ! i, tr_exporter p))" i]
      by (cases "EndSpan sam (tr_now p) (tr_spans p ! i, tr_exporter p)")
        (auto simp: trace_step_def dest: arg_cong [of _ _ fst] simp del: EndSpan_keeps simp: EndSpan_keeps [of sam "tr_now p" "tr_spans p ! i" "tr_exporter p", symmetric])
  qed (use assms u StartSpan_inherits in \<open>auto simp: trace_step_def Let_def\<close>)
qed

text \<open>Whatever spans are started, changed and ended, a span that has a parent belongs to its trace, and without
errors the sampler decides for both alike.\<close>

theorem sampling_follows_the_parent:
  assumes "s \<in> set (tr_spans (run_trace sam bsize remote evs new_tracing))" and "IsValid (sp_parent s)" and "SpanID (sp_sc s) \<noteq> 0"
  shows "TraceID (sp_sc s) = TraceID (sp_parent s) \<and> shouldExport sam (sp_sc s) False = shouldExport sam (sp_parent s) False"
proof -
  have "list_all inherits (tr_spans (run_trace sam bsize remote evs p))" if "list_all inherits (tr_spans p)" for p
    using that by (induction evs arbitrary: p) (simp_all add: run_trace_def trace_step_inherits)
  then have "list_all inherits (tr_spans (run_trace sam bsize remote evs new_tracing))" by (simp add: new_tracing_def)
  then have "inherits s" using assms(1) by (simp add: list_all_iff)
  with assms(2,3) show ?thesis by (simp add: inherits_def shouldExport_def IsValid_def)
qed

section \<open>Every span is exported at most once\<close>

definition in_exporter :: "exporter \<Rightarrow> nat list" where
  "in_exporter e = map os_span (concat (ex_sent e)) @ map (\<lambda>s. SpanID (sp_sc s)) (ex_batch e @ ex_queue e)"

definition ended_ids :: "tracing \<Rightarrow> nat list" where
  "ended_ids p = map (\<lambda>s. SpanID (sp_sc s)) (filter sp_ended (tr_spans p))"

definition exported_once :: "tracing \<Rightarrow> bool" where
  "exported_once p \<longleftrightarrow> mset (in_exporter (tr_exporter p)) \<subseteq># mset (ended_ids p) \<and> 0 \<le> ex_dropped (tr_exporter p) \<and>
     int (length (in_exporter (tr_exporter p))) + ex_dropped (tr_exporter p) \<le> int (length (ended_ids p)) \<and>
     length (ex_queue (tr_exporter p)) \<le> queueCapacity"

lemma flush_spans_same [simp]: "in_exporter (flush_spans e) = in_exporter e" "ex_dropped (flush_spans e) = ex_dropped e"
  "ex_queue (flush_spans e) = ex_queue e"
  by (simp_all add: flush_spans_def in_exporter_def otlp_of_def comp_def)

lemma take_span_same [simp]: "in_exporter (take_span bsize e) = in_exporter e" "ex_dropped (take_span bsize e) = ex_dropped e"
  "ex_queue (take_span bsize e) = tl (ex_queue e)"
  by (cases "ex_queue e"; simp add: take_span_def Let_def; simp add: in_exporter_def)+

lemma ShutdownExporter_same [simp]: "in_exporter (ShutdownExporter e) = in_exporter e" "ex_dropped (ShutdownExporter e) = ex_dropped e"
  "ex_queue (ShutdownExporter e) = []"
proof -
  have "in_exporter (e'\<lparr>ex_stopped := b\<rparr>) = in_exporter e'" for e' b by (simp add: in_exporter_def)
  then show "in_exporter (ShutdownExporter e) = in_exporter e"
    by (simp add: ShutdownExporter_def) (simp add: in_exporter_def)
qed (simp_all add: ShutdownExporter_def)

lemma filter_ended_same:
  "i < length ss \<Longrightarrow> sp_ended s = sp_ended (ss ! i) \<Longrightarrow> sp_sc s = sp_sc (ss ! i) \<Longrightarrow>
     map (\<lambda>s. SpanID (sp_sc s)) (filter sp_ended (ss[i := s])) = map (\<lambda>s. SpanID (sp_sc s)) (filter sp_ended ss)"
  by (induction ss arbitrary: i) (auto split: nat.splits simp: less_Suc_eq_0_disj)

lemma filter_ended_new:
  "i < length ss \<Longrightarrow> sp_ended s \<Longrightarrow> \<not> sp_ended (ss ! i) \<Longrightarrow>
     mset (map (\<lambda>s. SpanID (sp_sc s)) (filter sp_ended (ss[i := s]))) =
     add_mset (SpanID (sp_sc s)) (mset (map (\<lambda>s. SpanID (sp_sc s)) (filter sp_ended ss)))"
  by (induction ss arbitrary: i) (auto split: nat.splits simp: less_Suc_eq_0_disj)

lemma Export_in: "in_exporter (Export s e) = in_exporter e @ (if length (ex_queue e) < queueCapacity then [SpanID (sp_sc s)] else [])"
  "ex_dropped (Export s e) = ex_dropped e + (if length (ex_queue e) < queueCapacity then 0 else 1)"
  "length (ex_queue e) \<le> queueCapacity \<Longrightarrow> length (ex_queue (Export s e)) \<le> queueCapacity"
  by (simp_all add: Export_def in_exporter_def)

lemma end_exported_once:
  assumes "exported_once p" and "i < length (tr_spans p)"
  shows "exported_once (trace_step sam bsize remote (Ends i) p)"
proof (cases "sp_ended (tr_spans p ! i)")
  case True
  then have "trace_step sam bsize remote (Ends i) p = p" using assms(2) by (simp add: trace_step_def EndSpan_def)
  with assms(1) show ?thesis by simp
next
  case False
  let ?s = "(tr_spans p ! i)\<lparr>sp_ended := True, sp_end := tr_now p\<rparr>"
  let ?p = "trace_step sam bsize remote (Ends i) p"
  have p: "tr_spans ?p = (tr_spans p)[i := ?s]"
    "tr_exporter ?p = (if shouldExport sam (sp_sc ?s) (sp_err ?s \<noteq> None) then Export ?s (tr_exporter p) else tr_exporter p)"
    using False assms(2) by (simp_all add: trace_step_def EndSpan_def Let_def)
  have ids: "mset (ended_ids ?p) = add_mset (SpanID (sp_sc ?s)) (mset (ended_ids p))"
    using filter_ended_new [of i "tr_spans p" ?s] False assms(2) by (simp add: ended_ids_def p)
  then have len: "length (ended_ids ?p) = Suc (length (ended_ids p))" by (metis size_add_mset size_mset)
  have sub: "mset (in_exporter (tr_exporter p)) \<subseteq># add_mset (SpanID (sp_sc ?s)) (mset (ended_ids p))"
    using assms(1) by (simp add: exported_once_def subset_mset.le_add_same_cancel2 subseteq_mset_def le_SucI)
  show ?thesis
    using assms(1) sub unfolding exported_once_def ids len p
    by (simp add: Export_in)
qed

lemma trace_step_exported_once:
  assumes "exported_once p"
  shows "exported_once (trace_step sam bsize remote ev p)"
proof (cases ev)
  case (Starts below tid new name opts)
  then show ?thesis using assms StartSpan_inherits
    by (simp add: trace_step_def exported_once_def ended_ids_def Let_def)
next
  case (Changes i ch)
  have "i < length (tr_spans p) \<Longrightarrow> ended_ids (p\<lparr>tr_spans := (tr_spans p)[i := change_span ch (tr_spans p ! i)]\<rparr>) = ended_ids p"
    by (simp add: ended_ids_def filter_ended_same)
  then show ?thesis using Changes assms by (simp add: trace_step_def exported_once_def)
next
  case (Ends i)
  then show ?thesis using assms end_exported_once [OF assms] by (cases "i < length (tr_spans p)") (simp_all add: trace_step_def)
qed (use assms in \<open>auto simp: trace_step_def exported_once_def ended_ids_def\<close>)

text \<open>In every run the exporter holds and has sent each ended span at most once and no other span, counts what it
drops, and never queues more than 2048; this is also so when \<open>End\<close> is called again and after the stop.\<close>

theorem spans_are_exported_once:
  "mset (in_exporter (tr_exporter (run_trace sam bsize remote evs new_tracing))) \<subseteq># mset (ended_ids (run_trace sam bsize remote evs new_tracing)) \<and>
   int (length (in_exporter (tr_exporter (run_trace sam bsize remote evs new_tracing)))) +
     ex_dropped (tr_exporter (run_trace sam bsize remote evs new_tracing)) \<le> int (length (ended_ids (run_trace sam bsize remote evs new_tracing))) \<and>
   length (ex_queue (tr_exporter (run_trace sam bsize remote evs new_tracing))) \<le> 2048"
proof -
  have "exported_once (run_trace sam bsize remote evs p)" if "exported_once p" for p
    using that by (induction evs arbitrary: p) (simp_all add: run_trace_def trace_step_exported_once)
  moreover have "exported_once new_tracing"
    by (simp add: exported_once_def new_tracing_def NewOTLPHTTPExporter_def in_exporter_def ended_ids_def)
  ultimately show ?thesis by (simp add: exported_once_def queueCapacity_def)
qed

section \<open>The rate\<close>

text \<open>At the full rate a trace is left out when the last byte of its identifier is 255, one in 256 of them.\<close>

theorem full_rate_loses_traces:
  assumes "IsValid sc"
  shows "shouldExport (SetSampler ''traceidratio'' 1 0) sc False \<longleftrightarrow> last_byte (TraceID sc) \<noteq> 255"
proof -
  have "ToLower ''traceidratio'' = ''traceidratio''" by code_simp
  moreover have "last_byte (TraceID sc) \<le> 255" using mod_less_divisor [of 256 "TraceID sc"] by (simp add: last_byte_def)
  ultimately show ?thesis using assms by (simp add: shouldExport_def SetSampler_def Let_def divide_less_eq) linarith
qed

text \<open>A root span is sent with a parent of zeros, where the interface of the span says that it has none.\<close>

theorem root_is_sent_with_a_parent:
  "ParentIDHex (snd (StartSpan tid new name [] t \<lparr>tc_span = None, tc_remote = None\<rparr>)) = None \<and>
   os_parent (otlp_of (snd (StartSpan tid new name [] t \<lparr>tc_span = None, tc_remote = None\<rparr>))) = 0"
  by (simp add: StartSpan_def Let_def parent_context_def no_context_def ParentIDHex_def IsValid_def otlp_of_def)

text \<open>The numbers of kinds and states survive their way through text.\<close>

theorem kinds_and_states_are_kept:
  "spanKindToInt (kind_text k) = (case k of SpanKindInternal \<Rightarrow> 1 | SpanKindServer \<Rightarrow> 2 | SpanKindClient \<Rightarrow> 3 | SpanKindProducer \<Rightarrow> 4 | SpanKindConsumer \<Rightarrow> 5)"
  "spanStatusToInt (status_text c) = (case c of StatusCodeUnset \<Rightarrow> 0 | StatusCodeOK \<Rightarrow> 1 | StatusCodeError \<Rightarrow> 2)"
  by (cases k; simp add: spanKindToInt_def kind_text_def) (cases c; simp add: spanStatusToInt_def status_text_def)

section \<open>Witnesses\<close>

theorem full_rate_loses_traces_witness: "\<not> shouldExport (SetSampler ''traceidratio'' 1 0) \<lparr>TraceID = 255, SpanID = 1, Sampled = True, Remote = False\<rparr> False"
  using full_rate_loses_traces [of "\<lparr>TraceID = 255, SpanID = 1, Sampled = True, Remote = False\<rparr>"] by (simp add: IsValid_def last_byte_def)

definition request_and_query :: "span_event list" where
  "request_and_query = [Starts None 77 1 ''GET /'' [WithKind SpanKindServer], Starts (Some 0) 99 2 ''query'' [], Ends 1, Ends 1, Ends 0]"

lemma request_and_query_spans:
  "map (\<lambda>s. (TraceID (sp_sc s), SpanID (sp_sc s), SpanID (sp_parent s))) (tr_spans (run_trace (SetSampler ''always_on'' 0 0) 512 None request_and_query new_tracing)) =
   [(77, 1, 0), (77, 2, 1)]"
  by (simp add: request_and_query_def run_trace_def trace_step_def new_tracing_def StartSpan_def Let_def parent_context_def no_context_def
      apply_option_def IsValid_def EndSpan_def)

theorem sampling_follows_the_parent_witness:
  "case tr_spans (run_trace (SetSampler ''always_on'' 0 0) 512 None request_and_query new_tracing) of
     [r, q] \<Rightarrow> TraceID (sp_sc q) = TraceID (sp_parent q) | _ \<Rightarrow> False"
proof -
  let ?ss = "tr_spans (run_trace (SetSampler ''always_on'' 0 0) 512 None request_and_query new_tracing)"
  obtain r q where rq: "?ss = [r, q]" "SpanID (sp_sc q) = 2" "SpanID (sp_parent q) = 1"
    using request_and_query_spans by (auto simp: map_eq_Cons_conv)
  have "TraceID (sp_parent q) \<noteq> 0"
    using rq by (simp add: request_and_query_def run_trace_def trace_step_def new_tracing_def StartSpan_def Let_def parent_context_def no_context_def
      apply_option_def IsValid_def EndSpan_def) auto
  then show ?thesis
    using sampling_follows_the_parent [of q "SetSampler ''always_on'' 0 0" 512 None request_and_query] rq by (simp add: IsValid_def)
qed

end
