(* ===== verification/Brokers.thy ===== *)
theory Brokers
  imports ProducerProperties Subscription
begin

text \<open>
  The adapters for RocketMQ and RabbitMQ (\<open>internal/mq/rocketmq.go\<close>, \<open>rabbitmq.go\<close>) on the producer and the
  consumer of the other theories: sending in batches, waiting for the confirmations of a channel, and
  what becomes of a delivery. Connections, topics and queues of the brokers are the clients' own.
\<close>

section \<open>Sizes\<close>

text \<open>\<open>poolSize\<close>, \<open>Prefetch\<close> and the numbers of attempts take any positive value; the other sizes the larger of the
configured one and the default.\<close>

definition rocketQueueSizeOf :: "int \<Rightarrow> int" where "rocketQueueSizeOf n = maxInt n 8192"
definition rocketOverflowWorkersOf :: "int \<Rightarrow> int" where "rocketOverflowWorkersOf n = maxInt n 256"
definition rocketBatchSizeOf :: "int \<Rightarrow> int" where "rocketBatchSizeOf n = maxInt n 32"
definition rocketSendRetriesOf :: "int \<Rightarrow> int" where "rocketSendRetriesOf n = (if n > 0 then n else 2)"
definition rocketSendTimeoutOf :: "duration \<Rightarrow> duration" where "rocketSendTimeoutOf d = orDuration d (3 * second)"
definition rabbitQueueSizeOf :: "int \<Rightarrow> int" where "rabbitQueueSizeOf n = maxInt n 8192"
definition rabbitOverflowWorkersOf :: "int \<Rightarrow> int" where "rabbitOverflowWorkersOf n = maxInt n 256"
definition rabbitPoolSizeOf :: "int \<Rightarrow> int" where "rabbitPoolSizeOf n = (if n > 0 then n else 8)"
definition rabbitPrefetchOf :: "int \<Rightarrow> int" where "rabbitPrefetchOf n = (if n > 0 then n else 64)"
definition rabbitSendTimeoutOf :: "duration \<Rightarrow> duration" where "rabbitSendTimeoutOf d = orDuration d (10 * second)"

section \<open>RocketMQ: batches\<close>

text \<open>One call of the library through the breaker, for all messages of a batch; marshalling a message succeeds.\<close>

definition batch_write :: "'m list \<Rightarrow> ('m producer, unit) io" where
  "batch_write msgs s = (case outcomes s of
      [] \<Rightarrow> (Inr (), s\<lparr>sent := sent s @ msgs\<rparr>)
    | Acked # os \<Rightarrow> (Inr (), s\<lparr>sent := sent s @ msgs, outcomes := os\<rparr>)
    | Refused # os \<Rightarrow> (Inl (Fault ''write messages''), s\<lparr>outcomes := os\<rparr>)
    | Blocked # os \<Rightarrow> (Inl errBreakerOpen, s\<lparr>outcomes := os\<rparr>))"

definition requeue_one :: "'m routing \<Rightarrow> 'm \<Rightarrow> ('m producer, unit) io" where
  "requeue_one rt msg =
     bind_io (gets_io (\<lambda>s. length (queue s) < queue_size s)) (\<lambda>room.
       if room then modify_io (\<lambda>s. s\<lparr>queue := queue s @ [msg]\<rparr>) else fallbackToDLQ rt msg errProducerOverflow)"

definition requeueBatch :: "'m routing \<Rightarrow> 'm list \<Rightarrow> ('m producer, unit) io" where
  "requeueBatch rt msgs = for_io msgs (requeue_one rt)"

definition sendBatchTopic :: "'m routing \<Rightarrow> string \<Rightarrow> 'm list \<Rightarrow> ('m producer, unit) io" where
  "sendBatchTopic rt topic msgs =
     bind_io (attempt (batch_write msgs)) (\<lambda>r.
       case r of
         Inr x \<Rightarrow> ret ()
       | Inl e \<Rightarrow> (if isBreakerOpen e then requeueBatch rt msgs
                  else for_io msgs (\<lambda>m. dlq_append (rt_bytes rt) topic m e)))"

text \<open>The topics of a batch come in any order, here in that of their first messages.\<close>

definition sendBatch :: "'m routing \<Rightarrow> 'm list \<Rightarrow> ('m producer, unit) io" where
  "sendBatch rt batch = for_io (remdups (map (topicFor rt) batch))
     (\<lambda>t. sendBatchTopic rt t (filter (\<lambda>m. topicFor rt m = t) batch))"

definition collectBatch :: "nat \<Rightarrow> ('m producer, 'm list) io" where
  "collectBatch n s = (Inr (take (max 1 n) (queue s)), s\<lparr>queue := drop (max 1 n) (queue s)\<rparr>)"

text \<open>Single messages: of the overflow workers, of callers that wait, and dead letters sent again.\<close>

definition rocket_sendOne :: "'m routing \<Rightarrow> 'm \<Rightarrow> ('m producer, unit) io" where
  "rocket_sendOne rt msg =
     bind_io (attempt (batch_write [msg])) (\<lambda>r.
       case r of
         Inr x \<Rightarrow> ret ()
       | Inl e \<Rightarrow> (if isBreakerOpen e then throw e else dlq_append (rt_bytes rt) (topicFor rt msg) msg e))"

definition rocket_SendSync :: "'m \<Rightarrow> ('m producer, unit) io" where
  "rocket_SendSync msg = batch_write [msg]"

definition rocket_relay :: "'m \<Rightarrow> ('m producer, unit) io" where
  "rocket_relay msg = batch_write [msg]"

text \<open>RabbitMQ's, where a message that cannot be marshalled (\<open>m\<close> with \<open>marshals m = False\<close>) is only logged.\<close>

definition errRabbitMarshal :: string where "errRabbitMarshal = ''rabbitmq marshal''"

definition publishOne :: "('m \<Rightarrow> bool) \<Rightarrow> 'm \<Rightarrow> ('m producer, unit) io" where
  "publishOne marshals msg = (if marshals msg then breaker_write msg else throw (Wrap ''json'' (Sentinel errRabbitMarshal)))"

definition rabbit_sendOne :: "('m \<Rightarrow> bool) \<Rightarrow> 'm routing \<Rightarrow> 'm \<Rightarrow> ('m producer, unit) io" where
  "rabbit_sendOne marshals rt msg =
     bind_io (attempt (publishOne marshals msg)) (\<lambda>r.
       case r of
         Inr x \<Rightarrow> ret ()
       | Inl e \<Rightarrow> (if errors_is e errRabbitMarshal then ret ()
                  else if isBreakerOpen e then throw e
                  else dlq_append (rt_bytes rt) (topicFor rt msg) msg e))"

definition rabbit_SendSync :: "('m \<Rightarrow> bool) \<Rightarrow> 'm \<Rightarrow> ('m producer, unit) io" where
  "rabbit_SendSync marshals msg = publishOne marshals msg"

definition rabbit_relay :: "('m \<Rightarrow> bool) \<Rightarrow> 'm \<Rightarrow> ('m producer, unit) io" where
  "rabbit_relay marshals msg = publishOne marshals msg"

text \<open>One round of \<open>loop\<close>; \<open>drainRemaining\<close> goes on with such rounds until the queue is empty.\<close>

definition rocket_round :: "'m routing \<Rightarrow> nat \<Rightarrow> ('m producer, unit) io" where
  "rocket_round rt n = bind_io (gets_io queue) (\<lambda>q. if q = [] then ret () else bind_io (collectBatch n) (sendBatch rt))"

primrec drain_rounds :: "'m routing \<Rightarrow> nat \<Rightarrow> nat \<Rightarrow> ('m producer, unit) io" where
  "drain_rounds rt n 0 = ret ()"
| "drain_rounds rt n (Suc k) = then_io (rocket_round rt n) (drain_rounds rt n k)"

lemma batch_of_one: "batch_write [msg] = breaker_write msg"
  by (auto simp: fun_eq_iff batch_write_def breaker_write_def io_defs split: list.split send_outcome.split)

lemma breaker_write_no_sentinel: "breaker_write msg s = (Inl e, s') \<Longrightarrow> \<not> errors_is e errRabbitMarshal"
  by (auto simp: breaker_write_def errBreakerOpen_def errRabbitMarshal_def io_defs split: list.splits send_outcome.splits)

text \<open>One message is sent alike by all three adapters, so what the theories of the producer show of the shared parts holds
for each of them; a message that cannot be marshalled disappears without a trace.\<close>

theorem adapters_send_alike:
  "rocket_sendOne rt msg = sendOne rt msg" and "rocket_relay msg = relay msg"
  "rabbit_sendOne marshals rt msg = (if marshals msg then sendOne rt msg else ret ())"
proof -
  show "rocket_sendOne rt msg = sendOne rt msg"
    by (auto simp: fun_eq_iff rocket_sendOne_def sendOne_def batch_of_one isBreakerOpen_def errBreakerOpen_def io_defs split: sum.split prod.split)
  show "rocket_relay msg = relay msg" by (simp add: rocket_relay_def relay_def batch_of_one)
  show "rabbit_sendOne marshals rt msg = (if marshals msg then sendOne rt msg else ret ())"
    using breaker_write_no_sentinel [of msg]
    by (auto simp: fun_eq_iff rabbit_sendOne_def publishOne_def sendOne_def isBreakerOpen_def errors_is_simps io_defs split: sum.split prod.split)
qed

section \<open>RocketMQ: every message is accounted for\<close>

lemma for_accounts:
  assumes "working rt s"
    and "\<And>m s. m \<in> set ms \<Longrightarrow> working rt s \<Longrightarrow> \<exists>s'. f m s = (Inr (), s') \<and> accounts rt names (g m) s s'"
  shows "\<exists>s'. for_io ms f s = (Inr (), s') \<and> accounts rt names (sum_list (map g ms)) s s'"
  using assms
proof (induction ms arbitrary: s)
  case Nil
  then show ?case by (simp add: ret_def accounts_def)
next
  case (Cons m ms)
  obtain s1 where 1: "f m s = (Inr (), s1)" "accounts rt names (g m) s s1" using Cons.prems(2) [of m s] Cons.prems(1) by auto
  then have "working rt s1" by (simp add: accounts_def)
  then obtain s2 where 2: "for_io ms f s1 = (Inr (), s2)" "accounts rt names (sum_list (map g ms)) s1 s2"
    using Cons.IH [of s1] Cons.prems(2) by auto
  from accounts_trans [OF 1(2) 2(2)] 1(1) 2(1) show ?case by (simp add: then_io_def bind_io_def)
qed

lemma sum_list_singletons: "sum_list (map (\<lambda>m. {#m#}) ms) = mset ms"
  by (induction ms) simp_all

lemma requeue_one_accounts:
  assumes "working rt s" and "routed rt names"
  shows "\<exists>s'. requeue_one rt m s = (Inr (), s') \<and> accounts rt names {#m#} s s'"
proof -
  have "accounts rt names {#m#} s (s\<lparr>queue := queue s @ [m]\<rparr>)"
    using assms(1) by (simp add: accounts_def working_def accounted_def)
  then show ?thesis
    using fallback_run [OF assms, of m errProducerOverflow] by (auto simp: requeue_one_def io_defs hands_over_def)
qed

lemma sendBatchTopic_accounts:
  assumes w: "working rt s" and r: "routed rt names" and t: "topic \<in> set names"
  shows "\<exists>s'. sendBatchTopic rt topic ms s = (Inr (), s') \<and> accounts rt names (mset ms) s s'"
proof -
  have sent: "accounts rt names (mset ms) s (s\<lparr>sent := sent s @ ms, outcomes := os\<rparr>)" "accounts rt names (mset ms) s (s\<lparr>sent := sent s @ ms\<rparr>)" for os
    using w by (simp_all add: accounts_def working_def accounted_def)
  have kept: "accounts rt names {#} s (s\<lparr>outcomes := os\<rparr>)" "working rt (s\<lparr>outcomes := os\<rparr>)" for os
    using w by (simp_all add: accounts_def working_def accounted_def)
  have again: "\<exists>s'. requeueBatch rt ms (s\<lparr>outcomes := os\<rparr>) = (Inr (), s') \<and> accounts rt names (mset ms) s s'" for os
    using for_accounts [OF kept(2), of ms "requeue_one rt" names "\<lambda>m. {#m#}"] requeue_one_accounts [OF _ r] accounts_trans [OF kept(1)]
    unfolding requeueBatch_def sum_list_singletons by fastforce
  have dead: "\<exists>s'. for_io ms (\<lambda>m. dlq_append (rt_bytes rt) topic m e) (s\<lparr>outcomes := os\<rparr>) = (Inr (), s') \<and> accounts rt names (mset ms) s s'" for e os
    using for_accounts [OF kept(2), of ms "\<lambda>m. dlq_append (rt_bytes rt) topic m e" names "\<lambda>m. {#m#}"] append_accounts [OF _ r t] accounts_trans [OF kept(1)]
    unfolding sum_list_singletons by fastforce
  show ?thesis
    using sent again dead
    by (cases "outcomes s") (auto simp: sendBatchTopic_def batch_write_def isBreakerOpen_def errBreakerOpen_def io_defs split: send_outcome.split)
qed

lemma two_groups:
  "t \<notin> T \<Longrightarrow> mset (filter (\<lambda>m. f m = t) ms) + mset (filter (\<lambda>m. f m \<in> T) ms) = mset (filter (\<lambda>m. f m \<in> insert t T) ms)"
  by (induction ms) auto

lemma sum_groups:
  "distinct ts \<Longrightarrow> sum_list (map (\<lambda>t. mset (filter (\<lambda>m. f m = t) ms)) ts) = mset (filter (\<lambda>m. f m \<in> set ts) ms)"
proof (induction ts)
  case (Cons t ts)
  then show ?case using two_groups [of t "set ts" f ms] by simp
qed simp

lemma sendBatch_accounts:
  assumes "working rt s" and "routed rt names"
  shows "\<exists>s'. sendBatch rt ms s = (Inr (), s') \<and> accounts rt names (mset ms) s s'"
proof -
  have "filter (\<lambda>m. topicFor rt m \<in> set (remdups (map (topicFor rt) ms))) ms = ms" by (auto intro: filter_True)
  then have "sum_list (map (\<lambda>t. mset (filter (\<lambda>m. topicFor rt m = t) ms)) (remdups (map (topicFor rt) ms))) = mset ms"
    using sum_groups [of "remdups (map (topicFor rt) ms)" "topicFor rt" ms] by simp
  then show ?thesis
    using for_accounts [OF assms(1), of "remdups (map (topicFor rt) ms)" "\<lambda>t. sendBatchTopic rt t (filter (\<lambda>m. topicFor rt m = t) ms)" names
        "\<lambda>t. mset (filter (\<lambda>m. topicFor rt m = t) ms)"] sendBatchTopic_accounts [OF _ assms(2)] assms(2)
    by (fastforce simp: sendBatch_def routed_def)
qed

lemma rocket_round_accounts:
  assumes "working rt s" and "routed rt names"
  shows "\<exists>s'. rocket_round rt n s = (Inr (), s') \<and> accounts rt names {#} s s'"
proof (cases "queue s = []")
  case True
  then show ?thesis using assms(1) by (simp add: rocket_round_def io_defs accounts_def)
next
  case False
  let ?b = "take (max 1 n) (queue s)"
  let ?s = "s\<lparr>queue := drop (max 1 n) (queue s)\<rparr>"
  have "working rt ?s" using assms(1) by (simp add: working_def)
  then obtain s' where s': "sendBatch rt ?b ?s = (Inr (), s')" "accounts rt names (mset ?b) ?s s'"
    using sendBatch_accounts [OF _ assms(2)] by blast
  have "mset ?b + mset (drop (max 1 n) (queue s)) = mset (queue s)" by (metis append_take_drop_id mset_append)
  then have "accounted names ?s + mset ?b = accounted names s" by (simp add: accounted_def add_ac)
  with s' have "accounts rt names {#} s s'" by (simp add: accounts_def)
  with s' False show ?thesis by (simp add: rocket_round_def collectBatch_def io_defs)
qed

text \<open>C13. With a working store of dead letters (enabled, which is not the default of RocketMQ, no call of the file
system failing, every message fitting a line, no snapshot left over; \<open>working\<close>) and topics among those listed,
a round of the batching loop, and any number of them at the close, loses no message however the broker
answers: each is sent, queued again, among the dead letters or refused by their full file.\<close>

theorem batches_are_accounted_for:
  assumes "working rt s" and "routed rt names"
  shows "fst (drain_rounds rt n k s) = Inr () \<and> accounted names (snd (drain_rounds rt n k s)) = accounted names s"
proof -
  have "\<exists>s'. drain_rounds rt n k s = (Inr (), s') \<and> accounts rt names {#} s s'"
    using assms(1)
  proof (induction k arbitrary: s)
    case (Suc k)
    obtain s1 where 1: "rocket_round rt n s = (Inr (), s1)" "accounts rt names {#} s s1"
      using rocket_round_accounts [OF Suc.prems assms(2)] by blast
    moreover from 1 obtain s2 where 2: "drain_rounds rt n k s1 = (Inr (), s2)" "accounts rt names {#} s1 s2"
      using Suc.IH [of s1] by (auto simp: accounts_def)
    ultimately show ?case using accounts_trans [OF 1(2) 2(2)] by (simp add: then_io_def bind_io_def)
  qed (simp add: ret_def accounts_def)
  then show ?thesis by (auto simp: accounts_def)
qed

theorem batches_are_accounted_for_witness:
  "accounted [''events''] (snd (drain_rounds small_routing 32 5 (snd (Send small_routing 1 small_producer)))) =
    accounted [''events''] (snd (Send small_routing 1 small_producer))"
proof -
  have "working small_routing (snd (Send small_routing 1 small_producer))"
    by (simp add: working_def small_producer_def small_routing_def lines_fit_def Send_def io_defs)
  from batches_are_accounted_for [OF this small_routing_routed] show ?thesis by blast
qed

section \<open>RocketMQ: closing while the breaker is open\<close>

lemma requeue_all:
  "length (queue s) + length ms \<le> queue_size s \<Longrightarrow> requeueBatch rt ms s = (Inr (), s\<lparr>queue := queue s @ ms\<rparr>)"
proof (induction ms arbitrary: s)
  case Nil
  then show ?case by (simp add: requeueBatch_def ret_def)
next
  case (Cons m ms)
  have "requeue_one rt m s = (Inr (), s\<lparr>queue := queue s @ [m]\<rparr>)" using Cons.prems by (simp add: requeue_one_def io_defs)
  with Cons.IH [of "s\<lparr>queue := queue s @ [m]\<rparr>"] Cons.prems show ?case
    by (simp add: requeueBatch_def then_io_def bind_io_def)
qed

lemma blocked_topics:
  assumes "outcomes s = replicate N Blocked" and "length ts \<le> N" and "length (queue s) + length (concat (map g ts)) \<le> queue_size s"
  shows "for_io ts (\<lambda>t. sendBatchTopic rt t (g t)) s =
    (Inr (), s\<lparr>queue := queue s @ concat (map g ts), outcomes := replicate (N - length ts) Blocked\<rparr>)"
  using assms
proof (induction ts arbitrary: s N)
  case Nil
  then show ?case by (simp add: ret_def)
next
  case (Cons t ts)
  obtain M where N: "N = Suc M" using Cons.prems(2) by (cases N) auto
  let ?s = "s\<lparr>queue := queue s @ g t, outcomes := replicate M Blocked\<rparr>"
  have "sendBatchTopic rt t (g t) s = requeueBatch rt (g t) (s\<lparr>outcomes := replicate M Blocked\<rparr>)"
    using Cons.prems(1) by (simp add: N sendBatchTopic_def batch_write_def isBreakerOpen_def io_defs)
  also have "\<dots> = (Inr (), ?s)" using requeue_all [of "s\<lparr>outcomes := replicate M Blocked\<rparr>" "g t" rt] Cons.prems(3) by simp
  finally have "sendBatchTopic rt t (g t) s = (Inr (), ?s)" .
  with Cons.IH [of ?s M] Cons.prems N show ?case by (simp add: then_io_def bind_io_def)
qed

definition waits :: "'m producer \<Rightarrow> 'm producer \<Rightarrow> bool" where
  "waits s s' \<longleftrightarrow> mset (queue s') = mset (queue s) \<and> sent s' = sent s \<and> dq_main s' = dq_main s \<and> queue_size s' = queue_size s"

lemma waits_trans: "waits s s1 \<Longrightarrow> waits s1 s2 \<Longrightarrow> waits s s2"
  by (simp add: waits_def)

lemma grouped_batch:
  "mset (concat (map (\<lambda>t. filter (\<lambda>m. f m = t) ms) (remdups (map f ms)))) = mset ms"
proof -
  have "filter (\<lambda>m. f m \<in> set (remdups (map f ms))) ms = ms" by (auto intro: filter_True)
  then show ?thesis using sum_groups [of "remdups (map f ms)" f ms] by (simp add: mset_concat comp_def)
qed

lemma blocked_batch:
  assumes "outcomes s = replicate N Blocked" and "length ms \<le> N" and "length (queue s) + length ms \<le> queue_size s"
  shows "\<exists>q M. sendBatch rt ms s = (Inr (), s\<lparr>queue := queue s @ q, outcomes := replicate M Blocked\<rparr>) \<and>
    mset q = mset ms \<and> N \<le> M + length ms"
proof -
  define ts g where "ts = remdups (map (topicFor rt) ms)" and "g = (\<lambda>t. filter (\<lambda>m. topicFor rt m = t) ms)"
  have q: "mset (concat (map g ts)) = mset ms" unfolding ts_def g_def by (rule grouped_batch)
  then have l: "length (concat (map g ts)) = length ms" by (metis size_mset)
  have "length ts \<le> length ms" unfolding ts_def by (rule le_trans [OF length_remdups_leq]) simp
  then have "sendBatch rt ms s = (Inr (), s\<lparr>queue := queue s @ concat (map g ts), outcomes := replicate (N - length ts) Blocked\<rparr>)"
    and "N \<le> (N - length ts) + length ms"
    using blocked_topics [OF assms(1), of ts g rt] assms(2,3) l by (simp_all add: sendBatch_def ts_def g_def)
  with q show ?thesis by blast
qed

lemma blocked_round:
  assumes "outcomes s = replicate N Blocked" and "length (queue s) \<le> N" and "length (queue s) \<le> queue_size s"
  shows "\<exists>s' M. rocket_round rt n s = (Inr (), s') \<and> waits s s' \<and> outcomes s' = replicate M Blocked \<and> N \<le> M + length (queue s)"
proof (cases "queue s = []")
  case True
  then show ?thesis using assms(1) by (intro exI [of _ s] exI [of _ N]) (simp add: rocket_round_def waits_def io_defs)
next
  case False
  define b r where "b = take (max 1 n) (queue s)" and "r = drop (max 1 n) (queue s)"
  have br: "mset b + mset r = mset (queue s)" "length b \<le> length (queue s)" "length r + length b = length (queue s)"
    unfolding b_def r_def by (metis append_take_drop_id mset_append, simp_all)
  obtain q M where q: "sendBatch rt b (s\<lparr>queue := r\<rparr>) = (Inr (), s\<lparr>queue := r @ q, outcomes := replicate M Blocked\<rparr>)"
    "mset q = mset b" "N \<le> M + length b"
    using blocked_batch [of "s\<lparr>queue := r\<rparr>" N b rt] assms br by auto
  have "rocket_round rt n s = (Inr (), s\<lparr>queue := r @ q, outcomes := replicate M Blocked\<rparr>)"
    using False q(1) by (simp add: rocket_round_def collectBatch_def io_defs b_def r_def)
  moreover have "waits s (s\<lparr>queue := r @ q, outcomes := replicate M Blocked\<rparr>)" using br(1) q(2) by (simp add: waits_def add.commute)
  ultimately show ?thesis using q(3) br(2) by (auto intro: le_trans)
qed

text \<open>While the breaker stays open no number of rounds at the close sends a message or brings it among the dead
letters: they all stay in the memory of a process that ends, and the rounds do not end by themselves.\<close>

theorem open_breaker_keeps_the_queue:
  assumes "outcomes s = replicate N Blocked" and "k * length (queue s) \<le> N" and "length (queue s) \<le> queue_size s"
  shows "mset (queue (snd (drain_rounds rt n k s))) = mset (queue s) \<and> sent (snd (drain_rounds rt n k s)) = sent s \<and>
    dq_main (snd (drain_rounds rt n k s)) = dq_main s"
proof -
  have "waits s (snd (drain_rounds rt n k s))"
    using assms
  proof (induction k arbitrary: s N)
    case 0
    then show ?case by (simp add: ret_def waits_def)
  next
    case (Suc k)
    obtain s1 M where 1: "rocket_round rt n s = (Inr (), s1)" "waits s s1" "outcomes s1 = replicate M Blocked" "N \<le> M + length (queue s)"
      using blocked_round [OF Suc.prems(1) _ Suc.prems(3), of rt n] Suc.prems(2) by auto
    have l: "length (queue s1) = length (queue s)" using 1(2) unfolding waits_def by (metis size_mset)
    have qs: "queue_size s1 = queue_size s" using 1(2) by (simp add: waits_def)
    have "waits s1 (snd (drain_rounds rt n k s1))"
      using Suc.IH [of s1 M] 1(3,4) l qs Suc.prems(2,3) by simp
    with 1(2) have "waits s (snd (drain_rounds rt n k s1))" by (rule waits_trans)
    with 1(1) show ?case by (simp add: then_io_def bind_io_def)
  qed
  then show ?thesis by (simp add: waits_def)
qed

section \<open>RabbitMQ: confirmations of a channel\<close>

text \<open>
  A channel of the pool, with the confirmations that arrived and were not yet read, in order, and what the broker
  accepted. The broker confirms every message it gets, in time or after the wait; a broker that closes the channel
  counts as a refusal. Rebuilding a channel after a failure works or leaves the old one.
\<close>

datatype broker_answer = PublishError | Confirms bool | ConfirmsLate bool

record 'm rabbit_channel =
  confirms :: "bool list"
  accepted :: "'m list"
  recreates :: "bool list"

definition recreate :: "('m rabbit_channel, unit) io" where
  "recreate rc = (case recreates rc of
      [] \<Rightarrow> (Inr (), rc\<lparr>confirms := []\<rparr>)
    | b # bs \<Rightarrow> (Inr (), if b then rc\<lparr>confirms := [], recreates := bs\<rparr> else rc\<lparr>recreates := bs\<rparr>))"

definition accept :: "'m \<Rightarrow> bool \<Rightarrow> 'm rabbit_channel \<Rightarrow> 'm rabbit_channel" where
  "accept m ack rc = (if ack then rc\<lparr>accepted := accepted rc @ [m]\<rparr> else rc)"

definition arrives :: "bool \<Rightarrow> 'm rabbit_channel \<Rightarrow> 'm rabbit_channel" where
  "arrives ack rc = rc\<lparr>confirms := confirms rc @ [ack]\<rparr>"

text \<open>The \<open>select\<close> on the confirmations and the end of the wait.\<close>

definition await_confirm :: "('m rabbit_channel, unit) io" where
  "await_confirm rc = (case confirms rc of
      [] \<Rightarrow> (Inl (Fault ''timeout''), rc)
    | ack # cs \<Rightarrow> (if ack then ret () else then_io recreate (throw (Fault ''nack''))) (rc\<lparr>confirms := cs\<rparr>))"

definition publishConfirmed :: "'m \<times> broker_answer \<Rightarrow> ('m rabbit_channel, unit) io" where
  "publishConfirmed p = (case p of
      (m, PublishError) \<Rightarrow> then_io recreate (throw (Fault ''publish''))
    | (m, Confirms ack) \<Rightarrow> then_io (modify_io (\<lambda>rc. arrives ack (accept m ack rc))) await_confirm
    | (m, ConfirmsLate ack) \<Rightarrow> then_io (modify_io (accept m ack)) (finally_io await_confirm (modify_io (arrives ack))))"

text \<open>Messages published one after the other on a channel, with what each caller is told.\<close>

primrec publish_all :: "('m \<times> broker_answer) list \<Rightarrow> ('m rabbit_channel, (gerr + unit) list) io" where
  "publish_all [] = ret []"
| "publish_all (p # ps) = bind_io (attempt (publishConfirmed p)) (\<lambda>r. bind_io (publish_all ps) (\<lambda>rs. ret (r # rs)))"

definition fresh_channel :: "'m rabbit_channel" where
  "fresh_channel = \<lparr>confirms = [], accepted = [], recreates = []\<rparr>"

definition in_time :: "'m \<times> broker_answer \<Rightarrow> bool" where
  "in_time p = (case snd p of ConfirmsLate _ \<Rightarrow> False | _ \<Rightarrow> True)"

definition told_sent :: "('m \<times> broker_answer) list \<Rightarrow> (gerr + unit) list \<Rightarrow> 'm list" where
  "told_sent ps rs = map fst (map fst (filter (\<lambda>x. snd x = Inr ()) (zip ps rs)))"

lemma publish_in_time:
  assumes "in_time p" and "confirms rc = []" and "publishConfirmed p rc = (r, rc')"
  shows "confirms rc' = [] \<and> accepted rc' = accepted rc @ (if r = Inr () then [fst p] else [])"
  using assms
  by (cases p; cases "snd p"; cases "recreates rc")
    (auto simp: in_time_def publishConfirmed_def await_confirm_def recreate_def accept_def arrives_def io_defs split: if_splits)

text \<open>While every confirmation comes in time, the messages the callers take for sent are those the broker accepted.\<close>

lemma confirmations_in_time:
  assumes "list_all in_time ps" and "confirms rc = []" and "publish_all ps rc = (Inr rs, rc')"
  shows "accepted rc' = accepted rc @ told_sent ps rs"
  using assms
proof (induction ps arbitrary: rc rs)
  case Nil
  then show ?case by (simp add: ret_def told_sent_def)
next
  case (Cons p ps)
  obtain r rc1 where p: "publishConfirmed p rc = (r, rc1)" by fastforce
  then obtain rs' where rs: "publish_all ps rc1 = (Inr rs', rc')" "rs = r # rs'"
    using Cons.prems(3) by (auto simp: io_defs split: prod.splits sum.splits)
  show ?case
    using publish_in_time [OF _ Cons.prems(2) p] Cons.IH [OF _ _ rs(1)] Cons.prems(1) rs(2) by (auto simp: told_sent_def)
qed

lemma publish_shifted:
  assumes "confirms rc = [True]"
  shows "publishConfirmed (m, Confirms ack) rc = (Inr (), accept m ack (rc\<lparr>confirms := [ack]\<rparr>))"
  using assms by (cases rc) (simp add: publishConfirmed_def await_confirm_def accept_def arrives_def io_defs)

lemma shifted_run:
  assumes "confirms rc = [True]"
  shows "publish_all (map (\<lambda>m. (m, Confirms True)) ms @ [(m, Confirms False)]) rc =
    (Inr (replicate (Suc (length ms)) (Inr ())), rc\<lparr>confirms := [False], accepted := accepted rc @ ms\<rparr>)"
  using assms
proof (induction ms arbitrary: rc)
  case Nil
  then show ?case by (cases rc) (simp add: publish_shifted accept_def io_defs)
next
  case (Cons a ms)
  have "publishConfirmed (a, Confirms True) rc = (Inr (), rc\<lparr>accepted := accepted rc @ [a]\<rparr>)"
    using Cons.prems by (cases rc) (simp add: publish_shifted accept_def)
  then show ?case using Cons.IH [of "rc\<lparr>accepted := accepted rc @ [a]\<rparr>"] Cons.prems by (simp add: io_defs)
qed

text \<open>After one confirmation that came too late every wait reads the confirmation of the message before: however many
messages later, one that the broker refuses is taken for sent, and so is not among the dead letters.\<close>

theorem late_confirmation_shifts_the_rest:
  "publish_all ((m, ConfirmsLate True) # map (\<lambda>m. (m, Confirms True)) ms @ [(m', Confirms False)]) fresh_channel =
    (Inr (Inl (Fault ''timeout'') # replicate (Suc (length ms)) (Inr ())), \<lparr>confirms = [False], accepted = m # ms, recreates = []\<rparr>)"
proof -
  have "publishConfirmed (m, ConfirmsLate True) fresh_channel =
      (Inl (Fault ''timeout''), \<lparr>confirms = [True], accepted = [m], recreates = []\<rparr>)"
    by (simp add: publishConfirmed_def await_confirm_def accept_def arrives_def fresh_channel_def io_defs)
  then show ?thesis
    using shifted_run [of "\<lparr>confirms = [True], accepted = [m], recreates = []\<rparr>" ms m'] by (simp add: io_defs)
qed

section \<open>What becomes of a delivery\<close>

text \<open>
  The event id of a message is looked up and marked where a store is given; partition and offset are 0. RocketMQ's
  handler ends a batch at the first failure (\<open>ConsumeRetryLater\<close> with the error), RabbitMQ's settles each delivery.
\<close>

definition seen_before :: "'s progress_ops option \<Rightarrow> string \<Rightarrow> (('m, 'w, 's) consumer, bool) io" where
  "seen_before ps i = (case ps of None \<Rightarrow> ret False | Some ops \<Rightarrow>
     if i = [] then ret False else bind_io (attempt (in_store (op_Seen ops i))) (\<lambda>r. ret (r = Inr True)))"

definition mark_handled :: "'s progress_ops option \<Rightarrow> string \<Rightarrow> string \<Rightarrow> (('m, 'w, 's) consumer, unit) io" where
  "mark_handled ps t i = (case ps of None \<Rightarrow> ret () | Some ops \<Rightarrow>
     when_io (i \<noteq> []) (best_effort (in_store (op_Commit ops t 0 0 i False))))"

definition call_with_retry :: "mq_config \<Rightarrow> ('m, 'w) handler \<Rightarrow> 'm \<Rightarrow> (('m, 'w, 's) consumer, unit) io" where
  "call_with_retry cfg h msg = (case consumerRetryOf cfg of (n, base, mx) \<Rightarrow> retryProcess h msg n base mx)"

definition handleMessage :: "'s progress_ops option \<Rightarrow> mq_config \<Rightarrow> ('m, 'w) handler \<Rightarrow> string \<Rightarrow> 'm body \<Rightarrow> (('m, 'w, 's) consumer, unit) io" where
  "handleMessage ps cfg h t b = (case unmarshal b of
      Inl e \<Rightarrow> throw e
    | Inr (i, msg) \<Rightarrow> bind_io (seen_before ps i) (\<lambda>seen.
        if seen then ret () else then_io (call_with_retry cfg h msg) (mark_handled ps t i)))"

definition handleMessages :: "'s progress_ops option \<Rightarrow> mq_config \<Rightarrow> ('m, 'w) handler \<Rightarrow> string \<Rightarrow> 'm body list \<Rightarrow> (('m, 'w, 's) consumer, unit) io" where
  "handleMessages ps cfg h t bs = for_io bs (handleMessage ps cfg h t)"

datatype settlement = AckDelivery | NackDiscard | NackRequeue

definition handleDelivery :: "'s progress_ops option \<Rightarrow> mq_config \<Rightarrow> ('m, 'w) handler \<Rightarrow> string \<Rightarrow> 'm body \<Rightarrow>
    (('m, 'w, 's) consumer, settlement \<times> consume_result option) io" where
  "handleDelivery ps cfg h key b = (case unmarshal b of
      Inl e \<Rightarrow> ret (NackDiscard, Some ResultDLQ)
    | Inr (i, msg) \<Rightarrow> bind_io (seen_before ps i) (\<lambda>seen.
        if seen then ret (AckDelivery, Some ResultDedupSkipped)
        else bind_io (attempt (call_with_retry cfg h msg)) (\<lambda>r.
          case r of
            Inl e \<Rightarrow> bind_io (gets_io ctx_cancelled) (\<lambda>cancelled.
              ret (if cancelled then (NackRequeue, None) else (NackDiscard, Some ResultDLQ)))
          | Inr u \<Rightarrow> then_io (mark_handled ps key i) (ret (AckDelivery, Some ResultProcessed)))))"

definition settle_of :: "'m body \<Rightarrow> (gerr + unit) \<Rightarrow> ('w, 'z) worker_scheme \<Rightarrow> settlement" where
  "settle_of b r c = (case r of Inr u \<Rightarrow> AckDelivery
     | Inl e \<Rightarrow> (case b of Garbage s \<Rightarrow> NackDiscard | Event i m \<Rightarrow> if ctx_cancelled c then NackRequeue else NackDiscard))"

lemma seen_before_total: "\<exists>seen c'. seen_before ps i c = (Inr seen, c')"
  by (auto simp: seen_before_def io_defs split: option.split prod.split)

lemma mark_handled_total: "\<exists>c'. mark_handled ps t i c = (Inr (), c')"
  by (auto simp: mark_handled_def io_defs split: option.split)

text \<open>RabbitMQ acknowledges exactly the deliveries that RocketMQ's handler would pass, with the same effect on the
handler and the store: what cannot be decoded and what fails is discarded, and queued again only when the consumer closes.\<close>

theorem deliveries_settle_like_messages:
  "\<exists>label. handleDelivery ps cfg h key b c =
      (Inr (settle_of b (fst (handleMessage ps cfg h key b c)) (snd (handleMessage ps cfg h key b c)), label),
       snd (handleMessage ps cfg h key b c))"
proof (cases b)
  case (Garbage g)
  then show ?thesis by (simp add: handleDelivery_def handleMessage_def settle_of_def unmarshal_def io_defs)
next
  case (Event i msg)
  obtain seen c1 where s: "seen_before ps i c = (Inr seen, c1)" using seen_before_total by blast
  obtain r c2 where r: "call_with_retry cfg h msg c1 = (r, c2)" by fastforce
  obtain c3 where m: "mark_handled ps key i c2 = (Inr (), c3)" using mark_handled_total by blast
  show ?thesis
    using Event s r m by (cases seen; cases r) (auto simp: handleDelivery_def handleMessage_def settle_of_def unmarshal_def io_defs)
qed

text \<open>The events that the table of a consumer holds, while its database answers.\<close>

definition marked :: "('m, 'w, sql_progress) consumer \<Rightarrow> string set" where
  "marked c = cd_event ` set (sp_dedups (store c))"

definition answers :: "('m, 'w, sql_progress) consumer \<Rightarrow> bool" where
  "answers c \<longleftrightarrow> sp_faults (store c) = []"

lemma sql_commit_answers:
  assumes "sp_faults s = []"
  shows "\<exists>s'. sql_Commit t p off ev sync s = (Inr (), s') \<and> sp_faults s' = []"
  using assms
  by (cases "progress_row_of t p s")
    (auto simp: sql_Commit_def sql_transaction_def sql_call_def save_progress_def mark_consumed_def io_defs Let_def)

lemma seen_before_answers:
  "answers c \<Longrightarrow> seen_before (Some sql_ops) i c = (Inr (i \<noteq> [] \<and> i \<in> marked c), c)"
  by (simp add: answers_def marked_def seen_before_def in_store_def sql_ops_def sql_Seen_def sql_call_def io_defs)

lemma mark_handled_answers:
  assumes "answers c"
  shows "\<exists>c'. mark_handled (Some sql_ops) t i c = (Inr (), c') \<and> answers c' \<and> marked c' = marked c \<union> (if i = [] then {} else {i})"
proof (cases "i = []")
  case True
  then show ?thesis using assms by (simp add: mark_handled_def io_defs)
next
  case False
  obtain s' where s': "sql_Commit t 0 0 i False (store c) = (Inr (), s')" "sp_faults s' = []"
    using sql_commit_answers assms unfolding answers_def by blast
  then show ?thesis
    using sql_commit_done(2) [OF s'(1)] False by (simp add: mark_handled_def in_store_def sql_ops_def answers_def marked_def io_defs)
qed

lemma call_with_retry_store: "store (snd (call_with_retry cfg h msg c)) = store c"
  by (simp add: call_with_retry_def split: prod.split)

lemma handleMessage_marks:
  assumes "answers c" and "handleMessage (Some sql_ops) cfg h t b c = (r, c')"
  shows "answers c' \<and> marked c \<subseteq> marked c' \<and> (r = Inr () \<longrightarrow> (\<exists>m. b = Event (event_id_of b) m) \<and>
    (event_id_of b \<noteq> [] \<longrightarrow> event_id_of b \<in> marked c'))"
proof (cases b)
  case (Garbage g)
  then show ?thesis using assms by (auto simp: handleMessage_def unmarshal_def io_defs)
next
  case (Event i msg)
  obtain r1 c1 where c1: "call_with_retry cfg h msg c = (r1, c1)" by fastforce
  then have a: "answers c1" "marked c1 = marked c"
    using call_with_retry_store [of cfg h msg c] assms(1) by (simp_all add: answers_def marked_def)
  obtain c2 where c2: "mark_handled (Some sql_ops) t i c1 = (Inr (), c2)" "answers c2" "marked c2 = marked c1 \<union> (if i = [] then {} else {i})"
    using mark_handled_answers [OF a(1)] by blast
  show ?thesis
    using assms Event c1 c2 a
    by (cases r1) (auto simp: handleMessage_def unmarshal_def seen_before_answers event_id_of_def io_defs split: if_splits)
qed

lemma handleMessage_skips:
  "answers c \<Longrightarrow> i \<noteq> [] \<Longrightarrow> i \<in> marked c \<Longrightarrow> handleMessage (Some sql_ops) cfg h t (Event i m) c = (Inr (), c)"
  by (simp add: handleMessage_def unmarshal_def seen_before_answers io_defs)

lemma handled_batch:
  assumes "answers c" and "handleMessages (Some sql_ops) cfg h t bs c = (Inr (), c')" and "list_all (\<lambda>b. event_id_of b \<noteq> []) bs"
  shows "answers c' \<and> marked c \<subseteq> marked c' \<and> list_all (\<lambda>b. \<exists>m. b = Event (event_id_of b) m \<and> event_id_of b \<in> marked c') bs"
  using assms
proof (induction bs arbitrary: c)
  case Nil
  then show ?case by (simp add: handleMessages_def ret_def)
next
  case (Cons b bs)
  obtain c1 where c1: "handleMessage (Some sql_ops) cfg h t b c = (Inr (), c1)" "handleMessages (Some sql_ops) cfg h t bs c1 = (Inr (), c')"
    using Cons.prems(2) by (auto simp: handleMessages_def io_defs split: prod.splits sum.splits)
  note m = handleMessage_marks [OF Cons.prems(1) c1(1)]
  then have "answers c' \<and> marked c1 \<subseteq> marked c' \<and> list_all (\<lambda>b. \<exists>m. b = Event (event_id_of b) m \<and> event_id_of b \<in> marked c') bs"
    using Cons.IH [OF _ c1(2)] Cons.prems(3) by simp
  with m Cons.prems(3) show ?case by auto
qed

lemma skipped_batch:
  assumes "answers c" and "list_all (\<lambda>b. \<exists>m. b = Event (event_id_of b) m \<and> event_id_of b \<in> marked c) bs"
    and "list_all (\<lambda>b. event_id_of b \<noteq> []) bs"
  shows "handleMessages (Some sql_ops) cfg h t (bs @ bs') c = handleMessages (Some sql_ops) cfg h t bs' c"
  using assms(2,3)
proof (induction bs)
  case (Cons b bs)
  then obtain m where "b = Event (event_id_of b) m" "event_id_of b \<in> marked c" "event_id_of b \<noteq> []" by auto
  with handleMessage_skips [OF assms(1)] have "handleMessage (Some sql_ops) cfg h t b c = (Inr (), c)" by metis
  with Cons show ?case by (simp add: handleMessages_def io_defs)
qed simp

lemma for_append: "for_io xs f s = (Inr (), s') \<Longrightarrow> for_io (xs @ ys) f s = for_io ys f s'"
  by (induction xs arbitrary: s) (auto simp: io_defs split: prod.splits sum.splits)

text \<open>C35. When a message of a batch fails, the broker delivers the whole batch again, to this process or, after a
restart, to another one with any state of its handler. If the consumer was given the table of consumed events
as its progress store, the table answers every call, and all messages before the failed one have an event id,
none of those is handled a second time. (The start of the process gives no such store to these consumers; then
the earlier messages are handled again.)\<close>

theorem redelivery_starts_at_the_failed_message:
  assumes "answers c" and "list_all (\<lambda>b. event_id_of b \<noteq> []) bs"
    and "handleMessages (Some sql_ops) cfg h t bs c = (Inr (), c1)" and "handleMessage (Some sql_ops) cfg h t b c1 = (Inl e, c2)"
    and "store c3 = store c2"
  shows "handleMessages (Some sql_ops) cfg h t (bs @ b # bs') c = (Inl e, c2) \<and>
    handleMessages (Some sql_ops) cfg h t (bs @ b # bs') c3 = handleMessages (Some sql_ops) cfg h t (b # bs') c3"
proof
  note first = handled_batch [OF assms(1,3,2)]
  then have c2: "answers c2" "marked c1 \<subseteq> marked c2" using handleMessage_marks [OF _ assms(4)] by simp_all
  have "handleMessages (Some sql_ops) cfg h t (bs @ b # bs') c = handleMessages (Some sql_ops) cfg h t (b # bs') c1"
    using assms(3) by (simp add: handleMessages_def for_append del: for_io.simps)
  then show "handleMessages (Some sql_ops) cfg h t (bs @ b # bs') c = (Inl e, c2)"
    using assms(4) by (simp add: handleMessages_def io_defs)
  have "answers c3" "marked c3 = marked c2" using c2 assms(5) by (simp_all add: answers_def marked_def)
  moreover have "list_all (\<lambda>b. \<exists>m. b = Event (event_id_of b) m \<and> event_id_of b \<in> marked c3) bs"
    using first c2(2) calculation(2) by (auto simp: list_all_iff)
  ultimately show "handleMessages (Some sql_ops) cfg h t (bs @ b # bs') c3 = handleMessages (Some sql_ops) cfg h t (b # bs') c3"
    using assms(2) by (intro skipped_batch)
qed


definition picky :: "(string, nat) handler" where
  "picky m n = (if m = ''y'' then Panicked ''bad'' else Returned None, Suc n)"

definition idle_consumer :: "(string, nat, sql_progress) consumer" where
  "idle_consumer = \<lparr>app = 0, ctx_left = None, slept = [], store = empty_table, dlq_file = (\<lambda>_. []), dlq_backlog = (\<lambda>_. 0), file_faults = []\<rparr>"

abbreviation handle_picky :: "string body list \<Rightarrow> ((string, nat, sql_progress) consumer, unit) io" where
  "handle_picky \<equiv> handleMessages (Some sql_ops) memory_config picky ''t''"

lemma call_picky:
  "call_with_retry cfg picky m c =
    (if m = ''y'' then Inl (Wrap ''bad'' (Sentinel errHandlerPanic)) else Inr (), c\<lparr>app := Suc (app c)\<rparr>)"
  by (simp add: call_with_retry_def retryProcess_def callHandlerSafe_def handler_error_def picky_def io_defs split: prod.split)

theorem redelivery_starts_at_the_failed_message_witness:
  "handle_picky [Event ''a'' ''x'', Event ''b'' ''y''] (snd (handle_picky [Event ''a'' ''x'', Event ''b'' ''y''] idle_consumer)) =
    handle_picky [Event ''b'' ''y''] (snd (handle_picky [Event ''a'' ''x'', Event ''b'' ''y''] idle_consumer))"
proof -
  define c0 where "c0 = idle_consumer\<lparr>app := Suc (app idle_consumer)\<rparr>"
  have ok: "answers idle_consumer" "list_all (\<lambda>b. event_id_of b \<noteq> []) [Event ''a'' ''x'']"
    and c0: "answers c0" "marked idle_consumer = {}" "marked c0 = {}"
    by (simp_all add: answers_def marked_def c0_def idle_consumer_def empty_table_def event_id_of_def)
  obtain c1 where c1: "mark_handled (Some sql_ops) ''t'' ''a'' c0 = (Inr (), c1)" "answers c1" "marked c1 = {''a''}"
    using mark_handled_answers [OF c0(1), of "''t''" "''a''"] c0(3) by auto
  then have 1: "handle_picky [Event ''a'' ''x''] idle_consumer = (Inr (), c1)"
    using c0(2) by (simp add: handleMessages_def handleMessage_def unmarshal_def seen_before_answers [OF ok(1)] call_picky c0_def io_defs)
  obtain e c2 where 2: "handleMessage (Some sql_ops) memory_config picky ''t'' (Event ''b'' ''y'') c1 = (Inl e, c2)"
    using c1(3) by (simp add: handleMessage_def unmarshal_def seen_before_answers [OF c1(2)] call_picky io_defs)
  from redelivery_starts_at_the_failed_message [OF ok 1 2 refl, of "[]"] show ?thesis by simp
qed

section \<open>Subscribing\<close>

text \<open>
  The calls of an AMQP channel, which the client provides: declaring an exchange, declaring a queue with its
  dead-letter exchange or without one, binding, the bound on deliveries in flight, and the start of the deliveries.
\<close>

record 'b amqp_ops =
  amqp_exchange :: "string \<Rightarrow> ('b, unit) io"
  amqp_queue :: "string \<Rightarrow> string option \<Rightarrow> ('b, unit) io"
  amqp_bind :: "string \<Rightarrow> string \<Rightarrow> string \<Rightarrow> ('b, unit) io"
  amqp_qos :: "int \<Rightarrow> ('b, unit) io"
  amqp_consume :: "string \<Rightarrow> ('b, unit) io"

definition rabbitExchange :: string where "rabbitExchange = ''hc-events''"

definition dead_exchange :: string where "dead_exchange = rabbitExchange @ ''-dlx''"

definition declare_queue :: "'b amqp_ops \<Rightarrow> string \<Rightarrow> ('b, unit) io" where
  "declare_queue ops grp =
     bind_io (attempt (amqp_queue ops grp (Some dead_exchange))) (\<lambda>r.
       case r of Inr x \<Rightarrow> ret () | Inl e \<Rightarrow> wrap_err ''rabbitmq queue declare'' (amqp_queue ops grp None))"

definition rabbit_Subscribe :: "'b amqp_ops \<Rightarrow> int \<Rightarrow> string \<Rightarrow> string list \<Rightarrow> ('b, unit) io" where
  "rabbit_Subscribe ops prefetch grp topics =
     then_io (wrap_err ''rabbitmq dlx declare'' (amqp_exchange ops dead_exchange))
    (then_io (wrap_err ''rabbitmq dlq declare'' (amqp_queue ops (grp @ ''-dlq'') None))
    (then_io (wrap_err ''rabbitmq dlq bind'' (amqp_bind ops (grp @ ''-dlq'') ''#'' dead_exchange))
    (then_io (declare_queue ops grp)
    (then_io (for_io topics (\<lambda>t. wrap_err ''rabbitmq queue bind'' (amqp_bind ops grp t rabbitExchange)))
    (then_io (wrap_err ''rabbitmq qos'' (amqp_qos ops (rabbitPrefetchOf prefetch)))
      (wrap_err ''rabbitmq consume'' (amqp_consume ops grp)))))))"

text \<open>RocketMQ's client subscribes to a topic and then starts.\<close>

definition rocket_Subscribe :: "(string \<Rightarrow> ('b, unit) io) \<Rightarrow> ('b, unit) io \<Rightarrow> string list \<Rightarrow> ('b, unit) io" where
  "rocket_Subscribe subscribe start topics =
     then_io (for_io topics (\<lambda>t. wrap_err (''rocketmq subscribe '' @ t) (subscribe t))) (wrap_err ''rocketmq start consumer'' start)"

text \<open>The protocol's rule: an error closes the channel, and a closed channel only answers errors.\<close>

definition errors_close :: "'b amqp_ops \<Rightarrow> bool" where
  "errors_close ops \<longleftrightarrow> (\<forall>q a b e b' q' a'. amqp_queue ops q a b = (Inl e, b') \<longrightarrow> (\<exists>e'. fst (amqp_queue ops q' a' b') = Inl e'))"

text \<open>Where a queue exists without the argument, the second declaration, meant to keep the consumer working, comes too
late: it uses the channel that the refusal of the first has closed.\<close>

theorem second_declaration_never_helps:
  assumes "errors_close ops" and "amqp_queue ops grp (Some dead_exchange) b = (Inl e, b')"
  shows "\<exists>e'. fst (declare_queue ops grp b) = Inl e'"
proof -
  obtain e' b'' where "amqp_queue ops grp None b' = (Inl e', b'')"
    using assms unfolding errors_close_def by (metis prod.collapse)
  then show ?thesis using assms(2) by (simp add: declare_queue_def wrap_err_def io_defs)
qed

text \<open>A broker that holds queues with their arguments, and a channel that is open or not.\<close>

definition strict_queue :: "string \<Rightarrow> string option \<Rightarrow> ((string \<rightharpoonup> string option) \<times> bool, unit) io" where
  "strict_queue q a b = (case b of (m, is_open) \<Rightarrow>
     if \<not> is_open then (Inl (Fault ''closed''), b)
     else case m q of None \<Rightarrow> (Inr (), (m(q \<mapsto> a), True))
       | Some a' \<Rightarrow> if a' = a then (Inr (), b) else (Inl (Fault ''precondition failed''), (m, False)))"

definition strict_ops :: "((string \<rightharpoonup> string option) \<times> bool) amqp_ops" where
  "strict_ops = \<lparr>amqp_exchange = (\<lambda>_. ret ()), amqp_queue = strict_queue, amqp_bind = (\<lambda>_ _ _. ret ()), amqp_qos = (\<lambda>_. ret ()),
     amqp_consume = (\<lambda>_. ret ())\<rparr>"

theorem second_declaration_never_helps_witness:
  "\<exists>e'. fst (declare_queue strict_ops ''hc'' ([''hc'' \<mapsto> None], True)) = Inl e'"
proof -
  have "errors_close strict_ops"
    by (auto simp: errors_close_def strict_ops_def strict_queue_def split: if_splits option.splits)
  moreover have "amqp_queue strict_ops ''hc'' (Some dead_exchange) ([''hc'' \<mapsto> None], True) = (Inl (Fault ''precondition failed''), ([''hc'' \<mapsto> None], False))"
    by (simp add: strict_ops_def strict_queue_def)
  ultimately show ?thesis by (rule second_declaration_never_helps)
qed

text \<open>A fresh broker accepts the subscription and keeps the letters of the group.\<close>

lemma fresh_subscription:
  "snd (rabbit_Subscribe strict_ops 0 ''hc'' ts (Map.empty, True)) = ([''hc-dlq'' \<mapsto> None, ''hc'' \<mapsto> Some dead_exchange], True)"
proof -
  have "for_io ts (\<lambda>t. wrap_err x (ret ())) b = (Inr (), b)" for x and b :: "(string \<rightharpoonup> string option) \<times> bool" by (induction ts) (simp_all add: io_defs wrap_err_def)
  then show ?thesis by (simp add: rabbit_Subscribe_def declare_queue_def strict_ops_def strict_queue_def wrap_err_def io_defs)
qed

end
