(* ===== verification/Spec2Isabelle.thy ===== *)
theory Spec2Isabelle
  imports ScanSharding DistLock CacheStrategy Reservations UserRepo PointsOutbox IdleRepo IdleService
    IdleInvariants IdleProperties Shop ShopService ShopInvariants ShopProperties
    Task TaskService TaskInvariants TaskProperties AccountLock Token AuthService AuthProperties
    Retry Consumer ConsumerProperties Producer ProducerProperties
    GoText EventFlow Subscription GoInts Http Admission Breaker RateLimits Handlers ShopHandler HandlerProperties Router
    Scheduler Jobs Bloom HotKeys LogStore LogService Configuration WebSocket
    ReadWrite Tracing Brokers
begin

text \<open>
  A verification development for the service framework: users collect points in idle sessions, spend
  them in a shop and earn rewards for tasks; several pods share MySQL, Redis and a message queue.

  \<^bold>\<open>Foundations.\<close> \<open>Prelude\<close>: Go's 64-bit integers, durations, error values, the state-and-error monad
  in which every effectful operation is written, and two-state relations: a reflexive and transitive
  relation that the primitive operations have is inherited by every program built from them.
  \<open>World\<close>: the tables (\<open>internal/model\<close>), Redis keys, local caches, time, and a schedule of faults that
  decides for each external call whether it fails. A transaction rolls back on an error or when its
  commit fails. A failing call may be any call, so the theorems speak of every pattern of failures.

  \<^bold>\<open>Cache and locks.\<close> \<open>L2Cache\<close>, \<open>CacheStrategy\<close> (\<open>internal/cache/l2.go\<close>, \<open>l1.go\<close>, \<open>strategy.go\<close>):
  reads and writes of both levels with their background work. \<open>DistLock\<close> (\<open>manager.go\<close>,
  \<open>internal/cluster/leader.go\<close>): locks of any number of processes as a step relation, where a granted lock
  excludes everybody else until its lease is over, and leader election on top of it (the random tokens of
  locks are taken to be fresh). \<open>Reservations\<close>: the Lua scripts that hand out daily points, flash-sale places
  and stock, each with its bound.

  \<^bold>\<open>Points.\<close> \<open>UserRepo\<close> (\<open>internal/repository/user_repo.go\<close>) and \<open>PointsOutbox\<close>
  (\<open>internal/service/common/points_outbox.go\<close>, \<open>points_outbox_repo.go\<close>): balances and the outbox from
  which they are paid; the relay and the consumer compete for the rows.

  \<^bold>\<open>Idle sessions.\<close> \<open>ScanSharding\<close>, \<open>IdleRepo\<close>, \<open>IdleService\<close> (\<open>internal/service/idle\<close>,
  \<open>internal/repository/idle_repo.go\<close>): sessions, heartbeats, settlement, scanners and the division of
  the scan between pods. \<open>IdleInvariants\<close>, \<open>IdleProperties\<close>: every request refines a small step relation
  on the tables, whose invariants say that a session is paid once.

  \<^bold>\<open>Shop.\<close> \<open>Shop\<close>, \<open>ShopService\<close>, \<open>ShopInvariants\<close>, \<open>ShopProperties\<close>
  (\<open>internal/repository/shop_repo.go\<close>, \<open>internal/service/shop\<close>): stock in buckets, redemption, flash
  sales; orders are charged once and, while nobody edits the activities, sales never oversell.

  \<^bold>\<open>Tasks.\<close> \<open>Task\<close>, \<open>TaskService\<close>, \<open>TaskInvariants\<close>, \<open>TaskProperties\<close>
  (\<open>internal/repository/task_repo.go\<close>, \<open>event_dedup_repo.go\<close>, \<open>internal/service/task\<close>): progress counted
  from events, once per event, and rewards. MySQL's order of assignments and its deadlocks are a switch of
  the model: the well-formedness and the counting hold without them, and fail with them.

  \<^bold>\<open>Accounts.\<close> \<open>AccountLock\<close>, \<open>Token\<close>, \<open>AuthService\<close>, \<open>AuthProperties\<close> (\<open>internal/service/auth\<close>,
  \<open>pkg/jwt\<close>, \<open>internal/middleware/auth.go\<close>): failed logins, tokens and their validation, registration,
  login, password change. Hashing and signing are arguments with the laws the code relies on.

  \<^bold>\<open>Events.\<close> \<open>Retry\<close>, \<open>Consumer\<close>, \<open>ConsumerProperties\<close> (\<open>internal/mq/retry.go\<close>, \<open>kafka_consumer.go\<close>,
  \<open>consumer_progress.go\<close>): repetitions of a handler, the stores of the consumed offsets behind one
  contract, and the readers, workers and crashes as a step relation. \<open>Producer\<close>, \<open>ProducerProperties\<close>
  (\<open>producer_base.go\<close>, \<open>kafka.go\<close>, \<open>dlq.go\<close>, \<open>topics.go\<close>): the queue, its overflow, the files of dead
  letters and their replay; with a working file every message handed over
  is accounted for. \<open>Subscription\<close> (\<open>factory.go\<close>,
  \<open>memory.go\<close> and the start of \<open>kafka_consumer.go\<close>): the choice of a queue, the readers of the assigned
  partitions, the queue inside the process. An ordered consumer that starts from the first record loses none;
  one that starts from the latest may lose what it had fetched. \<open>EventFlow\<close> (\<open>internal/bootstrap/app.go\<close>) runs the consumer
  on the task service and the points applier: without a deadlock or a cleanup of the marks an event
  counts once, whatever is redelivered.
  \<open>GoText\<close> and \<open>GoInts\<close> hold the operations of the packages \<open>strings\<close> and \<open>strconv\<close> that the theories
  share.

  \<^bold>\<open>HTTP.\<close> \<open>Http\<close> (\<open>pkg/response\<close>, \<open>internal/middleware\<close>: recovery, timeout, administration token,
  cross-origin rules): an exchange, what is written to it, and the middlewares that keep no state.
  \<open>Admission\<close> (\<open>concurrency.go\<close>, \<open>internal/bootstrap/connlimit.go\<close>): the bounds on connections and on
  requests in flight, both instances of one contract of a gate. \<open>Breaker\<close> (\<open>circuitbreaker.go\<close>,
  \<open>internal/degrade\<close>): the breakers of the routes and the degradation they switch on. \<open>RateLimits\<close>
  (\<open>ratelimit.go\<close>, \<open>security.go\<close>, \<open>captcha.go\<close>): sliding windows, whose count and record are separate
  steps, token buckets and the decision about a captcha. \<open>Handlers\<close>, \<open>ShopHandler\<close>, \<open>HandlerProperties\<close> (\<open>internal/handler\<close>): every handler of the API on
  top of the services above; each answers once, save for a refresh token without an expiry, on which the
  handler panics. \<open>Router\<close> (\<open>internal/router\<close>): the chain of middlewares of each route; every
  request is answered, and without the credentials of its route it changes nothing. An exchange extends
  step by step (\<open>exchange\<close>, \<open>gated\<close>, \<open>guarded\<close>, \<open>limited\<close>, \<open>site\<close>) as each theory adds its state. The
  semaphore, the breaker and the bucket are those of libraries: arguments with their documented laws.
  \<open>WebSocket\<close> (\<open>internal/handler/ws_handler.go\<close>): the hub of the push connections, whose loop serves its
  channels in any order; a connection is sent messages for its user or for everybody, keep-alives, the closing
  frame and at most one answer for each ping of its own, and when the loop keeps the order of beginnings
  and ends no goroutine panics.

  \<^bold>\<open>Background.\<close> \<open>Scheduler\<close> (\<open>internal/scheduler\<close>): jobs by interval and by period as a machine whose
  ticks come at any time, and the minute of a cron expression. \<open>Jobs\<close> (\<open>internal/bootstrap/app.go\<close>,
  \<open>bootstrap.go\<close>): the jobs a process registers on the services above, the gate that leaves them to the
  leader, and what becomes of a degraded write of the cache. \<open>LogStore\<close>, \<open>LogService\<close>
  (\<open>internal/repository/log_repo.go\<close>, \<open>monitor_repo.go\<close>, \<open>internal/service/common/log_service.go\<close>): the
  tables of audit rows and measurements behind one contract, and the bounded queues whose entries are
  written in batches, dropped with a count, or drained at the close. \<open>Configuration\<close>
  (\<open>internal/config\<close>): the checks, the defaults, and the manager that reloads a file once it is quiet
  and keeps what it has when the new one is not accepted.

  \<^bold>\<open>Other brokers.\<close> \<open>Brokers\<close> (\<open>internal/mq/rocketmq.go\<close>, \<open>rabbitmq.go\<close>): with a working file of dead letters
  the batches of RocketMQ lose no message but do not reach the broker or the dead letters while the breaker is open; a message is sent alike
  by all adapters; a confirmation of RabbitMQ that comes too late is taken for the next message's; with
  the table of consumed events injected a redelivered batch starts at the message that failed.

  \<^bold>\<open>Replicas and traces.\<close> \<open>ReadWrite\<close> (\<open>internal/db/rw_db.go\<close>): reads go in turn to the replicas that
  answered last, on a counter of 64 bits that wraps. \<open>Tracing\<close> (\<open>internal/trace\<close>): spans inherit the
  trace of their parent, and the exporter has each ended span at most once.

  \<^bold>\<open>Cache helpers.\<close> \<open>Bloom\<close> (\<open>internal/cache/bloom.go\<close>): hashes on 64-bit words and the filter on bitmaps of
  Redis; an added key is never denied. \<open>HotKeys\<close> (\<open>hotkey.go\<close>): accesses per second and the snapshot of
  the most frequent keys. Real numbers stand for \<open>float64\<close>; rounding is not modelled.

  \<^bold>\<open>Bounds.\<close> No definition needs fuel: the loops of the code run over lists or have a counter (the
  retries of a lock, of a message, of a transaction); only the rounds of RocketMQ at the close, which may
  not end, are counted by an argument that the theorems quantify over. Schedules of faults and of the broker's
  answers are finite lists; when one is used up, calls succeed.

  \<^bold>\<open>Not modelled.\<close> Database drivers, the broker's client, signing and hashing (external); metrics
  and logging (no modelled result depends on them); tickers (the step relations let a round
  happen at any time); the stores on MongoDB, ClickHouse and Elasticsearch, the connections and topics of
  RabbitMQ and RocketMQ (what they do is their clients' own); the health probes, the parsing of the
  configuration and the start-up wiring.
\<close>

end
